(* ===== verification/Hive_Prelude.thy ===== *)
theory Hive_Prelude
  imports Main "HOL-Library.Product_Lexorder" "HOL-Library.List_Lexorder" "HOL-Library.Char_ord"
    "HOL-Library.Code_Target_Nat"
begin

text \<open>
  Shared vocabulary of the development: identifiers and clocks, the SQL table operations the store's
  queries are written with (a table is the list of its rows in the engine's scan order), the Rust
  string functions the sources call, decimal printing and parsing, and the interface of a column
  codec (\<open>as_str\<close> and \<open>parse\<close> of every enum that is stored as text).
  Strings are lists of bytes; the whitespace that \<open>str::trim\<close> removes is the ASCII one.
\<close>

section \<open>Identifiers and time\<close>

text \<open>A uuid is a number and the nil uuid is 0; a timestamp is microseconds since the epoch.\<close>

type_synonym uuid = nat
type_synonym time = int

abbreviation (input) nil_uuid :: uuid where
  "nil_uuid \<equiv> 0"

named_theorems codec_simps "the text forms of the enums"
named_theorems guard_simps "unfolding of the guard's entry points"

section \<open>Tables\<close>

text \<open>\<open>UPDATE t SET f WHERE p\<close>, \<open>DELETE FROM t WHERE p\<close> and \<open>SELECT count(*)\<close>.\<close>

definition update_rows :: "('r \<Rightarrow> bool) \<Rightarrow> ('r \<Rightarrow> 'r) \<Rightarrow> 'r list \<Rightarrow> 'r list" where
  "update_rows p f t = map (\<lambda>r. if p r then f r else r) t"

definition delete_rows :: "('r \<Rightarrow> bool) \<Rightarrow> 'r list \<Rightarrow> 'r list" where
  "delete_rows p t = filter (\<lambda>r. \<not> p r) t"

definition count_rows :: "('r \<Rightarrow> bool) \<Rightarrow> 'r list \<Rightarrow> nat" where
  "count_rows p t = length (filter p t)"

text \<open>\<open>SELECT ... LIMIT n\<close> with the \<open>i64\<close> limit the callers bind; a negative one is no bound.\<close>

definition limit_rows :: "int \<Rightarrow> 'r list \<Rightarrow> 'r list" where
  "limit_rows n t = (if n < 0 then t else take (nat n) t)"

lemma set_update_rows [simp]:
  "set (update_rows p f t) = {f r | r. r \<in> set t \<and> p r} \<union> {r \<in> set t. \<not> p r}"
  by (auto simp: update_rows_def)

lemma in_update_rowsE:
  assumes "r \<in> set (update_rows p f t)"
  obtains (changed) r0 where "r0 \<in> set t" "p r0" "r = f r0" | (kept) "r \<in> set t" "\<not> p r"
  using assms by (auto simp: update_rows_def)

lemma length_update_rows [simp]: "length (update_rows p f t) = length t"
  by (simp add: update_rows_def)

lemma map_update_rows_same [simp]:
  "(\<And>r. p r \<Longrightarrow> k (f r) = k r) \<Longrightarrow> map k (update_rows p f t) = map k t"
  by (simp add: update_rows_def)

lemma update_rows_no_match: "(\<And>r. r \<in> set t \<Longrightarrow> \<not> p r) \<Longrightarrow> update_rows p f t = t"
  by (simp add: update_rows_def map_idI)

lemma set_delete_rows [simp]: "set (delete_rows p t) = {r \<in> set t. \<not> p r}"
  by (simp add: delete_rows_def)

lemma distinct_map_delete_rows [simp]:
  "distinct (map k t) \<Longrightarrow> distinct (map k (delete_rows p t))"
  by (simp add: delete_rows_def distinct_map_filter)

lemma count_rows_0 [simp]: "count_rows p t = 0 \<longleftrightarrow> (\<forall>r \<in> set t. \<not> p r)"
  by (auto simp: count_rows_def filter_empty_conv)

lemma count_rows_pos [simp]: "0 < count_rows p t \<longleftrightarrow> (\<exists>r \<in> set t. p r)"
  using count_rows_0 [of p t] by (auto simp del: count_rows_0 simp: neq0_conv [symmetric])

lemma set_limit_rows: "set (limit_rows n t) \<subseteq> set t"
  by (auto simp: limit_rows_def dest: in_set_takeD)

lemma sorted_limit_rows [simp]: "sorted (map k t) \<Longrightarrow> sorted (map k (limit_rows n t))"
  by (simp add: limit_rows_def take_map [symmetric] sorted_wrt_take)

lemma distinct_limit_rows [simp]: "distinct (map k t) \<Longrightarrow> distinct (map k (limit_rows n t))"
  by (simp add: limit_rows_def take_map [symmetric])

lemma find_SomeD: "List.find p xs = Some x \<Longrightarrow> x \<in> set xs \<and> p x"
  by (induction xs) (auto split: if_splits)

lemma find_eq_None: "List.find p xs = None \<longleftrightarrow> (\<forall>x \<in> set xs. \<not> p x)"
  by (induction xs) auto

lemma find_neq_None: "List.find p xs \<noteq> None \<longleftrightarrow> (\<exists>x \<in> set xs. p x)"
  using find_eq_None [of p xs] by auto

lemma find_append:
  "List.find p (xs @ ys) = (case List.find p xs of None \<Rightarrow> List.find p ys | Some x \<Rightarrow> Some x)"
  by (induction xs) auto

lemma find_cong_on: "(\<And>x. x \<in> set xs \<Longrightarrow> p x = q x) \<Longrightarrow> List.find p xs = List.find q xs"
  by (induction xs) auto

lemma find_map_key:
  assumes "\<And>x. k (f x) = k x"
  shows "List.find (\<lambda>x. k x = a) (map f xs) = map_option f (List.find (\<lambda>x. k x = a) xs)"
  by (induction xs) (auto simp: assms)

lemma find_key_update_rows:
  assumes "\<And>r. p r \<Longrightarrow> k (f r) = k r"
  shows "List.find (\<lambda>r. k r = a) (update_rows p f t) =
    map_option (\<lambda>r. if p r then f r else r) (List.find (\<lambda>r. k r = a) t)"
  by (induction t) (auto simp: update_rows_def assms)

lemma find_unique_key:
  assumes "distinct (map k t)" "r \<in> set t" "k r = a"
  shows "List.find (\<lambda>r. k r = a) t = Some r"
  using assms by (induction t) force+

section \<open>Characters and strings\<close>

definition is_digit :: "char \<Rightarrow> bool" where
  "is_digit c \<longleftrightarrow> 48 \<le> (of_char c :: nat) \<and> (of_char c :: nat) \<le> 57"

definition is_lower :: "char \<Rightarrow> bool" where
  "is_lower c \<longleftrightarrow> 97 \<le> (of_char c :: nat) \<and> (of_char c :: nat) \<le> 122"

definition is_upper :: "char \<Rightarrow> bool" where
  "is_upper c \<longleftrightarrow> 65 \<le> (of_char c :: nat) \<and> (of_char c :: nat) \<le> 90"

definition is_space :: "char \<Rightarrow> bool" where
  "is_space c \<longleftrightarrow> (of_char c :: nat) \<in> {9, 10, 11, 12, 13, 32}"

definition to_ascii_lowercase :: "string \<Rightarrow> string" where
  "to_ascii_lowercase s =
     map (\<lambda>c. if is_upper c then char_of ((of_char c :: nat) + 32) else c) s"

definition trim :: "string \<Rightarrow> string" where
  "trim s = rev (dropWhile is_space (rev (dropWhile is_space s)))"

fun strip_prefix :: "string \<Rightarrow> string \<Rightarrow> string option" where
  "strip_prefix [] s = Some s"
| "strip_prefix (p # ps) [] = None"
| "strip_prefix (p # ps) (c # cs) = (if p = c then strip_prefix ps cs else None)"

definition starts_with :: "string \<Rightarrow> string \<Rightarrow> bool" where
  "starts_with p s \<longleftrightarrow> strip_prefix p s \<noteq> None"

definition ends_with :: "string \<Rightarrow> string \<Rightarrow> bool" where
  "ends_with p s \<longleftrightarrow> strip_prefix (rev p) (rev s) \<noteq> None"

text \<open>\<open>s.split(c)\<close>: the pieces between the separators, never an empty list.\<close>

fun split_on :: "char \<Rightarrow> string \<Rightarrow> string list" where
  "split_on d [] = [[]]"
| "split_on d (c # cs) =
     (if c = d then [] # split_on d cs
      else (case split_on d cs of [] \<Rightarrow> [[c]] | w # ws \<Rightarrow> (c # w) # ws))"

fun join_with :: "char \<Rightarrow> string list \<Rightarrow> string" where
  "join_with d [] = []"
| "join_with d [w] = w"
| "join_with d (w # v # ws) = w @ d # join_with d (v # ws)"

fun split_once :: "char \<Rightarrow> string \<Rightarrow> (string \<times> string) option" where
  "split_once d [] = None"
| "split_once d (c # cs) =
     (if c = d then Some ([], cs)
      else map_option (\<lambda>(a, b). (c # a, b)) (split_once d cs))"

definition rsplit_once :: "char \<Rightarrow> string \<Rightarrow> (string \<times> string) option" where
  "rsplit_once d s = map_option (\<lambda>(a, b). (rev b, rev a)) (split_once d (rev s))"

lemma strip_prefix_Some [simp]: "strip_prefix p s = Some r \<longleftrightarrow> s = p @ r"
  by (induction p s rule: strip_prefix.induct) auto

lemma starts_with_iff: "starts_with p s \<longleftrightarrow> (\<exists>r. s = p @ r)"
  by (auto simp: starts_with_def)

lemma ends_with_iff: "ends_with p s \<longleftrightarrow> (\<exists>r. s = r @ p)"
proof -
  have "(\<exists>r. rev s = rev p @ r) \<longleftrightarrow> (\<exists>r. s = r @ p)"
    by (metis rev_append rev_rev_ident)
  then show ?thesis by (auto simp: ends_with_def)
qed

lemma split_on_nonempty [simp]: "split_on d s \<noteq> []"
  by (induction s) (auto split: list.splits)

lemma split_on_no_sep: "w \<in> set (split_on d s) \<Longrightarrow> d \<notin> set w"
  by (induction s arbitrary: w) (auto split: list.splits if_splits)

lemma join_with_Cons: "join_with d ((c # w) # ws) = c # join_with d (w # ws)"
  by (cases ws) simp_all

lemma join_with_Nil: "ws \<noteq> [] \<Longrightarrow> join_with d ([] # ws) = d # join_with d ws"
  by (cases ws) simp_all

lemma join_split [simp]: "join_with d (split_on d s) = s"
proof (induction s)
  case (Cons c cs)
  then show ?case
    by (cases "split_on d cs") (auto simp: join_with_Cons join_with_Nil)
qed simp

lemma split_on_atom: "d \<notin> set w \<Longrightarrow> split_on d w = [w]"
  by (induction w) auto

lemma split_on_append: "d \<notin> set w \<Longrightarrow> split_on d (w @ d # s) = w # split_on d s"
  by (induction w) auto

lemma split_join:
  assumes "ws \<noteq> []" "\<forall>w \<in> set ws. d \<notin> set w"
  shows "split_on d (join_with d ws) = ws"
  using assms
  by (induction ws rule: join_with.induct [where ?a0.0 = d, case_names Nil One More])
     (auto simp: split_on_atom split_on_append)

lemma split_once_Some:
  "split_once d s = Some (a, b) \<longleftrightarrow> s = a @ d # b \<and> d \<notin> set a"
proof (induction s arbitrary: a)
  case (Cons c cs)
  then show ?case by (cases a) auto
qed simp

lemma split_once_None: "split_once d s = None \<longleftrightarrow> d \<notin> set s"
  by (induction s) auto

section \<open>Decimal numbers\<close>

fun show_nat :: "nat \<Rightarrow> string" where
  "show_nat n =
     (if n < 10 then [char_of (48 + n :: nat)] else show_nat (n div 10) @ [char_of (48 + n mod 10 :: nat)])"

declare show_nat.simps [simp del]

definition show_int :: "int \<Rightarrow> string" where
  "show_int i = (if i < 0 then CHR ''-'' # show_nat (nat (- i)) else show_nat (nat i))"

fun parse_digits :: "nat \<Rightarrow> string \<Rightarrow> nat option" where
  "parse_digits a [] = Some a"
| "parse_digits a (c # cs) =
     (if is_digit c then parse_digits (10 * a + (of_char c - 48)) cs else None)"

text \<open>\<open>str::parse\<close> of an unsigned integer: an optional \<open>+\<close>, at least one digit, no overflow.\<close>

definition parse_unsigned :: "nat \<Rightarrow> string \<Rightarrow> nat option" where
  "parse_unsigned hi s =
     (let ds = (case s of c # cs \<Rightarrow> if c = CHR ''+'' \<and> cs \<noteq> [] then cs else s | [] \<Rightarrow> [])
      in if ds = [] then None
         else (case parse_digits 0 ds of
                 None \<Rightarrow> None
               | Some n \<Rightarrow> if n \<le> hi then Some n else None))"

text \<open>\<open>str::parse::<i64>\<close>: the same with an optional minus sign.\<close>

definition i64_max :: int where "i64_max = 2 ^ 63 - 1"
definition i64_min :: int where "i64_min = - (2 ^ 63)"

definition parse_i64 :: "string \<Rightarrow> int option" where
  "parse_i64 s =
     (case s of
        [] \<Rightarrow> None
      | c # cs \<Rightarrow>
          let (neg, ds) = (if c = CHR ''-'' then (True, cs)
                           else if c = CHR ''+'' then (False, cs) else (False, s))
          in if ds = [] then None
             else (case parse_digits 0 ds of
                     None \<Rightarrow> None
                   | Some n \<Rightarrow>
                       let v = (if neg then - int n else int n)
                       in if i64_min \<le> v \<and> v \<le> i64_max then Some v else None))"

lemma parse_digits_append:
  "parse_digits a (xs @ ys) = Option.bind (parse_digits a xs) (\<lambda>b. parse_digits b ys)"
  by (induction a xs rule: parse_digits.induct) auto

lemma is_digit_of_nat [simp]: "d < 10 \<Longrightarrow> is_digit (char_of (48 + d :: nat))"
  by (simp add: is_digit_def)

lemma of_char_digit [simp]: "d < 10 \<Longrightarrow> of_char (char_of (48 + d :: nat) :: char) - (48::nat) = d"
  by simp

lemma show_nat_digits: "c \<in> set (show_nat n) \<Longrightarrow> is_digit c"
  by (induction n arbitrary: c rule: show_nat.induct)
     (subst (asm) show_nat.simps, auto split: if_splits)

lemma show_nat_nonempty [simp]: "show_nat n \<noteq> []"
  by (subst show_nat.simps) simp

lemma parse_digits_show_nat: "parse_digits 0 (show_nat n) = Some n"
proof (induction n rule: show_nat.induct)
  case (1 n)
  show ?case
  proof (cases "n < 10")
    case True
    then show ?thesis by (subst show_nat.simps) simp
  next
    case False
    with "1.IH" have "parse_digits 0 (show_nat (n div 10)) = Some (n div 10)" by simp
    with False show ?thesis by (subst show_nat.simps) (simp add: parse_digits_append)
  qed
qed

lemma not_digit_signs [simp]: "\<not> is_digit (CHR ''-'')" "\<not> is_digit (CHR ''+'')"
  by (simp_all add: is_digit_def)

lemma show_nat_no_sign [simp]: "CHR ''-'' \<notin> set (show_nat n)"
  using show_nat_digits not_digit_signs(1) by blast

lemma hd_show_nat_no_sign [simp]: "show_nat n \<noteq> CHR ''-'' # cs" "show_nat n \<noteq> CHR ''+'' # cs"
  using show_nat_digits [of _ n] not_digit_signs by (metis list.set_intros(1))+

lemma parse_i64_show_int:
  assumes "i64_min \<le> i" "i \<le> i64_max"
  shows "parse_i64 (show_int i) = Some i"
proof (cases "i < 0")
  case True
  with assms show ?thesis
    by (simp add: parse_i64_def show_int_def parse_digits_show_nat)
next
  case False
  obtain c cs where s: "show_nat (nat i) = c # cs" by (cases "show_nat (nat i)") auto
  then have "c \<noteq> CHR ''-''" "c \<noteq> CHR ''+''" using hd_show_nat_no_sign by metis+
  with False assms s parse_digits_show_nat [of "nat i"] show ?thesis
    by (simp add: parse_i64_def show_int_def)
qed

lemma parse_i64_range: "parse_i64 s = Some i \<Longrightarrow> i64_min \<le> i \<and> i \<le> i64_max"
  by (auto simp: parse_i64_def Let_def split: list.splits option.splits if_splits)

section \<open>Column codecs\<close>

text \<open>
  Every enum of the store has an \<open>as_str\<close> and most a \<open>parse\<close>: what is written to a text column is
  read back as the value it came from. The interface asks for that one law.
\<close>

locale column_codec =
  fixes enc :: "'a \<Rightarrow> string"
    and dec :: "string \<Rightarrow> 'a option"
  assumes dec_enc: "dec (enc x) = Some x"
begin

lemma enc_inject [simp]: "enc x = enc y \<longleftrightarrow> x = y"
  by (metis dec_enc option.inject)

lemma dec_complete: "dec s = None \<Longrightarrow> s \<notin> range enc"
  using dec_enc by force

lemma map_option_dec_enc: "Option.bind (map_option enc r) dec = r"
  by (cases r) (simp_all add: dec_enc)

end

end
