(* ===== verification/Hive_Identity.thy ===== *)
theory Hive_Identity
  imports Hive_Prelude
begin

text \<open>
  The credential every layer passes around (\<open>crates/hive-identity\<close>): who acted, and whose authority
  is being spent. The kinds carry their column forms; \<open>validate\<close> refuses a credential with a nil
  half and \<open>owner_of\<close> reads the owner off the principal, never off the actor.
\<close>

section \<open>Principals, credentials and owners\<close>

datatype principal_kind = User | Org

fun principal_kind_as_str :: "principal_kind \<Rightarrow> string" where
  "principal_kind_as_str User = ''user''"
| "principal_kind_as_str Org = ''org''"

definition principal_kind_parse :: "string \<Rightarrow> principal_kind option" where
  "principal_kind_parse s =
     (if s = ''user'' then Some User else if s = ''org'' then Some Org else None)"

record credential =
  actor_id :: uuid
  principal_kind :: principal_kind
  principal_id :: uuid

record owner =
  o_kind :: principal_kind
  o_id :: uuid

datatype identity_error = IncompleteCredential

definition credential_validate :: "credential \<Rightarrow> identity_error + unit" where
  "credential_validate c =
     (if actor_id c = nil_uuid \<or> principal_id c = nil_uuid then Inl IncompleteCredential
      else Inr ())"

definition owner_of :: "credential \<Rightarrow> owner" where
  "owner_of c = \<lparr>o_kind = principal_kind c, o_id = principal_id c\<rparr>"

definition owner_user :: "uuid \<Rightarrow> owner" where
  "owner_user i = \<lparr>o_kind = User, o_id = i\<rparr>"

definition owner_org :: "uuid \<Rightarrow> owner" where
  "owner_org i = \<lparr>o_kind = Org, o_id = i\<rparr>"

section \<open>Lemmas\<close>

interpretation pk: column_codec principal_kind_as_str principal_kind_parse
proof
  show "principal_kind_parse (principal_kind_as_str x) = Some x" for x
    by (cases x) (simp_all add: principal_kind_parse_def)
qed

lemma principal_kind_parse_Some [simp]:
  "principal_kind_parse s = Some k \<longleftrightarrow> s = principal_kind_as_str k"
  by (cases k) (auto simp: principal_kind_parse_def)

lemma owner_of_simps [simp]:
  "o_kind (owner_of c) = principal_kind c" "o_id (owner_of c) = principal_id c"
  by (simp_all add: owner_of_def)

lemma owner_of_eq: "owner_of c = w \<longleftrightarrow> principal_kind c = o_kind w \<and> principal_id c = o_id w"
  by (cases w) (auto simp: owner_of_def)

lemma owner_eqI: "o_kind v = o_kind w \<Longrightarrow> o_id v = o_id w \<Longrightarrow> v = (w :: owner)"
  by simp

lemma credential_validate_ok [simp]:
  "credential_validate c = Inr u \<longleftrightarrow> actor_id c \<noteq> nil_uuid \<and> principal_id c \<noteq> nil_uuid"
  by (auto simp: credential_validate_def)

end
