(* ===== verification/Hive_Trust.thy ===== *)
theory Hive_Trust
  imports Hive_Prelude
begin

text \<open>
  Provenance (\<open>crates/hive-trust\<close>): the two trust levels, their column form and \<open>weaker\<close>, the only
  operation by which the trust of an invocation changes. The interface \<open>taint_order\<close> is what the
  rest of the platform relies on: a level that absorbs everything it is combined with.
\<close>

section \<open>Levels\<close>

datatype level = Trusted | Untrusted

fun level_as_str :: "level \<Rightarrow> string" where
  "level_as_str Trusted = ''trusted''"
| "level_as_str Untrusted = ''untrusted''"

definition level_from_db :: "string \<Rightarrow> level" where
  "level_from_db s = (if s = ''trusted'' \<or> s = '''' then Trusted else Untrusted)"

definition level_valid :: "string \<Rightarrow> bool" where
  "level_valid s \<longleftrightarrow> s = ''trusted'' \<or> s = ''untrusted''"

definition weaker :: "level \<Rightarrow> level \<Rightarrow> level" where
  "weaker a b = (if a = Untrusted \<or> b = Untrusted then Untrusted else Trusted)"

definition is_untrusted :: "level \<Rightarrow> bool" where
  "is_untrusted l \<longleftrightarrow> l = Untrusted"

text \<open>Taint over an invocation: the levels of what it read, combined one after the other.\<close>

definition taint :: "level \<Rightarrow> level list \<Rightarrow> level" where
  "taint l ls = foldl weaker l ls"

section \<open>The taint interface\<close>

locale taint_order =
  fixes combine :: "'l \<Rightarrow> 'l \<Rightarrow> 'l"
    and low :: 'l
    and high :: 'l
  assumes combine_assoc: "combine (combine a b) c = combine a (combine b c)"
    and combine_comm: "combine a b = combine b a"
    and combine_idem: "combine a a = a"
    and combine_low: "combine a low = low"
    and combine_high: "combine a high = a"
begin

definition below :: "'l \<Rightarrow> 'l \<Rightarrow> bool" where
  "below a b \<longleftrightarrow> combine a b = a"

lemma below_refl: "below a a"
  by (simp add: below_def combine_idem)

lemma below_trans: "below a b \<Longrightarrow> below b c \<Longrightarrow> below a c"
  unfolding below_def by (metis combine_assoc)

lemma combine_below: "below (combine a b) a" "below (combine a b) b"
  unfolding below_def by (metis combine_assoc combine_comm combine_idem)+

lemma foldl_low: "foldl combine low ls = low"
  by (induction ls) (simp_all add: combine_comm [of low] combine_low)

lemma foldl_below: "below (foldl combine l ls) l"
  by (induction ls arbitrary: l) (auto intro: below_refl below_trans combine_below)

lemma foldl_absorbs: "low \<in> set ls \<Longrightarrow> foldl combine l ls = low"
proof (induction ls arbitrary: l)
  case (Cons x ls)
  show ?case
  proof (cases "low = x")
    case True
    then show ?thesis using combine_low foldl_low by simp
  next
    case False
    with Cons show ?thesis by simp
  qed
qed simp

end

interpretation lv: taint_order weaker Untrusted Trusted
  by unfold_locales (auto simp: weaker_def, (metis level.exhaust)+)

section \<open>Properties\<close>

lemma level_cases_weaker [simp]:
  "weaker Untrusted l = Untrusted" "weaker l Untrusted = Untrusted"
  "weaker Trusted l = l" "weaker l Trusted = l"
  by (cases l; simp add: weaker_def)+

lemma level_from_as [simp]: "level_from_db (level_as_str l) = l"
  by (cases l) (simp_all add: level_from_db_def)

lemma weaker_Trusted_iff: "weaker a b = Trusted \<longleftrightarrow> a = Trusted \<and> b = Trusted"
  by (cases a; cases b) (simp_all add: weaker_def)

text \<open>
  Taint is monotone over an invocation. Whatever is combined in whatever order, the result is
  untrusted exactly when the invocation started untrusted or read something untrusted, so no
  sequence of \<open>weaker\<close> calls ever climbs back; and a column value the schema does not know resolves
  to untrusted, never to trusted.
\<close>

theorem taint_never_climbs:
  "(taint l ls = Untrusted \<longleftrightarrow> l = Untrusted \<or> Untrusted \<in> set ls) \<and>
   (level_from_db s = Trusted \<longleftrightarrow> s \<in> {''trusted'', ''''})"
proof (intro conjI iffI)
  assume t: "taint l ls = Untrusted"
  show "l = Untrusted \<or> Untrusted \<in> set ls"
  proof (rule ccontr)
    assume n: "\<not> (l = Untrusted \<or> Untrusted \<in> set ls)"
    then have "l = Trusted" by (cases l) simp_all
    moreover from n have "\<forall>x \<in> set ls. x = Trusted" by (metis level.exhaust)
    ultimately have "foldl weaker l ls = Trusted" by (induction ls arbitrary: l) auto
    with t show False by (simp add: taint_def)
  qed
next
  assume "l = Untrusted \<or> Untrusted \<in> set ls"
  then show "taint l ls = Untrusted"
    using lv.foldl_low lv.foldl_absorbs by (auto simp: taint_def)
qed (auto simp: level_from_db_def split: if_splits)

end
