(* ===== verification/Hive_Schema.thy ===== *)
theory Hive_Schema
  imports Hive_Identity Hive_Trust
begin

text \<open>
  The control-plane tables every authorization question reads (\<open>crates/hive-schema\<close>, migration one)
  and the enums of \<open>crates/hive-store/src/grants.rs\<close> stored in them. A table is a list of records; a
  nullable column is an option; a column whose CHECK admits a closed set of words is the datatype of
  those words. The three target columns of a grant, of which the CHECK \<open>grants_target_shape\<close> fills
  exactly the ones its kind names, are one datatype. Of a build's manifest the tables' readers use the
  \<open>uses\<close> only: \<open>b_uses\<close> is what \<open>serde_json\<close> makes of them, None where they do not parse. Text of error messages is kept only where it is
  fixed; the engine's refusals carry the rule that refused.
\<close>

section \<open>Enums of the grant layer\<close>

datatype subject_kind = SInstall | STool | SRoute | SCollection | SEntity | SConversation

fun subject_kind_as_str :: "subject_kind \<Rightarrow> string" where
  "subject_kind_as_str SInstall = ''install''"
| "subject_kind_as_str STool = ''tool''"
| "subject_kind_as_str SRoute = ''route''"
| "subject_kind_as_str SCollection = ''collection''"
| "subject_kind_as_str SEntity = ''entity''"
| "subject_kind_as_str SConversation = ''conversation''"

definition subject_kind_parse :: "string \<Rightarrow> subject_kind option" where
  "subject_kind_parse s =
     (if s = ''install'' then Some SInstall
      else if s = ''tool'' then Some STool
      else if s = ''route'' then Some SRoute
      else if s = ''collection'' then Some SCollection
      else if s = ''entity'' then Some SEntity
      else if s = ''conversation'' then Some SConversation
      else None)"

datatype access = Read | Write | Call

datatype grant_source = Direct | Inherited | Override

record subject =
  s_kind :: subject_kind
  s_id :: uuid
  s_name :: "string option"

definition subject_new :: "subject_kind \<Rightarrow> uuid \<Rightarrow> subject" where
  "subject_new k i = \<lparr>s_kind = k, s_id = i, s_name = None\<rparr>"

definition subject_named :: "subject_kind \<Rightarrow> uuid \<Rightarrow> string \<Rightarrow> subject" where
  "subject_named k i n = \<lparr>s_kind = k, s_id = i, s_name = Some n\<rparr>"

section \<open>Rows\<close>

datatype actor_kind = HumanActor | AiActor | OrgActor
datatype member_role = Member | Admin
datatype build_status = Building | Registered | BuildFailed | Withdrawn
datatype install_state = Active | Disabled | Uninstalling
datatype use_access = UseRead | UseWrite

record actor =
  a_id :: uuid
  a_kind :: actor_kind
  a_principal_kind :: principal_kind
  a_principal_id :: uuid
  a_disabled_at :: "time option"

record org_member =
  m_org_id :: uuid
  m_user_id :: uuid
  m_role :: member_role

record use_decl =
  u_app :: string
  u_collection :: string
  u_access :: use_access

record app_build =
  b_id :: uuid
  b_slug :: string
  b_status :: build_status
  b_uses :: "use_decl list option"

record install =
  i_id :: uuid
  i_build_id :: uuid
  i_slug :: string
  i_owner :: owner
  i_installed_by :: uuid
  i_activated_by :: "uuid option"
  i_authority :: "uuid option"
  i_schema_name :: string
  i_state :: install_state
  i_created_at :: time

record install_authority =
  ia_id :: uuid
  ia_install_id :: uuid
  ia_holder :: owner
  ia_capability :: string
  ia_by :: credential
  ia_reason :: string
  ia_created_at :: time
  ia_expires_at :: "time option"
  ia_revoked_at :: "time option"
  ia_revoked_by :: "uuid option"

record entity =
  e_id :: uuid
  e_kind :: string
  e_owner :: owner
  e_created_at :: time
  e_deleted_at :: "time option"

record conversation =
  cv_id :: uuid
  cv_author :: uuid
  cv_owner :: owner
  cv_runtime :: string
  cv_model :: string
  cv_title :: string
  cv_created_at :: time
  cv_updated_at :: time
  cv_archived_at :: "time option"

datatype target = TargetPrincipal owner | TargetInstall uuid

record grant =
  g_id :: uuid
  g_subject :: subject
  g_target :: target
  g_access :: access
  g_source :: grant_source
  g_inherited_from :: "uuid option"
  g_by :: credential
  g_reason :: string
  g_created_at :: time
  g_expires_at :: "time option"
  g_revoked_at :: "time option"
  g_revoked_by :: "uuid option"

record core_db =
  actors :: "actor list"
  org_members :: "org_member list"
  app_builds :: "app_build list"
  installs :: "install list"
  install_authorities :: "install_authority list"
  entities :: "entity list"
  conversations :: "conversation list"
  grants :: "grant list"

section \<open>Lookups\<close>

definition find_actor :: "'z core_db_scheme \<Rightarrow> uuid \<Rightarrow> actor option" where
  "find_actor db i = List.find (\<lambda>a. a_id a = i) (actors db)"

definition find_install :: "'z core_db_scheme \<Rightarrow> uuid \<Rightarrow> install option" where
  "find_install db i = List.find (\<lambda>r. i_id r = i) (installs db)"

definition find_build :: "'z core_db_scheme \<Rightarrow> uuid \<Rightarrow> app_build option" where
  "find_build db i = List.find (\<lambda>r. b_id r = i) (app_builds db)"

definition is_member :: "'z core_db_scheme \<Rightarrow> uuid \<Rightarrow> uuid \<Rightarrow> bool" where
  "is_member db org user \<longleftrightarrow>
     (\<exists>m \<in> set (org_members db). m_org_id m = org \<and> m_user_id m = user)"

definition is_admin :: "'z core_db_scheme \<Rightarrow> uuid \<Rightarrow> uuid \<Rightarrow> bool" where
  "is_admin db org user \<longleftrightarrow>
     (\<exists>m \<in> set (org_members db). m_org_id m = org \<and> m_user_id m = user \<and> m_role m = Admin)"

text \<open>The view \<open>subject_owners\<close>: one arm per kind, in the order of its UNION ALL.\<close>

definition subject_owners :: "'z core_db_scheme \<Rightarrow> (subject_kind \<times> uuid \<times> owner) list" where
  "subject_owners db =
     map (\<lambda>e. (SEntity, e_id e, e_owner e)) (entities db)
   @ map (\<lambda>c. (SConversation, cv_id c, cv_owner c)) (conversations db)
   @ map (\<lambda>i. (SInstall, i_id i, i_owner i)) (installs db)
   @ map (\<lambda>i. (STool, i_id i, i_owner i)) (installs db)
   @ map (\<lambda>i. (SRoute, i_id i, i_owner i)) (installs db)
   @ map (\<lambda>i. (SCollection, i_id i, i_owner i)) (installs db)"

definition subject_owner :: "'z core_db_scheme \<Rightarrow> subject_kind \<Rightarrow> uuid \<Rightarrow> owner option" where
  "subject_owner db k i =
     map_option (\<lambda>(_, _, w). w)
       (List.find (\<lambda>(k', i', _). k' = k \<and> i' = i) (subject_owners db))"

section \<open>Errors\<close>

datatype refusal =
    NoSubject | NoGrantingActor | NotBound | OverrideNotHuman | OverridePersonalRow
  | OverrideNotAdmin | NotOwningPrincipal | AiCrossesBoundary | NotHumanDelegate | NoInstall
  | CheckViolation string | UniqueViolation | ForeignKeyViolation | TriggerAbort string | DecodeError string

datatype store_error =
    Denied
  | NotHuman
  | NoCredential
  | InvalidInput string
  | BadEventKind string
  | WouldDeleteDirectGrant
  | NoRows
  | CredentialError identity_error
  | DbError string refusal
  | HostDenied | HostInvalid string | HostNotFound string | HostInternal
  | Other string

section \<open>Lemmas\<close>

interpretation sk: column_codec subject_kind_as_str subject_kind_parse
proof
  show "subject_kind_parse (subject_kind_as_str x) = Some x" for x
    by (cases x) (simp_all add: subject_kind_parse_def)
qed

lemma subject_simps [simp]:
  "s_kind (subject_new k i) = k" "s_id (subject_new k i) = i" "s_name (subject_new k i) = None"
  "s_kind (subject_named k i n) = k" "s_id (subject_named k i n) = i"
  "s_name (subject_named k i n) = Some n"
  by (simp_all add: subject_new_def subject_named_def)

lemma find_actor_SomeD: "find_actor db i = Some a \<Longrightarrow> a \<in> set (actors db) \<and> a_id a = i"
  unfolding find_actor_def by (drule find_SomeD) simp

lemma find_install_SomeD: "find_install db i = Some r \<Longrightarrow> r \<in> set (installs db) \<and> i_id r = i"
  unfolding find_install_def by (drule find_SomeD) simp

lemma is_admin_member: "is_admin db org user \<Longrightarrow> is_member db org user"
  by (auto simp: is_admin_def is_member_def)

text \<open>What the authorization reads: a change that keeps these tables keeps every answer.\<close>

lemma directory_cong:
  assumes "actors db' = actors db" "org_members db' = org_members db"
  shows "find_actor db' i = find_actor db i" "is_member db' o' u = is_member db o' u"
    "is_admin db' o' u = is_admin db o' u"
  using assms by (simp_all add: find_actor_def is_member_def is_admin_def)

lemma subject_owner_cong:
  assumes "entities db' = entities db" "conversations db' = conversations db"
    and k: "map (\<lambda>i. (i_id i, i_owner i)) (installs db') = map (\<lambda>i. (i_id i, i_owner i)) (installs db)"
  shows "subject_owner db' k i = subject_owner db k i"
proof -
  have "map (\<lambda>i. (kk, i_id i, i_owner i)) (installs db') =
        map (\<lambda>i. (kk, i_id i, i_owner i)) (installs db)" for kk :: subject_kind
    using arg_cong [OF k, of "map (Pair kk)"] by (simp add: comp_def)
  then show ?thesis
    using assms(1,2) by (simp add: subject_owner_def subject_owners_def)
qed

text \<open>An install and everything named under it belong to the install's owner.\<close>

lemma find_arm:
  "List.find (\<lambda>(k', i', _). k' = k \<and> i' = y) (map (\<lambda>r. (kk, f r, h r)) xs) =
     (if kk = k then map_option (\<lambda>r. (kk, f r, h r)) (List.find (\<lambda>r. f r = y) xs) else None)"
  by (induction xs) auto

lemma subject_owner_install:
  assumes "k \<in> {SInstall, STool, SRoute, SCollection}"
  shows "subject_owner db k i = map_option i_owner (find_install db i)"
  using assms unfolding subject_owner_def subject_owners_def find_append find_arm find_install_def
  by (cases "List.find (\<lambda>r. i_id r = i) (installs db)") auto

end
