(* ===== verification/Hive_Predicate.thy ===== *)
theory Hive_Predicate
  imports Hive_Schema
begin

text \<open>
  The one decision text (\<open>crates/hive-store/src/predicate.rs\<close>). The SQL is three nested derived
  tables; the model keeps that shape: the innermost resolves the acting kind and the owner and probes
  each grant branch once (\<open>g1\<close> to \<open>g4\<close>), the middle one picks the principal's branch in the fixed
  order, the outer one applies the collection gate. NULL is None, and \<open>LIMIT 1\<close> with no order is the
  first row of the scan. The reason is still the text the query returns; \<open>Hive_Guard\<close> parses it.
  The second half states what the decision promises without any of that shape and proves that the
  decision implements it.
\<close>

section \<open>The arguments of the predicate\<close>

record args =
  ar_subject_kind :: subject_kind
  ar_subject_id :: uuid
  ar_subject_name :: "string option"
  ar_principal_kind :: principal_kind
  ar_principal_id :: uuid
  ar_actor_id :: uuid
  ar_access :: access
  ar_now :: time
  ar_acting_install :: "uuid option"

section \<open>The composed query\<close>

text \<open>Credential coherence. A missing actor matches no arm of the CASE and gives NULL.\<close>

definition acting_kind :: "'z core_db_scheme \<Rightarrow> uuid \<Rightarrow> principal_kind \<Rightarrow> uuid \<Rightarrow> actor_kind option" where
  "acting_kind db act pk pid =
     (case find_actor db act of
        None \<Rightarrow> None
      | Some a \<Rightarrow>
          if a_disabled_at a \<noteq> None then None
          else (case a_kind a of
                  AiActor \<Rightarrow>
                    if a_principal_kind a = pk \<and> a_principal_id a = pid then Some AiActor else None
                | HumanActor \<Rightarrow>
                    if (pk = User \<and> pid = act) \<or> (pk = Org \<and> is_member db pid act)
                    then Some HumanActor else None
                | OrgActor \<Rightarrow> None))"

definition access_satisfies :: "access \<Rightarrow> access \<Rightarrow> bool" where
  "access_satisfies held required \<longleftrightarrow>
     held = required \<or> (required = Read \<and> held = Write)"

definition grant_live :: "time \<Rightarrow> grant \<Rightarrow> bool" where
  "grant_live now g \<longleftrightarrow>
     g_revoked_at g = None \<and> (case g_expires_at g of None \<Rightarrow> True | Some e \<Rightarrow> now < e)"

definition arg_subject :: "args \<Rightarrow> subject" where
  "arg_subject a = \<lparr>s_kind = ar_subject_kind a, s_id = ar_subject_id a, s_name = ar_subject_name a\<rparr>"

definition probe_g1 :: "'z core_db_scheme \<Rightarrow> args \<Rightarrow> grant option" where
  "probe_g1 db a =
     List.find (\<lambda>g. g_subject g = arg_subject a
                  \<and> g_target g = TargetPrincipal \<lparr>o_kind = ar_principal_kind a, o_id = ar_principal_id a\<rparr>
                  \<and> g_source g \<noteq> Override
                  \<and> access_satisfies (g_access g) (ar_access a) \<and> grant_live (ar_now a) g)
       (grants db)"

definition probe_g2 :: "'z core_db_scheme \<Rightarrow> args \<Rightarrow> grant option" where
  "probe_g2 db a =
     List.find (\<lambda>g. g_subject g = arg_subject a
                  \<and> (case g_target g of
                       TargetPrincipal w \<Rightarrow> o_kind w = Org \<and> is_member db (o_id w) (ar_principal_id a)
                     | TargetInstall _ \<Rightarrow> False)
                  \<and> g_source g \<noteq> Override
                  \<and> access_satisfies (g_access g) (ar_access a) \<and> grant_live (ar_now a) g)
       (grants db)"

definition probe_g3 :: "'z core_db_scheme \<Rightarrow> owner option \<Rightarrow> args \<Rightarrow> grant option" where
  "probe_g3 db so a =
     (case so of
        None \<Rightarrow> None
      | Some w \<Rightarrow>
          List.find (\<lambda>g. is_admin db (o_id w) (ar_actor_id a)
                       \<and> g_subject g = arg_subject a
                       \<and> g_source g = Override
                       \<and> g_target g = TargetPrincipal (owner_user (ar_actor_id a))
                       \<and> access_satisfies (g_access g) (ar_access a)
                       \<and> g_revoked_at g = None
                       \<and> (case g_expires_at g of None \<Rightarrow> False | Some e \<Rightarrow> ar_now a < e))
            (grants db))"

definition probe_g4 :: "'z core_db_scheme \<Rightarrow> args \<Rightarrow> grant option" where
  "probe_g4 db a =
     (case ar_acting_install a of
        None \<Rightarrow> None
      | Some i \<Rightarrow>
          List.find (\<lambda>g. g_subject g =
                           \<lparr>s_kind = SCollection, s_id = ar_subject_id a, s_name = ar_subject_name a\<rparr>
                       \<and> g_target g = TargetInstall i
                       \<and> access_satisfies (g_access g) (ar_access a) \<and> grant_live (ar_now a) g)
            (grants db))"

text \<open>The middle derived table: the principal's branch, in the fixed order, override last.\<close>

definition principal_branch :: "'z core_db_scheme \<Rightarrow> args \<Rightarrow> (string \<times> uuid option) option" where
  "principal_branch db a =
     (let ak = acting_kind db (ar_actor_id a) (ar_principal_kind a) (ar_principal_id a);
          so = subject_owner db (ar_subject_kind a) (ar_subject_id a)
      in case so of
           None \<Rightarrow> None
         | Some w \<Rightarrow>
             if ak = None then None
             else if o_kind w = ar_principal_kind a \<and> o_id w = ar_principal_id a
               then Some (''owner'', None)
             else (case probe_g1 db a of
                     Some g \<Rightarrow> Some (''grant'', Some (g_id g))
                   | None \<Rightarrow>
                       (case (if ar_principal_kind a = User then probe_g2 db a else None) of
                          Some g \<Rightarrow> Some (''org_grant'', Some (g_id g))
                        | None \<Rightarrow>
                            (case (if ak = Some HumanActor \<and> o_kind w = Org then probe_g3 db so a else None) of
                               Some g \<Rightarrow> Some (''override'', Some (g_id g))
                             | None \<Rightarrow> None))))"

definition gated :: "args \<Rightarrow> bool" where
  "gated a \<longleftrightarrow> ar_subject_kind a = SCollection \<and>
     (case ar_acting_install a of None \<Rightarrow> False | Some i \<Rightarrow> i \<noteq> ar_subject_id a)"

definition decision :: "'z core_db_scheme \<Rightarrow> args \<Rightarrow> string option \<times> uuid option" where
  "decision db a =
     (case principal_branch db a of
        None \<Rightarrow> (None, None)
      | Some (p_reason, p_grant) \<Rightarrow>
          if gated a
          then (case probe_g4 db a of
                  None \<Rightarrow> (None, None)
                | Some g \<Rightarrow> (Some ''install_grant'', Some (g_id g)))
          else (Some p_reason, p_grant))"

definition reason :: "'z core_db_scheme \<Rightarrow> args \<Rightarrow> string option" where
  "reason db a = fst (decision db a)"

definition has_allowlist ::
  "'z core_db_scheme \<Rightarrow> subject_kind \<Rightarrow> uuid \<Rightarrow> principal_kind \<Rightarrow> uuid \<Rightarrow> time \<Rightarrow> bool" where
  "has_allowlist db kind inst pk pid now \<longleftrightarrow>
     (\<exists>g \<in> set (grants db).
        s_kind (g_subject g) = kind \<and> s_id (g_subject g) = inst
      \<and> g_source g \<noteq> Override \<and> g_access g = Call
      \<and> grant_live now g
      \<and> (case g_target g of
           TargetPrincipal w \<Rightarrow>
             (o_kind w = pk \<and> o_id w = pid)
             \<or> (pk = User \<and> o_kind w = Org \<and> is_member db (o_id w) pid)
         | TargetInstall _ \<Rightarrow> False))"

section \<open>What the decision promises\<close>

text \<open>
  The specification speaks of sets of grants, not of probes: who stands behind a credential, what a
  principal holds, what an admin may override and which install was let in.
\<close>

definition holds :: "'z core_db_scheme \<Rightarrow> time \<Rightarrow> owner \<Rightarrow> subject \<Rightarrow> access \<Rightarrow> bool" where
  "holds db now w s x \<longleftrightarrow>
     (\<exists>g \<in> set (grants db). g_subject g = s \<and> g_target g = TargetPrincipal w \<and>
        g_source g \<noteq> Override \<and> access_satisfies (g_access g) x \<and> grant_live now g)"

definition holds_by_org :: "'z core_db_scheme \<Rightarrow> time \<Rightarrow> uuid \<Rightarrow> subject \<Rightarrow> access \<Rightarrow> bool" where
  "holds_by_org db now user s x \<longleftrightarrow>
     (\<exists>g \<in> set (grants db). \<exists>m \<in> set (org_members db).
        m_user_id m = user \<and> g_subject g = s \<and> g_target g = TargetPrincipal (owner_org (m_org_id m)) \<and>
        g_source g \<noteq> Override \<and> access_satisfies (g_access g) x \<and> grant_live now g)"

definition break_glass :: "'z core_db_scheme \<Rightarrow> time \<Rightarrow> uuid \<Rightarrow> subject \<Rightarrow> access \<Rightarrow> bool" where
  "break_glass db now admin s x \<longleftrightarrow>
     (\<exists>g \<in> set (grants db). g_subject g = s \<and> g_source g = Override \<and>
        g_target g = TargetPrincipal (owner_user admin) \<and> access_satisfies (g_access g) x \<and>
        g_revoked_at g = None \<and> (\<exists>e. g_expires_at g = Some e \<and> now < e))"

definition install_let_in :: "'z core_db_scheme \<Rightarrow> time \<Rightarrow> uuid \<Rightarrow> subject \<Rightarrow> access \<Rightarrow> bool" where
  "install_let_in db now inst s x \<longleftrightarrow>
     (\<exists>g \<in> set (grants db). g_subject g = s \<and> g_target g = TargetInstall inst \<and>
        access_satisfies (g_access g) x \<and> grant_live now g)"

definition principal_may :: "'z core_db_scheme \<Rightarrow> time \<Rightarrow> credential \<Rightarrow> subject \<Rightarrow> access \<Rightarrow> bool" where
  "principal_may db now c s x \<longleftrightarrow>
     (\<exists>k w. acting_kind db (actor_id c) (principal_kind c) (principal_id c) = Some k \<and>
        subject_owner db (s_kind s) (s_id s) = Some w \<and>
        (w = owner_of c \<or> holds db now (owner_of c) s x \<or>
         (principal_kind c = User \<and> holds_by_org db now (principal_id c) s x) \<or>
         (k = HumanActor \<and> o_kind w = Org \<and> is_admin db (o_id w) (actor_id c) \<and>
          break_glass db now (actor_id c) s x)))"

definition may :: "'z core_db_scheme \<Rightarrow> time \<Rightarrow> credential \<Rightarrow> subject \<Rightarrow> access \<Rightarrow> uuid option \<Rightarrow> bool" where
  "may db now c s x acting \<longleftrightarrow>
     principal_may db now c s x \<and>
     (\<forall>i. acting = Some i \<and> s_kind s = SCollection \<and> i \<noteq> s_id s \<longrightarrow> install_let_in db now i s x)"

definition args_of :: "credential \<Rightarrow> subject \<Rightarrow> access \<Rightarrow> time \<Rightarrow> uuid option \<Rightarrow> args" where
  "args_of c s x now acting =
     \<lparr>ar_subject_kind = s_kind s, ar_subject_id = s_id s, ar_subject_name = s_name s,
      ar_principal_kind = principal_kind c, ar_principal_id = principal_id c,
      ar_actor_id = actor_id c, ar_access = x, ar_now = now, ar_acting_install = acting\<rparr>"

section \<open>Lemmas\<close>

lemma acting_kind_cong:
  assumes "actors db' = actors db" "org_members db' = org_members db"
  shows "acting_kind db' a pk pid = acting_kind db a pk pid"
  unfolding acting_kind_def directory_cong [OF assms] ..

lemma args_of_simps [simp]:
  "ar_subject_kind (args_of c s x n i) = s_kind s" "ar_subject_id (args_of c s x n i) = s_id s"
  "ar_subject_name (args_of c s x n i) = s_name s"
  "ar_principal_kind (args_of c s x n i) = principal_kind c"
  "ar_principal_id (args_of c s x n i) = principal_id c" "ar_actor_id (args_of c s x n i) = actor_id c"
  "ar_access (args_of c s x n i) = x" "ar_now (args_of c s x n i) = n"
  "ar_acting_install (args_of c s x n i) = i" "arg_subject (args_of c s x n i) = s"
  by (simp_all add: args_of_def arg_subject_def)

lemma access_satisfies_read [simp]: "access_satisfies h Write \<Longrightarrow> access_satisfies h Read"
  by (auto simp: access_satisfies_def)

lemma holds_read: "holds db n w s Write \<Longrightarrow> holds db n w s Read"
  unfolding holds_def using access_satisfies_read by blast

lemma holds_by_org_read: "holds_by_org db n u s Write \<Longrightarrow> holds_by_org db n u s Read"
  unfolding holds_by_org_def using access_satisfies_read by blast

lemma break_glass_read: "break_glass db n u s Write \<Longrightarrow> break_glass db n u s Read"
  unfolding break_glass_def using access_satisfies_read by blast

lemma install_let_in_read: "install_let_in db n i s Write \<Longrightarrow> install_let_in db n i s Read"
  unfolding install_let_in_def using access_satisfies_read by blast

lemmas held_read = holds_read holds_by_org_read break_glass_read install_let_in_read

lemma probe_g1_holds: "probe_g1 db (args_of c s x n i) \<noteq> None \<longleftrightarrow> holds db n (owner_of c) s x"
  unfolding probe_g1_def holds_def find_neq_None by (auto simp: owner_of_def)

lemma probe_g2_holds:
  "probe_g2 db (args_of c s x n i) \<noteq> None \<longleftrightarrow> holds_by_org db n (principal_id c) s x"
proof -
  have eq: "(case g_target g of TargetPrincipal w \<Rightarrow> o_kind w = Org \<and> is_member db (o_id w) u
          | TargetInstall _ \<Rightarrow> False) \<longleftrightarrow>
        (\<exists>m \<in> set (org_members db). m_user_id m = u \<and> g_target g = TargetPrincipal (owner_org (m_org_id m)))"
    for g u
    by (auto simp: is_member_def owner_org_def split: target.splits intro!: owner_eqI)
  show ?thesis
    unfolding probe_g2_def holds_by_org_def find_neq_None args_of_simps eq by blast
qed

lemma probe_g3_holds:
  "probe_g3 db (Some w) (args_of c s x n i) \<noteq> None \<longleftrightarrow>
     is_admin db (o_id w) (actor_id c) \<and> break_glass db n (actor_id c) s x"
  unfolding probe_g3_def break_glass_def option.case find_neq_None
  by (auto split: option.splits)

lemma probe_g4_holds:
  "s_kind s = SCollection \<Longrightarrow>
   probe_g4 db (args_of c s x n (Some i)) \<noteq> None \<longleftrightarrow> install_let_in db n i s x"
  unfolding probe_g4_def install_let_in_def args_of_simps option.case find_neq_None
  by (cases s) simp

lemma principal_branch_may:
  "principal_branch db (args_of c s x n i) \<noteq> None \<longleftrightarrow> principal_may db n c s x"
proof (cases "subject_owner db (s_kind s) (s_id s)")
  case None
  then show ?thesis by (simp add: principal_branch_def principal_may_def)
next
  case (Some w)
  have own: "o_kind w = principal_kind c \<and> o_id w = principal_id c \<longleftrightarrow> w = owner_of c"
    by (auto simp: owner_of_def)
  show ?thesis
    using probe_g1_holds [of db c s x n i] probe_g2_holds [of db c s x n i]
      probe_g3_holds [of db w c s x n i]
    by (cases "acting_kind db (actor_id c) (principal_kind c) (principal_id c)")
      (auto simp: Some own principal_branch_def principal_may_def Let_def split: option.splits)
qed

lemma decision_cases:
  obtains (deny) "decision db a = (None, None)"
  | (gate) r p g where "principal_branch db a = Some (r, p)" "gated a" "probe_g4 db a = Some g"
      "decision db a = (Some ''install_grant'', Some (g_id g))"
  | (plain) r p where "principal_branch db a = Some (r, p)" "\<not> gated a" "decision db a = (Some r, p)"
proof (cases "principal_branch db a")
  case None
  then show thesis using deny by (simp add: decision_def)
next
  case (Some rp)
  then show thesis
    using deny gate plain by (cases rp; cases "probe_g4 db a"; cases "gated a") (auto simp: decision_def)
qed

lemma decision_deny_grant: "fst (decision db a) = None \<Longrightarrow> snd (decision db a) = None"
  by (rule decision_cases [of db a]) auto

lemma gated_args_of:
  "gated (args_of c s x n acting) \<longleftrightarrow>
     s_kind s = SCollection \<and> (\<exists>i. acting = Some i \<and> i \<noteq> s_id s)"
  by (auto simp: gated_def split: option.splits)

lemma decision_may: "fst (decision db (args_of c s x n acting)) \<noteq> None \<longleftrightarrow> may db n c s x acting"
proof (cases "gated (args_of c s x n acting)")
  case True
  then obtain i where i: "acting = Some i" "i \<noteq> s_id s" and k: "s_kind s = SCollection"
    by (auto simp: gated_args_of)
  with True probe_g4_holds [OF k, of db c x n i] principal_branch_may [of db c s x n acting]
  show ?thesis by (auto simp: decision_def may_def split: option.splits prod.splits)
next
  case False
  with principal_branch_may [of db c s x n acting] show ?thesis
    by (auto simp: decision_def may_def gated_args_of split: option.splits prod.splits)
qed

text \<open>Every branch of the CASE, with what its row must be.\<close>

lemma principal_branch_cases:
  assumes "principal_branch db (args_of c s x n i) = Some (r, gid)"
  obtains w where "subject_owner db (s_kind s) (s_id s) = Some w"
    "acting_kind db (actor_id c) (principal_kind c) (principal_id c) \<noteq> None"
    "(r = ''owner'' \<and> gid = None \<and> w = owner_of c)
   \<or> (r = ''grant'' \<and> w \<noteq> owner_of c \<and> holds db n (owner_of c) s x)
   \<or> (r = ''org_grant'' \<and> w \<noteq> owner_of c \<and> \<not> holds db n (owner_of c) s x \<and>
      principal_kind c = User \<and> holds_by_org db n (principal_id c) s x)
   \<or> (r = ''override'' \<and> w \<noteq> owner_of c \<and> \<not> holds db n (owner_of c) s x \<and>
      \<not> (principal_kind c = User \<and> holds_by_org db n (principal_id c) s x) \<and>
      acting_kind db (actor_id c) (principal_kind c) (principal_id c) = Some HumanActor \<and>
      o_kind w = Org \<and> is_admin db (o_id w) (actor_id c) \<and> break_glass db n (actor_id c) s x)"
proof -
  obtain w where w: "subject_owner db (s_kind s) (s_id s) = Some w"
    using assms by (auto simp: principal_branch_def Let_def split: option.splits)
  have own: "o_kind w = principal_kind c \<and> o_id w = principal_id c \<longleftrightarrow> w = owner_of c"
    by (auto simp: owner_of_def)
  show thesis
    using assms probe_g1_holds [of db c s x n i] probe_g2_holds [of db c s x n i]
      probe_g3_holds [of db w c s x n i]
    by (intro that [OF w]) (auto simp: w own principal_branch_def Let_def split: option.splits if_splits)
qed

lemma may_read: "may db n c s Write acting \<Longrightarrow> may db n c s Read acting"
  unfolding may_def principal_may_def by (auto intro: held_read)

text \<open>The decision reads the grants as a set: more rows never take an access away.\<close>

lemma may_mono:
  assumes "set (grants db) \<subseteq> set (grants db')"
    and "actors db' = actors db" "org_members db' = org_members db"
    and "\<And>k i. subject_owner db' k i = subject_owner db k i"
    and "may db n c s x acting"
  shows "may db' n c s x acting"
proof -
  note ak = acting_kind_cong [OF assms(2,3)]
  have h: "holds db n w s x \<Longrightarrow> holds db' n w s x" for w
    using assms(1) unfolding holds_def by blast
  have o: "holds_by_org db n u s x \<Longrightarrow> holds_by_org db' n u s x" for u
    using assms(1,3) unfolding holds_by_org_def by auto
  have b: "break_glass db n u s x \<Longrightarrow> break_glass db' n u s x" for u
    using assms(1) unfolding break_glass_def by blast
  have i: "install_let_in db n j s x \<Longrightarrow> install_let_in db' n j s x" for j
    using assms(1) unfolding install_let_in_def by blast
  have ad: "is_admin db' a u = is_admin db a u" for a u
    by (simp add: directory_cong [OF assms(2,3)])
  show ?thesis
    using assms(5) h o b i unfolding may_def principal_may_def ak ad assms(4) by blast
qed

section \<open>A small world for concrete instances\<close>

text \<open>
  Alice (1) and Bob (2) are people, 3 is an org in which Alice is an admin and Bob a member, 4 is
  Alice's agent and 5 the org's. Installs 10 and 11 are Alice's, 12 is the org's. Install 11 was let
  into the collection \<open>notes\<close> of 10, Bob may write entity 20 of Alice's, and Alice broke the glass on
  the org's entity 21, which the org shares with nobody.
\<close>

definition sample_db :: core_db where
  "sample_db = \<lparr>
     actors = [\<lparr>a_id = 1, a_kind = HumanActor, a_principal_kind = User, a_principal_id = 1, a_disabled_at = None\<rparr>,
               \<lparr>a_id = 2, a_kind = HumanActor, a_principal_kind = User, a_principal_id = 2, a_disabled_at = None\<rparr>,
               \<lparr>a_id = 3, a_kind = OrgActor, a_principal_kind = Org, a_principal_id = 3, a_disabled_at = None\<rparr>,
               \<lparr>a_id = 4, a_kind = AiActor, a_principal_kind = User, a_principal_id = 1, a_disabled_at = None\<rparr>,
               \<lparr>a_id = 5, a_kind = AiActor, a_principal_kind = Org, a_principal_id = 3, a_disabled_at = None\<rparr>],
     org_members = [\<lparr>m_org_id = 3, m_user_id = 1, m_role = Admin\<rparr>,
                    \<lparr>m_org_id = 3, m_user_id = 2, m_role = Member\<rparr>],
     app_builds = [\<lparr>b_id = 30, b_slug = ''notes'', b_status = Registered, b_uses = Some []\<rparr>,
                   \<lparr>b_id = 31, b_slug = ''mail'', b_status = Registered,
                    b_uses = Some [\<lparr>u_app = ''notes'', u_collection = ''notes'', u_access = UseRead\<rparr>]\<rparr>],
     installs = [\<lparr>i_id = 10, i_build_id = 30, i_slug = ''notes'', i_owner = owner_user 1, i_installed_by = 1,
                  i_activated_by = Some 1, i_authority = None, i_schema_name = ''app_notes_0000000a'',
                  i_state = Active, i_created_at = 5\<rparr>,
                 \<lparr>i_id = 11, i_build_id = 31, i_slug = ''mail'', i_owner = owner_user 1, i_installed_by = 4,
                  i_activated_by = None, i_authority = None, i_schema_name = ''app_mail_0000000b'',
                  i_state = Disabled, i_created_at = 6\<rparr>,
                 \<lparr>i_id = 12, i_build_id = 30, i_slug = ''notes'', i_owner = owner_org 3, i_installed_by = 1,
                  i_activated_by = Some 1, i_authority = None, i_schema_name = ''app_notes_0000000c'',
                  i_state = Active, i_created_at = 7\<rparr>],
     install_authorities = [],
     entities = [\<lparr>e_id = 20, e_kind = ''note'', e_owner = owner_user 1, e_created_at = 8, e_deleted_at = None\<rparr>,
                 \<lparr>e_id = 21, e_kind = ''note'', e_owner = owner_org 3, e_created_at = 9, e_deleted_at = None\<rparr>],
     conversations = [],
     grants = [\<lparr>g_id = 40, g_subject = subject_named SCollection 10 ''notes'', g_target = TargetInstall 11,
                g_access = Read, g_source = Direct, g_inherited_from = None,
                g_by = \<lparr>actor_id = 1, principal_kind = User, principal_id = 1\<rparr>, g_reason = ''uses'',
                g_created_at = 10, g_expires_at = None, g_revoked_at = None, g_revoked_by = None\<rparr>,
               \<lparr>g_id = 41, g_subject = subject_new SEntity 20, g_target = TargetPrincipal (owner_user 2),
                g_access = Write, g_source = Direct, g_inherited_from = None,
                g_by = \<lparr>actor_id = 1, principal_kind = User, principal_id = 1\<rparr>, g_reason = '''',
                g_created_at = 11, g_expires_at = None, g_revoked_at = None, g_revoked_by = None\<rparr>,
               \<lparr>g_id = 42, g_subject = subject_new SEntity 21, g_target = TargetPrincipal (owner_user 1),
                g_access = Read, g_source = Override, g_inherited_from = None,
                g_by = \<lparr>actor_id = 1, principal_kind = User, principal_id = 1\<rparr>, g_reason = ''incident'',
                g_created_at = 12, g_expires_at = Some 500, g_revoked_at = None, g_revoked_by = None\<rparr>]\<rparr>"

definition alice :: credential where "alice = \<lparr>actor_id = 1, principal_kind = User, principal_id = 1\<rparr>"
definition bob :: credential where "bob = \<lparr>actor_id = 2, principal_kind = User, principal_id = 2\<rparr>"
definition alices_ai :: credential where "alices_ai = \<lparr>actor_id = 4, principal_kind = User, principal_id = 1\<rparr>"

section \<open>Properties\<close>

text \<open>
  C1: the composed query implements the access policy. It gives a reason exactly when the credential
  is coherent, the subject has an owner, the principal owns it, holds a live grant on it, belongs to
  an org that does, or is a human admin of the owning org with an unexpired break-glass, and, for a
  collection reached through another install, that install was let in. Everything else is deny.
\<close>

theorem decision_implements_policy:
  "fst (decision db (args_of c s x n acting)) \<noteq> None \<longleftrightarrow> may db n c s x acting"
  by (rule decision_may)

text \<open>
  C2: an AI never gains authority its principal lacks. Whenever an AI and a human both act for the
  same principal, an access allowed to the AI is decided for the human by the same row and the same
  reason, and the AI's reason is never a break-glass override.
\<close>

theorem ai_never_exceeds_principal:
  assumes ai: "acting_kind db (actor_id c) (principal_kind c) (principal_id c) = Some AiActor"
    and hu: "acting_kind db h (principal_kind c) (principal_id c) = Some HumanActor"
    and ok: "fst (decision db (args_of c s x n acting)) \<noteq> None"
  shows "fst (decision db (args_of c s x n acting)) \<noteq> Some ''override'' \<and>
    decision db (args_of (c\<lparr>actor_id := h\<rparr>) s x n acting) = decision db (args_of c s x n acting)"
proof -
  let ?a = "args_of c s x n acting" and ?b = "args_of (c\<lparr>actor_id := h\<rparr>) s x n acting"
  have cu: "principal_kind (c\<lparr>actor_id := h\<rparr>) = principal_kind c"
      "principal_id (c\<lparr>actor_id := h\<rparr>) = principal_id c" by simp_all
  have probes: "probe_g1 db ?b = probe_g1 db ?a" "probe_g2 db ?b = probe_g2 db ?a"
      "probe_g4 db ?b = probe_g4 db ?a" "gated ?b = gated ?a"
    unfolding probe_g1_def probe_g2_def probe_g4_def gated_def args_of_simps cu by simp_all
  obtain r p where pb: "principal_branch db ?a = Some (r, p)"
    using ok by (cases "principal_branch db ?a") (auto simp: decision_def)
  have r: "r \<noteq> ''override''"
    using pb by (rule principal_branch_cases) (auto simp: ai)
  have "principal_branch db ?b = principal_branch db ?a"
    using pb ai hu by (auto simp: principal_branch_def Let_def probes split: option.splits if_splits)
  then have "decision db ?b = decision db ?a"
    unfolding decision_def probes by simp
  moreover have "fst (decision db ?a) \<noteq> Some ''override''"
    using r pb by (auto simp: decision_def split: option.splits)
  ultimately show ?thesis by simp
qed

theorem ai_never_exceeds_principal_witness:
  "fst (decision sample_db (args_of alices_ai (subject_new SEntity 20) Read 100 None)) = Some ''owner'' \<and>
   decision sample_db (args_of alice (subject_new SEntity 20) Read 100 None) =
   decision sample_db (args_of alices_ai (subject_new SEntity 20) Read 100 None)"
proof -
  have "acting_kind sample_db (actor_id alices_ai) (principal_kind alices_ai) (principal_id alices_ai) = Some AiActor"
    "acting_kind sample_db 1 (principal_kind alices_ai) (principal_id alices_ai) = Some HumanActor"
    by code_simp+
  moreover have o: "fst (decision sample_db (args_of alices_ai (subject_new SEntity 20) Read 100 None)) = Some ''owner''"
    by code_simp
  moreover have "alices_ai\<lparr>actor_id := 1\<rparr> = alice" by (simp add: alices_ai_def alice_def)
  ultimately show ?thesis
    using ai_never_exceeds_principal [of sample_db alices_ai 1 "subject_new SEntity 20" Read 100 None] by simp
qed

text \<open>
  C3: a collection is reached through another install only by an install grant. When install \<open>i\<close>
  asks for a collection that is not its own and is let in, the reason is \<open>install_grant\<close>, the grant
  named is a live row of the table that targets exactly that install, collection and access, and the
  principal would be allowed without any install.
\<close>

theorem cross_install_needs_install_grant:
  assumes "s_kind s = SCollection" "i \<noteq> s_id s"
    and ok: "fst (decision db (args_of c s x n (Some i))) \<noteq> None"
  shows "\<exists>g \<in> set (grants db). decision db (args_of c s x n (Some i)) = (Some ''install_grant'', Some (g_id g)) \<and>
           g_subject g = s \<and> g_target g = TargetInstall i \<and> access_satisfies (g_access g) x \<and>
           grant_live n g \<and> fst (decision db (args_of c s x n None)) \<noteq> None"
proof -
  have "gated (args_of c s x n (Some i))" using assms by (simp add: gated_args_of)
  then obtain r p g where g: "principal_branch db (args_of c s x n (Some i)) = Some (r, p)"
      "probe_g4 db (args_of c s x n (Some i)) = Some g"
      "decision db (args_of c s x n (Some i)) = (Some ''install_grant'', Some (g_id g))"
    using ok by (rule_tac decision_cases [of db "args_of c s x n (Some i)"]) auto
  from g(2) have "g \<in> set (grants db)" "g_subject g = s" "g_target g = TargetInstall i"
      "access_satisfies (g_access g) x" "grant_live n g"
    using assms(1) unfolding probe_g4_def by (auto dest!: find_SomeD)
  moreover have "fst (decision db (args_of c s x n None)) \<noteq> None"
    using g(1) principal_branch_may [of db c s x n "Some i"] unfolding decision_may may_def by simp
  ultimately show ?thesis using g(3) by blast
qed

theorem cross_install_needs_install_grant_witness:
  "decision sample_db (args_of alice (subject_named SCollection 10 ''notes'') Read 100 (Some 11)) =
     (Some ''install_grant'', Some 40) \<and>
   (\<exists>g \<in> set (grants sample_db). g_id g = 40 \<and> g_target g = TargetInstall 11 \<and>
      fst (decision sample_db (args_of alice (subject_named SCollection 10 ''notes'') Read 100 None)) \<noteq> None)"
proof -
  have d: "decision sample_db (args_of alice (subject_named SCollection 10 ''notes'') Read 100 (Some 11)) =
     (Some ''install_grant'', Some 40)" by code_simp
  with cross_install_needs_install_grant
      [of "subject_named SCollection 10 ''notes''" 11 sample_db alice Read 100]
  obtain g where "g \<in> set (grants sample_db)" "g_id g = 40" "g_target g = TargetInstall 11"
      "fst (decision sample_db (args_of alice (subject_named SCollection 10 ''notes'') Read 100 None)) \<noteq> None"
    by auto
  with d show ?thesis by blast
qed

text \<open>
  C4: override is the last resort and the decision can say so. When the reason is \<open>override\<close> the
  actor is an enabled human acting for the principal, the subject is org-owned, the actor is an admin
  of that org with an unexpired break-glass row, and with the override rows gone the same question is
  denied: nothing else would have allowed it.
\<close>

theorem override_is_last_resort:
  assumes "fst (decision db (args_of c s x n acting)) = Some ''override''"
  shows "acting_kind db (actor_id c) (principal_kind c) (principal_id c) = Some HumanActor \<and>
    (\<exists>w. subject_owner db (s_kind s) (s_id s) = Some w \<and> o_kind w = Org \<and> is_admin db (o_id w) (actor_id c)) \<and>
    break_glass db n (actor_id c) s x \<and>
    decision (db\<lparr>grants := filter (\<lambda>g. g_source g \<noteq> Override) (grants db)\<rparr>) (args_of c s x n acting) = (None, None)"
proof -
  let ?db = "db\<lparr>grants := filter (\<lambda>g. g_source g \<noteq> Override) (grants db)\<rparr>"
  obtain p where pb: "principal_branch db (args_of c s x n acting) = Some (''override'', p)"
    using assms by (rule_tac decision_cases [of db "args_of c s x n acting"]) auto
  obtain w where w: "subject_owner db (s_kind s) (s_id s) = Some w" "w \<noteq> owner_of c"
      "\<not> holds db n (owner_of c) s x" "\<not> (principal_kind c = User \<and> holds_by_org db n (principal_id c) s x)"
      "acting_kind db (actor_id c) (principal_kind c) (principal_id c) = Some HumanActor"
      "o_kind w = Org" "is_admin db (o_id w) (actor_id c)" "break_glass db n (actor_id c) s x"
    using pb by (rule principal_branch_cases) auto
  have so: "subject_owner ?db k i = subject_owner db k i" for k i
    by (rule subject_owner_cong) simp_all
  have "\<not> holds ?db n (owner_of c) s x" "\<not> break_glass ?db n (actor_id c) s x"
      "\<not> (principal_kind c = User \<and> holds_by_org ?db n (principal_id c) s x)"
    using w(3,4) by (auto simp: holds_def holds_by_org_def break_glass_def)
  then have "\<not> principal_may ?db n c s x"
    using w(1,2) by (simp add: principal_may_def so)
  then have "\<not> may ?db n c s x acting" by (simp add: may_def)
  then have "decision ?db (args_of c s x n acting) = (None, None)"
    using decision_may [of ?db c s x n acting] by (rule_tac decision_cases [of ?db "args_of c s x n acting"]) auto
  then show ?thesis using w by blast
qed

theorem override_is_last_resort_witness:
  "decision sample_db (args_of alice (subject_new SEntity 21) Read 100 None) = (Some ''override'', Some 42) \<and>
   break_glass sample_db 100 1 (subject_new SEntity 21) Read \<and>
   decision (sample_db\<lparr>grants := filter (\<lambda>g. g_source g \<noteq> Override) (grants sample_db)\<rparr>)
     (args_of alice (subject_new SEntity 21) Read 100 None) = (None, None)"
proof -
  have "decision sample_db (args_of alice (subject_new SEntity 21) Read 100 None) = (Some ''override'', Some 42)"
    by code_simp
  then show ?thesis
    using override_is_last_resort [of sample_db alice "subject_new SEntity 21" Read 100 None]
    by (simp add: alice_def)
qed

text \<open>
  Grants only ever widen. There is no deny row: in a database that differs by having more grants
  (same actors, memberships and owners), everything allowed stays allowed; and a principal that may
  write may read.
\<close>

theorem grants_only_widen:
  assumes "set (grants db) \<subseteq> set (grants db')"
    and "actors db' = actors db" "org_members db' = org_members db"
    and "entities db' = entities db" "conversations db' = conversations db" "installs db' = installs db"
    and "fst (decision db (args_of c s Write n acting)) \<noteq> None"
  shows "fst (decision db' (args_of c s Write n acting)) \<noteq> None \<and>
         fst (decision db' (args_of c s Read n acting)) \<noteq> None"
proof -
  have "subject_owner db' k i = subject_owner db k i" for k i
    using assms by (intro subject_owner_cong) simp_all
  then have "may db' n c s Write acting"
    using may_mono [OF assms(1,2,3)] assms(7) decision_may by blast
  then show ?thesis unfolding decision_may using may_read by blast
qed

theorem grants_only_widen_witness:
  "fst (decision (sample_db\<lparr>grants := rev (grants sample_db)\<rparr>)
          (args_of bob (subject_new SEntity 20) Read 100 None)) \<noteq> None"
proof -
  have "fst (decision sample_db (args_of bob (subject_new SEntity 20) Write 100 None)) \<noteq> None"
    by code_simp
  then show ?thesis
    using grants_only_widen [of sample_db "sample_db\<lparr>grants := rev (grants sample_db)\<rparr>" bob
        "subject_new SEntity 20" 100 None] by simp
qed

end
