(* ===== verification/Hive_Guard.thy ===== *)
theory Hive_Guard
  imports Hive_Predicate
begin

text \<open>
  \<open>Guard\<close> of \<open>crates/hive-store/src/grants.rs\<close>: the only caller of the predicate, and the audit
  obligation that comes with a break-glass override. The audit table lives in its own file, outside
  every caller's transaction, so it is a state of its own that each entry point returns whatever
  becomes of the access; \<open>audit_up\<close> says whether a row can be written there. Each reading of the clock
  is an argument, so two readings of one call may differ.
\<close>

section \<open>Reasons\<close>

datatype reason = OwnerReason | GrantReason | OrgReason | OverrideReason | InstallGrantReason

fun reason_as_str :: "reason \<Rightarrow> string" where
  "reason_as_str OwnerReason = ''owner''"
| "reason_as_str GrantReason = ''grant''"
| "reason_as_str OrgReason = ''org_grant''"
| "reason_as_str OverrideReason = ''override''"
| "reason_as_str InstallGrantReason = ''install_grant''"

definition reason_parse :: "string \<Rightarrow> reason option" where
  "reason_parse s =
     (if s = ''owner'' then Some OwnerReason
      else if s = ''grant'' then Some GrantReason
      else if s = ''org_grant'' then Some OrgReason
      else if s = ''override'' then Some OverrideReason
      else if s = ''install_grant'' then Some InstallGrantReason
      else None)"

interpretation rs: column_codec reason_as_str reason_parse
proof
  show "reason_parse (reason_as_str x) = Some x" for x
    by (cases x) (simp_all add: reason_parse_def)
qed

section \<open>The audit file\<close>

record audit_row =
  au_grant_id :: "uuid option"
  au_by :: credential
  au_subject :: subject
  au_owner :: owner
  au_access :: access
  au_reason :: string
  au_occurred_at :: time

record audit_db =
  audit_up :: bool
  audit_rows :: "audit_row list"

section \<open>The guard\<close>

definition guard_decision ::
  "'z core_db_scheme \<Rightarrow> credential \<Rightarrow> subject \<Rightarrow> access \<Rightarrow> uuid option \<Rightarrow> time
   \<Rightarrow> reason option \<times> uuid option" where
  "guard_decision db c s x acting now =
     (let (r, gid) = decision db (args_of c s x now acting) in (Option.bind r reason_parse, gid))"

definition record_override ::
  "'z core_db_scheme \<Rightarrow> audit_db \<Rightarrow> credential \<Rightarrow> subject \<Rightarrow> access \<Rightarrow> uuid option \<Rightarrow> string \<Rightarrow> time
   \<Rightarrow> audit_db \<times> (store_error + unit)" where
  "record_override db au c s x gid note now =
     (case subject_owner db (s_kind s) (s_id s) of
        None \<Rightarrow> (au, Inl (Other ''override audit: subject has no owner''))
      | Some w \<Rightarrow>
          if audit_up au
          then (au\<lparr>audit_rows := audit_rows au @
                  [\<lparr>au_grant_id = gid, au_by = c, au_subject = s, au_owner = w, au_access = x,
                    au_reason = note, au_occurred_at = now\<rparr>]\<rparr>, Inr ())
          else (au, Inl (DbError ''write override audit'' (TriggerAbort ''audit file''))))"

definition audit_refused :: store_error where
  "audit_refused = Other ''override audit failed, access refused''"

definition decide_and_audit ::
  "'z core_db_scheme \<Rightarrow> audit_db \<Rightarrow> credential \<Rightarrow> subject \<Rightarrow> access \<Rightarrow> uuid option \<Rightarrow> string
   \<Rightarrow> time \<Rightarrow> time \<Rightarrow> audit_db \<times> (store_error + reason)" where
  "decide_and_audit db au c s x acting note t1 t2 =
     (case guard_decision db c s x acting t1 of
        (None, _) \<Rightarrow> (au, Inl Denied)
      | (Some r, gid) \<Rightarrow>
          if r = OverrideReason
          then (case record_override db au c s x gid note t2 of
                  (au', Inl e) \<Rightarrow> (au', Inl audit_refused)
                | (au', Inr _) \<Rightarrow> (au', Inr r))
          else (au, Inr r))"

definition authorize ::
  "'z core_db_scheme \<Rightarrow> audit_db \<Rightarrow> credential \<Rightarrow> subject \<Rightarrow> access \<Rightarrow> string \<Rightarrow> time \<Rightarrow> time
   \<Rightarrow> audit_db \<times> (store_error + reason)" where
  "authorize db au c s x note t1 t2 =
     (if s_kind s = SCollection
      then (au, Inl (Other ''collection access must go through Guard::authorize_collection''))
      else decide_and_audit db au c s x None note t1 t2)"

definition collection_decision ::
  "'z core_db_scheme \<Rightarrow> audit_db \<Rightarrow> credential \<Rightarrow> subject \<Rightarrow> uuid option \<Rightarrow> access \<Rightarrow> string
   \<Rightarrow> time \<Rightarrow> time \<Rightarrow> audit_db \<times> (store_error + reason)" where
  "collection_decision db au c s acting x note t1 t2 =
     (if s_kind s \<noteq> SCollection
      then (au, Inl (Other ''authorize_collection got another subject; use Guard::authorize''))
      else decide_and_audit db au c s x acting note t1 t2)"

definition authorize_collection ::
  "'z core_db_scheme \<Rightarrow> audit_db \<Rightarrow> credential \<Rightarrow> subject \<Rightarrow> uuid \<Rightarrow> access \<Rightarrow> string
   \<Rightarrow> time \<Rightarrow> time \<Rightarrow> audit_db \<times> (store_error + reason)" where
  "authorize_collection db au c s acting x note t1 t2 =
     collection_decision db au c s (Some acting) x note t1 t2"

definition authorize_collection_as_person ::
  "'z core_db_scheme \<Rightarrow> audit_db \<Rightarrow> credential \<Rightarrow> subject \<Rightarrow> access \<Rightarrow> string
   \<Rightarrow> time \<Rightarrow> time \<Rightarrow> audit_db \<times> (store_error + reason)" where
  "authorize_collection_as_person db au c s x note t1 t2 =
     collection_decision db au c s None x note t1 t2"

definition allowed ::
  "'z core_db_scheme \<Rightarrow> audit_db \<Rightarrow> credential \<Rightarrow> subject \<Rightarrow> access \<Rightarrow> time \<Rightarrow> time
   \<Rightarrow> audit_db \<times> (store_error + bool)" where
  "allowed db au c s x t1 t2 =
     (case authorize db au c s x [] t1 t2 of
        (au', Inr _) \<Rightarrow> (au', Inr True)
      | (au', Inl e) \<Rightarrow> (au', if e = Denied then Inr False else Inl e))"

text \<open>The allowlist-only rule for a named kind under an install: three readings of the clock.\<close>

definition named_reason ::
  "'z core_db_scheme \<Rightarrow> audit_db \<Rightarrow> credential \<Rightarrow> subject_kind \<Rightarrow> uuid \<Rightarrow> string \<Rightarrow> string
   \<Rightarrow> time \<Rightarrow> time \<Rightarrow> time \<Rightarrow> audit_db \<times> (store_error + reason option)" where
  "named_reason db au c kind inst name note t1 t2 t3 =
     (let s = (if has_allowlist db kind inst (principal_kind c) (principal_id c) t1
               then subject_named kind inst name else subject_new SInstall inst)
      in case guard_decision db c s Call None t2 of
           (None, _) \<Rightarrow> (au, Inr None)
         | (Some r, gid) \<Rightarrow>
             if r = OverrideReason
             then (case record_override db au c (subject_named kind inst name) Call gid note t3 of
                     (au', Inl e) \<Rightarrow> (au', Inl audit_refused)
                   | (au', Inr _) \<Rightarrow> (au', Inr (Some r)))
             else (au, Inr (Some r)))"

definition tool_reason ::
  "'z core_db_scheme \<Rightarrow> audit_db \<Rightarrow> credential \<Rightarrow> uuid \<Rightarrow> string \<Rightarrow> time \<Rightarrow> time \<Rightarrow> time
   \<Rightarrow> audit_db \<times> (store_error + reason option)" where
  "tool_reason db au c inst tool t1 t2 t3 = named_reason db au c STool inst tool ''tool call'' t1 t2 t3"

definition route_reason ::
  "'z core_db_scheme \<Rightarrow> audit_db \<Rightarrow> credential \<Rightarrow> uuid \<Rightarrow> string \<Rightarrow> time \<Rightarrow> time \<Rightarrow> time
   \<Rightarrow> audit_db \<times> (store_error + reason option)" where
  "route_reason db au c inst route t1 t2 t3 = named_reason db au c SRoute inst route ''route call'' t1 t2 t3"

text \<open>
  Set reads. The query computes the reason per row; \<open>visible_ids\<close> then audits every override, with a
  point check of its own for the grant id (one more clock reading per row, here the same one).
\<close>

fun audit_overrides ::
  "'z core_db_scheme \<Rightarrow> audit_db \<Rightarrow> credential \<Rightarrow> access \<Rightarrow> subject_kind \<Rightarrow> time \<Rightarrow> uuid list
   \<Rightarrow> audit_db \<times> (store_error + unit)" where
  "audit_overrides db au c x kind t [] = (au, Inr ())"
| "audit_overrides db au c x kind t (i # is) =
     (let s = subject_new kind i; (_, gid) = guard_decision db c s x None t
      in case record_override db au c s x gid ''list'' t of
           (au', Inl e) \<Rightarrow> (au', Inl (Other ''override audit failed, row(s) withheld''))
         | (au', Inr _) \<Rightarrow> audit_overrides db au' c x kind t is)"

definition visible_ids ::
  "'z core_db_scheme \<Rightarrow> audit_db \<Rightarrow> credential \<Rightarrow> access \<Rightarrow> subject_kind \<Rightarrow> (uuid \<times> string) list \<Rightarrow> time
   \<Rightarrow> audit_db \<times> (store_error + uuid list)" where
  "visible_ids db au c x kind rows t =
     (case audit_overrides db au c x kind t
             (map fst (filter (\<lambda>(i, r). reason_parse r = Some OverrideReason) rows)) of
        (au', Inl e) \<Rightarrow> (au', Inl e)
      | (au', Inr _) \<Rightarrow> (au', Inr (map fst rows)))"

definition with_reason ::
  "'z core_db_scheme \<Rightarrow> credential \<Rightarrow> access \<Rightarrow> subject_kind \<Rightarrow> time \<Rightarrow> uuid list \<Rightarrow> (uuid \<times> string) list" where
  "with_reason db c x kind t is =
     List.map_filter (\<lambda>i. map_option (Pair i) (Hive_Predicate.reason db (args_of c (subject_new kind i) x t None))) is"

definition visible_entity_ids ::
  "'z core_db_scheme \<Rightarrow> audit_db \<Rightarrow> credential \<Rightarrow> access \<Rightarrow> string \<Rightarrow> int \<Rightarrow> time \<Rightarrow> time
   \<Rightarrow> audit_db \<times> (store_error + uuid list)" where
  "visible_entity_ids db au c x kind lim t1 t2 =
     visible_ids db au c x SEntity
       (limit_rows lim
         (with_reason db c x SEntity t1
           (map e_id (sort_key (\<lambda>e. - e_created_at e)
             (filter (\<lambda>e. e_deleted_at e = None \<and> (kind = [] \<or> e_kind e = kind)) (entities db))))))
       t2"

definition visible_conversation_ids ::
  "'z core_db_scheme \<Rightarrow> audit_db \<Rightarrow> credential \<Rightarrow> access \<Rightarrow> int \<Rightarrow> time \<Rightarrow> time
   \<Rightarrow> audit_db \<times> (store_error + uuid list)" where
  "visible_conversation_ids db au c x lim t1 t2 =
     visible_ids db au c x SConversation
       (limit_rows lim
         (with_reason db c x SConversation t1
           (map cv_id (sort_key (\<lambda>v. - cv_updated_at v)
             (filter (\<lambda>v. cv_archived_at v = None) (conversations db))))))
       t2"

section \<open>Lemmas\<close>

text \<open>The texts the query returns are exactly the ones \<open>Reason::parse\<close> knows.\<close>

lemma decision_reason_parses:
  assumes "fst (decision db (args_of c s x n acting)) = Some r"
  obtains q where "r = reason_as_str q"
proof (rule decision_cases [of db "args_of c s x n acting"])
  assume "decision db (args_of c s x n acting) = (None, None)"
  with assms show thesis by simp
next
  fix r' p g
  assume "decision db (args_of c s x n acting) = (Some ''install_grant'', Some (g_id g))"
  with assms show thesis using that [of InstallGrantReason] by simp
next
  fix r' p
  assume pb: "principal_branch db (args_of c s x n acting) = Some (r', p)"
    and "decision db (args_of c s x n acting) = (Some r', p)"
  with assms have "r = r'" by simp
  with pb show thesis
    using that [of OwnerReason] that [of GrantReason] that [of OrgReason] that [of OverrideReason]
    by (elim principal_branch_cases) auto
qed

lemma guard_decision_None:
  "fst (guard_decision db c s x acting n) = None \<longleftrightarrow> \<not> may db n c s x acting"
proof -
  have "Option.bind (fst (decision db (args_of c s x n acting))) reason_parse = None \<longleftrightarrow>
        fst (decision db (args_of c s x n acting)) = None"
    by (cases "fst (decision db (args_of c s x n acting))")
      (auto elim!: decision_reason_parses simp: rs.dec_enc)
  then show ?thesis
    using decision_may [of db c s x n acting]
    by (cases "decision db (args_of c s x n acting)") (auto simp: guard_decision_def)
qed

lemma reason_parse_override [simp]: "reason_parse r = Some OverrideReason \<longleftrightarrow> r = ''override''"
  by (auto simp: reason_parse_def)

lemma guard_decision_override:
  "fst (guard_decision db c s x acting n) = Some OverrideReason \<longleftrightarrow>
   fst (decision db (args_of c s x n acting)) = Some ''override''"
  by (cases "fst (decision db (args_of c s x n acting))")
     (auto simp: guard_decision_def split: prod.splits)

lemma override_row:
  assumes "decision db (args_of c s x n acting) = (Some ''override'', gid)"
  obtains g where "g \<in> set (grants db)" "gid = Some (g_id g)" "g_source g = Override" "g_subject g = s"
    "g_target g = TargetPrincipal (owner_user (actor_id c))" "access_satisfies (g_access g) x"
proof -
  have pb: "principal_branch db (args_of c s x n acting) = Some (''override'', gid)"
    using assms by (rule_tac decision_cases [of db "args_of c s x n acting"]) auto
  then obtain g w where "gid = Some (g_id g)" "probe_g3 db (Some w) (args_of c s x n acting) = Some g"
    by (auto simp: principal_branch_def Let_def split: option.splits if_splits)
  then show thesis
    using that by (auto simp: probe_g3_def dest!: find_SomeD)
qed

lemma override_owned:
  assumes "fst (decision db (args_of c s x n acting)) = Some ''override''"
  shows "\<exists>w. subject_owner db (s_kind s) (s_id s) = Some w"
  using assms by (auto simp: decision_def principal_branch_def Let_def split: option.splits prod.splits if_splits)

lemma record_override_ok:
  assumes "record_override db au c s x gid note t = (au', Inr u)"
  obtains w where "subject_owner db (s_kind s) (s_id s) = Some w" "audit_up au"
    "au' = au\<lparr>audit_rows := audit_rows au @
       [\<lparr>au_grant_id = gid, au_by = c, au_subject = s, au_owner = w, au_access = x,
         au_reason = note, au_occurred_at = t\<rparr>]\<rparr>"
  using assms by (auto simp: record_override_def split: option.splits if_splits)

lemma record_override_fail: "record_override db au c s x gid note t = (au', Inl e) \<Longrightarrow> au' = au"
  by (auto simp: record_override_def split: option.splits if_splits)

lemma record_override_total:
  "audit_up au \<Longrightarrow> subject_owner db (s_kind s) (s_id s) = Some w \<Longrightarrow>
   \<exists>au'. record_override db au c s x gid note t = (au', Inr ()) \<and> audit_up au'"
  by (simp add: record_override_def)

text \<open>Whatever an audited list read does, it only appends rows, one for each override it names.\<close>

lemma audit_overrides_appends:
  "audit_overrides db au c x kind t is = (au', res) \<Longrightarrow>
   (\<exists>more. audit_rows au' = audit_rows au @ more \<and>
      (res = Inr () \<longrightarrow> map (s_id \<circ> au_subject) more = is \<and> (\<forall>r \<in> set more. au_by r = c \<and> au_access r = x)))"
proof (induction "is" arbitrary: au)
  case (Cons i "is")
  let ?s = "subject_new kind i"
  obtain r gid where d: "guard_decision db c ?s x None t = (r, gid)" by fastforce
  show ?case
  proof (cases "record_override db au c ?s x gid ''list'' t")
    case (Pair au1 res1)
    show ?thesis
    proof (cases res1)
      case (Inl e)
      with Cons.prems Pair d show ?thesis by (auto dest: record_override_fail)
    next
      case (Inr u)
      with Pair have "record_override db au c ?s x gid ''list'' t = (au1, Inr u)" by simp
      then obtain w where au1: "au1 = au\<lparr>audit_rows := audit_rows au @
         [\<lparr>au_grant_id = gid, au_by = c, au_subject = ?s, au_owner = w, au_access = x,
           au_reason = ''list'', au_occurred_at = t\<rparr>]\<rparr>"
        by (rule record_override_ok)
      from Cons.prems Pair Inr d have "audit_overrides db au1 c x kind t is = (au', res)" by simp
      from Cons.IH [OF this] au1 show ?thesis by auto
    qed
  qed
qed simp

lemma with_reason_ids:
  "map fst (with_reason db c x kind t is) = filter (\<lambda>i. may db t c (subject_new kind i) x None) is"
proof -
  have "map fst (with_reason db c x kind t is) =
    filter (\<lambda>i. fst (decision db (args_of c (subject_new kind i) x t None)) \<noteq> None) is"
    by (induction "is")
      (auto simp: with_reason_def Hive_Predicate.reason_def List.map_filter_simps split: option.splits)
  then show ?thesis unfolding decision_may .
qed

lemma with_reason_override:
  "(i, r) \<in> set (with_reason db c x kind t is) \<Longrightarrow>
   fst (decision db (args_of c (subject_new kind i) x t None)) = Some r"
  by (auto simp: with_reason_def Hive_Predicate.reason_def List.map_filter_def)

text \<open>What an allowed access went through, for each of the audited entry points.\<close>

definition audited_as ::
  "'z core_db_scheme \<Rightarrow> audit_db \<Rightarrow> audit_db \<Rightarrow> credential \<Rightarrow> subject \<Rightarrow> access \<Rightarrow> string \<Rightarrow> time \<Rightarrow> reason \<Rightarrow> bool" where
  "audited_as db au au' c s x note t r \<longleftrightarrow>
     (if r = OverrideReason
      then (\<exists>g \<in> set (grants db). \<exists>w. g_source g = Override \<and> g_target g = TargetPrincipal (owner_user (actor_id c)) \<and>
              subject_owner db (s_kind s) (s_id s) = Some w \<and>
              audit_rows au' = audit_rows au @
                [\<lparr>au_grant_id = Some (g_id g), au_by = c, au_subject = s, au_owner = w, au_access = x,
                  au_reason = note, au_occurred_at = t\<rparr>])
      else au' = au)"

lemma decide_and_audit_ok:
  assumes "decide_and_audit db au c s x acting note t1 t2 = (au', Inr r)"
  shows "may db t1 c s x acting \<and> audited_as db au au' c s x note t2 r"
proof -
  obtain gid where d: "guard_decision db c s x acting t1 = (Some r, gid)"
    using assms by (auto simp: decide_and_audit_def split: prod.splits option.splits if_splits sum.splits)
  then have m: "may db t1 c s x acting"
    using guard_decision_None [of db c s x acting t1] by simp
  show ?thesis
  proof (cases "r = OverrideReason")
    case False
    with assms d m show ?thesis by (simp add: decide_and_audit_def audited_as_def)
  next
    case True
    with d have dd: "decision db (args_of c s x t1 acting) = (Some ''override'', gid)"
      by (cases "fst (decision db (args_of c s x t1 acting))")
         (auto simp: guard_decision_def split: prod.splits)
    from assms d True have rec: "record_override db au c s x gid note t2 = (au', Inr ())"
      by (auto simp: decide_and_audit_def split: prod.splits sum.splits)
    from dd obtain g where g: "g \<in> set (grants db)" "gid = Some (g_id g)" "g_source g = Override"
        "g_target g = TargetPrincipal (owner_user (actor_id c))"
      by (rule override_row)
    from rec obtain w where w: "subject_owner db (s_kind s) (s_id s) = Some w"
      "au' = au\<lparr>audit_rows := audit_rows au @
       [\<lparr>au_grant_id = gid, au_by = c, au_subject = s, au_owner = w, au_access = x,
         au_reason = note, au_occurred_at = t2\<rparr>]\<rparr>"
      by (rule record_override_ok)
    show ?thesis
      unfolding audited_as_def using True m g w by auto
  qed
qed

lemma decide_and_audit_total:
  assumes "audit_up au" "may db t1 c s x acting"
  shows "\<exists>au' r. decide_and_audit db au c s x acting note t1 t2 = (au', Inr r)"
proof -
  obtain r gid where d: "guard_decision db c s x acting t1 = (Some r, gid)"
    using assms(2) guard_decision_None [of db c s x acting t1]
    by (cases "guard_decision db c s x acting t1") auto
  show ?thesis
  proof (cases "r = OverrideReason")
    case False
    with d show ?thesis by (simp add: decide_and_audit_def)
  next
    case True
    with d have "\<exists>w. subject_owner db (s_kind s) (s_id s) = Some w"
      using guard_decision_override [of db c s x acting t1] by (intro override_owned [of db c s x t1 acting]) simp
    then obtain w where "subject_owner db (s_kind s) (s_id s) = Some w" ..
    from record_override_total [OF assms(1) this, of c x gid "note" t2] d True
    show ?thesis by (auto simp: decide_and_audit_def)
  qed
qed

lemma decide_and_audit_denied:
  "\<not> may db t1 c s x acting \<Longrightarrow> decide_and_audit db au c s x acting note t1 t2 = (au, Inl Denied)"
  using guard_decision_None [of db c s x acting t1]
  by (cases "guard_decision db c s x acting t1") (auto simp: decide_and_audit_def)

text \<open>Calls are out of reach of a read-only override, so override rows never matter to a tool or a route.\<close>

definition overrides_read_only :: "'z core_db_scheme \<Rightarrow> bool" where
  "overrides_read_only db \<longleftrightarrow> (\<forall>g \<in> set (grants db). g_source g = Override \<longrightarrow> g_access g = Read)"

definition no_overrides :: "'z core_db_scheme \<Rightarrow> 'z core_db_scheme" where
  "no_overrides db = db\<lparr>grants := filter (\<lambda>g. g_source g \<noteq> Override) (grants db)\<rparr>"

lemma no_overrides_simps [simp]:
  "actors (no_overrides db) = actors db" "org_members (no_overrides db) = org_members db"
  "grants (no_overrides db) = filter (\<lambda>g. g_source g \<noteq> Override) (grants db)"
  "subject_owner (no_overrides db) k i = subject_owner db k i"
  "acting_kind (no_overrides db) a pk pid = acting_kind db a pk pid"
  "is_member (no_overrides db) o' u = is_member db o' u"
  by (simp_all add: no_overrides_def acting_kind_cong [of "db\<lparr>grants := gs\<rparr>" db for gs]
      subject_owner_cong [of "db\<lparr>grants := gs\<rparr>" db for gs] is_member_def)

lemma find_filter: "List.find p (filter q xs) = List.find (\<lambda>x. q x \<and> p x) xs"
  by (induction xs) auto

lemma principal_branch_no_overrides:
  assumes "overrides_read_only db"
  shows "principal_branch (no_overrides db) (args_of c s Call n None) = principal_branch db (args_of c s Call n None)"
proof -
  let ?a = "args_of c s Call n None"
  have 1: "probe_g1 (no_overrides db) ?a = probe_g1 db ?a"
    unfolding probe_g1_def no_overrides_simps find_filter by (rule find_cong_on) auto
  have 2: "probe_g2 (no_overrides db) ?a = probe_g2 db ?a"
    unfolding probe_g2_def no_overrides_simps find_filter by (rule find_cong_on) auto
  have 3: "probe_g3 (no_overrides db) so ?a = None" for so
    by (auto simp: probe_g3_def find_eq_None split: option.splits)
  have 4: "probe_g3 db so ?a = None" for so
    using assms
    by (auto simp: probe_g3_def find_eq_None overrides_read_only_def access_satisfies_def split: option.splits)
  show ?thesis unfolding principal_branch_def no_overrides_simps 1 2 3 4 ..
qed

lemma has_allowlist_no_overrides:
  "has_allowlist (no_overrides db) k i pk pid n = has_allowlist db k i pk pid n"
  unfolding has_allowlist_def no_overrides_simps by auto

lemma guard_decision_no_overrides:
  "overrides_read_only db \<Longrightarrow> guard_decision (no_overrides db) c s Call None n = guard_decision db c s Call None n"
proof -
  have g: "gated (args_of c s Call n None) = False" by (simp add: gated_args_of)
  assume o: "overrides_read_only db"
  show ?thesis
    unfolding guard_decision_def decision_def g principal_branch_no_overrides [OF o] if_False ..
qed

lemma guard_decision_call_not_override:
  assumes "overrides_read_only db"
  shows "fst (guard_decision db c s Call None n) \<noteq> Some OverrideReason"
proof
  assume "fst (guard_decision db c s Call None n) = Some OverrideReason"
  then obtain gid where "decision db (args_of c s Call n None) = (Some ''override'', gid)"
    unfolding guard_decision_override by (cases "decision db (args_of c s Call n None)") auto
  then obtain g where "g \<in> set (grants db)" "g_source g = Override" "access_satisfies (g_access g) Call"
    by (rule override_row)
  with assms show False by (auto simp: overrides_read_only_def access_satisfies_def)
qed

section \<open>Properties\<close>

definition audit0 :: audit_db where "audit0 = \<lparr>audit_up = True, audit_rows = []\<rparr>"
definition audit_down :: audit_db where "audit_down = \<lparr>audit_up = False, audit_rows = []\<rparr>"

text \<open>
  C5: the guard is exactly the policy, and every override is on record before the access happens. For
  a subject that is not a collection \<open>authorize\<close> answers with a reason only when the policy allows the
  access; when the reason is \<open>override\<close> exactly one row was appended to the audit file, naming the
  override grant, the credential, the subject and its real owner, and for every other reason the audit
  file is untouched. With the audit file writable the policy's yes always gets through, and whatever
  the policy denies is \<open>Denied\<close> with nothing written.
\<close>

theorem authorize_audits_overrides:
  "(\<forall>au' r. authorize db au c s x note t1 t2 = (au', Inr r) \<longrightarrow>
      s_kind s \<noteq> SCollection \<and> may db t1 c s x None \<and> audited_as db au au' c s x note t2 r) \<and>
   (audit_up au \<and> s_kind s \<noteq> SCollection \<and> may db t1 c s x None \<longrightarrow>
      (\<exists>au' r. authorize db au c s x note t1 t2 = (au', Inr r))) \<and>
   (s_kind s \<noteq> SCollection \<and> \<not> may db t1 c s x None \<longrightarrow> authorize db au c s x note t1 t2 = (au, Inl Denied))"
proof (intro conjI allI impI)
  show "\<exists>au' r. authorize db au c s x note t1 t2 = (au', Inr r)"
    if "audit_up au \<and> s_kind s \<noteq> SCollection \<and> may db t1 c s x None"
    using that decide_and_audit_total [of au db t1 c s x None "note" t2] by (simp add: authorize_def)
  show "authorize db au c s x note t1 t2 = (au, Inl Denied)"
    if "s_kind s \<noteq> SCollection \<and> \<not> may db t1 c s x None"
    using that decide_and_audit_denied [of db t1 c s x None au "note" t2] by (simp add: authorize_def)
next
  fix au' r
  assume a: "authorize db au c s x note t1 t2 = (au', Inr r)"
  then show "s_kind s \<noteq> SCollection" by (auto simp: authorize_def split: if_splits)
  with a have d: "decide_and_audit db au c s x None note t1 t2 = (au', Inr r)" by (simp add: authorize_def)
  from decide_and_audit_ok [OF d] show "may db t1 c s x None" "audited_as db au au' c s x note t2 r"
    by blast+
qed

theorem authorize_audits_overrides_witness:
  "\<exists>au'. authorize sample_db audit0 alice (subject_new SEntity 21) Read ''look'' 100 101 = (au', Inr OverrideReason) \<and>
     audited_as sample_db audit0 au' alice (subject_new SEntity 21) Read ''look'' 101 OverrideReason \<and>
     map au_grant_id (audit_rows au') = [Some 42]"
proof -
  let ?r = "authorize sample_db audit0 alice (subject_new SEntity 21) Read ''look'' 100 101"
  have r: "snd ?r = Inr OverrideReason" "map au_grant_id (audit_rows (fst ?r)) = [Some 42]" by code_simp+
  then obtain au' where au': "?r = (au', Inr OverrideReason)" by (metis prod.collapse)
  with authorize_audits_overrides [of sample_db audit0 alice "subject_new SEntity 21" Read "''look''" 100 101]
  have "audited_as sample_db audit0 au' alice (subject_new SEntity 21) Read ''look'' 101 OverrideReason"
    by blast
  with au' r(2) show ?thesis by auto
qed

text \<open>
  C6: a set read never drifts from the point check. Whatever limit is asked for, the list of visible
  entities is what filtering the live entities of the kind, newest first, by the point check at the
  same instant gives, cut at the limit: the limit counts only rows the caller may see. By the time the
  list leaves, the audit file has grown by exactly one row per listed id whose reason is \<open>override\<close>, in
  the order of the list, each with the caller and the access. If one row cannot be written the list is
  withheld.
\<close>

theorem visible_entities_are_point_checks:
  assumes v: "visible_entity_ids db au c x kind lim t1 t2 = (au', Inr ids)"
  shows "ids = limit_rows lim (map e_id (filter (\<lambda>e. e_deleted_at e = None \<and> (kind = [] \<or> e_kind e = kind) \<and>
              fst (guard_decision db c (subject_new SEntity (e_id e)) x None t1) \<noteq> None)
            (sort_key (\<lambda>e. - e_created_at e) (entities db)))) \<and>
    (\<exists>more. audit_rows au' = audit_rows au @ more \<and> (\<forall>r \<in> set more. au_by r = c \<and> au_access r = x) \<and>
       map (s_id \<circ> au_subject) more =
         filter (\<lambda>i. fst (guard_decision db c (subject_new SEntity i) x None t1) = Some OverrideReason) ids)"
proof -
  let ?ok = "\<lambda>e. e_deleted_at e = None \<and> (kind = [] \<or> e_kind e = kind)"
  let ?es = "sort_key (\<lambda>e. - e_created_at e) (filter ?ok (entities db))"
  let ?rows = "limit_rows lim (with_reason db c x SEntity t1 (map e_id ?es))"
  let ?ov = "map fst (filter (\<lambda>(i, r). reason_parse r = Some OverrideReason) ?rows)"
  obtain u where a: "audit_overrides db au c x SEntity t2 ?ov = (au', Inr u)" and ids: "ids = map fst ?rows"
    using v unfolding visible_entity_ids_def visible_ids_def
    by (auto split: prod.splits sum.splits)
  have "ids = limit_rows lim (filter (\<lambda>i. may db t1 c (subject_new SEntity i) x None) (map e_id ?es))"
    unfolding ids by (simp add: limit_rows_def take_map [symmetric] with_reason_ids)
  also have "\<dots> = limit_rows lim (map e_id (filter (\<lambda>e. ?ok e \<and> may db t1 c (subject_new SEntity (e_id e)) x None)
            (sort_key (\<lambda>e. - e_created_at e) (entities db))))"
    by (simp add: filter_map comp_def filter_sort [symmetric] conj_commute)
  finally have list: "ids = \<dots>" .
  have ov: "reason_parse (snd p) = Some OverrideReason \<longleftrightarrow>
      fst (guard_decision db c (subject_new SEntity (fst p)) x None t1) = Some OverrideReason" if "p \<in> set ?rows" for p
  proof -
    have "(fst p, snd p) \<in> set (with_reason db c x SEntity t1 (map e_id ?es))" using that set_limit_rows by fastforce
    from with_reason_override [OF this] show ?thesis by (simp add: guard_decision_def split_beta)
  qed
  have "?ov = filter (\<lambda>i. fst (guard_decision db c (subject_new SEntity i) x None t1) = Some OverrideReason) ids"
    unfolding ids filter_map comp_def using ov by (intro arg_cong [where f = "map fst"] filter_cong) (auto simp: split_beta)
  with audit_overrides_appends [OF a] list show ?thesis unfolding guard_decision_None not_not conj_assoc by auto
qed

theorem visible_entities_are_point_checks_witness:
  "\<exists>au' more. visible_entity_ids sample_db audit0 alice Read [] 1 100 101 = (au', Inr [21]) \<and>
     audit_rows au' = audit_rows audit0 @ more \<and> map (s_id \<circ> au_subject) more = [21]"
proof -
  let ?r = "visible_entity_ids sample_db audit0 alice Read [] 1 100 101"
  have "snd ?r = Inr [21]" by code_simp
  then obtain au' where r: "?r = (au', Inr [21])" by (metis prod.collapse)
  have "fst (guard_decision sample_db alice (subject_new SEntity 21) Read None 100) = Some OverrideReason"
    by code_simp
  with visible_entities_are_point_checks [OF r] r show ?thesis by auto
qed

text \<open>
  a break-glass never changes what may be called. When override rows are read-only, as the schema
  demands, the answer for a tool or a route is the same as in the database with every override row
  removed: an override neither opens a call nor puts an install on its allowlist path.
\<close>

theorem break_glass_never_touches_calls:
  assumes "overrides_read_only db"
  shows "named_reason db au c kind inst name note t1 t2 t3 = named_reason (no_overrides db) au c kind inst name note t1 t2 t3"
proof -
  define s where "s = (if has_allowlist db kind inst (principal_kind c) (principal_id c) t1
                       then subject_named kind inst name else subject_new SInstall inst)"
  have n: "fst (guard_decision db c s Call None t2) \<noteq> Some OverrideReason"
    using assms by (rule guard_decision_call_not_override)
  then show ?thesis
    unfolding named_reason_def has_allowlist_no_overrides guard_decision_no_overrides [OF assms] Let_def
      s_def [symmetric]
    by (cases "guard_decision db c s Call None t2") (auto split: option.splits)
qed

theorem break_glass_never_touches_calls_witness:
  "named_reason sample_db audit0 alice STool 12 ''search'' ''tool call'' 100 100 100 =
   named_reason (no_overrides sample_db) audit0 alice STool 12 ''search'' ''tool call'' 100 100 100"
proof -
  have "overrides_read_only sample_db" by code_simp
  then show ?thesis by (rule break_glass_never_touches_calls)
qed

end
