(* ===== verification/Hive_Grants.thy ===== *)
theory Hive_Grants
  imports Hive_Guard
begin

text \<open>
  The writers on the grants table (\<open>crates/hive-store/src/grants.rs\<close>) and the rules the schema runs on
  every insert: the trigger \<open>grants_issue_policy\<close>, the CHECKs, the unique index that leaves overrides
  out, and the foreign keys with their delete cascade. Fresh ids and the clock are arguments. A
  statement that fails changes nothing; an operation of several statements on a plain connection keeps
  the effect of the statements before the failing one.
\<close>

section \<open>The insert and its rules\<close>

text \<open>
  A row on its way in. The target is None for the one malformed shape a writer can produce, an
  \<open>install\<close> kind with no install id, which the CHECK \<open>grants_target_shape\<close> refuses.
\<close>

record new_grant =
  ng_id :: uuid
  ng_subject :: subject
  ng_target :: "target option"
  ng_access :: access
  ng_source :: grant_source
  ng_inherited_from :: "uuid option"
  ng_by :: credential
  ng_reason :: string
  ng_created_at :: time
  ng_expires_at :: "time option"

definition share_org :: "'z core_db_scheme \<Rightarrow> uuid \<Rightarrow> uuid \<Rightarrow> bool" where
  "share_org db mine theirs \<longleftrightarrow>
     (\<exists>m \<in> set (org_members db). m_user_id m = mine \<and> is_member db (m_org_id m) theirs)"

definition ai_may_share :: "'z core_db_scheme \<Rightarrow> actor \<Rightarrow> target option \<Rightarrow> bool" where
  "ai_may_share db a t =
     (case t of
        Some (TargetPrincipal w) \<Rightarrow>
          (o_kind w = a_principal_kind a \<and> o_id w = a_principal_id a)
        \<or> (o_kind w = Org \<and>
             ((a_principal_kind a = Org \<and> a_principal_id a = o_id w)
              \<or> (a_principal_kind a = User \<and> is_member db (o_id w) (a_principal_id a))))
        \<or> (o_kind w = User \<and> a_principal_kind a = User \<and> share_org db (a_principal_id a) (o_id w))
      | _ \<Rightarrow> False)"

definition grants_issue_policy :: "'z core_db_scheme \<Rightarrow> new_grant \<Rightarrow> refusal option" where
  "grants_issue_policy db n =
     (case subject_owner db (s_kind (ng_subject n)) (s_id (ng_subject n)) of
        None \<Rightarrow> Some NoSubject
      | Some w \<Rightarrow>
          (case find_actor db (actor_id (ng_by n)) of
             None \<Rightarrow> Some NoGrantingActor
           | Some a \<Rightarrow>
               if acting_kind db (actor_id (ng_by n)) (principal_kind (ng_by n)) (principal_id (ng_by n)) = None
                 then Some NotBound
               else if ng_source n = Override \<and> a_kind a \<noteq> HumanActor then Some OverrideNotHuman
               else if ng_source n = Override \<and> o_kind w \<noteq> Org then Some OverridePersonalRow
               else if ng_source n = Override \<and> \<not> is_admin db (o_id w) (actor_id (ng_by n))
                 then Some OverrideNotAdmin
               else if ng_source n \<noteq> Override \<and> w \<noteq> owner_of (ng_by n) then Some NotOwningPrincipal
               else if ng_source n \<noteq> Override \<and> a_kind a = AiActor \<and> \<not> ai_may_share db a (ng_target n)
                 then Some AiCrossesBoundary
               else None))"

definition named_kind :: "subject_kind \<Rightarrow> bool" where
  "named_kind k \<longleftrightarrow> k \<in> {STool, SRoute, SCollection}"

definition grant_checks :: "new_grant \<Rightarrow> refusal option" where
  "grant_checks n =
     (if (ng_source n = Inherited) \<noteq> (ng_inherited_from n \<noteq> None)
        then Some (CheckViolation ''grants_inherited_iff_parent'')
      else if ng_source n = Override \<and> ng_expires_at n = None
        then Some (CheckViolation ''grants_override_is_time_boxed'')
      else if ng_source n = Override \<and> ng_access n \<noteq> Read
        then Some (CheckViolation ''grants_override_is_read_only'')
      else if named_kind (s_kind (ng_subject n)) \<noteq> (s_name (ng_subject n) \<noteq> None)
        then Some (CheckViolation ''grants_named_subjects'')
      else (case ng_target n of
              None \<Rightarrow> Some (CheckViolation ''grants_target_shape'')
            | Some (TargetInstall _) \<Rightarrow>
                if ng_source n = Override
                then Some (CheckViolation ''grants_install_target_is_not_override'') else None
            | Some (TargetPrincipal _) \<Rightarrow> None))"

definition grant_key :: "grant \<Rightarrow> subject \<times> target \<times> access \<times> uuid option" where
  "grant_key g = (g_subject g, g_target g, g_access g, g_inherited_from g)"

definition grant_conflict :: "'z core_db_scheme \<Rightarrow> grant \<Rightarrow> bool" where
  "grant_conflict db n \<longleftrightarrow>
     (\<exists>g \<in> set (grants db). g_id g = g_id n \<or>
        (g_source g \<noteq> Override \<and> g_source n \<noteq> Override \<and> grant_key g = grant_key n))"

definition grant_fks :: "'z core_db_scheme \<Rightarrow> grant \<Rightarrow> bool" where
  "grant_fks db g \<longleftrightarrow>
     (case g_target g of
        TargetPrincipal w \<Rightarrow> find_actor db (o_id w) \<noteq> None
      | TargetInstall i \<Rightarrow> find_install db i \<noteq> None)
   \<and> (case g_inherited_from g of
        None \<Rightarrow> True | Some p \<Rightarrow> \<exists>h \<in> set (grants db). g_id h = p)
   \<and> find_actor db (actor_id (g_by g)) \<noteq> None \<and> find_actor db (principal_id (g_by g)) \<noteq> None"

definition row_of :: "new_grant \<Rightarrow> target \<Rightarrow> grant" where
  "row_of n t = \<lparr>g_id = ng_id n, g_subject = ng_subject n, g_target = t, g_access = ng_access n,
     g_source = ng_source n, g_inherited_from = ng_inherited_from n, g_by = ng_by n,
     g_reason = ng_reason n, g_created_at = ng_created_at n, g_expires_at = ng_expires_at n,
     g_revoked_at = None, g_revoked_by = None\<rparr>"

text \<open>One insert: the BEFORE trigger, the CHECKs, the unique indexes, the foreign keys.\<close>

definition insert_grant :: "'z core_db_scheme \<Rightarrow> new_grant \<Rightarrow> refusal + 'z core_db_scheme" where
  "insert_grant db n =
     (case grants_issue_policy db n of
        Some r \<Rightarrow> Inl r
      | None \<Rightarrow>
          (case grant_checks n of
             Some r \<Rightarrow> Inl r
           | None \<Rightarrow>
               (case ng_target n of
                  None \<Rightarrow> Inl (CheckViolation ''grants_target_shape'')
                | Some t \<Rightarrow>
                    if grant_conflict db (row_of n t) then Inl UniqueViolation
                    else if \<not> grant_fks db (row_of n t) then Inl ForeignKeyViolation
                    else Inr (db\<lparr>grants := grants db @ [row_of n t]\<rparr>))))"

section \<open>Writers\<close>

record grant_spec =
  gs_subject :: subject
  gs_target :: owner
  gs_access :: access
  gs_source :: grant_source
  gs_inherited_from :: "uuid option"
  gs_by :: credential
  gs_reason :: string
  gs_expires_at :: "time option"

definition grant_spec_direct :: "subject \<Rightarrow> owner \<Rightarrow> access \<Rightarrow> credential \<Rightarrow> grant_spec" where
  "grant_spec_direct s t x c =
     \<lparr>gs_subject = s, gs_target = t, gs_access = x, gs_source = Direct, gs_inherited_from = None,
      gs_by = c, gs_reason = [], gs_expires_at = None\<rparr>"

definition write_grant ::
  "'z core_db_scheme \<Rightarrow> grant_spec \<Rightarrow> uuid \<Rightarrow> time \<Rightarrow> 'z core_db_scheme \<times> (store_error + uuid)" where
  "write_grant db sp new_id now =
     (case insert_grant db
             \<lparr>ng_id = new_id, ng_subject = gs_subject sp, ng_target = Some (TargetPrincipal (gs_target sp)),
              ng_access = gs_access sp, ng_source = gs_source sp, ng_inherited_from = gs_inherited_from sp,
              ng_by = gs_by sp, ng_reason = gs_reason sp, ng_created_at = now,
              ng_expires_at = gs_expires_at sp\<rparr> of
        Inl r \<Rightarrow> (db, Inl (DbError ''write grant'' r))
      | Inr db' \<Rightarrow> (db', Inr new_id))"

definition write_install_grant ::
  "'z core_db_scheme \<Rightarrow> subject \<Rightarrow> uuid \<Rightarrow> access \<Rightarrow> credential \<Rightarrow> string \<Rightarrow> uuid \<Rightarrow> time
   \<Rightarrow> 'z core_db_scheme \<times> (store_error + uuid)" where
  "write_install_grant db s target_install x c why new_id now =
     (case List.find (\<lambda>g. g_subject g = s \<and> g_target g = TargetInstall target_install \<and>
                        g_access g = x \<and> g_source g = Direct \<and> g_revoked_at g = None) (grants db) of
        Some g \<Rightarrow> (db, Inr (g_id g))
      | None \<Rightarrow>
          (case insert_grant db
                  \<lparr>ng_id = new_id, ng_subject = s, ng_target = Some (TargetInstall target_install),
                   ng_access = x, ng_source = Direct, ng_inherited_from = None, ng_by = c,
                   ng_reason = why, ng_created_at = now, ng_expires_at = None\<rparr> of
             Inl r \<Rightarrow> (db, Inl (DbError ''write install grant'' r))
           | Inr db' \<Rightarrow> (db', Inr new_id)))"

text \<open>DELETE with the cascade over \<open>inherited_from\<close>: the rows named, then their children, and so on.\<close>

definition children_of :: "uuid list \<Rightarrow> grant list \<Rightarrow> uuid list" where
  "children_of ids gs =
     map g_id (filter (\<lambda>g. case g_inherited_from g of None \<Rightarrow> False | Some p \<Rightarrow> p \<in> set ids) gs)"

function del_cascade :: "uuid list \<Rightarrow> grant list \<Rightarrow> grant list" where
  "del_cascade ids gs =
     (let dead = map g_id (filter (\<lambda>g. g_id g \<in> set ids) gs)
      in if dead = [] then gs
         else del_cascade (children_of dead gs) (filter (\<lambda>g. g_id g \<notin> set ids) gs))"
  by pat_completeness auto
termination
  by (relation "measure (length \<circ> snd)")
     (auto simp: filter_empty_conv intro!: length_filter_less)

definition revoke_grant :: "'z core_db_scheme \<Rightarrow> uuid \<Rightarrow> 'z core_db_scheme \<times> (store_error + unit)" where
  "revoke_grant db i =
     (if \<exists>g \<in> set (grants db). g_id g = i
      then (db\<lparr>grants := del_cascade [i] (grants db)\<rparr>, Inr ())
      else (db, Inl NoRows))"

record unshare_result =
  ur_tombstoned :: nat
  ur_deleted :: nat

definition shared_by :: "subject \<Rightarrow> owner \<Rightarrow> grant_source \<Rightarrow> grant \<Rightarrow> bool" where
  "shared_by s t src g \<longleftrightarrow>
     g_subject g = s \<and> g_target g = TargetPrincipal t \<and> g_source g = src \<and> g_revoked_at g = None"

definition unshare ::
  "'z core_db_scheme \<Rightarrow> subject \<Rightarrow> owner \<Rightarrow> uuid \<Rightarrow> bool \<Rightarrow> time
   \<Rightarrow> 'z core_db_scheme \<times> (store_error + unshare_result)" where
  "unshare db s t by_actor delete_direct now =
     (let directs = count_rows (shared_by s t Direct) (grants db);
          tombstoned = count_rows (shared_by s t Inherited) (grants db)
      in if 0 < directs \<and> \<not> delete_direct then (db, Inl WouldDeleteDirectGrant)
         else if 0 < tombstoned \<and> find_actor db by_actor = None
           then (db, Inl (DbError ''unshare: narrow inherited'' ForeignKeyViolation))
         else
           let gs = update_rows (shared_by s t Inherited)
                      (\<lambda>g. g\<lparr>g_revoked_at := Some now, g_revoked_by := Some by_actor\<rparr>) (grants db);
               gs' = (if delete_direct then del_cascade (map g_id (filter (shared_by s t Direct) gs)) gs else gs)
           in (db\<lparr>grants := gs'\<rparr>,
               Inr \<lparr>ur_tombstoned = tombstoned, ur_deleted = (if delete_direct then directs else 0)\<rparr>))"

text \<open>
  \<open>INSERT ... SELECT ... ON CONFLICT DO NOTHING\<close>: a conflicting row is skipped, any other refusal
  aborts the statement. \<open>fresh\<close> gives the random id minted for each parent row, whose \<open>target_id\<close> is
  copied and whose \<open>target_install_id\<close> is not.
\<close>

definition inherited_row ::
  "subject \<Rightarrow> credential \<Rightarrow> (uuid \<Rightarrow> uuid) \<Rightarrow> time \<Rightarrow> grant \<Rightarrow> new_grant" where
  "inherited_row child c fresh now p =
     \<lparr>ng_id = fresh (g_id p), ng_subject = child,
      ng_target = (case g_target p of TargetPrincipal w \<Rightarrow> Some (TargetPrincipal w) | TargetInstall _ \<Rightarrow> None),
      ng_access = g_access p, ng_source = Inherited, ng_inherited_from = Some (g_id p), ng_by = c,
      ng_reason = ''inherited from '' @ subject_kind_as_str (s_kind (g_subject p)) @ '' '' @ show_nat (s_id (g_subject p)),
      ng_created_at = now, ng_expires_at = g_expires_at p\<rparr>"

fun materialize_rows ::
  "'z core_db_scheme \<Rightarrow> subject \<Rightarrow> credential \<Rightarrow> (uuid \<Rightarrow> uuid) \<Rightarrow> time \<Rightarrow> grant list \<Rightarrow> nat
   \<Rightarrow> refusal + 'z core_db_scheme \<times> nat" where
  "materialize_rows db child c fresh now [] k = Inr (db, k)"
| "materialize_rows db child c fresh now (p # ps) k =
     (case insert_grant db (inherited_row child c fresh now p) of
        Inr db' \<Rightarrow> materialize_rows db' child c fresh now ps (k + 1)
      | Inl r \<Rightarrow> if r = UniqueViolation then materialize_rows db child c fresh now ps k else Inl r)"

definition live_parents :: "'z core_db_scheme \<Rightarrow> subject \<Rightarrow> time \<Rightarrow> grant list" where
  "live_parents db parent now =
     filter (\<lambda>p. g_subject p = parent \<and> g_source p \<noteq> Override \<and> grant_live now p) (grants db)"

definition materialize_inherited ::
  "'z core_db_scheme \<Rightarrow> subject \<Rightarrow> subject \<Rightarrow> credential \<Rightarrow> (uuid \<Rightarrow> uuid) \<Rightarrow> time
   \<Rightarrow> 'z core_db_scheme \<times> (store_error + nat)" where
  "materialize_inherited db parent child c fresh now =
     (case materialize_rows db child c fresh now (live_parents db parent now) 0 of
        Inl r \<Rightarrow> (db, Inl (DbError ''materialize inherited grants'' r))
      | Inr (db', k) \<Rightarrow> (db', Inr k))"

text \<open>A window that \<open>chrono::Duration\<close> cannot hold falls back to an hour.\<close>

definition window_micros :: "nat \<Rightarrow> int" where
  "window_micros w = (if int w div 1000 \<le> i64_max then int w else 3600 * 1000000)"

definition enter_break_glass ::
  "'z core_db_scheme \<Rightarrow> subject \<Rightarrow> credential \<Rightarrow> nat \<Rightarrow> string \<Rightarrow> uuid \<Rightarrow> time
   \<Rightarrow> 'z core_db_scheme \<times> (store_error + uuid)" where
  "enter_break_glass db s admin window why new_id now =
     (if window = 0 then (db, Inl (Other ''break-glass needs a positive window''))
      else if why = [] then (db, Inl (Other ''break-glass needs a reason''))
      else
        let reaped = map g_id (filter (\<lambda>g. g_source g = Override \<and> g_subject g = s \<and>
                        g_target g = TargetPrincipal (owner_user (actor_id admin)) \<and>
                        (g_revoked_at g \<noteq> None \<or> (case g_expires_at g of None \<Rightarrow> False | Some e \<Rightarrow> e \<le> now)))
                      (grants db))
        in write_grant (db\<lparr>grants := del_cascade reaped (grants db)\<rparr>)
             \<lparr>gs_subject = s, gs_target = owner_user (actor_id admin), gs_access = Read,
              gs_source = Override, gs_inherited_from = None, gs_by = admin, gs_reason = why,
              gs_expires_at = Some (now + window_micros window)\<rparr>
             new_id now)"

section \<open>The table invariant\<close>

text \<open>What the CHECKs, the unique index and the self-reference promise of every row.\<close>

fun principal_target :: "target \<Rightarrow> bool" where
  "principal_target (TargetPrincipal _) \<longleftrightarrow> True"
| "principal_target (TargetInstall _) \<longleftrightarrow> False"

definition grant_row_ok :: "grant \<Rightarrow> bool" where
  "grant_row_ok g \<longleftrightarrow>
     (g_source g = Inherited \<longleftrightarrow> g_inherited_from g \<noteq> None) \<and>
     (g_source g = Override \<longrightarrow> g_expires_at g \<noteq> None \<and> g_access g = Read \<and> principal_target (g_target g)) \<and>
     (named_kind (s_kind (g_subject g)) \<longleftrightarrow> s_name (g_subject g) \<noteq> None) \<and>
     (g_revoked_at g = None \<longleftrightarrow> g_revoked_by g = None)"

definition parents_exist :: "grant list \<Rightarrow> bool" where
  "parents_exist gs \<longleftrightarrow>
     (\<forall>g \<in> set gs. case g_inherited_from g of None \<Rightarrow> True | Some p \<Rightarrow> p \<in> set (map g_id gs))"

definition wf_grants :: "'z core_db_scheme \<Rightarrow> bool" where
  "wf_grants db \<longleftrightarrow>
     (\<forall>g \<in> set (grants db). grant_row_ok g) \<and> distinct (map g_id (grants db)) \<and>
     distinct (map grant_key (filter (\<lambda>g. g_source g \<noteq> Override) (grants db))) \<and>
     parents_exist (grants db)"

section \<open>Lemmas: the cascade\<close>

lemma parents_exist_iff:
  "parents_exist gs \<longleftrightarrow> (\<forall>g \<in> set gs. \<forall>p. g_inherited_from g = Some p \<longrightarrow> p \<in> g_id ` set gs)"
  by (auto simp: parents_exist_def split: option.splits)

declare del_cascade.simps [simp del]

definition parent_rel :: "grant list \<Rightarrow> (uuid \<times> uuid) set" where
  "parent_rel gs = {(g_id g, p) | g p. g \<in> set gs \<and> g_inherited_from g = Some p}"

text \<open>A row is doomed when a chain of parents leads from it to a row that is deleted.\<close>

definition doomed :: "uuid list \<Rightarrow> grant list \<Rightarrow> uuid \<Rightarrow> bool" where
  "doomed ids gs i \<longleftrightarrow> (\<exists>d \<in> set gs. g_id d \<in> set ids \<and> (i, g_id d) \<in> (parent_rel gs)\<^sup>*)"

lemma parent_rel_mono: "set gs' \<subseteq> set gs \<Longrightarrow> parent_rel gs' \<subseteq> parent_rel gs"
  by (auto simp: parent_rel_def)

lemma set_children_of:
  "i \<in> set (children_of ids gs) \<longleftrightarrow> (\<exists>p \<in> set ids. (i, p) \<in> parent_rel gs)"
  by (auto simp: children_of_def parent_rel_def split: option.splits)

lemma doomed_step_down:
  fixes gs :: "grant list" and ids :: "uuid list"
  defines "gs' \<equiv> filter (\<lambda>g. g_id g \<notin> set ids) gs"
    and "dead \<equiv> map g_id (filter (\<lambda>g. g_id g \<in> set ids) gs)"
  assumes "(i, r) \<in> (parent_rel gs)\<^sup>*" "r \<in> set dead" "i \<in> g_id ` set gs'"
  shows "doomed (children_of dead gs) gs' i"
  using assms(3,5)
proof (induction rule: converse_rtrancl_induct)
  case base
  then show ?case using assms(4) by (auto simp: gs'_def dead_def)
next
  case (step i j)
  from step.hyps(1) obtain g where g: "g \<in> set gs" "g_id g = i" "g_inherited_from g = Some j"
    by (auto simp: parent_rel_def)
  with step.prems have g': "g \<in> set gs'" by (auto simp: gs'_def)
  show ?case
  proof (cases "j \<in> set dead")
    case True
    with step.hyps(1) have "i \<in> set (children_of dead gs)" by (auto simp: set_children_of)
    with g g' show ?thesis by (auto simp: doomed_def)
  next
    case False
    from step.hyps(2) assms(4) False have "j \<in> g_id ` set gs"
      by (auto elim: converse_rtranclE simp: parent_rel_def)
    with False have "j \<in> g_id ` set gs'" by (auto simp: gs'_def dead_def)
    with step.IH obtain d where "d \<in> set gs'" "g_id d \<in> set (children_of dead gs)"
        "(j, g_id d) \<in> (parent_rel gs')\<^sup>*"
      by (auto simp: doomed_def)
    moreover have "(i, j) \<in> parent_rel gs'" using g g' by (auto simp: parent_rel_def)
    ultimately show ?thesis by (auto simp: doomed_def intro: converse_rtrancl_into_rtrancl)
  qed
qed

lemma doomed_step_up:
  assumes "doomed (children_of (map g_id (filter (\<lambda>g. g_id g \<in> set ids) gs)) gs)
    (filter (\<lambda>g. g_id g \<notin> set ids) gs) i"
  shows "doomed ids gs i"
proof -
  let ?gs' = "filter (\<lambda>g. g_id g \<notin> set ids) gs"
  from assms obtain d :: grant and p where d: "(i, g_id d) \<in> (parent_rel ?gs')\<^sup>*" "(g_id d, p) \<in> parent_rel gs"
      "p \<in> g_id ` {g \<in> set gs. g_id g \<in> set ids}"
    by (auto simp: doomed_def set_children_of)
  from d(1) have "(i, g_id d) \<in> (parent_rel gs)\<^sup>*"
    using rtrancl_mono [OF parent_rel_mono [of ?gs' gs]] by auto
  from this d(2) have "(i, p) \<in> (parent_rel gs)\<^sup>*" by (rule rtrancl_into_rtrancl)
  with d(3) show ?thesis by (auto simp: doomed_def)
qed

lemma set_del_cascade: "set (del_cascade ids gs) = {g \<in> set gs. \<not> doomed ids gs (g_id g)}"
proof (induction ids gs rule: del_cascade.induct)
  case (1 ids gs)
  let ?dead = "map g_id (filter (\<lambda>g. g_id g \<in> set ids) gs)"
  let ?gs' = "filter (\<lambda>g. g_id g \<notin> set ids) gs"
  show ?case
  proof (cases "?dead = []")
    case True
    then have "\<not> doomed ids gs i" for i by (auto simp: doomed_def filter_empty_conv)
    with True show ?thesis by (subst del_cascade.simps) simp
  next
    case False
    have "g_id g \<notin> set ids \<and> \<not> doomed (children_of ?dead gs) ?gs' (g_id g) \<longleftrightarrow> \<not> doomed ids gs (g_id g)"
      if "g \<in> set gs" for g
    proof
      assume a: "g_id g \<notin> set ids \<and> \<not> doomed (children_of ?dead gs) ?gs' (g_id g)"
      show "\<not> doomed ids gs (g_id g)"
      proof
        assume "doomed ids gs (g_id g)"
        then obtain d where "d \<in> set gs" "g_id d \<in> set ids" "(g_id g, g_id d) \<in> (parent_rel gs)\<^sup>*"
          by (auto simp: doomed_def)
        with a that show False using doomed_step_down [of "g_id g" "g_id d" gs ids] by auto
      qed
    next
      assume "\<not> doomed ids gs (g_id g)"
      with that show "g_id g \<notin> set ids \<and> \<not> doomed (children_of ?dead gs) ?gs' (g_id g)"
        using doomed_step_up [of ids gs "g_id g"] by (auto simp: doomed_def)
    qed
    with "1.IH" [OF refl False] False show ?thesis
      by (subst del_cascade.simps) (auto simp: Let_def)
  qed
qed

lemma del_cascade_filter: "\<exists>P. del_cascade ids gs = filter P gs"
proof (induction ids gs rule: del_cascade.induct)
  case (1 ids gs)
  show ?case
  proof (cases "map g_id (filter (\<lambda>g. g_id g \<in> set ids) gs) = []")
    case True
    then show ?thesis by (subst del_cascade.simps) (metis (full_types) filter_True)
  next
    case False
    from "1.IH" [OF refl False] obtain P where
      "del_cascade (children_of (map g_id (filter (\<lambda>g. g_id g \<in> set ids) gs)) gs)
         (filter (\<lambda>g. g_id g \<notin> set ids) gs) = filter P (filter (\<lambda>g. g_id g \<notin> set ids) gs)" by blast
    with False show ?thesis by (subst del_cascade.simps) (auto simp: Let_def)
  qed
qed

lemma parents_exist_del_cascade:
  assumes "parents_exist gs"
  shows "parents_exist (del_cascade ids gs)"
  unfolding parents_exist_iff
proof (intro ballI allI impI)
  fix g p
  assume g: "g \<in> set (del_cascade ids gs)" and p: "g_inherited_from g = Some p"
  from g have gs: "g \<in> set gs" "\<not> doomed ids gs (g_id g)" by (auto simp: set_del_cascade)
  with p assms obtain h where h: "h \<in> set gs" "g_id h = p" by (auto simp: parents_exist_iff)
  have "(g_id g, p) \<in> parent_rel gs" using gs p by (auto simp: parent_rel_def)
  with gs(2) h have "\<not> doomed ids gs (g_id h)"
    by (auto simp: doomed_def intro: converse_rtrancl_into_rtrancl)
  with h show "p \<in> g_id ` set (del_cascade ids gs)" by (auto simp: set_del_cascade)
qed

lemma wf_grants_del_cascade:
  assumes "wf_grants db"
  shows "wf_grants (db\<lparr>grants := del_cascade ids (grants db)\<rparr>)"
proof -
  obtain P where P: "del_cascade ids (grants db) = filter P (grants db)"
    using del_cascade_filter by blast
  have "distinct (map grant_key (filter (\<lambda>g. g_source g \<noteq> Override) (filter P (grants db))))"
    using assms distinct_map_filter [of grant_key "filter (\<lambda>g. g_source g \<noteq> Override) (grants db)" P]
    by (simp add: wf_grants_def conj_commute)
  with assms parents_exist_del_cascade [of "grants db" ids] show ?thesis
    by (auto simp: wf_grants_def P distinct_map_filter)
qed

section \<open>Lemmas: the insert\<close>

lemma insert_grant_ok:
  assumes "insert_grant db n = Inr db'"
  obtains t where "ng_target n = Some t" "grants_issue_policy db n = None" "grant_checks n = None"
    "\<not> grant_conflict db (row_of n t)" "grant_fks db (row_of n t)"
    "db' = db\<lparr>grants := grants db @ [row_of n t]\<rparr>"
  using assms by (auto simp: insert_grant_def split: option.splits if_splits)

lemma row_of_simps [simp]:
  "g_id (row_of n t) = ng_id n" "g_subject (row_of n t) = ng_subject n" "g_target (row_of n t) = t"
  "g_access (row_of n t) = ng_access n" "g_source (row_of n t) = ng_source n"
  "g_inherited_from (row_of n t) = ng_inherited_from n" "g_by (row_of n t) = ng_by n"
  "g_expires_at (row_of n t) = ng_expires_at n" "g_revoked_at (row_of n t) = None"
  "g_revoked_by (row_of n t) = None"
  by (simp_all add: row_of_def)

lemma row_ok_if_checked:
  "grant_checks n = None \<Longrightarrow> ng_target n = Some t \<Longrightarrow> grant_row_ok (row_of n t)"
  by (auto simp: grant_checks_def grant_row_ok_def split: if_splits target.splits)

lemma wf_grants_insert:
  assumes w: "wf_grants db" and i: "insert_grant db n = Inr db'"
  shows "wf_grants db'"
proof -
  from i obtain t where t: "ng_target n = Some t" "grant_checks n = None" "\<not> grant_conflict db (row_of n t)"
      "grant_fks db (row_of n t)" and db': "db' = db\<lparr>grants := grants db @ [row_of n t]\<rparr>"
    by (rule insert_grant_ok)
  have "parents_exist (grants db @ [row_of n t])"
    using w t(4) by (auto simp: wf_grants_def parents_exist_iff grant_fks_def split: option.splits)
  with w t row_ok_if_checked [OF t(2,1)] show ?thesis
    by (auto simp: db' wf_grants_def grant_conflict_def)
qed

lemma insert_grant_cong:
  assumes "insert_grant db n = Inr db'"
  shows "\<exists>g. db' = db\<lparr>grants := grants db @ [g]\<rparr>"
  using assms by (auto elim: insert_grant_ok)

lemma insert_grant_same [simp]:
  assumes "insert_grant db n = Inr db'"
  shows "actors db' = actors db" "org_members db' = org_members db" "installs db' = installs db"
    "entities db' = entities db" "conversations db' = conversations db" "app_builds db' = app_builds db"
    "install_authorities db' = install_authorities db"
  using insert_grant_cong [OF assms] by auto

lemma wf_grants_write_grant:
  "wf_grants db \<Longrightarrow> wf_grants (fst (write_grant db sp i now))"
  by (auto simp: write_grant_def split: sum.splits intro: wf_grants_insert)

lemma wf_grants_write_install_grant:
  "wf_grants db \<Longrightarrow> wf_grants (fst (write_install_grant db s ti x c why i now))"
  by (auto simp: write_install_grant_def split: sum.splits option.splits intro: wf_grants_insert)

lemma wf_grants_revoke: "wf_grants db \<Longrightarrow> wf_grants (fst (revoke_grant db i))"
  by (simp add: revoke_grant_def wf_grants_del_cascade)

lemma wf_grants_tombstone:
  assumes "wf_grants db"
  shows "wf_grants (db\<lparr>grants := update_rows (shared_by s t Inherited)
     (\<lambda>g. g\<lparr>g_revoked_at := Some now, g_revoked_by := Some b\<rparr>) (grants db)\<rparr>)"
proof -
  let ?f = "\<lambda>g. if shared_by s t Inherited g then g\<lparr>g_revoked_at := Some now, g_revoked_by := Some b\<rparr> else g"
  have f: "g_id (?f g) = g_id g" "grant_key (?f g) = grant_key g" "g_source (?f g) = g_source g"
      "g_inherited_from (?f g) = g_inherited_from g" "grant_row_ok g \<Longrightarrow> grant_row_ok (?f g)" for g
    by (auto simp: grant_key_def grant_row_ok_def)
  have k: "map grant_key (filter (\<lambda>g. g_source g \<noteq> Override) (map ?f gs)) =
           map grant_key (filter (\<lambda>g. g_source g \<noteq> Override) gs)" for gs
    by (induction gs) (auto simp: grant_key_def)
  have ids: "g_id ` set (map ?f gs) = g_id ` set gs" for gs unfolding set_map image_image f(1) ..
  have i: "map g_id (map ?f gs) = map g_id gs" for gs by (simp add: f(1) comp_def)
  have "parents_exist (map ?f (grants db))"
    using assms f(4) unfolding wf_grants_def parents_exist_iff ids by (auto simp del: map_map split: if_splits)
  moreover have "\<forall>g \<in> set (map ?f (grants db)). grant_row_ok g"
    using assms by (auto simp: wf_grants_def grant_row_ok_def)
  moreover have g: "grants (db\<lparr>grants := gs\<rparr>) = gs" for gs by simp
  ultimately show ?thesis
    using assms unfolding wf_grants_def update_rows_def g k i by blast
qed

lemma wf_grants_unshare: "wf_grants db \<Longrightarrow> wf_grants (fst (unshare db s t b dd now))"
  using wf_grants_tombstone [of db s t b now] wf_grants_del_cascade
    [of "db\<lparr>grants := update_rows (shared_by s t Inherited)
     (\<lambda>g. g\<lparr>g_revoked_at := Some now, g_revoked_by := Some b\<rparr>) (grants db)\<rparr>"]
  by (auto simp: unshare_def Let_def)

lemma wf_grants_materialize_rows:
  "wf_grants db \<Longrightarrow> materialize_rows db child c fresh now ps k = Inr (db', k') \<Longrightarrow> wf_grants db'"
  by (induction db child c fresh now ps k rule: materialize_rows.induct)
     (auto split: sum.splits if_splits dest: wf_grants_insert)

lemma wf_grants_materialize: "wf_grants db \<Longrightarrow> wf_grants (fst (materialize_inherited db p ch c fresh now))"
  by (auto simp: materialize_inherited_def split: sum.splits intro: wf_grants_materialize_rows)

lemma wf_grants_break_glass: "wf_grants db \<Longrightarrow> wf_grants (fst (enter_break_glass db s c w why i now))"
  by (simp add: enter_break_glass_def Let_def wf_grants_write_grant wf_grants_del_cascade)

lemmas wf_grants_writers = wf_grants_write_grant wf_grants_write_install_grant wf_grants_revoke
  wf_grants_unshare wf_grants_materialize wf_grants_break_glass

lemma policy_passed:
  assumes "grants_issue_policy db n = None"
  obtains k w a where "subject_owner db (s_kind (ng_subject n)) (s_id (ng_subject n)) = Some w"
    "find_actor db (actor_id (ng_by n)) = Some a"
    "acting_kind db (actor_id (ng_by n)) (principal_kind (ng_by n)) (principal_id (ng_by n)) = Some k"
    "ng_source n \<noteq> Override \<Longrightarrow> w = owner_of (ng_by n)"
    "ng_source n \<noteq> Override \<Longrightarrow> k = AiActor \<Longrightarrow> ai_may_share db a (ng_target n)"
    "ng_source n = Override \<Longrightarrow> k = HumanActor \<and> o_kind w = Org \<and> is_admin db (o_id w) (actor_id (ng_by n))"
proof -
  obtain w a k where w: "subject_owner db (s_kind (ng_subject n)) (s_id (ng_subject n)) = Some w"
      and a: "find_actor db (actor_id (ng_by n)) = Some a"
      and k: "acting_kind db (actor_id (ng_by n)) (principal_kind (ng_by n)) (principal_id (ng_by n)) = Some k"
    using assms by (auto simp: grants_issue_policy_def split: option.splits if_splits)
  from a k have "k = a_kind a"
    by (auto simp: acting_kind_def split: actor_kind.splits if_splits)
  with assms w a k show thesis
    by (intro that [of w a k]) (auto simp: grants_issue_policy_def split: if_splits)
qed

lemma ai_may_share_cases:
  assumes "ai_may_share db a (Some (TargetPrincipal t))"
  shows "t = \<lparr>o_kind = a_principal_kind a, o_id = a_principal_id a\<rparr> \<or>
    (o_kind t = Org \<and> a_principal_kind a = User \<and> is_member db (o_id t) (a_principal_id a)) \<or>
    (o_kind t = User \<and> a_principal_kind a = User \<and> share_org db (a_principal_id a) (o_id t))"
  using assms by (auto simp: ai_may_share_def)

text \<open>A conflicting insert is refused for its key and nothing else.\<close>

lemma insert_grant_conflict:
  assumes "grants_issue_policy db n = None" "grant_checks n = None" "ng_target n = Some t"
    "grant_conflict db (row_of n t)"
  shows "insert_grant db n = Inl UniqueViolation"
  using assms by (simp add: insert_grant_def)

lemma grants_issue_policy_same:
  assumes "actors db' = actors db" "org_members db' = org_members db" "entities db' = entities db"
    "conversations db' = conversations db" "installs db' = installs db"
  shows "grants_issue_policy db' n = grants_issue_policy db n"
proof -
  have so: "subject_owner db' k i = subject_owner db k i" for k i
    using assms by (intro subject_owner_cong) simp_all
  have f: "find_actor db' i = find_actor db i" "is_member db' o' u = is_member db o' u"
      "is_admin db' o' u = is_admin db o' u" "acting_kind db' i pk pid = acting_kind db i pk pid" for i o' u pk pid
    by (intro directory_cong acting_kind_cong assms)+
  have ais: "ai_may_share db' a t = ai_may_share db a t" for a t
    unfolding ai_may_share_def share_org_def f assms(2) ..
  show ?thesis unfolding grants_issue_policy_def so f ais ..
qed

lemma grants_issue_policy_cong:
  "insert_grant db m = Inr db' \<Longrightarrow> grants_issue_policy db' n = grants_issue_policy db n"
  by (rule grants_issue_policy_same) simp_all

text \<open>
  A run of the materializer: it only appends, what it appends belongs to the child, and it leaves a
  row under the key of every parent it read.
\<close>

definition has_key :: "'z core_db_scheme \<Rightarrow> subject \<Rightarrow> grant \<Rightarrow> bool" where
  "has_key db child p \<longleftrightarrow>
     (\<exists>g \<in> set (grants db). g_source g \<noteq> Override \<and>
        grant_key g = (child, g_target p, g_access p, Some (g_id p)))"

lemma inherited_row_simps [simp]:
  "ng_id (inherited_row ch c f now p) = f (g_id p)" "ng_subject (inherited_row ch c f now p) = ch"
  "ng_access (inherited_row ch c f now p) = g_access p" "ng_source (inherited_row ch c f now p) = Inherited"
  "ng_inherited_from (inherited_row ch c f now p) = Some (g_id p)" "ng_by (inherited_row ch c f now p) = c"
  "ng_expires_at (inherited_row ch c f now p) = g_expires_at p"
  by (simp_all add: inherited_row_def)

lemma inherited_row_target:
  "ng_target (inherited_row ch c f now p) =
     (case g_target p of TargetPrincipal w \<Rightarrow> Some (TargetPrincipal w) | TargetInstall _ \<Rightarrow> None)"
  by (simp add: inherited_row_def)

lemma inherited_row_policy:
  assumes "(case g_target p of TargetPrincipal w \<Rightarrow> True | TargetInstall _ \<Rightarrow> False)"
  shows "ng_target (inherited_row ch c f now p) = Some (g_target p)"
  using assms by (auto simp: inherited_row_def split: target.splits)

lemma insert_inherited:
  assumes "insert_grant db (inherited_row ch c f now p) = res" "res = Inl UniqueViolation \<or> (\<exists>db'. res = Inr db')"
  shows "grants_issue_policy db (inherited_row ch c f now p) = None"
    "grant_checks (inherited_row ch c f now p) = None"
    "ng_target (inherited_row ch c f now p) = Some (g_target p)"
proof -
  show "grants_issue_policy db (inherited_row ch c f now p) = None"
    using assms by (auto simp: insert_grant_def grants_issue_policy_def split: option.splits if_splits)
  show "grant_checks (inherited_row ch c f now p) = None"
    using assms by (auto simp: insert_grant_def grants_issue_policy_def grant_checks_def
        split: option.splits if_splits target.splits)
  show "ng_target (inherited_row ch c f now p) = Some (g_target p)"
    using assms by (auto simp: insert_grant_def grants_issue_policy_def grant_checks_def inherited_row_def
        split: option.splits if_splits target.splits)
qed

lemma materialize_rows_run:
  assumes "materialize_rows db ch c fresh now ps k = Inr (db', k')"
    and "\<And>p. p \<in> set ps \<Longrightarrow> fresh (g_id p) \<notin> g_id ` set (grants db)"
    and "inj fresh" "distinct (map g_id ps)"
  shows "\<exists>new. db' = db\<lparr>grants := grants db @ new\<rparr> \<and> k' = k + length new \<and>
           (\<forall>g \<in> set new. g_subject g = ch \<and> g_source g = Inherited \<and> g_id g \<in> fresh ` g_id ` set ps) \<and>
           (\<forall>p \<in> set ps. has_key db' ch p \<and> grant_checks (inherited_row ch c fresh now p) = None \<and>
              ng_target (inherited_row ch c fresh now p) = Some (g_target p) \<and>
              grants_issue_policy db (inherited_row ch c fresh now p) = None)"
  using assms
proof (induction ps arbitrary: db k)
  case Nil
  then show ?case by (auto intro: exI [of _ "[]"])
next
  case (Cons p ps)
  let ?n = "inherited_row ch c fresh now p"
  have keep: "has_key db2 ch q"
    if "has_key db1 ch q" "set (grants db1) \<subseteq> set (grants db2)" for db1 db2 :: "'a core_db_scheme" and q
    using that unfolding has_key_def by blast
  show ?case
  proof (cases "insert_grant db ?n")
    case (Inl r)
    with Cons.prems(1) have r: "r = UniqueViolation" by (auto split: if_splits)
    with Inl Cons.prems(1) have run: "materialize_rows db ch c fresh now ps k = Inr (db', k')" by simp
    note ok = insert_inherited [OF Inl, simplified r, simplified]
    have "grant_conflict db (row_of ?n (g_target p))"
      using Inl r ok by (auto simp: insert_grant_def split: if_splits)
    moreover have "\<forall>g \<in> set (grants db). g_id g \<noteq> fresh (g_id p)"
      using Cons.prems(2) [of p] by (force simp: image_iff)
    ultimately have hk: "has_key db ch p"
      by (auto simp: grant_conflict_def has_key_def grant_key_def)
    from Cons.IH [OF run] Cons.prems(2-4) obtain new where new: "db' = db\<lparr>grants := grants db @ new\<rparr>" "k' = k + length new"
        "\<forall>g \<in> set new. g_subject g = ch \<and> g_source g = Inherited \<and> g_id g \<in> fresh ` g_id ` set ps"
        "\<forall>p \<in> set ps. has_key db' ch p \<and> grant_checks (inherited_row ch c fresh now p) = None \<and>
              ng_target (inherited_row ch c fresh now p) = Some (g_target p) \<and>
              grants_issue_policy db (inherited_row ch c fresh now p) = None" by auto
    from keep [OF hk, of db'] new(1) have "has_key db' ch p" by simp
    with new ok show ?thesis by (intro exI [of _ new]) auto
  next
    case (Inr db1)
    with Cons.prems(1) have run: "materialize_rows db1 ch c fresh now ps (k + 1) = Inr (db', k')" by simp
    note ok = insert_inherited [OF Inr, simplified]
    have db1: "db1 = db\<lparr>grants := grants db @ [row_of ?n (g_target p)]\<rparr>"
      using Inr ok by (auto elim!: insert_grant_ok)
    have fr: "fresh (g_id q) \<notin> g_id ` set (grants db1)" if "q \<in> set ps" for q
      using Cons.prems(2-4) that by (auto simp: db1 inj_eq) (metis imageI)
    have hk: "has_key db1 ch p" by (auto simp: db1 has_key_def grant_key_def)
    from Cons.IH [OF run fr] Cons.prems(3,4) obtain new where new: "db' = db1\<lparr>grants := grants db1 @ new\<rparr>" "k' = k + 1 + length new"
        "\<forall>g \<in> set new. g_subject g = ch \<and> g_source g = Inherited \<and> g_id g \<in> fresh ` g_id ` set ps"
        "\<forall>p \<in> set ps. has_key db' ch p \<and> grant_checks (inherited_row ch c fresh now p) = None \<and>
              ng_target (inherited_row ch c fresh now p) = Some (g_target p) \<and>
              grants_issue_policy db1 (inherited_row ch c fresh now p) = None" by auto
    from keep [OF hk, of db'] new(1) have "has_key db' ch p" by simp
    with new ok grants_issue_policy_cong [OF Inr] show ?thesis
      by (intro exI [of _ "row_of ?n (g_target p) # new"]) (auto simp: db1)
  qed
qed

text \<open>A second run finds every key taken and changes nothing.\<close>

lemma materialize_rows_again:
  assumes "\<And>p. p \<in> set ps \<Longrightarrow> has_key db ch p \<and> grant_checks (inherited_row ch c fresh now p) = None \<and>
     ng_target (inherited_row ch c fresh now p) = Some (g_target p) \<and>
     grants_issue_policy db (inherited_row ch c fresh now p) = None"
  shows "materialize_rows db ch c fresh now ps k = Inr (db, k)"
  using assms
proof (induction ps)
  case (Cons p ps)
  have "grant_conflict db (row_of (inherited_row ch c fresh now p) (g_target p))"
    using Cons.prems [of p] by (auto simp: has_key_def grant_conflict_def grant_key_def)
  then have "insert_grant db (inherited_row ch c fresh now p) = Inl UniqueViolation"
    using Cons.prems [of p] by (intro insert_grant_conflict [of _ _ "g_target p"]) simp_all
  with Cons show ?case by simp
qed simp

lemma inherited_row_other_run:
  "grant_checks (inherited_row ch c f' now' p) = grant_checks (inherited_row ch c f now p)"
  "ng_target (inherited_row ch c f' now' p) = ng_target (inherited_row ch c f now p)"
  "grants_issue_policy db (inherited_row ch c f' now' p) = grants_issue_policy db (inherited_row ch c f now p)"
  unfolding grant_checks_def grants_issue_policy_def inherited_row_simps inherited_row_target by (rule refl)+

lemma live_parents_later:
  assumes "now \<le> now'" "\<forall>g \<in> set new. g_subject g = ch" "parent \<noteq> ch"
  shows "set (live_parents (db\<lparr>grants := grants db @ new\<rparr>) parent now') \<subseteq> set (live_parents db parent now)"
  using assms by (auto simp: live_parents_def grant_live_def split: option.splits)

lemma distinct_live_parents: "wf_grants db \<Longrightarrow> distinct (map g_id (live_parents db parent now))"
  by (simp add: wf_grants_def live_parents_def distinct_map_filter)

lemma live_grants_after_unshare:
  assumes u: "unshare db s t b dd now = (db', Inr r)" and g: "g \<in> set (grants db')"
    and "g_subject g = s" "g_target g = TargetPrincipal t" "g_source g \<noteq> Override"
  shows "g_revoked_at g \<noteq> None"
proof
  assume live: "g_revoked_at g = None"
  let ?gs = "update_rows (shared_by s t Inherited)
      (\<lambda>g. g\<lparr>g_revoked_at := Some now, g_revoked_by := Some b\<rparr>) (grants db)"
  let ?ids = "map g_id (filter (shared_by s t Direct) ?gs)"
  have nd: "dd \<or> \<not> (\<exists>g \<in> set (grants db). shared_by s t Direct g)"
    using u by (auto simp: unshare_def Let_def split: if_splits)
  have db': "grants db' = (if dd then del_cascade ?ids ?gs else ?gs)"
    using u by (auto simp: unshare_def Let_def split: if_splits)
  have gin: "g \<in> set ?gs" using g db' by (auto simp: set_del_cascade split: if_splits)
  then show False
  proof (cases rule: in_update_rowsE)
    case (changed r0)
    then show ?thesis using live by simp
  next
    case kept
    then have d: "shared_by s t Direct g"
      using assms(3-5) live by (cases "g_source g") (auto simp: shared_by_def)
    with nd kept have dd by auto
    from d gin have "g_id g \<in> set ?ids" by auto
    then have "doomed ?ids ?gs (g_id g)" using gin by (auto simp: doomed_def)
    with g db' \<open>dd\<close> show ?thesis by (auto simp: set_del_cascade)
  qed
qed

section \<open>Properties\<close>

text \<open>
  C7: the grants table keeps its invariant under every writer. Whatever they are given and whether they
  succeed or fail half-way, \<open>write_grant\<close>, \<open>write_install_grant\<close>, \<open>revoke_grant\<close>, \<open>unshare\<close>,
  \<open>materialize_inherited\<close> and \<open>enter_break_glass\<close> leave a table in which ids are unique, an inherited
  row names an existing parent and nothing else does, an override is a time-boxed read by a principal,
  revocations are attributed and no two ordinary rows share a key.
\<close>

theorem grants_table_invariant:
  assumes "wf_grants db"
  shows "wf_grants (fst (write_grant db sp i now)) \<and>
    wf_grants (fst (write_install_grant db s ti x c why i now)) \<and>
    wf_grants (fst (revoke_grant db i)) \<and>
    wf_grants (fst (unshare db s t b dd now)) \<and>
    wf_grants (fst (materialize_inherited db s ch c fresh now)) \<and>
    wf_grants (fst (enter_break_glass db s c win why i now))"
  using wf_grants_writers [OF assms] by simp

theorem grants_table_invariant_witness:
  "wf_grants sample_db \<and>
   wf_grants (fst (unshare sample_db (subject_new SEntity 20) (owner_user 2) 1 True 100))"
proof -
  have "wf_grants sample_db" by code_simp
  then show ?thesis using grants_table_invariant by blast
qed

text \<open>
  C8: nobody writes authority they do not have. A grant that \<open>write_grant\<close> accepts was written by a
  coherent credential on a subject that exists. If it is an ordinary grant the writer acts for the
  subject's owner, and if the writer is an AI the grant goes to the AI's own principal, to an org its
  principal belongs to, or to a fellow member of such an org; if it is an override the writer is a human
  admin of the owning org and the row is a time-boxed read. Otherwise the table is unchanged.
\<close>

theorem write_grant_needs_authority:
  "case write_grant db sp i now of
     (db', Inl e) \<Rightarrow> db' = db
   | (db', Inr j) \<Rightarrow> \<exists>w a g k. j = i \<and> grants db' = grants db @ [g] \<and> g_id g = i \<and>
       subject_owner db (s_kind (gs_subject sp)) (s_id (gs_subject sp)) = Some w \<and>
       find_actor db (actor_id (gs_by sp)) = Some a \<and>
       acting_kind db (actor_id (gs_by sp)) (principal_kind (gs_by sp)) (principal_id (gs_by sp)) = Some k \<and>
       (if gs_source sp = Override
        then k = HumanActor \<and> o_kind w = Org \<and> is_admin db (o_id w) (actor_id (gs_by sp)) \<and>
             g_access g = Read \<and> g_expires_at g \<noteq> None
        else w = owner_of (gs_by sp) \<and>
             (k = HumanActor \<or>
              gs_target sp = \<lparr>o_kind = a_principal_kind a, o_id = a_principal_id a\<rparr> \<or>
              (o_kind (gs_target sp) = Org \<and> is_member db (o_id (gs_target sp)) (a_principal_id a)) \<or>
              (o_kind (gs_target sp) = User \<and> share_org db (a_principal_id a) (o_id (gs_target sp)))))"
proof -
  define n where "n = \<lparr>ng_id = i, ng_subject = gs_subject sp, ng_target = Some (TargetPrincipal (gs_target sp)),
              ng_access = gs_access sp, ng_source = gs_source sp, ng_inherited_from = gs_inherited_from sp,
              ng_by = gs_by sp, ng_reason = gs_reason sp, ng_created_at = now,
              ng_expires_at = gs_expires_at sp\<rparr>"
  have n [simp]: "ng_target n = Some (TargetPrincipal (gs_target sp))" "ng_subject n = gs_subject sp"
      "ng_by n = gs_by sp" "ng_source n = gs_source sp" "ng_access n = gs_access sp"
      "ng_expires_at n = gs_expires_at sp" "ng_id n = i"
    by (simp_all add: n_def)
  show ?thesis
  proof (cases "insert_grant db n")
    case (Inl r)
    then show ?thesis by (simp add: write_grant_def n_def [symmetric])
  next
    case (Inr db')
    then have pol: "grants_issue_policy db n = None" and chk: "grant_checks n = None"
      and db': "db' = db\<lparr>grants := grants db @ [row_of n (TargetPrincipal (gs_target sp))]\<rparr>"
      by (auto elim!: insert_grant_ok)
    from pol obtain k w a where pk: "subject_owner db (s_kind (gs_subject sp)) (s_id (gs_subject sp)) = Some w"
        "find_actor db (actor_id (gs_by sp)) = Some a"
        "acting_kind db (actor_id (gs_by sp)) (principal_kind (gs_by sp)) (principal_id (gs_by sp)) = Some k"
        "gs_source sp \<noteq> Override \<Longrightarrow> w = owner_of (gs_by sp)"
        "gs_source sp \<noteq> Override \<Longrightarrow> k = AiActor \<Longrightarrow> ai_may_share db a (Some (TargetPrincipal (gs_target sp)))"
        "gs_source sp = Override \<Longrightarrow> k = HumanActor \<and> o_kind w = Org \<and> is_admin db (o_id w) (actor_id (gs_by sp))"
      by (rule policy_passed) auto
    have k: "k = HumanActor \<or> k = AiActor"
      using pk(2,3) by (auto simp: acting_kind_def split: actor_kind.splits if_splits)
    have o: "gs_source sp = Override \<Longrightarrow> gs_access sp = Read \<and> gs_expires_at sp \<noteq> None"
      using chk by (auto simp: grant_checks_def split: if_splits)
    show ?thesis
      using Inr pk k o ai_may_share_cases [of db a "gs_target sp"]
      by (auto simp: write_grant_def n_def [symmetric] db')
  qed
qed

text \<open>
  C9: revoking a grant removes it and everything inherited from it, directly or through any number of
  steps, and nothing else; no surviving row refers to a row that is gone. Revoking an unknown id is an
  error that changes nothing.
\<close>

theorem revoke_cascades:
  assumes "wf_grants db"
  shows "(i \<in> g_id ` set (grants db) \<longrightarrow> snd (revoke_grant db i) = Inr () \<and>
            set (grants (fst (revoke_grant db i))) =
              {g \<in> set (grants db). (g_id g, i) \<notin> (parent_rel (grants db))\<^sup>*} \<and>
            parents_exist (grants (fst (revoke_grant db i)))) \<and>
         (i \<notin> g_id ` set (grants db) \<longrightarrow> revoke_grant db i = (db, Inl NoRows))"
proof -
  have "wf_grants (fst (revoke_grant db i))" using assms by (rule wf_grants_revoke)
  then have "parents_exist (grants (fst (revoke_grant db i)))" by (simp add: wf_grants_def)
  then show ?thesis by (auto simp: revoke_grant_def set_del_cascade doomed_def)
qed

theorem revoke_cascades_witness:
  "set (grants (fst (revoke_grant sample_db 41))) =
     {g \<in> set (grants sample_db). (g_id g, 41) \<notin> (parent_rel (grants sample_db))\<^sup>*}"
proof -
  have "wf_grants sample_db" "41 \<in> g_id ` set (grants sample_db)" by code_simp+
  then show ?thesis using revoke_cascades by blast
qed

text \<open>
  \<open>unshare\<close> does what was asked or nothing. Without the caller's intent to delete, a direct grant
  makes it refuse and the table is unchanged; every refusal leaves the table unchanged; and after a
  success the target holds no grant on the subject at any level or time, so what it can still reach it
  reaches by ownership, membership or break-glass only.
\<close>

theorem unshare_removes_access:
  "((\<exists>g \<in> set (grants db). shared_by s t Direct g) \<longrightarrow>
      unshare db s t b False now = (db, Inl WouldDeleteDirectGrant)) \<and>
   (case unshare db s t b dd now of
      (db', Inl e) \<Rightarrow> db' = db
    | (db', Inr r) \<Rightarrow> \<forall>n x. \<not> holds db' n t s x)"
proof (intro conjI)
  show "(\<exists>g \<in> set (grants db). shared_by s t Direct g) \<longrightarrow>
      unshare db s t b False now = (db, Inl WouldDeleteDirectGrant)"
    by (auto simp: unshare_def Let_def)
  show "case unshare db s t b dd now of (db', Inl e) \<Rightarrow> db' = db | (db', Inr r) \<Rightarrow> \<forall>n x. \<not> holds db' n t s x"
  proof (cases "unshare db s t b dd now")
    case (Pair db' res)
    show ?thesis
    proof (cases res)
      case (Inl e)
      then show ?thesis using Pair by (auto simp: unshare_def Let_def split: if_splits)
    next
      case (Inr r)
      with Pair show ?thesis
        using live_grants_after_unshare [of db s t b dd now db' r]
        by (auto simp: holds_def grant_live_def)
    qed
  qed
qed

theorem unshare_removes_access_witness:
  "unshare sample_db (subject_new SEntity 20) (owner_user 2) 1 False 100 = (sample_db, Inl WouldDeleteDirectGrant) \<and>
   (\<exists>db' r. unshare sample_db (subject_new SEntity 20) (owner_user 2) 1 True 100 = (db', Inr r) \<and>
      ur_deleted r = 1 \<and> \<not> holds db' 100 (owner_user 2) (subject_new SEntity 20) Read)"
proof -
  let ?u = "unshare sample_db (subject_new SEntity 20) (owner_user 2) 1 True 100"
  have d: "\<exists>g \<in> set (grants sample_db). shared_by (subject_new SEntity 20) (owner_user 2) Direct g" by code_simp
  have "snd ?u = Inr \<lparr>ur_tombstoned = 0, ur_deleted = 1\<rparr>" by code_simp
  then obtain db' where u: "?u = (db', Inr \<lparr>ur_tombstoned = 0, ur_deleted = 1\<rparr>)" by (metis prod.collapse)
  show ?thesis
    using unshare_removes_access [of sample_db "subject_new SEntity 20" "owner_user 2" 1 100 True] d u by simp
qed

text \<open>
  materializing inherited grants is idempotent and never resurrects. Once a run has succeeded, a
  later run for the same parent, child and credential inserts nothing, whatever ids it would mint; the
  rows already in the table, tombstones included, are kept as they were; and no key of a tombstoned
  child row gets a second row, so what was deliberately narrowed stays narrowed.
\<close>

theorem materialize_idempotent:
  assumes w: "wf_grants db" and ne: "parent \<noteq> child" and later: "now \<le> now'"
    and fresh: "inj fresh" "\<forall>p \<in> set (grants db). fresh (g_id p) \<notin> g_id ` set (grants db)"
    and run: "materialize_inherited db parent child c fresh now = (db', Inr k)"
  shows "materialize_inherited db' parent child c fresh' now' = (db', Inr 0) \<and>
    (\<exists>new. grants db' = grants db @ new \<and> length new = k) \<and>
    (\<forall>r \<in> set (grants db). g_source r \<noteq> Override \<and> g_revoked_at r \<noteq> None \<longrightarrow>
       (\<forall>g \<in> set (grants db'). g_source g \<noteq> Override \<and> grant_key g = grant_key r \<longrightarrow> g = r))"
proof (intro conjI ballI impI)
  from run have rows: "materialize_rows db child c fresh now (live_parents db parent now) 0 = Inr (db', k)"
    by (auto simp: materialize_inherited_def split: sum.splits prod.splits)
  have f: "fresh (g_id p) \<notin> g_id ` set (grants db)" if "p \<in> set (live_parents db parent now)" for p
    using that fresh(2) by (auto simp: live_parents_def)
  obtain new where new: "db' = db\<lparr>grants := grants db @ new\<rparr>" "k = length new"
      "\<forall>g \<in> set new. g_subject g = child"
      "\<forall>p \<in> set (live_parents db parent now). has_key db' child p \<and>
          grant_checks (inherited_row child c fresh now p) = None \<and>
          ng_target (inherited_row child c fresh now p) = Some (g_target p) \<and>
          grants_issue_policy db (inherited_row child c fresh now p) = None"
    using materialize_rows_run [OF rows f fresh(1) distinct_live_parents [OF w]] by auto
  show "\<exists>new. grants db' = grants db @ new \<and> length new = k" using new by auto
  have pol: "grants_issue_policy db' n = grants_issue_policy db n" for n
    by (rule grants_issue_policy_same) (simp_all add: new(1))
  have sub: "set (live_parents db' parent now') \<subseteq> set (live_parents db parent now)"
    unfolding new(1) using live_parents_later [OF later new(3) ne] .
  have "materialize_rows db' child c fresh' now' (live_parents db' parent now') 0 = Inr (db', 0)"
    by (rule materialize_rows_again)
       (use new(4) sub in \<open>auto simp: pol inherited_row_other_run(1,2) [of child c fresh' now' _ fresh now]
          inherited_row_other_run(3) [of _ child c fresh' now' _ fresh now]\<close>)
  then show "materialize_inherited db' parent child c fresh' now' = (db', Inr 0)"
    by (simp add: materialize_inherited_def)
  have w': "wf_grants db'" using wf_grants_materialize [OF w, of parent child c fresh now] run by simp
  fix r g
  assume r: "r \<in> set (grants db)" "g_source r \<noteq> Override \<and> g_revoked_at r \<noteq> None"
    and g: "g \<in> set (grants db')" "g_source g \<noteq> Override \<and> grant_key g = grant_key r"
  from r new(1) have "r \<in> set (grants db')" by simp
  with r g w' show "g = r" by (auto simp: wf_grants_def distinct_map dest!: inj_onD)
qed

text \<open>A thread of Alice's shared with Bob through its parent entity, for the concrete instance.\<close>

definition shared_thread :: core_db where
  "shared_thread = sample_db\<lparr>conversations := [\<lparr>cv_id = 60, cv_author = 1, cv_owner = owner_user 1,
     cv_runtime = ''r'', cv_model = ''m'', cv_title = '''', cv_created_at = 1, cv_updated_at = 1,
     cv_archived_at = None\<rparr>]\<rparr>"

theorem materialize_idempotent_witness:
  "\<exists>db'. materialize_inherited shared_thread (subject_new SEntity 20) (subject_new SConversation 60) alice (\<lambda>i. i + 100) 100 = (db', Inr 1) \<and>
     materialize_inherited db' (subject_new SEntity 20) (subject_new SConversation 60) alice (\<lambda>i. i + 500) 200 = (db', Inr 0)"
proof -
  let ?m = "materialize_inherited shared_thread (subject_new SEntity 20) (subject_new SConversation 60) alice (\<lambda>i. i + 100) 100"
  have "snd ?m = Inr 1" by code_simp
  then obtain db' where m: "?m = (db', Inr 1)" by (metis prod.collapse)
  have w: "wf_grants shared_thread" "\<forall>p \<in> set (grants shared_thread). g_id p + 100 \<notin> g_id ` set (grants shared_thread)"
    by code_simp+
  have n: "subject_new SEntity 20 \<noteq> subject_new SConversation 60" by (simp add: subject_new_def)
  have i: "inj (\<lambda>i :: nat. i + 100)" by (auto intro: injI)
  show ?thesis
    using materialize_idempotent [OF w(1) n _ i w(2) m, of 200 "\<lambda>i. i + 500"] m by auto
qed

text \<open>
  Materializing from a collection that any install was let into always fails. The statement copies
  \<open>target_kind\<close> and \<open>target_id\<close> of every live parent row but not \<open>target_install_id\<close>, so the copy of an
  install grant violates \<open>grants_target_shape\<close> and aborts the whole statement: with such a parent no
  grant is inherited at all, not even those of people.
\<close>

theorem materialize_fails_on_install_grants:
  assumes "p \<in> set (live_parents db parent now)" "g_target p = TargetInstall i"
  shows "\<exists>r. materialize_inherited db parent child c fresh now =
     (db, Inl (DbError ''materialize inherited grants'' r))"
proof -
  have no: "insert_grant d (inherited_row child c fresh now p) \<noteq> Inl UniqueViolation"
    "insert_grant d (inherited_row child c fresh now p) \<noteq> Inr d'" for d d' :: "'a core_db_scheme"
    using insert_inherited(3) [of d child c fresh now p] assms(2) by (auto simp: inherited_row_target)
  have "materialize_rows d child c fresh now ps k \<noteq> Inr x" if "p \<in> set ps" for d :: "'a core_db_scheme" and ps k x
    using that
  proof (induction ps arbitrary: d k)
    case (Cons q qs)
    show ?case
    proof (cases "p = q")
      case True
      with no [of d] show ?thesis by (auto split: sum.splits)
    next
      case False
      with Cons show ?thesis by (auto split: sum.splits)
    qed
  qed simp
  from this [OF assms(1)] show ?thesis
    by (cases "materialize_rows db child c fresh now (live_parents db parent now) 0")
       (auto simp: materialize_inherited_def)
qed

theorem materialize_fails_on_install_grants_witness:
  "\<exists>r. materialize_inherited sample_db (subject_named SCollection 10 ''notes'') (subject_new SEntity 20) alice (\<lambda>i. i + 100) 100 =
     (sample_db, Inl (DbError ''materialize inherited grants'' r))"
proof -
  let ?ps = "live_parents sample_db (subject_named SCollection 10 ''notes'') 100"
  have "?ps \<noteq> []" "g_target (hd ?ps) = TargetInstall 11" by code_simp+
  then show ?thesis
    using materialize_fails_on_install_grants [of "hd ?ps" sample_db _ 100 11] by simp
qed

text \<open>
  break-glass always works for the admin it is meant for. A human admin of the owning org who gives
  a window and a reason gets the override, however many they entered before and whatever rows are left
  over; it lets them read the subject at every instant before it expires, and it ends at the window.
\<close>

theorem break_glass_available:
  assumes hu: "acting_kind db (actor_id c) (principal_kind c) (principal_id c) = Some HumanActor"
    and own: "subject_owner db (s_kind s) (s_id s) = Some w" "o_kind w = Org" "is_admin db (o_id w) (actor_id c)"
    and shape: "named_kind (s_kind s) \<longleftrightarrow> s_name s \<noteq> None"
    and exist: "find_actor db (principal_id c) \<noteq> None" "new_id \<notin> g_id ` set (grants db)"
    and arg: "0 < win" "why \<noteq> []"
  shows "\<exists>db' g. enter_break_glass db s c win why new_id now = (db', Inr new_id) \<and>
     g \<in> set (grants db') \<and> g_id g = new_id \<and> g_expires_at g = Some (now + window_micros win) \<and>
     (\<forall>t < now + window_micros win. fst (decision db' (args_of c s Read t None)) \<noteq> None)"
proof -
  obtain gs where gs: "set gs \<subseteq> set (grants db)" and
    eb: "enter_break_glass db s c win why new_id now = write_grant (db\<lparr>grants := gs\<rparr>)
        \<lparr>gs_subject = s, gs_target = owner_user (actor_id c), gs_access = Read,
         gs_source = Override, gs_inherited_from = None, gs_by = c, gs_reason = why,
         gs_expires_at = Some (now + window_micros win)\<rparr> new_id now"
    using arg by (auto simp: enter_break_glass_def Let_def set_del_cascade
        intro!: that [of "del_cascade ids (grants db)" for ids])
  let ?d = "db\<lparr>grants := gs\<rparr>"
  define n where "n = \<lparr>ng_id = new_id, ng_subject = s, ng_target = Some (TargetPrincipal (owner_user (actor_id c))),
     ng_access = Read, ng_source = Override, ng_inherited_from = None, ng_by = c, ng_reason = why,
     ng_created_at = now, ng_expires_at = Some (now + window_micros win)\<rparr>"
  have so: "subject_owner (db\<lparr>grants := x\<rparr>) k i = subject_owner db k i" for k i x
    by (rule subject_owner_cong) simp_all
  have d: "find_actor (db\<lparr>grants := x\<rparr>) i = find_actor db i" "is_member (db\<lparr>grants := x\<rparr>) o' u = is_member db o' u"
      "is_admin (db\<lparr>grants := x\<rparr>) o' u = is_admin db o' u"
      "acting_kind (db\<lparr>grants := x\<rparr>) i pk pid = acting_kind db i pk pid" for i o' u pk pid x
    by (intro directory_cong acting_kind_cong; simp)+
  obtain a where a: "find_actor db (actor_id c) = Some a" "a_kind a = HumanActor"
    using hu by (auto simp: acting_kind_def split: option.splits actor_kind.splits if_splits)
  have "grants_issue_policy ?d n = None"
    by (simp add: grants_issue_policy_def n_def so d own a hu)
  moreover have "grant_checks n = None" using shape by (simp add: grant_checks_def n_def)
  moreover have "\<not> grant_conflict ?d (row_of n (TargetPrincipal (owner_user (actor_id c))))"
    using gs exist(2) by (force simp: grant_conflict_def n_def)
  moreover have "grant_fks ?d (row_of n (TargetPrincipal (owner_user (actor_id c))))"
    using exist(1) a by (auto simp: grant_fks_def n_def d owner_user_def)
  ultimately have ins: "insert_grant ?d n =
      Inr (db\<lparr>grants := gs @ [row_of n (TargetPrincipal (owner_user (actor_id c)))]\<rparr>)"
    by (simp add: insert_grant_def) (simp add: n_def)
  define db' where "db' = db\<lparr>grants := gs @ [row_of n (TargetPrincipal (owner_user (actor_id c)))]\<rparr>"
  have "enter_break_glass db s c win why new_id now = (db', Inr new_id)"
    unfolding eb write_grant_def using ins by (simp add: n_def db'_def)
  moreover have "break_glass db' t (actor_id c) s Read" if "t < now + window_micros win" for t
    using that by (auto simp: break_glass_def db'_def n_def access_satisfies_def)
  then have "may db' t c s Read None" if "t < now + window_micros win" for t
    using that own hu unfolding may_def principal_may_def db'_def so d by auto
  then have "\<forall>t < now + window_micros win. fst (decision db' (args_of c s Read t None)) \<noteq> None"
    unfolding decision_may by blast
  moreover have "row_of n (TargetPrincipal (owner_user (actor_id c))) \<in> set (grants db')"
    by (simp add: db'_def)
  ultimately show ?thesis
    by (intro exI [of _ db'] exI [of _ "row_of n (TargetPrincipal (owner_user (actor_id c)))"]) (simp add: n_def)
qed

theorem break_glass_available_witness:
  "\<exists>db'. enter_break_glass sample_db (subject_new SEntity 21) alice 60 ''incident'' 99 1000 = (db', Inr 99) \<and>
     fst (decision db' (args_of alice (subject_new SEntity 21) Read 1059 None)) \<noteq> None"
proof -
  have h: "acting_kind sample_db (actor_id alice) (principal_kind alice) (principal_id alice) = Some HumanActor"
      "subject_owner sample_db (s_kind (subject_new SEntity 21)) (s_id (subject_new SEntity 21)) = Some (owner_org 3)"
      "is_admin sample_db (o_id (owner_org 3)) (actor_id alice)"
      "named_kind (s_kind (subject_new SEntity 21)) \<longleftrightarrow> s_name (subject_new SEntity 21) \<noteq> None"
      "find_actor sample_db (principal_id alice) \<noteq> None" "99 \<notin> g_id ` set (grants sample_db)"
    by code_simp+
  have "o_kind (owner_org 3) = Org" by (simp add: owner_org_def)
  moreover have "(1059 :: int) < 1000 + window_micros 60" by (simp add: window_micros_def i64_max_def)
  ultimately show ?thesis
    using break_glass_available [OF h(1,2) _ h(3-6), of 60 "''incident''" 1000] by fastforce
qed

end
