(* ===== verification/Hive_Manifest.thy ===== *)
theory Hive_Manifest
  imports Hive_Schema
begin

text \<open>
  The app declaration (\<open>crates/hive-manifest\<close>): the manifest's data, \<open>validate\<close> with every check in the
  order the code runs them, the index declarations that end up inside DDL, and the identifiers the
  platform derives from names. \<open>validate\<close> collects one error per problem; the model keeps the class of
  each error (\<open>ErrorKind\<close>) and leaves its prose out. SHA-256 is not under \<open>src/\<close>: the hex digest is an
  argument. Strings are bytes, so a control character is one of the ASCII ones.
\<close>

section \<open>The manifest\<close>

datatype kind = App | Tool

datatype app_runtime = Bun | Python

fun app_runtime_as_str :: "app_runtime \<Rightarrow> string" where
  "app_runtime_as_str Bun = ''bun''"
| "app_runtime_as_str Python = ''python''"

definition app_runtime_parse :: "string \<Rightarrow> app_runtime option" where
  "app_runtime_parse s = List.find (\<lambda>r. app_runtime_as_str r = s) [Bun, Python]"

text \<open>A JSON value; a number that is no integer is its text.\<close>

datatype json = JNull | JBool bool | JInt int | JFloat string | JStr string | JArr "json list" | JObj "(string \<times> json) list"

record process_decl =
  p_runtime :: "app_runtime option"
  p_entry :: string
  p_idle_timeout_secs :: "nat option"
  p_always_on :: bool
  p_image :: "string option"

record collection =
  c_name :: string
  c_crud :: bool
  c_indexes :: "string list"

record tool_def =
  td_name :: string
  td_function :: string
  td_description :: string
  td_input_schema :: "json option"
  td_hidden :: bool

record route_def =
  rd_method :: string
  rd_path :: string
  rd_function :: string
  rd_hidden :: bool

record manifest =
  mf_kind :: "kind option"
  mf_name :: string
  mf_version :: int
  mf_collections :: "collection list"
  mf_uses :: "use_decl list"
  mf_functions :: "string list"
  mf_tools :: "tool_def list"
  mf_routes :: "route_def list"
  mf_subscriptions :: "string list"
  mf_capabilities :: "string list"
  mf_process :: "process_decl option"

datatype error_kind =
    EKind | EName | EVersion | EToolTier | EDuplicate | EUnknownFunc | EReservedName | ERoute | EIndex
  | EUses | EProcess

section \<open>Names and identifiers\<close>

definition name_char :: "char \<Rightarrow> bool" where
  "name_char c \<longleftrightarrow> is_lower c \<or> is_digit c \<or> c = CHR ''_''"

text \<open>\<open>^[a-z][a-z0-9_]{0,62}$\<close>, the pattern of names and of path segments.\<close>

definition name_re :: "string \<Rightarrow> bool" where
  "name_re s = (case s of [] \<Rightarrow> False | c # cs \<Rightarrow> is_lower c \<and> list_all name_char cs \<and> length cs \<le> 62)"

text \<open>\<open>^[a-z][a-z0-9_]*(\.[a-z][a-z0-9_]*)?$\<close>.\<close>

definition tool_word :: "string \<Rightarrow> bool" where
  "tool_word s = (case s of [] \<Rightarrow> False | c # cs \<Rightarrow> is_lower c \<and> list_all name_char cs)"

definition tool_name_re :: "string \<Rightarrow> bool" where
  "tool_name_re s \<longleftrightarrow> (let ws = split_on CHR ''.'' s in length ws \<le> 2 \<and> list_all tool_word ws)"

definition max_identifier :: nat where "max_identifier = 63"
definition schema_prefix :: string where "schema_prefix = ''app_''"
definition owner_suffix_len :: nat where "owner_suffix_len = 8"

definition max_app_name :: nat where
  "max_app_name = max_identifier - length schema_prefix - 1 - owner_suffix_len"

definition derived_suffixes :: "string list" where
  "derived_suffixes = [''_owner_idx'', ''_touch'', ''_vector_9999_idx'']"

definition longest_derived_suffix :: nat where
  "longest_derived_suffix = fold (\<lambda>s k. if k < length s then length s else k) derived_suffixes 0"

definition max_collection_name :: nat where
  "max_collection_name = max_identifier - longest_derived_suffix"

definition schema_name :: "(string \<Rightarrow> string) \<Rightarrow> string \<Rightarrow> string \<Rightarrow> string \<Rightarrow> string" where
  "schema_name sha256_hex app owner_kind owner_id =
     schema_prefix @ app @ ''_'' @ take owner_suffix_len (sha256_hex (owner_kind @ '':'' @ owner_id))"

definition qualified_tool_name :: "string \<Rightarrow> string \<Rightarrow> string" where
  "qualified_tool_name app tool = app @ ''.'' @ tool"

definition split_tool_name :: "string \<Rightarrow> (string \<times> string) option" where
  "split_tool_name q =
     (case split_once CHR ''.'' q of
        None \<Rightarrow> None
      | Some (app, tool) \<Rightarrow> if app = [] \<or> tool = [] then None else Some (app, tool))"

section \<open>Process declarations\<close>

definition is_control :: "char \<Rightarrow> bool" where
  "is_control c \<longleftrightarrow> (of_char c :: nat) < 32 \<or> (of_char c :: nat) = 127"

definition is_hex :: "char \<Rightarrow> bool" where
  "is_hex c \<longleftrightarrow> is_digit c \<or> (97 \<le> (of_char c :: nat) \<and> (of_char c :: nat) \<le> 102)"

definition validate_image :: "string \<Rightarrow> bool" where
  "validate_image reference =
     (case rsplit_once CHR ''@'' reference of
        None \<Rightarrow> False
      | Some (repo, digest) \<Rightarrow>
          if repo = [] \<or> list_ex is_space repo \<or> CHR ''@'' \<in> set repo then False
          else (case strip_prefix ''sha256:'' digest of
                  None \<Rightarrow> False
                | Some hex \<Rightarrow> length hex = 64 \<and> list_all is_hex hex))"

definition backslash :: char where "backslash = char_of (92 :: nat)"

definition validate_entry :: "string \<Rightarrow> bool" where
  "validate_entry entry =
     (if entry = [] then False
      else if hd entry = CHR ''/'' \<or> hd entry = backslash then False
      else if list_ex is_control entry then False
      else list_all (\<lambda>seg. \<not> (seg = [] \<or> seg = ''.'' \<or> seg = ''..''))
             (split_on CHR ''/'' (map (\<lambda>c. if c = backslash then CHR ''/'' else c) entry)))"

section \<open>Index declarations\<close>

datatype index_method = BTree | Gin | Fts | Vector

fun index_method_as_str :: "index_method \<Rightarrow> string" where
  "index_method_as_str BTree = ''btree''"
| "index_method_as_str Gin = ''gin''"
| "index_method_as_str Fts = ''fts''"
| "index_method_as_str Vector = ''vector''"

definition index_method_parse :: "string \<Rightarrow> index_method option" where
  "index_method_parse s =
     (if s = ''btree'' then Some BTree
      else if s = ''gin'' then Some Gin
      else if s = ''fts'' then Some Fts
      else if s = ''vector'' then Some Vector
      else None)"

record index =
  ix_method :: index_method
  ix_path :: "string list"
  ix_dim :: nat

definition index_display :: "index \<Rightarrow> string" where
  "index_display i =
     (let p = join_with CHR ''.'' (ix_path i)
      in if ix_method i = Vector then ''vector('' @ p @ '', '' @ show_nat (ix_dim i) @ '')''
         else index_method_as_str (ix_method i) @ ''('' @ p @ '')'')"

definition max_vector_dim :: nat where "max_vector_dim = 4096"

text \<open>\<open>^([a-z]+)\(([^()]*)\)$\<close>: the method and what stands between the parentheses.\<close>

definition index_re :: "string \<Rightarrow> (string \<times> string) option" where
  "index_re s =
     (let m = takeWhile is_lower s in
      case dropWhile is_lower s of
        [] \<Rightarrow> None
      | c # cs \<Rightarrow>
          if m \<noteq> [] \<and> c = CHR ''('' \<and> cs \<noteq> [] \<and> last cs = CHR '')'' \<and>
             CHR ''('' \<notin> set (butlast cs) \<and> CHR '')'' \<notin> set (butlast cs)
          then Some (m, butlast cs) else None)"

definition vector_dim :: "string \<Rightarrow> nat option" where
  "vector_dim s =
     (case parse_unsigned (2 ^ 32 - 1) (trim s) of
        None \<Rightarrow> None
      | Some d \<Rightarrow> if 1 \<le> d \<and> d \<le> max_vector_dim then Some d else None)"

definition parse_index :: "string \<Rightarrow> error_kind + index" where
  "parse_index decl =
     (case index_re (trim decl) of
        None \<Rightarrow> Inl EIndex
      | Some (mt, body) \<Rightarrow>
          (case index_method_parse mt of
             None \<Rightarrow> Inl EIndex
           | Some m \<Rightarrow>
               let args = split_on CHR '','' body;
                   path_arg = trim (hd args);
                   dim = (if m = Vector
                          then (if length args \<noteq> 2 then None else vector_dim (args ! 1))
                          else (if length args \<noteq> 1 then None else Some 0))
               in (case dim of
                     None \<Rightarrow> Inl EIndex
                   | Some d \<Rightarrow>
                       if path_arg = [] then Inl EIndex
                       else
                         let segs = map trim (split_on CHR ''.'' path_arg)
                         in if list_all name_re segs
                            then Inr \<lparr>ix_method = m, ix_path = segs, ix_dim = d\<rparr>
                            else Inl EIndex)))"

section \<open>Routes\<close>

definition methods :: "string list" where
  "methods = [''GET'', ''POST'', ''PUT'', ''PATCH'', ''DELETE'']"

fun check_segments :: "string list \<Rightarrow> string list \<Rightarrow> bool" where
  "check_segments seen [] = True"
| "check_segments seen (seg # segs) =
     (if seg = [] then False
      else if seg = ''.'' \<or> seg = ''..'' then False
      else if count_list seg (CHR ''{'') = 0
        then (if CHR ''}'' \<in> set seg then False else check_segments seen segs)
      else if 1 < count_list seg (CHR ''{'') \<or> hd seg \<noteq> CHR ''{'' \<or> last seg \<noteq> CHR ''}'' then False
      else
        let name = butlast (tl seg)
        in if ends_with ''...'' name then False
           else if \<not> name_re name then False
           else if name \<in> set seen then False
           else check_segments (name # seen) segs)"

definition check_pattern :: "string \<Rightarrow> bool" where
  "check_pattern path =
     (let trimmed = (if path \<noteq> [] \<and> last path = CHR ''/'' then butlast path else path)
      in check_segments [] (tl (split_on CHR ''/'' trimmed)))"

definition route_validate :: "string list \<Rightarrow> route_def \<Rightarrow> error_kind option" where
  "route_validate funcs r =
     (if rd_method r \<notin> set methods then Some ERoute
      else if \<not> starts_with ''/'' (rd_path r) then Some ERoute
      else if \<not> check_pattern (rd_path r) then Some ERoute
      else if rd_function r \<noteq> [] \<and> rd_function r \<notin> set funcs then Some EUnknownFunc
      else None)"

section \<open>Validation\<close>

definition name_errs :: "manifest \<Rightarrow> error_kind list" where
  "name_errs m =
     (if \<not> name_re (mf_name m) then [EName]
      else if max_app_name < length (mf_name m) then [EName] else [])"

definition process_errs :: "manifest \<Rightarrow> error_kind list" where
  "process_errs m =
     (case mf_process m of
        None \<Rightarrow> []
      | Some p \<Rightarrow>
          (if mf_kind m = Some Tool then [EToolTier] else []) @
          (if p_runtime p = None then [EProcess] else []) @
          (if validate_entry (p_entry p) then [] else [EProcess]) @
          (case p_image p of None \<Rightarrow> [] | Some i \<Rightarrow> if validate_image i then [] else [EProcess]) @
          (case p_idle_timeout_secs p of
             None \<Rightarrow> []
           | Some n \<Rightarrow> if n = 0 then [EProcess] else if p_always_on p then [EProcess] else []))"

definition tier_errs :: "manifest \<Rightarrow> error_kind list" where
  "tier_errs m =
     (if mf_kind m = Some Tool
      then (if mf_collections m \<noteq> [] then [EToolTier]
            else if mf_uses m \<noteq> [] then [EToolTier]
            else if mf_routes m \<noteq> [] then [EToolTier]
            else if mf_subscriptions m \<noteq> [] then [EToolTier]
            else if length (mf_functions m) \<noteq> 1 then [EToolTier] else [])
      else [])"

fun function_errs :: "string list \<Rightarrow> string list \<Rightarrow> error_kind list" where
  "function_errs seen [] = []"
| "function_errs seen (f # fs) =
     (if \<not> name_re f then EName # function_errs seen fs
      else (if f \<in> set seen then [EDuplicate] else []) @ function_errs (f # seen) fs)"

fun use_errs :: "string \<Rightarrow> (string \<times> string) list \<Rightarrow> use_decl list \<Rightarrow> error_kind list" where
  "use_errs self seen [] = []"
| "use_errs self seen (u # us) =
     (if \<not> name_re (u_app u) then EUses # use_errs self seen us
      else if \<not> name_re (u_collection u) then EUses # use_errs self seen us
      else if u_app u = self then EUses # use_errs self seen us
      else (if (u_app u, u_collection u) \<in> set seen then [EDuplicate] else []) @
           use_errs self ((u_app u, u_collection u) # seen) us)"

definition index_errs :: "collection \<Rightarrow> error_kind list" where
  "index_errs c = concat (map (\<lambda>d. case parse_index d of Inl _ \<Rightarrow> [EIndex] | Inr _ \<Rightarrow> []) (c_indexes c))"

fun collection_errs :: "string list \<Rightarrow> collection list \<Rightarrow> error_kind list" where
  "collection_errs seen [] = []"
| "collection_errs seen (c # cs) =
     (if \<not> name_re (c_name c) then EName # collection_errs seen cs
      else (if c_name c \<in> set seen then [EDuplicate] else []) @
           (if max_collection_name < length (c_name c) then [EName] else []) @
           index_errs c @ collection_errs (c_name c # seen) cs)"

datatype op = List_op | Get_op | Create_op | Update_op | Delete_op

fun op_as_str :: "op \<Rightarrow> string" where
  "op_as_str List_op = ''list''"
| "op_as_str Get_op = ''get''"
| "op_as_str Create_op = ''create''"
| "op_as_str Update_op = ''update''"
| "op_as_str Delete_op = ''delete''"

record crud_op =
  co_op :: op
  co_tool :: string
  co_method :: string
  co_by_id :: bool

definition crud_ops :: "crud_op list" where
  "crud_ops =
     [\<lparr>co_op = List_op, co_tool = ''list'', co_method = ''GET'', co_by_id = False\<rparr>,
      \<lparr>co_op = Get_op, co_tool = ''get'', co_method = ''GET'', co_by_id = True\<rparr>,
      \<lparr>co_op = Create_op, co_tool = ''create'', co_method = ''POST'', co_by_id = False\<rparr>,
      \<lparr>co_op = Update_op, co_tool = ''update'', co_method = ''PATCH'', co_by_id = True\<rparr>,
      \<lparr>co_op = Delete_op, co_tool = ''delete'', co_method = ''DELETE'', co_by_id = True\<rparr>]"

definition generated_names :: "collection list \<Rightarrow> string list" where
  "generated_names cs =
     concat (map (\<lambda>c. map (\<lambda>g. c_name c @ ''.'' @ co_tool g) crud_ops)
       (filter (\<lambda>c. name_re (c_name c) \<and> c_crud c) cs))"

fun tool_errs :: "string list \<Rightarrow> string list \<Rightarrow> string list \<Rightarrow> tool_def list \<Rightarrow> error_kind list" where
  "tool_errs generated funcs seen [] = []"
| "tool_errs generated funcs seen (t # ts) =
     (if \<not> tool_name_re (td_name t) then EName # tool_errs generated funcs seen ts
      else (if td_name t \<in> set seen then [EDuplicate] else []) @
           (if td_name t \<in> set generated \<and> td_function t = [] \<and> \<not> td_hidden t then [EReservedName] else []) @
           (if td_function t \<noteq> [] \<and> td_function t \<notin> set funcs then [EUnknownFunc] else []) @
           tool_errs generated funcs (td_name t # seen) ts)"

definition route_key :: "string \<Rightarrow> string \<Rightarrow> string" where
  "route_key m p = m @ '' '' @ p"

fun route_errs :: "string list \<Rightarrow> string list \<Rightarrow> route_def list \<Rightarrow> error_kind list" where
  "route_errs funcs seen [] = []"
| "route_errs funcs seen (r # rs) =
     (case route_validate funcs r of
        Some e \<Rightarrow> e # route_errs funcs seen rs
      | None \<Rightarrow>
          let key = route_key (rd_method r) (rd_path r)
          in (if key \<in> set seen then [EDuplicate] else []) @ route_errs funcs (key # seen) rs)"

definition validation_errors :: "manifest \<Rightarrow> error_kind list" where
  "validation_errors m =
     (let funcs = filter name_re (mf_functions m)
      in (if mf_kind m = None then [EKind] else []) @
         name_errs m @
         (if mf_version m < 1 then [EVersion] else []) @
         process_errs m @
         tier_errs m @
         function_errs [] (mf_functions m) @
         use_errs (mf_name m) [] (mf_uses m) @
         collection_errs [] (mf_collections m) @
         tool_errs (generated_names (mf_collections m)) funcs [] (mf_tools m) @
         route_errs funcs [] (mf_routes m) @
         concat (map (\<lambda>k. if k = [] then [EName] else []) (mf_subscriptions m)))"

definition validate :: "manifest \<Rightarrow> error_kind list + unit" where
  "validate m =
     (let errs = validation_errors m in if errs = [] then Inr () else Inl errs)"

definition manifest_kind :: "manifest \<Rightarrow> kind" where
  "manifest_kind m = (case mf_kind m of None \<Rightarrow> App | Some k \<Rightarrow> k)"

definition capability_names :: "manifest \<Rightarrow> string list" where
  "capability_names m = sort (remdups (filter (\<lambda>c. c \<noteq> []) (mf_capabilities m)))"

fun used_apps_from :: "string list \<Rightarrow> use_decl list \<Rightarrow> string list" where
  "used_apps_from seen [] = []"
| "used_apps_from seen (u # us) =
     (if u_app u \<in> set seen then used_apps_from seen us
      else u_app u # used_apps_from (u_app u # seen) us)"

definition used_apps :: "manifest \<Rightarrow> string list" where
  "used_apps m = used_apps_from [] (mf_uses m)"

section \<open>The schema plan\<close>

record collection_plan =
  cp_name :: string
  cp_crud :: bool
  cp_indexes :: "index list"

record schema_plan =
  sp_schema :: string
  sp_collections :: "collection_plan list"

fun parse_indexes :: "string list \<Rightarrow> error_kind + index list" where
  "parse_indexes [] = Inr []"
| "parse_indexes (d # ds) =
     (case parse_index d of
        Inl e \<Rightarrow> Inl e
      | Inr i \<Rightarrow> (case parse_indexes ds of Inl e \<Rightarrow> Inl e | Inr is \<Rightarrow> Inr (i # is)))"

fun plan_collections :: "collection list \<Rightarrow> error_kind + collection_plan list" where
  "plan_collections [] = Inr []"
| "plan_collections (c # cs) =
     (case parse_indexes (c_indexes c) of
        Inl e \<Rightarrow> Inl e
      | Inr is \<Rightarrow>
          (case plan_collections cs of
             Inl e \<Rightarrow> Inl e
           | Inr ps \<Rightarrow> Inr (\<lparr>cp_name = c_name c, cp_crud = c_crud c, cp_indexes = is\<rparr> # ps)))"

definition schema_plan_of ::
  "(string \<Rightarrow> string) \<Rightarrow> manifest \<Rightarrow> string \<Rightarrow> string \<Rightarrow> error_kind + schema_plan" where
  "schema_plan_of sha256_hex m owner_kind owner_id =
     (let name = schema_name sha256_hex (mf_name m) owner_kind owner_id
      in if manifest_kind m \<noteq> App then Inr \<lparr>sp_schema = name, sp_collections = []\<rparr>
         else (case plan_collections (mf_collections m) of
                 Inl e \<Rightarrow> Inl e
               | Inr ps \<Rightarrow> Inr \<lparr>sp_schema = name, sp_collections = ps\<rparr>))"

section \<open>Lemmas\<close>

interpretation im: column_codec index_method_as_str index_method_parse
proof
  show "index_method_parse (index_method_as_str x) = Some x" for x
    by (cases x) (simp_all add: index_method_parse_def)
qed

interpretation ar: column_codec app_runtime_as_str app_runtime_parse
proof
  show "app_runtime_parse (app_runtime_as_str x) = Some x" for x
    by (cases x) (simp_all add: app_runtime_parse_def)
qed

lemma index_method_parse_Some [simp]:
  "index_method_parse s = Some m \<longleftrightarrow> s = index_method_as_str m"
  by (cases m) (auto simp: index_method_parse_def)

lemma name_char_not [simp]:
  "\<not> name_char (CHR ''.'')" "\<not> name_char (CHR '','')" "\<not> name_char (CHR ''('')" "\<not> name_char (CHR '')'')"
  "\<not> name_char (CHR '' '')" "\<not> name_char (CHR ''/'')"
  by (simp_all add: name_char_def is_lower_def is_digit_def)

lemma is_space_not_name [simp]: "name_char c \<Longrightarrow> \<not> is_space c"
  by (auto simp: name_char_def is_space_def is_lower_def is_digit_def)

lemma name_re_chars: "name_re s \<Longrightarrow> s \<noteq> [] \<and> list_all name_char s \<and> length s \<le> 63"
  by (auto simp: name_re_def name_char_def split: list.splits)

lemma name_re_free:
  assumes "name_re s" "\<not> name_char c"
  shows "c \<notin> set s"
  using assms name_re_chars by (auto simp: list_all_iff)

lemma trim_id: "s \<noteq> [] \<Longrightarrow> \<not> is_space (hd s) \<Longrightarrow> \<not> is_space (last s) \<Longrightarrow> trim s = s"
proof -
  assume "s \<noteq> []" "\<not> is_space (hd s)" "\<not> is_space (last s)"
  then have "dropWhile is_space s = s" "dropWhile is_space (rev s) = rev s"
    by (simp_all add: dropWhile_eq_self_iff hd_rev)
  then show ?thesis by (simp add: trim_def)
qed

lemma trim_no_space: "s \<noteq> [] \<Longrightarrow> \<forall>c \<in> set s. \<not> is_space c \<Longrightarrow> trim s = s"
  by (intro trim_id) auto

lemma trim_space_Cons [simp]: "is_space c \<Longrightarrow> trim (c # s) = trim s"
  by (simp add: trim_def)

lemma name_re_trim [simp]: "name_re s \<Longrightarrow> trim s = s"
  using name_re_chars by (intro trim_no_space) (auto simp: list_all_iff)

text \<open>A parsed index: a known method, safe path segments, and a dimension exactly for a vector.\<close>

definition wf_index :: "index \<Rightarrow> bool" where
  "wf_index i \<longleftrightarrow>
     ix_path i \<noteq> [] \<and> list_all name_re (ix_path i) \<and>
     (if ix_method i = Vector then 1 \<le> ix_dim i \<and> ix_dim i \<le> max_vector_dim else ix_dim i = 0)"

lemma parse_index_wf:
  assumes "parse_index d = Inr i"
  shows "wf_index i"
proof -
  show ?thesis
    using assms
    by (auto simp: parse_index_def wf_index_def vector_dim_def Let_def split: option.splits if_splits prod.splits)
qed

lemma join_names:
  assumes "ps \<noteq> []" "list_all name_re ps"
  shows "join_with CHR ''.'' ps \<noteq> []" "\<forall>c \<in> set (join_with CHR ''.'' ps). name_char c \<or> c = CHR ''.''"
proof -
  show "join_with CHR ''.'' ps \<noteq> []"
    using assms by (induction ps rule: join_with.induct [where ?a0.0 = "CHR ''.''"]) (auto simp: name_re_def)
  show "\<forall>c \<in> set (join_with CHR ''.'' ps). name_char c \<or> c = CHR ''.''"
    using assms name_re_chars
    by (induction ps rule: join_with.induct [where ?a0.0 = "CHR ''.''"]) (auto simp: list_all_iff)
qed

lemma index_re_method:
  assumes "CHR ''('' \<notin> set b" "CHR '')'' \<notin> set b"
  shows "index_re (index_method_as_str m @ ''('' @ b @ '')'') = Some (index_method_as_str m, b)"
proof -
  have l: "\<forall>c \<in> set (index_method_as_str m). is_lower c" "index_method_as_str m \<noteq> []"
    by (cases m; simp add: is_lower_def)+
  have n: "\<not> is_lower (CHR ''('')" by (simp add: is_lower_def)
  from l n have "takeWhile is_lower (index_method_as_str m @ ''('' @ b @ '')'') = index_method_as_str m"
    "dropWhile is_lower (index_method_as_str m @ ''('' @ b @ '')'') = ''('' @ b @ '')''"
    by simp_all
  with l assms show ?thesis by (simp add: index_re_def butlast_append)
qed

lemma show_nat_no_space: "c \<in> set (show_nat n) \<Longrightarrow> \<not> is_space c"
  using show_nat_digits [of c n] by (auto simp: is_digit_def is_space_def)

lemma show_nat_plain: "c \<in> {CHR '','', CHR ''('', CHR '')''} \<Longrightarrow> c \<notin> set (show_nat n)"
  using show_nat_digits [of c n] by (auto simp: is_digit_def)

lemma vector_dim_show:
  assumes "1 \<le> d" "d \<le> max_vector_dim"
  shows "vector_dim (CHR '' '' # show_nat d) = Some d"
proof -
  obtain c cs where s: "show_nat d = c # cs" by (cases "show_nat d") auto
  then have "c \<noteq> CHR ''+''" using hd_show_nat_no_sign by metis
  moreover have "trim (CHR '' '' # show_nat d) = show_nat d"
    using show_nat_no_space by (simp add: is_space_def trim_no_space)
  ultimately show ?thesis
    using assms s parse_digits_show_nat [of d]
    by (auto simp: vector_dim_def parse_unsigned_def max_vector_dim_def)
qed

lemma parse_index_display:
  assumes "wf_index i"
  shows "parse_index (index_display i) = Inr i"
proof -
  obtain m ps d where i: "i = \<lparr>ix_method = m, ix_path = ps, ix_dim = d\<rparr>" by (cases i) auto
  have ps: "ps \<noteq> []" "list_all name_re ps" using assms by (auto simp: wf_index_def i)
  define p where "p = join_with CHR ''.'' ps"
  define b where "b = (if m = Vector then p @ '', '' @ show_nat d else p)"
  have pc: "p \<noteq> []" "\<forall>c \<in> set p. name_char c \<or> c = CHR ''.''" using join_names [OF ps] by (auto simp: p_def)
  have free: "c \<notin> set p" if "\<not> name_char c" "c \<noteq> CHR ''.''" for c using pc that by auto
  have nosp: "\<forall>c \<in> set p. \<not> is_space c" using pc(2) is_space_not_name by (auto simp: is_space_def [of "CHR ''.''"])
  have disp: "index_display i = index_method_as_str m @ ''('' @ b @ '')''"
    by (auto simp: index_display_def i b_def p_def Let_def)
  have tr: "trim (index_display i) = index_display i"
    unfolding disp by (rule trim_id; cases m; simp add: is_space_def)
  have re: "index_re (index_display i) = Some (index_method_as_str m, b)"
    unfolding disp using free show_nat_plain by (intro index_re_method) (auto simp: b_def)
  have args: "split_on CHR '','' b = (if m = Vector then [p, CHR '' '' # show_nat d] else [p])"
    using split_on_append [of "CHR '',''" p "CHR '' '' # show_nat d"] free show_nat_plain
    by (auto simp: b_def split_on_atom)
  have segs: "map trim (split_on CHR ''.'' p) = ps"
    using ps name_re_free [of _ "CHR ''.''"] unfolding p_def
    by (subst split_join) (auto simp: list_all_iff intro!: map_idI)
  have "trim p = p" using pc(1) nosp by (rule trim_no_space)
  with assms pc(1) ps(2) show ?thesis
    unfolding parse_index_def tr re option.case prod.case im.dec_enc Let_def args
    by (cases "m = Vector") (auto simp: segs wf_index_def i vector_dim_show)
qed

lemma validate_ok:
  assumes "validate m = Inr ()"
  shows "mf_kind m \<noteq> None" "name_errs m = []" "collection_errs [] (mf_collections m) = []"
    "tool_errs (generated_names (mf_collections m)) (filter name_re (mf_functions m)) [] (mf_tools m) = []"
    "route_errs (filter name_re (mf_functions m)) [] (mf_routes m) = []"
    "tier_errs m = []" "function_errs [] (mf_functions m) = []" "use_errs (mf_name m) [] (mf_uses m) = []"
proof -
  have "validation_errors m = []" using assms by (simp add: validate_def Let_def split: if_splits)
  note errs = this [unfolded validation_errors_def Let_def append_is_Nil_conv]
  then show "mf_kind m \<noteq> None" by (metis list.distinct(1))
  from errs show "name_errs m = []" "collection_errs [] (mf_collections m) = []"
    "tool_errs (generated_names (mf_collections m)) (filter name_re (mf_functions m)) [] (mf_tools m) = []"
    "route_errs (filter name_re (mf_functions m)) [] (mf_routes m) = []"
    "tier_errs m = []" "function_errs [] (mf_functions m) = []" "use_errs (mf_name m) [] (mf_uses m) = []"
    by blast+
qed

lemma collection_errs_none:
  "collection_errs seen cs = [] \<Longrightarrow>
   (\<forall>c \<in> set cs. name_re (c_name c) \<and> c_name c \<notin> set seen \<and>
      length (c_name c) \<le> max_collection_name \<and> index_errs c = []) \<and> distinct (map c_name cs)"
proof (induction seen cs rule: collection_errs.induct)
  case (2 seen c cs)
  have n: "name_re (c_name c)" using "2.prems" by (simp split: if_splits)
  have r: "c_name c \<notin> set seen" "length (c_name c) \<le> max_collection_name" "index_errs c = []"
      "collection_errs (c_name c # seen) cs = []"
    using "2.prems" n by (auto split: if_splits)
  from "2.IH"(2) [OF _ r(4)] n r(1-3) show ?case by auto
qed simp

lemma parse_indexes_total:
  "\<forall>d \<in> set ds. \<exists>i. parse_index d = Inr i \<Longrightarrow> \<exists>is. parse_indexes ds = Inr is \<and> length is = length ds \<and> list_all wf_index is"
  by (induction ds) (auto dest: parse_index_wf)

lemma index_errs_none: "index_errs c = [] \<Longrightarrow> \<forall>d \<in> set (c_indexes c). \<exists>i. parse_index d = Inr i"
proof
  fix d
  assume "index_errs c = []" "d \<in> set (c_indexes c)"
  then show "\<exists>i. parse_index d = Inr i"
    by (cases "parse_index d") (auto simp: index_errs_def dest!: bspec [of _ _ d])
qed

lemma plan_collections_total:
  assumes "\<forall>c \<in> set cs. index_errs c = []"
  shows "\<exists>ps. plan_collections cs = Inr ps \<and> map cp_name ps = map c_name cs \<and>
     list_all (\<lambda>q. list_all wf_index (cp_indexes q)) ps"
  using assms
proof (induction cs)
  case (Cons c cs)
  then obtain ps where "plan_collections cs = Inr ps" "map cp_name ps = map c_name cs"
      "list_all (\<lambda>q. list_all wf_index (cp_indexes q)) ps" by auto
  moreover obtain "is" where "parse_indexes (c_indexes c) = Inr is" "list_all wf_index is"
    using Cons.prems parse_indexes_total [OF index_errs_none [of c]] by auto
  ultimately show ?case by simp
qed simp

lemma sizes [simp]: "max_app_name = 50" "max_collection_name = 47" "max_identifier = 63"
  by (simp_all add: max_app_name_def max_collection_name_def max_identifier_def schema_prefix_def
      owner_suffix_len_def longest_derived_suffix_def derived_suffixes_def)

section \<open>Properties\<close>

text \<open>
  The names of a validated manifest, and its storage plan. The schema name with its owner digest is at
  most 63 characters, so no part of the digest can be truncated away; a collection's name leaves room for
  the suffixes the crate lists; and the plan can always be built, with every index parsed.
\<close>

lemma validated_manifest_plan:
  assumes ok: "validate m = Inr ()" and digest: "\<And>s. length (sha256_hex s) = 64"
  shows "length (schema_name sha256_hex (mf_name m) k i) \<le> max_identifier \<and>
    (\<forall>c \<in> set (mf_collections m). \<forall>suf \<in> set derived_suffixes. length (c_name c @ suf) \<le> max_identifier) \<and>
    list_all name_char (mf_name m) \<and> (\<forall>c \<in> set (mf_collections m). list_all name_char (c_name c)) \<and>
    (\<exists>plan. schema_plan_of sha256_hex m k i = Inr plan \<and>
       (\<forall>q \<in> set (sp_collections plan). list_all wf_index (cp_indexes q)))"
proof -
  have n: "name_re (mf_name m)" "length (mf_name m) \<le> 50"
    using validate_ok(2) [OF ok] by (auto simp: name_errs_def split: if_splits)
  have c: "\<forall>c \<in> set (mf_collections m). name_re (c_name c) \<and> length (c_name c) \<le> 47 \<and> index_errs c = []"
    using collection_errs_none [OF validate_ok(3) [OF ok]] by auto
  have "length (schema_name sha256_hex (mf_name m) k i) \<le> max_identifier"
    using n(2) digest by (simp add: schema_name_def schema_prefix_def owner_suffix_len_def)
  moreover have "\<forall>c \<in> set (mf_collections m). \<forall>suf \<in> set derived_suffixes. length (c_name c @ suf) \<le> max_identifier"
    using c by (fastforce simp: derived_suffixes_def)
  moreover have "list_all name_char (mf_name m)" "\<forall>c \<in> set (mf_collections m). list_all name_char (c_name c)"
    using n(1) c name_re_chars by blast+
  moreover obtain ps where "plan_collections (mf_collections m) = Inr ps"
      "list_all (\<lambda>q. list_all wf_index (cp_indexes q)) ps"
    using plan_collections_total [of "mf_collections m"] c by auto
  then have "\<exists>plan. schema_plan_of sha256_hex m k i = Inr plan \<and>
       (\<forall>q \<in> set (sp_collections plan). list_all wf_index (cp_indexes q))"
    by (auto simp: schema_plan_of_def Let_def list_all_iff)
  ultimately show ?thesis by blast
qed

definition journal_manifest :: manifest where
  "journal_manifest =
     \<lparr>mf_kind = Some App, mf_name = ''journal'', mf_version = 1,
      mf_collections = [\<lparr>c_name = ''entries'', c_crud = True, c_indexes = [''btree(created_at)'', ''vector(body.vec, 384)'']\<rparr>],
      mf_uses = [\<lparr>u_app = ''core'', u_collection = ''tasks'', u_access = UseRead\<rparr>],
      mf_functions = [''summarize''],
      mf_tools = [\<lparr>td_name = ''summarize'', td_function = ''summarize'', td_description = ''d'', td_input_schema = None, td_hidden = False\<rparr>,
                  \<lparr>td_name = ''entries.delete'', td_function = [], td_description = [], td_input_schema = None, td_hidden = True\<rparr>],
      mf_routes = [\<lparr>rd_method = ''POST'', rd_path = ''/entries/{id}/share'', rd_function = ''summarize'', rd_hidden = False\<rparr>],
      mf_subscriptions = [''core.tasks.created''], mf_capabilities = [''egress'', ''agent_run'', ''egress''], mf_process = None\<rparr>"

lemma journal_manifest_valid: "validate journal_manifest = Inr ()"
  by code_simp

text \<open>
  An index declaration is structure, never text. Whatever string a manifest declares, what
  \<open>parse_index\<close> accepts has a known method, non-empty path segments of lower-case letters, digits and
  underscores, and a dimension in range exactly for a vector; printing it in canonical form and parsing
  that gives the same index back.
\<close>

theorem index_declarations_round_trip:
  "(\<forall>d i. parse_index d = Inr i \<longrightarrow> wf_index i) \<and>
   (\<forall>i. wf_index i \<longrightarrow> parse_index (index_display i) = Inr i)"
  using parse_index_wf parse_index_display by blast

theorem index_declarations_round_trip_witness:
  "parse_index (index_display \<lparr>ix_method = Vector, ix_path = [''body'', ''vec''], ix_dim = 384\<rparr>) =
     Inr \<lparr>ix_method = Vector, ix_path = [''body'', ''vec''], ix_dim = 384\<rparr> \<and>
   index_display \<lparr>ix_method = Vector, ix_path = [''body'', ''vec''], ix_dim = 384\<rparr> = ''vector(body.vec, 384)''"
proof -
  have "wf_index \<lparr>ix_method = Vector, ix_path = [''body'', ''vec''], ix_dim = 384\<rparr>" by code_simp
  moreover have "index_display \<lparr>ix_method = Vector, ix_path = [''body'', ''vec''], ix_dim = 384\<rparr> = ''vector(body.vec, 384)''"
    by code_simp
  ultimately show ?thesis using index_declarations_round_trip by blast
qed

end
