(* ===== verification/Hive_Installs.thy ===== *)
theory Hive_Installs
  imports Hive_Grants Hive_Manifest
begin

text \<open>
  Installs (\<open>crates/hive-store/src/installs.rs\<close>): staging, delegating activation, and the promotion seam
  \<open>activate_install\<close> with the install grants it derives from the manifest's \<open>uses\<close>, beside the triggers
  and constraints of the tables they write. The statements run on a plain connection: what was written
  before a failing statement stays. \<open>now\<close> is the host's clock and \<open>engine_now\<close> the one the triggers read.
  A uuid's text is its decimal form.
\<close>

section \<open>Staging\<close>

record install_spec =
  is_build_id :: uuid
  is_slug :: string
  is_owner :: owner

definition acts_for :: "'z core_db_scheme \<Rightarrow> credential \<Rightarrow> owner \<Rightarrow> bool" where
  "acts_for db c w =
     (if principal_kind c \<noteq> o_kind w \<or> principal_id c \<noteq> o_id w then False
      else acting_kind db (actor_id c) (principal_kind c) (principal_id c) \<noteq> None)"

fun install_state_as_str :: "install_state \<Rightarrow> string" where
  "install_state_as_str Active = ''active''"
| "install_state_as_str Disabled = ''disabled''"
| "install_state_as_str Uninstalling = ''uninstalling''"

record install_summary =
  su_id :: uuid
  su_slug :: string
  su_state :: string
  su_schema_name :: string

definition installs_of :: "'z core_db_scheme \<Rightarrow> owner \<Rightarrow> install_summary list" where
  "installs_of db w =
     map (\<lambda>i. \<lparr>su_id = i_id i, su_slug = i_slug i, su_state = install_state_as_str (i_state i),
              su_schema_name = i_schema_name i\<rparr>)
       (sort_key (\<lambda>i. (i_created_at i, i_id i)) (filter (\<lambda>i. i_owner i = w) (installs db)))"

text \<open>\<open>CHECK (length(slug) BETWEEN 1 AND 63 AND slug GLOB '[a-z0-9]*' AND NOT (slug GLOB '*[^a-z0-9-]*'))\<close>.\<close>

definition slug_check :: "string \<Rightarrow> bool" where
  "slug_check s \<longleftrightarrow> 1 \<le> length s \<and> length s \<le> 63 \<and> (is_lower (hd s) \<or> is_digit (hd s)) \<and>
     list_all (\<lambda>c. is_lower c \<or> is_digit c \<or> c = CHR ''-'') s"

definition insert_install :: "'z core_db_scheme \<Rightarrow> install \<Rightarrow> refusal + 'z core_db_scheme" where
  "insert_install db i =
     (if \<not> slug_check (i_slug i) then Inl (CheckViolation ''installs.slug'')
      else if \<exists>j \<in> set (installs db). i_id j = i_id i \<or> i_schema_name j = i_schema_name i
                \<or> (i_slug j = i_slug i \<and> i_owner j = i_owner i) then Inl UniqueViolation
      else if find_build db (i_build_id i) = None \<or> find_actor db (o_id (i_owner i)) = None
                \<or> find_actor db (i_installed_by i) = None then Inl ForeignKeyViolation
      else Inr (db\<lparr>installs := installs db @ [i]\<rparr>))"

definition stage_install ::
  "(string \<Rightarrow> string) \<Rightarrow> 'z core_db_scheme \<Rightarrow> install_spec \<Rightarrow> credential \<Rightarrow> uuid \<Rightarrow> time
   \<Rightarrow> 'z core_db_scheme \<times> (store_error + uuid)" where
  "stage_install sha256_hex db sp c new_id now =
     (if is_slug sp = [] then (db, Inl (Other ''install needs a slug''))
      else if max_app_name < length (is_slug sp) then (db, Inl (Other ''install slug is too long''))
      else if \<not> acts_for db c (is_owner sp) then (db, Inl Denied)
      else
        (case insert_install db
                \<lparr>i_id = new_id, i_build_id = is_build_id sp, i_slug = is_slug sp, i_owner = is_owner sp,
                 i_installed_by = actor_id c, i_activated_by = None, i_authority = None,
                 i_schema_name = schema_name sha256_hex (is_slug sp)
                   (principal_kind_as_str (o_kind (is_owner sp))) (show_nat (o_id (is_owner sp))),
                 i_state = Disabled, i_created_at = now\<rparr> of
           Inl r \<Rightarrow> (db, Inl (DbError ''stage install'' r))
         | Inr db' \<Rightarrow> (db', Inr new_id)))"

section \<open>Delegated activation\<close>

definition install_authorities_issue_policy ::
  "'z core_db_scheme \<Rightarrow> install_authority \<Rightarrow> refusal option" where
  "install_authorities_issue_policy db n =
     (if (case find_actor db (actor_id (ia_by n)) of None \<Rightarrow> True | Some a \<Rightarrow> a_kind a \<noteq> HumanActor)
        then Some NotHumanDelegate
      else (case find_install db (ia_install_id n) of
              None \<Rightarrow> Some NoInstall
            | Some i \<Rightarrow>
                if i_owner i \<noteq> owner_of (ia_by n) then Some NotOwningPrincipal
                else if acting_kind db (actor_id (ia_by n)) (principal_kind (ia_by n)) (principal_id (ia_by n)) = None
                  then Some NotBound
                else None))"

definition grant_install_authority ::
  "'z core_db_scheme \<Rightarrow> uuid \<Rightarrow> owner \<Rightarrow> string \<Rightarrow> credential \<Rightarrow> string \<Rightarrow> time option \<Rightarrow> uuid \<Rightarrow> time
   \<Rightarrow> 'z core_db_scheme \<times> (store_error + uuid)" where
  "grant_install_authority db inst holder capability c why expires new_id now =
     (let n = \<lparr>ia_id = new_id, ia_install_id = inst, ia_holder = holder, ia_capability = capability,
               ia_by = c, ia_reason = why, ia_created_at = now, ia_expires_at = expires,
               ia_revoked_at = None, ia_revoked_by = None\<rparr>;
          refuse = (\<lambda>r. (db, Inl (DbError ''grant install authority'' r)))
      in case install_authorities_issue_policy db n of
           Some r \<Rightarrow> refuse r
         | None \<Rightarrow>
             if capability \<noteq> ''activate'' then refuse (CheckViolation ''capability'')
             else if \<exists>a \<in> set (install_authorities db). ia_id a = new_id \<or>
                       (ia_install_id a = inst \<and> ia_holder a = holder \<and> ia_capability a = capability)
               then refuse UniqueViolation
             else if find_actor db (o_id holder) = None \<or> find_actor db (principal_id c) = None
               then refuse ForeignKeyViolation
             else (db\<lparr>install_authorities := install_authorities db @ [n]\<rparr>, Inr new_id))"

definition revoke_install_authority ::
  "'z core_db_scheme \<Rightarrow> uuid \<Rightarrow> uuid \<Rightarrow> time \<Rightarrow> 'z core_db_scheme \<times> (store_error + unit)" where
  "revoke_install_authority db i by_actor now =
     (let hit = (\<lambda>a. ia_id a = i \<and> ia_revoked_at a = None)
      in if count_rows hit (install_authorities db) = 0 then (db, Inl NoRows)
         else if find_actor db by_actor = None
           then (db, Inl (DbError ''revoke install authority'' ForeignKeyViolation))
         else (db\<lparr>install_authorities :=
                 update_rows hit (\<lambda>a. a\<lparr>ia_revoked_at := Some now, ia_revoked_by := Some by_actor\<rparr>)
                   (install_authorities db)\<rparr>, Inr ()))"

definition authority_live :: "uuid \<Rightarrow> time \<Rightarrow> install_authority \<Rightarrow> bool" where
  "authority_live inst now a \<longleftrightarrow>
     ia_install_id a = inst \<and> ia_capability a = ''activate'' \<and> ia_revoked_at a = None \<and>
     (case ia_expires_at a of None \<Rightarrow> True | Some e \<Rightarrow> now < e)"

definition held_by :: "'z core_db_scheme \<Rightarrow> credential \<Rightarrow> owner \<Rightarrow> bool" where
  "held_by db c holder \<longleftrightarrow>
     (o_kind holder = principal_kind c \<and> o_id holder = principal_id c)
   \<or> (principal_kind c = User \<and> o_kind holder = Org \<and> is_member db (o_id holder) (principal_id c))"

section \<open>Activation\<close>

definition declared_uses :: "'z core_db_scheme \<Rightarrow> uuid \<Rightarrow> store_error + use_decl list" where
  "declared_uses db inst =
     (case find_install db inst of
        None \<Rightarrow> Inr []
      | Some i \<Rightarrow>
          (case find_build db (i_build_id i) of
             None \<Rightarrow> Inr []
           | Some b \<Rightarrow>
               (case b_uses b of
                  None \<Rightarrow> Inl (Other ''manifest uses do not parse'')
                | Some us \<Rightarrow> Inr us)))"

fun access_of_use :: "use_access \<Rightarrow> access" where
  "access_of_use UseRead = Read"
| "access_of_use UseWrite = Write"

definition used_install :: "'z core_db_scheme \<Rightarrow> owner \<Rightarrow> string \<Rightarrow> install option" where
  "used_install db w app =
     (case sort_key i_created_at
             (filter (\<lambda>i. i_slug i = app \<and> i_owner i = w \<and> i_state i = Active) (installs db)) of
        [] \<Rightarrow> None | i # _ \<Rightarrow> Some i)"

fun derive_use_grants ::
  "'z core_db_scheme \<Rightarrow> uuid \<Rightarrow> owner \<Rightarrow> use_decl list \<Rightarrow> credential \<Rightarrow> (nat \<Rightarrow> uuid) \<Rightarrow> time
   \<Rightarrow> 'z core_db_scheme \<times> (store_error + unit)" where
  "derive_use_grants db inst w [] c fresh now = (db, Inr ())"
| "derive_use_grants db inst w (u # us) c fresh now =
     (case used_install db w (u_app u) of
        None \<Rightarrow> (db, Inl (Other ''this app uses an app that has no active install; install that first''))
      | Some i \<Rightarrow>
          (case write_install_grant db (subject_named SCollection (i_id i) (u_collection u)) inst
                  (access_of_use (u_access u)) c ''derived from the manifest's uses at activation''
                  (fresh (length us)) now of
             (db', Inl e) \<Rightarrow> (db', Inl e)
           | (db', Inr _) \<Rightarrow> derive_use_grants db' inst w us c fresh now))"

text \<open>The trigger \<open>installs_activation_check_update\<close>.\<close>

definition activation_refused :: "'z core_db_scheme \<Rightarrow> uuid \<Rightarrow> uuid option \<Rightarrow> uuid option \<Rightarrow> time \<Rightarrow> bool" where
  "activation_refused db inst activated_by authority engine_now =
     (case activated_by of
        Some a \<Rightarrow> (case find_actor db a of None \<Rightarrow> True | Some r \<Rightarrow> a_kind r \<noteq> HumanActor)
      | None \<Rightarrow>
          \<not> (\<exists>a \<in> set (install_authorities db). Some (ia_id a) = authority \<and> authority_live inst engine_now a))"

definition activate ::
  "'z core_db_scheme \<Rightarrow> uuid \<Rightarrow> install_state \<Rightarrow> build_status \<Rightarrow> uuid option \<Rightarrow> uuid option \<Rightarrow> time
   \<Rightarrow> 'z core_db_scheme \<times> (store_error + unit)" where
  "activate db inst st bs activated_by authority engine_now =
     (if bs \<noteq> Registered then (db, Inl Denied)
      else if st = Uninstalling then (db, Inl Denied)
      else
        let hit = (\<lambda>i. i_id i = inst \<and> i_state i \<noteq> Uninstalling \<and>
                       (\<exists>b \<in> set (app_builds db). b_id b = i_build_id i \<and> b_status b = Registered))
        in if count_rows hit (installs db) = 0 then (db, Inl Denied)
           else if activation_refused db inst activated_by authority engine_now
             then (db, Inl (DbError ''activate install'' (TriggerAbort ''activation'')))
           else (db\<lparr>installs := update_rows hit
                   (\<lambda>i. i\<lparr>i_state := Active, i_activated_by := activated_by, i_authority := authority\<rparr>)
                   (installs db)\<rparr>, Inr ()))"

definition activate_install ::
  "'z core_db_scheme \<Rightarrow> uuid \<Rightarrow> credential \<Rightarrow> (nat \<Rightarrow> uuid) \<Rightarrow> time \<Rightarrow> time
   \<Rightarrow> 'z core_db_scheme \<times> (store_error + unit)" where
  "activate_install db inst c fresh now engine_now =
     (case find_actor db (actor_id c) of
        None \<Rightarrow> (db, Inl Denied)
      | Some a \<Rightarrow>
          (case find_install db inst of
             None \<Rightarrow> (db, Inl NoRows)
           | Some i \<Rightarrow>
               (case find_build db (i_build_id i) of
                  None \<Rightarrow> (db, Inl NoRows)
                | Some b \<Rightarrow>
                    (case declared_uses db inst of
                       Inl e \<Rightarrow> (db, Inl e)
                     | Inr uses \<Rightarrow>
                         if a_kind a = HumanActor \<and> acts_for db c (i_owner i)
                         then (case derive_use_grants db inst (i_owner i) uses c fresh now of
                                 (db', Inl e) \<Rightarrow> (db', Inl e)
                               | (db', Inr _) \<Rightarrow>
                                   activate db' inst (i_state i) (b_status b) (Some (actor_id c)) None engine_now)
                         else if uses \<noteq> [] then (db, Inl NotHuman)
                         else (case List.find (\<lambda>x. authority_live inst now x \<and> held_by db c (ia_holder x))
                                      (install_authorities db) of
                                 None \<Rightarrow> (db, Inl NotHuman)
                               | Some x \<Rightarrow>
                                   activate db inst (i_state i) (b_status b) None (Some (ia_id x)) engine_now)))))"

section \<open>Lemmas\<close>

lemma acts_for_iff:
  "acts_for db c w \<longleftrightarrow>
     w = owner_of c \<and> acting_kind db (actor_id c) (principal_kind c) (principal_id c) \<noteq> None"
  by (auto simp: acts_for_def owner_of_def)

lemma write_install_grant_same:
  assumes "write_install_grant db s ti x c why i now = (db', res)"
  shows "actors db' = actors db" "org_members db' = org_members db" "installs db' = installs db"
    "entities db' = entities db" "conversations db' = conversations db" "app_builds db' = app_builds db"
    "install_authorities db' = install_authorities db" "set (grants db) \<subseteq> set (grants db')"
  using assms
  by (auto simp: write_install_grant_def split: option.splits sum.splits dest!: insert_grant_cong)

lemma derive_use_grants_same:
  "derive_use_grants db inst w us c fresh now = (db', res) \<Longrightarrow>
   actors db' = actors db \<and> org_members db' = org_members db \<and> installs db' = installs db \<and>
   entities db' = entities db \<and> conversations db' = conversations db \<and> app_builds db' = app_builds db \<and>
   install_authorities db' = install_authorities db \<and> set (grants db) \<subseteq> set (grants db')"
proof (induction us arbitrary: db)
  case (Cons u us)
  show ?case
  proof (cases "used_install db w (u_app u)")
    case None
    with Cons.prems show ?thesis by simp
  next
    case (Some i)
    obtain db1 r where w: "write_install_grant db (subject_named SCollection (i_id i) (u_collection u)) inst
         (access_of_use (u_access u)) c ''derived from the manifest's uses at activation'' (fresh (length us)) now = (db1, r)"
      by fastforce
    note s = write_install_grant_same [OF w]
    show ?thesis
    proof (cases r)
      case (Inl e)
      with Cons.prems Some w s show ?thesis by simp
    next
      case (Inr j)
      with Cons.prems Some w have "derive_use_grants db1 inst w us c fresh now = (db', res)" by simp
      from Cons.IH [OF this] s show ?thesis by (auto 0 3)
    qed
  qed
qed simp

text \<open>Install grants never expire and are direct: their one writer sets neither.\<close>

definition install_grants_plain :: "'z core_db_scheme \<Rightarrow> bool" where
  "install_grants_plain db \<longleftrightarrow>
     (\<forall>g \<in> set (grants db). \<not> principal_target (g_target g) \<longrightarrow> g_expires_at g = None \<and> g_source g = Direct)"

lemma write_install_grant_holds:
  assumes "write_install_grant db s ti x c why i now = (db', Inr j)" "install_grants_plain db"
  shows "install_let_in db' t ti s x \<and> install_grants_plain db'"
proof (cases "List.find (\<lambda>g. g_subject g = s \<and> g_target g = TargetInstall ti \<and>
                        g_access g = x \<and> g_source g = Direct \<and> g_revoked_at g = None) (grants db)")
  case (Some g)
  then have g: "g \<in> set (grants db)" "g_subject g = s" "g_target g = TargetInstall ti" "g_access g = x"
      "g_revoked_at g = None"
    by (auto dest: find_SomeD)
  with assms(2) have "g_expires_at g = None" by (auto simp: install_grants_plain_def)
  with g have "install_let_in db t ti s x"
    by (auto simp: install_let_in_def access_satisfies_def grant_live_def)
  with Some assms show ?thesis by (simp add: write_install_grant_def)
next
  case None
  with assms(1) obtain n where n: "insert_grant db n = Inr db'" "ng_target n = Some (TargetInstall ti)"
      "ng_subject n = s" "ng_access n = x" "ng_expires_at n = None" "ng_source n = Direct"
    by (auto simp: write_install_grant_def split: sum.splits)
  then have db': "db' = db\<lparr>grants := grants db @ [row_of n (TargetInstall ti)]\<rparr>"
    by (auto elim!: insert_grant_ok)
  show ?thesis
    using n assms(2) by (auto simp: db' install_let_in_def access_satisfies_def grant_live_def install_grants_plain_def)
qed

lemma install_let_in_mono:
  "install_let_in db t i s x \<Longrightarrow> set (grants db) \<subseteq> set (grants db') \<Longrightarrow> install_let_in db' t i s x"
  unfolding install_let_in_def by blast

lemma used_install_ok:
  assumes "used_install db w app = Some i"
  shows "i \<in> set (installs db) \<and> i_slug i = app \<and> i_owner i = w \<and> i_state i = Active"
proof -
  let ?c = "filter (\<lambda>i. i_slug i = app \<and> i_owner i = w \<and> i_state i = Active) (installs db)"
  obtain xs where "sort_key i_created_at ?c = i # xs"
    using assms by (auto simp: used_install_def split: list.splits)
  then have "i \<in> set ?c" by (metis list.set_intros(1) set_sort)
  then show ?thesis by simp
qed

lemma derive_use_grants_met:
  assumes "derive_use_grants db inst w us c fresh now = (db', Inr u')" "install_grants_plain db" "u \<in> set us"
  shows "\<exists>i. i \<in> set (installs db) \<and> i_slug i = u_app u \<and> i_owner i = w \<and> i_state i = Active \<and>
    install_let_in db' t inst (subject_named SCollection (i_id i) (u_collection u)) (access_of_use (u_access u))"
  using assms
proof (induction us arbitrary: db)
  case (Cons v us)
  from Cons.prems(1) obtain i db1 j where i: "used_install db w (u_app v) = Some i"
    and w: "write_install_grant db (subject_named SCollection (i_id i) (u_collection v)) inst
         (access_of_use (u_access v)) c ''derived from the manifest's uses at activation'' (fresh (length us)) now = (db1, Inr j)"
    and r: "derive_use_grants db1 inst w us c fresh now = (db', Inr u')"
    by (auto split: option.splits prod.splits sum.splits)
  note s = write_install_grant_same [OF w] and h = write_install_grant_holds [OF w Cons.prems(2)]
  show ?case
  proof (cases "u = v")
    case True
    with h [of t] used_install_ok [OF i] derive_use_grants_same [OF r] show ?thesis
      by (intro exI [of _ i]) (auto intro: install_let_in_mono)
  next
    case False
    with Cons.prems(3) have "u \<in> set us" by simp
    from Cons.IH [OF r _ this] h s(3) show ?thesis by auto
  qed
qed simp

lemma activate_ok:
  assumes "activate db inst st bs ab au en = (db', Inr u)"
  shows "bs = Registered \<and> st \<noteq> Uninstalling \<and> \<not> activation_refused db inst ab au en \<and>
    (\<exists>installs'. db' = db\<lparr>installs := installs'\<rparr> \<and>
       map (\<lambda>i. (i_id i, i_owner i)) installs' = map (\<lambda>i. (i_id i, i_owner i)) (installs db) \<and>
       (\<forall>i \<in> set (installs db). i_id i \<noteq> inst \<longrightarrow> i \<in> set installs') \<and>
       (\<exists>i \<in> set (installs db). i_id i = inst \<and> i_state i \<noteq> Uninstalling \<and>
          (\<exists>b \<in> set (app_builds db). b_id b = i_build_id i \<and> b_status b = Registered) \<and>
          i\<lparr>i_state := Active, i_activated_by := ab, i_authority := au\<rparr> \<in> set installs'))"
proof -
  let ?hit = "\<lambda>i. i_id i = inst \<and> i_state i \<noteq> Uninstalling \<and>
                (\<exists>b \<in> set (app_builds db). b_id b = i_build_id i \<and> b_status b = Registered)"
  let ?new = "update_rows ?hit (\<lambda>i. i\<lparr>i_state := Active, i_activated_by := ab, i_authority := au\<rparr>) (installs db)"
  have ok: "bs = Registered" "st \<noteq> Uninstalling" "\<not> activation_refused db inst ab au en"
      "db' = db\<lparr>installs := ?new\<rparr>" "\<exists>i \<in> set (installs db). ?hit i"
    using assms by (auto simp: activate_def Let_def split: if_splits)
  have "map (\<lambda>i. (i_id i, i_owner i)) ?new = map (\<lambda>i. (i_id i, i_owner i)) (installs db)" by simp
  moreover have "\<forall>i \<in> set (installs db). i_id i \<noteq> inst \<longrightarrow> i \<in> set ?new" by auto
  moreover obtain i where "i \<in> set (installs db)" "?hit i" using ok(5) by blast
  moreover from this have "i\<lparr>i_state := Active, i_activated_by := ab, i_authority := au\<rparr> \<in> set ?new" by auto
  ultimately show ?thesis using ok(1-4) by blast
qed

lemma activate_fail: "activate db inst st bs ab au en = (db', Inl e) \<Longrightarrow> db' = db"
  by (auto simp: activate_def Let_def split: if_splits)

lemma activate_install_ok:
  assumes "activate_install db inst c fresh now en = (db', Inr u)"
  obtains a i b us where "find_actor db (actor_id c) = Some a" "find_install db inst = Some i"
    "find_build db (i_build_id i) = Some b" "declared_uses db inst = Inr us"
    "(\<exists>db1. a_kind a = HumanActor \<and> acts_for db c (i_owner i) \<and>
        derive_use_grants db inst (i_owner i) us c fresh now = (db1, Inr ()) \<and>
        activate db1 inst (i_state i) (b_status b) (Some (actor_id c)) None en = (db', Inr u))
   \<or> (\<exists>x. \<not> (a_kind a = HumanActor \<and> acts_for db c (i_owner i)) \<and> us = [] \<and>
        x \<in> set (install_authorities db) \<and> authority_live inst now x \<and> held_by db c (ia_holder x) \<and>
        activate db inst (i_state i) (b_status b) None (Some (ia_id x)) en = (db', Inr u))"
  using assms
  by (auto simp: activate_install_def split: option.splits sum.splits prod.splits if_splits dest!: find_SomeD) blast+

lemma activate_install_fail:
  assumes "activate_install db inst c fresh now en = (db', Inl e)"
  shows "installs db' = installs db \<and> install_authorities db' = install_authorities db"
  using assms
  by (auto simp: activate_install_def split: option.splits sum.splits prod.splits if_splits
      dest!: activate_fail derive_use_grants_same)

lemma insert_install_ok:
  assumes "insert_install db i = Inr db'"
  shows "db' = db\<lparr>installs := installs db @ [i]\<rparr>" "i_schema_name i \<notin> i_schema_name ` set (installs db)"
proof -
  show "db' = db\<lparr>installs := installs db @ [i]\<rparr>"
    using assms unfolding insert_install_def by (simp only: split: if_splits) simp_all
  have "\<not> (\<exists>j \<in> set (installs db). i_id j = i_id i \<or> i_schema_name j = i_schema_name i
                \<or> (i_slug j = i_slug i \<and> i_owner j = i_owner i))"
    using assms unfolding insert_install_def by (simp only: split: if_splits) simp_all
  then show "i_schema_name i \<notin> i_schema_name ` set (installs db)"
    unfolding image_iff by metis
qed

lemma stage_install_ok:
  assumes "stage_install sha256_hex db sp c new_id now = (db', Inr j)"
  obtains i where "db' = db\<lparr>installs := installs db @ [i]\<rparr>" "i_id i = j" "i_state i = Disabled"
    "i_owner i = owner_of c" "acts_for db c (is_owner sp)" "length (i_slug i) \<le> max_app_name"
    "i_schema_name i = schema_name sha256_hex (i_slug i)
       (principal_kind_as_str (principal_kind c)) (show_nat (principal_id c))"
    "i_schema_name i \<notin> i_schema_name ` set (installs db)"
proof -
  let ?row = "\<lparr>i_id = new_id, i_build_id = is_build_id sp, i_slug = is_slug sp, i_owner = is_owner sp,
                 i_installed_by = actor_id c, i_activated_by = None, i_authority = None,
                 i_schema_name = schema_name sha256_hex (is_slug sp)
                   (principal_kind_as_str (o_kind (is_owner sp))) (show_nat (o_id (is_owner sp))),
                 i_state = Disabled, i_created_at = now\<rparr>"
  have a: "acts_for db c (is_owner sp)" "length (is_slug sp) \<le> max_app_name"
      "insert_install db ?row = Inr db'" "j = new_id"
    using assms by (auto simp: stage_install_def split: if_splits sum.splits)
  note i = insert_install_ok [OF a(3)]
  from a(1) have o: "is_owner sp = owner_of c" by (simp add: acts_for_iff)
  show thesis
    by (rule that [of ?row]) (use a i in \<open>simp_all add: o\<close>)
qed

lemma stage_install_fail: "stage_install sha256_hex db sp c new_id now = (db', Inl e) \<Longrightarrow> db' = db"
  by (auto simp: stage_install_def split: if_splits sum.splits)

section \<open>Properties\<close>

text \<open>
  an install goes live only by the right hand. When \<open>activate_install\<close> succeeds, the build behind the
  install is registered and the install is not being torn down; either the actor on the credential is a
  human acting coherently for the owning principal, and is the one recorded, or the app uses no other
  app and an unrevoked, unexpired activate authority on this very install is held by the credential's
  principal. No other install changes, and a failure changes no install at all.
\<close>

theorem activation_needs_standing:
  "case activate_install db inst c fresh now en of
     (db', Inl e) \<Rightarrow> installs db' = installs db
   | (db', Inr u) \<Rightarrow>
       (\<exists>i \<in> set (installs db). i_id i = inst \<and> i_state i \<noteq> Uninstalling \<and>
          (\<exists>b \<in> set (app_builds db). b_id b = i_build_id i \<and> b_status b = Registered) \<and>
          (\<exists>j \<in> set (installs db'). i_id j = inst \<and> i_state j = Active \<and>
             (i_activated_by j = Some (actor_id c) \<and>
                acting_kind db (actor_id c) (principal_kind c) (principal_id c) = Some HumanActor \<and>
                (\<exists>o' \<in> set (installs db). i_id o' = inst \<and> i_owner o' = owner_of c)
              \<or> i_activated_by j = None \<and> declared_uses db inst = Inr [] \<and>
                (\<exists>x \<in> set (install_authorities db). i_authority j = Some (ia_id x) \<and>
                   authority_live inst now x \<and> held_by db c (ia_holder x))))) \<and>
       (\<forall>i \<in> set (installs db). i_id i \<noteq> inst \<longrightarrow> i \<in> set (installs db'))"
proof (cases "activate_install db inst c fresh now en")
  case (Pair db' res)
  show ?thesis
  proof (cases res)
    case (Inl e)
    with Pair show ?thesis using activate_install_fail by fastforce
  next
    case (Inr u)
    with Pair have "activate_install db inst c fresh now en = (db', Inr u)" by simp
    then obtain a i us and b :: app_build where ctx: "find_actor db (actor_id c) = Some a" "find_install db inst = Some i"
        "declared_uses db inst = Inr us"
      and route: "(\<exists>db1. a_kind a = HumanActor \<and> acts_for db c (i_owner i) \<and>
        derive_use_grants db inst (i_owner i) us c fresh now = (db1, Inr ()) \<and>
        activate db1 inst (i_state i) (b_status b) (Some (actor_id c)) None en = (db', Inr u))
     \<or> (\<exists>x. us = [] \<and> x \<in> set (install_authorities db) \<and> authority_live inst now x \<and> held_by db c (ia_holder x) \<and>
        activate db inst (i_state i) (b_status b) None (Some (ia_id x)) en = (db', Inr u))"
      by (rule activate_install_ok) blast+
    from route show ?thesis
    proof (elim disjE exE conjE)
      fix db1
      assume h: "a_kind a = HumanActor" "acts_for db c (i_owner i)"
        and d: "derive_use_grants db inst (i_owner i) us c fresh now = (db1, Inr ())"
        and act: "activate db1 inst (i_state i) (b_status b) (Some (actor_id c)) None en = (db', Inr u)"
      have "acting_kind db (actor_id c) (principal_kind c) (principal_id c) = Some HumanActor"
        using h ctx(1) by (auto simp: acts_for_iff acting_kind_def split: if_splits)
      moreover have "i \<in> set (installs db)" "i_id i = inst" "i_owner i = owner_of c"
        using find_install_SomeD [OF ctx(2)] h(2) by (auto simp: acts_for_iff)
      moreover note same = derive_use_grants_same [OF d]
      moreover obtain ins k where "db' = db1\<lparr>installs := ins\<rparr>" "\<forall>i \<in> set (installs db1). i_id i \<noteq> inst \<longrightarrow> i \<in> set ins"
          "k \<in> set (installs db1)" "i_id k = inst" "i_state k \<noteq> Uninstalling"
          "\<exists>b \<in> set (app_builds db1). b_id b = i_build_id k \<and> b_status b = Registered"
          "k\<lparr>i_state := Active, i_activated_by := Some (actor_id c), i_authority := None\<rparr> \<in> set ins"
        using activate_ok [OF act] by blast
      ultimately show ?thesis
        unfolding Pair Inr prod.case sum.case
        by (intro conjI bexI [of _ k] bexI [of _ "k\<lparr>i_state := Active, i_activated_by := Some (actor_id c), i_authority := None\<rparr>"] disjI1 bexI [of _ i])
           simp_all
    next
      fix x
      assume x: "us = []" "x \<in> set (install_authorities db)" "authority_live inst now x" "held_by db c (ia_holder x)"
        and act: "activate db inst (i_state i) (b_status b) None (Some (ia_id x)) en = (db', Inr u)"
      obtain ins k where "db' = db\<lparr>installs := ins\<rparr>" "\<forall>i \<in> set (installs db). i_id i \<noteq> inst \<longrightarrow> i \<in> set ins"
          "k \<in> set (installs db)" "i_id k = inst" "i_state k \<noteq> Uninstalling"
          "\<exists>b \<in> set (app_builds db). b_id b = i_build_id k \<and> b_status b = Registered"
          "k\<lparr>i_state := Active, i_activated_by := None, i_authority := Some (ia_id x)\<rparr> \<in> set ins"
        using activate_ok [OF act] by blast
      with x ctx(3) show ?thesis
        unfolding Pair Inr prod.case sum.case
        by (intro conjI bexI [of _ k] bexI [of _ "k\<lparr>i_state := Active, i_activated_by := None, i_authority := Some (ia_id x)\<rparr>"] disjI2 bexI [of _ x])
           simp_all
    qed
  qed
qed

theorem activation_needs_standing_witness:
  "\<exists>db'. activate_install sample_db 11 alice (\<lambda>k. 70 + k) 100 100 = (db', Inr ()) \<and>
     (\<exists>j \<in> set (installs db'). i_id j = 11 \<and> i_state j = Active) \<and>
     (\<forall>i \<in> set (installs sample_db). i_id i \<noteq> 11 \<longrightarrow> i \<in> set (installs db'))"
proof -
  let ?r = "activate_install sample_db 11 alice (\<lambda>k. 70 + k) 100 100"
  have "snd ?r = Inr ()" by code_simp
  then obtain db' where r: "?r = (db', Inr ())" by (metis prod.collapse)
  show ?thesis
    using activation_needs_standing [where db = sample_db and inst = 11 and c = alice and fresh = "\<lambda>k. 70 + k" and now = 100 and en = 100]
    unfolding r prod.case sum.case by blast
qed

text \<open>
  C10: an active app has what it asked for. After the owning principal activates an install, every
  collection its manifest uses resolves to an active install of the same owner, and the owner's calls
  made through the new install are decided as allowed on that collection at the declared access,
  immediately and at any later time while the rows stand.
\<close>

theorem activation_meets_uses:
  assumes act: "activate_install db inst c fresh now en = (db', Inr u)"
    and plain: "install_grants_plain db" and uses: "declared_uses db inst = Inr us" "v \<in> set us"
    and owners: "distinct (map i_id (installs db))"
  shows "\<exists>i \<in> set (installs db). i_slug i = u_app v \<and> i_owner i = owner_of c \<and> i_state i = Active \<and>
     fst (decision db' (args_of c (subject_named SCollection (i_id i) (u_collection v))
            (access_of_use (u_access v)) t (Some inst))) \<noteq> None"
proof -
  from act obtain a i us' and b :: app_build where ctx: "find_actor db (actor_id c) = Some a" "find_install db inst = Some i"
      "declared_uses db inst = Inr us'"
    and route: "(\<exists>db1. a_kind a = HumanActor \<and> acts_for db c (i_owner i) \<and>
        derive_use_grants db inst (i_owner i) us' c fresh now = (db1, Inr ()) \<and>
        activate db1 inst (i_state i) (b_status b) (Some (actor_id c)) None en = (db', Inr u)) \<or> us' = []"
    by (rule activate_install_ok) blast+
  with uses obtain db1 where h: "acts_for db c (i_owner i)"
      and d: "derive_use_grants db inst (i_owner i) us c fresh now = (db1, Inr ())"
      and f: "activate db1 inst (i_state i) (b_status b) (Some (actor_id c)) None en = (db', Inr u)"
    by auto
  from h have own: "i_owner i = owner_of c"
    and co: "acting_kind db (actor_id c) (principal_kind c) (principal_id c) \<noteq> None" by (auto simp: acts_for_iff)
  obtain j where j: "j \<in> set (installs db)" "i_slug j = u_app v" "i_owner j = owner_of c" "i_state j = Active"
      "install_let_in db1 t inst (subject_named SCollection (i_id j) (u_collection v)) (access_of_use (u_access v))"
    using derive_use_grants_met [OF d plain uses(2), of t] own by auto
  note s1 = derive_use_grants_same [OF d]
  from activate_ok [OF f] obtain ins where db': "db' = db1\<lparr>installs := ins\<rparr>"
      and ids: "map (\<lambda>i. (i_id i, i_owner i)) ins = map (\<lambda>i. (i_id i, i_owner i)) (installs db1)" by blast
  have "subject_owner db' SCollection (i_id j) = subject_owner db SCollection (i_id j)"
    using s1 ids by (intro subject_owner_cong) (auto simp: db')
  also have "\<dots> = Some (owner_of c)"
  proof -
    have "subject_owner db SCollection (i_id j) = map_option i_owner (find_install db (i_id j))"
      by (rule subject_owner_install) simp
    then show ?thesis
      using find_unique_key [OF owners j(1) refl] j(3) by (simp add: find_install_def)
  qed
  finally have so: "subject_owner db' SCollection (i_id j) = Some (owner_of c)" .
  have "acting_kind db' (actor_id c) (principal_kind c) (principal_id c) =
        acting_kind db (actor_id c) (principal_kind c) (principal_id c)"
    using s1 by (intro acting_kind_cong) (simp_all add: db')
  with so co have "principal_may db' t c (subject_named SCollection (i_id j) (u_collection v)) (access_of_use (u_access v))"
    by (auto simp: principal_may_def)
  moreover have "install_let_in db' t inst (subject_named SCollection (i_id j) (u_collection v)) (access_of_use (u_access v))"
    using j(5) by (simp add: db' install_let_in_def)
  ultimately have "may db' t c (subject_named SCollection (i_id j) (u_collection v)) (access_of_use (u_access v)) (Some inst)"
    by (auto simp: may_def)
  then show ?thesis unfolding decision_may using j by blast
qed

theorem activation_meets_uses_witness:
  "\<exists>db'. activate_install sample_db 11 alice (\<lambda>k. 70 + k) 100 100 = (db', Inr ()) \<and>
     fst (decision db' (args_of alice (subject_named SCollection 10 ''notes'') Read 200 (Some 11))) \<noteq> None"
proof -
  let ?r = "activate_install sample_db 11 alice (\<lambda>k. 70 + k) 100 100"
  have "snd ?r = Inr ()" by code_simp
  then obtain db' where r: "?r = (db', Inr ())" by (metis prod.collapse)
  have p: "install_grants_plain sample_db" "distinct (map i_id (installs sample_db))"
      "declared_uses sample_db 11 = Inr [\<lparr>u_app = ''notes'', u_collection = ''notes'', u_access = UseRead\<rparr>]"
      "filter (\<lambda>i. i_slug i = ''notes'' \<and> i_owner i = owner_of alice) (installs sample_db) = [hd (installs sample_db)]"
      "i_id (hd (installs sample_db)) = 10"
    by code_simp+
  from activation_meets_uses [OF r p(1,3) _ p(2), of _ 200] obtain i where
    i: "i \<in> set (installs sample_db)" "i_slug i = ''notes''" "i_owner i = owner_of alice"
      "fst (decision db' (args_of alice (subject_named SCollection (i_id i) ''notes'') Read 200 (Some 11))) \<noteq> None"
    by fastforce
  from i(1-3) have "i \<in> set (filter (\<lambda>i. i_slug i = ''notes'' \<and> i_owner i = owner_of alice) (installs sample_db))" by simp
  then have "i_id i = 10" unfolding p(4) using p(5) by simp
  with i(4) r show ?thesis by auto
qed

text \<open>
  staging and delegating widen nobody's sight. A staged install lands disabled, belongs to the
  principal of a coherent credential and carries the schema name derived from its slug and that owner;
  no existing install changes. An install authority, whoever holds it, is read by no access decision.
\<close>

theorem staging_is_unprivileged:
  "(case stage_install sha256_hex db sp c new_id now of
      (db', Inl e) \<Rightarrow> db' = db
    | (db', Inr j) \<Rightarrow> acts_for db c (is_owner sp) \<and>
        (\<exists>i. db' = db\<lparr>installs := installs db @ [i]\<rparr> \<and> i_id i = j \<and> i_state i = Disabled \<and>
           i_owner i = owner_of c \<and> length (i_slug i) \<le> max_app_name \<and>
           i_schema_name i = schema_name sha256_hex (i_slug i)
             (principal_kind_as_str (principal_kind c)) (show_nat (principal_id c)) \<and>
           i_schema_name i \<notin> i_schema_name ` set (installs db))) \<and>
   decision (db\<lparr>install_authorities := xs\<rparr>) a = decision db a"
proof (intro conjI)
  show "case stage_install sha256_hex db sp c new_id now of
      (db', Inl e) \<Rightarrow> db' = db
    | (db', Inr j) \<Rightarrow> acts_for db c (is_owner sp) \<and>
        (\<exists>i. db' = db\<lparr>installs := installs db @ [i]\<rparr> \<and> i_id i = j \<and> i_state i = Disabled \<and>
           i_owner i = owner_of c \<and> length (i_slug i) \<le> max_app_name \<and>
           i_schema_name i = schema_name sha256_hex (i_slug i)
             (principal_kind_as_str (principal_kind c)) (show_nat (principal_id c)) \<and>
           i_schema_name i \<notin> i_schema_name ` set (installs db))"
    by (cases "stage_install sha256_hex db sp c new_id now"; cases "snd (stage_install sha256_hex db sp c new_id now)")
       (auto dest: stage_install_fail elim!: stage_install_ok)
  have s: "acting_kind (db\<lparr>install_authorities := xs\<rparr>) = acting_kind db"
      "subject_owner (db\<lparr>install_authorities := xs\<rparr>) = subject_owner db"
      "is_member (db\<lparr>install_authorities := xs\<rparr>) = is_member db" "is_admin (db\<lparr>install_authorities := xs\<rparr>) = is_admin db"
    by (intro ext acting_kind_cong subject_owner_cong directory_cong; simp)+
  have g: "grants (db\<lparr>install_authorities := xs\<rparr>) = grants db" by simp
  show "decision (db\<lparr>install_authorities := xs\<rparr>) a = decision db a"
    unfolding decision_def principal_branch_def probe_g1_def probe_g2_def probe_g3_def probe_g4_def s g ..
qed

text \<open>
  The standing route does not check the credential it acts under. An agent that is disabled, so that
  the predicate gives its credential no standing at all, still activates an install whose activate
  authority is held by the principal it names: \<open>acts_for\<close> guards only the owner's route.
\<close>

definition standing_db :: core_db where
  "standing_db = sample_db\<lparr>
     actors := map (\<lambda>a. if a_id a = 4 then a\<lparr>a_disabled_at := Some 50\<rparr> else a) (actors sample_db),
     app_builds := map (\<lambda>b. b\<lparr>b_uses := Some []\<rparr>) (app_builds sample_db),
     install_authorities := [\<lparr>ia_id = 80, ia_install_id = 11, ia_holder = owner_user 1, ia_capability = ''activate'',
       ia_by = alice, ia_reason = [], ia_created_at = 20, ia_expires_at = None, ia_revoked_at = None, ia_revoked_by = None\<rparr>]\<rparr>"

theorem standing_route_skips_coherence:
  "acting_kind standing_db (actor_id alices_ai) (principal_kind alices_ai) (principal_id alices_ai) = None \<and>
   snd (activate_install standing_db 11 alices_ai (\<lambda>k. 70 + k) 100 100) = Inr () \<and>
   map i_state (filter (\<lambda>i. i_id i = 11) (installs (fst (activate_install standing_db 11 alices_ai (\<lambda>k. 70 + k) 100 100)))) = [Active]"
proof (intro conjI)
  show "acting_kind standing_db (actor_id alices_ai) (principal_kind alices_ai) (principal_id alices_ai) = None"
    by code_simp
  show "snd (activate_install standing_db 11 alices_ai (\<lambda>k. 70 + k) 100 100) = Inr ()" by code_simp
  show "map i_state (filter (\<lambda>i. i_id i = 11) (installs (fst (activate_install standing_db 11 alices_ai (\<lambda>k. 70 + k) 100 100)))) = [Active]"
    by code_simp
qed

text \<open>
  A validated app name with an underscore can never be installed. The manifest's name pattern
  allows underscores and the installs table's slug check refuses them, so \<open>stage_install\<close> fails for every
  owner, build and digest however the rest of the request looks.
\<close>

theorem underscore_names_never_stage:
  assumes "CHR ''_'' \<in> set (is_slug sp)"
  shows "\<exists>e. stage_install sha256_hex db sp c new_id now = (db, Inl e)"
proof -
  have "\<not> slug_check (is_slug sp)"
    using assms by (auto simp: slug_check_def list_all_iff is_lower_def is_digit_def dest!: bspec [of _ _ "CHR ''_''"])
  then show ?thesis by (simp add: stage_install_def insert_install_def)
qed

theorem underscore_names_never_stage_witness:
  "name_re ''my_app'' \<and> length ''my_app'' \<le> max_app_name \<and>
   (\<exists>e. stage_install (\<lambda>s. s) sample_db \<lparr>is_build_id = 30, is_slug = ''my_app'', is_owner = owner_user 1\<rparr> alice 90 100
      = (sample_db, Inl e))"
proof -
  have "name_re ''my_app''" "length ''my_app'' \<le> max_app_name" by (code_simp, simp)
  then show ?thesis
    using underscore_names_never_stage [of "\<lparr>is_build_id = 30, is_slug = ''my_app'', is_owner = owner_user 1\<rparr>"] by simp
qed

end
