(* ===== verification/Hive_Surface.thy ===== *)
theory Hive_Surface
  imports Hive_Manifest
begin

text \<open>
  The derived surface (\<open>crates/hive-manifest/src/surface.rs\<close>): \<open>Manifest::derive\<close> lays the generated CRUD
  operations down first, lets the manifest's own tools and routes replace or hide what they collide
  with, compacts and sorts. The vector with an index map beside it, which the code uses for tools and
  for routes alike, is modelled once (\<open>slots\<close>) and its contract stated as an interface that both
  interpret. The JSON of the generated input schemas is written with its keys in the sorted order
  \<open>serde_json\<close> keeps.
\<close>

section \<open>Surface data\<close>

datatype tool_impl = Guest | GeneratedCrud

record tool =
  t_name :: string
  t_description :: string
  t_input_schema :: "json option"
  t_impl :: tool_impl
  t_function :: string
  t_collection :: string
  t_op :: "op option"

record route =
  r_method :: string
  r_path :: string
  r_impl :: tool_impl
  r_function :: string
  r_collection :: string
  r_op :: "op option"

record surface =
  sf_app :: string
  sf_kind :: kind
  sf_version :: int
  sf_tools :: "tool list"
  sf_routes :: "route list"
  sf_collections :: "collection list"
  sf_capabilities :: "string list"
  sf_functions :: "string list"

fun crud_description :: "string \<Rightarrow> op \<Rightarrow> string" where
  "crud_description c List_op = ''List '' @ c @ '' visible to you.''"
| "crud_description c Get_op = ''Fetch one '' @ c @ '' document by id.''"
| "crud_description c Create_op = ''Create a '' @ c @ '' document.''"
| "crud_description c Update_op = ''Update a '' @ c @ '' document you may write.''"
| "crud_description c Delete_op = ''Delete a '' @ c @ '' document you own.''"

definition json_obj :: "json \<Rightarrow> string list \<Rightarrow> json" where
  "json_obj props required =
     JObj ([(''properties'', props)] @
           (if required = [] then [] else [(''required'', JArr (map JStr required))]) @
           [(''type'', JStr ''object'')])"

fun crud_schema :: "op \<Rightarrow> json" where
  "crud_schema List_op =
     json_obj (JObj
       [(''cursor'', JObj [(''description'', JStr ''Opaque page cursor.''), (''type'', JStr ''string'')]),
        (''limit'', JObj [(''maximum'', JInt 200), (''minimum'', JInt 1), (''type'', JStr ''integer'')]),
        (''near'', JObj
          [(''description'', JStr ''rank by distance from a vector in the index declared at path; limit is k''),
           (''properties'', JObj
             [(''path'', JObj [(''type'', JStr ''string'')]),
              (''vector'', JObj [(''items'', JObj [(''type'', JStr ''number'')]), (''type'', JStr ''array'')])]),
           (''required'', JArr [JStr ''path'', JStr ''vector'']),
           (''type'', JStr ''object'')]),
        (''search'', JObj
          [(''description'', JStr ''words to find in the collection's full-text index''),
           (''type'', JStr ''string'')])]) []"
| "crud_schema Get_op =
     json_obj (JObj [(''id'', JObj [(''description'', JStr ''Document id.''), (''type'', JStr ''string'')])]) [''id'']"
| "crud_schema Delete_op =
     json_obj (JObj [(''id'', JObj [(''description'', JStr ''Document id.''), (''type'', JStr ''string'')])]) [''id'']"
| "crud_schema Create_op =
     json_obj (JObj [(''doc'', JObj [(''description'', JStr ''The document body.''), (''type'', JStr ''object'')])]) [''doc'']"
| "crud_schema Update_op =
     json_obj (JObj [(''doc'', JObj [(''description'', JStr ''The document body.''), (''type'', JStr ''object'')]),
                     (''id'', JObj [(''description'', JStr ''Document id.''), (''type'', JStr ''string'')])])
       [''id'', ''doc'']"

section \<open>A vector with an index map\<close>

record 'a slots =
  items :: "'a list"
  idx :: "string \<rightharpoonup> nat"

definition slots_empty :: "'a slots" where
  "slots_empty = \<lparr>items = [], idx = Map.empty\<rparr>"

definition slots_push :: "string \<Rightarrow> 'a \<Rightarrow> 'a slots \<Rightarrow> 'a slots" where
  "slots_push k x s = \<lparr>items = items s @ [x], idx = (idx s)(k \<mapsto> length (items s))\<rparr>"

definition slots_put :: "string \<Rightarrow> 'a \<Rightarrow> 'a slots \<Rightarrow> 'a slots" where
  "slots_put k x s =
     (case idx s k of
        Some i \<Rightarrow> s\<lparr>items := (items s)[i := x]\<rparr>
      | None \<Rightarrow> slots_push k x s)"

definition slots_clear :: "('a \<Rightarrow> 'a) \<Rightarrow> string \<Rightarrow> 'a slots \<Rightarrow> 'a slots" where
  "slots_clear blank k s =
     (case idx s k of
        Some i \<Rightarrow> s\<lparr>items := (items s)[i := blank (items s ! i)]\<rparr>
      | None \<Rightarrow> s)"

section \<open>Derivation\<close>

definition generated_tool :: "string \<Rightarrow> crud_op \<Rightarrow> tool" where
  "generated_tool c g =
     \<lparr>t_name = c @ ''.'' @ co_tool g, t_description = crud_description c (co_op g),
      t_input_schema = Some (crud_schema (co_op g)), t_impl = GeneratedCrud, t_function = [],
      t_collection = c, t_op = Some (co_op g)\<rparr>"

definition generated_path :: "string \<Rightarrow> crud_op \<Rightarrow> string" where
  "generated_path c g = ''/'' @ c @ (if co_by_id g then ''/{id}'' else [])"

definition generated_route :: "string \<Rightarrow> crud_op \<Rightarrow> route" where
  "generated_route c g =
     \<lparr>r_method = co_method g, r_path = generated_path c g, r_impl = GeneratedCrud, r_function = [],
      r_collection = c, r_op = Some (co_op g)\<rparr>"

definition crud_pairs :: "manifest \<Rightarrow> (string \<times> crud_op) list" where
  "crud_pairs m =
     (if manifest_kind m = App
      then concat (map (\<lambda>c. map (Pair (c_name c)) crud_ops) (filter c_crud (mf_collections m)))
      else [])"

definition guest_tool :: "tool_def \<Rightarrow> tool" where
  "guest_tool t =
     \<lparr>t_name = td_name t, t_description = td_description t, t_input_schema = td_input_schema t,
      t_impl = Guest, t_function = td_function t, t_collection = [], t_op = None\<rparr>"

definition guest_route :: "route_def \<Rightarrow> route" where
  "guest_route r =
     \<lparr>r_method = rd_method r, r_path = rd_path r, r_impl = Guest, r_function = rd_function r,
      r_collection = [], r_op = None\<rparr>"

definition derive_tool_step :: "tool_def \<Rightarrow> tool slots \<Rightarrow> tool slots" where
  "derive_tool_step t s =
     (if td_hidden t then slots_clear (\<lambda>x. x\<lparr>t_name := []\<rparr>) (td_name t) s
      else slots_put (td_name t) (guest_tool t) s)"

definition derive_route_step :: "route_def \<Rightarrow> route slots \<Rightarrow> route slots" where
  "derive_route_step r s =
     (let key = route_key (rd_method r) (rd_path r)
      in if rd_hidden r then slots_clear (\<lambda>x. x\<lparr>r_method := []\<rparr>) key s
         else slots_put key (guest_route r) s)"

definition derive :: "manifest \<Rightarrow> surface" where
  "derive m =
     (let ts0 = fold (\<lambda>(c, g). slots_push (c @ ''.'' @ co_tool g) (generated_tool c g)) (crud_pairs m) slots_empty;
          rs0 = fold (\<lambda>(c, g). slots_push (route_key (co_method g) (generated_path c g)) (generated_route c g))
                  (crud_pairs m) slots_empty;
          ts = fold derive_tool_step (mf_tools m) ts0;
          rs = fold derive_route_step (mf_routes m) rs0
      in \<lparr>sf_app = mf_name m, sf_kind = manifest_kind m, sf_version = mf_version m,
          sf_tools = sort_key t_name (filter (\<lambda>t. t_name t \<noteq> []) (items ts)),
          sf_routes = sort_key (\<lambda>r. (r_path r, r_method r)) (filter (\<lambda>r. r_method r \<noteq> []) (items rs)),
          sf_collections = mf_collections m, sf_capabilities = capability_names m,
          sf_functions = mf_functions m\<rparr>)"

definition mount_path :: "string \<Rightarrow> string" where
  "mount_path app = ''/apps/'' @ app"

definition full_path :: "string \<Rightarrow> string \<Rightarrow> string" where
  "full_path app p = mount_path app @ p"

section \<open>The contract of the slots\<close>

text \<open>
  A key function, the values that count, and the blanking that takes a value out. Under the invariant a
  slot vector is a finite map: pushing and putting update it, clearing removes.
\<close>

locale slot_map =
  fixes key :: "'a \<Rightarrow> string"
    and live :: "'a \<Rightarrow> bool"
    and blank :: "'a \<Rightarrow> 'a"
  assumes blank_dead: "\<not> live (blank x)"
begin

definition slots_ok :: "'a slots \<Rightarrow> bool" where
  "slots_ok s \<longleftrightarrow>
     (\<forall>k i. idx s k = Some i \<longrightarrow> i < length (items s) \<and> (live (items s ! i) \<longrightarrow> key (items s ! i) = k)) \<and>
     (\<forall>i < length (items s). live (items s ! i) \<longrightarrow> idx s (key (items s ! i)) = Some i) \<and>
     (\<forall>k k' i. idx s k = Some i \<and> idx s k' = Some i \<longrightarrow> k = k')"

definition look :: "'a slots \<Rightarrow> string \<Rightarrow> 'a option" where
  "look s k = (case idx s k of
     Some i \<Rightarrow> if live (items s ! i) then Some (items s ! i) else None | None \<Rightarrow> None)"

lemma ok_empty: "slots_ok slots_empty" "look slots_empty = Map.empty" "dom (idx slots_empty) = {}"
  by (auto simp: slots_ok_def slots_empty_def look_def)

lemma ok_push:
  assumes "slots_ok s" "idx s k = None" "key x = k"
  shows "slots_ok (slots_push k x s)"
    and "look (slots_push k x s) = (look s)(k := if live x then Some x else None)"
    and "dom (idx (slots_push k x s)) = insert k (dom (idx s))"
proof -
  let ?n = "length (items s)"
  have e: "items (slots_push k x s) = items s @ [x]" "idx (slots_push k x s) = (idx s)(k \<mapsto> ?n)"
    by (simp_all add: slots_push_def)
  have lt: "i < ?n" if "idx s k' = Some i" for k' i using assms(1) that by (auto simp: slots_ok_def)
  show "dom (idx (slots_push k x s)) = insert k (dom (idx s))" by (simp add: e)
  show "look (slots_push k x s) = (look s)(k := if live x then Some x else None)"
  proof
    fix k'
    show "look (slots_push k x s) k' = ((look s)(k := if live x then Some x else None)) k'"
      using lt [of k'] by (cases "k' = k"; cases "idx s k'") (auto simp: look_def e nth_append)
  qed
  show "slots_ok (slots_push k x s)"
    unfolding slots_ok_def
  proof (intro conjI allI impI; (elim conjE)?)
    fix k' i
    assume a: "idx (slots_push k x s) k' = Some i"
    show "i < length (items (slots_push k x s))" using a lt [of k' i] by (auto simp: e split: if_splits)
    assume "live (items (slots_push k x s) ! i)"
    then show "key (items (slots_push k x s) ! i) = k'"
      using a lt [of k' i] assms(1,3) by (auto simp: e nth_append slots_ok_def split: if_splits)
  next
    fix i
    assume i: "i < length (items (slots_push k x s))" "live (items (slots_push k x s) ! i)"
    show "idx (slots_push k x s) (key (items (slots_push k x s) ! i)) = Some i"
    proof (cases "i = ?n")
      case True
      then show ?thesis by (simp add: e assms(3))
    next
      case False
      with i have "i < ?n" "live (items s ! i)" by (auto simp: e nth_append split: if_splits)
      with assms(1) have "idx s (key (items s ! i)) = Some i" by (auto simp: slots_ok_def)
      with assms(2) \<open>i < ?n\<close> show ?thesis by (auto simp: e nth_append)
    qed
  next
    fix k1 k2 i
    assume "idx (slots_push k x s) k1 = Some i" "idx (slots_push k x s) k2 = Some i"
    then show "k1 = k2"
      using lt [of k1 i] lt [of k2 i] assms(1) by (auto simp: e slots_ok_def split: if_splits)
  qed
qed

lemma ok_set:
  assumes ok: "slots_ok s" and i: "idx s k = Some i" and x: "live x \<longrightarrow> key x = k"
  shows "slots_ok (s\<lparr>items := (items s)[i := x]\<rparr>)"
    and "look (s\<lparr>items := (items s)[i := x]\<rparr>) = (look s)(k := if live x then Some x else None)"
proof -
  have l: "i < length (items s)" using ok i by (auto simp: slots_ok_def)
  have inj: "idx s k' = Some i \<longleftrightarrow> k' = k" for k'
    using ok i unfolding slots_ok_def by blast
  show "slots_ok (s\<lparr>items := (items s)[i := x]\<rparr>)"
    using ok i x l unfolding slots_ok_def by (auto simp: nth_list_update inj)
  show "look (s\<lparr>items := (items s)[i := x]\<rparr>) = (look s)(k := if live x then Some x else None)"
    using l by (auto simp: look_def fun_eq_iff nth_list_update inj i split: option.splits)
qed

lemma ok_put:
  assumes "slots_ok s" "key x = k" "live x"
  shows "slots_ok (slots_put k x s)" and "look (slots_put k x s) = (look s)(k \<mapsto> x)"
    and "dom (idx (slots_put k x s)) = insert k (dom (idx s))"
  using ok_push [OF assms(1) _ assms(2)] ok_set [OF assms(1), of k _ x] assms(2,3)
  by (auto simp: slots_put_def split: option.splits)

lemma ok_clear:
  assumes "slots_ok s"
  shows "slots_ok (slots_clear blank k s)" and "look (slots_clear blank k s) = (look s)(k := None)"
    and "dom (idx (slots_clear blank k s)) = dom (idx s)"
proof -
  show "slots_ok (slots_clear blank k s)" "dom (idx (slots_clear blank k s)) = dom (idx s)"
    using ok_set [OF assms, of k _ "blank y" for y] assms by (auto simp: slots_clear_def blank_dead split: option.splits)
  show "look (slots_clear blank k s) = (look s)(k := None)"
  proof (cases "idx s k")
    case None
    then show ?thesis by (auto simp: slots_clear_def look_def fun_eq_iff)
  next
    case (Some i)
    with ok_set(2) [OF assms Some, of "blank (items s ! i)"] show ?thesis
      by (simp add: slots_clear_def blank_dead)
  qed
qed

text \<open>The live values are exactly the map's, each under its key, once.\<close>

lemma live_items:
  assumes "slots_ok s"
  shows "x \<in> set (filter live (items s)) \<longleftrightarrow> look s (key x) = Some x"
  using assms unfolding slots_ok_def look_def
  by (auto simp: in_set_conv_nth split: option.splits if_splits)

lemma distinct_live_items:
  assumes "slots_ok s"
  shows "distinct (map key (filter live (items s)))"
proof -
  have "key (items s ! i) = key (items s ! j) \<Longrightarrow> i = j"
    if "i < length (items s)" "j < length (items s)" "live (items s ! i)" "live (items s ! j)" for i j
    using assms that unfolding slots_ok_def by (metis option.inject)
  then show ?thesis
  proof (induction "items s" arbitrary: s rule: rev_induct)
    case (snoc x xs)
    have e: "items s = xs @ [x]" using snoc.hyps(2) by simp
    have "distinct (map key (filter live xs))"
      using snoc.hyps(1) [of "\<lparr>items = xs, idx = Map.empty\<rparr>"] snoc.prems
      by (simp add: e nth_append)
    moreover have "key x \<notin> key ` set (filter live xs)" if "live x"
    proof
      assume "key x \<in> key ` set (filter live xs)"
      then obtain i where "i < length xs" "live (xs ! i)" "key (xs ! i) = key x"
        by (auto simp: in_set_conv_nth)
      with snoc.prems [of i "length xs"] that show False by (simp add: e nth_append)
    qed
    ultimately show ?case by (simp add: e)
  qed simp
qed

lemma fold_push:
  assumes "slots_ok s" "distinct (map fst kvs)" "fst ` set kvs \<inter> dom (idx s) = {}"
    and "\<forall>(k, x) \<in> set kvs. key x = k \<and> live x"
  shows "slots_ok (fold (\<lambda>(k, x). slots_push k x) kvs s) \<and>
    look (fold (\<lambda>(k, x). slots_push k x) kvs s) = look s ++ map_of kvs"
  using assms
proof (induction kvs arbitrary: s)
  case (Cons kv kvs)
  obtain k x where kv: "kv = (k, x)" by fastforce
  from Cons.prems kv have x: "idx s k = None" "key x = k" "live x" by auto
  note p = ok_push [OF Cons.prems(1) x(1,2)]
  have "slots_ok (fold (\<lambda>(k, x). slots_push k x) kvs (slots_push k x s)) \<and>
    look (fold (\<lambda>(k, x). slots_push k x) kvs (slots_push k x s)) = look (slots_push k x s) ++ map_of kvs"
    using Cons.prems p(1,3) kv by (intro Cons.IH) auto
  moreover have "k \<notin> fst ` set kvs" using Cons.prems(2) kv by simp
  ultimately show ?case
    using x p(2) kv by (auto simp: map_add_def fun_eq_iff dom_def image_iff map_of_eq_None_iff split: option.splits)
qed simp

definition override :: "string \<times> 'a option \<Rightarrow> 'a slots \<Rightarrow> 'a slots" where
  "override d s = (case d of (k, None) \<Rightarrow> slots_clear blank k s | (k, Some x) \<Rightarrow> slots_put k x s)"

lemma fold_override:
  assumes "slots_ok s" "distinct (map fst ds)" "\<forall>(k, r) \<in> set ds. \<forall>x. r = Some x \<longrightarrow> key x = k \<and> live x"
  shows "slots_ok (fold override ds s) \<and>
    look (fold override ds s) = (\<lambda>k. case map_of ds k of Some r \<Rightarrow> r | None \<Rightarrow> look s k)"
  using assms
proof (induction ds arbitrary: s)
  case (Cons d ds)
  obtain k r where d: "d = (k, r)" by fastforce
  have o: "slots_ok (override d s)" "look (override d s) = (look s)(k := r)"
    using Cons.prems ok_clear [OF Cons.prems(1), of k] ok_put [OF Cons.prems(1), of _ k]
    by (cases r; auto simp: override_def d)+
  have "slots_ok (fold override ds (override d s)) \<and>
    look (fold override ds (override d s)) = (\<lambda>k. case map_of ds k of Some r \<Rightarrow> r | None \<Rightarrow> look (override d s) k)"
    using Cons.prems o(1) d by (intro Cons.IH) auto
  moreover have "k \<notin> fst ` set ds" using Cons.prems(2) d by simp
  then have "map_of ds k = None" by (simp add: map_of_eq_None_iff)
  ultimately show ?case using o(2) by (auto simp: d fun_eq_iff split: option.splits)
qed simp

end

interpretation tm: slot_map t_name "\<lambda>t. t_name t \<noteq> []" "\<lambda>x. x\<lparr>t_name := []\<rparr>"
  by unfold_locales simp

interpretation rm: slot_map "\<lambda>r. route_key (r_method r) (r_path r)" "\<lambda>r. r_method r \<noteq> []" "\<lambda>x. x\<lparr>r_method := []\<rparr>"
  by unfold_locales simp

section \<open>What a validated manifest exposes\<close>

text \<open>The declaration by name: the manifest's own entry decides, and only without one the generated.\<close>

definition tool_spec :: "manifest \<Rightarrow> string \<Rightarrow> tool option" where
  "tool_spec m n =
     (case List.find (\<lambda>t. td_name t = n) (mf_tools m) of
        Some t \<Rightarrow> if td_hidden t then None else Some (guest_tool t)
      | None \<Rightarrow> map_of (map (\<lambda>(c, g). (c @ ''.'' @ co_tool g, generated_tool c g)) (crud_pairs m)) n)"

definition route_spec :: "manifest \<Rightarrow> string \<Rightarrow> route option" where
  "route_spec m k =
     (case List.find (\<lambda>r. route_key (rd_method r) (rd_path r) = k) (mf_routes m) of
        Some r \<Rightarrow> if rd_hidden r then None else Some (guest_route r)
      | None \<Rightarrow> map_of (map (\<lambda>(c, g). (route_key (co_method g) (generated_path c g), generated_route c g))
                  (crud_pairs m)) k)"

lemma find_map_of:
  "map_of (map (\<lambda>x. (f x, h x)) xs) k = map_option h (List.find (\<lambda>x. f x = k) xs)"
  by (induction xs) auto

lemma sep_unique: "(d :: char) \<notin> set a \<Longrightarrow> d \<notin> set b \<Longrightarrow> a @ d # x = b @ d # y \<Longrightarrow> a = b \<and> x = y"
  using split_once_Some [of d "a @ d # x"] by (metis option.inject prod.inject)

lemma tool_errs_none:
  "tool_errs gen funcs seen ts = [] \<Longrightarrow>
   (\<forall>t \<in> set ts. tool_name_re (td_name t) \<and> td_name t \<notin> set seen \<and>
      (td_function t \<noteq> [] \<longrightarrow> td_function t \<in> set funcs)) \<and> distinct (map td_name ts)"
proof (induction ts arbitrary: seen)
  case (Cons t ts)
  then have "tool_name_re (td_name t)" "td_name t \<notin> set seen" "tool_errs gen funcs (td_name t # seen) ts = []"
      "td_function t \<noteq> [] \<longrightarrow> td_function t \<in> set funcs"
    by (auto split: if_splits)
  with Cons.IH [of "td_name t # seen"] show ?case by auto
qed simp

lemma route_errs_none:
  "route_errs funcs seen rs = [] \<Longrightarrow>
   (\<forall>r \<in> set rs. route_validate funcs r = None \<and> route_key (rd_method r) (rd_path r) \<notin> set seen) \<and>
   distinct (map (\<lambda>r. route_key (rd_method r) (rd_path r)) rs)"
proof (induction rs arbitrary: seen)
  case (Cons r rs)
  let ?k = "route_key (rd_method r) (rd_path r)"
  from Cons.prems have "route_validate funcs r = None" "?k \<notin> set seen" "route_errs funcs (?k # seen) rs = []"
    by (auto simp: Let_def split: option.splits if_splits)
  with Cons.IH [of "?k # seen"] show ?case by auto
qed simp

lemma crud_pairs_ok:
  assumes "validate m = Inr ()"
  shows "distinct (crud_pairs m)" "\<forall>(c, g) \<in> set (crud_pairs m). name_re c \<and> g \<in> set crud_ops"
proof -
  have c: "\<forall>c \<in> set (mf_collections m). name_re (c_name c)" "distinct (map c_name (mf_collections m))"
    using collection_errs_none [OF validate_ok(3) [OF assms]] by auto
  have "distinct (concat (map (\<lambda>c. map (Pair (c_name c)) crud_ops) cs))" if "distinct (map c_name cs)" for cs :: "collection list"
    using that by (induction cs) (auto simp: distinct_map crud_ops_def inj_on_def)
  from this [OF distinct_map_filter [OF c(2), of c_crud]] show "distinct (crud_pairs m)"
    by (simp add: crud_pairs_def)
  show "\<forall>(c, g) \<in> set (crud_pairs m). name_re c \<and> g \<in> set crud_ops"
    using c(1) by (auto simp: crud_pairs_def split: if_splits)
qed

lemma crud_tool_inj:
  "\<forall>g \<in> set crud_ops. \<forall>g' \<in> set crud_ops. co_tool g = co_tool g' \<longrightarrow> g = g'"
  by code_simp

lemma crud_route_inj:
  "\<forall>g \<in> set crud_ops. \<forall>g' \<in> set crud_ops. co_method g = co_method g' \<and> co_by_id g = co_by_id g' \<longrightarrow> g = g'"
  by code_simp

lemma crud_method_ok: "g \<in> set crud_ops \<Longrightarrow> CHR '' '' \<notin> set (co_method g) \<and> co_method g \<noteq> []"
  by (auto simp: crud_ops_def)

lemma generated_path_inj:
  assumes "name_re c" "name_re c'" "generated_path c g = generated_path c' g'"
  shows "c = c' \<and> co_by_id g = co_by_id g'"
proof -
  have f: "CHR ''/'' \<notin> set c" "CHR ''/'' \<notin> set c'"
    using assms(1,2) name_re_free [of _ "CHR ''/''"] by auto
  show ?thesis
    using assms(3) f sep_unique [OF f, of "''{id}''" "''{id}''"]
    by (cases "co_by_id g"; cases "co_by_id g'") (auto simp: generated_path_def)
qed

lemma derive_tools_look:
  assumes ok: "validate m = Inr ()"
  shows "\<exists>s. tm.slots_ok s \<and> tm.look s = tool_spec m \<and>
     sf_tools (derive m) = sort_key t_name (filter (\<lambda>t. t_name t \<noteq> []) (items s))"
proof -
  let ?kvs = "map (\<lambda>(c, g). (c @ ''.'' @ co_tool g, generated_tool c g)) (crud_pairs m)"
  let ?ds = "map (\<lambda>t. (td_name t, if td_hidden t then None else Some (guest_tool t))) (mf_tools m)"
  let ?base = "fold (\<lambda>(k, x). slots_push k x) ?kvs slots_empty"
  let ?fin = "fold tm.override ?ds ?base"
  have t: "\<forall>t \<in> set (mf_tools m). tool_name_re (td_name t)" "distinct (map td_name (mf_tools m))"
    using tool_errs_none [OF validate_ok(4) [OF ok]] by auto
  have inj: "inj_on (\<lambda>(c, g). c @ ''.'' @ co_tool g) (set (crud_pairs m))"
  proof (rule inj_onI)
    fix x y
    assume xy: "x \<in> set (crud_pairs m)" "y \<in> set (crud_pairs m)"
      "(case x of (c, g) \<Rightarrow> c @ ''.'' @ co_tool g) = (case y of (c, g) \<Rightarrow> c @ ''.'' @ co_tool g)"
    obtain c g c' g' where e: "x = (c, g)" "y = (c', g')" by fastforce
    with xy crud_pairs_ok(2) [OF ok] have n: "name_re c" "name_re c'" "g \<in> set crud_ops" "g' \<in> set crud_ops"
      by auto
    from xy(3) e have "c = c' \<and> co_tool g = co_tool g'"
      using sep_unique [of "CHR ''.''" c c' "co_tool g" "co_tool g'"] n name_re_free [of _ "CHR ''.''"] by simp
    with n crud_tool_inj e show "x = y" by blast
  qed
  have dk: "distinct (map fst ?kvs)"
    using crud_pairs_ok(1) [OF ok] inj by (simp add: comp_def case_prod_unfold distinct_map)
  have g: "tm.slots_ok ?base \<and> tm.look ?base = tm.look slots_empty ++ map_of ?kvs"
    by (rule tm.fold_push [OF tm.ok_empty(1) dk]) (auto simp: tm.ok_empty generated_tool_def)
  have dd: "distinct (map fst ?ds)" using t(2) by (simp add: comp_def)
  have o: "tm.slots_ok ?fin \<and> tm.look ?fin = (\<lambda>k. case map_of ?ds k of Some r \<Rightarrow> r | None \<Rightarrow> tm.look ?base k)"
    using g t(1) by (intro tm.fold_override [OF _ dd]) (auto simp: guest_tool_def tool_name_re_def tool_word_def)
  have "tm.look ?fin = tool_spec m"
    using g o by (auto simp: fun_eq_iff tool_spec_def find_map_of tm.ok_empty split: option.splits)
  moreover have "derive_tool_step = (\<lambda>t. tm.override (td_name t, if td_hidden t then None else Some (guest_tool t)))"
    by (auto simp: fun_eq_iff derive_tool_step_def tm.override_def)
  then have "fold derive_tool_step (mf_tools m) x = fold tm.override ?ds x" for x
    by (simp add: fold_map comp_def)
  moreover have "fold (\<lambda>(c, g). slots_push (c @ ''.'' @ co_tool g) (generated_tool c g)) (crud_pairs m) slots_empty = ?base"
    by (simp add: fold_map comp_def case_prod_unfold)
  ultimately show ?thesis using o by (intro exI [of _ ?fin]) (simp add: derive_def Let_def)
qed

lemma derive_routes_look:
  assumes ok: "validate m = Inr ()"
  shows "\<exists>s. rm.slots_ok s \<and> rm.look s = route_spec m \<and>
     sf_routes (derive m) = sort_key (\<lambda>r. (r_path r, r_method r)) (filter (\<lambda>r. r_method r \<noteq> []) (items s))"
proof -
  let ?key = "\<lambda>r. route_key (rd_method r) (rd_path r)"
  let ?kvs = "map (\<lambda>(c, g). (route_key (co_method g) (generated_path c g), generated_route c g)) (crud_pairs m)"
  let ?ds = "map (\<lambda>r. (?key r, if rd_hidden r then None else Some (guest_route r))) (mf_routes m)"
  let ?base = "fold (\<lambda>(k, x). slots_push k x) ?kvs slots_empty"
  let ?fin = "fold rm.override ?ds ?base"
  have t: "\<forall>r \<in> set (mf_routes m). rd_method r \<noteq> []" "distinct (map ?key (mf_routes m))"
    using route_errs_none [OF validate_ok(5) [OF ok]]
    by (auto simp: route_validate_def methods_def split: if_splits)
  have inj: "inj_on (\<lambda>(c, g). route_key (co_method g) (generated_path c g)) (set (crud_pairs m))"
  proof (rule inj_onI)
    fix x y
    assume xy: "x \<in> set (crud_pairs m)" "y \<in> set (crud_pairs m)"
      "(case x of (c, g) \<Rightarrow> route_key (co_method g) (generated_path c g)) =
       (case y of (c, g) \<Rightarrow> route_key (co_method g) (generated_path c g))"
    obtain c g c' g' where e: "x = (c, g)" "y = (c', g')" by fastforce
    with xy crud_pairs_ok(2) [OF ok] have n: "name_re c" "name_re c'" "g \<in> set crud_ops" "g' \<in> set crud_ops"
      by auto
    from xy(3) e have "co_method g = co_method g' \<and> generated_path c g = generated_path c' g'"
      using sep_unique [of "CHR '' ''" "co_method g" "co_method g'"] n crud_method_ok by (simp add: route_key_def)
    with n generated_path_inj have "c = c'" "co_method g = co_method g'" "co_by_id g = co_by_id g'" by blast+
    with n crud_route_inj e show "x = y" by blast
  qed
  have dk: "distinct (map fst ?kvs)"
    using crud_pairs_ok(1) [OF ok] inj by (simp add: comp_def case_prod_unfold distinct_map)
  have g: "rm.slots_ok ?base \<and> rm.look ?base = rm.look slots_empty ++ map_of ?kvs"
    by (rule rm.fold_push [OF rm.ok_empty(1) dk])
       (use crud_pairs_ok(2) [OF ok] crud_method_ok in \<open>auto simp: rm.ok_empty generated_route_def\<close>)
  have dd: "distinct (map fst ?ds)" using t(2) by (simp add: comp_def)
  have o: "rm.slots_ok ?fin \<and> rm.look ?fin = (\<lambda>k. case map_of ?ds k of Some r \<Rightarrow> r | None \<Rightarrow> rm.look ?base k)"
    using g t(1) by (intro rm.fold_override [OF _ dd]) (auto simp: guest_route_def)
  have "rm.look ?fin = route_spec m"
    using g o by (auto simp: fun_eq_iff route_spec_def find_map_of rm.ok_empty split: option.splits)
  moreover have "derive_route_step = (\<lambda>r. rm.override (?key r, if rd_hidden r then None else Some (guest_route r)))"
    by (auto simp: fun_eq_iff derive_route_step_def rm.override_def Let_def)
  then have "fold derive_route_step (mf_routes m) x = fold rm.override ?ds x" for x
    by (simp add: fold_map comp_def)
  moreover have "fold (\<lambda>(c, g). slots_push (route_key (co_method g) (generated_path c g)) (generated_route c g))
      (crud_pairs m) slots_empty = ?base"
    by (simp add: fold_map comp_def case_prod_unfold)
  ultimately show ?thesis using o by (intro exI [of _ ?fin]) (simp add: derive_def Let_def)
qed

section \<open>Properties\<close>

text \<open>
  C12: a validated manifest exposes exactly what it declares. A tool is in the derived surface exactly
  when the manifest's own entry under that name says so, or, where it has none, when it is one of the
  five generated for a CRUD collection; a hidden entry removes the generated one it shadows. The same
  holds of routes under \<open>METHOD path\<close>. No two tools share a name, no two routes a key, and both lists
  are sorted, so the surface of a manifest is one value whatever the order of its parts.
\<close>

theorem derive_exposes_declarations:
  assumes "validate m = Inr ()"
  shows "(\<forall>t. t \<in> set (sf_tools (derive m)) \<longleftrightarrow> t_name t \<noteq> [] \<and> tool_spec m (t_name t) = Some t) \<and>
    (\<forall>r. r \<in> set (sf_routes (derive m)) \<longleftrightarrow>
       r_method r \<noteq> [] \<and> route_spec m (route_key (r_method r) (r_path r)) = Some r) \<and>
    sorted (map t_name (sf_tools (derive m))) \<and> distinct (map t_name (sf_tools (derive m))) \<and>
    sorted (map (\<lambda>r. (r_path r, r_method r)) (sf_routes (derive m))) \<and>
    distinct (map (\<lambda>r. route_key (r_method r) (r_path r)) (sf_routes (derive m)))"
proof -
  obtain s where s: "tm.slots_ok s" "tm.look s = tool_spec m"
      "sf_tools (derive m) = sort_key t_name (filter (\<lambda>t. t_name t \<noteq> []) (items s))"
    using derive_tools_look [OF assms] by blast
  obtain r where r: "rm.slots_ok r" "rm.look r = route_spec m"
      "sf_routes (derive m) = sort_key (\<lambda>r. (r_path r, r_method r)) (filter (\<lambda>r. r_method r \<noteq> []) (items r))"
    using derive_routes_look [OF assms] by blast
  have d: "distinct (map f (sort_key g xs)) = distinct (map f xs)" for f :: "'a \<Rightarrow> string" and g :: "'a \<Rightarrow> 'b :: linorder" and xs
    by (metis distinct_map distinct_sort set_sort)
  show ?thesis
    using tm.live_items [OF s(1)] rm.live_items [OF r(1)] tm.distinct_live_items [OF s(1)]
      rm.distinct_live_items [OF r(1)]
    by (auto simp: s(2,3) r(2,3) d)
qed

theorem derive_exposes_declarations_witness:
  "map t_name (sf_tools (derive journal_manifest)) =
     [''entries.create'', ''entries.get'', ''entries.list'', ''entries.update'', ''summarize''] \<and>
   distinct (map t_name (sf_tools (derive journal_manifest)))"
proof -
  have "distinct (map t_name (sf_tools (derive journal_manifest)))"
    using derive_exposes_declarations [OF journal_manifest_valid] by blast
  moreover have "map t_name (sf_tools (derive journal_manifest)) =
     [''entries.create'', ''entries.get'', ''entries.list'', ''entries.update'', ''summarize'']" by code_simp
  ultimately show ?thesis by blast
qed

end
