(* ===== verification/Hive_Events.thy ===== *)
theory Hive_Events
  imports Hive_Guard
begin

text \<open>
  The append-only log (\<open>crates/hive-store/src/events.rs\<close> and the events tables of migration one).
  A position is the pair of a time and an id; a row keeps its enums as the text the columns hold, so
  that \<open>scan_event\<close> has the failures of the source. The JSON crate is a parameter: \<open>json b\<close> is the text
  the parsed body is stored as, None when the body does not parse. Each insert reads the host clock
  and the engine clock once; \<open>clk n\<close> is the pair of the n-th insert of a call. \<open>ts_micros\<close> stands for
  the range check of the date library when it makes a timestamp from microseconds.
\<close>

section \<open>Kinds\<close>

definition kind_first :: "char \<Rightarrow> bool" where
  "kind_first c \<longleftrightarrow> is_lower c \<or> is_digit c"

definition kind_rest :: "char \<Rightarrow> bool" where
  "kind_rest c \<longleftrightarrow> is_lower c \<or> is_digit c \<or> c = CHR ''.'' \<or> c = CHR ''_'' \<or> c = CHR ''-''"

fun event_kind_re :: "string \<Rightarrow> bool" where
  "event_kind_re [] = False"
| "event_kind_re (c # cs) = (kind_first c \<and> length cs \<le> 127 \<and> list_all kind_rest cs)"

definition valid_event_kind :: "string \<Rightarrow> store_error + unit" where
  "valid_event_kind k = (if \<not> event_kind_re k then Inl (BadEventKind k) else Inr ())"

text \<open>The two CHECKs of the column. The engine's text functions stop at a NUL.\<close>

definition c_str :: "string \<Rightarrow> string" where
  "c_str s = takeWhile (\<lambda>c. (of_char c :: nat) \<noteq> 0) s"

definition printable :: "char \<Rightarrow> bool" where
  "printable c \<longleftrightarrow> 32 \<le> (of_char c :: nat) \<and> (of_char c :: nat) \<le> 126"

definition kind_check :: "string \<Rightarrow> bool" where
  "kind_check k \<longleftrightarrow>
     1 \<le> length (c_str k) \<and> length (c_str k) \<le> 128
   \<and> (case c_str k of [] \<Rightarrow> False | c # _ \<Rightarrow> kind_first c)
   \<and> \<not> (\<exists>c \<in> set (c_str k). \<not> kind_rest c)
   \<and> \<not> (\<exists>c \<in> set (c_str k). \<not> printable c)
   \<and> length k = length (c_str k)"

section \<open>Cursors\<close>

record cursor =
  cu_at :: "time option"
  cu_id :: int

definition cursor_default :: cursor where
  "cursor_default = \<lparr>cu_at = None, cu_id = 0\<rparr>"

definition cursor_new :: "time \<Rightarrow> int \<Rightarrow> cursor" where
  "cursor_new t i = \<lparr>cu_at = Some t, cu_id = i\<rparr>"

definition at_time :: "time \<Rightarrow> cursor" where
  "at_time t = \<lparr>cu_at = Some t, cu_id = 0\<rparr>"

definition is_zero :: "cursor \<Rightarrow> bool" where
  "is_zero c \<longleftrightarrow> cu_id c = 0 \<and> cu_at c = None"

definition at_or_epoch :: "cursor \<Rightarrow> time" where
  "at_or_epoch c = (case cu_at c of None \<Rightarrow> 0 | Some t \<Rightarrow> t)"

definition before :: "cursor \<Rightarrow> cursor \<Rightarrow> bool" where
  "before c d =
     (let a = at_or_epoch c; b = at_or_epoch d in if a \<noteq> b then a < b else cu_id c < cu_id d)"

definition cursor_display :: "cursor \<Rightarrow> string" where
  "cursor_display c =
     (if is_zero c then []
      else show_int (case cu_at c of None \<Rightarrow> 0 | Some t \<Rightarrow> t) @ CHR ''-'' # show_int (cu_id c))"

definition parse_cursor :: "(int \<Rightarrow> time option) \<Rightarrow> string \<Rightarrow> store_error + cursor" where
  "parse_cursor ts_micros s0 =
     (let s = trim s0 in
      if s = [] then Inr cursor_default
      else (case split_once (CHR ''-'') s of
              None \<Rightarrow>
                (case parse_i64 s of
                   None \<Rightarrow> Inl (InvalidInput ''not an integer'')
                 | Some n \<Rightarrow> Inr \<lparr>cu_at = None, cu_id = n\<rparr>)
            | Some (micros, i) \<Rightarrow>
                (case parse_i64 micros of
                   None \<Rightarrow> Inl (InvalidInput ''bad timestamp'')
                 | Some m \<Rightarrow>
                     (case parse_i64 i of
                        None \<Rightarrow> Inl (InvalidInput ''bad id'')
                      | Some n \<Rightarrow>
                          (case ts_micros m of
                             None \<Rightarrow> Inl (InvalidInput ''bad timestamp'')
                           | Some t \<Rightarrow> Inr (cursor_new t n))))))"

section \<open>Events and their table\<close>

record event =
  ev_id :: int
  ev_created_at :: "time option"
  ev_kind :: string
  ev_subject :: "subject option"
  ev_owner :: owner
  ev_author_actor :: uuid
  ev_principal_kind :: principal_kind
  ev_principal_id :: uuid
  ev_body :: string
  ev_trust :: string
  ev_cause_depth :: int
  ev_run_id :: "uuid option"
  ev_origin :: string
  ev_origin_id :: "string option"

definition event_new :: "string \<Rightarrow> credential \<Rightarrow> string \<Rightarrow> event" where
  "event_new k c b =
     \<lparr>ev_id = 0, ev_created_at = None, ev_kind = k, ev_subject = None, ev_owner = owner_of c,
      ev_author_actor = actor_id c, ev_principal_kind = principal_kind c,
      ev_principal_id = principal_id c, ev_body = b, ev_trust = [], ev_cause_depth = 0,
      ev_run_id = None, ev_origin = [], ev_origin_id = None\<rparr>"

definition event_cursor :: "event \<Rightarrow> cursor" where
  "event_cursor e = \<lparr>cu_at = ev_created_at e, cu_id = ev_id e\<rparr>"

record event_row =
  er_id :: int
  er_created_at :: time
  er_kind :: string
  er_subject_kind :: "string option"
  er_subject_id :: "uuid option"
  er_subject_name :: "string option"
  er_owner_kind :: string
  er_owner_id :: uuid
  er_author_actor :: uuid
  er_principal_kind :: string
  er_principal_id :: uuid
  er_body :: string
  er_trust :: string
  er_cause_depth :: int
  er_run_id :: "uuid option"
  er_origin :: string
  er_origin_id :: "string option"

text \<open>\<open>events_seq\<close> is the AUTOINCREMENT counter, \<open>rings\<close> the count of the process-wide bell.\<close>

record event_db = core_db +
  events :: "event_row list"
  event_origins :: "(string \<times> string) list"
  events_seq :: int
  rings :: nat

definition row_key :: "event_row \<Rightarrow> time \<times> int" where
  "row_key r = (er_created_at r, er_id r)"

definition scan_event :: "event_row \<Rightarrow> store_error + event" where
  "scan_event r =
     (let subj = (case (Option.bind (er_subject_kind r) subject_kind_parse, er_subject_id r) of
                    (Some k, Some i) \<Rightarrow> Some \<lparr>s_kind = k, s_id = i, s_name = er_subject_name r\<rparr>
                  | _ \<Rightarrow> None)
      in case principal_kind_parse (er_owner_kind r) of
           None \<Rightarrow> Inl (Other ''owner kind'')
         | Some ok \<Rightarrow>
             (case principal_kind_parse (er_principal_kind r) of
                None \<Rightarrow> Inl (Other ''principal kind'')
              | Some pk \<Rightarrow>
                  Inr \<lparr>ev_id = er_id r, ev_created_at = Some (er_created_at r), ev_kind = er_kind r,
                       ev_subject = subj, ev_owner = \<lparr>o_kind = ok, o_id = er_owner_id r\<rparr>,
                       ev_author_actor = er_author_actor r, ev_principal_kind = pk,
                       ev_principal_id = er_principal_id r, ev_body = er_body r, ev_trust = er_trust r,
                       ev_cause_depth = er_cause_depth r, ev_run_id = er_run_id r,
                       ev_origin = er_origin r, ev_origin_id = er_origin_id r\<rparr>))"

fun scan_events :: "event_row list \<Rightarrow> store_error + event list" where
  "scan_events [] = Inr []"
| "scan_events (r # rs) =
     (case scan_event r of
        Inl e \<Rightarrow> Inl e
      | Inr v \<Rightarrow> (case scan_events rs of Inl e \<Rightarrow> Inl e | Inr vs \<Rightarrow> Inr (v # vs)))"

section \<open>Writing\<close>

definition subject_kind_check :: "string option \<Rightarrow> bool" where
  "subject_kind_check k \<longleftrightarrow>
     (case k of None \<Rightarrow> True
      | Some s \<Rightarrow> s \<in> {''install'', ''tool'', ''route'', ''entity'', ''conversation''})"

definition event_checks :: "(string \<Rightarrow> string option) \<Rightarrow> event_row \<Rightarrow> bool" where
  "event_checks json r \<longleftrightarrow>
     kind_check (er_kind r) \<and> subject_kind_check (er_subject_kind r)
   \<and> er_owner_kind r \<in> {''user'', ''org''} \<and> er_principal_kind r \<in> {''user'', ''org''}
   \<and> json (er_body r) \<noteq> None \<and> er_trust r \<in> {''trusted'', ''untrusted''} \<and> 0 \<le> er_cause_depth r"

definition hour :: time where "hour = 3600000000"

text \<open>
  The INSERT with its triggers: the future-timestamp guard before the row, the checks, and the origin
  table after it, whose primary key aborts the statement.
\<close>

definition insert_event ::
  "(string \<Rightarrow> string option) \<Rightarrow> time \<Rightarrow> event_db \<Rightarrow> event_row \<Rightarrow> store_error + event_db" where
  "insert_event json engine_now db r0 =
     (let r = r0\<lparr>er_id := events_seq db + 1\<rparr>; bad = (\<lambda>w. Inl (DbError ''append event'' w))
      in if engine_now + hour < er_created_at r then bad (TriggerAbort ''future timestamp'')
         else if i64_max \<le> events_seq db then bad (CheckViolation ''rowid'')
         else if \<not> event_checks json r then bad (CheckViolation ''events'')
         else (case er_origin_id r of
                 None \<Rightarrow> Inr (db\<lparr>events := events db @ [r], events_seq := er_id r\<rparr>)
               | Some oi \<Rightarrow>
                   if (er_origin r, oi) \<in> set (event_origins db) then bad UniqueViolation
                   else Inr (db\<lparr>events := events db @ [r], events_seq := er_id r,
                                event_origins := event_origins db @ [(er_origin r, oi)]\<rparr>)))"

definition fill_defaults :: "event \<Rightarrow> event" where
  "fill_defaults e =
     (let e1 = (if ev_origin e = [] then e\<lparr>ev_origin := ''local''\<rparr> else e);
          e2 = (if ev_trust e1 = [] then e1\<lparr>ev_trust := ''trusted''\<rparr> else e1)
      in if ev_body e2 = [] then e2\<lparr>ev_body := ''{}''\<rparr> else e2)"

definition bind_event :: "event \<Rightarrow> string \<Rightarrow> time \<Rightarrow> event_row" where
  "bind_event e body now =
     \<lparr>er_id = 0, er_created_at = now, er_kind = ev_kind e,
      er_subject_kind = map_option (subject_kind_as_str \<circ> s_kind) (ev_subject e),
      er_subject_id = map_option s_id (ev_subject e),
      er_subject_name = Option.bind (ev_subject e) s_name,
      er_owner_kind = principal_kind_as_str (o_kind (ev_owner e)), er_owner_id = o_id (ev_owner e),
      er_author_actor = ev_author_actor e,
      er_principal_kind = principal_kind_as_str (ev_principal_kind e),
      er_principal_id = ev_principal_id e, er_body = body, er_trust = ev_trust e,
      er_cause_depth = ev_cause_depth e, er_run_id = ev_run_id e, er_origin = ev_origin e,
      er_origin_id = ev_origin_id e\<rparr>"

text \<open>One turn of the loop; on an error the events and rows written before it stay as they are.\<close>

definition append_event ::
  "(string \<Rightarrow> string option) \<Rightarrow> time \<Rightarrow> time \<Rightarrow> event_db \<Rightarrow> event \<Rightarrow> event_db \<times> event \<times> store_error option" where
  "append_event json host_now engine_now db e0 =
     (case valid_event_kind (ev_kind e0) of
        Inl x \<Rightarrow> (db, e0, Some x)
      | Inr _ \<Rightarrow>
          (let e = fill_defaults e0 in
           case json (ev_body e) of
             None \<Rightarrow> (db, e, Some (InvalidInput ''event body is not json''))
           | Some body \<Rightarrow>
               (case insert_event json engine_now db (bind_event e body host_now) of
                  Inl x \<Rightarrow> (db, e, Some x)
                | Inr db' \<Rightarrow>
                    (db', e\<lparr>ev_id := events_seq db', ev_created_at := Some host_now\<rparr>, None))))"

fun append_loop ::
  "(string \<Rightarrow> string option) \<Rightarrow> (nat \<Rightarrow> time \<times> time) \<Rightarrow> nat \<Rightarrow> event_db \<Rightarrow> event list
   \<Rightarrow> event_db \<times> event list \<times> store_error option" where
  "append_loop json clk n db [] = (db, [], None)"
| "append_loop json clk n db (e # es) =
     (case append_event json (fst (clk n)) (snd (clk n)) db e of
        (db', e', Some x) \<Rightarrow> (db', e' # es, Some x)
      | (db', e', None) \<Rightarrow>
          (case append_loop json clk (Suc n) db' es of (db'', es', x) \<Rightarrow> (db'', e' # es', x)))"

definition ring :: "event_db \<Rightarrow> event_db" where
  "ring db = db\<lparr>rings := rings db + 1\<rparr>"

definition append_events ::
  "(string \<Rightarrow> string option) \<Rightarrow> (nat \<Rightarrow> time \<times> time) \<Rightarrow> event_db \<Rightarrow> event list
   \<Rightarrow> event_db \<times> event list \<times> store_error option" where
  "append_events json clk db es =
     (if es = [] then (db, es, None)
      else (case append_loop json clk 0 db es of
              (db', es', None) \<Rightarrow> (ring db', es', None)
            | (db', es', Some x) \<Rightarrow> (db', es', Some x)))"

section \<open>Reading\<close>

definition tail :: "event_db \<Rightarrow> cursor \<Rightarrow> int \<Rightarrow> store_error + event list" where
  "tail db after lim =
     scan_events (limit_rows lim (sort_key row_key
       (filter (\<lambda>r. at_or_epoch after \<le> er_created_at r \<and> (at_or_epoch after, cu_id after) < row_key r)
         (events db))))"

definition tail_window :: "event_db \<Rightarrow> time \<Rightarrow> cursor \<Rightarrow> int \<Rightarrow> store_error + event list" where
  "tail_window db from to' lim =
     scan_events (limit_rows lim (sort_key row_key
       (filter (\<lambda>r. from \<le> er_created_at r \<and> row_key r \<le> (at_or_epoch to', cu_id to')) (events db))))"

definition head :: "event_db \<Rightarrow> cursor" where
  "head db =
     (case rev (sort_key row_key (events db)) of
        [] \<Rightarrow> cursor_default
      | r # _ \<Rightarrow> cursor_new (er_created_at r) (er_id r))"

definition resolve_cursor :: "event_db \<Rightarrow> cursor \<Rightarrow> cursor" where
  "resolve_cursor db c =
     (if cu_id c = 0 \<or> cu_at c \<noteq> None then c
      else (case List.find (\<lambda>r. er_id r = cu_id c) (events db) of
              None \<Rightarrow> cursor_default
            | Some r \<Rightarrow> cursor_new (er_created_at r) (cu_id c)))"

definition now_of :: "time \<Rightarrow> time \<Rightarrow> time" where
  "now_of db_now host = (if db_now < host then host else db_now)"

section \<open>Visibility\<close>

text \<open>
  The feed's CASE. The text of a row's kind that no arm of the owner view carries finds no owner, so
  the predicate gives NULL for it.
\<close>

definition visible_expr :: "event_db \<Rightarrow> credential \<Rightarrow> time \<Rightarrow> event_row \<Rightarrow> string option" where
  "visible_expr db c now r =
     (case (er_subject_kind r, er_subject_id r) of
        (Some k, Some i) \<Rightarrow>
          (case subject_kind_parse k of
             None \<Rightarrow> None
           | Some sk \<Rightarrow>
               Hive_Predicate.reason db
                 (args_of c \<lparr>s_kind = sk, s_id = i, s_name = er_subject_name r\<rparr> Read now None))
      | _ \<Rightarrow>
          if er_owner_kind r = principal_kind_as_str (principal_kind c) \<and> er_owner_id r = principal_id c
             \<and> acting_kind db (actor_id c) (principal_kind c) (principal_id c) \<noteq> None
          then Some ''owner'' else None)"

definition replay ::
  "event_db \<Rightarrow> credential \<Rightarrow> cursor \<Rightarrow> time \<Rightarrow> int \<Rightarrow> time \<Rightarrow> store_error + event list" where
  "replay db c after since lim now =
     scan_events (limit_rows lim (sort_key row_key
       (filter (\<lambda>r. since \<le> er_created_at r \<and> (at_or_epoch after, cu_id after) < row_key r
                  \<and> visible_expr db c now r \<noteq> None)
         (events db))))"

definition visible :: "event_db \<Rightarrow> credential \<Rightarrow> event list \<Rightarrow> time \<Rightarrow> event list" where
  "visible db c es now =
     (if es = [] then []
      else (let allowed =
              concat (map (\<lambda>i. map er_id
                (filter (\<lambda>r. er_id r = i \<and> visible_expr db c now r \<noteq> None) (events db))) (map ev_id es))
            in filter (\<lambda>e. ev_id e \<in> set allowed) es))"

section \<open>Positions\<close>

abbreviation cursor_key :: "cursor \<Rightarrow> time \<times> int" where
  "cursor_key c \<equiv> (at_or_epoch c, cu_id c)"

text \<open>\<open>before\<close> is the strict order of the positions the queries compare.\<close>

lemma before_key: "before c d \<longleftrightarrow> cursor_key c < cursor_key d"
  by (auto simp: before_def Let_def)

lemma before_irrefl [simp]: "\<not> before c c"
  by (simp add: before_key)

lemma before_trans [trans]: "before a b \<Longrightarrow> before b c \<Longrightarrow> before a c"
  unfolding before_key by (rule less_trans)

lemma cursor_simps [simp]:
  "at_or_epoch (cursor_new t i) = t" "cu_id (cursor_new t i) = i" "cu_at (cursor_new t i) = Some t"
  "at_or_epoch (at_time t) = t" "cu_id (at_time t) = 0" "cu_at (at_time t) = Some t"
  "at_or_epoch cursor_default = 0" "cu_id cursor_default = 0" "cu_at cursor_default = None"
  by (simp_all add: cursor_new_def at_time_def cursor_default_def at_or_epoch_def)

lemma tail_guard_redundant:
  "at_or_epoch c \<le> er_created_at r \<and> cursor_key c < row_key r \<longleftrightarrow> cursor_key c < row_key r"
  by (auto simp: row_key_def)

section \<open>Cursors on the wire\<close>

lemma digit_not_space: "is_digit c \<Longrightarrow> \<not> is_space c"
  by (auto simp: is_digit_def is_space_def)

lemma minus_not_space [simp]: "\<not> is_space (CHR ''-'')"
  by (simp add: is_space_def)

lemma show_int_not_space: "c \<in> set (show_int i) \<Longrightarrow> \<not> is_space c"
  using show_nat_digits digit_not_space
  by (auto simp: show_int_def minus_not_space split: if_splits)

lemma trim_plain: "(\<And>c. c \<in> set s \<Longrightarrow> \<not> is_space c) \<Longrightarrow> trim s = s"
proof -
  assume ns: "\<And>c. c \<in> set s \<Longrightarrow> \<not> is_space c"
  then have "dropWhile is_space s = s" by (cases s) auto
  moreover from ns have "dropWhile is_space (rev s) = rev s"
    by (cases "rev s") (auto simp: rev_eq_Cons_iff)
  ultimately show ?thesis by (simp add: trim_def)
qed

lemma show_int_nonneg: "0 \<le> i \<Longrightarrow> CHR ''-'' \<notin> set (show_int i)"
  by (simp add: show_int_def)

lemma split_cursor: "0 \<le> t \<Longrightarrow>
  split_once (CHR ''-'') (show_int t @ CHR ''-'' # show_int i) = Some (show_int t, show_int i)"
  using show_int_nonneg by (simp add: split_once_Some)

lemma parse_cursor_display:
  assumes t: "0 \<le> at_or_epoch c" "at_or_epoch c \<le> i64_max" "ts_micros (at_or_epoch c) = Some (at_or_epoch c)"
    and i: "i64_min \<le> cu_id c" "cu_id c \<le> i64_max" and nz: "\<not> is_zero c"
  shows "parse_cursor ts_micros (cursor_display c) = Inr (cursor_new (at_or_epoch c) (cu_id c))"
proof -
  let ?s = "show_int (at_or_epoch c) @ CHR ''-'' # show_int (cu_id c)"
  have d: "cursor_display c = ?s" using nz by (simp add: cursor_display_def at_or_epoch_def)
  have "trim ?s = ?s"
    by (rule trim_plain) (auto dest: show_int_not_space)
  moreover have "parse_i64 (show_int (at_or_epoch c)) = Some (at_or_epoch c)"
    by (rule parse_i64_show_int) (use t in \<open>auto simp: i64_min_def\<close>)
  ultimately show ?thesis
    using t i by (simp add: d parse_cursor_def split_cursor parse_i64_show_int)
qed

text \<open>
  What a stream writes into an \<open>id:\<close> field names the same position when the client hands it back
  in Last-Event-ID, for every cursor at or after the epoch that fits its columns; the zero cursor
  comes back as itself, and one that has a time comes back exactly.
\<close>

theorem cursor_round_trip:
  assumes "0 \<le> at_or_epoch c" "at_or_epoch c \<le> i64_max" "i64_min \<le> cu_id c" "cu_id c \<le> i64_max"
    and "ts_micros (at_or_epoch c) = Some (at_or_epoch c)"
  shows "\<exists>d. parse_cursor ts_micros (cursor_display c) = Inr d \<and> \<not> before c d \<and> \<not> before d c \<and>
    (is_zero d \<longleftrightarrow> is_zero c) \<and> (cu_at c \<noteq> None \<longrightarrow> d = c)"
proof (cases "is_zero c")
  case True
  then have "c = cursor_default" by (cases c) (simp add: is_zero_def cursor_default_def)
  then show ?thesis
    by (simp add: cursor_display_def parse_cursor_def trim_def is_zero_def)
next
  case False
  with assms parse_cursor_display [of c ts_micros] show ?thesis
    by (cases c) (auto simp: before_key is_zero_def at_or_epoch_def cursor_new_def)
qed

theorem cursor_round_trip_witness:
  "\<exists>d. parse_cursor Some (cursor_display (cursor_new 1700000000123456 42)) = Inr d
     \<and> d = cursor_new 1700000000123456 42 \<and> cursor_display d = ''1700000000123456-42''"
proof -
  have "cursor_display (cursor_new 1700000000123456 42) = ''1700000000123456-42''" by code_simp
  then show ?thesis
    using cursor_round_trip [of "cursor_new 1700000000123456 42" Some]
    by (auto simp: i64_max_def i64_min_def)
qed

section \<open>Kinds: the writer's rule and the column's\<close>

lemma kind_rest_printable: "kind_rest c \<Longrightarrow> printable c"
  by (auto simp: kind_rest_def printable_def is_lower_def is_digit_def)

lemma printable_not_nul: "printable c \<Longrightarrow> (of_char c :: nat) \<noteq> 0"
  by (auto simp: printable_def)

lemma kind_first_rest: "kind_first c \<Longrightarrow> kind_rest c"
  by (auto simp: kind_first_def kind_rest_def)

lemma c_str_full: "length k = length (c_str k) \<Longrightarrow> c_str k = k"
  by (metis c_str_def takeWhile_eq_take take_all_iff order_refl)

lemma c_str_printable: "list_all printable k \<Longrightarrow> c_str k = k"
  by (auto simp: c_str_def takeWhile_eq_all_conv list_all_iff printable_def)

lemma event_kind_re_printable: "event_kind_re k \<Longrightarrow> list_all printable k"
  by (cases k) (auto simp: list_all_iff intro: kind_rest_printable kind_first_rest)

text \<open>
  The two copies of the rule for an event kind agree: the writer's regular expression accepts a kind
  exactly when the column's CHECKs do, NUL bytes included.
\<close>

lemma event_kind_copies_agree: "valid_event_kind k = Inr () \<longleftrightarrow> kind_check k"
proof
  assume "valid_event_kind k = Inr ()"
  then have re: "event_kind_re k" by (simp add: valid_event_kind_def split: if_splits)
  then have "c_str k = k" by (intro c_str_printable event_kind_re_printable)
  with re event_kind_re_printable [OF re] show "kind_check k"
    by (cases k) (auto simp: kind_check_def list_all_iff intro: kind_first_rest)
next
  assume k: "kind_check k"
  then have "c_str k = k" by (intro c_str_full) (simp add: kind_check_def)
  with k have "event_kind_re k"
    by (cases k) (auto simp: kind_check_def list_all_iff)
  then show "valid_event_kind k = Inr ()" by (simp add: valid_event_kind_def)
qed

section \<open>The log's invariant\<close>

definition wf_events :: "(string \<Rightarrow> string option) \<Rightarrow> event_db \<Rightarrow> bool" where
  "wf_events json db \<longleftrightarrow>
     (\<forall>r \<in> set (events db). event_checks json r \<and> 0 < er_id r \<and> er_id r \<le> events_seq db)
   \<and> 0 \<le> events_seq db \<and> events_seq db \<le> i64_max
   \<and> sorted_wrt (<) (map er_id (events db)) \<and> distinct (event_origins db)
   \<and> event_origins db = List.map_filter (\<lambda>r. map_option (Pair (er_origin r)) (er_origin_id r)) (events db)"

lemma wf_events_distinct: "wf_events json db \<Longrightarrow> distinct (map er_id (events db))"
  by (simp add: wf_events_def strict_sorted_iff)

lemma insert_event_ok:
  assumes "insert_event json en db r0 = Inr db'"
  obtains r where "r = r0\<lparr>er_id := events_seq db + 1\<rparr>" "events db' = events db @ [r]" "event_checks json r"
    "events_seq db' = er_id r" "er_created_at r \<le> en + hour" "er_id r \<le> i64_max"
    "core_db.truncate db' = core_db.truncate db" "rings db' = rings db"
    "event_origins db' = event_origins db @ (case er_origin_id r of None \<Rightarrow> [] | Some oi \<Rightarrow> [(er_origin r, oi)])"
    "\<And>oi. er_origin_id r = Some oi \<Longrightarrow> (er_origin r, oi) \<notin> set (event_origins db)"
proof (rule that [of "r0\<lparr>er_id := events_seq db + 1\<rparr>"])
qed (use assms in \<open>auto simp: insert_event_def Let_def core_db.truncate_def
       split: if_splits option.splits\<close>)

lemma insert_event_wf:
  assumes wf: "wf_events json db" and ins: "insert_event json en db r0 = Inr db'"
  shows "wf_events json db'"
proof -
  obtain r where r: "r = r0\<lparr>er_id := events_seq db + 1\<rparr>" "events db' = events db @ [r]" "event_checks json r"
    "events_seq db' = er_id r" "er_id r \<le> i64_max"
    "event_origins db' = event_origins db @ (case er_origin_id r of None \<Rightarrow> [] | Some oi \<Rightarrow> [(er_origin r, oi)])"
    "\<And>oi. er_origin_id r = Some oi \<Longrightarrow> (er_origin r, oi) \<notin> set (event_origins db)"
    using insert_event_ok [OF ins] by metis
  then have i: "er_id r = events_seq db + 1" by simp
  have ids: "sorted_wrt (<) (map er_id (events db'))"
    using wf by (force simp: wf_events_def r(2) sorted_wrt_append i)
  have rows: "\<forall>q \<in> set (events db'). event_checks json q \<and> 0 < er_id q \<and> er_id q \<le> events_seq db'"
    using wf by (force simp: wf_events_def r(2-4) i)
  show ?thesis
    using wf r(5,7) rows ids unfolding wf_events_def r(6)
    by (cases "er_origin_id r") (auto simp: r(2,4) i List.map_filter_def)
qed

lemma append_event_cases:
  assumes a: "append_event json hn en db e = (db', e', x)"
  obtains (refused) y where "x = Some y" "db' = db"
  | (written) body where "x = None" "event_kind_re (ev_kind e)" "json (ev_body (fill_defaults e)) = Some body"
      "insert_event json en db (bind_event (fill_defaults e) body hn) = Inr db'"
      "e' = (fill_defaults e)\<lparr>ev_id := events_seq db', ev_created_at := Some hn\<rparr>"
proof (cases "event_kind_re (ev_kind e)")
  case False
  with a show thesis using refused by (auto simp: append_event_def valid_event_kind_def)
next
  case re: True
  let ?f = "fill_defaults e"
  show thesis
  proof (cases "json (ev_body ?f)")
    case None
    with a re show thesis using refused by (auto simp: append_event_def valid_event_kind_def Let_def)
  next
    case (Some body)
    show thesis
    proof (cases "insert_event json en db (bind_event ?f body hn)")
      case (Inl y)
      with a re Some show thesis using refused by (auto simp: append_event_def valid_event_kind_def Let_def)
    next
      case (Inr db1)
      with a re Some show thesis
        using written [of body] by (auto simp: append_event_def valid_event_kind_def Let_def)
    qed
  qed
qed

text \<open>What the writer's defaults keep.\<close>

lemma fill_defaults_simps [simp]:
  "ev_kind (fill_defaults e) = ev_kind e" "ev_subject (fill_defaults e) = ev_subject e"
  "ev_owner (fill_defaults e) = ev_owner e" "ev_author_actor (fill_defaults e) = ev_author_actor e"
  "ev_principal_kind (fill_defaults e) = ev_principal_kind e"
  "ev_principal_id (fill_defaults e) = ev_principal_id e"
  "ev_cause_depth (fill_defaults e) = ev_cause_depth e" "ev_run_id (fill_defaults e) = ev_run_id e"
  "ev_origin_id (fill_defaults e) = ev_origin_id e"
  by (simp_all add: fill_defaults_def Let_def)

definition stored :: "(string \<Rightarrow> string option) \<Rightarrow> event \<Rightarrow> event" where
  "stored json e = e\<lparr>ev_body := the (json (ev_body e))\<rparr>"

definition filled_in :: "event \<Rightarrow> event \<Rightarrow> bool" where
  "filled_in e e' \<longleftrightarrow> (\<exists>i t. e' = (fill_defaults e)\<lparr>ev_id := i, ev_created_at := Some t\<rparr>)"

lemma scan_bound:
  "scan_event ((bind_event e body t)\<lparr>er_id := i\<rparr>) =
     Inr (e\<lparr>ev_id := i, ev_created_at := Some t, ev_body := body\<rparr>)"
  by (cases e; cases "ev_subject e") (simp_all add: scan_event_def bind_event_def pk.dec_enc sk.dec_enc)

lemma scan_events_append:
  "scan_events (xs @ ys) =
     (case scan_events xs of Inl e \<Rightarrow> Inl e
      | Inr vs \<Rightarrow> (case scan_events ys of Inl e \<Rightarrow> Inl e | Inr ws \<Rightarrow> Inr (vs @ ws)))"
  by (induction xs) (auto split: sum.splits)

definition appends :: "(string \<Rightarrow> string option) \<Rightarrow> event_db \<Rightarrow> event list \<Rightarrow> event_db \<Rightarrow> event list \<Rightarrow> bool" where
  "appends json db es db' es' \<longleftrightarrow>
     (\<exists>more. events db' = events db @ more \<and> scan_events more = Inr (map (stored json) es'))
   \<and> list_all2 filled_in es es'"

definition only_appended :: "event_db \<Rightarrow> event_db \<Rightarrow> bool" where
  "only_appended db db' \<longleftrightarrow>
     (\<exists>more. events db' = events db @ more) \<and> core_db.truncate db' = core_db.truncate db"

lemma append_event_spec:
  assumes wf: "wf_events json db" and a: "append_event json hn en db e = (db', e', x)"
  shows "wf_events json db' \<and> only_appended db db' \<and> rings db' = rings db \<and>
    (x = None \<longrightarrow> appends json db [e] db' [e'])"
  using a
proof (cases rule: append_event_cases)
  case refused
  with wf show ?thesis by (simp add: only_appended_def)
next
  case (written body)
  let ?r = "bind_event (fill_defaults e) body hn"
  obtain r where r: "r = ?r\<lparr>er_id := events_seq db + 1\<rparr>" "events db' = events db @ [r]"
    "events_seq db' = er_id r" "core_db.truncate db' = core_db.truncate db" "rings db' = rings db"
    using insert_event_ok [OF written(4)] by metis
  have "scan_events [r] = Inr [stored json e']"
    using written(3) r(3) by (simp add: r(1) scan_bound written(5) stored_def)
  moreover have "filled_in e e'"
    unfolding filled_in_def using written(5) by blast
  ultimately have "appends json db [e] db' [e']"
    unfolding appends_def using r(2) by auto
  then show ?thesis
    using insert_event_wf [OF wf written(4)] r(2,4,5) by (auto simp: only_appended_def)
qed

lemma only_appended_trans: "only_appended a b \<Longrightarrow> only_appended b c \<Longrightarrow> only_appended a c"
  by (auto simp: only_appended_def)

lemma appends_Cons:
  assumes "appends json a [e] b [e']" "appends json b es c es'"
  shows "appends json a (e # es) c (e' # es')"
proof -
  obtain m1 m2 where "events b = events a @ m1" "scan_events m1 = Inr [stored json e']"
    "events c = events b @ m2" "scan_events m2 = Inr (map (stored json) es')"
    using assms by (auto simp: appends_def)
  then have "events c = events a @ (m1 @ m2)" "scan_events (m1 @ m2) = Inr (map (stored json) (e' # es'))"
    by (simp_all add: scan_events_append)
  then show ?thesis using assms unfolding appends_def by auto
qed

lemma append_loop_spec:
  assumes "wf_events json db" "append_loop json clk n db es = (db', es', x)"
  shows "wf_events json db' \<and> only_appended db db' \<and> rings db' = rings db \<and>
    (x = None \<longrightarrow> appends json db es db' es')"
  using assms
proof (induction es arbitrary: n db es')
  case Nil
  then show ?case by (auto simp: only_appended_def appends_def)
next
  case (Cons e es)
  obtain db1 e1 x1 where s: "append_event json (fst (clk n)) (snd (clk n)) db e = (db1, e1, x1)"
    by (metis prod_cases3)
  note one = append_event_spec [OF Cons.prems(1) s]
  show ?case
  proof (cases x1)
    case (Some y)
    with Cons.prems(2) s one show ?thesis by auto
  next
    case None
    obtain es1 where l: "append_loop json clk (Suc n) db1 es = (db', es1, x)" "es' = e1 # es1"
      using Cons.prems(2) s None by (auto split: prod.splits)
    have rest: "wf_events json db' \<and> only_appended db1 db' \<and> rings db' = rings db1 \<and>
        (x = None \<longrightarrow> appends json db1 es db' es1)"
      using Cons.IH [OF _ l(1)] one by blast
    then show ?thesis
      using one None l(2) by (auto intro: only_appended_trans appends_Cons)
  qed
qed

text \<open>
  C14: The log is append-only, stays well formed and reads back what was written. However a call to
  \<open>append_events\<close> ends, the rows that were there are untouched and so is every other table, ids are
  positive and strictly increase in insertion order, every row satisfies the table's checks, and no
  two rows share an origin and origin id. The bell rings once for a call that wrote everything and
  never for another; and after such a call scanning the new rows gives, in order, the caller's events
  with their defaults, id and time filled in and the body as its JSON.
\<close>

theorem event_log_invariant:
  assumes "wf_events json db" and "append_events json clk db es = (db', es', x)"
  shows "wf_events json db' \<and> only_appended db db' \<and>
    rings db' = rings db + (if es \<noteq> [] \<and> x = None then 1 else 0) \<and>
    (x = None \<longrightarrow> (\<exists>more. events db' = events db @ more \<and>
       scan_events more = Inr (map (stored json) es') \<and> list_all2 filled_in es es'))"
proof (cases "es = []")
  case True
  with assms show ?thesis by (auto simp: append_events_def only_appended_def)
next
  case False
  obtain db1 es1 x1 where l: "append_loop json clk 0 db es = (db1, es1, x1)"
    by (metis prod_cases3)
  have "wf_events json (ring db1) = wf_events json db1" "only_appended db (ring db1) = only_appended db db1"
    "events (ring db1) = events db1"
    by (simp_all add: wf_events_def ring_def only_appended_def core_db.truncate_def)
  with append_loop_spec [OF assms(1) l] l False assms(2) show ?thesis
    by (auto simp: append_events_def ring_def appends_def split: option.splits)
qed

section \<open>Reads and the policy\<close>

text \<open>The whole log in order, and who may see an event: the subject decides, or the owner.\<close>

definition log_of :: "event_db \<Rightarrow> event list" where
  "log_of db = map (projr \<circ> scan_event) (sort_key row_key (events db))"

definition event_may :: "event_db \<Rightarrow> time \<Rightarrow> credential \<Rightarrow> event \<Rightarrow> bool" where
  "event_may db now c e \<longleftrightarrow>
     (case ev_subject e of
        Some s \<Rightarrow> may db now c s Read None
      | None \<Rightarrow> ev_owner e = owner_of c \<and>
          acting_kind db (actor_id c) (principal_kind c) (principal_id c) \<noteq> None)"

lemma user_org_text: "s \<in> {''user'', ''org''} \<Longrightarrow> \<exists>k. s = principal_kind_as_str k"
  by (metis insert_iff principal_kind_as_str.simps singletonD)

lemma event_checks_scan:
  assumes "event_checks json r"
  obtains e where "scan_event r = Inr e" "ev_id e = er_id r" "ev_created_at e = Some (er_created_at r)"
    "event_cursor e = cursor_new (er_created_at r) (er_id r)"
proof -
  from assms obtain ok pk where "er_owner_kind r = principal_kind_as_str ok"
    "er_principal_kind r = principal_kind_as_str pk"
    unfolding event_checks_def using user_org_text by metis
  then show thesis
    using that by (auto simp: scan_event_def pk.dec_enc Let_def event_cursor_def cursor_new_def)
qed

lemma scan_events_checked:
  "(\<And>r. r \<in> set rs \<Longrightarrow> event_checks json r) \<Longrightarrow> scan_events rs = Inr (map (projr \<circ> scan_event) rs)"
proof (induction rs)
  case (Cons r rs)
  then obtain e where "scan_event r = Inr e" by (metis event_checks_scan list.set_intros(1))
  with Cons show ?case by simp
qed simp

lemma subject_kind_check_parses:
  "subject_kind_check (Some k) \<Longrightarrow> \<exists>sk. subject_kind_parse k = Some sk"
  by (auto simp: subject_kind_check_def subject_kind_parse_def)

lemma principal_kind_as_str_inj [simp]:
  "principal_kind_as_str a = principal_kind_as_str b \<longleftrightarrow> a = b"
  by (cases a; cases b) simp_all

lemma visible_expr_may:
  assumes ck: "event_checks json r" and sc: "scan_event r = Inr e"
  shows "visible_expr db c now r \<noteq> None \<longleftrightarrow> event_may db now c e"
proof -
  from ck obtain ok pk where own: "er_owner_kind r = principal_kind_as_str ok"
    and pr: "er_principal_kind r = principal_kind_as_str pk"
    unfolding event_checks_def using user_org_text by metis
  show ?thesis
  proof (cases "er_subject_kind r = None \<or> er_subject_id r = None")
    case True
    then have "ev_subject e = None" "ev_owner e = \<lparr>o_kind = ok, o_id = er_owner_id r\<rparr>"
      using sc own pr by (auto simp: scan_event_def pk.dec_enc split: option.splits)
    moreover from True have "visible_expr db c now r \<noteq> None \<longleftrightarrow>
        principal_kind_as_str ok = principal_kind_as_str (principal_kind c) \<and> er_owner_id r = principal_id c \<and>
        acting_kind db (actor_id c) (principal_kind c) (principal_id c) \<noteq> None"
      by (auto simp: visible_expr_def own split: option.splits)
    ultimately show ?thesis
      by (auto simp: event_may_def owner_of_def)
  next
    case False
    then obtain k i where k: "er_subject_kind r = Some k" "er_subject_id r = Some i" by auto
    with ck obtain sk where sk: "subject_kind_parse k = Some sk"
      using subject_kind_check_parses by (auto simp: event_checks_def)
    let ?s = "\<lparr>s_kind = sk, s_id = i, s_name = er_subject_name r\<rparr>"
    have "ev_subject e = Some ?s"
      using sc k sk own pr by (auto simp: scan_event_def pk.dec_enc)
    moreover have "visible_expr db c now r = fst (decision db (args_of c ?s Read now None))"
      by (simp add: visible_expr_def k sk Hive_Predicate.reason_def)
    ultimately show ?thesis
      using decision_may [of db c ?s Read now None] by (simp add: event_may_def)
  qed
qed

lemma filter_log:
  assumes "\<And>r e. r \<in> set (events db) \<Longrightarrow> scan_event r = Inr e \<Longrightarrow> P r \<longleftrightarrow> Q e" and wf: "wf_events json db"
  shows "scan_events (limit_rows lim (sort_key row_key (filter P (events db)))) =
    Inr (limit_rows lim (filter Q (log_of db)))"
proof -
  let ?g = "projr \<circ> scan_event"
  have ck: "event_checks json r" if "r \<in> set (events db)" for r
    using wf that by (simp add: wf_events_def)
  have "P r = Q (?g r)" if "r \<in> set (sort_key row_key (events db))" for r
  proof -
    from that have r: "r \<in> set (events db)" by simp
    from ck [OF r] obtain e where "scan_event r = Inr e" by (metis event_checks_scan)
    with assms(1) [OF r] show ?thesis by simp
  qed
  then have "filter P (sort_key row_key (events db)) = filter (Q \<circ> ?g) (sort_key row_key (events db))"
    by (intro filter_cong) auto
  then have "map ?g (limit_rows lim (sort_key row_key (filter P (events db)))) =
      limit_rows lim (filter Q (log_of db))"
    by (simp add: log_of_def filter_map filter_sort [symmetric] limit_rows_def take_map)
  moreover have "scan_events (limit_rows lim (sort_key row_key (filter P (events db)))) =
      Inr (map ?g (limit_rows lim (sort_key row_key (filter P (events db)))))"
    by (rule scan_events_checked [where json = json])
       (use set_limit_rows [of lim] ck in fastforce)
  ultimately show ?thesis by simp
qed

lemma scan_position:
  "scan_event r = Inr e \<Longrightarrow> ev_created_at e = Some (er_created_at r) \<and> ev_id e = er_id r \<and>
     cursor_key (event_cursor e) = row_key r"
  by (auto simp: scan_event_def Let_def event_cursor_def row_key_def at_or_epoch_def split: option.splits)

lemma tail_log:
  "wf_events json db \<Longrightarrow>
   tail db after lim = Inr (limit_rows lim (filter (\<lambda>e. before after (event_cursor e)) (log_of db)))"
  unfolding tail_def tail_guard_redundant before_key
  by (rule filter_log) (metis scan_position)

lemma tail_window_log:
  "wf_events json db \<Longrightarrow>
   tail_window db from to' lim = Inr (limit_rows lim
     (filter (\<lambda>e. from \<le> at_or_epoch (event_cursor e) \<and> \<not> before to' (event_cursor e)) (log_of db)))"
  unfolding tail_window_def before_key
  by (rule filter_log) (metis fst_conv linorder_not_less row_key_def scan_position)

lemma replay_log:
  assumes wf: "wf_events json db"
  shows "replay db c after since lim now =
      Inr (limit_rows lim (filter (\<lambda>e. since \<le> at_or_epoch (event_cursor e) \<and>
             before after (event_cursor e) \<and> event_may db now c e) (log_of db)))"
  unfolding replay_def before_key
proof (rule filter_log [OF _ wf])
  fix r e
  assume r: "r \<in> set (events db)" and sc: "scan_event r = Inr e"
  from wf r have "event_checks json r" by (simp add: wf_events_def)
  then show "since \<le> er_created_at r \<and> cursor_key after < row_key r \<and> visible_expr db c now r \<noteq> None \<longleftrightarrow>
      since \<le> at_or_epoch (event_cursor e) \<and> cursor_key after < cursor_key (event_cursor e) \<and>
      event_may db now c e"
    using visible_expr_may [OF _ sc, of json db c now] scan_position [OF sc]
    by (simp add: row_key_def)
qed

lemma visible_log:
  assumes wf: "wf_events json db"
  shows "visible db c es now =
      filter (\<lambda>e. \<exists>f \<in> set (log_of db). ev_id f = ev_id e \<and> event_may db now c f) es"
proof -
  have "er_id r = i \<and> visible_expr db c now r \<noteq> None \<longleftrightarrow>
      ev_id (projr (scan_event r)) = i \<and> event_may db now c (projr (scan_event r))"
    if r: "r \<in> set (events db)" for r i
  proof -
    from wf r have ck: "event_checks json r" by (simp add: wf_events_def)
    then obtain e where sc: "scan_event r = Inr e" by (metis event_checks_scan)
    show ?thesis
      using visible_expr_may [OF ck sc, of db c now] scan_position [OF sc] sc by simp
  qed
  then have "(\<exists>r \<in> set (events db). er_id r = i \<and> visible_expr db c now r \<noteq> None) \<longleftrightarrow>
      (\<exists>f \<in> set (log_of db). ev_id f = i \<and> event_may db now c f)" for i
    by (simp add: log_of_def)
  moreover have "visible db c es now =
      filter (\<lambda>e. \<exists>r \<in> set (events db). er_id r = ev_id e \<and> visible_expr db c now r \<noteq> None) es"
    by (auto simp: visible_def Let_def intro!: filter_cong)
  ultimately show ?thesis by simp
qed

text \<open>
  C13: The feed follows the policy as it stands at the read, on both paths. Replay returns, in log
  order and cut at its limit, exactly the events after the cursor whose subject the credential may
  read now, or which name no subject and belong to the principal it coherently acts for; the live
  filter keeps of a batch exactly those whose row in the log passes that same test, whatever the
  copy in memory says.
\<close>

theorem feed_follows_policy:
  assumes "wf_events json db"
  shows "replay db c after since lim now =
      Inr (limit_rows lim (filter (\<lambda>e. since \<le> at_or_epoch (event_cursor e) \<and>
             before after (event_cursor e) \<and> event_may db now c e) (log_of db))) \<and>
    visible db c es now =
      filter (\<lambda>e. \<exists>f \<in> set (log_of db). ev_id f = ev_id e \<and> event_may db now c f) es"
  using replay_log [OF assms] visible_log [OF assms] by blast

section \<open>A log to evaluate\<close>

text \<open>
  Two events over the sample tables: one about entity 20, which Bob may read, and one that names no
  subject and belongs to Alice. Bodies are taken as they are.
\<close>

definition event_db0 :: event_db where
  "event_db0 = core_db.extend sample_db (event_db.fields [] [] 0 0)"

definition two_events :: "event list" where
  "two_events =
     [(event_new ''journal.entry.created'' alice [])\<lparr>ev_subject := Some (subject_new SEntity 20)\<rparr>,
      event_new ''run.state'' alice ''[1]'']"

definition tick :: "nat \<Rightarrow> time \<times> time" where
  "tick n = (100 + int n, 100 + int n)"

definition event_db1 :: event_db where
  "event_db1 = fst (append_events Some tick event_db0 two_events)"

text \<open>The policy is evaluated by the decision that implements it.\<close>

declare decision_may [symmetric, code]

lemma event_db0_wf: "wf_events Some event_db0"
  by code_simp

lemma event_db1_wf: "wf_events Some event_db1"
  by code_simp

theorem event_log_invariant_witness:
  "wf_events Some event_db1 \<and> only_appended event_db0 event_db1 \<and> rings event_db1 = 1 \<and>
   (\<exists>more es'. events event_db1 = events event_db0 @ more \<and> scan_events more = Inr (map (stored Some) es') \<and>
     list_all2 filled_in two_events es')"
proof -
  have "append_events Some tick event_db0 two_events =
      (event_db1, fst (snd (append_events Some tick event_db0 two_events)), None)" by code_simp
  moreover have "rings event_db0 = 0" "two_events \<noteq> []"
    by (simp_all add: event_db0_def two_events_def core_db.extend_def event_db.fields_def)
  ultimately show ?thesis
    using event_log_invariant [OF event_db0_wf, of tick two_events event_db1 _ None] by fastforce
qed

theorem feed_follows_policy_witness:
  "map_sum id (map ev_id) (replay event_db1 bob cursor_default 0 (-1) 100) = Inr [1] \<and>
   map_sum id (map ev_id) (replay event_db1 alice cursor_default 0 (-1) 100) = Inr [1, 2] \<and>
   map ev_id (visible event_db1 bob (log_of event_db1) 100) = [1]"
proof -
  have "map ev_id (filter (\<lambda>e. 0 \<le> at_or_epoch (event_cursor e) \<and> before cursor_default (event_cursor e) \<and>
          event_may event_db1 100 bob e) (log_of event_db1)) = [1]" by code_simp
  moreover have "map ev_id (filter (\<lambda>e. 0 \<le> at_or_epoch (event_cursor e) \<and> before cursor_default (event_cursor e) \<and>
          event_may event_db1 100 alice e) (log_of event_db1)) = [1, 2]" by code_simp
  moreover have "map ev_id (filter (\<lambda>e. \<exists>f \<in> set (log_of event_db1). ev_id f = ev_id e \<and>
          event_may event_db1 100 bob f) (log_of event_db1)) = [1]" by code_simp
  ultimately show ?thesis
    using feed_follows_policy [OF event_db1_wf] by (simp add: limit_rows_def)
qed

end
