(* ===== verification/Hive_Bus.thy ===== *)
theory Hive_Bus
  imports Hive_Events "HOL-Library.Sublist"
begin

text \<open>
  The events table as live delivery (\<open>crates/hive-bus\<close>, all but the SSE handler): the configuration,
  the hub with its bounded channels, and the tailer, whose cycle drains forward from its cursor, sweeps
  the overlap window behind it for rows that became visible late, publishes the watermark and prunes
  its dedupe set. Each query of a cycle reads the database as it is at that query: \<open>dbs k\<close> is the
  state the k-th query sees. The drain is a loop that ends only when a batch is not full, so it is a
  partial function; that it returns is a theorem. Durations are microseconds.
\<close>

section \<open>Configuration\<close>

record config =
  cfg_overlap :: int
  cfg_poll_interval :: int
  cfg_batch_limit :: int
  cfg_listen :: bool

definition config_default :: config where
  "config_default = \<lparr>cfg_overlap = 0, cfg_poll_interval = 0, cfg_batch_limit = 0, cfg_listen = True\<rparr>"

definition config_defaults :: "config \<Rightarrow> config" where
  "config_defaults c =
     (let c1 = (if cfg_overlap c = 0 then c\<lparr>cfg_overlap := 5000000\<rparr> else c);
          c2 = (if cfg_poll_interval c1 = 0 then c1\<lparr>cfg_poll_interval := 5000000\<rparr> else c1)
      in if cfg_batch_limit c2 \<le> 0 then c2\<lparr>cfg_batch_limit := 500\<rparr> else c2)"

section \<open>The hub\<close>

text \<open>
  A channel keeps its queue, whether the hub still holds the sender and whether the receiver is alive.
  Three components are history: what the receiver has taken out, how many batches had been broadcast
  when it joined, and in \<open>h_log\<close> every batch ever broadcast.
\<close>

record channel =
  ch_id :: nat
  ch_cap :: nat
  ch_queue :: "event list list"
  ch_tx :: bool
  ch_rx :: bool
  ch_taken :: "event list list"
  ch_from :: nat

record hub =
  h_next :: nat
  h_chans :: "channel list"
  h_closed :: bool
  h_log :: "event list list"

definition hub_new :: hub where
  "hub_new = \<lparr>h_next = 0, h_chans = [], h_closed = False, h_log = []\<rparr>"

text \<open>The subscription is the index of its channel.\<close>

definition subscribe :: "nat \<Rightarrow> hub \<Rightarrow> hub \<times> nat" where
  "subscribe buffer h =
     (let cap = (if buffer = 0 then 64 else buffer);
          ch = \<lparr>ch_id = 0, ch_cap = cap, ch_queue = [], ch_tx = False, ch_rx = True, ch_taken = [],
                ch_from = length (h_log h)\<rparr>
      in (if h_closed h then h\<lparr>h_chans := h_chans h @ [ch]\<rparr>
          else h\<lparr>h_next := h_next h + 1,
                 h_chans := h_chans h @ [ch\<lparr>ch_id := h_next h + 1, ch_tx := True\<rparr>]\<rparr>,
          length (h_chans h)))"

definition try_send :: "event list \<Rightarrow> channel \<Rightarrow> channel option" where
  "try_send b ch =
     (if ch_rx ch \<and> length (ch_queue ch) < ch_cap ch
      then Some (ch\<lparr>ch_queue := ch_queue ch @ [b]\<rparr>) else None)"

text \<open>The closure of \<open>retain\<close>: a sender whose send fails is dropped.\<close>

definition send_or_drop :: "event list \<Rightarrow> channel \<Rightarrow> channel" where
  "send_or_drop b ch =
     (if ch_tx ch then (case try_send b ch of Some ch' \<Rightarrow> ch' | None \<Rightarrow> ch\<lparr>ch_tx := False\<rparr>) else ch)"

definition broadcast :: "event list \<Rightarrow> hub \<Rightarrow> hub" where
  "broadcast b h = h\<lparr>h_chans := map (send_or_drop b) (h_chans h), h_log := h_log h @ [b]\<rparr>"

definition close_all :: "hub \<Rightarrow> hub" where
  "close_all h = h\<lparr>h_closed := True, h_chans := map (\<lambda>ch. ch\<lparr>ch_tx := False\<rparr>) (h_chans h)\<rparr>"

datatype received = Batch "event list" | Ended | Pending

definition recv_channel :: "channel \<Rightarrow> channel \<times> received" where
  "recv_channel ch =
     (case ch_queue ch of
        b # q \<Rightarrow> (ch\<lparr>ch_queue := q, ch_taken := ch_taken ch @ [b]\<rparr>, Batch b)
      | [] \<Rightarrow> (ch, if ch_tx ch then Pending else Ended))"

definition recv :: "nat \<Rightarrow> hub \<Rightarrow> hub \<times> received" where
  "recv i h =
     (if i < length (h_chans h)
      then (let (ch, r) = recv_channel (h_chans h ! i) in (h\<lparr>h_chans := (h_chans h)[i := ch]\<rparr>, r))
      else (h, Ended))"

section \<open>The tailer\<close>

record tailer =
  tl_cursor :: cursor
  tl_seen :: "int \<Rightarrow> time option"
  tl_settled :: int
  tl_hub :: hub

definition sweep_factor :: int where "sweep_factor = 4"
definition dedupe_floor :: int where "dedupe_floor = 60000000"

definition prune_seen :: "(int \<Rightarrow> time option) \<Rightarrow> time \<Rightarrow> int \<Rightarrow> (int \<Rightarrow> time option)" where
  "prune_seen m now retain0 =
     (let retain = max retain0 dedupe_floor; cutoff = now - retain
      in (\<lambda>i. case m i of None \<Rightarrow> None | Some t \<Rightarrow> if cutoff \<le> t then Some t else None))"

definition prune :: "config \<Rightarrow> tailer \<Rightarrow> tailer" where
  "prune cfg t =
     (case cu_at (tl_cursor t) of
        None \<Rightarrow> t
      | Some at \<Rightarrow> t\<lparr>tl_seen := prune_seen (tl_seen t) at (cfg_overlap cfg * 2)\<rparr>)"

definition update_settled :: "config \<Rightarrow> time \<Rightarrow> tailer \<Rightarrow> tailer" where
  "update_settled cfg db_now t =
     (case cu_at (tl_cursor t) of
        None \<Rightarrow> t
      | Some cursor_at \<Rightarrow>
          (let s = db_now - cfg_overlap cfg
           in t\<lparr>tl_settled := (if cursor_at < s then cursor_at else s)\<rparr>))"

definition settled :: "tailer \<Rightarrow> time option" where
  "settled t = (if tl_settled t = 0 then None else Some (tl_settled t))"

fun deliver_each ::
  "cursor \<Rightarrow> (int \<Rightarrow> time option) \<Rightarrow> event list \<Rightarrow> cursor \<times> (int \<Rightarrow> time option) \<times> event list" where
  "deliver_each c m [] = (c, m, [])"
| "deliver_each c m (e # es) =
     (let c1 = (if before c (event_cursor e) then event_cursor e else c)
      in if m (ev_id e) \<noteq> None then deliver_each c1 m es
         else (case deliver_each c1 (m(ev_id e \<mapsto> at_or_epoch (event_cursor e))) es of
                 (c2, m2, fresh) \<Rightarrow> (c2, m2, e # fresh)))"

definition deliver :: "config \<Rightarrow> time \<Rightarrow> event list \<Rightarrow> tailer \<Rightarrow> tailer" where
  "deliver cfg db_now es t =
     (case deliver_each (tl_cursor t) (tl_seen t) es of
        (c, m, fresh) \<Rightarrow>
          (let t1 = update_settled cfg db_now (t\<lparr>tl_cursor := c, tl_seen := m\<rparr>)
           in if fresh = [] then t1 else t1\<lparr>tl_hub := broadcast fresh (tl_hub t1)\<rparr>))"

text \<open>The loop returns the number of the next query, the tailer and the error that ended it.\<close>

partial_function (option) drain ::
  "config \<Rightarrow> (nat \<Rightarrow> event_db) \<Rightarrow> time \<Rightarrow> nat \<Rightarrow> tailer \<Rightarrow> (nat \<times> tailer \<times> store_error option) option" where
  "drain cfg dbs db_now k t =
     (case tail (dbs k) (tl_cursor t) (cfg_batch_limit cfg) of
        Inl x \<Rightarrow> Some (Suc k, t, Some x)
      | Inr es \<Rightarrow>
          if int (length es) < cfg_batch_limit cfg then Some (Suc k, deliver cfg db_now es t, None)
          else drain cfg dbs db_now (Suc k) (deliver cfg db_now es t))"

declare drain.simps [code]

definition sweep :: "config \<Rightarrow> event_db \<Rightarrow> time \<Rightarrow> tailer \<Rightarrow> tailer \<times> store_error option" where
  "sweep cfg db db_now t =
     (case cu_at (tl_cursor t) of
        None \<Rightarrow> (t, None)
      | Some at \<Rightarrow>
          if is_zero (tl_cursor t) then (t, None)
          else (case tail_window db (at - cfg_overlap cfg) (tl_cursor t) (cfg_batch_limit cfg * sweep_factor) of
                  Inl x \<Rightarrow> (t, Some x)
                | Inr late \<Rightarrow> (deliver cfg db_now late t, None)))"

definition cycle ::
  "config \<Rightarrow> (nat \<Rightarrow> event_db) \<Rightarrow> time \<Rightarrow> tailer \<Rightarrow> (tailer \<times> store_error option) option" where
  "cycle cfg dbs db_now t =
     (case drain cfg dbs db_now 0 t of
        None \<Rightarrow> None
      | Some (k, t1, Some x) \<Rightarrow> Some (t1, Some x)
      | Some (k, t1, None) \<Rightarrow>
          (case sweep cfg (dbs k) db_now t1 of
             (t2, Some x) \<Rightarrow> Some (t2, Some x)
           | (t2, None) \<Rightarrow> Some (prune cfg (update_settled cfg db_now t2), None)))"

text \<open>Where the tail loop starts: at the head, with the head's row already seen.\<close>

definition tailer_start :: "event_db \<Rightarrow> hub \<Rightarrow> tailer" where
  "tailer_start db h =
     (let c = head db
      in \<lparr>tl_cursor = c,
          tl_seen = (case cu_at c of
                       None \<Rightarrow> Map.empty
                     | Some at \<Rightarrow> if cu_id c \<noteq> 0 then [cu_id c \<mapsto> at] else Map.empty),
          tl_settled = 0, tl_hub = h\<rparr>)"

section \<open>Lemmas: the hub\<close>

text \<open>
  What a channel was sent is what was broadcast since it joined, from the first batch on, in order and
  without a gap: all of it while the hub holds its sender, a prefix of it afterwards. And the hub lets
  go of a sender only when it closes, when the receiver is gone, or when as many batches as the buffer
  takes have been sent.
\<close>

definition chan_ok :: "bool \<Rightarrow> event list list \<Rightarrow> channel \<Rightarrow> bool" where
  "chan_ok closed log ch \<longleftrightarrow>
     length (ch_queue ch) \<le> ch_cap ch \<and> 0 < ch_cap ch \<and> ch_from ch \<le> length log \<and>
     prefix (ch_taken ch @ ch_queue ch) (drop (ch_from ch) log) \<and>
     (ch_tx ch \<longrightarrow> ch_taken ch @ ch_queue ch = drop (ch_from ch) log) \<and>
     (closed \<longrightarrow> \<not> ch_tx ch) \<and>
     (ch_tx ch \<or> closed \<or> \<not> ch_rx ch \<or> ch_cap ch \<le> length (ch_taken ch @ ch_queue ch))"

definition hub_ok :: "hub \<Rightarrow> bool" where
  "hub_ok h \<longleftrightarrow> (\<forall>ch \<in> set (h_chans h). chan_ok (h_closed h) (h_log h) ch)"

lemma hub_ok_new: "hub_ok hub_new"
  by (simp add: hub_ok_def hub_new_def)

lemma hub_ok_subscribe: "hub_ok h \<Longrightarrow> hub_ok (fst (subscribe n h))"
  by (auto simp: hub_ok_def subscribe_def Let_def chan_ok_def)

lemma chan_ok_send:
  assumes ok: "chan_ok closed log ch"
  shows "chan_ok closed (log @ [b]) (send_or_drop b ch)"
proof (cases "ch_tx ch \<and> ch_rx ch \<and> length (ch_queue ch) < ch_cap ch")
  case True
  with ok show ?thesis by (auto simp: chan_ok_def send_or_drop_def try_send_def simp flip: append_assoc)
next
  case False
  with ok show ?thesis
    by (auto simp: chan_ok_def send_or_drop_def try_send_def intro: prefix_prefix)
qed

lemma hub_ok_broadcast: "hub_ok h \<Longrightarrow> hub_ok (broadcast b h)"
  unfolding hub_ok_def broadcast_def using chan_ok_send by auto

lemma hub_ok_close: "hub_ok h \<Longrightarrow> hub_ok (close_all h)"
  by (auto simp: hub_ok_def close_all_def chan_ok_def)

lemma chan_ok_recv: "chan_ok closed log ch \<Longrightarrow> chan_ok closed log (fst (recv_channel ch))"
  by (auto simp: chan_ok_def recv_channel_def split: list.splits)

lemma hub_ok_recv:
  assumes "hub_ok h"
  shows "hub_ok (fst (recv i h))"
proof (cases "i < length (h_chans h)")
  case True
  then have "h_chans h ! i \<in> set (h_chans h)" by simp
  with assms True chan_ok_recv [of "h_closed h" "h_log h" "h_chans h ! i"] show ?thesis
    unfolding hub_ok_def recv_def
    by (auto simp: split_beta dest!: set_update_subset_insert [THEN subsetD])
qed (use assms in \<open>simp add: recv_def\<close>)

lemma h_log_simps [simp]:
  "h_log (fst (subscribe n h)) = h_log h" "h_log (broadcast b h) = h_log h @ [b]"
  "h_log (close_all h) = h_log h" "h_log (fst (recv i h)) = h_log h" "h_log hub_new = []"
  by (auto simp: subscribe_def Let_def broadcast_def close_all_def recv_def hub_new_def split_beta)

section \<open>Lemmas: one delivery\<close>

lemma deliver_each_cursor:
  "deliver_each c m es = (c', m', fresh) \<Longrightarrow>
   \<not> before c' c \<and> (\<forall>e \<in> set es. \<not> before c' (event_cursor e)) \<and>
   (c' = c \<or> (\<exists>e \<in> set es. c' = event_cursor e))"
proof (induction es arbitrary: c m fresh)
  case (Cons e es)
  let ?c1 = "if before c (event_cursor e) then event_cursor e else c"
  obtain m1 f1 where "deliver_each ?c1 m1 es = (c', m', f1)"
    using Cons.prems by (auto simp: Let_def split: if_splits prod.splits)
  from Cons.IH [OF this] show ?case
    by (auto simp: before_key split: if_splits)
qed simp

lemma deliver_each_seen:
  "deliver_each c m es = (c', m', fresh) \<Longrightarrow>
   dom m' = dom m \<union> ev_id ` set es \<and> set fresh \<subseteq> set es \<and> distinct (map ev_id fresh) \<and>
   ev_id ` set fresh = ev_id ` set es - dom m"
proof (induction es arbitrary: c m fresh)
  case (Cons e es)
  let ?c1 = "if before c (event_cursor e) then event_cursor e else c"
  show ?case
  proof (cases "m (ev_id e)")
    case None
    obtain f1 where f: "deliver_each ?c1 (m(ev_id e \<mapsto> at_or_epoch (event_cursor e))) es = (c', m', f1)"
      "fresh = e # f1"
      using Cons.prems None by (auto simp: Let_def split: prod.splits)
    have n: "ev_id e \<notin> dom m" using None by (simp add: domIff)
    have "dom (m(ev_id e \<mapsto> at_or_epoch (event_cursor e))) = insert (ev_id e) (dom m)" by simp
    note ih = Cons.IH [OF f(1), unfolded this]
    then have "distinct (map ev_id fresh)" unfolding f(2) by (simp del: domIff)
    moreover have "ev_id ` set fresh = ev_id ` set (e # es) - dom m"
      using ih n by (auto simp: f(2) simp del: domIff)
    moreover have "dom m' = dom m \<union> ev_id ` set (e # es)" "set fresh \<subseteq> set (e # es)"
      using ih by (auto simp: f(2) simp del: domIff)
    ultimately show ?thesis by blast
  next
    case (Some s)
    with Cons.prems have d: "deliver_each ?c1 m es = (c', m', fresh)" by (simp add: Let_def)
    have "ev_id e \<in> dom m" using Some by (simp add: domIff)
    with Cons.IH [OF d] show ?thesis by auto
  qed
qed simp

lemma deliver_each_stamps:
  assumes "deliver_each c m es = (c', m', fresh)" "\<forall>e \<in> set es. ev_created_at e = Some (stamp (ev_id e))"
    "\<forall>i s. m i = Some s \<longrightarrow> s = stamp i"
  shows "\<forall>i s. m' i = Some s \<longrightarrow> s = stamp i"
  using assms
proof (induction es arbitrary: c m fresh)
  case (Cons e es)
  let ?c1 = "if before c (event_cursor e) then event_cursor e else c"
  have e: "at_or_epoch (event_cursor e) = stamp (ev_id e)"
    using Cons.prems(2) by (simp add: event_cursor_def at_or_epoch_def)
  obtain m1 f1 where d: "deliver_each ?c1 m1 es = (c', m', f1)"
    and m1: "m1 = m \<or> m1 = m(ev_id e \<mapsto> stamp (ev_id e))"
    using Cons.prems(1) e by (auto simp: Let_def split: if_splits prod.splits)
  have "\<forall>i s. m1 i = Some s \<longrightarrow> s = stamp i"
    using m1 Cons.prems(3) by (auto split: if_splits)
  moreover have "\<forall>e \<in> set es. ev_created_at e = Some (stamp (ev_id e))"
    using Cons.prems(2) by simp
  ultimately show ?case using Cons.IH [OF d] by blast
qed simp

lemma update_settled_simps [simp]:
  "tl_cursor (update_settled cfg n t) = tl_cursor t" "tl_seen (update_settled cfg n t) = tl_seen t"
  "tl_hub (update_settled cfg n t) = tl_hub t"
  by (simp_all add: update_settled_def Let_def split: option.splits)

lemma prune_simps [simp]:
  "tl_cursor (prune cfg t) = tl_cursor t" "tl_hub (prune cfg t) = tl_hub t"
  "tl_settled (prune cfg t) = tl_settled t"
  by (simp_all add: prune_def split: option.splits)

lemma deliver_cases:
  obtains c m fresh where "deliver_each (tl_cursor t) (tl_seen t) es = (c, m, fresh)"
    "tl_cursor (deliver cfg n es t) = c" "tl_seen (deliver cfg n es t) = m"
    "tl_hub (deliver cfg n es t) = (if fresh = [] then tl_hub t else broadcast fresh (tl_hub t))"
    "concat (h_log (tl_hub (deliver cfg n es t))) = concat (h_log (tl_hub t)) @ fresh"
proof -
  obtain c m fresh where "deliver_each (tl_cursor t) (tl_seen t) es = (c, m, fresh)"
    by (metis prod_cases3)
  then show thesis by (intro that [of c m fresh]) (simp_all add: deliver_def Let_def)
qed

section \<open>The tailer's invariant\<close>

text \<open>
  \<open>stamp\<close> gives the time of each id: a row never changes, so every state of the database agrees on it.
\<close>

definition retain :: "config \<Rightarrow> int" where
  "retain cfg = max (cfg_overlap cfg * 2) dedupe_floor"

definition stamped :: "(int \<Rightarrow> time) \<Rightarrow> event \<Rightarrow> bool" where
  "stamped stamp e \<longleftrightarrow> ev_created_at e = Some (stamp (ev_id e))"

definition snapshot :: "(string \<Rightarrow> string option) \<Rightarrow> (int \<Rightarrow> time) \<Rightarrow> event_db \<Rightarrow> bool" where
  "snapshot json stamp db \<longleftrightarrow>
     wf_events json db \<and> (\<forall>r \<in> set (events db). er_created_at r = stamp (er_id r))"

definition tailer_inv :: "(int \<Rightarrow> time) \<Rightarrow> config \<Rightarrow> tailer \<Rightarrow> bool" where
  "tailer_inv stamp cfg t \<longleftrightarrow>
     hub_ok (tl_hub t) \<and> distinct (map ev_id (concat (h_log (tl_hub t))))
   \<and> (\<forall>i s. tl_seen t i = Some s \<longrightarrow> s = stamp i)
   \<and> (\<forall>e \<in> set (concat (h_log (tl_hub t))). stamped stamp e \<and> \<not> before (tl_cursor t) (event_cursor e) \<and>
        (at_or_epoch (tl_cursor t) - retain cfg \<le> stamp (ev_id e) \<longrightarrow> tl_seen t (ev_id e) \<noteq> None))"

lemma stamped_key: "stamped stamp e \<Longrightarrow> cursor_key (event_cursor e) = (stamp (ev_id e), ev_id e)"
  by (simp add: stamped_def event_cursor_def at_or_epoch_def)

lemma log_of_scan:
  assumes "wf_events json db" "e \<in> set (log_of db)"
  obtains r where "r \<in> set (events db)" "scan_event r = Inr e"
proof -
  from assms(2) obtain r where r: "r \<in> set (events db)" "e = projr (scan_event r)"
    by (auto simp: log_of_def)
  with assms(1) have "event_checks json r" by (simp add: wf_events_def)
  then obtain e' where "scan_event r = Inr e'" by (metis event_checks_scan)
  with r that show thesis by simp
qed

lemma snapshot_stamped:
  assumes "snapshot json stamp db" "e \<in> set (log_of db)"
  shows "stamped stamp e"
proof -
  from assms obtain r where r: "r \<in> set (events db)" "scan_event r = Inr e"
    unfolding snapshot_def by (metis log_of_scan)
  with assms(1) scan_position [OF r(2)] show ?thesis by (simp add: stamped_def snapshot_def)
qed

lemma tailer_invD:
  assumes "tailer_inv stamp cfg t" "e \<in> set (concat (h_log (tl_hub t)))"
  shows "stamped stamp e" "\<not> before (tl_cursor t) (event_cursor e)"
    "at_or_epoch (tl_cursor t) - retain cfg \<le> stamp (ev_id e) \<Longrightarrow> ev_id e \<in> dom (tl_seen t)"
  using assms unfolding tailer_inv_def domIff by blast+

lemma deliver_fresh_new:
  assumes inv: "tailer_inv stamp cfg t" and st: "\<forall>e \<in> set es. stamped stamp e"
    and ahead: "\<forall>e \<in> set es. before (tl_cursor t) (event_cursor e) \<or>
      at_or_epoch (tl_cursor t) - retain cfg \<le> stamp (ev_id e)"
    and d: "deliver_each (tl_cursor t) (tl_seen t) es = (c, m, fresh)"
    and f: "f \<in> set fresh" and e: "e \<in> set (concat (h_log (tl_hub t)))"
  shows "ev_id f \<noteq> ev_id e"
proof
  assume eq: "ev_id f = ev_id e"
  from deliver_each_seen [OF d] f have fe: "f \<in> set es" and un: "ev_id f \<notin> dom (tl_seen t)" by blast+
  from st fe have "stamped stamp f" by simp
  with tailer_invD(1,2) [OF inv e] eq have "\<not> before (tl_cursor t) (event_cursor f)"
    using stamped_key [of stamp f] stamped_key [of stamp e] by (simp add: before_key)
  with ahead fe have "at_or_epoch (tl_cursor t) - retain cfg \<le> stamp (ev_id e)" using eq by auto
  with tailer_invD(3) [OF inv e] un eq show False by simp
qed

lemma deliver_inv:
  assumes inv: "tailer_inv stamp cfg t" and st: "\<forall>e \<in> set es. stamped stamp e"
    and ahead: "\<forall>e \<in> set es. before (tl_cursor t) (event_cursor e) \<or>
      at_or_epoch (tl_cursor t) - retain cfg \<le> stamp (ev_id e)"
  shows "tailer_inv stamp cfg (deliver cfg n es t)"
proof -
  let ?t = "deliver cfg n es t"
  define L where "L = concat (h_log (tl_hub t))"
  obtain c m fresh where d: "deliver_each (tl_cursor t) (tl_seen t) es = (c, m, fresh)"
    and t': "tl_cursor ?t = c" "tl_seen ?t = m"
    and hub: "tl_hub ?t = (if fresh = [] then tl_hub t else broadcast fresh (tl_hub t))"
    and log: "concat (h_log (tl_hub ?t)) = L @ fresh"
    unfolding L_def by (rule deliver_cases)
  note cur = deliver_each_cursor [OF d] and seen = deliver_each_seen [OF d]
  note old = tailer_invD [OF inv, folded L_def]
  have stamps: "\<forall>i s. m i = Some s \<longrightarrow> s = stamp i"
    by (rule deliver_each_stamps [OF d]) (use st inv in \<open>auto simp: stamped_def tailer_inv_def\<close>)
  have le: "cursor_key (tl_cursor t) \<le> cursor_key c"
    using cur unfolding before_key by (meson linorder_not_less)
  then have at: "at_or_epoch (tl_cursor t) \<le> at_or_epoch c" by (auto simp: less_eq_prod_def)
  have kept: "stamped stamp e \<and> \<not> before c (event_cursor e) \<and>
      (at_or_epoch c - retain cfg \<le> stamp (ev_id e) \<longrightarrow> ev_id e \<in> dom m)" if e: "e \<in> set L" for e
  proof -
    have "\<not> before c (event_cursor e)"
      using old(2) [OF e] le unfolding before_key by (meson le_less_trans linorder_not_less)
    moreover have "ev_id e \<in> dom m" if "at_or_epoch c - retain cfg \<le> stamp (ev_id e)"
      using old(3) [OF e] at that seen by auto
    ultimately show ?thesis using old(1) [OF e] by blast
  qed
  moreover have "stamped stamp e \<and> \<not> before c (event_cursor e) \<and> ev_id e \<in> dom m" if "e \<in> set fresh" for e
    using that seen st cur by blast
  ultimately have all: "\<forall>e \<in> set (L @ fresh). stamped stamp e \<and> \<not> before c (event_cursor e) \<and>
      (at_or_epoch c - retain cfg \<le> stamp (ev_id e) \<longrightarrow> m (ev_id e) \<noteq> None)"
    unfolding domIff by auto
  have "set (map ev_id L) \<inter> set (map ev_id fresh) = {}"
    using deliver_fresh_new [OF inv st ahead d, folded L_def] by fastforce
  then have dist: "distinct (map ev_id (L @ fresh))"
    using inv seen by (simp add: tailer_inv_def L_def)
  have "hub_ok (tl_hub ?t)"
    using inv hub_ok_broadcast by (simp add: hub tailer_inv_def)
  then show ?thesis
    unfolding tailer_inv_def t' log using dist stamps all by (intro conjI)
qed

section \<open>Lemmas: a cycle\<close>

lemma tail_reads:
  assumes "snapshot json stamp db" "tail db c lim = Inr es" "e \<in> set es"
  shows "e \<in> set (log_of db)" "before c (event_cursor e)" "stamped stamp e"
proof -
  from assms(1,2) have "es = limit_rows lim (filter (\<lambda>e. before c (event_cursor e)) (log_of db))"
    using tail_log [of json db c lim] by (simp add: snapshot_def)
  with assms(3) show "e \<in> set (log_of db)" "before c (event_cursor e)"
    by (auto dest!: set_limit_rows [THEN subsetD])
  with assms(1) show "stamped stamp e" by (metis snapshot_stamped)
qed

lemma sweep_reads:
  assumes "snapshot json stamp db" "tail_window db from c lim = Inr es" "e \<in> set es"
  shows "e \<in> set (log_of db)" "from \<le> stamp (ev_id e)" "stamped stamp e"
proof -
  from assms(1,2) have "es = limit_rows lim
      (filter (\<lambda>e. from \<le> at_or_epoch (event_cursor e) \<and> \<not> before c (event_cursor e)) (log_of db))"
    using tail_window_log [of json db "from" c lim] by (simp add: snapshot_def)
  with assms(3) have "e \<in> set (log_of db)" "from \<le> at_or_epoch (event_cursor e)"
    by (auto dest!: set_limit_rows [THEN subsetD])
  moreover from this assms(1) have "stamped stamp e" by (metis snapshot_stamped)
  ultimately show "e \<in> set (log_of db)" "from \<le> stamp (ev_id e)" "stamped stamp e"
    by (simp_all add: stamped_def event_cursor_def at_or_epoch_def)
qed

lemma overlap_le_retain: "cfg_overlap cfg \<le> retain cfg"
  by (simp add: retain_def dedupe_floor_def max_def)

lemmas drain_induct = drain.raw_induct [rotated, consumes 1, case_names step]

lemma drain_inv:
  assumes "drain cfg dbs n k t = Some r" "\<And>k. snapshot json stamp (dbs k)" "tailer_inv stamp cfg t"
  shows "tailer_inv stamp cfg (fst (snd r))"
  using assms
proof (induction cfg dbs n k t r rule: drain_induct)
  case (step drn cfg dbs n k t r)
  show ?case
  proof (cases "tail (dbs k) (tl_cursor t) (cfg_batch_limit cfg)")
    case (Inl x)
    with step(2,4) show ?thesis by auto
  next
    case (Inr es)
    have inv: "tailer_inv stamp cfg (deliver cfg n es t)"
      by (rule deliver_inv [OF step(4)]) (use tail_reads [OF step(3) Inr] in auto)
    show ?thesis
    proof (cases "int (length es) < cfg_batch_limit cfg")
      case True
      with step(2) Inr inv show ?thesis by auto
    next
      case False
      with step(2) Inr have "drn cfg dbs n (Suc k) (deliver cfg n es t) = Some r" by simp
      from step(1) [OF this step(3) inv] show ?thesis .
    qed
  qed
qed

lemma sweep_inv:
  assumes "snapshot json stamp db" "tailer_inv stamp cfg t"
  shows "tailer_inv stamp cfg (fst (sweep cfg db n t))"
proof (cases "cu_at (tl_cursor t)")
  case None
  with assms show ?thesis by (simp add: sweep_def)
next
  case (Some at)
  let ?q = "tail_window db (at - cfg_overlap cfg) (tl_cursor t) (cfg_batch_limit cfg * sweep_factor)"
  have "tailer_inv stamp cfg (deliver cfg n late t)" if q: "?q = Inr late" for late
  proof (rule deliver_inv [OF assms(2)])
    show "\<forall>e \<in> set late. stamped stamp e" using sweep_reads(3) [OF assms(1) q] by blast
    have "at_or_epoch (tl_cursor t) - retain cfg \<le> stamp (ev_id e)" if "e \<in> set late" for e
      using sweep_reads(2) [OF assms(1) q that] overlap_le_retain [of cfg] Some
      by (simp add: at_or_epoch_def)
    then show "\<forall>e \<in> set late. before (tl_cursor t) (event_cursor e) \<or>
        at_or_epoch (tl_cursor t) - retain cfg \<le> stamp (ev_id e)" by blast
  qed
  with assms(2) Some show ?thesis by (auto simp: sweep_def split: sum.splits)
qed

lemma prune_inv: "tailer_inv stamp cfg t \<Longrightarrow> tailer_inv stamp cfg (prune cfg t)"
proof (cases "cu_at (tl_cursor t)")
  case (Some at)
  assume inv: "tailer_inv stamp cfg t"
  have seen: "tl_seen (prune cfg t) i =
      (case tl_seen t i of None \<Rightarrow> None | Some s \<Rightarrow> if at - retain cfg \<le> s then Some s else None)" for i
    unfolding prune_def Some retain_def by (simp add: prune_seen_def Let_def)
  have "tl_seen (prune cfg t) (ev_id e) \<noteq> None"
    if e: "e \<in> set (concat (h_log (tl_hub t)))" and r: "at_or_epoch (tl_cursor t) - retain cfg \<le> stamp (ev_id e)" for e
  proof -
    obtain s where "tl_seen t (ev_id e) = Some s" using tailer_invD(3) [OF inv e r] by blast
    moreover from this inv have "s = stamp (ev_id e)" by (simp add: tailer_inv_def)
    ultimately show ?thesis using r Some by (simp add: seen at_or_epoch_def)
  qed
  moreover have "s = stamp i" if "tl_seen (prune cfg t) i = Some s" for i s
    using that inv by (simp add: seen tailer_inv_def split: option.splits if_splits)
  ultimately show ?thesis
    using inv unfolding tailer_inv_def prune_simps by blast
qed (simp add: prune_def)

lemma update_settled_inv [simp]:
  "tailer_inv stamp cfg (update_settled cfg' n t) \<longleftrightarrow> tailer_inv stamp cfg t"
  by (simp add: tailer_inv_def)

lemma cycle_inv:
  assumes c: "cycle cfg dbs n t = Some (t', x)" and snap: "\<And>k. snapshot json stamp (dbs k)"
    and inv: "tailer_inv stamp cfg t"
  shows "tailer_inv stamp cfg t'"
proof -
  obtain k t1 x1 where d: "drain cfg dbs n 0 t = Some (k, t1, x1)"
    using c by (auto simp: cycle_def split: option.splits)
  from drain_inv [OF this snap inv] have i1: "tailer_inv stamp cfg t1" by simp
  show ?thesis
  proof (cases x1)
    case (Some y)
    with c d i1 show ?thesis by (simp add: cycle_def)
  next
    case None
    obtain t2 x2 where s: "sweep cfg (dbs k) n t1 = (t2, x2)" by fastforce
    with sweep_inv [OF snap i1, of k n] have "tailer_inv stamp cfg t2" by simp
    with c d None s show ?thesis
      by (auto simp: cycle_def split: option.splits intro: prune_inv)
  qed
qed

section \<open>A running bus\<close>

text \<open>
  The steps of a bus: a cycle of the tailer over states of the database that agree on every row they
  share, a subscriber joining, taking a batch or going away, and the shutdown.
\<close>

inductive bus_step ::
  "(string \<Rightarrow> string option) \<Rightarrow> (int \<Rightarrow> time) \<Rightarrow> config \<Rightarrow> tailer \<Rightarrow> tailer \<Rightarrow> bool"
  for json stamp cfg where
  Cycle: "cycle cfg dbs n t = Some (t', x) \<Longrightarrow> (\<And>k. snapshot json stamp (dbs k)) \<Longrightarrow>
    bus_step json stamp cfg t t'"
| Join: "bus_step json stamp cfg t (t\<lparr>tl_hub := fst (subscribe b (tl_hub t))\<rparr>)"
| Take: "bus_step json stamp cfg t (t\<lparr>tl_hub := fst (recv i (tl_hub t))\<rparr>)"
| Leave: "i < length (h_chans (tl_hub t)) \<Longrightarrow>
    bus_step json stamp cfg t
      (t\<lparr>tl_hub := (tl_hub t)\<lparr>h_chans := (h_chans (tl_hub t))[i := (h_chans (tl_hub t) ! i)\<lparr>ch_rx := False\<rparr>]\<rparr>\<rparr>)"
| Stop: "bus_step json stamp cfg t (t\<lparr>tl_hub := close_all (tl_hub t)\<rparr>)"

inductive bus_reach ::
  "(string \<Rightarrow> string option) \<Rightarrow> (int \<Rightarrow> time) \<Rightarrow> config \<Rightarrow> tailer \<Rightarrow> bool"
  for json stamp cfg where
  Start: "snapshot json stamp db \<Longrightarrow> bus_reach json stamp cfg (tailer_start db hub_new)"
| Step: "bus_reach json stamp cfg t \<Longrightarrow> bus_step json stamp cfg t t' \<Longrightarrow> bus_reach json stamp cfg t'"

lemma hub_ok_leave:
  assumes "hub_ok h" "i < length (h_chans h)"
  shows "hub_ok (h\<lparr>h_chans := (h_chans h)[i := (h_chans h ! i)\<lparr>ch_rx := False\<rparr>]\<rparr>)"
proof -
  have "h_chans h ! i \<in> set (h_chans h)" using assms(2) by simp
  with assms(1) show ?thesis
    unfolding hub_ok_def by (auto simp: chan_ok_def dest!: set_update_subset_insert [THEN subsetD])
qed

lemma tailer_inv_hub:
  assumes "tailer_inv stamp cfg t" "hub_ok h" "h_log h = h_log (tl_hub t)"
  shows "tailer_inv stamp cfg (t\<lparr>tl_hub := h\<rparr>)"
  using assms by (simp add: tailer_inv_def)

lemma head_stamp:
  assumes "snapshot json stamp db" "cu_at (head db) = Some at"
  shows "at = stamp (cu_id (head db))"
proof -
  obtain r rs where r: "rev (sort_key row_key (events db)) = r # rs"
    using assms(2) by (auto simp: head_def split: list.splits)
  then have "r \<in> set (events db)"
    by (metis list.set_intros(1) set_rev set_sort)
  with assms r show ?thesis by (simp add: head_def snapshot_def)
qed

lemma bus_reach_inv: "bus_reach json stamp cfg t \<Longrightarrow> tailer_inv stamp cfg t"
proof (induction rule: bus_reach.induct)
  case (Start db)
  then show ?case
    by (auto simp: tailer_inv_def tailer_start_def Let_def hub_ok_new head_stamp
        split: option.splits if_splits)
next
  case (Step t t')
  from Step.hyps(2) Step.IH show ?case
  proof (cases rule: bus_step.cases)
    case (Cycle dbs n x)
    with Step.IH show ?thesis by (blast intro: cycle_inv)
  qed (auto intro!: tailer_inv_hub hub_ok_subscribe hub_ok_recv hub_ok_leave hub_ok_close
       simp: tailer_inv_def)
qed

text \<open>
  C16: No subscriber is handed an event twice and none that is still connected misses one. In every
  state a running bus can reach, all ids broadcast so far are distinct, although every cycle reads the
  overlap window again and the dedupe set is pruned. What a subscriber took and what waits for it are
  together exactly the batches broadcast since it joined, in order, for as long as the hub keeps its
  sender; after that they are the first of these batches, without a gap. And the hub drops a sender
  only when it closes, when the subscriber left, or when a full buffer's worth of batches was sent.
\<close>

theorem no_event_is_broadcast_twice:
  assumes "bus_reach json stamp cfg t"
  shows "distinct (map ev_id (concat (h_log (tl_hub t)))) \<and>
    (\<forall>ch \<in> set (h_chans (tl_hub t)).
       (let sent = ch_taken ch @ ch_queue ch; since = drop (ch_from ch) (h_log (tl_hub t)) in
          (if ch_tx ch then sent = since
           else prefix sent since \<and> (h_closed (tl_hub t) \<or> \<not> ch_rx ch \<or> 0 < ch_cap ch \<and> ch_cap ch \<le> length sent))))"
  using bus_reach_inv [OF assms] unfolding tailer_inv_def hub_ok_def chan_ok_def Let_def by auto

section \<open>The drain returns\<close>

definition remaining :: "event_db \<Rightarrow> cursor \<Rightarrow> nat" where
  "remaining db c = length (filter (\<lambda>e. before c (event_cursor e)) (log_of db))"

lemma deliver_cursor:
  "\<not> before (tl_cursor (deliver cfg n es t)) (tl_cursor t) \<and>
   (\<forall>e \<in> set es. \<not> before (tl_cursor (deliver cfg n es t)) (event_cursor e)) \<and>
   (tl_cursor (deliver cfg n es t) = tl_cursor t \<or>
    (\<exists>e \<in> set es. tl_cursor (deliver cfg n es t) = event_cursor e))"
proof -
  obtain c m fresh where "deliver_each (tl_cursor t) (tl_seen t) es = (c, m, fresh)"
    "tl_cursor (deliver cfg n es t) = c"
    by (rule deliver_cases [of t es cfg n])
  then show ?thesis using deliver_each_cursor by simp
qed

lemma before_later: "before d x \<Longrightarrow> \<not> before d c \<Longrightarrow> before c x"
  unfolding before_key by (meson le_less_trans linorder_not_less)

lemma remaining_antimono: "\<not> before d c \<Longrightarrow> remaining db d \<le> remaining db c"
proof -
  assume "\<not> before d c"
  then have "filter (\<lambda>e. before d (event_cursor e)) xs =
      filter (\<lambda>e. before d (event_cursor e)) (filter (\<lambda>e. before c (event_cursor e)) xs)" for xs
    by (auto intro!: filter_cong dest: before_later)
  then show ?thesis unfolding remaining_def by (metis length_filter_le)
qed

lemma remaining_shrinks:
  assumes "\<not> before d c" "e \<in> set (log_of db)" "before c (event_cursor e)" "\<not> before d (event_cursor e)"
  shows "remaining db d < remaining db c"
proof -
  let ?xs = "filter (\<lambda>e. before c (event_cursor e)) (log_of db)"
  have "filter (\<lambda>e. before d (event_cursor e)) (log_of db) = filter (\<lambda>e. before d (event_cursor e)) ?xs"
    using assms(1) by (auto intro!: filter_cong dest: before_later)
  moreover have "length (filter (\<lambda>e. before d (event_cursor e)) ?xs) < length ?xs"
    by (rule length_filter_less [of e]) (use assms in auto)
  ultimately show ?thesis by (simp add: remaining_def)
qed

lemma tail_complete:
  assumes "wf_events json db" "tail db c lim = Inr es" "int (length es) < lim"
    "e \<in> set (log_of db)" "before c (event_cursor e)"
  shows "e \<in> set es"
proof -
  let ?xs = "filter (\<lambda>e. before c (event_cursor e)) (log_of db)"
  from assms(1,2) have es: "es = limit_rows lim ?xs" using tail_log by fastforce
  with assms(3) have "es = ?xs" by (auto simp: limit_rows_def split: if_splits)
  with assms(4,5) show ?thesis by simp
qed

lemma drain_unfold_full:
  assumes "tail (dbs k) (tl_cursor t) (cfg_batch_limit cfg) = Inr es" "\<not> int (length es) < cfg_batch_limit cfg"
  shows "drain cfg dbs n k t = drain cfg dbs n (Suc k) (deliver cfg n es t)"
  using assms by (subst drain.simps) simp

lemma drain_unfold_last:
  assumes "tail (dbs k) (tl_cursor t) (cfg_batch_limit cfg) = Inr es" "int (length es) < cfg_batch_limit cfg"
  shows "drain cfg dbs n k t = Some (Suc k, deliver cfg n es t, None)"
  using assms by (subst drain.simps) simp

lemma drain_ends:
  assumes wf: "\<And>k. wf_events json (dbs k)" and lim: "0 < cfg_batch_limit cfg"
    and quiet: "\<And>k. K \<le> k \<Longrightarrow> log_of (dbs k) = log_of (dbs K)"
  shows "\<exists>k' t'. drain cfg dbs n k t = Some (Suc k', t', None) \<and> k \<le> k' \<and>
    (\<forall>e \<in> set (log_of (dbs k')). \<not> before (tl_cursor t') (event_cursor e))"
proof (induction "K - k + remaining (dbs K) (tl_cursor t)" arbitrary: k t rule: less_induct)
  case less
  obtain es where es: "tail (dbs k) (tl_cursor t) (cfg_batch_limit cfg) = Inr es"
    using tail_log [OF wf] by blast
  let ?t = "deliver cfg n es t"
  show ?case
  proof (cases "int (length es) < cfg_batch_limit cfg")
    case True
    have "\<not> before (tl_cursor ?t) (event_cursor e)" if e: "e \<in> set (log_of (dbs k))" for e
    proof (cases "before (tl_cursor t) (event_cursor e)")
      case b: True
      from tail_complete [OF wf es True e b] deliver_cursor show ?thesis by blast
    next
      case False
      with deliver_cursor [of cfg n es t] before_later show ?thesis by blast
    qed
    with drain_unfold_last [of dbs k, OF es True] show ?thesis by auto
  next
    case False
    with lim obtain e where e: "e \<in> set es" by (cases es) auto
    have cur: "\<not> before (tl_cursor ?t) (tl_cursor t)" "\<not> before (tl_cursor ?t) (event_cursor e)"
      using deliver_cursor [of cfg n es t] e by blast+
    have "e \<in> set (log_of (dbs k)) \<and> before (tl_cursor t) (event_cursor e)"
      using e es tail_log [OF wf, of k "tl_cursor t" "cfg_batch_limit cfg"]
      by (auto dest!: set_limit_rows [THEN subsetD])
    then have "K - Suc k + remaining (dbs K) (tl_cursor ?t) < K - k + remaining (dbs K) (tl_cursor t)"
      using remaining_antimono [OF cur(1), of "dbs K"]
        remaining_shrinks [OF cur(1) _ _ cur(2), of "dbs K"] quiet [of k]
      by (cases "k < K") auto
    from less [OF this] obtain k' t' where
      "drain cfg dbs n (Suc k) ?t = Some (Suc k', t', None)" "Suc k \<le> k'"
      "\<forall>e \<in> set (log_of (dbs k')). \<not> before (tl_cursor t') (event_cursor e)" by blast
    with drain_unfold_full [of dbs k, OF es False] show ?thesis by auto
  qed
qed

text \<open>
  C18: The drain loop ends. Whatever the writers do in between, once the log the queries see stops
  growing the loop returns without an error, and its cursor is then at or past every event of the
  last state it read: a full batch always moves, however many events share a batch or a timestamp.
\<close>

theorem drain_returns:
  assumes "\<And>k. wf_events json (dbs k)" "0 < cfg_batch_limit cfg"
    and "\<And>k. K \<le> k \<Longrightarrow> log_of (dbs k) = log_of (dbs K)"
  shows "\<exists>k' t'. drain cfg dbs n k t = Some (Suc k', t', None) \<and> k \<le> k' \<and>
    (\<forall>e \<in> set (log_of (dbs k')). \<not> before (tl_cursor t') (event_cursor e))"
  using assms by (rule drain_ends)

section \<open>A cycle delivers everything\<close>

definition grows :: "tailer \<Rightarrow> tailer \<Rightarrow> bool" where
  "grows t t' \<longleftrightarrow>
     (\<exists>new. concat (h_log (tl_hub t')) = concat (h_log (tl_hub t)) @ new \<and>
        dom (tl_seen t') = dom (tl_seen t) \<union> ev_id ` set new)"

lemma growsI:
  "concat (h_log (tl_hub t')) = concat (h_log (tl_hub t)) @ new \<Longrightarrow>
   dom (tl_seen t') = dom (tl_seen t) \<union> ev_id ` set new \<Longrightarrow> grows t t'"
  unfolding grows_def by (rule exI [of _ new]) (rule conjI)

lemma grows_seen: "grows t t' \<Longrightarrow> dom (tl_seen t) \<subseteq> dom (tl_seen t')"
  unfolding grows_def by (elim exE conjE) simp

lemma grows_trans:
  assumes "grows a b" "grows b c"
  shows "grows a c"
proof -
  obtain m where m: "concat (h_log (tl_hub b)) = concat (h_log (tl_hub a)) @ m"
    "dom (tl_seen b) = dom (tl_seen a) \<union> ev_id ` set m"
    using assms(1) unfolding grows_def by (elim exE conjE)
  obtain n where n: "concat (h_log (tl_hub c)) = concat (h_log (tl_hub b)) @ n"
    "dom (tl_seen c) = dom (tl_seen b) \<union> ev_id ` set n"
    using assms(2) unfolding grows_def by (elim exE conjE)
  show ?thesis
    by (rule growsI [of _ _ "m @ n"]) (simp_all only: m n set_append image_Un Un_assoc append_assoc)
qed

lemma deliver_grows:
  "grows t (deliver cfg n es t) \<and> ev_id ` set es \<subseteq> dom (tl_seen (deliver cfg n es t))"
proof -
  obtain c m fresh where d: "deliver_each (tl_cursor t) (tl_seen t) es = (c, m, fresh)"
    "tl_seen (deliver cfg n es t) = m"
    "concat (h_log (tl_hub (deliver cfg n es t))) = concat (h_log (tl_hub t)) @ fresh"
    by (rule deliver_cases [of t es cfg n])
  have s: "dom m = dom (tl_seen t) \<union> ev_id ` set es" "ev_id ` set fresh = ev_id ` set es - dom (tl_seen t)"
    using deliver_each_seen [OF d(1)] by simp_all
  show ?thesis
    using growsI [OF d(3)] by (simp add: d(2) s)
qed

lemma log_of_keys:
  assumes "wf_events json db"
  shows "map (cursor_key \<circ> event_cursor) (log_of db) = map row_key (sort_key row_key (events db))"
proof -
  have "cursor_key (event_cursor (projr (scan_event r))) = row_key r" if "r \<in> set (events db)" for r
  proof -
    from that assms have "event_checks json r" by (simp add: wf_events_def)
    then obtain e where "scan_event r = Inr e" by (metis event_checks_scan)
    with scan_position [OF this] show ?thesis by simp
  qed
  then show ?thesis by (simp add: log_of_def)
qed

lemma log_of_sorted: "wf_events json db \<Longrightarrow> sorted_wrt (\<lambda>a b. before (event_cursor a) (event_cursor b)) (log_of db)"
proof -
  assume wf: "wf_events json db"
  have "inj_on row_key (set (events db))"
    using wf_events_distinct [OF wf] by (auto simp: inj_on_def row_key_def distinct_map)
  moreover have "distinct (events db)" using wf_events_distinct [OF wf] by (simp add: distinct_map)
  ultimately have "distinct (map row_key (sort_key row_key (events db)))" by (simp add: distinct_map)
  then have "sorted_wrt (<) (map (cursor_key \<circ> event_cursor) (log_of db))"
    unfolding log_of_keys [OF wf] by (simp add: strict_sorted_iff)
  then show ?thesis by (simp add: sorted_wrt_map before_key)
qed

lemma tail_prefix:
  assumes wf: "wf_events json db" and es: "tail db c lim = Inr es" and e: "e \<in> set (log_of db)"
    "before c (event_cursor e)" and x: "x \<in> set es"
  shows "e \<in> set es \<or> before (event_cursor x) (event_cursor e)"
proof -
  let ?xs = "filter (\<lambda>e. before c (event_cursor e)) (log_of db)"
  have "sorted_wrt (\<lambda>a b. before (event_cursor a) (event_cursor b)) ?xs"
    by (rule sorted_wrt_filter [OF log_of_sorted [OF wf]])
  moreover obtain ys where "?xs = es @ ys"
    using es tail_log [OF wf, of c lim] by (metis append_take_drop_id append_Nil2 limit_rows_def sum.inject(2))
  moreover from e have "e \<in> set ?xs" by simp
  ultimately show ?thesis using x by (auto simp: sorted_wrt_append)
qed

lemma drain_covers:
  assumes "drain cfg dbs n k t = Some r" "dbs = (\<lambda>_. db)" "wf_events json db" "snd (snd r) = None"
  shows "grows t (fst (snd r)) \<and>
    (\<forall>e \<in> set (log_of db). before (tl_cursor t) (event_cursor e) \<longrightarrow> ev_id e \<in> dom (tl_seen (fst (snd r))))"
  using assms
proof (induction cfg dbs n k t r rule: drain_induct)
  case (step drn cfg dbs n k t r)
  obtain es where es: "tail db (tl_cursor t) (cfg_batch_limit cfg) = Inr es"
    using tail_log [OF step(4)] by blast
  let ?t = "deliver cfg n es t"
  note g = deliver_grows [of t cfg n es]
  show ?case
  proof (cases "int (length es) < cfg_batch_limit cfg")
    case True
    with step(2,3) es have r: "r = (Suc k, ?t, None)" by simp
    have "ev_id e \<in> dom (tl_seen ?t)"
      if "e \<in> set (log_of db)" "before (tl_cursor t) (event_cursor e)" for e
      using g tail_complete [OF step(4) es True that] by blast
    with g show ?thesis by (simp add: r)
  next
    case False
    with step(2,3) es have d: "drn cfg dbs n (Suc k) ?t = Some r" by simp
    note ih = step(1) [OF d step(3,4,5)]
    have "ev_id e \<in> dom (tl_seen (fst (snd r)))"
      if e: "e \<in> set (log_of db)" "before (tl_cursor t) (event_cursor e)" for e
    proof (cases "e \<in> set es")
      case True
      then have "ev_id e \<in> dom (tl_seen ?t)" using g by blast
      with ih grows_seen show ?thesis by blast
    next
      case False
      have "before (tl_cursor ?t) (event_cursor e)"
        using deliver_cursor [of cfg n es t] tail_prefix [OF step(4) es e] False e(2) by metis
      with ih e(1) show ?thesis by blast
    qed
    moreover have "grows t (fst (snd r))" using g ih grows_trans by blast
    ultimately show ?thesis by blast
  qed
qed

lemma length_filter_conj: "length (filter (\<lambda>x. P x \<and> Q x) xs) \<le> length (filter P xs)"
  by (induction xs) auto

lemma sweep_covers:
  assumes wf: "wf_events json db" and at: "cu_at (tl_cursor t) = Some at"
    and e: "e \<in> set (log_of db)" "\<not> before (tl_cursor t) (event_cursor e)"
      "at - cfg_overlap cfg \<le> at_or_epoch (event_cursor e)"
    and room: "int (length (filter (\<lambda>e. at - cfg_overlap cfg \<le> at_or_epoch (event_cursor e)) (log_of db)))
      \<le> cfg_batch_limit cfg * sweep_factor"
  shows "ev_id e \<in> dom (tl_seen (fst (sweep cfg db n t)))"
proof -
  let ?lim = "cfg_batch_limit cfg * sweep_factor"
  let ?P = "\<lambda>e. at - cfg_overlap cfg \<le> at_or_epoch (event_cursor e) \<and> \<not> before (tl_cursor t) (event_cursor e)"
  have nz: "\<not> is_zero (tl_cursor t)" using at by (simp add: is_zero_def)
  have "length (filter ?P (log_of db)) \<le> length (filter (\<lambda>e. at - cfg_overlap cfg \<le> at_or_epoch (event_cursor e)) (log_of db))"
    by (rule length_filter_conj)
  with room have "limit_rows ?lim (filter ?P (log_of db)) = filter ?P (log_of db)"
    by (simp add: limit_rows_def)
  then have q: "tail_window db (at - cfg_overlap cfg) (tl_cursor t) ?lim = Inr (filter ?P (log_of db))"
    using tail_window_log [OF wf] by simp
  have "ev_id e \<in> ev_id ` set (filter ?P (log_of db))" using e by auto
  with deliver_grows [of t cfg n "filter ?P (log_of db)"] show ?thesis
    by (auto simp: sweep_def at nz q)
qed

lemma deliver_each_behind:
  "\<forall>e \<in> set es. \<not> before c (event_cursor e) \<Longrightarrow> fst (deliver_each c m es) = c"
  by (induction c m es rule: deliver_each.induct) (auto simp: Let_def split: prod.splits)

lemma sweep_grows:
  assumes "wf_events json db"
  shows "\<exists>t'. sweep cfg db n t = (t', None) \<and> grows t t' \<and> tl_cursor t' = tl_cursor t"
proof (cases "cu_at (tl_cursor t)")
  case None
  then show ?thesis by (simp add: sweep_def grows_def)
next
  case (Some at)
  then have nz: "\<not> is_zero (tl_cursor t)" by (simp add: is_zero_def)
  obtain late where q: "tail_window db (at - cfg_overlap cfg) (tl_cursor t) (cfg_batch_limit cfg * sweep_factor) = Inr late"
    and "\<forall>e \<in> set late. \<not> before (tl_cursor t) (event_cursor e)"
    using tail_window_log [OF assms, of "at - cfg_overlap cfg" "tl_cursor t" "cfg_batch_limit cfg * sweep_factor"]
      set_limit_rows by fastforce
  then have "fst (deliver_each (tl_cursor t) (tl_seen t) late) = tl_cursor t"
    by (intro deliver_each_behind)
  then have "tl_cursor (deliver cfg n late t) = tl_cursor t"
    using deliver_cases [of t late cfg n] by (metis fst_conv)
  with deliver_grows [of t cfg n late] show ?thesis by (simp add: sweep_def Some nz q)
qed

text \<open>
  C17: One cycle over a log at rest delivers everything and publishes a safe watermark. The cycle
  returns without an error and its cursor is at or past every event; each event after the old cursor,
  and each event that turned up behind the cursor within the overlap (while the window holds no more
  than four batches), has been broadcast or was seen before; and the watermark is behind both the
  cursor and the database clock less the overlap.
\<close>

theorem cycle_delivers_everything:
  assumes wf: "wf_events json db" and lim: "0 < cfg_batch_limit cfg"
  shows "\<exists>t'. cycle cfg (\<lambda>_. db) n t = Some (t', None) \<and>
    (\<forall>e \<in> set (log_of db).
       \<not> before (tl_cursor t') (event_cursor e) \<and>
       (before (tl_cursor t) (event_cursor e) \<longrightarrow>
          ev_id e \<in> dom (tl_seen t) \<union> ev_id ` set (concat (h_log (tl_hub t')))) \<and>
       (\<forall>at. cu_at (tl_cursor t') = Some at \<and> at - cfg_overlap cfg \<le> at_or_epoch (event_cursor e) \<and>
          int (length (filter (\<lambda>e. at - cfg_overlap cfg \<le> at_or_epoch (event_cursor e)) (log_of db)))
            \<le> cfg_batch_limit cfg * sweep_factor \<longrightarrow>
          ev_id e \<in> dom (tl_seen t) \<union> ev_id ` set (concat (h_log (tl_hub t'))))) \<and>
    (\<forall>at. cu_at (tl_cursor t') = Some at \<longrightarrow>
       tl_settled t' \<le> at \<and> tl_settled t' \<le> n - cfg_overlap cfg)"
proof -
  obtain k t1 where d: "drain cfg (\<lambda>_. db) n 0 t = Some (Suc k, t1, None)"
    and done': "\<forall>e \<in> set (log_of db). \<not> before (tl_cursor t1) (event_cursor e)"
    using drain_ends [of json "\<lambda>_. db" cfg 0 n 0 t] wf lim by auto
  have g1: "grows t t1"
    and c1: "\<forall>e \<in> set (log_of db). before (tl_cursor t) (event_cursor e) \<longrightarrow> ev_id e \<in> dom (tl_seen t1)"
    using drain_covers [OF d refl wf] by simp_all
  obtain t2 where s: "sweep cfg db n t1 = (t2, None)" and g2: "grows t1 t2"
    and cur: "tl_cursor t2 = tl_cursor t1"
    using sweep_grows [OF wf] by blast
  let ?t = "prune cfg (update_settled cfg n t2)"
  have cyc: "cycle cfg (\<lambda>_. db) n t = Some (?t, None)" by (simp add: cycle_def d s)
  obtain new where new: "concat (h_log (tl_hub t2)) = concat (h_log (tl_hub t)) @ new"
    "dom (tl_seen t2) = dom (tl_seen t) \<union> ev_id ` set new"
    using grows_trans [OF g1 g2] unfolding grows_def by (elim exE conjE)
  then have sub: "dom (tl_seen t2) \<subseteq> dom (tl_seen t) \<union> ev_id ` set (concat (h_log (tl_hub ?t)))"
    by (simp only: new prune_simps update_settled_simps set_append image_Un) blast
  define X where "X = dom (tl_seen t) \<union> ev_id ` set (concat (h_log (tl_hub ?t)))"
  have ahead: "ev_id e \<in> X" if "e \<in> set (log_of db)" "before (tl_cursor t) (event_cursor e)" for e
    using c1 grows_seen [OF g2] sub that unfolding X_def by blast
  have behind: "ev_id e \<in> X"
    if "e \<in> set (log_of db)" "cu_at (tl_cursor t1) = Some at" "at - cfg_overlap cfg \<le> at_or_epoch (event_cursor e)"
      "int (length (filter (\<lambda>e. at - cfg_overlap cfg \<le> at_or_epoch (event_cursor e)) (log_of db)))
        \<le> cfg_batch_limit cfg * sweep_factor" for e at
    using sweep_covers [OF wf that(2,1) _ that(3,4), of n] done' that(1) s subsetD [OF sub]
    unfolding X_def by simp
  have mark: "tl_settled ?t \<le> at \<and> tl_settled ?t \<le> n - cfg_overlap cfg"
    if "cu_at (tl_cursor t1) = Some at" for at
    using that by (simp add: update_settled_def cur Let_def)
  have cur': "tl_cursor ?t = tl_cursor t1" by (simp add: cur)
  show ?thesis
    by (rule exI [of _ ?t], fold X_def, unfold cur') (use cyc ahead behind mark done' in blast)
qed

section \<open>A bus to evaluate\<close>

definition small_config :: config where
  "small_config = \<lparr>cfg_overlap = 50, cfg_poll_interval = 10, cfg_batch_limit = 1, cfg_listen = True\<rparr>"

definition tailer0 :: tailer where
  "tailer0 = tailer_start event_db0 (fst (subscribe 4 hub_new))"

lemma snapshot_log1: "snapshot Some (\<lambda>i. 99 + i) event_db1"
  unfolding snapshot_def using event_db1_wf by (rule conjI) code_simp

lemma snapshot_log0: "snapshot Some (\<lambda>i. 99 + i) event_db0"
  unfolding snapshot_def using event_db0_wf by (rule conjI) code_simp

theorem drain_returns_witness:
  "\<exists>k' t'. drain small_config (\<lambda>k. if k = 0 then event_db0 else event_db1) 200 0 tailer0 = Some (Suc k', t', None)"
proof -
  let ?dbs = "\<lambda>k :: nat. if k = 0 then event_db0 else event_db1"
  have "wf_events Some (?dbs k)" for k using event_db0_wf event_db1_wf by simp
  moreover have "log_of (?dbs k) = log_of (?dbs 1)" if "1 \<le> k" for k using that by simp
  moreover have "0 < cfg_batch_limit small_config" by code_simp
  ultimately show ?thesis using drain_returns [of Some ?dbs small_config 1 200 0 tailer0] by blast
qed

theorem cycle_delivers_everything_witness:
  "\<exists>t'. cycle small_config (\<lambda>_. event_db1) 200 tailer0 = Some (t', None) \<and>
     {1, 2} \<subseteq> ev_id ` set (concat (h_log (tl_hub t')))"
proof -
  have lim: "0 < cfg_batch_limit small_config" by code_simp
  have none: "dom (tl_seen tailer0) = {}"
    by (simp add: tailer0_def tailer_start_def head_def event_db0_def core_db.extend_def event_db.fields_def)
  have "\<exists>e \<in> set (log_of event_db1). ev_id e = 1 \<and> before (tl_cursor tailer0) (event_cursor e)" by code_simp
  moreover have "\<exists>e \<in> set (log_of event_db1). ev_id e = 2 \<and> before (tl_cursor tailer0) (event_cursor e)" by code_simp
  moreover obtain t' where t': "cycle small_config (\<lambda>_. event_db1) 200 tailer0 = Some (t', None)"
    "\<forall>e \<in> set (log_of event_db1). before (tl_cursor tailer0) (event_cursor e) \<longrightarrow>
       ev_id e \<in> dom (tl_seen tailer0) \<union> ev_id ` set (concat (h_log (tl_hub t')))"
    using cycle_delivers_everything [OF event_db1_wf lim, of 200 tailer0] by blast
  ultimately have "1 \<in> ev_id ` set (concat (h_log (tl_hub t')))" "2 \<in> ev_id ` set (concat (h_log (tl_hub t')))"
    unfolding none by force+
  with t'(1) show ?thesis by blast
qed

text \<open>A subscriber joins before the first cycle, takes the batch it finds, and has then had both events.\<close>

theorem no_event_is_broadcast_twice_witness:
  "\<exists>(t :: tailer) (ch :: channel). bus_reach Some (\<lambda>i. 99 + i) small_config t \<and> h_chans (tl_hub t) = [ch] \<and> ch_tx ch \<and>
     map ev_id (concat (ch_taken ch @ ch_queue ch)) = [1, 2]"
proof -
  let ?j = "(tailer_start event_db0 hub_new)\<lparr>tl_hub := fst (subscribe 2 (tl_hub (tailer_start event_db0 hub_new)))\<rparr>"
  let ?c = "cycle small_config (\<lambda>_. event_db1) 200 ?j"
  let ?view = "\<lambda>h. (map ev_id (concat (h_log h)), map (\<lambda>ch. (ch_tx ch, ch_from ch)) (h_chans h))"
  have "map_option (\<lambda>(t, x). ?view (tl_hub t)) ?c = Some ([1, 2], [(True, 0)])" by code_simp
  then obtain t x ch where c: "?c = Some (t, x)" and ids: "map ev_id (concat (h_log (tl_hub t))) = [1, 2]"
    and ch: "h_chans (tl_hub t) = [ch]" "ch_tx ch" "ch_from ch = 0" by auto
  let ?t = "t\<lparr>tl_hub := fst (recv 0 (tl_hub t))\<rparr>"
  let ?ch = "fst (recv_channel ch)"
  have "bus_reach Some (\<lambda>i. 99 + i) small_config t"
    by (rule bus_reach.Step [OF bus_reach.Step [OF bus_reach.Start [OF snapshot_log0] bus_step.Join] bus_step.Cycle [OF c]])
       (rule snapshot_log1)
  then have r: "bus_reach Some (\<lambda>i. 99 + i) small_config ?t" by (rule bus_reach.Step [OF _ bus_step.Take])
  have h: "h_chans (tl_hub ?t) = [?ch]" "h_log (tl_hub ?t) = h_log (tl_hub t)" "ch_tx ?ch" "ch_from ?ch = 0"
    using ch by (auto simp: recv_def recv_channel_def split_beta split: list.splits)
  from no_event_is_broadcast_twice [OF r] have "ch_taken ?ch @ ch_queue ?ch = h_log (tl_hub t)"
    using h by (simp add: Let_def)
  with ids have i: "map ev_id (concat (ch_taken ?ch @ ch_queue ?ch)) = [1, 2]" by simp
  show ?thesis by (intro exI [of _ ?t] exI [of _ ?ch] conjI r h(1) h(3) i)
qed

end
