(* ===== verification/Hive_Sse.thy ===== *)
theory Hive_Sse
  imports Hive_Prelude
begin

text \<open>
  Server-Sent Events frames (\<open>crates/hive-sse/src/lib.rs\<close>): the sanitising of a field that must stay on
  one line, the normalising of a body that may span lines, the five frames and the writer that sends
  them. The reading side is the format's own rule, stated independently of the writer: lines end at
  CR, LF or CRLF, a blank line ends a block, a line is a field name, a colon and a value with one
  leading space removed, and a line that starts with a colon is a comment.
\<close>

section \<open>Frames\<close>

abbreviation (input) LF :: char where "LF \<equiv> CHR 0x0A"
abbreviation (input) CR :: char where "CR \<equiv> CHR 0x0D"
abbreviation (input) NUL :: char where "NUL \<equiv> CHR 0x00"
abbreviation (input) QUOTE :: char where "QUOTE \<equiv> CHR 0x22"

definition frame_safe :: "string \<Rightarrow> string" where
  "frame_safe s = filter (\<lambda>c. c \<noteq> CR \<and> c \<noteq> LF \<and> c \<noteq> NUL) s"

fun replace_crlf :: "string \<Rightarrow> string" where
  "replace_crlf (c # d # cs) =
     (if c = CR \<and> d = LF then LF # replace_crlf cs else c # replace_crlf (d # cs))"
| "replace_crlf cs = cs"

definition line_endings :: "string \<Rightarrow> string" where
  "line_endings s = map (\<lambda>c. if c = CR then LF else c) (replace_crlf s)"

definition data_line :: "string \<Rightarrow> string" where
  "data_line l = ''data: '' @ filter (\<lambda>c. c \<noteq> NUL) l @ [LF]"

definition event_frame :: "string \<Rightarrow> string \<Rightarrow> string \<Rightarrow> string" where
  "event_frame kind cursor data =
     (if kind \<noteq> [] then ''event: '' @ frame_safe kind @ [LF] else [])
   @ (if cursor \<noteq> [] then ''id: '' @ frame_safe cursor @ [LF] else [])
   @ concat (map data_line (split_on LF (line_endings data)))
   @ [LF]"

definition retry_frame :: "nat \<Rightarrow> string" where
  "retry_frame ms = ''retry: '' @ show_nat ms @ [LF, LF]"

definition comment_frame :: "string \<Rightarrow> string" where
  "comment_frame text = '': '' @ frame_safe text @ [LF, LF]"

definition checkpoint_frame :: "string \<Rightarrow> string" where
  "checkpoint_frame cursor = ''id: '' @ frame_safe cursor @ [LF, LF]"

definition resync_frame :: "string \<Rightarrow> string" where
  "resync_frame from =
     ''event: resync'' @ [LF] @ ''data: {'' @ [QUOTE] @ ''from'' @ [QUOTE, CHR '':'', QUOTE]
     @ frame_safe from @ [QUOTE, CHR ''}'', LF, LF]"

section \<open>The writer\<close>

text \<open>
  The sending half of a bounded channel: \<open>w_sent\<close> is what went in, \<open>w_open\<close> whether the body still
  reads. A send on an open channel either finds room within the timeout or does not, which is the
  argument \<open>room\<close> of each write.
\<close>

datatype write_error = Closed | TimedOut

record writer =
  w_open :: bool
  w_sent :: "string list"

definition write_bytes :: "bool \<Rightarrow> string \<Rightarrow> writer \<Rightarrow> writer \<times> (write_error + unit)" where
  "write_bytes room b w =
     (if \<not> w_open w then (w, Inl Closed)
      else if room then (w\<lparr>w_sent := w_sent w @ [b]\<rparr>, Inr ())
      else (w, Inl TimedOut))"

datatype frame =
    EventFrame string string string | RetryFrame nat | CommentFrame string
  | CheckpointFrame string | ResyncFrame string

fun render :: "frame \<Rightarrow> string" where
  "render (EventFrame kind cursor data) = event_frame kind cursor data"
| "render (RetryFrame ms) = retry_frame ms"
| "render (CommentFrame text) = comment_frame text"
| "render (CheckpointFrame cursor) = checkpoint_frame cursor"
| "render (ResyncFrame from) = resync_frame from"

definition send_frame :: "bool \<Rightarrow> frame \<Rightarrow> writer \<Rightarrow> writer \<times> (write_error + unit)" where
  "send_frame room f w = write_bytes room (render f) w"

section \<open>What a client reads\<close>

definition skip_lf :: "string \<Rightarrow> string" where
  "skip_lf s = (case s of [] \<Rightarrow> [] | d # ds \<Rightarrow> if d = LF then ds else s)"

lemma length_skip_lf [termination_simp]: "length (skip_lf s) < Suc (length s)"
  by (auto simp: skip_lf_def split: list.splits)

fun sse_lines :: "string \<Rightarrow> string list" where
  "sse_lines [] = [[]]"
| "sse_lines (c # cs) =
     (if c = CR then [] # sse_lines (skip_lf cs)
      else if c = LF then [] # sse_lines cs
      else (case sse_lines cs of [] \<Rightarrow> [[c]] | l # ls \<Rightarrow> (c # l) # ls))"

definition sse_field :: "string \<Rightarrow> string \<times> string" where
  "sse_field l =
     (case split_once (CHR '':'') l of
        None \<Rightarrow> (l, [])
      | Some (n, v) \<Rightarrow> (n, case v of [] \<Rightarrow> [] | c # cs \<Rightarrow> if c = CHR '' '' then cs else v))"

definition is_comment :: "string \<Rightarrow> bool" where
  "is_comment l \<longleftrightarrow> (case l of [] \<Rightarrow> False | c # _ \<Rightarrow> c = CHR '':'')"

fun sse_blocks :: "string list \<Rightarrow> (string \<times> string) list list" where
  "sse_blocks [] = []"
| "sse_blocks (l # ls) =
     (if l = [] then (if ls = [] then [] else [] # sse_blocks ls)
      else (case sse_blocks ls of
              [] \<Rightarrow> if is_comment l then [] else [[sse_field l]]
            | b # bs \<Rightarrow> (if is_comment l then b else sse_field l # b) # bs))"

definition read_stream :: "string \<Rightarrow> (string \<times> string) list list" where
  "read_stream s = sse_blocks (sse_lines s)"

text \<open>The fields each frame is meant to carry.\<close>

fun meant :: "frame \<Rightarrow> (string \<times> string) list" where
  "meant (EventFrame kind cursor data) =
     (if kind \<noteq> [] then [(''event'', frame_safe kind)] else [])
   @ (if cursor \<noteq> [] then [(''id'', frame_safe cursor)] else [])
   @ map (\<lambda>l. (''data'', filter (\<lambda>c. c \<noteq> NUL) l)) (sse_lines data)"
| "meant (RetryFrame ms) = [(''retry'', show_nat ms)]"
| "meant (CommentFrame text) = []"
| "meant (CheckpointFrame cursor) = [(''id'', frame_safe cursor)]"
| "meant (ResyncFrame from) =
     [(''event'', ''resync''),
      (''data'', CHR ''{'' # QUOTE # ''from'' @ [QUOTE, CHR '':'', QUOTE] @ frame_safe from @ [QUOTE, CHR ''}''])]"

section \<open>Lemmas\<close>

definition one_line :: "string \<Rightarrow> bool" where
  "one_line l \<longleftrightarrow> CR \<notin> set l \<and> LF \<notin> set l"

lemma one_line_simps [simp]:
  "one_line []" "one_line (c # l) \<longleftrightarrow> c \<noteq> CR \<and> c \<noteq> LF \<and> one_line l"
  "one_line (l @ m) \<longleftrightarrow> one_line l \<and> one_line m" "one_line (frame_safe s)"
  by (auto simp: one_line_def frame_safe_def)

lemma one_line_filter [simp]: "one_line l \<Longrightarrow> one_line (filter P l)"
  by (auto simp: one_line_def)

lemma digit_one_line: "is_digit c \<Longrightarrow> c \<noteq> CR \<and> c \<noteq> LF"
  by (auto simp: is_digit_def)

lemma one_line_show_nat [simp]: "one_line (show_nat n)"
  unfolding one_line_def using show_nat_digits digit_one_line by blast

lemma sse_lines_nonempty [simp]: "sse_lines s \<noteq> []"
  by (cases s) (auto split: list.splits)

lemma sse_lines_line: "one_line l \<Longrightarrow> sse_lines (l @ LF # s) = l # sse_lines s"
  by (induction l) auto

text \<open>The body's normal form: splitting it at LF gives the lines a client would see.\<close>

lemma split_line_endings: "split_on LF (line_endings s) = sse_lines s"
proof (induction s rule: sse_lines.induct)
  case (2 c cs)
  show ?case
  proof (cases cs)
    case Nil
    with 2 show ?thesis by (simp add: line_endings_def skip_lf_def)
  next
    case (Cons d ds)
    have "CR \<noteq> LF" by simp
    with 2 Cons show ?thesis
      by (cases "c = CR"; cases "d = LF"; cases "c = LF") (simp_all add: line_endings_def skip_lf_def split: list.splits)
  qed
qed (simp add: line_endings_def)

lemma sse_lines_one_line: "l \<in> set (sse_lines s) \<Longrightarrow> one_line l"
proof -
  assume l: "l \<in> set (sse_lines s)"
  have "CR \<notin> set (line_endings s)" by (auto simp: line_endings_def)
  moreover have "set w \<subseteq> set t" if "w \<in> set (split_on d t)" for d w and t :: string
    using that by (induction t arbitrary: w) (fastforce split: list.splits if_splits)+
  ultimately show ?thesis
    using l split_on_no_sep [of l LF "line_endings s"]
    by (auto simp: one_line_def split_line_endings [symmetric])
qed

text \<open>Reading a line of a frame, and the blank line that ends it.\<close>

lemma read_blank: "read_stream (LF # s) = [] # read_stream s"
  by (simp add: read_stream_def)

lemma read_line:
  assumes "one_line l" "l \<noteq> []" "read_stream s = b # bs"
  shows "read_stream (l @ LF # s) = (if is_comment l then b else sse_field l # b) # bs"
  using assms by (simp add: read_stream_def sse_lines_line)

lemma read_field:
  assumes "one_line n" "CHR '':'' \<notin> set n" "n \<noteq> []" "one_line v" "read_stream s = b # bs"
  shows "read_stream (n @ CHR '':'' # CHR '' '' # v @ LF # s) = ((n, v) # b) # bs"
proof -
  let ?l = "n @ CHR '':'' # CHR '' '' # v"
  have "split_once (CHR '':'') ?l = Some (n, CHR '' '' # v)"
    using assms(2) by (simp add: split_once_Some)
  then have "sse_field ?l = (n, v)" by (simp add: sse_field_def)
  moreover have "\<not> is_comment ?l" using assms(2,3) by (cases n) (auto simp: is_comment_def)
  ultimately show ?thesis
    using read_line [of ?l s b bs] assms by simp
qed

lemma read_data_lines:
  assumes "\<forall>l \<in> set ls. one_line l" "read_stream s = b # bs"
  shows "read_stream (concat (map data_line ls) @ s) =
    (map (\<lambda>l. (''data'', filter (\<lambda>c. c \<noteq> NUL) l)) ls @ b) # bs"
  using assms(1)
proof (induction ls)
  case Nil
  then show ?case using assms(2) by simp
next
  case (Cons l ls)
  then show ?case
    using read_field [of "''data''" "filter (\<lambda>c. c \<noteq> NUL) l" "concat (map data_line ls) @ s"]
    by (simp add: data_line_def [of l])
qed

lemma read_render: "read_stream (render f @ s) = meant f # read_stream s"
proof (cases f)
  case (EventFrame kind cursor data)
  let ?d = "concat (map data_line (sse_lines data)) @ LF # s"
  let ?i = "(if cursor \<noteq> [] then ''id: '' @ frame_safe cursor @ [LF] else []) @ ?d"
  have d: "read_stream ?d = map (\<lambda>l. (''data'', filter (\<lambda>c. c \<noteq> NUL) l)) (sse_lines data) # read_stream s"
    using read_data_lines [OF _ read_blank, of "sse_lines data" s] sse_lines_one_line by simp
  then have i: "read_stream ?i =
      ((if cursor \<noteq> [] then [(''id'', frame_safe cursor)] else []) @
       map (\<lambda>l. (''data'', filter (\<lambda>c. c \<noteq> NUL) l)) (sse_lines data)) # read_stream s"
    using read_field [of "''id''" "frame_safe cursor", OF _ _ _ _ d] by simp
  then show ?thesis
    using read_field [of "''event''" "frame_safe kind", OF _ _ _ _ i]
    by (simp add: EventFrame event_frame_def split_line_endings)
next
  case (RetryFrame ms)
  then show ?thesis
    using read_field [of "''retry''" "show_nat ms", OF _ _ _ _ read_blank] by (simp add: retry_frame_def)
next
  case (CommentFrame txt')
  then show ?thesis
    using read_line [of "'': '' @ frame_safe txt'", OF _ _ read_blank]
    by (simp add: comment_frame_def is_comment_def)
next
  case (CheckpointFrame cursor)
  then show ?thesis
    using read_field [of "''id''" "frame_safe cursor", OF _ _ _ _ read_blank] by (simp add: checkpoint_frame_def)
next
  case (ResyncFrame f')
  let ?v = "CHR ''{'' # QUOTE # ''from'' @ [QUOTE, CHR '':'', QUOTE] @ frame_safe f' @ [QUOTE, CHR ''}'']"
  have "read_stream (''data: '' @ ?v @ LF # LF # s) = [(''data'', ?v)] # read_stream s"
    using read_field [of "''data''" ?v, OF _ _ _ _ read_blank] by simp
  from read_field [of "''event''" "''resync''", OF _ _ _ _ this] show ?thesis
    by (simp add: ResyncFrame resync_frame_def)
qed

text \<open>
  C15: No value can forge a field. Whatever kinds, cursors, comments and bodies the frames of a stream
  are made of, CR, LF and NUL included, a client reads back exactly one block per frame with exactly
  the fields that frame was meant to have: an \<open>id\<close> only where a cursor was given, and a body as the
  lines it had.
\<close>

theorem frames_cannot_be_forged: "read_stream (concat (map render fs)) = map meant fs"
proof (induction fs)
  case Nil
  then show ?case by (simp add: read_stream_def)
next
  case (Cons f fs)
  then show ?case by (simp add: read_render)
qed

end
