(* ===== verification/Hive_Stream.thy ===== *)
theory Hive_Stream
  imports Hive_Bus Hive_Sse
begin

text \<open>
  One client's \<open>/events\<close> stream (\<open>crates/hive-bus/src/sse.rs\<close>): the catch-up on connect, the live
  loop with its credential gate, dedupe set and checkpoints, and \<open>emit\<close>, which decides whether an event
  may carry an \<open>id:\<close>. The loop is a step function over what it can wake up to; everything it reads from
  outside is an argument: the result of re-authenticating, the database a batch is filtered against,
  and \<open>env k\<close>, the watermark at the k-th write of the stream and whether that write found room.
\<close>

section \<open>Options\<close>

record sse_options =
  so_retry_hint :: int
  so_keep_alive :: int
  so_max_replay :: int
  so_auth_recheck :: int

definition sse_defaults :: "sse_options \<Rightarrow> sse_options" where
  "sse_defaults o0 =
     (let o1 = (if so_retry_hint o0 = 0 then o0\<lparr>so_retry_hint := 2000000\<rparr> else o0);
          o2 = (if so_keep_alive o1 = 0 then o1\<lparr>so_keep_alive := 15000000\<rparr> else o1);
          o3 = (if so_max_replay o2 \<le> 0 then o2\<lparr>so_max_replay := 2000\<rparr> else o2)
      in if so_auth_recheck o3 = 0 then o3\<lparr>so_auth_recheck := 15000000\<rparr> else o3)"

section \<open>Stream state\<close>

type_synonym environment = "nat \<Rightarrow> time option \<times> bool"

text \<open>The last field is a record for the theorems: the events whose frames were sent.\<close>

record stream =
  ss_writer :: writer
  ss_writes :: nat
  ss_last_safe :: cursor
  ss_sent :: "int \<Rightarrow> time option"
  ss_newest :: "time option"
  ss_confirmed :: time
  ss_written :: "event list"

datatype outcome = Continue | Finished | Failed write_error

definition stream_send :: "environment \<Rightarrow> frame \<Rightarrow> stream \<Rightarrow> stream \<times> outcome" where
  "stream_send env f s =
     (case send_frame (snd (env (ss_writes s))) f (ss_writer s) of
        (w, r) \<Rightarrow> (s\<lparr>ss_writer := w, ss_writes := Suc (ss_writes s)\<rparr>,
                   case r of Inl e \<Rightarrow> Failed e | Inr _ \<Rightarrow> Continue))"

definition record_sent :: "event \<Rightarrow> stream \<Rightarrow> stream" where
  "record_sent e s =
     (let at = at_or_epoch (event_cursor e)
      in s\<lparr>ss_sent := (ss_sent s)(ev_id e \<mapsto> at),
           ss_newest := (case ss_newest s of
                           None \<Rightarrow> Some at
                         | Some n \<Rightarrow> if n < at then Some at else Some n)\<rparr>)"

definition safe_to_checkpoint :: "time option \<Rightarrow> cursor \<Rightarrow> event \<Rightarrow> bool" where
  "safe_to_checkpoint mark last_safe e \<longleftrightarrow>
     (case (mark, ev_created_at e) of
        (Some s, Some at) \<Rightarrow> at \<le> s \<and> before last_safe (event_cursor e)
      | _ \<Rightarrow> False)"

definition emit :: "environment \<Rightarrow> event \<Rightarrow> stream \<Rightarrow> stream \<times> outcome" where
  "emit env e s =
     (let safe = safe_to_checkpoint (fst (env (ss_writes s))) (ss_last_safe s) e;
          c = (if safe then cursor_display (event_cursor e) else [])
      in case stream_send env (EventFrame (ev_kind e) c (ev_body e)) s of
           (s', Continue) \<Rightarrow>
             (s'\<lparr>ss_last_safe := (if safe then event_cursor e else ss_last_safe s'), ss_written := ss_written s' @ [e]\<rparr>, Continue)
         | (s', r) \<Rightarrow> (s', r))"

text \<open>The loops over a replay and over a filtered batch; the second skips what the first delivered.\<close>

fun emit_replay :: "environment \<Rightarrow> event list \<Rightarrow> stream \<Rightarrow> stream \<times> outcome" where
  "emit_replay env [] s = (s, Continue)"
| "emit_replay env (e # es) s =
     (case emit env e (record_sent e s) of
        (s', Continue) \<Rightarrow> emit_replay env es s'
      | (s', r) \<Rightarrow> (s', r))"

fun emit_live :: "environment \<Rightarrow> event list \<Rightarrow> stream \<Rightarrow> stream \<times> outcome" where
  "emit_live env [] s = (s, Continue)"
| "emit_live env (e # es) s =
     (if ss_sent s (ev_id e) \<noteq> None then emit_live env es s
      else (case emit env e (record_sent e s) of
              (s', Continue) \<Rightarrow> emit_live env es s'
            | (s', r) \<Rightarrow> (s', r)))"

section \<open>The credential gate\<close>

text \<open>A reading is the time of the check and what resolving the request again gives.\<close>

type_synonym gate_reading = "time \<times> (store_error + credential)"

definition gate_check :: "sse_options \<Rightarrow> credential \<Rightarrow> gate_reading \<Rightarrow> stream \<Rightarrow> stream \<times> bool" where
  "gate_check opts cred g s =
     (if fst g - ss_confirmed s < so_auth_recheck opts then (s, True)
      else (case snd g of
              Inl _ \<Rightarrow> (s, False)
            | Inr fresh \<Rightarrow>
                if fresh \<noteq> cred then (s, False) else (s\<lparr>ss_confirmed := fst g\<rparr>, True)))"

section \<open>Connecting\<close>

definition settled_floor :: "time option \<Rightarrow> cursor" where
  "settled_floor mark = (case mark of Some s \<Rightarrow> at_time s | None \<Rightarrow> cursor_default)"

text \<open>\<open>polls\<close> are the watermarks read until the deadline.\<close>

definition settled_restart :: "time option \<Rightarrow> time option list \<Rightarrow> cursor option" where
  "settled_restart mark polls =
     (case mark of
        Some s \<Rightarrow> Some (at_time s)
      | None \<Rightarrow> map_option (at_time \<circ> the) (List.find (\<lambda>p. p \<noteq> None) polls))"

definition last_event_id :: "string option \<Rightarrow> string option \<Rightarrow> string" where
  "last_event_id header query =
     (case header of
        Some v \<Rightarrow> if v \<noteq> [] then v else (case query of Some q \<Rightarrow> q | None \<Rightarrow> [])
      | None \<Rightarrow> (case query of Some q \<Rightarrow> q | None \<Rightarrow> []))"

text \<open>The history a connect reads: the database (None when no connection is to be had) and the clock.\<close>

definition catch_up ::
  "config \<Rightarrow> sse_options \<Rightarrow> environment \<Rightarrow> credential \<Rightarrow> cursor \<Rightarrow> event_db option \<Rightarrow> time
   \<Rightarrow> time option list \<Rightarrow> stream \<Rightarrow> stream \<times> outcome" where
  "catch_up cfg opts env cred c dbo now polls s =
     (if is_zero c
      then (s\<lparr>ss_last_safe := settled_floor (fst (env (ss_writes s)))\<rparr>, Continue)
      else (case dbo of
              None \<Rightarrow> (s, Finished)
            | Some db \<Rightarrow>
                (case replay db cred c (at_or_epoch c - cfg_overlap cfg) (so_max_replay opts + 1) now of
                   Inl _ \<Rightarrow> (s, Finished)
                 | Inr es \<Rightarrow>
                     if so_max_replay opts < int (length es)
                     then (case settled_restart (fst (env (ss_writes s))) polls of
                             None \<Rightarrow> (s, Finished)
                           | Some from \<Rightarrow>
                               (case stream_send env (ResyncFrame (cursor_display from)) s of
                                  (s', Continue) \<Rightarrow> (s'\<lparr>ss_last_safe := from\<rparr>, Continue)
                                | (s', r) \<Rightarrow> (s', r)))
                     else emit_replay env es s)))"

definition stream_open ::
  "config \<Rightarrow> sse_options \<Rightarrow> environment \<Rightarrow> credential \<Rightarrow> cursor \<Rightarrow> event_db option \<Rightarrow> time
   \<Rightarrow> time option list \<Rightarrow> writer \<Rightarrow> stream \<times> outcome" where
  "stream_open cfg opts env cred c dbo now polls w =
     (let s0 = \<lparr>ss_writer = w, ss_writes = 0, ss_last_safe = cursor_default, ss_sent = Map.empty,
                ss_newest = None, ss_confirmed = now, ss_written = []\<rparr>
      in case stream_send env (RetryFrame (nat (so_retry_hint opts div 1000))) s0 of
           (s1, Continue) \<Rightarrow> catch_up cfg opts env cred c dbo now polls s1
         | (s1, r) \<Rightarrow> (s1, r))"

section \<open>The live loop\<close>

datatype wakeup =
    GotBatch "event list" gate_reading "event_db option" time
  | HubEnded
  | KeepAlive gate_reading
  | ClientGone

definition live_batch ::
  "config \<Rightarrow> sse_options \<Rightarrow> environment \<Rightarrow> credential \<Rightarrow> event list \<Rightarrow> gate_reading
   \<Rightarrow> event_db option \<Rightarrow> time \<Rightarrow> stream \<Rightarrow> stream \<times> outcome" where
  "live_batch cfg opts env cred batch g dbo now s =
     (case gate_check opts cred g s of
        (s1, False) \<Rightarrow> (s1, Finished)
      | (s1, True) \<Rightarrow>
          (case dbo of
             None \<Rightarrow> (s1, Finished)
           | Some db \<Rightarrow>
               (case emit_live env (visible db cred batch now) s1 of
                  (s2, Continue) \<Rightarrow>
                    (case ss_newest s2 of
                       None \<Rightarrow> (s2, Continue)
                     | Some n \<Rightarrow> (s2\<lparr>ss_sent := prune_seen (ss_sent s2) n (cfg_overlap cfg * 2)\<rparr>, Continue))
                | (s2, r) \<Rightarrow> (s2, r))))"

definition live_keep_alive ::
  "sse_options \<Rightarrow> environment \<Rightarrow> credential \<Rightarrow> gate_reading \<Rightarrow> stream \<Rightarrow> stream \<times> outcome" where
  "live_keep_alive opts env cred g s =
     (case gate_check opts cred g s of
        (s1, False) \<Rightarrow> (s1, Finished)
      | (s1, True) \<Rightarrow>
          (case fst (env (ss_writes s1)) of
             Some t \<Rightarrow>
               if (case cu_at (ss_last_safe s1) of None \<Rightarrow> True | Some a \<Rightarrow> a < t)
               then stream_send env (CheckpointFrame (cursor_display (at_time t)))
                      (s1\<lparr>ss_last_safe := at_time t\<rparr>)
               else stream_send env (CommentFrame ''keepalive'') s1
           | None \<Rightarrow> stream_send env (CommentFrame ''keepalive'') s1))"

fun live_step ::
  "config \<Rightarrow> sse_options \<Rightarrow> environment \<Rightarrow> credential \<Rightarrow> wakeup \<Rightarrow> stream \<Rightarrow> stream \<times> outcome" where
  "live_step cfg opts env cred ClientGone s =
     (s\<lparr>ss_writer := (ss_writer s)\<lparr>w_open := False\<rparr>\<rparr>, Continue)"
| "live_step cfg opts env cred HubEnded s =
     (if \<not> w_open (ss_writer s) then (s, Finished)
      else (case stream_send env (ResyncFrame (cursor_display (ss_last_safe s))) s of
              (s', Continue) \<Rightarrow> (s', Finished)
            | (s', r) \<Rightarrow> (s', r)))"
| "live_step cfg opts env cred (GotBatch batch g dbo now) s =
     (if \<not> w_open (ss_writer s) then (s, Finished) else live_batch cfg opts env cred batch g dbo now s)"
| "live_step cfg opts env cred (KeepAlive g) s =
     (if \<not> w_open (ss_writer s) then (s, Finished) else live_keep_alive opts env cred g s)"

fun live_loop ::
  "config \<Rightarrow> sse_options \<Rightarrow> environment \<Rightarrow> credential \<Rightarrow> wakeup list \<Rightarrow> stream \<Rightarrow> stream \<times> outcome" where
  "live_loop cfg opts env cred [] s = (s, Continue)"
| "live_loop cfg opts env cred (i # is) s =
     (case live_step cfg opts env cred i s of
        (s', Continue) \<Rightarrow> live_loop cfg opts env cred is s'
      | (s', r) \<Rightarrow> (s', r))"

text \<open>The whole request: authenticate, parse and resolve the position, then stream.\<close>

datatype response = Unauthorized | BadRequest | InternalError | Streaming stream outcome

definition serve_events ::
  "config \<Rightarrow> (int \<Rightarrow> time option) \<Rightarrow> sse_options \<Rightarrow> environment \<Rightarrow> store_error + credential
   \<Rightarrow> string option \<Rightarrow> string option \<Rightarrow> event_db option \<Rightarrow> event_db option \<Rightarrow> time \<Rightarrow> time option list
   \<Rightarrow> wakeup list \<Rightarrow> response" where
  "serve_events cfg ts_micros opts0 env auth header query dbr dbo now polls is =
     (let opts = sse_defaults opts0 in
      case auth of
        Inl _ \<Rightarrow> Unauthorized
      | Inr cred \<Rightarrow>
          (case parse_cursor ts_micros (last_event_id header query) of
             Inl _ \<Rightarrow> BadRequest
           | Inr c0 \<Rightarrow>
               (case dbr of
                  None \<Rightarrow> InternalError
                | Some db \<Rightarrow>
                    (case stream_open cfg opts env cred (resolve_cursor db c0) dbo now polls
                            \<lparr>w_open = True, w_sent = []\<rparr> of
                       (s, Continue) \<Rightarrow> (case live_loop cfg opts env cred is s of (s', r) \<Rightarrow> Streaming s' r)
                     | (s, r) \<Rightarrow> Streaming s r))))"

section \<open>What the client's last event id does\<close>

definition frame_ids :: "frame \<Rightarrow> string list" where
  "frame_ids f = map snd (filter (\<lambda>(n, v). n = ''id'') (meant f))"

text \<open>The ids a client reads off the bytes of the stream, in order.\<close>

definition ids_read :: "stream \<Rightarrow> string list" where
  "ids_read s =
     concat (map (\<lambda>b. map snd (filter (\<lambda>(n, v). n = ''id'') b)) (read_stream (concat (w_sent (ss_writer s)))))"

text \<open>A position that was at or behind the watermark of one of the first n writes.\<close>

definition settled_at :: "environment \<Rightarrow> nat \<Rightarrow> cursor \<Rightarrow> bool" where
  "settled_at env n c \<longleftrightarrow>
     cu_at c \<noteq> None \<and> (\<exists>k < n. \<exists>m. fst (env k) = Some m \<and> at_or_epoch c \<le> m)"

lemma settled_at_Suc: "settled_at env n c \<Longrightarrow> settled_at env (Suc n) c"
  unfolding settled_at_def using less_SucI by blast

lemma settled_at_now:
  "cu_at c \<noteq> None \<Longrightarrow> fst (env n) = Some m \<Longrightarrow> at_or_epoch c \<le> m \<Longrightarrow> settled_at env (Suc n) c"
  unfolding settled_at_def by blast

definition ids_ok :: "environment \<Rightarrow> stream \<Rightarrow> cursor list \<Rightarrow> bool" where
  "ids_ok env s cs \<longleftrightarrow>
     (\<exists>fs. w_sent (ss_writer s) = map render fs \<and> concat (map frame_ids fs) = map cursor_display cs)
   \<and> sorted_wrt before cs \<and> (\<forall>c \<in> set cs. c = ss_last_safe s \<or> before c (ss_last_safe s))
   \<and> (cs \<noteq> [] \<longrightarrow> cu_at (ss_last_safe s) \<noteq> None)
   \<and> (\<forall>c \<in> set cs. settled_at env (ss_writes s) c)"

lemma ids_ok_written [simp]: "ids_ok env (s\<lparr>ss_written := es\<rparr>) cs = ids_ok env s cs"
  by (simp add: ids_ok_def ids_read_def)

lemma ids_ok_irrelevant [simp]:
  "ids_ok env (s\<lparr>ss_sent := m\<rparr>) cs = ids_ok env s cs"
  "ids_ok env (s\<lparr>ss_writer := (ss_writer s)\<lparr>w_open := b\<rparr>\<rparr>) cs = ids_ok env s cs"
  by (simp_all add: ids_ok_def)

lemma read_frames: "read_stream (concat (map render fs)) = map meant fs"
  by (induction fs) (simp_all add: read_render, simp add: read_stream_def)

lemma ids_ok_read: "ids_ok env s cs \<Longrightarrow> ids_read s = map cursor_display cs"
  by (auto simp: ids_ok_def ids_read_def read_frames frame_ids_def [abs_def] comp_def)

lemma frame_safe_display [simp]: "frame_safe (cursor_display c) = cursor_display c"
proof -
  have "\<not> is_space x \<and> x \<noteq> NUL" if "x \<in> set (show_int i)" for x i
    using that show_nat_digits [of x] show_int_not_space [OF that]
    by (auto simp: show_int_def is_digit_def split: if_splits)
  then have "x \<noteq> CR \<and> x \<noteq> LF \<and> x \<noteq> NUL" if "x \<in> set (show_int i)" for x i
    using that by (fastforce simp: is_space_def)
  then show ?thesis by (auto simp: frame_safe_def cursor_display_def filter_id_conv)
qed

lemma frame_ids_simps [simp]:
  "frame_ids (EventFrame k c b) = (if c = [] then [] else [frame_safe c])"
  "frame_ids (RetryFrame ms) = []" "frame_ids (CommentFrame x) = []"
  "frame_ids (CheckpointFrame c) = [frame_safe c]" "frame_ids (ResyncFrame x) = []"
  by (auto simp: frame_ids_def filter_map comp_def)

lemma cursor_display_timed [simp]: "cu_at c \<noteq> None \<Longrightarrow> cursor_display c \<noteq> []"
  by (auto simp: cursor_display_def is_zero_def)

lemma stream_send_cases:
  assumes "stream_send env f s = (s', r)"
  obtains (sent) "r = Continue" "s' = s\<lparr>ss_writer := (ss_writer s)\<lparr>w_sent := w_sent (ss_writer s) @ [render f]\<rparr>,
        ss_writes := Suc (ss_writes s)\<rparr>"
  | (failed) e where "r = Failed e" "s' = s\<lparr>ss_writes := Suc (ss_writes s)\<rparr>"
  using assms
  by (auto simp: stream_send_def send_frame_def write_bytes_def split: if_splits)

lemma ids_ok_later: "ids_ok env s cs \<Longrightarrow> ids_ok env (s\<lparr>ss_writes := Suc (ss_writes s)\<rparr>) cs"
  unfolding ids_ok_def by (auto intro: settled_at_Suc)

lemma ids_ok_append:
  assumes ok: "ids_ok env s cs" and ids: "frame_ids f = map cursor_display ds"
    and ds: "ds = [] \<and> l = ss_last_safe s \<or>
      (\<exists>m. ds = [l] \<and> cu_at l \<noteq> None \<and> fst (env (ss_writes s)) = Some m \<and> at_or_epoch l \<le> m \<and>
         (cs = [] \<or> before (ss_last_safe s) l))"
  shows "ids_ok env (s\<lparr>ss_writer := (ss_writer s)\<lparr>w_sent := w_sent (ss_writer s) @ [render f]\<rparr>,
    ss_writes := Suc (ss_writes s), ss_last_safe := l\<rparr>) (cs @ ds)"
proof -
  obtain fs where fs: "w_sent (ss_writer s) = map render fs" "concat (map frame_ids fs) = map cursor_display cs"
    using ok by (auto simp: ids_ok_def)
  have "w_sent (ss_writer s) @ [render f] = map render (fs @ [f]) \<and>
      concat (map frame_ids (fs @ [f])) = map cursor_display (cs @ ds)"
    using fs ids by simp
  then have "\<exists>fs'. w_sent (ss_writer s) @ [render f] = map render fs' \<and>
      concat (map frame_ids fs') = map cursor_display (cs @ ds)" by blast
  moreover have "before c l" if "c \<in> set cs" "before (ss_last_safe s) l" for c
  proof -
    from ok that(1) have "c = ss_last_safe s \<or> before c (ss_last_safe s)" by (simp add: ids_ok_def)
    with that(2) before_trans show ?thesis by blast
  qed
  with ok ds have "sorted_wrt before (cs @ ds)" "\<forall>c \<in> set (cs @ ds). c = l \<or> before c l"
      "cs @ ds \<noteq> [] \<longrightarrow> cu_at l \<noteq> None"
    by (auto simp: ids_ok_def sorted_wrt_append)
  moreover have "\<forall>c \<in> set (cs @ ds). settled_at env (Suc (ss_writes s)) c"
    using ok ds by (auto simp: ids_ok_def intro: settled_at_Suc settled_at_now)
  ultimately show ?thesis unfolding ids_ok_def by simp
qed

text \<open>Every write of the stream keeps the list of ids it has given out in order and settled.\<close>

lemma emit_ids:
  assumes ok: "ids_ok env s cs" and e: "emit env e s = (s', r)"
  shows "\<exists>cs'. ids_ok env s' cs'"
proof -
  let ?safe = "safe_to_checkpoint (fst (env (ss_writes s))) (ss_last_safe s) e"
  let ?f = "EventFrame (ev_kind e) (if ?safe then cursor_display (event_cursor e) else []) (ev_body e)"
  obtain s1 r1 where snd: "stream_send env ?f s = (s1, r1)" by fastforce
  from snd show ?thesis
  proof (cases rule: stream_send_cases)
    case sent
    show ?thesis
    proof (cases ?safe)
      case True
      then obtain m where m: "fst (env (ss_writes s)) = Some m" "at_or_epoch (event_cursor e) \<le> m"
        "before (ss_last_safe s) (event_cursor e)" "cu_at (event_cursor e) \<noteq> None"
        by (auto simp: safe_to_checkpoint_def event_cursor_def at_or_epoch_def split: option.splits)
      with True have "frame_ids ?f = map cursor_display [event_cursor e]" by simp
      from ids_ok_append [OF ok this, of "event_cursor e"] m e snd sent True show ?thesis
        by (auto simp: emit_def Let_def)
    next
      case False
      then have "frame_ids ?f = map cursor_display []" by simp
      from ids_ok_append [OF ok this, of "ss_last_safe s"] e snd sent False show ?thesis
        by (auto simp: emit_def Let_def)
    qed
  next
    case (failed x)
    with e snd ids_ok_later [OF ok] show ?thesis by (auto simp: emit_def Let_def)
  qed
qed

lemma record_sent_ids [simp]: "ids_ok env (record_sent e s) cs \<longleftrightarrow> ids_ok env s cs"
  by (simp add: ids_ok_def record_sent_def Let_def)

lemma emit_replay_ids: "ids_ok env s cs \<Longrightarrow> emit_replay env es s = (s', r) \<Longrightarrow> \<exists>cs'. ids_ok env s' cs'"
proof (induction es arbitrary: s cs)
  case (Cons e es)
  obtain s1 r1 where e: "emit env e (record_sent e s) = (s1, r1)" by fastforce
  with Cons.prems(1) obtain cs1 where "ids_ok env s1 cs1" using emit_ids record_sent_ids by blast
  with Cons.IH Cons.prems(2) e show ?case by (cases r1) auto
qed auto

lemma emit_live_ids: "ids_ok env s cs \<Longrightarrow> emit_live env es s = (s', r) \<Longrightarrow> \<exists>cs'. ids_ok env s' cs'"
proof (induction es arbitrary: s cs)
  case (Cons e es)
  show ?case
  proof (cases "ss_sent s (ev_id e)")
    case None
    obtain s1 r1 where e: "emit env e (record_sent e s) = (s1, r1)" by fastforce
    with Cons.prems(1) obtain cs1 where "ids_ok env s1 cs1" using emit_ids record_sent_ids by blast
    with Cons.IH Cons.prems(2) e None show ?thesis by (cases r1) auto
  qed (use Cons in auto)
qed auto

lemma plain_send_ids:
  assumes ok: "ids_ok env s cs" and f: "frame_ids f = []" and s: "stream_send env f s = (s', r)"
  shows "ids_ok env s' cs"
  using s
proof (cases rule: stream_send_cases)
  case sent
  from ids_ok_append [OF ok, of f "[]" "ss_last_safe s"] f sent show ?thesis by simp
next
  case failed
  with ids_ok_later [OF ok] show ?thesis by simp
qed

lemma gate_check_ids [simp]: "ids_ok env (fst (gate_check opts cred g s)) cs \<longleftrightarrow> ids_ok env s cs"
  by (auto simp: gate_check_def ids_ok_def split: sum.splits)

lemma checkpoint_ids:
  assumes ok: "ids_ok env s cs" and m: "fst (env (ss_writes s)) = Some t"
    "case cu_at (ss_last_safe s) of None \<Rightarrow> True | Some a \<Rightarrow> a < t"
    and s: "stream_send env (CheckpointFrame (cursor_display (at_time t))) (s\<lparr>ss_last_safe := at_time t\<rparr>) = (s', r)"
  shows "\<exists>cs'. ids_ok env s' cs'"
proof -
  have b: "cs = [] \<or> before (ss_last_safe s) (at_time t)"
    using ok m(2) by (auto simp: ids_ok_def before_key at_or_epoch_def split: option.splits)
  from s show ?thesis
  proof (cases rule: stream_send_cases)
    case sent
    have "frame_ids (CheckpointFrame (cursor_display (at_time t))) = map cursor_display [at_time t]" by simp
    from ids_ok_append [OF ok this, of "at_time t"] m b sent show ?thesis by (cases s) auto
  next
    case failed
    have "ids_ok env (s\<lparr>ss_last_safe := at_time t\<rparr>) cs"
      using ok b by (auto simp: ids_ok_def dest: before_trans)
    from ids_ok_later [OF this] failed show ?thesis by auto
  qed
qed

lemma gate_check_split:
  obtains s1 b where "gate_check opts cred g s = (s1, b)" "\<And>cs. ids_ok env s1 cs = ids_ok env s cs"
  using gate_check_ids [of env opts cred g s] by (cases "gate_check opts cred g s") auto

lemma live_batch_ids:
  assumes ok: "ids_ok env s cs" and l: "live_batch cfg opts env cred b g dbo now s = (s', r)"
  shows "\<exists>cs'. ids_ok env s' cs'"
proof -
  obtain s1 p where g: "gate_check opts cred g s = (s1, p)" "\<And>cs. ids_ok env s1 cs = ids_ok env s cs"
    using gate_check_split by blast
  show ?thesis
  proof (cases "p \<and> dbo \<noteq> None")
    case False
    then have "s' = s1" using l g(1) by (cases p; cases dbo) (auto simp: live_batch_def)
    with g(2) ok show ?thesis by blast
  next
    case True
    then obtain db where db: "dbo = Some db" "p" by auto
    obtain s2 r2 where e: "emit_live env (visible db cred b now) s1 = (s2, r2)" by fastforce
    with emit_live_ids [OF _ e] g(2) ok obtain cs2 where ok2: "ids_ok env s2 cs2" by blast
    have "\<exists>m. s' = s2\<lparr>ss_sent := m\<rparr>"
      using l g(1) db e
      by (cases r2; cases "ss_newest s2") (auto simp: live_batch_def intro: exI [of _ "ss_sent s2"])
    with ok2 show ?thesis by auto
  qed
qed

lemma live_keep_alive_ids:
  assumes ok: "ids_ok env s cs" and l: "live_keep_alive opts env cred g s = (s', r)"
  shows "\<exists>cs'. ids_ok env s' cs'"
proof -
  obtain s1 p where g: "gate_check opts cred g s = (s1, p)" "\<And>cs. ids_ok env s1 cs = ids_ok env s cs"
    using gate_check_split by blast
  have ok1: "ids_ok env s1 cs" using ok g(2) by blast
  consider (stop) "\<not> p" | (comment) "p" "stream_send env (CommentFrame ''keepalive'') s1 = (s', r)"
    | (mark) t where "p" "fst (env (ss_writes s1)) = Some t"
        "case cu_at (ss_last_safe s1) of None \<Rightarrow> True | Some a \<Rightarrow> a < t"
        "stream_send env (CheckpointFrame (cursor_display (at_time t))) (s1\<lparr>ss_last_safe := at_time t\<rparr>) = (s', r)"
    using l g(1) by (cases p; cases "fst (env (ss_writes s1))") (auto simp: live_keep_alive_def split: if_splits)
  then show ?thesis
  proof cases
    case stop
    with l g(1) have "s' = s1" by (auto simp: live_keep_alive_def)
    with ok1 show ?thesis by blast
  next
    case comment
    from plain_send_ids [OF ok1 _ comment(2)] show ?thesis by auto
  next
    case mark
    from checkpoint_ids [OF ok1 mark(2-4)] show ?thesis .
  qed
qed

lemma live_step_ids:
  assumes "ids_ok env s cs" "live_step cfg opts env cred i s = (s', r)"
  shows "\<exists>cs'. ids_ok env s' cs'"
proof (cases i)
  case (GotBatch b g dbo now)
  with assms live_batch_ids show ?thesis by (auto split: if_splits)
next
  case HubEnded
  obtain s1 r1 where s: "stream_send env (ResyncFrame (cursor_display (ss_last_safe s))) s = (s1, r1)" by fastforce
  from plain_send_ids [OF assms(1) _ this] have "ids_ok env s1 cs" by simp
  with assms HubEnded s show ?thesis by (cases r1) (auto split: if_splits)
next
  case (KeepAlive g)
  with assms live_keep_alive_ids show ?thesis by (auto split: if_splits)
next
  case ClientGone
  with assms show ?thesis by auto
qed

lemma live_loop_ids:
  "ids_ok env s cs \<Longrightarrow> live_loop cfg opts env cred is s = (s', r) \<Longrightarrow> \<exists>cs'. ids_ok env s' cs'"
proof (induction "is" arbitrary: s cs)
  case (Cons i "is")
  obtain s1 r1 where e: "live_step cfg opts env cred i s = (s1, r1)" by fastforce
  with Cons.prems(1) obtain cs1 where "ids_ok env s1 cs1" using live_step_ids by blast
  with Cons.IH Cons.prems(2) e show ?case by (cases r1) auto
qed auto

lemma ids_ok_start: "ids_ok env s [] \<Longrightarrow> ids_ok env (s\<lparr>ss_last_safe := c\<rparr>) []"
  by (simp add: ids_ok_def)

lemma catch_up_ids:
  assumes ok: "ids_ok env s []" and c: "catch_up cfg opts env cred c dbo now polls s = (s', r)"
  shows "\<exists>cs'. ids_ok env s' cs'"
proof (cases "is_zero c \<or> dbo = None")
  case True
  with c ok show ?thesis
    using ids_ok_start [OF ok] by (auto simp: catch_up_def split: if_splits)
next
  case False
  then obtain db where db: "dbo = Some db" "\<not> is_zero c" by auto
  show ?thesis
  proof (cases "replay db cred c (at_or_epoch c - cfg_overlap cfg) (so_max_replay opts + 1) now")
    case (Inl x)
    with c db ok show ?thesis by (auto simp: catch_up_def)
  next
    case es: (Inr es)
    show ?thesis
    proof (cases "so_max_replay opts < int (length es)")
      case False
      with c db es emit_replay_ids [OF ok] show ?thesis by (simp add: catch_up_def)
    next
      case long: True
      show ?thesis
      proof (cases "settled_restart (fst (env (ss_writes s))) polls")
        case None
        with c db es long ok show ?thesis by (auto simp: catch_up_def)
      next
        case (Some f)
        obtain s1 r1 where s: "stream_send env (ResyncFrame (cursor_display f)) s = (s1, r1)" by fastforce
        from plain_send_ids [OF ok _ s] have "ids_ok env s1 []" by simp
        with c db es long Some s ids_ok_start show ?thesis by (cases r1) (auto simp: catch_up_def)
      qed
    qed
  qed
qed

lemma stream_open_ids:
  assumes "stream_open cfg opts env cred c dbo now polls \<lparr>w_open = True, w_sent = []\<rparr> = (s, r)"
  shows "\<exists>cs. ids_ok env s cs"
proof -
  let ?s0 = "\<lparr>ss_writer = \<lparr>w_open = True, w_sent = []\<rparr>, ss_writes = 0, ss_last_safe = cursor_default,
    ss_sent = Map.empty, ss_newest = None, ss_confirmed = now, ss_written = []\<rparr>"
  have "ids_ok env ?s0 []" by (simp add: ids_ok_def)
  moreover obtain s1 r1 where s: "stream_send env (RetryFrame (nat (so_retry_hint opts div 1000))) ?s0 = (s1, r1)"
    by fastforce
  ultimately have "ids_ok env s1 []" using plain_send_ids [OF _ _ s] by simp
  with assms s catch_up_ids show ?thesis by (cases r1) (auto simp: stream_open_def)
qed

lemma serve_events_streaming:
  assumes "serve_events cfg ts_micros opts env auth header query dbr dbo now polls is = Streaming s r"
  obtains cred db c0 s1 r1 where "auth = Inr cred" "dbr = Some db"
    "parse_cursor ts_micros (last_event_id header query) = Inr c0"
    "stream_open cfg (sse_defaults opts) env cred (resolve_cursor db c0) dbo now polls
       \<lparr>w_open = True, w_sent = []\<rparr> = (s1, r1)"
    "(r1 = Continue \<and> live_loop cfg (sse_defaults opts) env cred is s1 = (s, r)) \<or>
     (r1 \<noteq> Continue \<and> s = s1 \<and> r = r1)"
proof -
  obtain cred where c: "auth = Inr cred" using assms by (cases auth) (auto simp: serve_events_def)
  obtain db where d: "dbr = Some db"
    using assms c by (cases dbr) (auto simp: serve_events_def Let_def split: sum.splits)
  obtain c0 where p: "parse_cursor ts_micros (last_event_id header query) = Inr c0"
    using assms c by (auto simp: serve_events_def Let_def split: sum.splits)
  obtain s1 r1 where o: "stream_open cfg (sse_defaults opts) env cred (resolve_cursor db c0) dbo now polls
       \<lparr>w_open = True, w_sent = []\<rparr> = (s1, r1)" by fastforce
  show thesis
    using assms c d p o
    by (intro that [OF c d p o]) (cases r1; auto simp: serve_events_def Let_def split: prod.splits)
qed

text \<open>
  The resume point a client holds never moves back and never overtakes the watermark. Whatever a
  stream wakes up to, and whichever of its writes fail, the ids a client reads off its bytes are the
  printed forms of strictly increasing positions, each at or behind the watermark at one of the
  stream's writes; so a client that reconnects with the last of them skips nothing that had settled
  after it.
\<close>

theorem client_ids_advance:
  assumes "serve_events cfg ts_micros opts env auth header query dbr dbo now polls is = Streaming s r"
  shows "\<exists>cs. ids_read s = map cursor_display cs \<and> sorted_wrt before cs \<and>
    (\<forall>c \<in> set cs. settled_at env (ss_writes s) c)"
proof -
  obtain cred db c0 s1 r1 where o: "stream_open cfg (sse_defaults opts) env cred (resolve_cursor db c0) dbo now polls
       \<lparr>w_open = True, w_sent = []\<rparr> = (s1, r1)"
    and l: "(r1 = Continue \<and> live_loop cfg (sse_defaults opts) env cred is s1 = (s, r)) \<or>
     (r1 \<noteq> Continue \<and> s = s1 \<and> r = r1)"
    using assms by (rule serve_events_streaming)
  from stream_open_ids [OF o] l live_loop_ids obtain cs where "ids_ok env s cs" by blast
  then show ?thesis using ids_ok_read by (auto simp: ids_ok_def)
qed

section \<open>What a batch delivers\<close>

text \<open>
  The events a stream has written since it opened, which are the ones its frames are of, in order; and
  the events one step adds.
\<close>

fun is_event :: "frame \<Rightarrow> bool" where
  "is_event (EventFrame k c b) = True"
| "is_event f = False"

definition frame_for :: "frame \<Rightarrow> event \<Rightarrow> bool" where
  "frame_for f e \<longleftrightarrow> (\<exists>c. f = EventFrame (ev_kind e) c (ev_body e))"

definition written :: "stream \<Rightarrow> event list \<Rightarrow> bool" where
  "written s hs \<longleftrightarrow> ss_written s = hs \<and> (\<exists>fs. w_sent (ss_writer s) = map render fs \<and> list_all2 frame_for (filter is_event fs) hs)"

definition wrote :: "stream \<Rightarrow> event list \<Rightarrow> stream \<Rightarrow> bool" where
  "wrote s es s' \<longleftrightarrow> ss_written s' = ss_written s @ es \<and>
     (\<exists>fs. w_sent (ss_writer s') = w_sent (ss_writer s) @ map render fs \<and> list_all2 frame_for fs es)"

text \<open>An event that fell out of the dedupe window: something written is newer by more than the window.\<close>

definition outdated :: "config \<Rightarrow> event list \<Rightarrow> event \<Rightarrow> bool" where
  "outdated cfg hs h \<longleftrightarrow>
     (\<exists>k \<in> set hs. at_or_epoch (event_cursor h) + retain cfg < at_or_epoch (event_cursor k))"

definition sent_ok :: "config \<Rightarrow> stream \<Rightarrow> event list \<Rightarrow> bool" where
  "sent_ok cfg s hs \<longleftrightarrow> written s hs
   \<and> (\<forall>h \<in> set hs. ss_sent s (ev_id h) = Some (at_or_epoch (event_cursor h)) \<or> outdated cfg hs h)
   \<and> (\<forall>i. ss_sent s i \<noteq> None \<longrightarrow> i \<in> ev_id ` set hs)
   \<and> (\<forall>n. ss_newest s = Some n \<longrightarrow> (\<exists>k \<in> set hs. at_or_epoch (event_cursor k) = n))"

lemma wrote_refl:
  "w_sent (ss_writer s') = w_sent (ss_writer s) \<Longrightarrow> ss_written s' = ss_written s \<Longrightarrow> wrote s [] s'"
  unfolding wrote_def by simp

lemma wrote_trans:
  assumes "wrote a m b" "wrote b n c"
  shows "wrote a (m @ n) c"
proof -
  obtain f g where "w_sent (ss_writer b) = w_sent (ss_writer a) @ map render f" "list_all2 frame_for f m"
    "w_sent (ss_writer c) = w_sent (ss_writer b) @ map render g" "list_all2 frame_for g n"
    using assms unfolding wrote_def by blast
  then have "\<exists>fs. w_sent (ss_writer c) = w_sent (ss_writer a) @ map render fs \<and> list_all2 frame_for fs (m @ n)"
    by (intro exI [of _ "f @ g"]) (simp add: list_all2_appendI)
  then show ?thesis using assms unfolding wrote_def by simp
qed

lemma filter_is_event: "list_all2 frame_for fs es \<Longrightarrow> filter is_event fs = fs"
  by (induction rule: list_all2_induct) (auto simp: frame_for_def)

lemma written_wrote:
  assumes "written s hs" "wrote s es s'"
  shows "written s' (hs @ es)"
proof -
  obtain f g where "w_sent (ss_writer s) = map render f" "list_all2 frame_for (filter is_event f) hs"
    "w_sent (ss_writer s') = w_sent (ss_writer s) @ map render g" "list_all2 frame_for g es"
    using assms unfolding written_def wrote_def by blast
  then have "\<exists>fs. w_sent (ss_writer s') = map render fs \<and> list_all2 frame_for (filter is_event fs) (hs @ es)"
    by (intro exI [of _ "f @ g"]) (simp add: list_all2_appendI filter_is_event)
  then show ?thesis using assms unfolding written_def wrote_def by simp
qed

lemma emit_wrote:
  assumes "emit env e s = (s', r)"
  shows "ss_sent s' = ss_sent s \<and> ss_newest s' = ss_newest s \<and> (r = Continue \<or> (\<exists>x. r = Failed x)) \<and>
    wrote s (if r = Continue then [e] else []) s'"
proof -
  let ?safe = "safe_to_checkpoint (fst (env (ss_writes s))) (ss_last_safe s) e"
  let ?f = "EventFrame (ev_kind e) (if ?safe then cursor_display (event_cursor e) else []) (ev_body e)"
  obtain s1 r1 where snd: "stream_send env ?f s = (s1, r1)" by fastforce
  from snd show ?thesis
  proof (cases rule: stream_send_cases)
    case sent
    have "wrote s [e] s'" unfolding wrote_def
      by (intro conjI exI [of _ "[?f]"]) (use assms snd sent in \<open>auto simp: emit_def Let_def frame_for_def\<close>)
    with assms snd sent show ?thesis by (auto simp: emit_def Let_def)
  next
    case failed
    with assms snd show ?thesis by (auto simp: emit_def Let_def wrote_refl)
  qed
qed

lemma outdated_mono: "outdated cfg hs h \<Longrightarrow> outdated cfg (hs @ es) h"
  by (auto simp: outdated_def)

lemma emit_sent:
  assumes ok: "sent_ok cfg s hs" and e: "emit env e (record_sent e s) = (s', Continue)"
    and new: "\<And>h. h \<in> set hs \<Longrightarrow> ev_id h = ev_id e \<Longrightarrow> outdated cfg hs h"
  shows "sent_ok cfg s' (hs @ [e])"
proof -
  note w = emit_wrote [OF e]
  then have "wrote s [e] s'" by (simp add: wrote_def record_sent_def Let_def)
  with ok have "written s' (hs @ [e])" using written_wrote by (auto simp: sent_ok_def)
  moreover have "\<forall>n. ss_newest s' = Some n \<longrightarrow> (\<exists>k \<in> set (hs @ [e]). at_or_epoch (event_cursor k) = n)"
    using w ok by (auto simp: sent_ok_def record_sent_def Let_def split: option.splits if_splits)
  moreover have "ss_sent s' (ev_id h) = Some (at_or_epoch (event_cursor h)) \<or> outdated cfg (hs @ [e]) h"
    if "h \<in> set (hs @ [e])" for h
    using w ok new that
    by (cases "ev_id h = ev_id e") (auto simp: sent_ok_def record_sent_def Let_def intro: outdated_mono)
  moreover have "\<forall>i. ss_sent s' i \<noteq> None \<longrightarrow> i \<in> ev_id ` set (hs @ [e])"
    using w ok by (auto simp: sent_ok_def record_sent_def Let_def)
  ultimately show ?thesis unfolding sent_ok_def by blast
qed

lemma emit_replay_sent:
  "sent_ok cfg s hs \<Longrightarrow> distinct (map ev_id (hs @ es)) \<Longrightarrow> emit_replay env es s = (s', Continue) \<Longrightarrow>
   sent_ok cfg s' (hs @ es)"
proof (induction es arbitrary: s hs)
  case (Cons e es)
  obtain s1 r1 where e: "emit env e (record_sent e s) = (s1, r1)" by fastforce
  with Cons.prems(3) have r: "r1 = Continue" "emit_replay env es s1 = (s', Continue)" by (cases r1; simp)+
  have "ev_id e \<notin> ev_id ` set hs" using Cons.prems(2) by auto
  then have "ev_id h \<noteq> ev_id e" if "h \<in> set hs" for h using that by (metis imageI)
  then have "sent_ok cfg s1 (hs @ [e])" using e r(1) by (intro emit_sent [OF Cons.prems(1)]) auto
  from Cons.IH [OF this _ r(2)] Cons.prems(2) show ?case by simp
qed simp

text \<open>What a pass over the visible part of a batch adds, whether or not it got to the end.\<close>

lemma emit_live_sent:
  "sent_ok cfg s hs \<Longrightarrow> emit_live env es s = (s', r) \<Longrightarrow>
   \<exists>fs. wrote s fs s' \<and> set fs \<subseteq> set es \<and> distinct (map ev_id fs) \<and>
     (\<forall>e \<in> set fs. ss_sent s (ev_id e) = None) \<and>
     (r = Continue \<longrightarrow> sent_ok cfg s' (hs @ fs) \<and> ev_id ` set es \<subseteq> ev_id ` set (hs @ fs))"
proof (induction es arbitrary: s hs)
  case Nil
  then show ?case by (intro exI [of _ "[]"]) (auto intro: wrote_refl)
next
  case (Cons e es)
  show ?case
  proof (cases "ss_sent s (ev_id e)")
    case (Some x)
    with Cons.prems(1) have "ev_id e \<in> ev_id ` set hs" by (auto simp: sent_ok_def)
    moreover from Some Cons.prems(2) have "emit_live env es s = (s', r)" by simp
    ultimately show ?thesis using Cons.IH [OF Cons.prems(1)] by fastforce
  next
    case None
    obtain s1 r1 where e: "emit env e (record_sent e s) = (s1, r1)" by fastforce
    have w: "wrote s (if r1 = Continue then [e] else []) s1" "ss_sent s1 = (ss_sent s)(ev_id e \<mapsto> at_or_epoch (event_cursor e))"
      using emit_wrote [OF e] by (auto simp: wrote_def record_sent_def Let_def)
    show ?thesis
    proof (cases "r1 = Continue")
      case False
      then have "s' = s1" "r = r1" using Cons.prems(2) None e by (cases r1; simp)+
      with w(1) False show ?thesis by (intro exI [of _ "[]"]) auto
    next
      case True
      have "outdated cfg hs h" if "h \<in> set hs" "ev_id h = ev_id e" for h
        using Cons.prems(1) that None by (auto simp: sent_ok_def)
      then have ok1: "sent_ok cfg s1 (hs @ [e])" using e True by (intro emit_sent [OF Cons.prems(1)]) auto
      from True None Cons.prems(2) e have "emit_live env es s1 = (s', r)" by simp
      from Cons.IH [OF ok1 this] obtain fs where fs: "wrote s1 fs s'" "set fs \<subseteq> set es" "distinct (map ev_id fs)"
        "\<forall>f \<in> set fs. ss_sent s1 (ev_id f) = None"
        "r = Continue \<longrightarrow> sent_ok cfg s' ((hs @ [e]) @ fs) \<and> ev_id ` set es \<subseteq> ev_id ` set ((hs @ [e]) @ fs)" by blast
      have old: "ev_id f \<noteq> ev_id e \<and> ss_sent s (ev_id f) = None" if "f \<in> set fs" for f
        using fs(4) that by (auto simp: w(2) split: if_splits)
      then have "ev_id e \<notin> ev_id ` set fs" by (metis imageE)
      moreover have "wrote s (e # fs) s'" using wrote_trans [OF w(1) fs(1)] True by simp
      ultimately show ?thesis using fs(2,3,5) None old by (intro exI [of _ "e # fs"]) auto
    qed
  qed
qed

lemma send_sent:
  assumes "sent_ok cfg s hs" "stream_send env f s = (s', r)" "\<not> is_event f"
  shows "sent_ok cfg s' hs"
  using assms(2)
proof (cases rule: stream_send_cases)
  case sent
  obtain fs where "w_sent (ss_writer s) = map render fs" "list_all2 frame_for (filter is_event fs) hs"
    using assms(1) by (auto simp: sent_ok_def written_def)
  moreover have "ss_written s = hs" using assms(1) by (simp add: sent_ok_def written_def)
  ultimately have "written s' hs" unfolding written_def
    by (intro conjI exI [of _ "fs @ [f]"]) (use sent assms(3) in auto)
  with sent assms(1) show ?thesis by (simp add: sent_ok_def)
next
  case failed
  with assms(1) show ?thesis by (simp add: sent_ok_def written_def)
qed

lemma sent_ok_irrelevant [simp]:
  "sent_ok cfg (s\<lparr>ss_last_safe := c\<rparr>) hs = sent_ok cfg s hs"
  "sent_ok cfg (s\<lparr>ss_confirmed := n\<rparr>) hs = sent_ok cfg s hs"
  "sent_ok cfg (s\<lparr>ss_writer := (ss_writer s)\<lparr>w_open := b\<rparr>\<rparr>) hs = sent_ok cfg s hs"
  by (simp_all add: sent_ok_def written_def)

lemma sent_ok_prune:
  assumes "sent_ok cfg s hs" "ss_newest s = Some n"
  shows "sent_ok cfg (s\<lparr>ss_sent := prune_seen (ss_sent s) n (cfg_overlap cfg * 2)\<rparr>) hs"
proof -
  let ?m = "prune_seen (ss_sent s) n (cfg_overlap cfg * 2)"
  obtain k where k: "k \<in> set hs" "at_or_epoch (event_cursor k) = n" using assms by (auto simp: sent_ok_def)
  have "?m (ev_id h) = Some (at_or_epoch (event_cursor h)) \<or> outdated cfg hs h" if h: "h \<in> set hs" for h
  proof (cases "outdated cfg hs h")
    case False
    with assms(1) h have "ss_sent s (ev_id h) = Some (at_or_epoch (event_cursor h))"
      unfolding sent_ok_def by blast
    moreover from False k have "n - retain cfg \<le> at_or_epoch (event_cursor h)" by (auto simp: outdated_def not_less)
    ultimately show ?thesis by (simp add: prune_seen_def Let_def retain_def)
  qed simp
  moreover have "\<forall>i. ?m i \<noteq> None \<longrightarrow> ss_sent s i \<noteq> None"
    by (auto simp: prune_seen_def Let_def split: option.splits)
  ultimately show ?thesis using assms(1) by (auto simp: sent_ok_def written_def)
qed

lemma gate_check_sent [simp]: "sent_ok cfg (fst (gate_check opts cred g s)) hs = sent_ok cfg s hs"
  by (auto simp: gate_check_def split: sum.splits)

lemma gate_check_keeps:
  assumes "gate_check opts cred g s = (s1, p)"
  shows "ss_writer s1 = ss_writer s \<and> ss_written s1 = ss_written s \<and> ss_sent s1 = ss_sent s \<and>
    (p \<longrightarrow> fst g - ss_confirmed s < so_auth_recheck opts \<or> snd g = Inr cred)"
  using assms by (auto simp: gate_check_def split: if_splits sum.splits)

lemma live_batch_sent:
  assumes ok: "sent_ok cfg s hs" and l: "live_batch cfg opts env cred b g dbo now s = (s', r)"
  shows "\<exists>es. wrote s es s' \<and> distinct (map ev_id es) \<and>
    (es \<noteq> [] \<longrightarrow> fst g - ss_confirmed s < so_auth_recheck opts \<or> snd g = Inr cred) \<and>
    (\<forall>e \<in> set es. ss_sent s (ev_id e) = None \<and> (\<exists>db. dbo = Some db \<and> e \<in> set (visible db cred b now))) \<and>
    (r = Continue \<longrightarrow> sent_ok cfg s' (hs @ es) \<and>
       (\<exists>db. dbo = Some db \<and> ev_id ` set (visible db cred b now) \<subseteq> ev_id ` set (hs @ es)))"
proof -
  obtain s1 p where g: "gate_check opts cred g s = (s1, p)" by fastforce
  note keep = gate_check_keeps [OF g]
  have ok1: "sent_ok cfg s1 hs" using ok gate_check_sent [of cfg opts cred g s] g by simp
  show ?thesis
  proof (cases "p \<and> dbo \<noteq> None")
    case False
    then have "s' = s1 \<and> r = Finished" using l g by (cases p; cases dbo) (auto simp: live_batch_def)
    with keep show ?thesis by (intro exI [of _ "[]"]) (auto intro: wrote_refl)
  next
    case True
    then obtain db where db: "dbo = Some db" "p" by auto
    obtain s2 r2 where e: "emit_live env (visible db cred b now) s1 = (s2, r2)" by fastforce
    from emit_live_sent [OF ok1 e] obtain es where es: "wrote s1 es s2" "set es \<subseteq> set (visible db cred b now)"
      "distinct (map ev_id es)" "\<forall>e \<in> set es. ss_sent s1 (ev_id e) = None"
      "r2 = Continue \<longrightarrow> sent_ok cfg s2 (hs @ es) \<and> ev_id ` set (visible db cred b now) \<subseteq> ev_id ` set (hs @ es)" by blast
    have r: "r = r2" "ss_writer s' = ss_writer s2" "ss_written s' = ss_written s2"
      "r2 = Continue \<Longrightarrow> s' = (case ss_newest s2 of None \<Rightarrow> s2
         | Some n \<Rightarrow> s2\<lparr>ss_sent := prune_seen (ss_sent s2) n (cfg_overlap cfg * 2)\<rparr>)"
      using l g db e by (cases r2; cases "ss_newest s2"; auto simp: live_batch_def)+
    have "wrote s es s'" using es(1) keep r(2,3) by (simp add: wrote_def)
    moreover have "r = Continue \<longrightarrow> sent_ok cfg s' (hs @ es)"
      using es(5) r(1,4) sent_ok_prune by (auto split: option.splits)
    ultimately show ?thesis using es db keep r(1) by (intro exI [of _ es]) auto
  qed
qed

lemma live_keep_alive_sent:
  assumes ok: "sent_ok cfg s hs" and l: "live_keep_alive opts env cred g s = (s', r)"
  shows "sent_ok cfg s' hs"
proof -
  obtain s1 p where g: "gate_check opts cred g s = (s1, p)" by fastforce
  have ok1: "sent_ok cfg s1 hs" using ok gate_check_sent [of cfg opts cred g s] g by simp
  consider "s' = s1" | "stream_send env (CommentFrame ''keepalive'') s1 = (s', r)"
    | t where "stream_send env (CheckpointFrame (cursor_display (at_time t))) (s1\<lparr>ss_last_safe := at_time t\<rparr>) = (s', r)"
    using l g by (cases p; cases "fst (env (ss_writes s1))") (auto simp: live_keep_alive_def split: if_splits)
  then show ?thesis
  proof cases
    case 3
    show ?thesis by (rule send_sent [OF _ 3]) (simp_all add: ok1)
  qed (use ok1 send_sent in auto)
qed

lemma live_step_sent:
  assumes ok: "sent_ok cfg s hs" and l: "live_step cfg opts env cred i s = (s', Continue)"
  shows "\<exists>hs'. sent_ok cfg s' hs'"
proof (cases i)
  case (GotBatch b g dbo now)
  with l have "live_batch cfg opts env cred b g dbo now s = (s', Continue)" by (auto split: if_splits)
  from live_batch_sent [OF ok this] obtain es where
    "Continue = Continue \<longrightarrow> sent_ok cfg s' (hs @ es) \<and> (\<exists>db. dbo = Some db \<and> ev_id ` set (visible db cred b now) \<subseteq> ev_id ` set (hs @ es))"
    by (elim exE conjE) (rule that)
  then show ?thesis by auto
next
  case HubEnded
  with l show ?thesis by (auto split: if_splits prod.splits outcome.splits)
next
  case (KeepAlive g)
  with l have "live_keep_alive opts env cred g s = (s', Continue)" by (auto split: if_splits)
  from live_keep_alive_sent [OF ok this] show ?thesis ..
next
  case ClientGone
  with l ok show ?thesis by auto
qed

lemma live_loop_sent:
  "sent_ok cfg s hs \<Longrightarrow> live_loop cfg opts env cred is s = (s', Continue) \<Longrightarrow> \<exists>hs'. sent_ok cfg s' hs'"
proof (induction "is" arbitrary: s hs)
  case (Cons i "is")
  obtain s1 r1 where e: "live_step cfg opts env cred i s = (s1, r1)" by fastforce
  with Cons.prems(2) have r: "r1 = Continue" "live_loop cfg opts env cred is s1 = (s', Continue)" by (cases r1; simp)+
  with e live_step_sent [OF Cons.prems(1)] Cons.IH show ?case by blast
qed auto

lemma replay_distinct:
  assumes wf: "wf_events json db" and r: "replay db c after since lim now = Inr es"
  shows "distinct (map ev_id es)"
proof -
  have "ev_id = (\<lambda>e. snd (cursor_key (event_cursor e)))" by (auto simp: event_cursor_def)
  then have "map ev_id (log_of db) = map snd (map (cursor_key \<circ> event_cursor) (log_of db))" by (simp add: comp_def)
  also have "\<dots> = map er_id (sort_key row_key (events db))"
    unfolding log_of_keys [OF wf] by (simp add: row_key_def comp_def)
  finally have "distinct (map ev_id (log_of db))"
    using wf_events_distinct [OF wf] by (simp add: distinct_map)
  then show ?thesis
    using r unfolding replay_log [OF wf] by (auto intro!: distinct_limit_rows simp: distinct_map_filter)
qed

lemma catch_up_sent:
  assumes ok: "sent_ok cfg s []" and wf: "case dbo of None \<Rightarrow> True | Some d \<Rightarrow> wf_events json d"
    and c: "catch_up cfg opts env cred c dbo now polls s = (s', Continue)"
  shows "\<exists>hs. sent_ok cfg s' hs"
proof (cases "is_zero c")
  case True
  with c ok show ?thesis by (auto simp: catch_up_def)
next
  case False
  then obtain db es where db: "dbo = Some db"
    and es: "replay db cred c (at_or_epoch c - cfg_overlap cfg) (so_max_replay opts + 1) now = Inr es"
    using c by (auto simp: catch_up_def split: option.splits sum.splits)
  show ?thesis
  proof (cases "so_max_replay opts < int (length es)")
    case True
    then obtain f s1 where "stream_send env (ResyncFrame (cursor_display f)) s = (s1, Continue)" "s' = s1\<lparr>ss_last_safe := f\<rparr>"
      using c False db es by (auto simp: catch_up_def split: option.splits prod.splits outcome.splits)
    with send_sent [OF ok] show ?thesis by fastforce
  next
    case short: False
    have "emit_replay env es s = (s', Continue)" using c False db es short by (simp add: catch_up_def)
    from emit_replay_sent [OF ok _ this] replay_distinct [OF _ es] wf db show ?thesis by auto
  qed
qed

lemma serve_events_sent:
  assumes wf: "case dbo of None \<Rightarrow> True | Some d \<Rightarrow> wf_events json d"
    and s: "serve_events cfg ts_micros opts env auth header query dbr dbo now polls is = Streaming s Continue"
  shows "\<exists>hs. sent_ok cfg s hs"
proof -
  obtain cred db c0 s1 r1 where o: "stream_open cfg (sse_defaults opts) env cred (resolve_cursor db c0) dbo now polls
       \<lparr>w_open = True, w_sent = []\<rparr> = (s1, r1)"
    and l: "(r1 = Continue \<and> live_loop cfg (sse_defaults opts) env cred is s1 = (s, Continue)) \<or>
     (r1 \<noteq> Continue \<and> s = s1 \<and> Continue = r1)"
    using s by (rule serve_events_streaming)
  let ?s0 = "\<lparr>ss_writer = \<lparr>w_open = True, w_sent = []\<rparr>, ss_writes = 0, ss_last_safe = cursor_default,
    ss_sent = Map.empty, ss_newest = None, ss_confirmed = now, ss_written = []\<rparr>"
  let ?f = "RetryFrame (nat (so_retry_hint (sse_defaults opts) div 1000))"
  obtain s2 where s2: "stream_send env ?f ?s0 = (s2, Continue)"
    and c: "catch_up cfg (sse_defaults opts) env cred (resolve_cursor db c0) dbo now polls s2 = (s1, Continue)"
    using o l by (auto simp: stream_open_def Let_def split: prod.splits outcome.splits)
  have "sent_ok cfg ?s0 []" by (simp add: sent_ok_def written_def)
  then have "sent_ok cfg s2 []" using send_sent [OF _ s2] by simp
  from catch_up_sent [OF this wf c] l live_loop_sent show ?thesis by blast
qed


section \<open>A position the log does not have\<close>

lemma parse_bare_id:
  assumes "0 \<le> i" "i \<le> i64_max"
  shows "parse_cursor ts_micros (show_int i) = Inr \<lparr>cu_at = None, cu_id = i\<rparr>"
proof -
  have "trim (show_int i) = show_int i" by (rule trim_plain) (rule show_int_not_space)
  moreover have "show_int i \<noteq> []" by (simp add: show_int_def)
  moreover have "split_once (CHR ''-'') (show_int i) = None"
    using show_int_nonneg [OF assms(1)] by (simp add: split_once_None)
  moreover have "parse_i64 (show_int i) = Some i"
    by (rule parse_i64_show_int) (use assms in \<open>simp_all add: i64_min_def\<close>)
  ultimately show ?thesis by (simp add: parse_cursor_def)
qed

text \<open>
  A client that resumes from a bare row id the log no longer has is not replayed from the start of
  what is kept: the unknown id resolves to the zero cursor, which the stream takes for a fresh
  subscriber, so it sends the retry hint, no history and no resync, and moves its resume point to the
  watermark.
\<close>

theorem unknown_id_is_not_replayed:
  assumes "0 < i" "i \<le> i64_max" "\<forall>r \<in> set (events db). er_id r \<noteq> i" "snd (env 0)"
  shows "\<exists>s. serve_events cfg ts_micros opts env (Inr cred) (Some (show_int i)) query (Some db) dbo now polls [] =
      Streaming s Continue \<and>
    read_stream (concat (w_sent (ss_writer s))) =
      [[(''retry'', show_nat (nat (so_retry_hint (sse_defaults opts) div 1000)))]] \<and>
    ss_last_safe s = settled_floor (fst (env 1))"
proof -
  have "show_int i \<noteq> []" by (simp add: show_int_def)
  moreover have "parse_cursor ts_micros (show_int i) = Inr \<lparr>cu_at = None, cu_id = i\<rparr>"
    using assms(1,2) by (intro parse_bare_id) auto
  moreover have "resolve_cursor db \<lparr>cu_at = None, cu_id = i\<rparr> = cursor_default"
  proof -
    have "List.find (\<lambda>r. er_id r = i) (events db) = None"
      using assms(3) by (auto simp: find_eq_None)
    then show ?thesis using assms(1) by (simp add: resolve_cursor_def)
  qed
  moreover have "is_zero cursor_default" by (simp add: is_zero_def)
  moreover have "read_stream (retry_frame n) = [[(''retry'', show_nat n)]]" for n
    using read_frames [of "[RetryFrame n]"] by simp
  ultimately show ?thesis
    using assms(4)
    by (simp add: serve_events_def last_event_id_def stream_open_def stream_send_def send_frame_def
        write_bytes_def catch_up_def Let_def)
qed

section \<open>A stream to evaluate\<close>

definition calm :: environment where "calm k = (Some 1000, True)"

definition no_options :: sse_options where
  "no_options = \<lparr>so_retry_hint = 0, so_keep_alive = 0, so_max_replay = 0, so_auth_recheck = 0\<rparr>"

definition alice_stream :: response where
  "alice_stream =
     serve_events small_config Some no_options calm (Inr alice) (Some ''99-0'') None
       (Some event_db1) (Some event_db1) 200 [] [KeepAlive (300, Inl Denied)]"

theorem client_ids_advance_witness:
  "\<exists>s r cs. alice_stream = Streaming s r \<and> ids_read s = [''100-1'', ''101-2'', ''1000-0''] \<and>
     ids_read s = map cursor_display cs \<and> sorted_wrt before cs"
proof -
  have "(case alice_stream of Streaming s r \<Rightarrow> ids_read s = [''100-1'', ''101-2'', ''1000-0''] | _ \<Rightarrow> False)"
    by code_simp
  then obtain s r where s: "alice_stream = Streaming s r" "ids_read s = [''100-1'', ''101-2'', ''1000-0'']"
    by (auto split: response.splits)
  from client_ids_advance [OF s(1) [unfolded alice_stream_def]] s show ?thesis by blast
qed

text \<open>Bob connects with no position; of the next batch he is sent the one event he may see.\<close>

definition bob_stream :: response where
  "bob_stream =
     serve_events small_config Some no_options calm (Inr bob) None None
       (Some event_db1) (Some event_db1) 200 [] []"


theorem unknown_id_is_not_replayed_witness:
  "\<exists>s. serve_events small_config Some no_options calm (Inr alice) (Some (show_int 7)) None
       (Some event_db1) (Some event_db1) 200 [] [] = Streaming s Continue \<and>
     read_stream (concat (w_sent (ss_writer s))) = [[(''retry'', ''2000'')]] \<and>
     replay event_db1 alice cursor_default 0 (-1) 200 \<noteq> Inr []"
proof -
  have "\<forall>r \<in> set (events event_db1). er_id r \<noteq> 7" by code_simp
  moreover have "snd (calm 0)" by code_simp
  moreover have "show_nat (nat (so_retry_hint (sse_defaults no_options) div 1000)) = ''2000''" by code_simp
  moreover have "replay event_db1 alice cursor_default 0 (-1) 200 \<noteq> Inr []" by code_simp
  ultimately show ?thesis
    using unknown_id_is_not_replayed [of 7 event_db1 calm small_config Some no_options alice None "Some event_db1" 200 "[]"]
    by (auto simp: i64_max_def)
qed

end
