(* ===== verification/Hive_Hash.thy ===== *)
theory Hive_Hash
  imports Hive_Schema
begin

text \<open>
  Content addresses (\<open>crates/hive-blob/src/hash.rs\<close>) and the errors of the blob seam: the parsed form of
  an address, its key on a driver, the durability class and the descriptor a guest holds. A digest is
  its 32 bytes. The hex coding is a library: \<open>enc\<close> and \<open>dec\<close> are parameters.
\<close>

type_synonym hash = string

text \<open>Of the messages only the fixed part is kept, and the address where one is named.\<close>

datatype blob_error =
    BlobNotFound string hash
  | MalformedHash
  | MalformedDescriptor
  | RangeNotSatisfiable
  | AlreadyExists
  | DigestMismatch hash hash
  | TooLarge nat nat
  | RangeIgnored
  | UrlRejected string
  | BlobInvalid string
  | BlobIo string
  | BlobDb refusal
  | BlobBackend string

definition hash_len :: nat where "hash_len = 32"

definition hash_parse :: "(string \<Rightarrow> string option) \<Rightarrow> string \<Rightarrow> blob_error + hash" where
  "hash_parse dec s =
     (if length s \<noteq> 64 then Inl MalformedHash
      else if list_ex is_upper s then Inl MalformedHash
      else (case dec s of None \<Rightarrow> Inl MalformedHash | Some b \<Rightarrow> Inr b))"

definition hash_display :: "(hash \<Rightarrow> string) \<Rightarrow> hash \<Rightarrow> string" where
  "hash_display enc h = enc h"

definition hash_is_zero :: "hash \<Rightarrow> bool" where
  "hash_is_zero h \<longleftrightarrow> h = replicate hash_len (CHR 0x00)"

definition hash_key :: "(hash \<Rightarrow> string) \<Rightarrow> hash \<Rightarrow> string" where
  "hash_key enc h = (let s = hash_display enc h in take 2 s @ CHR ''/'' # s)"

section \<open>Classes and descriptors\<close>

datatype blob_class = ClassDerived | ClassBuild | ClassCapture | ClassOriginal

fun class_as_str :: "blob_class \<Rightarrow> string" where
  "class_as_str ClassDerived = ''derived''"
| "class_as_str ClassBuild = ''build''"
| "class_as_str ClassCapture = ''capture''"
| "class_as_str ClassOriginal = ''original''"

definition class_parse :: "string \<Rightarrow> blob_class option" where
  "class_parse s =
     (if s = ''derived'' then Some ClassDerived
      else if s = ''build'' then Some ClassBuild
      else if s = ''capture'' then Some ClassCapture
      else if s = ''original'' then Some ClassOriginal
      else None)"

definition evictable :: "blob_class \<Rightarrow> bool" where
  "evictable c \<longleftrightarrow> c = ClassDerived \<or> c = ClassBuild"

interpretation bc: column_codec class_as_str class_parse
proof
  show "class_parse (class_as_str x) = Some x" for x
    by (cases x) (simp_all add: class_parse_def)
qed

text \<open>The size is a \<open>u64\<close>; the wire and the column hold \<open>size as i64\<close>, which wraps.\<close>

record descriptor =
  d_hash :: hash
  d_size :: nat
  d_mime :: string

record descriptor_json =
  dj_blob :: string
  dj_size :: int
  dj_mime :: string

definition as_i64 :: "nat \<Rightarrow> int" where
  "as_i64 n = (let v = int n mod 2 ^ 64 in if v < 2 ^ 63 then v else v - 2 ^ 64)"

definition as_u64 :: "int \<Rightarrow> nat" where
  "as_u64 i = nat (i mod 2 ^ 64)"

definition descriptor_serialize :: "(hash \<Rightarrow> string) \<Rightarrow> descriptor \<Rightarrow> descriptor_json" where
  "descriptor_serialize enc d =
     \<lparr>dj_blob = hash_display enc (d_hash d), dj_size = as_i64 (d_size d), dj_mime = d_mime d\<rparr>"

definition descriptor_deserialize ::
  "(string \<Rightarrow> string option) \<Rightarrow> descriptor_json \<Rightarrow> blob_error + descriptor" where
  "descriptor_deserialize dec j =
     (case hash_parse dec (dj_blob j) of
        Inl e \<Rightarrow> Inl e
      | Inr h \<Rightarrow>
          if dj_size j < 0 then Inl MalformedDescriptor
          else Inr \<lparr>d_hash = h, d_size = as_u64 (dj_size j), d_mime = dj_mime j\<rparr>)"

lemma as_u64_i64: "n < 2 ^ 64 \<Longrightarrow> as_u64 (as_i64 n) = n"
proof -
  assume "n < 2 ^ 64"
  then have "int n < 2 ^ 64" by (metis of_nat_less_iff of_nat_numeral of_nat_power)
  then show ?thesis by (auto simp: as_u64_def as_i64_def Let_def)
qed

lemma as_i64_nonneg: "n < 2 ^ 64 \<Longrightarrow> 0 \<le> as_i64 n \<longleftrightarrow> n < 2 ^ 63"
proof -
  assume "n < 2 ^ 64"
  then have "int n < 2 ^ 64" by (metis of_nat_less_iff of_nat_numeral of_nat_power)
  then show ?thesis by (auto simp: as_i64_def Let_def)
qed

section \<open>The hex library\<close>

text \<open>
  What is relied on of the hex library: encoding 32 bytes gives 64 lowercase characters, decoding
  undoes it, and decoding a text without uppercase letters is undone by encoding.
\<close>

locale hex_coding =
  fixes enc :: "hash \<Rightarrow> string" and dec :: "string \<Rightarrow> hash option"
  assumes dec_enc: "dec (enc h) = Some h"
    and enc_len: "length (enc h) = 2 * length h"
    and enc_lower: "\<not> list_ex is_upper (enc h)"
    and enc_dec: "\<not> list_ex is_upper s \<Longrightarrow> dec s = Some h \<Longrightarrow> enc h = s"
begin

text \<open>One object has one address: the printed form parses back, and nothing else parses to it.\<close>

lemma parse_display: "length h = hash_len \<Longrightarrow> hash_parse dec (hash_display enc h) = Inr h"
  using enc_lower by (simp add: hash_parse_def hash_display_def dec_enc enc_len hash_len_def)

lemma parse_unique: "hash_parse dec s = Inr h \<Longrightarrow> s = hash_display enc h \<and> length h = hash_len"
proof -
  assume "hash_parse dec s = Inr h"
  then have s: "length s = 64" "\<not> list_ex is_upper s" "dec s = Some h"
    by (auto simp: hash_parse_def split: if_splits option.splits)
  then have "enc h = s" by (intro enc_dec)
  with s(1) enc_len [of h] show ?thesis by (simp add: hash_display_def hash_len_def)
qed

text \<open>A descriptor survives the wire exactly when its size fits a signed word.\<close>

lemma descriptor_round_trip:
  assumes "length (d_hash d) = hash_len" "d_size d < 2 ^ 64"
  shows "descriptor_deserialize dec (descriptor_serialize enc d) =
    (if d_size d < 2 ^ 63 then Inr d else Inl MalformedDescriptor)"
  using assms parse_display [of "d_hash d"] as_i64_nonneg [of "d_size d"] as_u64_i64 [of "d_size d"]
  by (auto simp: descriptor_serialize_def descriptor_deserialize_def not_less [symmetric])

lemma key_inj:
  assumes "length g = hash_len" "length h = hash_len" "hash_key enc g = hash_key enc h"
  shows "g = h"
proof -
  have "length (enc g) = 64" "length (enc h) = 64" using assms(1,2) by (simp_all add: enc_len hash_len_def)
  then have "drop 3 (hash_key enc g) = enc g" "drop 3 (hash_key enc h) = enc h"
    by (simp_all add: hash_key_def hash_display_def Let_def numeral_eq_Suc)
  with assms(3) dec_enc show ?thesis by (metis option.inject)
qed

end

section \<open>A coding with these laws\<close>

text \<open>The laws can hold: base sixteen digit by digit satisfies them.\<close>

definition hex_digit :: "nat \<Rightarrow> char" where
  "hex_digit n = char_of (if n < 10 then 48 + n else 87 + n)"

definition hex_value :: "char \<Rightarrow> nat option" where
  "hex_value c =
     (let n = (of_char c :: nat) in
      if 48 \<le> n \<and> n \<le> 57 then Some (n - 48)
      else if 97 \<le> n \<and> n \<le> 102 then Some (n - 87)
      else if 65 \<le> n \<and> n \<le> 70 then Some (n - 55) else None)"

fun hex_enc :: "string \<Rightarrow> string" where
  "hex_enc [] = []"
| "hex_enc (c # cs) = hex_digit (of_char c div 16) # hex_digit (of_char c mod 16) # hex_enc cs"

fun hex_dec :: "string \<Rightarrow> string option" where
  "hex_dec [] = Some []"
| "hex_dec [_] = None"
| "hex_dec (a # b # cs) =
     (case (hex_value a, hex_value b, hex_dec cs) of
        (Some x, Some y, Some r) \<Rightarrow> Some (char_of (16 * x + y) # r)
      | _ \<Rightarrow> None)"

lemma hex_value_digit: "n < 16 \<Longrightarrow> hex_value (hex_digit n) = Some n"
  by (auto simp: hex_value_def hex_digit_def Let_def)

lemma hex_digit_lower: "n < 16 \<Longrightarrow> \<not> is_upper (hex_digit n)"
  by (auto simp: is_upper_def hex_digit_def)

lemma hex_value_Some: "hex_value c = Some n \<Longrightarrow> \<not> is_upper c \<Longrightarrow> n < 16 \<and> hex_digit n = c"
  by (auto simp: hex_value_def hex_digit_def Let_def is_upper_def split: if_splits)

lemma byte_lt: "(of_char c :: nat) div 16 < 16"
  by (simp add: less_mult_imp_div_less)

interpretation hx: hex_coding hex_enc hex_dec
proof
  show "hex_dec (hex_enc h) = Some h" for h
    by (induction h) (simp_all add: hex_value_digit byte_lt)
  show "length (hex_enc h) = 2 * length h" for h
    by (induction h) simp_all
  show "\<not> list_ex is_upper (hex_enc h)" for h
    by (induction h) (simp_all add: hex_digit_lower byte_lt)
  show "\<not> list_ex is_upper s \<Longrightarrow> hex_dec s = Some h \<Longrightarrow> hex_enc h = s" for s h
  proof (induction s arbitrary: h rule: hex_dec.induct)
    case (3 a b cs)
    then obtain x y r where v: "hex_value a = Some x" "hex_value b = Some y" "hex_dec cs = Some r"
      "h = char_of (16 * x + y) # r"
      by (auto split: option.splits)
    from v 3 have "x < 16" "hex_digit x = a" "y < 16" "hex_digit y = b" "hex_enc r = cs"
      using hex_value_Some by auto
    then show ?case by (simp add: v(4))
  qed auto
qed

end
