(* ===== verification/Hive_Disk.thy ===== *)
theory Hive_Disk
  imports Hive_Hash
begin

text \<open>
  Where bytes live (\<open>crates/hive-blob/src/driver.rs\<close>, \<open>disk.rs\<close>) and how they are fetched
  (\<open>download.rs\<close>). The data root is the function from the content address of a path to the bytes of the
  file there, since a path is built from the address alone; the temp directory is the list of its
  entries with their modification times. An open upload holds its inode, so its bytes are kept with
  it and its directory entry may be swept away underneath. Failures of the file system other than a
  missing file are not modelled. The digest is a parameter \<open>sha\<close>; the HTTP client, the content type
  parser and the URL refresher are parameters too. Sizes and offsets are natural numbers: the sums the
  code forms of them are taken not to overflow a \<open>u64\<close>.
\<close>

section \<open>Ranges\<close>

record range =
  offset :: nat
  len :: nat

definition range_full :: range where
  "range_full = \<lparr>offset = 0, len = 0\<rparr>"

definition is_full :: "range \<Rightarrow> bool" where
  "is_full r \<longleftrightarrow> offset r = 0 \<and> len r = 0"

definition clamp :: "range \<Rightarrow> nat \<Rightarrow> blob_error + range" where
  "clamp r sz =
     (if sz = 0 then if offset r = 0 then Inr range_full else Inl RangeNotSatisfiable
      else if sz \<le> offset r then Inl RangeNotSatisfiable
      else let available = sz - offset r
           in if len r = 0 \<or> available < len r then Inr \<lparr>offset = offset r, len = available\<rparr> else Inr r)"

text \<open>The bytes a clamped range reads from an object.\<close>

definition slice :: "range \<Rightarrow> string \<Rightarrow> string" where
  "slice r b = (if len r = 0 then drop (offset r) b else take (len r) (drop (offset r) b))"

section \<open>Delivery\<close>

record caps =
  presign :: bool
  max_presign_ttl :: nat

datatype delivery_kind = ProxyDelivery | RedirectDelivery

definition scriptable_list :: "string list" where
  "scriptable_list =
     [''text/html'', ''text/xml'', ''application/xml'', ''application/xhtml+xml'', ''image/svg+xml'',
      ''text/javascript'', ''application/javascript'', ''application/x-javascript'',
      ''application/ecmascript'', ''text/ecmascript'', ''application/pdf'', ''application/xslt+xml'',
      ''text/vtt'', ''application/rdf+xml'', ''application/mathml+xml'']"

definition scriptable_mime :: "(string \<Rightarrow> string option) \<Rightarrow> string \<Rightarrow> bool" where
  "scriptable_mime essence m =
     (case essence m of
        None \<Rightarrow> True
      | Some e \<Rightarrow>
          (let base = to_ascii_lowercase e in base \<in> set scriptable_list \<or> ends_with ''+xml'' base))"

definition plan_delivery :: "(string \<Rightarrow> string option) \<Rightarrow> caps \<Rightarrow> string \<Rightarrow> delivery_kind" where
  "plan_delivery essence c m =
     (if \<not> presign c then ProxyDelivery
      else if scriptable_mime essence m then ProxyDelivery
      else RedirectDelivery)"

definition clamp_ttl :: "caps \<Rightarrow> nat \<Rightarrow> nat" where
  "clamp_ttl c ttl =
     (if max_presign_ttl c = 0 then 0
      else if ttl = 0 \<or> max_presign_ttl c < ttl then max_presign_ttl c
      else ttl)"

section \<open>The disk driver\<close>

record temp_entry =
  t_name :: string
  t_is_dir :: bool
  t_modified :: "time option"

record disk =
  objects :: "hash \<Rightarrow> string option"
  temp_dir :: "temp_entry list"

record object_info =
  oi_hash :: hash
  oi_size :: nat

definition disk_stat :: "disk \<Rightarrow> hash \<Rightarrow> blob_error + object_info" where
  "disk_stat d h =
     (if hash_is_zero h then Inl MalformedHash
      else (case objects d h of
              None \<Rightarrow> Inl (BlobNotFound [] h)
            | Some b \<Rightarrow> Inr \<lparr>oi_hash = h, oi_size = length b\<rparr>))"

definition disk_open :: "disk \<Rightarrow> hash \<Rightarrow> range \<Rightarrow> blob_error + string" where
  "disk_open d h r =
     (case disk_stat d h of
        Inl e \<Rightarrow> Inl e
      | Inr info \<Rightarrow>
          (case clamp r (oi_size info) of
             Inl e \<Rightarrow> Inl e
           | Inr c \<Rightarrow>
               (case objects d h of
                  None \<Rightarrow> Inl (BlobNotFound [] h)
                | Some b \<Rightarrow> Inr (slice c b))))"

definition disk_deliver :: "disk \<Rightarrow> hash \<Rightarrow> range \<Rightarrow> blob_error + (string \<times> nat)" where
  "disk_deliver d h r =
     (case disk_stat d h of
        Inl e \<Rightarrow> Inl e
      | Inr info \<Rightarrow>
          (case clamp r (oi_size info) of
             Inl e \<Rightarrow> Inl e
           | Inr c \<Rightarrow>
               (case disk_open d h c of
                  Inl e \<Rightarrow> Inl e
                | Inr body \<Rightarrow> Inr (body, if is_full c then oi_size info else len c))))"

definition disk_delete :: "disk \<Rightarrow> hash \<Rightarrow> disk" where
  "disk_delete d h = d\<lparr>objects := (objects d)(h := None)\<rparr>"

definition sweep_expired_uploads :: "disk \<Rightarrow> time \<Rightarrow> disk \<times> nat" where
  "sweep_expired_uploads d older_than =
     (let gone = (\<lambda>e. ends_with ''.part'' (t_name e) \<and> \<not> t_is_dir e
                   \<and> (case t_modified e of None \<Rightarrow> True | Some m \<Rightarrow> \<not> older_than < m))
      in (d\<lparr>temp_dir := delete_rows gone (temp_dir d)\<rparr>, count_rows gone (temp_dir d)))"

section \<open>Uploads\<close>

record create_upload =
  declared_hash :: "hash option"
  declared_size :: nat
  upload_limit :: nat

record upload =
  up_name :: string
  up_file :: bool
  up_inode :: string
  up_hashed :: string
  up_declared :: "hash option"
  up_limit :: nat
  up_written :: nat
  up_sealed :: bool
  up_aborted :: bool

record sealed =
  se_hash :: hash
  se_size :: nat
  se_deduped :: bool

text \<open>\<open>uid\<close> is the simple form of a fresh uuid; \<open>create_new\<close> refuses a name that is taken.\<close>

definition disk_create_upload ::
  "disk \<Rightarrow> create_upload \<Rightarrow> string \<Rightarrow> time \<Rightarrow> blob_error + (disk \<times> upload)" where
  "disk_create_upload d spec uid now =
     (let name = ''up-'' @ uid @ ''.part'' in
      if \<exists>e \<in> set (temp_dir d). t_name e = name then Inl (BlobIo ''create temp'')
      else Inr (d\<lparr>temp_dir := temp_dir d @ [\<lparr>t_name = name, t_is_dir = False, t_modified = Some now\<rparr>]\<rparr>,
                \<lparr>up_name = name, up_file = True, up_inode = [], up_hashed = [], up_declared = declared_hash spec,
                 up_limit = upload_limit spec, up_written = 0, up_sealed = False, up_aborted = False\<rparr>))"

definition remove_temp :: "disk \<Rightarrow> upload \<Rightarrow> disk \<times> upload" where
  "remove_temp d u =
     (d\<lparr>temp_dir := delete_rows (\<lambda>e. t_name e = up_name u) (temp_dir d)\<rparr>, u\<lparr>up_file := False\<rparr>)"

definition upload_write ::
  "disk \<Rightarrow> upload \<Rightarrow> string \<Rightarrow> time \<Rightarrow> disk \<times> upload \<times> (blob_error + unit)" where
  "upload_write d u p now =
     (if up_sealed u then (d, u, Inl (BlobInvalid ''write after seal''))
      else if up_aborted u then (d, u, Inl (BlobInvalid ''write after abort''))
      else if 0 < up_limit u \<and> up_limit u < up_written u + length p
      then (d, u, Inl (TooLarge (up_limit u) (up_written u + length p)))
      else if \<not> up_file u then (d, u, Inl (BlobInvalid ''upload has no file''))
      else (d\<lparr>temp_dir := update_rows (\<lambda>e. t_name e = up_name u) (\<lambda>e. e\<lparr>t_modified := Some now\<rparr>)
                            (temp_dir d)\<rparr>,
            u\<lparr>up_inode := up_inode u @ p, up_written := up_written u + length p,
              up_hashed := up_hashed u @ p\<rparr>, Inr ()))"

definition upload_abort :: "disk \<Rightarrow> upload \<Rightarrow> disk \<times> upload" where
  "upload_abort d u =
     (if up_aborted u then (d, u)
      else if up_sealed u then (d, u\<lparr>up_aborted := True\<rparr>)
      else remove_temp d (u\<lparr>up_aborted := True\<rparr>))"

text \<open>
  The rename moves the directory entry, so it needs one; where the entry has been swept away it
  fails, unless the object is there by then.
\<close>

definition seal_publish :: "disk \<Rightarrow> upload \<Rightarrow> hash \<Rightarrow> disk \<times> upload \<times> (blob_error + sealed)" where
  "seal_publish d u0 actual =
     (let u = u0\<lparr>up_file := False, up_sealed := True\<rparr> in
      case objects d actual of
        Some existing \<Rightarrow>
          (case remove_temp d u of
             (d', u') \<Rightarrow> (d', u', Inr \<lparr>se_hash = actual, se_size = length existing, se_deduped = True\<rparr>))
      | None \<Rightarrow>
          (case remove_temp d u of
             (d', u') \<Rightarrow>
               if \<exists>e \<in> set (temp_dir d). t_name e = up_name u
               then (d'\<lparr>objects := (objects d')(actual := Some (up_inode u))\<rparr>, u,
                     Inr \<lparr>se_hash = actual, se_size = up_written u, se_deduped = False\<rparr>)
               else (d', u', Inl (BlobIo ''publish''))))"

definition upload_seal ::
  "(string \<Rightarrow> hash) \<Rightarrow> disk \<Rightarrow> upload \<Rightarrow> disk \<times> upload \<times> (blob_error + sealed)" where
  "upload_seal sha d u =
     (if up_aborted u then (d, u, Inl (BlobInvalid ''seal after abort''))
      else if up_sealed u then (d, u, Inl (BlobInvalid ''already sealed''))
      else
        (let actual = sha (up_hashed u) in
         case up_declared u of
           Some declared \<Rightarrow>
             if declared \<noteq> actual
             then (case upload_abort d u of (d', u') \<Rightarrow> (d', u', Inl (DigestMismatch declared actual)))
             else seal_publish d u actual
         | None \<Rightarrow> seal_publish d u actual))"

text \<open>The copy loop of a producer: chunks one after the other, then the seal.\<close>

fun copy_chunks ::
  "(string \<Rightarrow> hash) \<Rightarrow> disk \<Rightarrow> upload \<Rightarrow> (string \<times> time) list \<Rightarrow> disk \<times> upload \<times> (blob_error + sealed)" where
  "copy_chunks sha d u [] = upload_seal sha d u"
| "copy_chunks sha d u ((p, now) # ps) =
     (case upload_write d u p now of
        (d', u', Inl e) \<Rightarrow> (d', u', Inl e)
      | (d', u', Inr _) \<Rightarrow> copy_chunks sha d' u' ps)"

section \<open>Fetching over HTTP\<close>

definition range_header :: "range \<Rightarrow> string" where
  "range_header r =
     (if is_full r then []
      else if len r = 0 then ''bytes='' @ show_nat (offset r) @ ''-''
      else ''bytes='' @ show_nat (offset r) @ ''-'' @ show_nat (offset r + len r - 1))"

definition maybe_expired :: "nat \<Rightarrow> bool" where
  "maybe_expired st \<longleftrightarrow> st = 400 \<or> st = 401 \<or> st = 403"

record http_response =
  h_status :: nat
  h_length :: "nat option"
  h_body :: string

text \<open>The n-th request of a fetch; \<open>Inl\<close> when it could not be sent.\<close>

type_synonym http = "nat \<Rightarrow> string \<Rightarrow> string \<Rightarrow> string + http_response"

datatype once = OnceBody string int | OnceRejected nat string

definition redact_url :: "string \<Rightarrow> string" where
  "redact_url raw =
     (case split_once (CHR ''?'') raw of
        Some (a, _) \<Rightarrow> a @ ''?<redacted>''
      | None \<Rightarrow> raw)"

definition fetch_once :: "http \<Rightarrow> nat \<Rightarrow> string \<Rightarrow> range \<Rightarrow> blob_error + once" where
  "fetch_once http n url r =
     (case http n url (range_header r) of
        Inl e \<Rightarrow> Inl (BlobBackend (redact_url url))
      | Inr resp \<Rightarrow>
          (let l = (case h_length resp of None \<Rightarrow> -1 | Some k \<Rightarrow> as_i64 k); st = h_status resp in
           if st = 206 then
             if is_full r then Inl (BlobBackend ''unexpected 206'') else Inr (OnceBody (h_body resp) l)
           else if st = 200 then
             if \<not> is_full r then Inl RangeIgnored else Inr (OnceBody (h_body resp) l)
           else if st = 416 then Inl RangeNotSatisfiable
           else if st = 404 then Inl (BlobNotFound (redact_url url) [])
           else Inr (OnceRejected st url)))"

definition fetch ::
  "http \<Rightarrow> (string + string) option \<Rightarrow> string \<Rightarrow> range \<Rightarrow> blob_error + (string \<times> int)" where
  "fetch http refresh url r =
     (case fetch_once http 0 url r of
        Inl e \<Rightarrow> Inl e
      | Inr (OnceBody b n) \<Rightarrow> Inr (b, n)
      | Inr (OnceRejected st u) \<Rightarrow>
          (case refresh of
             None \<Rightarrow> Inl (UrlRejected (redact_url u))
           | Some minted \<Rightarrow>
               if \<not> maybe_expired st then Inl (UrlRejected (redact_url u))
               else (case minted of
                       Inl e \<Rightarrow> Inl (UrlRejected ''refreshing failed'')
                     | Inr fresh \<Rightarrow>
                         if fresh = [] \<or> fresh = url then Inl (UrlRejected ''the same URL'')
                         else (case fetch_once http 1 fresh r of
                                 Inl e \<Rightarrow> Inl e
                               | Inr (OnceBody b n) \<Rightarrow> Inr (b, n)
                               | Inr (OnceRejected st' _) \<Rightarrow> Inl (UrlRejected ''after a refresh'')))))"

definition fetch_all ::
  "(string \<Rightarrow> hash) \<Rightarrow> http \<Rightarrow> (string + string) option \<Rightarrow> string \<Rightarrow> hash \<Rightarrow> nat \<Rightarrow> blob_error + string" where
  "fetch_all sha http refresh url expect lim =
     (case fetch http refresh url range_full of
        Inl e \<Rightarrow> Inl e
      | Inr (body, _) \<Rightarrow>
          (let data = (if 0 < lim then take (lim + 1) body else body) in
           if 0 < lim \<and> lim < length data then Inl (TooLarge lim (length data))
           else if \<not> hash_is_zero expect \<and> sha data \<noteq> expect then Inl (DigestMismatch expect (sha data))
           else Inr data))"

record content_range =
  cr_start :: nat
  cr_end :: nat
  cr_total :: int

definition u64_max :: nat where "u64_max = 2 ^ 64 - 1"

definition parse_content_range :: "string \<Rightarrow> blob_error + content_range" where
  "parse_content_range header =
     (let bad = Inl (BlobInvalid ''malformed content-range'') in
      case strip_prefix ''bytes '' (trim header) of
        None \<Rightarrow> bad
      | Some rest \<Rightarrow>
          (case split_once (CHR ''/'') rest of
             None \<Rightarrow> bad
           | Some (rp, tp) \<Rightarrow>
               (case split_once (CHR ''-'') rp of
                  None \<Rightarrow> bad
                | Some (a, b) \<Rightarrow>
                    (case (parse_unsigned u64_max (trim a), parse_unsigned u64_max (trim b),
                           if tp = ''*'' then Some (-1) else parse_i64 (trim tp)) of
                       (Some x, Some y, Some t) \<Rightarrow> Inr \<lparr>cr_start = x, cr_end = y, cr_total = t\<rparr>
                     | _ \<Rightarrow> bad))))"

section \<open>Lemmas\<close>

text \<open>
  A range that can be satisfied reads the bytes from its offset on, no more than asked for, and never
  past the end.
\<close>

lemma clamp_slice:
  "clamp r (length b) = Inr c \<Longrightarrow>
   slice c b = take (if len r = 0 then length b else len r) (drop (offset r) b) \<and>
   offset c = offset r \<and> offset c + len c \<le> length b"
  by (auto simp: clamp_def slice_def range_full_def Let_def split: if_splits)

lemma clamp_fails:
  "clamp r n = Inl e \<longleftrightarrow> e = RangeNotSatisfiable \<and> n \<le> offset r \<and> offset r \<noteq> 0"
  by (auto simp: clamp_def Let_def)

lemma clamp_idem: "clamp r n = Inr c \<Longrightarrow> clamp c n = Inr c"
  by (auto simp: clamp_def range_full_def Let_def split: if_splits)

lemma never_redirect_scriptable:
  "plan_delivery essence c m = RedirectDelivery \<Longrightarrow> presign c \<and> \<not> scriptable_mime essence m"
  by (auto simp: plan_delivery_def split: if_splits)

lemma clamp_ttl_le: "clamp_ttl c ttl \<le> max_presign_ttl c"
  by (simp add: clamp_ttl_def)

lemma disk_open_bytes:
  assumes "disk_open d h r = Inr s"
  shows "\<exists>b. objects d h = Some b \<and> s = take (if len r = 0 then length b else len r) (drop (offset r) b)"
proof -
  from assms obtain b c where "objects d h = Some b" "clamp r (length b) = Inr c" "s = slice c b"
    by (auto simp: disk_open_def disk_stat_def split: sum.splits option.splits if_splits)
  then show ?thesis using clamp_slice by blast
qed

text \<open>A delivery promises the length of what it sends.\<close>

lemma clamp_length:
  "clamp r (length b) = Inr c \<Longrightarrow> length (slice c b) = (if is_full c then length b else len c)"
  by (auto simp: clamp_def slice_def range_full_def is_full_def Let_def split: if_splits)

lemma disk_deliver_size:
  assumes "disk_deliver d h r = Inr (body, n)"
  shows "n = length body \<and> disk_open d h r = Inr body"
proof -
  from assms obtain b c where bc: "\<not> hash_is_zero h" "objects d h = Some b" "clamp r (length b) = Inr c"
    "disk_open d h c = Inr body" "n = (if is_full c then length b else len c)"
    by (auto simp: disk_deliver_def disk_stat_def split: sum.splits option.splits if_splits)
  then have "body = slice c b" using clamp_idem [OF bc(3)] by (simp add: disk_open_def disk_stat_def)
  with bc clamp_length [OF bc(3)] show ?thesis by (simp add: disk_open_def disk_stat_def)
qed

text \<open>What an upload has hashed is what its inode holds, and it stays within its limit.\<close>

definition upload_ok :: "upload \<Rightarrow> bool" where
  "upload_ok u \<longleftrightarrow> up_hashed u = up_inode u \<and> up_written u = length (up_inode u)
     \<and> (0 < up_limit u \<longrightarrow> up_written u \<le> up_limit u)"

lemma create_upload_ok: "disk_create_upload d spec uid now = Inr (d', u) \<Longrightarrow>
    upload_ok u \<and> up_inode u = [] \<and> objects d' = objects d"
  by (auto simp: disk_create_upload_def upload_ok_def Let_def split: if_splits)

lemma upload_write_ok:
  "upload_write d u p now = (d', u', x) \<Longrightarrow> upload_ok u \<Longrightarrow>
     upload_ok u' \<and> objects d' = objects d \<and> up_inode u' = up_inode u @ (if x = Inr () then p else []) \<and>
     up_limit u' = up_limit u \<and> up_declared u' = up_declared u"
  by (auto simp: upload_write_def upload_ok_def split: if_splits)

definition addressed :: "(string \<Rightarrow> hash) \<Rightarrow> disk \<Rightarrow> bool" where
  "addressed sha d \<longleftrightarrow> (\<forall>h b. objects d h = Some b \<longrightarrow> sha b = h)"

text \<open>
  A seal publishes under the digest of the bytes, or publishes nothing; it never changes another
  object, and a declared digest that is not the computed one publishes nothing.
\<close>

lemma seal_publish_spec:
  assumes "seal_publish d u h = (d', u', x)"
  shows "case x of
      Inl _ \<Rightarrow> objects d' = objects d
    | Inr s \<Rightarrow> se_hash s = h \<and>
        objects d' = (objects d)(h := Some (case objects d h of None \<Rightarrow> up_inode u | Some b \<Rightarrow> b)) \<and>
        se_size s = (case objects d h of None \<Rightarrow> up_written u | Some b \<Rightarrow> length b)"
  using assms
  by (auto simp: seal_publish_def remove_temp_def Let_def fun_upd_idem split: option.splits if_splits)

lemma upload_seal_spec:
  assumes "upload_seal sha d u = (d', u', x)" "upload_ok u" "addressed sha d"
  shows "addressed sha d' \<and> (\<forall>h. objects d h \<noteq> None \<longrightarrow> objects d' h = objects d h) \<and>
    (case x of
       Inl _ \<Rightarrow> objects d' = objects d
     | Inr s \<Rightarrow> se_hash s = sha (up_inode u) \<and> objects d' (se_hash s) \<noteq> None \<and>
         (\<forall>dh. up_declared u = Some dh \<longrightarrow> dh = se_hash s))"
proof -
  have pub: ?thesis if "seal_publish d u (sha (up_hashed u)) = (d', u', x)"
      "\<forall>dh. up_declared u = Some dh \<longrightarrow> dh = sha (up_hashed u)"
    using seal_publish_spec [OF that(1)] that(2) assms(2,3)
    by (cases x) (auto simp: addressed_def upload_ok_def split: option.splits if_splits)
  have ab: ?thesis if "objects d' = objects d" "\<exists>e. x = Inl e"
    using that assms(3) by (auto simp: addressed_def)
  have "objects (fst (upload_abort d u)) = objects d"
    by (simp add: upload_abort_def remove_temp_def)
  with assms(1) consider
    "seal_publish d u (sha (up_hashed u)) = (d', u', x)" "\<forall>dh. up_declared u = Some dh \<longrightarrow> dh = sha (up_hashed u)"
  | "objects d' = objects d" "\<exists>e. x = Inl e"
    by (auto simp: upload_seal_def Let_def split: option.splits if_splits prod.splits)
  then show ?thesis using pub ab by cases
qed

lemma copy_chunks_spec:
  assumes "copy_chunks sha d u ps = (d', u', x)" "upload_ok u" "addressed sha d"
  shows "addressed sha d' \<and> (\<forall>h. objects d h \<noteq> None \<longrightarrow> objects d' h = objects d h) \<and>
    (case x of
       Inl _ \<Rightarrow> objects d' = objects d
     | Inr s \<Rightarrow> se_hash s = sha (up_inode u @ concat (map fst ps)) \<and> objects d' (se_hash s) \<noteq> None \<and>
         (\<forall>dh. up_declared u = Some dh \<longrightarrow> dh = se_hash s))"
  using assms
proof (induction sha d u ps rule: copy_chunks.induct)
  case (1 sha d u)
  from "1.prems" show ?case using upload_seal_spec [of sha d u d' u' x] by (cases x) auto
next
  case (2 sha d u p now ps)
  obtain d1 u1 y where w: "upload_write d u p now = (d1, u1, y)" by (metis prod_cases3)
  note ok = upload_write_ok [OF w "2.prems"(2)]
  then have a1: "addressed sha d1" using "2.prems"(3) by (simp add: addressed_def)
  show ?case
  proof (cases y)
    case (Inl e)
    with w ok a1 "2.prems"(1) show ?thesis by auto
  next
    case (Inr z)
    with w "2.prems"(1) have "copy_chunks sha d1 u1 ps = (d', u', x)" by simp
    from "2.IH" [OF w [symmetric] _ Inr this _ a1] ok Inr show ?thesis
      by (auto split: sum.splits)
  qed
qed

text \<open>
  A fetch asks at most twice, never accepts a whole object for a range or a slice for the whole, and
  what \<open>fetch_all\<close> returns hashes to the digest asked for and fits the limit.
\<close>

lemma fetch_once_body:
  "fetch_once http n url r = Inr (OnceBody b l) \<Longrightarrow>
   \<exists>resp. http n url (range_header r) = Inr resp \<and> h_body resp = b \<and> h_status resp = (if is_full r then 200 else 206)"
  by (auto simp: fetch_once_def Let_def split: sum.splits if_splits)

lemma fetch_status:
  assumes "fetch http refresh url r = Inr (b, l)"
  obtains n u resp where "n \<le> 1" "http n u (range_header r) = Inr resp" "h_body resp = b"
    "h_status resp = (if is_full r then 200 else 206)"
proof -
  from assms have "\<exists>n u. n \<le> 1 \<and> fetch_once http n u r = Inr (OnceBody b l)"
    by (auto simp: fetch_def split: sum.splits once.splits option.splits if_splits)
  then show thesis using that fetch_once_body by metis
qed

lemma fetch_all_verified:
  "fetch_all sha http refresh url expect lim = Inr data \<Longrightarrow>
   (hash_is_zero expect \<or> sha data = expect) \<and> (0 < lim \<longrightarrow> length data \<le> lim)"
  by (auto simp: fetch_all_def Let_def split: sum.splits if_splits)

end
