(* ===== verification/Hive_Lifecycle.thy ===== *)
theory Hive_Lifecycle
  imports Hive_Prelude
begin

text \<open>
  The contract every queue of the store shares: rows that carry a state, operations that move it along
  the edges of a small graph and never drop a row. What follows for any sequence of operations is
  proved here once; the chat turns, the agent runs and the model jobs interpret it on their own
  tables and operations.
\<close>

locale lifecycle =
  fixes state_of :: "'db \<Rightarrow> 'k \<Rightarrow> 'st option"
    and step :: "'db \<Rightarrow> 'db \<Rightarrow> bool"
    and edge :: "'st \<Rightarrow> 'st \<Rightarrow> bool"
  assumes step_edge: "step d d' \<Longrightarrow> state_of d k = Some a \<Longrightarrow> \<exists>b. state_of d' k = Some b \<and> (b = a \<or> edge a b)"
begin

text \<open>Over any number of steps a row's state follows the graph.\<close>

lemma steps_edges:
  assumes "step\<^sup>*\<^sup>* d d'" "state_of d k = Some a"
  shows "\<exists>b. state_of d' k = Some b \<and> edge\<^sup>*\<^sup>* a b"
  using assms(1)
proof (induction rule: rtranclp_induct)
  case base
  then show ?case using assms(2) by blast
next
  case (step y z)
  then obtain b where "state_of y k = Some b" "edge\<^sup>*\<^sup>* a b" by blast
  with step.hyps(2) step_edge obtain c where "state_of z k = Some c" "c = b \<or> edge b c" by blast
  with \<open>edge\<^sup>*\<^sup>* a b\<close> show ?case by (metis rtranclp.rtrancl_into_rtrancl)
qed

text \<open>A state with no way out is kept for ever.\<close>

lemma terminal_kept:
  assumes "step\<^sup>*\<^sup>* d d'" "state_of d k = Some a" "\<And>b. \<not> edge a b"
  shows "state_of d' k = Some a"
proof -
  from steps_edges [OF assms(1,2)] obtain b where b: "state_of d' k = Some b" "edge\<^sup>*\<^sup>* a b" by blast
  from b(2) assms(3) have "a = b" by (metis converse_rtranclpE)
  with b(1) show ?thesis by simp
qed

text \<open>A state that has been left for one from which there is no way back never recurs.\<close>

lemma no_return:
  assumes "step\<^sup>*\<^sup>* d d'" "state_of d k = Some b" "\<not> edge\<^sup>*\<^sup>* b a"
  shows "state_of d' k \<noteq> Some a"
  using steps_edges [OF assms(1,2)] assms(3) by auto

end

text \<open>Reading a keyed table after an update that keeps the keys.\<close>

definition state_in :: "('r \<Rightarrow> 'k) \<Rightarrow> ('r \<Rightarrow> 'st) \<Rightarrow> 'r list \<Rightarrow> 'k \<Rightarrow> 'st option" where
  "state_in key st rows k = map_option st (List.find (\<lambda>r. key r = k) rows)"

lemma state_in_update:
  assumes "\<And>r. p r \<Longrightarrow> key (f r) = key r"
  shows "state_in key st (update_rows p f rows) k =
    map_option (\<lambda>r. if p r then st (f r) else st r) (List.find (\<lambda>r. key r = k) rows)"
  unfolding state_in_def
  by (simp add: find_key_update_rows [of p key f, OF assms] option.map_comp comp_def if_distrib)

text \<open>An update that moves every row it touches along an edge respects the graph.\<close>

lemma update_follows:
  assumes "\<And>r. p r \<Longrightarrow> key (f r) = key r" "\<And>r. p r \<Longrightarrow> st (f r) = st r \<or> edge (st r) (st (f r))"
    and "state_in key st rows k = Some a"
  shows "\<exists>b. state_in key st (update_rows p f rows) k = Some b \<and> (b = a \<or> edge a b)"
proof -
  from assms(3) obtain r where r: "List.find (\<lambda>r. key r = k) rows = Some r" "a = st r"
    by (auto simp: state_in_def)
  have "state_in key st (update_rows p f rows) k = Some (if p r then st (f r) else st r)"
    using state_in_update [of p key f st rows k, OF assms(1)] r(1) by simp
  then show ?thesis using assms(2) [of r] r(2) by auto
qed

lemma append_follows:
  "state_in key st rows k = Some a \<Longrightarrow> state_in key st (rows @ more) k = Some a"
  by (auto simp: state_in_def find_append split: option.splits)

end
