(* ===== verification/Hive_Catalog.thy ===== *)
theory Hive_Catalog
  imports Hive_Disk Hive_Lifecycle Hive_Predicate
begin

text \<open>
  The reference layer (\<open>crates/hive-blob/src/catalog.rs\<close>, \<open>relocate.rs\<close> and the tables blobs and
  blob_refs of migration one). A column that the CHECKs keep to hex addresses holds the address itself,
  which the round trip of addresses justifies; a recipe is the text of its JSON value, so that the
  column's check holds. Writers take the caller's transaction and an error drops it, so an operation
  that fails returns no tables. Clock readings and fresh ids are arguments. The actors the foreign
  keys name are read from the control-plane tables, which the catalog never changes.
\<close>

section \<open>Enums\<close>

datatype source_kind =
    SrcUpload | SrcCollection | SrcModule | SrcGuestSource | SrcTranscript | SrcSpool
  | SrcScreenshot | SrcStepOutput | SrcHarnessDiff | SrcWorkflowInput

definition source_kind_all :: "source_kind list" where
  "source_kind_all =
     [SrcUpload, SrcCollection, SrcModule, SrcGuestSource, SrcTranscript, SrcSpool,
      SrcScreenshot, SrcStepOutput, SrcHarnessDiff, SrcWorkflowInput]"

fun source_kind_as_str :: "source_kind \<Rightarrow> string" where
  "source_kind_as_str SrcUpload = ''upload''"
| "source_kind_as_str SrcCollection = ''collection''"
| "source_kind_as_str SrcModule = ''module''"
| "source_kind_as_str SrcGuestSource = ''guest_source''"
| "source_kind_as_str SrcTranscript = ''transcript''"
| "source_kind_as_str SrcSpool = ''spool''"
| "source_kind_as_str SrcScreenshot = ''screenshot''"
| "source_kind_as_str SrcStepOutput = ''step_output''"
| "source_kind_as_str SrcHarnessDiff = ''harness_diff''"
| "source_kind_as_str SrcWorkflowInput = ''workflow_input''"

definition source_kind_parse :: "string \<Rightarrow> source_kind option" where
  "source_kind_parse s = List.find (\<lambda>k. source_kind_as_str k = s) source_kind_all"

datatype blob_state = BlobPending | BlobLive | BlobEvicted | BlobTrashed

fun blob_state_as_str :: "blob_state \<Rightarrow> string" where
  "blob_state_as_str BlobPending = ''pending''"
| "blob_state_as_str BlobLive = ''live''"
| "blob_state_as_str BlobEvicted = ''evicted''"
| "blob_state_as_str BlobTrashed = ''trashed''"

definition blob_state_parse :: "string \<Rightarrow> blob_state option" where
  "blob_state_parse s =
     (if s = ''pending'' then Some BlobPending
      else if s = ''live'' then Some BlobLive
      else if s = ''evicted'' then Some BlobEvicted
      else if s = ''trashed'' then Some BlobTrashed
      else None)"

interpretation sc: column_codec source_kind_as_str source_kind_parse
proof
  show "source_kind_parse (source_kind_as_str x) = Some x" for x
    by (cases x) (simp_all add: source_kind_parse_def source_kind_all_def)
qed

interpretation bs: column_codec blob_state_as_str blob_state_parse
proof
  show "blob_state_parse (blob_state_as_str x) = Some x" for x
    by (cases x) (simp_all add: blob_state_parse_def)
qed

section \<open>Tables\<close>

record blob_row =
  bl_hash :: hash
  bl_size :: int
  bl_mime :: string
  bl_driver :: string
  bl_driver_ref :: "string option"
  bl_state :: blob_state
  bl_class :: blob_class
  bl_source_hash :: "hash option"
  bl_recipe :: "string option"
  bl_created_at :: time
  bl_live_at :: "time option"
  bl_trashed_at :: "time option"

record blob_ref =
  br_id :: uuid
  br_hash :: hash
  br_owner :: owner
  br_author :: uuid
  br_source_kind :: source_kind
  br_source_id :: string
  br_trust :: level
  br_created_at :: time
  br_released_at :: "time option"

record blob_db =
  blobs :: "blob_row list"
  blob_refs :: "blob_ref list"

definition blob_checks :: "blob_row \<Rightarrow> bool" where
  "blob_checks r \<longleftrightarrow>
     0 \<le> bl_size r
   \<and> (bl_state r = BlobLive \<longrightarrow> bl_driver_ref r \<noteq> None)
   \<and> (bl_state r = BlobTrashed \<longleftrightarrow> bl_trashed_at r \<noteq> None)
   \<and> (bl_state r = BlobEvicted \<longrightarrow>
        evictable (bl_class r) \<and> bl_source_hash r \<noteq> None \<and> bl_recipe r \<noteq> None)"

definition find_blob :: "blob_db \<Rightarrow> hash \<Rightarrow> blob_row option" where
  "find_blob bd h = List.find (\<lambda>r. bl_hash r = h) (blobs bd)"

definition live_ref :: "hash \<Rightarrow> blob_ref \<Rightarrow> bool" where
  "live_ref h r \<longleftrightarrow> br_hash r = h \<and> br_released_at r = None"

definition referenced :: "blob_db \<Rightarrow> hash \<Rightarrow> bool" where
  "referenced bd h \<longleftrightarrow> (\<exists>r \<in> set (blob_refs bd). live_ref h r)"

section \<open>What a producer supplies\<close>

record ref_spec =
  rs_cred :: credential
  rs_source_kind :: source_kind
  rs_source_id :: string
  rs_trust :: level

definition ref_spec_validate :: "ref_spec \<Rightarrow> blob_error + unit" where
  "ref_spec_validate s =
     (case credential_validate (rs_cred s) of
        Inl _ \<Rightarrow> Inl (BlobInvalid ''credential'')
      | Inr _ \<Rightarrow> if rs_source_id s = [] then Inl (BlobInvalid ''ref needs a source id'') else Inr ())"

record provenance =
  pv_class :: "blob_class option"
  pv_source_hash :: "hash option"
  pv_recipe :: "string option"

definition provenance_original :: provenance where
  "provenance_original = \<lparr>pv_class = Some ClassOriginal, pv_source_hash = None, pv_recipe = None\<rparr>"

definition provenance_capture :: provenance where
  "provenance_capture = \<lparr>pv_class = Some ClassCapture, pv_source_hash = None, pv_recipe = None\<rparr>"

definition provenance_validate :: "provenance \<Rightarrow> blob_error + blob_class" where
  "provenance_validate p =
     (case pv_class p of
        None \<Rightarrow> Inl (BlobInvalid ''unknown class'')
      | Some c \<Rightarrow>
          if \<not> evictable c then Inr c
          else if (case pv_source_hash p of Some h \<Rightarrow> hash_is_zero h | None \<Rightarrow> True)
          then Inl (BlobInvalid ''evictable and needs a source hash'')
          else if pv_recipe p = None then Inl (BlobInvalid ''evictable and needs a recipe'')
          else Inr c)"

definition source_hash_text :: "provenance \<Rightarrow> hash option" where
  "source_hash_text p =
     (case pv_source_hash p of Some h \<Rightarrow> if hash_is_zero h then None else Some h | None \<Rightarrow> None)"

definition default_mime :: string where
  "default_mime = ''application/octet-stream''"

section \<open>Writing\<close>

definition new_blob :: "hash \<Rightarrow> nat \<Rightarrow> string \<Rightarrow> string \<Rightarrow> blob_class \<Rightarrow> provenance \<Rightarrow> time \<Rightarrow> blob_row" where
  "new_blob h sz mime driver c prov now =
     \<lparr>bl_hash = h, bl_size = as_i64 sz, bl_mime = mime, bl_driver = driver, bl_driver_ref = None,
      bl_state = BlobPending, bl_class = c, bl_source_hash = source_hash_text prov,
      bl_recipe = pv_recipe prov, bl_created_at = now, bl_live_at = None, bl_trashed_at = None\<rparr>"

text \<open>The foreign key on the source is checked at the end of the statement: a row may name itself.\<close>

definition insert_blob :: "blob_db \<Rightarrow> blob_row \<Rightarrow> blob_error + blob_db" where
  "insert_blob bd r =
     (if (case bl_source_hash r of None \<Rightarrow> False | Some s \<Rightarrow> s \<noteq> bl_hash r \<and> find_blob bd s = None)
      then Inl (BlobDb ForeignKeyViolation)
      else Inr (bd\<lparr>blobs := blobs bd @ [r]\<rparr>))"

definition reserve ::
  "string \<Rightarrow> blob_db \<Rightarrow> hash \<Rightarrow> nat \<Rightarrow> string \<Rightarrow> provenance \<Rightarrow> time \<Rightarrow> blob_error + (blob_db \<times> blob_state)" where
  "reserve driver bd h sz mime prov now =
     (if hash_is_zero h then Inl MalformedHash
      else (case provenance_validate prov of
              Inl e \<Rightarrow> Inl e
            | Inr c \<Rightarrow>
                (let r = new_blob h sz (if mime = [] then default_mime else mime) driver c prov now in
                 if \<not> blob_checks r then Inl (BlobDb (CheckViolation ''blobs''))
                 else (case find_blob bd h of
                         Some old \<Rightarrow> Inr (bd, bl_state old)
                       | None \<Rightarrow>
                           (case insert_blob bd r of
                              Inl e \<Rightarrow> Inl e
                            | Inr bd' \<Rightarrow> Inr (bd', BlobPending))))))"

definition same_ref :: "hash \<Rightarrow> ref_spec \<Rightarrow> blob_ref \<Rightarrow> bool" where
  "same_ref h s r \<longleftrightarrow>
     br_hash r = h \<and> br_owner r = owner_of (rs_cred s)
   \<and> br_source_kind r = rs_source_kind s \<and> br_source_id r = rs_source_id s"

text \<open>The DO UPDATE of the upsert: revive, attribute a revival to who revived it, never raise trust.\<close>

definition revive_ref :: "uuid \<Rightarrow> level \<Rightarrow> blob_ref \<Rightarrow> blob_ref" where
  "revive_ref author l r =
     r\<lparr>br_released_at := None,
       br_author := (if br_released_at r \<noteq> None then author else br_author r),
       br_trust := (if br_trust r = Untrusted \<or> l = Untrusted then Untrusted else Trusted)\<rparr>"

definition insert_ref ::
  "'z core_db_scheme \<Rightarrow> blob_db \<Rightarrow> hash \<Rightarrow> ref_spec \<Rightarrow> level \<Rightarrow> uuid \<Rightarrow> time \<Rightarrow> blob_error + (blob_db \<times> blob_ref)" where
  "insert_ref db bd h s l i now =
     (let author = actor_id (rs_cred s); w = owner_of (rs_cred s) in
      case List.find (same_ref h s) (blob_refs bd) of
        Some old \<Rightarrow>
          if br_released_at old \<noteq> None \<and> find_actor db author = None then Inl (BlobDb ForeignKeyViolation)
          else Inr (bd\<lparr>blob_refs := update_rows (same_ref h s) (revive_ref author l) (blob_refs bd)\<rparr>,
                    revive_ref author l old)
      | None \<Rightarrow>
          (let r = \<lparr>br_id = i, br_hash = h, br_owner = w, br_author = author,
                    br_source_kind = rs_source_kind s, br_source_id = rs_source_id s, br_trust = l,
                    br_created_at = now, br_released_at = None\<rparr> in
           if \<exists>r' \<in> set (blob_refs bd). br_id r' = i then Inl (BlobDb UniqueViolation)
           else if find_blob bd h = None \<or> find_actor db (o_id w) = None \<or> find_actor db author = None
           then Inl (BlobDb ForeignKeyViolation)
           else Inr (bd\<lparr>blob_refs := blob_refs bd @ [r]\<rparr>, r)))"

text \<open>\<open>UPDATE blobs SET state = 'live'\<close> with its checks and the trigger that asks for a reference.\<close>

definition flip_live :: "blob_db \<Rightarrow> hash \<Rightarrow> string \<Rightarrow> time \<Rightarrow> blob_error + (blob_db \<times> nat)" where
  "flip_live bd h key now =
     (let p = (\<lambda>r. bl_hash r = h \<and> bl_state r \<in> {BlobPending, BlobLive, BlobEvicted});
          f = (\<lambda>r. r\<lparr>bl_state := BlobLive, bl_driver_ref := Some key,
                     bl_live_at := (case bl_live_at r of None \<Rightarrow> Some now | x \<Rightarrow> x)\<rparr>)
      in if \<exists>r \<in> set (blobs bd). p r \<and> \<not> blob_checks (f r) then Inl (BlobDb (CheckViolation ''blobs''))
         else if (\<exists>r \<in> set (blobs bd). p r) \<and> \<not> referenced bd h
         then Inl (BlobDb (TriggerAbort ''blob cannot go live with no reference''))
         else Inr (bd\<lparr>blobs := update_rows p f (blobs bd)\<rparr>, count_rows p (blobs bd)))"

definition trashed_refusal :: blob_error where
  "trashed_refusal = BlobInvalid ''refusing to publish over a trashed blob''"

definition publish ::
  "'z core_db_scheme \<Rightarrow> (hash \<Rightarrow> string) \<Rightarrow> string \<Rightarrow> blob_db \<Rightarrow> sealed \<Rightarrow> string \<Rightarrow> provenance \<Rightarrow> ref_spec
   \<Rightarrow> uuid \<Rightarrow> time \<Rightarrow> time \<Rightarrow> blob_error + (blob_db \<times> descriptor \<times> blob_ref)" where
  "publish db enc driver bd se mime0 prov s i now now2 =
     (let h = se_hash se; mime = (if mime0 = [] then default_mime else mime0) in
      if hash_is_zero h then Inl MalformedHash
      else (case provenance_validate prov of
              Inl e \<Rightarrow> Inl e
            | Inr c \<Rightarrow>
      (case ref_spec_validate s of
         Inl e \<Rightarrow> Inl e
       | Inr _ \<Rightarrow>
      (let existing = map_option bl_state (find_blob bd h) in
       if existing = Some BlobTrashed then Inl trashed_refusal
       else
         (case (if existing = None
                then (let r = new_blob h (se_size se) mime driver c prov now in
                      if \<not> blob_checks r then Inl (BlobDb (CheckViolation ''blobs'')) else insert_blob bd r)
                else Inr bd) of
            Inl e \<Rightarrow> Inl e
          | Inr bd1 \<Rightarrow>
         (case insert_ref db bd1 h s (rs_trust s) i now2 of
            Inl e \<Rightarrow> Inl e
          | Inr (bd2, r) \<Rightarrow>
         (case flip_live bd2 h (hash_key enc h) now of
            Inl e \<Rightarrow> Inl e
          | Inr (bd3, n) \<Rightarrow>
              if n = 0 then Inl trashed_refusal
              else Inr (bd3, \<lparr>d_hash = h, d_size = se_size se, d_mime = mime\<rparr>, r))))))))"

definition require_referenceable :: "blob_db \<Rightarrow> hash \<Rightarrow> blob_error + unit" where
  "require_referenceable bd h =
     (case find_blob bd h of
        None \<Rightarrow> Inl (BlobNotFound [] h)
      | Some r \<Rightarrow> if bl_state r = BlobTrashed then Inl (BlobNotFound ''is trashed'' h) else Inr ())"

definition add_ref ::
  "'z core_db_scheme \<Rightarrow> blob_db \<Rightarrow> sealed \<Rightarrow> ref_spec \<Rightarrow> uuid \<Rightarrow> time \<Rightarrow> blob_error + (blob_db \<times> blob_ref)" where
  "add_ref db bd se s i now =
     (case ref_spec_validate s of
        Inl e \<Rightarrow> Inl e
      | Inr _ \<Rightarrow>
          if hash_is_zero (se_hash se) then Inl MalformedHash
          else (case require_referenceable bd (se_hash se) of
                  Inl e \<Rightarrow> Inl e
                | Inr _ \<Rightarrow> insert_ref db bd (se_hash se) s (rs_trust s) i now))"

text \<open>The join has one blob row, so the GROUP BY gives one row or none.\<close>

definition resolve :: "blob_db \<Rightarrow> credential \<Rightarrow> hash \<Rightarrow> blob_error + (descriptor \<times> level)" where
  "resolve bd c h =
     (case credential_validate c of
        Inl _ \<Rightarrow> Inl (BlobInvalid ''credential'')
      | Inr _ \<Rightarrow>
          if hash_is_zero h then Inl MalformedHash
          else (let held = filter (\<lambda>r. live_ref h r \<and> br_owner r = owner_of c) (blob_refs bd) in
                case find_blob bd h of
                  None \<Rightarrow> Inl (BlobNotFound [] h)
                | Some b \<Rightarrow>
                    if held = [] \<or> bl_state b \<noteq> BlobLive then Inl (BlobNotFound [] h)
                    else Inr (\<lparr>d_hash = h, d_size = as_u64 (bl_size b), d_mime = bl_mime b\<rparr>,
                              if \<exists>r \<in> set held. br_trust r = Untrusted then Untrusted else Trusted)))"

definition link_ref ::
  "'z core_db_scheme \<Rightarrow> blob_db \<Rightarrow> credential \<Rightarrow> hash \<Rightarrow> ref_spec \<Rightarrow> uuid \<Rightarrow> time
   \<Rightarrow> blob_error + (blob_db \<times> blob_ref)" where
  "link_ref db bd c h s i now =
     (case ref_spec_validate s of
        Inl e \<Rightarrow> Inl e
      | Inr _ \<Rightarrow>
     (case credential_validate c of
        Inl _ \<Rightarrow> Inl (BlobInvalid ''credential'')
      | Inr _ \<Rightarrow>
          if owner_of (rs_cred s) \<noteq> owner_of c
          then Inl (BlobInvalid ''link_ref cannot write a reference owned by another principal'')
          else
     (case resolve bd c h of
        Inl e \<Rightarrow> Inl e
      | Inr (_, held) \<Rightarrow>
     (case require_referenceable bd h of
        Inl e \<Rightarrow> Inl e
      | Inr _ \<Rightarrow> insert_ref db bd h s (weaker (rs_trust s) held) i now))))"

definition open_blob :: "blob_db \<Rightarrow> disk \<Rightarrow> credential \<Rightarrow> hash \<Rightarrow> range \<Rightarrow> blob_error + (descriptor \<times> level \<times> string)" where
  "open_blob bd d c h r =
     (case resolve bd c h of
        Inl e \<Rightarrow> Inl e
      | Inr (desc, l) \<Rightarrow>
          (case disk_open d h r of Inl e \<Rightarrow> Inl e | Inr body \<Rightarrow> Inr (desc, l, body)))"

definition by_source :: "credential \<Rightarrow> source_kind \<Rightarrow> string \<Rightarrow> blob_ref \<Rightarrow> bool" where
  "by_source c k sid r \<longleftrightarrow>
     br_owner r = owner_of c \<and> br_source_kind r = k \<and> br_source_id r = sid \<and> br_released_at r = None"

definition release :: "blob_db \<Rightarrow> credential \<Rightarrow> hash \<Rightarrow> source_kind \<Rightarrow> string \<Rightarrow> time \<Rightarrow> blob_error + blob_db" where
  "release bd c h k sid now =
     (case credential_validate c of
        Inl _ \<Rightarrow> Inl (BlobInvalid ''credential'')
      | Inr _ \<Rightarrow>
          (let p = (\<lambda>r. br_hash r = h \<and> by_source c k sid r) in
           if count_rows p (blob_refs bd) = 0 then Inl (BlobNotFound ''no live reference to'' h)
           else Inr (bd\<lparr>blob_refs := update_rows p (\<lambda>r. r\<lparr>br_released_at := Some now\<rparr>) (blob_refs bd)\<rparr>)))"

definition release_by_source ::
  "blob_db \<Rightarrow> credential \<Rightarrow> source_kind \<Rightarrow> string \<Rightarrow> time \<Rightarrow> blob_error + (blob_db \<times> nat)" where
  "release_by_source bd c k sid now =
     (case credential_validate c of
        Inl _ \<Rightarrow> Inl (BlobInvalid ''credential'')
      | Inr _ \<Rightarrow>
          if sid = [] then Inl (BlobInvalid ''release_by_source needs a source id'')
          else Inr (bd\<lparr>blob_refs := update_rows (by_source c k sid) (\<lambda>r. r\<lparr>br_released_at := Some now\<rparr>) (blob_refs bd)\<rparr>,
                    count_rows (by_source c k sid) (blob_refs bd)))"

definition held_by_source :: "blob_db \<Rightarrow> credential \<Rightarrow> source_kind \<Rightarrow> string \<Rightarrow> blob_error + hash list" where
  "held_by_source bd c k sid =
     (case credential_validate c of
        Inl _ \<Rightarrow> Inl (BlobInvalid ''credential'')
      | Inr _ \<Rightarrow>
          Inr (map br_hash (sort_key (\<lambda>r. (br_created_at r, br_id r))
                 (filter (by_source c k sid) (blob_refs bd)))))"

definition live_ref_count :: "blob_db \<Rightarrow> hash \<Rightarrow> nat" where
  "live_ref_count bd h = count_rows (live_ref h) (blob_refs bd)"

definition page_limit :: "int \<Rightarrow> int" where
  "page_limit n = (if n \<le> 0 then 100 else n)"

definition unreferenced :: "blob_db \<Rightarrow> time \<Rightarrow> int \<Rightarrow> hash list" where
  "unreferenced bd older_than lim =
     map bl_hash (limit_rows (page_limit lim) (sort_key bl_created_at
       (filter (\<lambda>b. bl_state b = BlobLive \<and> bl_created_at b < older_than \<and> \<not> referenced bd (bl_hash b))
         (blobs bd))))"

definition trash :: "blob_db \<Rightarrow> hash \<Rightarrow> time \<Rightarrow> blob_db \<times> bool" where
  "trash bd h now =
     (let p = (\<lambda>b. bl_hash b = h \<and> bl_state b \<in> {BlobLive, BlobEvicted} \<and> \<not> referenced bd h) in
      (bd\<lparr>blobs := update_rows p (\<lambda>b. b\<lparr>bl_state := BlobTrashed, bl_trashed_at := Some now\<rparr>) (blobs bd)\<rparr>,
       count_rows p (blobs bd) = 1))"

definition delete_trashed_bytes :: "blob_db \<Rightarrow> disk \<Rightarrow> hash \<Rightarrow> blob_error + disk" where
  "delete_trashed_bytes bd d h =
     (case find_blob bd h of
        None \<Rightarrow> Inl (BlobNotFound [] h)
      | Some b \<Rightarrow>
          if bl_state b \<noteq> BlobTrashed then Inl (BlobInvalid ''refusing to delete bytes'')
          else Inr (disk_delete d h))"

section \<open>Moving bytes between drivers\<close>

definition relocate_pending :: "blob_db \<Rightarrow> string \<Rightarrow> int \<Rightarrow> hash list" where
  "relocate_pending bd src lim =
     map bl_hash (limit_rows (page_limit lim) (sort_key bl_created_at
       (filter (\<lambda>b. bl_driver b = src \<and> bl_state b = BlobLive) (blobs bd))))"

definition relocator_new :: "string \<Rightarrow> string \<Rightarrow> blob_error + unit" where
  "relocator_new src dst =
     (if src = dst then Inl (BlobInvalid ''source and destination are the same driver'') else Inr ())"

record relocation =
  rl_db :: blob_db
  rl_src :: disk
  rl_dst :: disk

text \<open>The guarded UPDATE, and the delete on the source where it changed a row.\<close>

definition repoint :: "(hash \<Rightarrow> string) \<Rightarrow> string \<Rightarrow> string \<Rightarrow> relocation \<Rightarrow> disk \<Rightarrow> hash \<Rightarrow> relocation" where
  "repoint enc src dst s d1 h =
     (let p = (\<lambda>b. bl_hash b = h \<and> bl_driver b = src \<and> bl_state b = BlobLive); t = blobs (rl_db s)
      in if count_rows p t = 0 then s\<lparr>rl_dst := d1\<rparr>
         else s\<lparr>rl_dst := d1,
                rl_db := (rl_db s)\<lparr>blobs := update_rows p
                  (\<lambda>b. b\<lparr>bl_driver := dst, bl_driver_ref := Some (hash_key enc h)\<rparr>) t\<rparr>,
                rl_src := disk_delete (rl_src s) h\<rparr>)"

text \<open>
  One blob: the reads of the copy loop split what was opened into chunks, and the tables are the ones
  found at the UPDATE, after the copy.
\<close>

definition relocate_one ::
  "(string \<Rightarrow> hash) \<Rightarrow> (hash \<Rightarrow> string) \<Rightarrow> string \<Rightarrow> string \<Rightarrow> (string \<Rightarrow> (string \<times> time) list)
   \<Rightarrow> relocation \<Rightarrow> hash \<Rightarrow> string \<Rightarrow> time \<Rightarrow> relocation \<times> (blob_error + unit)" where
  "relocate_one sha enc src dst reads s h uid now =
     (case disk_stat (rl_src s) h of
        Inl e \<Rightarrow> (s, Inl (BlobBackend ''stat''))
      | Inr info \<Rightarrow>
     (case disk_open (rl_src s) h range_full of
        Inl e \<Rightarrow> (s, Inl (BlobBackend ''open''))
      | Inr body \<Rightarrow>
     (case disk_create_upload (rl_dst s)
             \<lparr>declared_hash = Some h, declared_size = oi_size info, upload_limit = 0\<rparr> uid now of
        Inl e \<Rightarrow> (s, Inl (BlobBackend ''begin upload''))
      | Inr (d0, u0) \<Rightarrow>
     (case copy_chunks sha d0 u0 (reads body) of
        (d1, u1, Inl e) \<Rightarrow> (s\<lparr>rl_dst := fst (upload_abort d1 u1)\<rparr>, Inl (BlobBackend ''copy''))
      | (d1, u1, Inr se) \<Rightarrow>
          if se_hash se \<noteq> h
          then (s\<lparr>rl_dst := disk_delete d1 (se_hash se)\<rparr>, Inl (BlobBackend ''source is corrupt''))
          else
            (repoint enc src dst s d1 h, Inr ())))))"

fun relocate_each ::
  "(string \<Rightarrow> hash) \<Rightarrow> (hash \<Rightarrow> string) \<Rightarrow> string \<Rightarrow> string \<Rightarrow> (string \<Rightarrow> (string \<times> time) list)
   \<Rightarrow> relocation \<Rightarrow> (hash \<times> string \<times> time) list \<Rightarrow> relocation \<times> nat \<times> blob_error option" where
  "relocate_each sha enc src dst reads s [] = (s, 0, None)"
| "relocate_each sha enc src dst reads s ((h, uid, now) # hs) =
     (case relocate_one sha enc src dst reads s h uid now of
        (s', Inl e) \<Rightarrow> (s', 0, Some e)
      | (s', Inr _) \<Rightarrow>
          (case relocate_each sha enc src dst reads s' hs of (s'', n, x) \<Rightarrow> (s'', Suc n, x)))"

definition relocate_run ::
  "(string \<Rightarrow> hash) \<Rightarrow> (hash \<Rightarrow> string) \<Rightarrow> string \<Rightarrow> string \<Rightarrow> (string \<Rightarrow> (string \<times> time) list)
   \<Rightarrow> relocation \<Rightarrow> int \<Rightarrow> (nat \<Rightarrow> string \<times> time) \<Rightarrow> relocation \<times> nat \<times> blob_error option" where
  "relocate_run sha enc src dst reads s lim fresh =
     (let hs = relocate_pending (rl_db s) src lim
      in relocate_each sha enc src dst reads s (map (\<lambda>(n, h). (h, fresh n)) (enumerate 0 hs)))"

section \<open>States of a blob and of its references\<close>

abbreviation bstate :: "blob_db \<Rightarrow> hash \<Rightarrow> blob_state option" where
  "bstate bd \<equiv> state_in bl_hash bl_state (blobs bd)"

abbreviation rtrust :: "blob_db \<Rightarrow> uuid \<Rightarrow> level option" where
  "rtrust bd \<equiv> state_in br_id br_trust (blob_refs bd)"

fun blob_edge :: "blob_state \<Rightarrow> blob_state \<Rightarrow> bool" where
  "blob_edge BlobPending b = (b = BlobLive)"
| "blob_edge BlobLive b = (b = BlobTrashed)"
| "blob_edge BlobEvicted b = (b = BlobLive \<or> b = BlobTrashed)"
| "blob_edge BlobTrashed b = False"

definition trust_edge :: "level \<Rightarrow> level \<Rightarrow> bool" where
  "trust_edge a b \<longleftrightarrow> a = Trusted \<and> b = Untrusted"

text \<open>The owner holds an unreleased reference.\<close>

definition holds :: "blob_db \<Rightarrow> owner \<Rightarrow> hash \<Rightarrow> bool" where
  "holds bd w h \<longleftrightarrow> (\<exists>r \<in> set (blob_refs bd). live_ref h r \<and> br_owner r = w)"

lemma find_blob_state: "map_option bl_state (find_blob bd h) = bstate bd h"
  by (simp add: find_blob_def state_in_def)

lemma find_blob_SomeD: "find_blob bd h = Some b \<Longrightarrow> bstate bd h = Some (bl_state b)"
  by (simp add: find_blob_state [symmetric])

lemma find_blob_NoneD: "find_blob bd h = None \<longleftrightarrow> bstate bd h = None"
  by (simp add: find_blob_state [symmetric])

lemma referenced_holds: "referenced bd h \<longleftrightarrow> (\<exists>w. holds bd w h)"
  by (auto simp: referenced_def holds_def)

section \<open>What each operation does to them\<close>

lemma insert_blob_effect:
  assumes "insert_blob bd r = Inr bd'"
  shows "blob_refs bd' = blob_refs bd"
    and "bstate bd' h = (if bstate bd h = None \<and> bl_hash r = h then Some (bl_state r) else bstate bd h)"
  using assms
  by (auto simp: insert_blob_def state_in_def find_append split: if_splits option.splits)

lemma new_blob_simps [simp]:
  "bl_hash (new_blob h sz m drv c prov now) = h" "bl_state (new_blob h sz m drv c prov now) = BlobPending"
  by (simp_all add: new_blob_def)

lemma holdsI: "r \<in> set (blob_refs bd) \<Longrightarrow> br_hash r = h \<Longrightarrow> br_released_at r = None \<Longrightarrow> holds bd (br_owner r) h"
  by (auto simp: holds_def live_ref_def)

lemma changed_in_update_rows: "r \<in> set t \<Longrightarrow> p r \<Longrightarrow> f r \<in> set (update_rows p f t)"
  by auto

lemma revive_simps [simp]:
  "br_id (revive_ref a l r) = br_id r" "br_hash (revive_ref a l r) = br_hash r"
  "br_owner (revive_ref a l r) = br_owner r" "br_released_at (revive_ref a l r) = None"
  "br_trust (revive_ref a l r) = weaker (br_trust r) l"
  by (simp_all add: revive_ref_def weaker_def)

text \<open>
  Writing a reference gives the principal of the spec a hold on these bytes and nobody any other
  hold; the trust of a reference that was there follows the edge downward.
\<close>

lemma insert_ref_effect:
  assumes "insert_ref db bd h s l i now = Inr (bd', r)"
  shows "blobs bd' = blobs bd \<and> holds bd' (owner_of (rs_cred s)) h \<and>
    (\<forall>w g. holds bd' w g \<longrightarrow> holds bd w g \<or> w = owner_of (rs_cred s) \<and> g = h) \<and>
    (\<forall>w g. holds bd w g \<longrightarrow> holds bd' w g) \<and>
    (\<forall>k a. rtrust bd k = Some a \<longrightarrow> (\<exists>b. rtrust bd' k = Some b \<and> (b = a \<or> trust_edge a b)))"
proof (cases "List.find (same_ref h s) (blob_refs bd)")
  case None
  with assms obtain r0 where r0: "bd' = bd\<lparr>blob_refs := blob_refs bd @ [r0]\<rparr>" "live_ref h r0"
    "br_owner r0 = owner_of (rs_cred s)"
    by (auto simp: insert_ref_def Let_def live_ref_def split: if_splits)
  then show ?thesis
    using append_follows [of br_id br_trust "blob_refs bd" _ _ "[r0]"]
    by (auto simp: holds_def live_ref_def)
next
  case (Some old)
  let ?f = "revive_ref (actor_id (rs_cred s)) l"
  from Some assms have bd': "bd' = bd\<lparr>blob_refs := update_rows (same_ref h s) ?f (blob_refs bd)\<rparr>"
    by (auto simp: insert_ref_def Let_def split: if_splits)
  have "\<exists>b. rtrust bd' k = Some b \<and> (b = a \<or> trust_edge a b)" if "rtrust bd k = Some a" for k a
  proof -
    have "br_trust (?f r) = br_trust r \<or> trust_edge (br_trust r) (br_trust (?f r))" for r
      by (cases "br_trust r"; cases l) (simp_all add: trust_edge_def)
    then show ?thesis
      using update_follows [of "same_ref h s" br_id ?f br_trust trust_edge, OF _ _ that] by (simp add: bd')
  qed
  moreover have "holds bd' (owner_of (rs_cred s)) h"
  proof -
    from find_SomeD [OF Some] have "?f old \<in> set (blob_refs bd')" "br_hash old = h" "br_owner old = owner_of (rs_cred s)"
      using changed_in_update_rows [of old _ "same_ref h s" ?f] by (simp_all add: bd' same_ref_def)
    then show ?thesis using holdsI [of "?f old" bd' h] by simp
  qed
  moreover have "holds bd w g \<or> w = owner_of (rs_cred s) \<and> g = h" if "holds bd' w g" for w g
    using that unfolding bd' holds_def by (auto simp: live_ref_def same_ref_def elim!: in_update_rowsE)
  moreover have "holds bd' w g" if "holds bd w g" for w g
  proof -
    from that obtain r where r: "r \<in> set (blob_refs bd)" "live_ref g r" "br_owner r = w"
      by (auto simp: holds_def)
    show ?thesis
    proof (cases "same_ref h s r")
      case True
      with r have "?f r \<in> set (blob_refs bd')" by (simp add: bd' changed_in_update_rows del: set_update_rows)
      with r show ?thesis using holdsI [of "?f r" bd' g] by (simp add: live_ref_def)
    next
      case False
      with r show ?thesis by (auto simp: bd' holds_def)
    qed
  qed
  ultimately show ?thesis by (simp add: bd')
qed

lemma flip_live_effect:
  assumes "flip_live bd h key now = Inr (bd', n)"
  shows "blob_refs bd' = blob_refs bd \<and>
    bstate bd' g = (if g = h \<and> bstate bd h \<noteq> None \<and> bstate bd h \<noteq> Some BlobTrashed then Some BlobLive
                    else bstate bd g)"
proof -
  define p :: "blob_row \<Rightarrow> bool" where "p = (\<lambda>r. bl_hash r = h \<and> bl_state r \<in> {BlobPending, BlobLive, BlobEvicted})"
  define f :: "blob_row \<Rightarrow> blob_row" where "f = (\<lambda>r. r\<lparr>bl_state := BlobLive, bl_driver_ref := Some key,
    bl_live_at := (case bl_live_at r of None \<Rightarrow> Some now | x \<Rightarrow> x)\<rparr>)"
  from assms have bd': "bd' = bd\<lparr>blobs := update_rows p f (blobs bd)\<rparr>"
    by (auto simp: flip_live_def Let_def p_def f_def split: if_splits)
  have "bstate bd' g = map_option (\<lambda>r. if p r then bl_state (f r) else bl_state r) (find_blob bd g)"
    unfolding bd' using state_in_update [of p bl_hash f bl_state "blobs bd" g]
    by (simp add: f_def find_blob_def)
  moreover have "bl_hash r = g" if "find_blob bd g = Some r" for r
    using that find_SomeD by (fastforce simp: find_blob_def)
  ultimately show ?thesis
    by (cases "find_blob bd g"; cases "bl_state (the (find_blob bd g))")
       (auto simp: bd' p_def f_def find_blob_state [symmetric])
qed

lemma publish_effect:
  assumes "publish db enc drv bd se mime prov s i now now2 = Inr (bd', desc, r)"
  shows "bstate bd (se_hash se) \<noteq> Some BlobTrashed \<and> bstate bd' (se_hash se) = Some BlobLive \<and>
    (\<forall>g. g \<noteq> se_hash se \<longrightarrow> bstate bd' g = bstate bd g) \<and>
    holds bd' (owner_of (rs_cred s)) (se_hash se) \<and>
    (\<forall>w g. holds bd' w g \<longrightarrow> holds bd w g \<or> w = owner_of (rs_cred s) \<and> g = se_hash se) \<and>
    (\<forall>w g. holds bd w g \<longrightarrow> holds bd' w g) \<and>
    (\<forall>k a. rtrust bd k = Some a \<longrightarrow> (\<exists>b. rtrust bd' k = Some b \<and> (b = a \<or> trust_edge a b)))"
proof -
  let ?h = "se_hash se"
  from assms obtain bd1 bd2 n where nt: "bstate bd ?h \<noteq> Some BlobTrashed"
    and one: "bd1 = bd \<and> bstate bd ?h \<noteq> None \<or>
      bstate bd ?h = None \<and> (\<exists>c m. insert_blob bd (new_blob ?h (se_size se) m drv c prov now) = Inr bd1)"
    and two: "insert_ref db bd1 ?h s (rs_trust s) i now2 = Inr (bd2, r)"
    and three: "flip_live bd2 ?h (hash_key enc ?h) now = Inr (bd', n)"
    unfolding publish_def Let_def find_blob_state
    by (auto split: sum.splits if_splits prod.splits) (blast+)
  have b1: "blob_refs bd1 = blob_refs bd" "bstate bd1 ?h \<noteq> None" "bstate bd1 ?h \<noteq> Some BlobTrashed"
    "g \<noteq> ?h \<Longrightarrow> bstate bd1 g = bstate bd g" for g
    using one nt by (auto simp: insert_blob_effect)
  have h1: "holds bd1 = holds bd" using b1(1) by (simp add: fun_eq_iff holds_def)
  have h3: "holds bd' = holds bd2" "blob_refs bd' = blob_refs bd2"
    using flip_live_effect [OF three] by (simp_all add: fun_eq_iff holds_def)
  show ?thesis
    using nt b1 h1 h3 insert_ref_effect [OF two] flip_live_effect [OF three] by simp
qed

lemma trash_effect:
  assumes "trash bd h now = (bd', b)"
  shows "blob_refs bd' = blob_refs bd"
    and "bstate bd' g = (if g = h \<and> bstate bd h \<in> {Some BlobLive, Some BlobEvicted} \<and> \<not> referenced bd h
                    then Some BlobTrashed else bstate bd g)"
proof -
  define p :: "blob_row \<Rightarrow> bool" where
    "p = (\<lambda>b. bl_hash b = h \<and> bl_state b \<in> {BlobLive, BlobEvicted} \<and> \<not> referenced bd h)"
  define f :: "blob_row \<Rightarrow> blob_row" where "f = (\<lambda>b. b\<lparr>bl_state := BlobTrashed, bl_trashed_at := Some now\<rparr>)"
  from assms have bd': "bd' = bd\<lparr>blobs := update_rows p f (blobs bd)\<rparr>"
    by (auto simp: trash_def Let_def p_def f_def)
  then show "blob_refs bd' = blob_refs bd" by simp
  have "bstate bd' g = map_option (\<lambda>r. if p r then bl_state (f r) else bl_state r) (find_blob bd g)"
    unfolding bd' using state_in_update [of p bl_hash f bl_state "blobs bd" g]
    by (simp add: f_def find_blob_def)
  moreover have "bl_hash r = g" if "find_blob bd g = Some r" for r
    using that find_SomeD by (fastforce simp: find_blob_def)
  ultimately show "bstate bd' g = (if g = h \<and> bstate bd h \<in> {Some BlobLive, Some BlobEvicted} \<and> \<not> referenced bd h
                    then Some BlobTrashed else bstate bd g)"
    by (cases "find_blob bd g"; cases "bl_state (the (find_blob bd g))")
       (auto simp: bd' p_def f_def find_blob_state [symmetric])
qed

lemma require_referenceable_ok:
  "require_referenceable bd h = Inr u \<longleftrightarrow> bstate bd h \<noteq> None \<and> bstate bd h \<noteq> Some BlobTrashed"
  by (auto simp: require_referenceable_def find_blob_state [symmetric] split: option.splits)

text \<open>A successful resolve is the caller's own hold on live bytes.\<close>

lemma resolve_ok:
  assumes "resolve bd c h = Inr (desc, l)"
  shows "holds bd (owner_of c) h" "bstate bd h = Some BlobLive" "\<not> hash_is_zero h"
    "l = Untrusted \<longleftrightarrow> (\<exists>r \<in> set (blob_refs bd). live_ref h r \<and> br_owner r = owner_of c \<and> br_trust r = Untrusted)"
  using assms
  by (auto simp: resolve_def holds_def Let_def filter_empty_conv find_blob_SomeD
      split: sum.splits option.splits if_splits)

section \<open>The store as a machine\<close>

text \<open>
  Everything that changes the tables and the disk, in any order and from any caller: reservations,
  uploads that end in a seal or are abandoned, sweeps of the temp directory, references, releases,
  the sweeper's two calls. \<open>st_sealed\<close> are the proofs of possession minted so far: only the driver
  makes one, and publishing and adding a reference take one.
\<close>

record store =
  st_db :: blob_db
  st_disk :: disk
  st_sealed :: "sealed list"

definition store_init :: store where
  "store_init = \<lparr>st_db = \<lparr>blobs = [], blob_refs = []\<rparr>, st_disk = \<lparr>objects = (\<lambda>_. None), temp_dir = []\<rparr>, st_sealed = []\<rparr>"

inductive cat_step ::
  "(string \<Rightarrow> hash) \<Rightarrow> (hash \<Rightarrow> string) \<Rightarrow> string \<Rightarrow> core_db \<Rightarrow> store \<Rightarrow> store \<Rightarrow> bool"
  for sha enc drv db where
  cat_reserve: "reserve drv (st_db s) h sz mime prov now = Inr (bd, x) \<Longrightarrow>
    cat_step sha enc drv db s (s\<lparr>st_db := bd\<rparr>)"
| cat_upload: "disk_create_upload (st_disk s) spec uid now = Inr (d0, u0) \<Longrightarrow>
    copy_chunks sha d0 u0 ps = (d1, u1, Inr se) \<Longrightarrow>
    cat_step sha enc drv db s (s\<lparr>st_disk := d1, st_sealed := se # st_sealed s\<rparr>)"
| cat_abandon: "disk_create_upload (st_disk s) spec uid now = Inr (d0, u0) \<Longrightarrow>
    copy_chunks sha d0 u0 ps = (d1, u1, Inl e) \<Longrightarrow>
    cat_step sha enc drv db s (s\<lparr>st_disk := fst (upload_abort d1 u1)\<rparr>)"
| cat_sweep: "cat_step sha enc drv db s (s\<lparr>st_disk := fst (sweep_expired_uploads (st_disk s) t)\<rparr>)"
| cat_publish: "se \<in> set (st_sealed s) \<Longrightarrow>
    publish db enc drv (st_db s) se mime prov spc i now now2 = Inr (bd, desc, r) \<Longrightarrow>
    cat_step sha enc drv db s (s\<lparr>st_db := bd\<rparr>)"
| cat_add_ref: "se \<in> set (st_sealed s) \<Longrightarrow> add_ref db (st_db s) se spc i now = Inr (bd, r) \<Longrightarrow>
    cat_step sha enc drv db s (s\<lparr>st_db := bd\<rparr>)"
| cat_link_ref: "link_ref db (st_db s) c h spc i now = Inr (bd, r) \<Longrightarrow>
    cat_step sha enc drv db s (s\<lparr>st_db := bd\<rparr>)"
| cat_release: "release (st_db s) c h k sid now = Inr bd \<Longrightarrow>
    cat_step sha enc drv db s (s\<lparr>st_db := bd\<rparr>)"
| cat_release_by_source: "release_by_source (st_db s) c k sid now = Inr (bd, n) \<Longrightarrow>
    cat_step sha enc drv db s (s\<lparr>st_db := bd\<rparr>)"
| cat_trash: "trash (st_db s) h now = (bd, b) \<Longrightarrow> cat_step sha enc drv db s (s\<lparr>st_db := bd\<rparr>)"
| cat_delete: "delete_trashed_bytes (st_db s) (st_disk s) h = Inr d \<Longrightarrow>
    cat_step sha enc drv db s (s\<lparr>st_disk := d\<rparr>)"

text \<open>
  The shape of a step: the tables stay, or bytes that are not trashed gain a reference and perhaps go
  live, or holds are dropped, or unreferenced bytes are trashed; the disk gains the object of a new
  seal or loses a trashed one.
\<close>

definition db_follows :: "blob_db \<Rightarrow> blob_db \<Rightarrow> bool" where
  "db_follows bd bd' \<longleftrightarrow>
     (\<forall>h a. bstate bd h = Some a \<longrightarrow> (\<exists>b. bstate bd' h = Some b \<and> (b = a \<or> blob_edge a b)))
   \<and> (\<forall>k a. rtrust bd k = Some a \<longrightarrow> (\<exists>b. rtrust bd' k = Some b \<and> (b = a \<or> trust_edge a b)))"

lemma db_followsI:
  assumes "\<And>h. bstate bd h \<noteq> None \<Longrightarrow> bstate bd' h = bstate bd h"
    "\<And>k a. rtrust bd k = Some a \<Longrightarrow> \<exists>b. rtrust bd' k = Some b \<and> (b = a \<or> trust_edge a b)"
  shows "db_follows bd bd'"
  using assms by (auto simp: db_follows_def)

definition gains :: "hash set \<Rightarrow> blob_db \<Rightarrow> blob_db \<Rightarrow> bool" where
  "gains hs bd bd' \<longleftrightarrow>
     (\<forall>h. bstate bd' h = Some BlobLive \<longrightarrow> bstate bd h = Some BlobLive \<or> h \<in> hs)
   \<and> (\<forall>h. bstate bd' h = Some BlobTrashed \<longrightarrow> bstate bd h = Some BlobTrashed \<or> \<not> referenced bd' h)
   \<and> (\<forall>w h. holds bd' w h \<longrightarrow> holds bd w h \<or> bstate bd h \<noteq> Some BlobTrashed \<and> bstate bd' h \<noteq> Some BlobTrashed \<and> h \<in> hs)"

lemma db_follows_refl [simp]: "db_follows bd bd" and gains_refl [simp]: "gains hs bd bd"
  by (auto simp: db_follows_def gains_def)

lemma publish_follows:
  assumes "publish db enc drv bd se mime prov s i now now2 = Inr (bd', desc, r)"
  shows "db_follows bd bd' \<and> gains {se_hash se} bd bd'"
proof -
  note e = publish_effect [OF assms]
  have "\<exists>b. bstate bd' h = Some b \<and> (b = a \<or> blob_edge a b)" if "bstate bd h = Some a" for h a
    using e that by (cases "h = se_hash se"; cases a) auto
  moreover have "bstate bd' h = Some BlobTrashed \<Longrightarrow> bstate bd h = Some BlobTrashed" for h
    using e by (cases "h = se_hash se") auto
  moreover have "bstate bd' h = Some BlobLive \<Longrightarrow> bstate bd h = Some BlobLive \<or> h \<in> {se_hash se}" for h
    using e by (cases "h = se_hash se") auto
  moreover have "holds bd' w h \<Longrightarrow> holds bd w h \<or>
      bstate bd h \<noteq> Some BlobTrashed \<and> bstate bd' h \<noteq> Some BlobTrashed \<and> h \<in> {se_hash se}" for w h
    using e by (cases "h = se_hash se") auto
  ultimately show ?thesis using e unfolding db_follows_def gains_def by blast
qed

lemma insert_ref_follows:
  assumes "insert_ref db bd h s l i now = Inr (bd', r)" "bstate bd h \<noteq> Some BlobTrashed"
  shows "db_follows bd bd' \<and> gains {h} bd bd'"
proof -
  note e = insert_ref_effect [OF assms(1)]
  then have st: "bstate bd' = bstate bd" by simp
  have "holds bd' w g \<Longrightarrow> holds bd w g \<or> bstate bd g \<noteq> Some BlobTrashed \<and> bstate bd' g \<noteq> Some BlobTrashed \<and> g \<in> {h}"
    for w g using e assms(2) st by auto
  then show ?thesis using e st unfolding db_follows_def gains_def by auto
qed

lemma drops_follow:
  assumes "bstate bd' = bstate bd" "rtrust bd' = rtrust bd" "\<And>w h. holds bd' w h \<Longrightarrow> holds bd w h"
  shows "db_follows bd bd' \<and> gains {} bd bd'"
  using assms by (auto simp: db_follows_def gains_def)

lemma trash_follows:
  assumes "trash bd h now = (bd', b)"
  shows "db_follows bd bd' \<and> gains {} bd bd'"
proof -
  have "blob_refs bd' = blob_refs bd" using trash_effect(1) [OF assms] .
  then have "holds bd' = holds bd" "rtrust bd' = rtrust bd" "referenced bd' = referenced bd"
    by (simp_all add: fun_eq_iff holds_def referenced_def)
  then show ?thesis
    unfolding db_follows_def gains_def trash_effect(2) [OF assms] by auto
qed

lemma reserve_follows:
  assumes "reserve drv bd h sz mime prov now = Inr (bd', x)"
  shows "db_follows bd bd' \<and> gains {} bd bd'"
proof -
  from assms consider "bd' = bd" | r where "insert_blob bd r = Inr bd'" "bl_state r = BlobPending"
    by (auto simp: reserve_def Let_def split: if_splits sum.splits option.splits)
  then show ?thesis
  proof cases
    case 2
    then have "blob_refs bd' = blob_refs bd" by (simp add: insert_blob_effect)
    then have "holds bd' = holds bd" "rtrust bd' = rtrust bd"
      by (simp_all add: fun_eq_iff holds_def)
    then show ?thesis
      using insert_blob_effect(2) [OF 2(1)] 2(2) by (auto simp: db_follows_def gains_def)
  qed simp
qed

lemma released_follows:
  fixes bd :: blob_db and p :: "blob_ref \<Rightarrow> bool" and now :: time
  defines "f \<equiv> \<lambda>r :: blob_ref. r\<lparr>br_released_at := Some now\<rparr>"
  defines "bd' \<equiv> bd\<lparr>blob_refs := update_rows p f (blob_refs bd)\<rparr>"
  shows "db_follows bd bd' \<and> gains {} bd bd'"
proof (rule drops_follow)
  show "bstate bd' = bstate bd" by (simp add: bd'_def)
  have f: "br_trust (f r) = br_trust r" "br_id (f r) = br_id r" for r by (simp_all add: f_def)
  have "(\<lambda>r. if p r then br_trust (f r) else br_trust r) = br_trust" by (simp add: fun_eq_iff f)
  then show "rtrust bd' = rtrust bd"
    using state_in_update [of p br_id f br_trust "blob_refs bd"] f(2)
    by (simp add: fun_eq_iff bd'_def state_in_def)
  show "holds bd w h" if "holds bd' w h" for w h
  proof -
    from that obtain r where "r \<in> set (update_rows p f (blob_refs bd))" "live_ref h r" "br_owner r = w"
      by (auto simp: holds_def bd'_def simp del: set_update_rows)
    then show ?thesis
      by (cases rule: in_update_rowsE) (auto simp: f_def live_ref_def holds_def)
  qed
qed

lemma release_follows:
  assumes "release bd c h k sid now = Inr bd' \<or> release_by_source bd c k sid now = Inr (bd', n)"
  shows "db_follows bd bd' \<and> gains {} bd bd'"
proof -
  from assms obtain p where "bd' = bd\<lparr>blob_refs := update_rows p (\<lambda>r. r\<lparr>br_released_at := Some now\<rparr>) (blob_refs bd)\<rparr>"
    unfolding release_def release_by_source_def Let_def by (auto split: sum.splits if_splits)
  then show ?thesis using released_follows by simp
qed

lemma gains_mono: "gains hs bd bd' \<Longrightarrow> hs \<subseteq> gs \<Longrightarrow> gains gs bd bd'"
  unfolding gains_def by blast

text \<open>Linking gives its caller nothing that it did not hold.\<close>

lemma link_ref_follows:
  assumes "link_ref db bd c h s i now = Inr (bd', r)"
  shows "db_follows bd bd' \<and> gains {} bd bd'"
proof -
  from assms obtain desc l0 l where w: "owner_of (rs_cred s) = owner_of c" "resolve bd c h = Inr (desc, l0)"
    "insert_ref db bd h s l i now = Inr (bd', r)"
    by (auto simp: link_ref_def split: sum.splits if_splits prod.splits)
  note e = insert_ref_effect [OF w(3)] and o = resolve_ok [OF w(2)]
  then have "holds bd' v g \<Longrightarrow> holds bd v g" for v g using w(1) by auto
  moreover have "bstate bd' = bstate bd" using e by simp
  ultimately show ?thesis using insert_ref_follows [OF w(3)] o(2) by (auto simp: gains_def)
qed

lemma cat_step_db:
  assumes "cat_step sha enc drv db s s'"
  shows "db_follows (st_db s) (st_db s') \<and> gains (se_hash ` set (st_sealed s)) (st_db s) (st_db s')"
  using assms
proof cases
  case (cat_publish se mime prov spc i now now2 bd desc r)
  then show ?thesis using publish_follows gains_mono [of "{se_hash se}"] by fastforce
next
  case (cat_add_ref se spc i now bd r)
  then have "insert_ref db (st_db s) (se_hash se) spc (rs_trust spc) i now = Inr (bd, r)"
    "bstate (st_db s) (se_hash se) \<noteq> Some BlobTrashed"
    by (auto simp: add_ref_def require_referenceable_ok split: sum.splits if_splits)
  with cat_add_ref show ?thesis using insert_ref_follows gains_mono [of "{se_hash se}"] by fastforce
qed (auto dest!: reserve_follows link_ref_follows release_follows [OF disjI1] release_follows [OF disjI2] trash_follows
      intro: gains_mono)

text \<open>The disk under a step: an object is lost only where its row is trashed.\<close>

lemma cat_step_disk:
  assumes "cat_step sha enc drv db s s'" "addressed sha (st_disk s)"
  shows "addressed sha (st_disk s') \<and>
    (\<forall>h. objects (st_disk s) h \<noteq> None \<longrightarrow> objects (st_disk s') h \<noteq> None \<or> bstate (st_db s) h = Some BlobTrashed) \<and>
    (\<forall>se \<in> set (st_sealed s'). se \<in> set (st_sealed s) \<or> objects (st_disk s') (se_hash se) \<noteq> None)"
  using assms(1)
proof cases
  case (cat_upload spec uid now d0 u0 ps d1 u1 se)
  note c = create_upload_ok [OF cat_upload(2)]
  with assms(2) have "addressed sha d0" by (simp add: addressed_def)
  from copy_chunks_spec [OF cat_upload(3) _ this] c cat_upload(1) show ?thesis by auto
next
  case (cat_abandon spec uid now d0 u0 ps d1 u1 e)
  note c = create_upload_ok [OF cat_abandon(2)]
  with assms(2) have a: "addressed sha d0" by (simp add: addressed_def)
  have "objects (fst (upload_abort d1 u1)) = objects d1" by (simp add: upload_abort_def remove_temp_def)
  with copy_chunks_spec [OF cat_abandon(3) _ a] c cat_abandon(1) show ?thesis by (auto simp: addressed_def)
next
  case (cat_sweep t)
  with assms(2) show ?thesis by (simp add: sweep_expired_uploads_def Let_def addressed_def)
next
  case (cat_delete h d)
  then have "d = disk_delete (st_disk s) h" "bstate (st_db s) h = Some BlobTrashed"
    by (auto simp: delete_trashed_bytes_def find_blob_SomeD split: option.splits if_splits)
  with cat_delete(1) assms(2) show ?thesis by (auto simp: disk_delete_def addressed_def)
qed (use assms(2) in auto)

definition cat_inv :: "(string \<Rightarrow> hash) \<Rightarrow> store \<Rightarrow> bool" where
  "cat_inv sha s \<longleftrightarrow>
     addressed sha (st_disk s)
   \<and> (\<forall>h. bstate (st_db s) h = Some BlobLive \<longrightarrow> objects (st_disk s) h \<noteq> None)
   \<and> (\<forall>h. bstate (st_db s) h = Some BlobTrashed \<longrightarrow> \<not> referenced (st_db s) h)
   \<and> (\<forall>se \<in> set (st_sealed s). objects (st_disk s) (se_hash se) \<noteq> None
        \<or> bstate (st_db s) (se_hash se) = Some BlobTrashed)"

lemma cat_inv_init: "cat_inv sha store_init"
  by (simp add: cat_inv_def store_init_def addressed_def state_in_def)

interpretation bl: lifecycle "\<lambda>s. bstate (st_db s)" "cat_step sha enc drv db" blob_edge
  for sha enc drv db
  using cat_step_db by unfold_locales (unfold db_follows_def, blast)

interpretation rt: lifecycle "\<lambda>s. rtrust (st_db s)" "cat_step sha enc drv db" trust_edge
  for sha enc drv db
  using cat_step_db by unfold_locales (unfold db_follows_def, blast)

lemma trashed_kept:
  "(cat_step sha enc drv db)\<^sup>*\<^sup>* s s' \<Longrightarrow> bstate (st_db s) h = Some BlobTrashed \<Longrightarrow> bstate (st_db s') h = Some BlobTrashed"
  using bl.terminal_kept by (metis blob_edge.simps(4))

lemma cat_inv_step:
  assumes "cat_step sha enc drv db s s'" "cat_inv sha s"
  shows "cat_inv sha s'"
proof -
  have ad: "addressed sha (st_disk s)" using assms(2) by (simp add: cat_inv_def)
  note d = cat_step_disk [OF assms(1) ad] and b = cat_step_db [OF assms(1)]
  have tk: "bstate (st_db s) h = Some BlobTrashed \<Longrightarrow> bstate (st_db s') h = Some BlobTrashed" for h
    using trashed_kept [OF r_into_rtranclp [of "cat_step sha enc drv db", OF assms(1)]] .
  have "objects (st_disk s') h \<noteq> None" if "bstate (st_db s') h = Some BlobLive" for h
  proof -
    have "bstate (st_db s) h = Some BlobLive \<or> h \<in> se_hash ` set (st_sealed s)"
      using b that by (auto simp: gains_def)
    then have "objects (st_disk s) h \<noteq> None \<or> bstate (st_db s) h = Some BlobTrashed"
      using assms(2) by (auto simp: cat_inv_def)
    with d tk [of h] that show ?thesis by auto
  qed
  moreover have "\<not> referenced (st_db s') h" if "bstate (st_db s') h = Some BlobTrashed" for h
  proof
    assume r: "referenced (st_db s') h"
    then obtain w where w: "holds (st_db s') w h" by (auto simp: referenced_holds)
    from b that r have t: "bstate (st_db s) h = Some BlobTrashed" unfolding gains_def by blast
    with b w that have "holds (st_db s) w h" unfolding gains_def by blast
    with t assms(2) show False by (auto simp: cat_inv_def referenced_holds)
  qed
  moreover have "objects (st_disk s') (se_hash se) \<noteq> None \<or> bstate (st_db s') (se_hash se) = Some BlobTrashed"
    if "se \<in> set (st_sealed s')" for se
  proof -
    from that d have "se \<in> set (st_sealed s) \<or> objects (st_disk s') (se_hash se) \<noteq> None" by blast
    with assms(2) d tk [of "se_hash se"] show ?thesis unfolding cat_inv_def by blast
  qed
  ultimately show ?thesis using d unfolding cat_inv_def by blast
qed

lemma cat_inv_reachable: "(cat_step sha enc drv db)\<^sup>*\<^sup>* store_init s \<Longrightarrow> cat_inv sha s"
  by (induction rule: rtranclp_induct) (auto intro: cat_inv_init cat_inv_step)

lemma open_full:
  "\<not> hash_is_zero h \<Longrightarrow> objects d h = Some b \<Longrightarrow> disk_open d h range_full = Inr b"
  by (simp add: disk_open_def disk_stat_def clamp_def slice_def range_full_def)

text \<open>
  C31: Referenced bytes are kept. In every state the store can reach, by any sequence of reservations,
  uploads, references, releases and sweeps from any callers, whatever a credential can resolve it can
  also read: the bytes are on the disk, whole, and hash to the address they were asked for by. Bytes
  whose row is trashed have no unreleased reference left. And trashing is for ever and for everyone:
  from then on no publish, by any principal, brings the same content back.
\<close>

theorem referenced_bytes_are_kept:
  assumes "(cat_step sha enc drv db)\<^sup>*\<^sup>* store_init s"
  shows "(resolve (st_db s) c h = Inr (desc, l) \<longrightarrow>
      (\<exists>b. open_blob (st_db s) (st_disk s) c h range_full = Inr (desc, l, b) \<and> sha b = h)) \<and>
    (bstate (st_db s) h = Some BlobTrashed \<longrightarrow> live_ref_count (st_db s) h = 0 \<and>
      (\<forall>s' se mime prov spc i now now2 y. (cat_step sha enc drv db)\<^sup>*\<^sup>* s s' \<longrightarrow> se_hash se = h \<longrightarrow>
         publish db enc drv (st_db s') se mime prov spc i now now2 \<noteq> Inr y))"
proof (intro conjI impI allI)
  note inv = cat_inv_reachable [OF assms]
  {
    assume r: "resolve (st_db s) c h = Inr (desc, l)"
    with inv obtain b where b: "objects (st_disk s) h = Some b" "sha b = h"
      using resolve_ok(2) [OF r] unfolding cat_inv_def addressed_def by blast
    with r resolve_ok(3) [OF r] show "\<exists>b. open_blob (st_db s) (st_disk s) c h range_full = Inr (desc, l, b) \<and> sha b = h"
      by (auto simp: open_blob_def open_full)
  }
  {
    assume t: "bstate (st_db s) h = Some BlobTrashed"
    with inv show "live_ref_count (st_db s) h = 0"
      unfolding live_ref_count_def count_rows_0 cat_inv_def referenced_def by blast
    fix s' and se :: sealed and mime prov spc i now now2 y
    assume "(cat_step sha enc drv db)\<^sup>*\<^sup>* s s'" and h: "se_hash se = h"
    then have "bstate (st_db s') h = Some BlobTrashed" using trashed_kept t by blast
    then show "publish db enc drv (st_db s') se mime prov spc i now now2 \<noteq> Inr y"
      using publish_effect h by (metis prod_cases3)
  }
qed

text \<open>
  C32: A digest is not a bearer token, and trust does not climb. Over any step of the store, a
  principal that did not hold a reference to some bytes comes to hold one only where a seal of those
  very bytes has been made, never by naming their address; and over any number of steps a reference
  that is untrusted stays untrusted, whoever links, re-adds, releases or revives it.
\<close>

theorem a_digest_is_not_a_token:
  assumes "cat_step sha enc drv db s s'" and "(cat_step sha enc drv db)\<^sup>*\<^sup>* s' s2"
  shows "(\<not> holds (st_db s) w h \<longrightarrow> holds (st_db s') w h \<longrightarrow> (\<exists>se \<in> set (st_sealed s). se_hash se = h)) \<and>
    (rtrust (st_db s) i = Some Untrusted \<longrightarrow> rtrust (st_db s2) i = Some Untrusted)"
proof (intro conjI impI)
  assume "\<not> holds (st_db s) w h" "holds (st_db s') w h"
  with cat_step_db [OF assms(1)] have "h \<in> se_hash ` set (st_sealed s)" unfolding gains_def by blast
  then show "\<exists>se \<in> set (st_sealed s). se_hash se = h" by blast
next
  have "(cat_step sha enc drv db)\<^sup>*\<^sup>* s s2"
    using assms by (rule converse_rtranclp_into_rtranclp)
  then show "rtrust (st_db s) i = Some Untrusted \<Longrightarrow> rtrust (st_db s2) i = Some Untrusted"
    using rt.terminal_kept trust_edge_def by (metis level.distinct(1))
qed

section \<open>A store to evaluate\<close>

text \<open>
  A digest that pads to 32 bytes stands in for the hash function. Alice uploads two bytes in two
  chunks and publishes them as an untrusted upload, then adds the same reference as trusted.
\<close>

definition pad_sha :: "string \<Rightarrow> hash" where
  "pad_sha b = take hash_len (b @ replicate hash_len (CHR ''x''))"

definition sample_upload :: "disk \<times> upload" where
  "sample_upload = projr (disk_create_upload (st_disk store_init)
     \<lparr>declared_hash = None, declared_size = 0, upload_limit = 10\<rparr> ''a'' 1)"

definition sample_copy :: "disk \<times> upload \<times> (blob_error + sealed)" where
  "sample_copy = copy_chunks pad_sha (fst sample_upload) (snd sample_upload) [(''h'', 2), (''i'', 3)]"

definition sample_sealed :: sealed where
  "sample_sealed = projr (snd (snd sample_copy))"

definition sample_spec :: "level \<Rightarrow> ref_spec" where
  "sample_spec l = \<lparr>rs_cred = alice, rs_source_kind = SrcUpload, rs_source_id = ''u1'', rs_trust = l\<rparr>"

definition store1 :: store where
  "store1 = \<lparr>st_db = st_db store_init, st_disk = fst sample_copy, st_sealed = [sample_sealed]\<rparr>"

definition store2 :: store where
  "store2 = store1\<lparr>st_db := fst (projr (publish sample_db hex_enc ''disk'' (st_db store1) sample_sealed []
     provenance_original (sample_spec Untrusted) 500 4 5))\<rparr>"

definition store3 :: store where
  "store3 = store2\<lparr>st_db := fst (projr (add_ref sample_db (st_db store2) sample_sealed (sample_spec Trusted) 501 6))\<rparr>"

abbreviation sample_step :: "store \<Rightarrow> store \<Rightarrow> bool" where
  "sample_step \<equiv> cat_step pad_sha hex_enc ''disk'' sample_db"

lemma store1_step: "sample_step store_init store1"
proof -
  have "\<not> isl (disk_create_upload (st_disk store_init)
     \<lparr>declared_hash = None, declared_size = 0, upload_limit = 10\<rparr> ''a'' 1)" by code_simp
  then have u: "disk_create_upload (st_disk store_init)
     \<lparr>declared_hash = None, declared_size = 0, upload_limit = 10\<rparr> ''a'' 1 = Inr (fst sample_upload, snd sample_upload)"
    by (simp add: sample_upload_def)
  have "\<not> isl (snd (snd sample_copy))" by code_simp
  then have c: "copy_chunks pad_sha (fst sample_upload) (snd sample_upload) [(''h'', 2), (''i'', 3)] =
      (fst sample_copy, fst (snd sample_copy), Inr sample_sealed)"
    by (simp add: sample_copy_def sample_sealed_def)
  have "store1 = store_init\<lparr>st_disk := fst sample_copy, st_sealed := sample_sealed # st_sealed store_init\<rparr>"
    by (simp add: store1_def store_init_def)
  with cat_upload [OF u c, of hex_enc "''disk''" sample_db] show ?thesis by simp
qed

lemma store2_step: "sample_step store1 store2"
proof -
  let ?p = "publish sample_db hex_enc ''disk'' (st_db store1) sample_sealed []
     provenance_original (sample_spec Untrusted) 500 4 5"
  have "\<not> isl ?p" by code_simp
  then have "?p = Inr (fst (projr ?p), fst (snd (projr ?p)), snd (snd (projr ?p)))" by simp
  from cat_publish [OF _ this, of pad_sha] show ?thesis
    by (simp add: store2_def store1_def)
qed

lemma store3_step: "sample_step store2 store3"
proof -
  let ?p = "add_ref sample_db (st_db store2) sample_sealed (sample_spec Trusted) 501 6"
  have "\<not> isl ?p" by code_simp
  then have "?p = Inr (fst (projr ?p), snd (projr ?p))" by simp
  from cat_add_ref [OF _ this, of pad_sha hex_enc "''disk''"] show ?thesis
    by (simp add: store3_def store2_def store1_def)
qed

theorem referenced_bytes_are_kept_witness:
  "\<exists>desc b. open_blob (st_db store2) (st_disk store2) alice (pad_sha ''hi'') range_full = Inr (desc, Untrusted, b) \<and>
     pad_sha b = pad_sha ''hi''"
proof -
  have run: "sample_step\<^sup>*\<^sup>* store_init store2"
    by (rule converse_rtranclp_into_rtranclp [of sample_step, OF store1_step])
       (rule r_into_rtranclp [of sample_step, OF store2_step])
  have "resolve (st_db store2) alice (pad_sha ''hi'') =
      Inr (\<lparr>d_hash = pad_sha ''hi'', d_size = 2, d_mime = default_mime\<rparr>, Untrusted)" by code_simp
  then show ?thesis using referenced_bytes_are_kept [OF run, of alice "pad_sha ''hi''"] by blast
qed

theorem a_digest_is_not_a_token_witness:
  "(\<exists>se \<in> set (st_sealed store1). se_hash se = pad_sha ''hi'') \<and> rtrust (st_db store3) 500 = Some Untrusted"
proof
  have "\<not> holds (st_db store1) (owner_of alice) (pad_sha ''hi'')"
    "holds (st_db store2) (owner_of alice) (pad_sha ''hi'')" by code_simp+
  then show "\<exists>se \<in> set (st_sealed store1). se_hash se = pad_sha ''hi''"
    using a_digest_is_not_a_token [OF store2_step rtranclp.rtrancl_refl] by blast
  have "rtrust (st_db store2) 500 = Some Untrusted" by code_simp
  then show "rtrust (st_db store3) 500 = Some Untrusted"
    using a_digest_is_not_a_token [OF store3_step rtranclp.rtrancl_refl] by blast
qed

section \<open>Relocation\<close>

text \<open>
  Moving bytes loses none: whichever way a move ends, an object that was on the source is on the
  source or on the destination afterwards, an object is dropped from the source only when its row
  points at the destination, and no reference changes.
\<close>

lemma relocate_one_cases:
  assumes "relocate_one sha enc src dst reads s h uid now = (s', x)"
  obtains (same) "s' = s"
  | (failed) spec d0 u0 ps d1 u1 e where "disk_create_upload (rl_dst s) spec uid now = Inr (d0, u0)"
      "copy_chunks sha d0 u0 ps = (d1, u1, Inl e)" "s' = s\<lparr>rl_dst := fst (upload_abort d1 u1)\<rparr>"
  | (copied) n d0 u0 ps d1 u1 se where
      "disk_create_upload (rl_dst s) \<lparr>declared_hash = Some h, declared_size = n, upload_limit = 0\<rparr> uid now = Inr (d0, u0)"
      "copy_chunks sha d0 u0 ps = (d1, u1, Inr se)" "se_hash se = h \<Longrightarrow> s' = repoint enc src dst s d1 h"
proof (cases "disk_stat (rl_src s) h")
  case (Inl e)
  with assms same show thesis by (simp add: relocate_one_def)
next
  case stat: (Inr info)
  show thesis
  proof (cases "disk_open (rl_src s) h range_full")
    case (Inl e)
    with assms stat same show thesis by (simp add: relocate_one_def)
  next
    case opened: (Inr body)
    let ?spec = "\<lparr>declared_hash = Some h, declared_size = oi_size info, upload_limit = 0\<rparr>"
    show thesis
    proof (cases "disk_create_upload (rl_dst s) ?spec uid now")
      case (Inl e)
      with assms stat opened same show thesis by (simp add: relocate_one_def)
    next
      case (Inr du)
      obtain d0 u0 where du: "disk_create_upload (rl_dst s) ?spec uid now = Inr (d0, u0)"
        using Inr by (cases du) simp
      obtain d1 u1 y where cp: "copy_chunks sha d0 u0 (reads body) = (d1, u1, y)" by (metis prod_cases3)
      show thesis
      proof (cases y)
        case (Inl e)
        with assms stat opened du cp have "s' = s\<lparr>rl_dst := fst (upload_abort d1 u1)\<rparr>"
          by (simp add: relocate_one_def)
        with du cp Inl failed show thesis by blast
      next
        case (Inr se)
        with assms stat opened du cp have "se_hash se = h \<Longrightarrow> s' = repoint enc src dst s d1 h"
          by (simp add: relocate_one_def)
        with du cp Inr copied show thesis by blast
      qed
    qed
  qed
qed

lemma relocate_one_safe:
  assumes "relocate_one sha enc src dst reads s h uid now = (s', x)"
    and "addressed sha (rl_src s)" "addressed sha (rl_dst s)"
  shows "blob_refs (rl_db s') = blob_refs (rl_db s) \<and>
    (\<forall>g b. objects (rl_dst s) g = Some b \<longrightarrow> objects (rl_dst s') g = Some b) \<and>
    (\<forall>g b. objects (rl_src s) g = Some b \<longrightarrow> objects (rl_src s') g = Some b \<or> g = h \<and> objects (rl_dst s') g \<noteq> None) \<and>
    (objects (rl_src s) h \<noteq> None \<longrightarrow> objects (rl_src s') h = None \<longrightarrow>
       (\<exists>b \<in> set (blobs (rl_db s')). bl_hash b = h \<and> bl_driver b = dst))"
  using assms(1)
proof (cases rule: relocate_one_cases)
  case same
  then show ?thesis by auto
next
  case (failed spec d0 u0 ps d1 u1 e)
  note c = create_upload_ok [OF failed(1)]
  with assms(3) have a: "addressed sha d0" by (simp add: addressed_def)
  have "objects (fst (upload_abort d1 u1)) = objects d1" by (simp add: upload_abort_def remove_temp_def)
  with copy_chunks_spec [OF failed(2) _ a] c failed(3) show ?thesis by auto
next
  case (copied n d0 u0 ps d1 u1 se)
  note c = create_upload_ok [OF copied(1)]
  with assms(3) have a: "addressed sha d0" by (simp add: addressed_def)
  have "up_declared u0 = Some h"
    using copied(1) by (auto simp: disk_create_upload_def Let_def split: if_splits)
  with copy_chunks_spec [OF copied(2) _ a] c have k: "se_hash se = h" "objects d1 h \<noteq> None"
    "\<And>g b. objects (rl_dst s) g = Some b \<Longrightarrow> objects d1 g = Some b"
    by auto
  then have s': "s' = repoint enc src dst s d1 h" using copied(3) by simp
  show ?thesis
  proof (cases "\<exists>b \<in> set (blobs (rl_db s)). bl_hash b = h \<and> bl_driver b = src \<and> bl_state b = BlobLive")
    case False
    then have "s' = s\<lparr>rl_dst := d1\<rparr>" unfolding s' repoint_def Let_def by simp
    with k(3) show ?thesis by auto
  next
    case True
    then obtain b where b: "b \<in> set (blobs (rl_db s))" "bl_hash b = h" "bl_driver b = src" "bl_state b = BlobLive"
      by blast
    let ?f = "\<lambda>b :: blob_row. b\<lparr>bl_driver := dst, bl_driver_ref := Some (hash_key enc h)\<rparr>"
    have "rl_dst s' = d1" "rl_src s' = disk_delete (rl_src s) h" "blob_refs (rl_db s') = blob_refs (rl_db s)"
      "?f b \<in> set (blobs (rl_db s'))" "bl_hash (?f b) = h" "bl_driver (?f b) = dst"
      using True b unfolding s' repoint_def Let_def
      by (auto simp: changed_in_update_rows [of b _ _ ?f] simp del: set_update_rows)
    then have "\<exists>b \<in> set (blobs (rl_db s')). bl_hash b = h \<and> bl_driver b = dst" by blast
    with k \<open>rl_dst s' = d1\<close> \<open>rl_src s' = disk_delete (rl_src s) h\<close> \<open>blob_refs (rl_db s') = blob_refs (rl_db s)\<close>
    show ?thesis by (auto simp: disk_delete_def)
  qed
qed

end
