(* ===== verification/Hive_Abi.thy ===== *)
theory Hive_Abi
  imports Hive_Schema "HOL-Library.Word"
begin

unbundle bit_operations_syntax

text \<open>
  The boundary a guest calls through (\<open>crates/hive-wasmhost/src/abi.rs\<close>, \<open>hostmods.rs\<close>): capabilities
  and their bit sets, statuses and the packed result word, the state of one invocation, and every host
  function as a step on that state. Guest memory is the list of its bytes; pointers and lengths are the
  32 bit words the guest passes. The data layer behind the capability traits, the JSON check of a
  response and the lossy reading of UTF-8 are parameters.
\<close>

section \<open>Capabilities\<close>

datatype capability = CapLog | CapStorage | CapKv | CapBlob | CapEvents | CapSanitize | CapModels

definition capability_all :: "capability list" where
  "capability_all = [CapLog, CapStorage, CapKv, CapBlob, CapEvents, CapSanitize, CapModels]"

fun capability_as_str :: "capability \<Rightarrow> string" where
  "capability_as_str CapLog = ''log''"
| "capability_as_str CapStorage = ''storage''"
| "capability_as_str CapKv = ''kv''"
| "capability_as_str CapBlob = ''blob''"
| "capability_as_str CapEvents = ''events''"
| "capability_as_str CapSanitize = ''sanitize''"
| "capability_as_str CapModels = ''models''"

definition capability_parse :: "string \<Rightarrow> capability option" where
  "capability_parse s =
     (if s = ''log'' then Some CapLog
      else if s = ''storage'' then Some CapStorage
      else if s = ''kv'' then Some CapKv
      else if s = ''blob'' then Some CapBlob
      else if s = ''events'' then Some CapEvents
      else if s = ''sanitize'' then Some CapSanitize
      else if s = ''models'' then Some CapModels
      else None)"

fun cap_module_name :: "capability \<Rightarrow> string" where
  "cap_module_name CapLog = ''hive_log''"
| "cap_module_name CapStorage = ''hive_storage''"
| "cap_module_name CapKv = ''hive_kv''"
| "cap_module_name CapBlob = ''hive_blob''"
| "cap_module_name CapEvents = ''hive_events''"
| "cap_module_name CapSanitize = ''hive_sanitize''"
| "cap_module_name CapModels = ''hive_models''"

definition for_module :: "string \<Rightarrow> capability option" where
  "for_module n = List.find (\<lambda>c. cap_module_name c = n) capability_all"

type_synonym cap_set = "32 word"

fun cap_index :: "capability \<Rightarrow> nat" where
  "cap_index CapLog = 0"
| "cap_index CapStorage = 1"
| "cap_index CapKv = 2"
| "cap_index CapBlob = 3"
| "cap_index CapEvents = 4"
| "cap_index CapSanitize = 5"
| "cap_index CapModels = 6"

definition cap_bit :: "capability \<Rightarrow> cap_set" where
  "cap_bit c = push_bit (cap_index c) 1"

definition cap_set_new :: "capability list \<Rightarrow> cap_set" where
  "cap_set_new cs = foldl (\<lambda>s c. s OR cap_bit c) 0 cs"

definition from_names :: "string list \<Rightarrow> cap_set" where
  "from_names ns =
     foldl (\<lambda>s n. case capability_parse n of Some c \<Rightarrow> s OR cap_bit c | None \<Rightarrow> s) 0 ns"

definition cap_has :: "cap_set \<Rightarrow> capability \<Rightarrow> bool" where
  "cap_has s c \<longleftrightarrow> s AND cap_bit c \<noteq> 0"

definition cap_with :: "cap_set \<Rightarrow> capability \<Rightarrow> cap_set" where
  "cap_with s c = s OR cap_bit c"

definition cap_iter :: "cap_set \<Rightarrow> capability list" where
  "cap_iter s = filter (cap_has s) capability_all"

section \<open>Statuses and the packed result\<close>

datatype status = StOk | StError | StDenied | StNotFound | StInvalid | StUnimplemented | StCanceled

fun status_code :: "status \<Rightarrow> nat" where
  "status_code StOk = 0"
| "status_code StError = 1"
| "status_code StDenied = 2"
| "status_code StNotFound = 3"
| "status_code StInvalid = 4"
| "status_code StUnimplemented = 5"
| "status_code StCanceled = 6"

definition status_from_u8 :: "nat \<Rightarrow> status option" where
  "status_from_u8 v =
     (if v = 0 then Some StOk else if v = 1 then Some StError else if v = 2 then Some StDenied
      else if v = 3 then Some StNotFound else if v = 4 then Some StInvalid
      else if v = 5 then Some StUnimplemented else if v = 6 then Some StCanceled else None)"

record host_error =
  he_status :: status
  he_message :: string

definition pack_result :: "status \<Rightarrow> level \<Rightarrow> nat \<Rightarrow> 64 word" where
  "pack_result st l n =
     (let b = (if is_untrusted l then 1 else 0);
          sz = (of_nat n :: 64 word) AND mask 32;
          s = of_nat (status_code st) AND 0xFF
      in push_bit 40 s OR push_bit 32 b OR sz)"

definition unpack_result :: "64 word \<Rightarrow> status \<times> level \<times> nat" where
  "unpack_result v =
     ((case status_from_u8 (unat (drop_bit 40 v AND 0xFF)) of Some s \<Rightarrow> s | None \<Rightarrow> StError),
      (if drop_bit 32 v AND 0xFF = 1 then Untrusted else Trusted),
      unat (v AND mask 32))"

section \<open>One invocation\<close>

record caller =
  cl_cred :: credential
  cl_install_id :: uuid

datatype caller_error = CallerCredential identity_error | CallerNoInstall

definition caller_validate :: "caller \<Rightarrow> caller_error + unit" where
  "caller_validate c =
     (case credential_validate (cl_cred c) of
        Inl e \<Rightarrow> Inl (CallerCredential e)
      | Inr _ \<Rightarrow> if cl_install_id c = nil_uuid then Inl CallerNoInstall else Inr ())"

record request =
  rq_caller :: caller
  rq_app :: string
  rq_body :: string
  rq_trust :: level
  rq_tainted_by :: string

record cap_response =
  rp_trust :: level
  rp_data :: string

record call_state =
  cs_caller :: caller
  cs_app :: string
  cs_input :: string
  cs_output :: string
  cs_err_msg :: string
  cs_result :: string
  cs_taint :: level
  cs_tainted_by :: string
  cs_output_rejected :: status
  cs_max_input :: nat
  cs_max_output :: nat

definition weaken :: "level \<Rightarrow> string \<Rightarrow> call_state \<Rightarrow> call_state" where
  "weaken l cause st =
     (let next = weaker (cs_taint st) l in
      st\<lparr>cs_tainted_by := (if next \<noteq> cs_taint st \<and> cs_tainted_by st = [] then cause else cs_tainted_by st),
         cs_taint := next\<rparr>)"

definition max_error_bytes :: nat where "max_error_bytes = 8 * 1024"

definition abi_len :: "nat \<Rightarrow> nat" where
  "abi_len n = min n (2 ^ 31 - 1)"

section \<open>Guest memory\<close>

definition read_guest :: "string \<Rightarrow> 32 word \<Rightarrow> 32 word \<Rightarrow> nat \<Rightarrow> status + string" where
  "read_guest mem ptr l mx =
     (if mx < unat l then Inl StInvalid
      else if length mem < unat ptr + unat l then Inl StInvalid
      else Inr (take (unat l) (drop (unat ptr) mem)))"

definition write_guest :: "string \<Rightarrow> 32 word \<Rightarrow> 32 word \<Rightarrow> string \<Rightarrow> string \<times> nat" where
  "write_guest mem ptr room data =
     (let n = min (length data) (unat room) in
      if n = 0 then (mem, 0)
      else if length mem < unat ptr + n then (mem, 0)
      else (take (unat ptr) mem @ take n data @ drop (unat ptr + n) mem, abi_len n))"

section \<open>Host functions\<close>

text \<open>
  What a guest may do between two of its own instructions. The memory is the guest's own and it may
  have changed since the last call, so each call carries it.
\<close>

datatype host_op =
    OpAbiVersion
  | OpInputSize
  | OpInputRead "32 word" "32 word"
  | OpInputTrust
  | OpOutputWrite "32 word" "32 word"
  | OpErrorWrite "32 word" "32 word"
  | OpResultRead "32 word" "32 word"
  | OpLog "32 word" "32 word"
  | OpCapability string string "32 word" "32 word"

type_synonym data_layer = "nat \<Rightarrow> string \<Rightarrow> string \<Rightarrow> request \<Rightarrow> host_error + cap_response"

definition domains :: "(string \<times> string list) list" where
  "domains =
     [(''hive_storage'', [''insert'', ''get'', ''update'', ''delete'', ''query'']),
      (''hive_kv'', [''get'', ''set'', ''delete'']),
      (''hive_blob'', [''read'', ''append'']),
      (''hive_events'', [''emit'']),
      (''hive_sanitize'', [''sanitize'']),
      (''hive_models'', [''submit'', ''result''])]"

definition dispatch :: "data_layer \<Rightarrow> nat \<Rightarrow> string \<Rightarrow> string \<Rightarrow> request \<Rightarrow> host_error + cap_response" where
  "dispatch deps n m v req =
     (if \<exists>(d, vs) \<in> set domains. d = m \<and> v \<in> set vs then deps n m v req
      else Inl \<lparr>he_status = StError, he_message = m @ ''.'' @ v @ '': no such host function''\<rparr>)"

text \<open>\<open>trim_start_matches\<close>: the prefix as often as it is there.\<close>

function trim_hive :: "string \<Rightarrow> string" where
  "trim_hive m = (case strip_prefix ''hive_'' m of Some r \<Rightarrow> trim_hive r | None \<Rightarrow> m)"
  by pat_completeness auto
termination
  by (relation "measure length") (auto simp: strip_prefix_Some)

declare trim_hive.simps [simp del]

definition envelope :: "level \<Rightarrow> string \<Rightarrow> string" where
  "envelope l raw = ''{\"trust\":\"'' @ level_as_str l @ ''\",\"data\":'' @ raw @ ''}''"

definition fail :: "call_state \<Rightarrow> status \<Rightarrow> string \<Rightarrow> string \<Rightarrow> call_state \<times> 64 word" where
  "fail st s msg opn =
     (weaken Untrusted (opn @ '' failed'') (st\<lparr>cs_result := msg\<rparr>), pack_result s Untrusted (length msg))"

definition request_of :: "call_state \<Rightarrow> string \<Rightarrow> request" where
  "request_of st body =
     \<lparr>rq_caller = cs_caller st, rq_app = cs_app st, rq_body = body, rq_trust = cs_taint st,
      rq_tainted_by = cs_tainted_by st\<rparr>"

definition capability_call ::
  "data_layer \<Rightarrow> (string \<Rightarrow> string option) \<Rightarrow> nat \<Rightarrow> string \<Rightarrow> call_state \<Rightarrow> string \<Rightarrow> string
   \<Rightarrow> 32 word \<Rightarrow> 32 word \<Rightarrow> call_state \<times> 64 word" where
  "capability_call deps json n mem st m v ptr l =
     (let opn = trim_hive m @ ''.'' @ v; raises = (m = ''hive_sanitize'') in
      case read_guest mem ptr l (cs_max_input st) of
        Inl s \<Rightarrow> fail st s ''request body is out of range or too large'' opn
      | Inr body \<Rightarrow>
     (case dispatch deps n m v (request_of st body) of
        Inl e \<Rightarrow> fail st (he_status e) (he_message e) opn
      | Inr resp \<Rightarrow>
     (let st1 = (if raises then st\<lparr>cs_taint := rp_trust resp, cs_tainted_by := []\<rparr>
                 else weaken (rp_trust resp) opn st);
          lv = cs_taint st1
      in case json (rp_data resp) of
           None \<Rightarrow> fail st1 StError ''host could not encode the response envelope'' opn
         | Some raw \<Rightarrow>
             (let out = envelope lv raw in
              if cs_max_output st1 < length out
              then fail st1 StError ''response exceeds the ABI size limit'' opn
              else (st1\<lparr>cs_result := out\<rparr>, pack_result StOk lv (length out))))))"

text \<open>One host call: the state after it, the guest's memory after it and the word it returns.\<close>

fun run_op ::
  "data_layer \<Rightarrow> (string \<Rightarrow> string option) \<Rightarrow> (string \<Rightarrow> string) \<Rightarrow> nat \<Rightarrow> call_state \<Rightarrow> string \<Rightarrow> host_op
   \<Rightarrow> call_state \<times> string \<times> 64 word" where
  "run_op deps json lossy n st mem OpAbiVersion = (st, mem, 2)"
| "run_op deps json lossy n st mem OpInputSize = (st, mem, of_nat (abi_len (length (cs_input st))))"
| "run_op deps json lossy n st mem (OpInputRead ptr l) =
     (case write_guest mem ptr l (cs_input st) of (mem', k) \<Rightarrow> (st, mem', of_nat k))"
| "run_op deps json lossy n st mem OpInputTrust = (st, mem, if is_untrusted (cs_taint st) then 1 else 0)"
| "run_op deps json lossy n st mem (OpOutputWrite ptr l) =
     (case read_guest mem ptr l (cs_max_output st) of
        Inr d \<Rightarrow> (st\<lparr>cs_output := d, cs_output_rejected := StOk\<rparr>, mem, of_nat (status_code StOk))
      | Inl s \<Rightarrow> (st\<lparr>cs_output_rejected := s\<rparr>, mem, of_nat (status_code s)))"
| "run_op deps json lossy n st mem (OpErrorWrite ptr l) =
     (case read_guest mem ptr l max_error_bytes of
        Inr d \<Rightarrow> (st\<lparr>cs_err_msg := lossy d\<rparr>, mem, of_nat (status_code StOk))
      | Inl s \<Rightarrow> (st, mem, of_nat (status_code s)))"
| "run_op deps json lossy n st mem (OpResultRead ptr l) =
     (case write_guest mem ptr l (cs_result st) of (mem', k) \<Rightarrow> (st, mem', of_nat k))"
| "run_op deps json lossy n st mem (OpLog ptr l) = (st, mem, 0)"
| "run_op deps json lossy n st mem (OpCapability m v ptr l) =
     (case capability_call deps json n mem st m v ptr l of (st', w) \<Rightarrow> (st', mem, w))"

fun run_ops ::
  "data_layer \<Rightarrow> (string \<Rightarrow> string option) \<Rightarrow> (string \<Rightarrow> string) \<Rightarrow> nat \<Rightarrow> call_state
   \<Rightarrow> (string \<times> host_op) list \<Rightarrow> call_state" where
  "run_ops deps json lossy n st [] = st"
| "run_ops deps json lossy n st ((mem, opn) # ops) =
     run_ops deps json lossy (Suc n) (fst (run_op deps json lossy n st mem opn)) ops"

section \<open>Lemmas\<close>

interpretation cp: column_codec capability_as_str capability_parse
proof
  show "capability_parse (capability_as_str x) = Some x" for x
    by (cases x) (simp_all add: capability_parse_def)
qed

lemma for_module_name: "for_module (cap_module_name c) = Some c"
  by (cases c) (simp_all add: for_module_def capability_all_def)

lemma for_module_Some: "for_module n = Some c \<Longrightarrow> n = cap_module_name c"
  unfolding for_module_def by (drule find_SomeD) simp

lemma bit_cap_bit: "bit (cap_bit c) n \<longleftrightarrow> n = cap_index c"
proof -
  have "cap_index c < 32" by (cases c) simp_all
  then show ?thesis by (auto simp: cap_bit_def bit_simps)
qed

lemma cap_has_iff: "cap_has s c \<longleftrightarrow> bit s (cap_index c)"
proof -
  have "s AND cap_bit c = (if bit s (cap_index c) then cap_bit c else 0)"
    by (rule bit_word_eqI) (auto simp: bit_simps bit_cap_bit)
  moreover have "cap_bit c \<noteq> 0" using bit_cap_bit [of c "cap_index c"] by auto
  ultimately show ?thesis by (simp add: cap_has_def)
qed

lemma cap_index_inj [simp]: "cap_index a = cap_index b \<longleftrightarrow> a = b"
  by (cases a; cases b) simp_all

lemma cap_has_or [simp]: "cap_has (s OR cap_bit c) d \<longleftrightarrow> cap_has s d \<or> c = d"
  by (auto simp: cap_has_iff bit_simps bit_cap_bit)

lemma not_cap_has_0 [simp]: "\<not> cap_has 0 c"
  by (simp add: cap_has_def)

text \<open>A set built from a manifest's names has exactly the capabilities among them.\<close>

lemma cap_has_from_names: "cap_has (from_names ns) c \<longleftrightarrow> capability_as_str c \<in> set ns"
proof -
  have "cap_has (foldl (\<lambda>s n. case capability_parse n of Some c \<Rightarrow> s OR cap_bit c | None \<Rightarrow> s) s ns) c \<longleftrightarrow>
      cap_has s c \<or> capability_as_str c \<in> set ns" for s
  proof (induction ns arbitrary: s)
    case (Cons n ns)
    have "capability_parse n = Some c \<longleftrightarrow> n = capability_as_str c"
      by (cases c) (auto simp: capability_parse_def)
    then show ?case by (auto simp: Cons split: option.splits)
  qed simp
  then show ?thesis by (simp add: from_names_def)
qed

lemma cap_has_new: "cap_has (cap_set_new cs) c \<longleftrightarrow> c \<in> set cs"
proof -
  have "cap_has (foldl (\<lambda>s c. s OR cap_bit c) s cs) c \<longleftrightarrow> cap_has s c \<or> c \<in> set cs" for s
    by (induction cs arbitrary: s) auto
  then show ?thesis by (simp add: cap_set_new_def)
qed

lemma status_code_from: "status_from_u8 (status_code s) = Some s"
  by (cases s) (simp_all add: status_from_u8_def)

text \<open>What is packed into the result word comes out again, for any size a buffer can have.\<close>

lemma unpack_pack:
  assumes "n < 2 ^ 32"
  shows "unpack_result (pack_result s l n) = (s, l, n)"
proof -
  define S :: "64 word" where "S = of_nat (status_code s) AND mask 8"
  define B :: "64 word" where "B = (if is_untrusted l then 1 else 0)"
  define N :: "64 word" where "N = of_nat n AND mask 32"
  have m: "(0xFF :: 64 word) = mask 8" by (simp add: mask_eq_exp_minus_1)
  have v: "pack_result s l n = push_bit 40 S OR push_bit 32 B OR N"
    by (simp add: pack_result_def m S_def B_def N_def Let_def)
  have bB: "bit B i \<longleftrightarrow> i = 0 \<and> is_untrusted l" for i by (simp add: B_def bit_1_iff)
  have bS: "bit S i \<Longrightarrow> i < 8" and bN: "bit N i \<Longrightarrow> i < 32" for i
    by (simp_all add: S_def N_def bit_simps)
  have "drop_bit 40 (pack_result s l n) AND mask 8 = S"
    unfolding v by (rule bit_word_eqI) (auto simp: bit_simps bB dest: bS bN)
  moreover have "drop_bit 32 (pack_result s l n) AND mask 8 = B"
    unfolding v by (rule bit_word_eqI) (auto simp: bit_simps bB dest: bS bN)
  moreover have "pack_result s l n AND mask 32 = N"
    unfolding v by (rule bit_word_eqI) (auto simp: bit_simps bB dest: bS bN)
  moreover have "unat S = status_code s"
    by (cases s) (simp_all add: S_def take_bit_eq_mask [symmetric] unsigned_take_bit_eq)
  moreover have "unat N = n"
    using assms by (simp add: N_def take_bit_eq_mask [symmetric] unsigned_take_bit_eq unat_of_nat take_bit_nat_eq_self)
  ultimately show ?thesis
    by (cases l) (simp_all add: unpack_result_def m status_code_from B_def is_untrusted_def)
qed

section \<open>Taint\<close>

lemma weaken_simps [simp]:
  "cs_taint (weaken l c st) = weaker (cs_taint st) l" "cs_result (weaken l c st) = cs_result st"
  "cs_max_output (weaken l c st) = cs_max_output st" "cs_max_input (weaken l c st) = cs_max_input st"
  "cs_caller (weaken l c st) = cs_caller st" "cs_app (weaken l c st) = cs_app st"
  by (simp_all add: weaken_def Let_def)

lemma fail_simps [simp]:
  "cs_taint (fst (fail st s msg opn)) = Untrusted" "cs_result (fst (fail st s msg opn)) = msg"
  by (simp_all add: fail_def)

text \<open>
  The effect of one capability call on the taint: a call that fails anywhere leaves the invocation
  untrusted; one that succeeds folds the level of the response in, and only the sanitizer's response
  replaces the taint.
\<close>

lemma capability_call_taint:
  assumes "capability_call deps json n mem st m v ptr l = (st', w)"
  shows "cs_taint st' = Untrusted \<or>
    (\<exists>body resp. dispatch deps n m v (request_of st body) = Inr resp \<and>
       cs_taint st' = (if m = ''hive_sanitize'' then rp_trust resp else weaker (cs_taint st) (rp_trust resp)))"
proof -
  have f: "fail st s msg opn = (st', w) \<Longrightarrow> cs_taint st' = Untrusted" for st s msg opn
    by (metis fail_simps(1) fst_conv)
  show ?thesis
    using assms unfolding capability_call_def Let_def
    by (auto dest: f split: sum.splits option.splits if_splits) (blast+)
qed

lemma run_op_taint:
  assumes "run_op deps json lossy n st mem opn = (st', mem', w)"
  shows "cs_taint st' = cs_taint st \<or> cs_taint st' = Untrusted \<or>
    (\<exists>v ptr l body resp. opn = OpCapability ''hive_sanitize'' v ptr l \<and>
       deps n ''hive_sanitize'' v (request_of st body) = Inr resp \<and> rp_trust resp = Trusted)"
proof (cases opn)
  case (OpCapability m v ptr l)
  with assms have c: "capability_call deps json n mem st m v ptr l = (st', w)" by (auto split: prod.splits)
  show ?thesis
  proof (rule ccontr)
    assume n: "\<not> ?thesis"
    with capability_call_taint [OF c] obtain body resp where r: "dispatch deps n m v (request_of st body) = Inr resp"
      "cs_taint st' = (if m = ''hive_sanitize'' then rp_trust resp else weaker (cs_taint st) (rp_trust resp))"
      by blast
    from n have t: "cs_taint st' = Trusted" "cs_taint st = Untrusted" by (cases "cs_taint st'"; cases "cs_taint st"; simp)+
    with r(2) have "m = ''hive_sanitize''" "rp_trust resp = Trusted" by (auto split: if_splits)
    moreover have "deps n m v (request_of st body) = Inr resp"
      using r(1) by (auto simp: dispatch_def split: if_splits)
    ultimately show False using n OpCapability by blast
  qed
qed (use assms in \<open>auto split: prod.splits sum.splits\<close>)

text \<open>The host fills in who calls: no call of the guest changes it.\<close>

lemma run_op_identity:
  "cs_caller (fst (run_op deps json lossy n st mem opn)) = cs_caller st \<and>
   cs_app (fst (run_op deps json lossy n st mem opn)) = cs_app st"
  by (cases opn)
     (auto simp: capability_call_def fail_def Let_def split: prod.splits sum.splits option.splits)

lemma run_ops_identity:
  "cs_caller (run_ops deps json lossy n st ops) = cs_caller st \<and> cs_app (run_ops deps json lossy n st ops) = cs_app st"
  by (induction ops arbitrary: n st) (auto simp: run_op_identity)

definition sanitizes :: "host_op \<Rightarrow> bool" where
  "sanitizes opn \<longleftrightarrow> (case opn of OpCapability m v ptr l \<Rightarrow> m = ''hive_sanitize'' | _ \<Rightarrow> False)"

lemma run_ops_taint:
  assumes "cs_taint st = Untrusted" "\<forall>p \<in> set ops. \<not> sanitizes (snd p)"
  shows "cs_taint (run_ops deps json lossy n st ops) = Untrusted"
  using assms
proof (induction ops arbitrary: n st)
  case (Cons x ops)
  obtain mem opn where x: "x = (mem, opn)" by (cases x)
  obtain st' mem' w where r: "run_op deps json lossy n st mem opn = (st', mem', w)" by (metis prod_cases3)
  from Cons.prems(2) x have "\<not> sanitizes opn" by simp
  with run_op_taint [OF r] Cons.prems(1) have "cs_taint st' = Untrusted" by (auto simp: sanitizes_def)
  with Cons r x show ?case by simp
qed simp

text \<open>
  Memory: a read copies exactly the bytes named or refuses, and a write never touches a byte outside
  the room the guest gave or past the end of its memory.
\<close>

lemma read_guest_exact:
  "read_guest mem ptr l mx = Inr d \<longleftrightarrow>
     unat l \<le> mx \<and> unat ptr + unat l \<le> length mem \<and> d = take (unat l) (drop (unat ptr) mem)"
  by (auto simp: read_guest_def)

lemma write_guest_within:
  assumes "write_guest mem ptr room d = (mem', k)"
  shows "length mem' = length mem \<and> k \<le> unat room \<and>
    (\<forall>i < length mem. i < unat ptr \<or> unat ptr + unat room \<le> i \<longrightarrow> mem' ! i = mem ! i)"
  using assms
  by (auto simp: write_guest_def Let_def abi_len_def nth_append min_def split: if_splits)

end
