(* ===== verification/Hive_Host.thy ===== *)
theory Hive_Host
  imports Hive_Abi
begin

text \<open>
  The guest runtime (\<open>crates/hive-wasmhost/src/host.rs\<close>, \<open>compile.rs\<close>, \<open>pool.rs\<close>, \<open>limiter.rs\<close>, \<open>call.rs\<close>,
  \<open>pinned.rs\<close>). wasmtime is a parameter: what compiling bytes gives, whether an instance starts, and how
  one run of a guest went, which is the list of host calls it made with its memory at each, how it
  ended, how long it took and how large its memory was then. A compiled module is what the host reads
  of it: its exported memories, its entry points and its imports. The idle instances of the pool are
  one list in the order they were put back, which keeps the order within each key's stack.
\<close>

section \<open>Configuration and modules\<close>

datatype termination_mode = TermDefault | TermOn | TermOff
datatype residency = Pooled | Pinned

record host_config =
  hc_memory_tiers :: "nat list"
  hc_default_pages :: nat
  hc_pool_budget :: nat
  hc_reserved_budget :: nat
  hc_idle_ttl :: int
  hc_call_timeout :: int
  hc_default_termination :: termination_mode
  hc_epoch_tick :: int
  hc_max_input :: nat
  hc_max_output :: nat

definition page_bytes :: nat where "page_bytes = 64 * 1024"

definition config_fill :: "host_config \<Rightarrow> host_config" where
  "config_fill c0 =
     (let c1 = c0\<lparr>hc_memory_tiers := remdups_adj (sort (if hc_memory_tiers c0 = [] then [256, 1024, 4096] else hc_memory_tiers c0))\<rparr>;
          c2 = (if hc_default_pages c1 = 0 then c1\<lparr>hc_default_pages := 256\<rparr> else c1);
          c3 = (if hc_pool_budget c2 = 0 then c2\<lparr>hc_pool_budget := 512 * 1024 * 1024\<rparr> else c2);
          c4 = (if hc_reserved_budget c3 = 0 then c3\<lparr>hc_reserved_budget := hc_pool_budget c3 div 4\<rparr> else c3);
          c5 = (if hc_idle_ttl c4 = 0 then c4\<lparr>hc_idle_ttl := 300000000\<rparr> else c4);
          c6 = (if hc_call_timeout c5 = 0 then c5\<lparr>hc_call_timeout := 30000000\<rparr> else c5);
          c7 = (if hc_epoch_tick c6 = 0 then c6\<lparr>hc_epoch_tick := 10000\<rparr> else c6);
          c8 = (if hc_max_input c7 = 0 \<or> 2 ^ 31 - 1 < hc_max_input c7 then c7\<lparr>hc_max_input := 16 * 2 ^ 20\<rparr> else c7)
      in if hc_max_output c8 = 0 \<or> 2 ^ 31 - 1 < hc_max_output c8 then c8\<lparr>hc_max_output := 16 * 2 ^ 20\<rparr> else c8)"

record guest_module =
  gm_hash :: string
  gm_app :: string
  gm_version :: string
  gm_memory_pages :: nat
  gm_capabilities :: cap_set
  gm_termination :: termination_mode
  gm_residency :: residency

type_synonym tier_key = "nat \<times> bool"

record wasm_module =
  wm_memories :: "string list"
  wm_entries :: "string list"
  wm_imports :: "(string \<times> string \<times> bool) list"

section \<open>Errors\<close>

datatype link_error =
    UndeclaredImport string string "capability option"
  | BlockingImport string string
  | NoMemory

datatype limiter_error = AtCapacity | LimiterCredential identity_error

record guest_error =
  ge_code :: int
  ge_message :: string

record terminated =
  te_enforced :: bool
  te_deadline :: int
  te_elapsed :: int

datatype wasm_error =
    WModule string
  | WCaller caller_error
  | WClosed
  | TierTooLarge nat nat
  | WLink link_error
  | NoSource
  | WFetch string
  | HashMismatch string string
  | WCompile string
  | WInstantiate string
  | NoSuchFunction string
  | InputTooLarge nat nat
  | EmptyFunction
  | PinnedNeedsAcquire
  | NotPinned
  | PinnedDead
  | WLimiter limiter_error
  | WReserve limiter_error
  | WGuest guest_error
  | WTerminated terminated
  | WTrap string

definition late_by :: "terminated \<Rightarrow> int" where
  "late_by t = (if te_deadline t = 0 \<or> te_elapsed t \<le> te_deadline t then 0 else te_elapsed t - te_deadline t)"

definition guest_module_validate :: "guest_module \<Rightarrow> wasm_error + unit" where
  "guest_module_validate m =
     (if gm_hash m = [] then Inl (WModule ''module: hash is empty'')
      else if gm_app m = [] then Inl (WModule ''module: app is empty'')
      else Inr ())"

definition terminates :: "host_config \<Rightarrow> guest_module \<Rightarrow> bool" where
  "terminates cfg m =
     (case gm_termination m of TermOn \<Rightarrow> True | TermOff \<Rightarrow> False
      | TermDefault \<Rightarrow> hc_default_termination cfg \<noteq> TermOff)"

definition want_pages :: "host_config \<Rightarrow> guest_module \<Rightarrow> nat" where
  "want_pages cfg m = (if gm_memory_pages m = 0 then hc_default_pages cfg else gm_memory_pages m)"

definition tier_for :: "host_config \<Rightarrow> bool \<Rightarrow> guest_module \<Rightarrow> wasm_error + tier_key" where
  "tier_for cfg closed m =
     (let pages = want_pages cfg m;
          ceiling = (case List.find (\<lambda>p. pages \<le> p) (hc_memory_tiers cfg) of
                       Some p \<Rightarrow> p | None \<Rightarrow> last (hc_memory_tiers cfg))
      in if ceiling < pages then Inl (TierTooLarge pages ceiling)
         else if closed then Inl WClosed
         else Inr (ceiling, terminates cfg m))"

section \<open>The link-time gate\<close>

definition wasi_module :: string where "wasi_module = ''wasi_snapshot_preview1''"
definition abi_module :: string where "abi_module = ''hive_abi''"

definition allowed_wasi :: "string list" where
  "allowed_wasi =
     [''args_get'', ''args_sizes_get'', ''environ_get'', ''environ_sizes_get'', ''proc_exit'',
      ''clock_res_get'', ''clock_time_get'', ''random_get'',
      ''fd_write'', ''fd_close'', ''fd_fdstat_get'', ''fd_seek'', ''sched_yield'']"

definition wasi_allowed :: "string \<Rightarrow> bool" where
  "wasi_allowed f \<longleftrightarrow> f \<in> set allowed_wasi"

fun check_imports :: "cap_set \<Rightarrow> string list \<Rightarrow> (string \<times> string \<times> bool) list \<Rightarrow> link_error + unit" where
  "check_imports caps seen [] = Inr ()"
| "check_imports caps seen ((m, f, is_func) # is) =
     (if \<not> is_func then check_imports caps seen is
      else if m = wasi_module
      then if \<not> wasi_allowed f then Inl (BlockingImport m f) else check_imports caps seen is
      else if m = abi_module then check_imports caps seen is
      else if m \<in> set seen then check_imports caps seen is
      else (case for_module m of
              None \<Rightarrow> Inl (UndeclaredImport m f None)
            | Some c \<Rightarrow>
                if \<not> cap_has caps c then Inl (UndeclaredImport m f (Some c))
                else check_imports caps (seen @ [m]) is))"

definition check_module :: "wasm_module \<Rightarrow> cap_set \<Rightarrow> link_error + unit" where
  "check_module w caps = (if wm_memories w = [] then Inl NoMemory else check_imports caps [] (wm_imports w))"

type_synonym link_memo = "((string \<times> cap_set) \<times> (link_error + unit)) list"

definition verify :: "link_memo \<Rightarrow> wasm_module \<Rightarrow> string \<Rightarrow> cap_set \<Rightarrow> link_memo \<times> (link_error + unit)" where
  "verify memo w h caps =
     (case map_of memo (h, caps) of
        Some v \<Rightarrow> (memo, v)
      | None \<Rightarrow> (let v = check_module w caps in (((h, caps), v) # memo, v)))"

text \<open>The compiled module of a hash; \<open>src\<close> fetches bytes, \<open>sha\<close> is the hex digest, \<open>compile\<close> is wasmtime's.\<close>

definition module_get ::
  "(string \<Rightarrow> string) \<Rightarrow> (string \<Rightarrow> string + wasm_module) \<Rightarrow> (string \<times> wasm_module) list
   \<Rightarrow> (string \<Rightarrow> string + string) option \<Rightarrow> string \<Rightarrow> (string \<times> wasm_module) list \<times> (wasm_error + wasm_module)" where
  "module_get sha compile cache src h =
     (case map_of cache h of
        Some w \<Rightarrow> (cache, Inr w)
      | None \<Rightarrow>
          (case src of
             None \<Rightarrow> (cache, Inl NoSource)
           | Some fetch \<Rightarrow>
               (case fetch h of
                  Inl e \<Rightarrow> (cache, Inl (WFetch e))
                | Inr bytes \<Rightarrow>
                    if sha bytes \<noteq> h then (cache, Inl (HashMismatch h (sha bytes)))
                    else (case compile bytes of
                            Inl e \<Rightarrow> (cache, Inl (WCompile e))
                          | Inr w \<Rightarrow> ((h, w) # cache, Inr w)))))"

section \<open>The pool of idle instances\<close>

record instance_key =
  ik_module_hash :: string
  ik_principal :: uuid
  ik_tier :: tier_key
  ik_caps :: cap_set

definition instance_overhead :: nat where "instance_overhead = 32 * 1024"

record wasm_instance =
  in_key :: instance_key
  in_memory :: nat
  in_last_used :: time
  in_seq :: nat
  in_bytes :: nat
  in_dead :: bool

record pool =
  pl_idle :: "wasm_instance list"
  pl_count :: nat
  pl_bytes :: nat
  pl_reserved :: nat
  pl_seq :: nat
  pl_closed :: bool
  pl_budget :: nat
  pl_reserved_budget :: nat
  pl_ttl :: int

definition pool_new :: "nat \<Rightarrow> nat \<Rightarrow> int \<Rightarrow> pool" where
  "pool_new budget reserved_budget ttl =
     \<lparr>pl_idle = [], pl_count = 0, pl_bytes = 0, pl_reserved = 0, pl_seq = 0, pl_closed = False,
      pl_budget = budget, pl_reserved_budget = reserved_budget, pl_ttl = ttl\<rparr>"

definition mem_bytes :: "wasm_instance \<Rightarrow> nat" where
  "mem_bytes i = in_memory i + instance_overhead"

definition evictable_budget :: "pool \<Rightarrow> nat" where
  "evictable_budget p = pl_budget p - pl_reserved p"

text \<open>Taking one instance out; the subtractions of the source panic where they would underflow.\<close>

definition detach :: "wasm_instance \<Rightarrow> wasm_instance list \<Rightarrow> pool \<Rightarrow> pool" where
  "detach i rest p = p\<lparr>pl_idle := rest, pl_count := pl_count p - 1, pl_bytes := pl_bytes p - in_bytes i\<rparr>"

definition detach_oldest :: "pool \<Rightarrow> (wasm_instance \<times> pool) option" where
  "detach_oldest p =
     (case sort_key in_seq (pl_idle p) of
        [] \<Rightarrow> None
      | i # _ \<Rightarrow> Some (i, detach i (remove1 i (pl_idle p)) p))"

function evict_locked :: "pool \<Rightarrow> pool" where
  "evict_locked p =
     (if evictable_budget p < pl_bytes p
      then (case detach_oldest p of None \<Rightarrow> p | Some (_, p') \<Rightarrow> evict_locked p')
      else p)"
  by pat_completeness auto

definition pool_reserve :: "pool \<Rightarrow> nat \<Rightarrow> pool \<times> (limiter_error + unit)" where
  "pool_reserve p n =
     (if pl_closed p then (p, Inl AtCapacity)
      else if 0 < pl_reserved_budget p \<and> pl_reserved_budget p < pl_reserved p + n then (p, Inl AtCapacity)
      else (evict_locked (p\<lparr>pl_reserved := pl_reserved p + n\<rparr>), Inr ()))"

definition pool_unreserve :: "pool \<Rightarrow> nat \<Rightarrow> pool" where
  "pool_unreserve p n = p\<lparr>pl_reserved := pl_reserved p - n\<rparr>"

definition pool_acquire :: "pool \<Rightarrow> instance_key \<Rightarrow> pool \<times> wasm_instance option" where
  "pool_acquire p k =
     (if pl_closed p then (p, None)
      else (case List.find (\<lambda>i. in_key i = k) (rev (pl_idle p)) of
              None \<Rightarrow> (p, None)
            | Some i \<Rightarrow> (detach i (rev (remove1 i (rev (pl_idle p)))) p, Some i)))"

definition pool_release :: "pool \<Rightarrow> wasm_instance \<Rightarrow> time \<Rightarrow> pool" where
  "pool_release p i0 now =
     (if in_dead i0 then p
      else if pl_closed p then p
      else (let i = i0\<lparr>in_bytes := mem_bytes i0, in_last_used := now, in_seq := pl_seq p + 1\<rparr>
            in evict_locked (p\<lparr>pl_seq := pl_seq p + 1, pl_count := pl_count p + 1,
                               pl_bytes := pl_bytes p + in_bytes i, pl_idle := pl_idle p @ [i]\<rparr>)))"

definition pool_sweep :: "pool \<Rightarrow> time \<Rightarrow> pool" where
  "pool_sweep p now =
     (if pl_closed p then p
      else (let gone = (\<lambda>i. in_last_used i \<le> now - pl_ttl p);
                out = filter gone (pl_idle p)
            in p\<lparr>pl_idle := filter (\<lambda>i. \<not> gone i) (pl_idle p), pl_count := pl_count p - length out,
                 pl_bytes := pl_bytes p - sum_list (map in_bytes out)\<rparr>))"

definition pool_close_all :: "pool \<Rightarrow> pool" where
  "pool_close_all p = p\<lparr>pl_closed := True, pl_count := 0, pl_bytes := 0, pl_idle := []\<rparr>"

section \<open>The limiter\<close>

record counts =
  ct_live :: nat
  ct_per_principal :: "uuid \<Rightarrow> nat option"

definition limits_for :: "nat \<Rightarrow> nat \<Rightarrow> nat \<times> nat" where
  "limits_for max_live max_per = (max_live, if max_per = 0 then max_live else max_per)"

definition room :: "counts \<Rightarrow> uuid \<Rightarrow> nat \<Rightarrow> nat \<Rightarrow> bool" where
  "room c w global per \<longleftrightarrow>
     \<not> (0 < global \<and> global \<le> ct_live c)
   \<and> \<not> (0 < per \<and> per \<le> (case ct_per_principal c w of None \<Rightarrow> 0 | Some n \<Rightarrow> n))"

text \<open>One turn of the waiting loop: a slot, or nothing yet.\<close>

definition limiter_try :: "nat \<Rightarrow> nat \<Rightarrow> counts \<Rightarrow> credential \<Rightarrow> (limiter_error + counts option)" where
  "limiter_try max_live max_per c cr =
     (case credential_validate cr of
        Inl e \<Rightarrow> Inl (LimiterCredential e)
      | Inr _ \<Rightarrow>
          (let (global, per) = limits_for max_live max_per; w = principal_id cr in
           Inr (if room c w global per
                then Some (c\<lparr>ct_live := ct_live c + 1,
                             ct_per_principal := (ct_per_principal c)(w \<mapsto>
                               (case ct_per_principal c w of None \<Rightarrow> 0 | Some n \<Rightarrow> n) + 1)\<rparr>)
                else None)))"

definition lease_release :: "counts \<Rightarrow> uuid \<Rightarrow> counts" where
  "lease_release c w =
     c\<lparr>ct_live := ct_live c - 1,
       ct_per_principal :=
         (case ct_per_principal c w of
            None \<Rightarrow> ct_per_principal c
          | Some n \<Rightarrow> (ct_per_principal c)(w := (if n - 1 = 0 then None else Some (n - 1))))\<rparr>"

section \<open>Calls\<close>

record call_request =
  cr_module :: guest_module
  cr_source :: "(string \<Rightarrow> string + string) option"
  cr_function :: string
  cr_input :: string
  cr_caller :: caller
  cr_timeout :: "int option"
  cr_trust :: level

record call_result =
  ca_output :: string
  ca_trust :: level
  ca_tainted_by :: string
  ca_warm :: bool

record call_failure =
  cf_error :: wasm_error
  cf_trust :: level
  cf_tainted_by :: string

definition early :: "wasm_error \<Rightarrow> call_failure" where
  "early e = \<lparr>cf_error = e, cf_trust = Trusted, cf_tainted_by = []\<rparr>"

datatype run_outcome = OutDropped | OutTrapped bool string | OutReturned int

record guest_run =
  gr_calls :: "(string \<times> host_op) list"
  gr_outcome :: run_outcome
  gr_elapsed :: int
  gr_memory :: nat

definition new_call_state :: "host_config \<Rightarrow> call_request \<Rightarrow> level \<Rightarrow> call_state" where
  "new_call_state cfg req tnt =
     \<lparr>cs_caller = cr_caller req, cs_app = gm_app (cr_module req), cs_input = cr_input req,
      cs_output = [], cs_err_msg = [], cs_result = [], cs_taint = tnt, cs_tainted_by = [],
      cs_output_rejected = StOk, cs_max_input = hc_max_input cfg, cs_max_output = hc_max_output cfg\<rparr>"

definition terminated_error :: "int \<Rightarrow> int \<Rightarrow> bool \<Rightarrow> wasm_error" where
  "terminated_error timeout elapsed enforced =
     WTerminated \<lparr>te_enforced = enforced, te_deadline = timeout, te_elapsed = elapsed\<rparr>"

definition invoke ::
  "host_config \<Rightarrow> data_layer \<Rightarrow> (string \<Rightarrow> string option) \<Rightarrow> (string \<Rightarrow> string) \<Rightarrow> wasm_module
   \<Rightarrow> wasm_instance \<Rightarrow> call_request \<Rightarrow> level \<Rightarrow> int \<Rightarrow> guest_run
   \<Rightarrow> wasm_instance \<times> (call_failure + call_result)" where
  "invoke cfg deps json lossy w inst req tnt timeout run =
     (if cr_function req \<notin> set (wm_entries w)
      then (inst, Inl \<lparr>cf_error = NoSuchFunction (cr_function req), cf_trust = tnt, cf_tainted_by = []\<rparr>)
      else
        (let st = run_ops deps json lossy 0 (new_call_state cfg req tnt) (gr_calls run);
             i = inst\<lparr>in_memory := gr_memory run\<rparr>;
             elapsed = gr_elapsed run;
             dead = i\<lparr>in_dead := True\<rparr>;
             failure = (\<lambda>e. \<lparr>cf_error = e, cf_trust = cs_taint st, cf_tainted_by = cs_tainted_by st\<rparr>)
         in case gr_outcome run of
              OutDropped \<Rightarrow> (dead, Inl (failure (terminated_error timeout elapsed True)))
            | OutTrapped interrupt msg \<Rightarrow>
                (dead, Inl (failure (if interrupt then terminated_error timeout elapsed True
                                     else if timeout < elapsed then terminated_error timeout elapsed False
                                     else WTrap msg)))
            | OutReturned code \<Rightarrow>
                if timeout < elapsed then (dead, Inl (failure (terminated_error timeout elapsed False)))
                else
                  (let i2 = (if is_untrusted (cs_taint st) then dead else i) in
                   if code \<noteq> 0
                   then (i2, Inl (failure (WGuest \<lparr>ge_code = code, ge_message = cs_err_msg st\<rparr>)))
                   else if cs_output_rejected st \<noteq> StOk
                   then (i2, Inl (failure (WGuest \<lparr>ge_code = int (status_code (cs_output_rejected st)),
                                                   ge_message = ''the host refused its result''\<rparr>)))
                   else (i2, Inr \<lparr>ca_output = cs_output st, ca_trust = cs_taint st,
                                  ca_tainted_by = cs_tainted_by st, ca_warm = False\<rparr>))))"

text \<open>wasmtime's part of building an instance: an error, or the size of its memory.\<close>

definition instantiate :: "string + nat \<Rightarrow> wasm_module \<Rightarrow> guest_module \<Rightarrow> instance_key \<Rightarrow> time \<Rightarrow> wasm_error + wasm_instance" where
  "instantiate start w m key now =
     (case check_module w (gm_capabilities m) of
        Inl e \<Rightarrow> Inl (WLink e)
      | Inr _ \<Rightarrow>
          (case start of
             Inl e \<Rightarrow> Inl (WInstantiate e)
           | Inr mem \<Rightarrow>
               Inr \<lparr>in_key = key, in_memory = mem, in_last_used = now, in_seq = 0,
                    in_bytes = mem + instance_overhead, in_dead = False\<rparr>))"

record host_state =
  ho_pool :: pool
  ho_closed :: bool
  ho_cache :: "(string \<times> wasm_module) list"
  ho_memo :: link_memo

definition key_of :: "call_request \<Rightarrow> tier_key \<Rightarrow> instance_key" where
  "key_of req tier =
     \<lparr>ik_module_hash = gm_hash (cr_module req), ik_principal = principal_id (cl_cred (cr_caller req)),
      ik_tier = tier, ik_caps = gm_capabilities (cr_module req)\<rparr>"

text \<open>The checks before any instance is touched; the limiter is the last of them.\<close>

definition call_checks :: "host_config \<Rightarrow> host_state \<Rightarrow> call_request \<Rightarrow> wasm_error + tier_key" where
  "call_checks cfg hs req =
     (case guest_module_validate (cr_module req) of
        Inl e \<Rightarrow> Inl e
      | Inr _ \<Rightarrow>
     (case caller_validate (cr_caller req) of
        Inl e \<Rightarrow> Inl (WCaller e)
      | Inr _ \<Rightarrow>
          if cr_function req = [] then Inl EmptyFunction
          else if hc_max_input cfg < length (cr_input req)
          then Inl (InputTooLarge (length (cr_input req)) (hc_max_input cfg))
          else if gm_residency (cr_module req) = Pinned then Inl PinnedNeedsAcquire
          else if ho_closed hs then Inl WClosed
          else tier_for cfg (ho_closed hs) (cr_module req)))"

definition host_call ::
  "host_config \<Rightarrow> data_layer \<Rightarrow> (string \<Rightarrow> string option) \<Rightarrow> (string \<Rightarrow> string)
   \<Rightarrow> (string \<Rightarrow> string) \<Rightarrow> (string \<Rightarrow> string + wasm_module) \<Rightarrow> (limiter_error + unit) \<Rightarrow> string + nat
   \<Rightarrow> host_state \<Rightarrow> call_request \<Rightarrow> guest_run \<Rightarrow> time \<Rightarrow> host_state \<times> (call_failure + call_result)" where
  "host_call cfg deps json lossy sha compile slot start hs req run now =
     (case call_checks cfg hs req of
        Inl e \<Rightarrow> (hs, Inl (early e))
      | Inr tier \<Rightarrow>
     (case module_get sha compile (ho_cache hs) (cr_source req) (gm_hash (cr_module req)) of
        (cache, Inl e) \<Rightarrow> (hs\<lparr>ho_cache := cache\<rparr>, Inl (early e))
      | (cache, Inr w) \<Rightarrow>
     (case verify (ho_memo hs) w (gm_hash (cr_module req)) (gm_capabilities (cr_module req)) of
        (memo, Inl e) \<Rightarrow> (hs\<lparr>ho_cache := cache, ho_memo := memo\<rparr>, Inl (early (WLink e)))
      | (memo, Inr _) \<Rightarrow>
     (let hs1 = hs\<lparr>ho_cache := cache, ho_memo := memo\<rparr>;
          timeout = (case cr_timeout req of None \<Rightarrow> hc_call_timeout cfg | Some t \<Rightarrow> t)
      in case slot of
           Inl e \<Rightarrow> (hs1, Inl (early (WLimiter e)))
         | Inr _ \<Rightarrow>
     (case pool_acquire (ho_pool hs1) (key_of req tier) of
        (p, got) \<Rightarrow>
          (case (case got of Some i \<Rightarrow> Inr i | None \<Rightarrow> instantiate start w (cr_module req) (key_of req tier) now) of
             Inl e \<Rightarrow> (hs1\<lparr>ho_pool := p\<rparr>, Inl (early e))
           | Inr inst \<Rightarrow>
               (case invoke cfg deps json lossy w inst req (cr_trust req) timeout run of
                  (inst', out) \<Rightarrow>
                    (hs1\<lparr>ho_pool := pool_release p inst' now\<rparr>,
                     map_sum id (\<lambda>r. r\<lparr>ca_warm := (got \<noteq> None)\<rparr>) out))))))))"

section \<open>Pinned instances\<close>

record pinned =
  pn_module :: guest_module
  pn_caller :: caller
  pn_bytes :: nat
  pn_wasm :: wasm_module
  pn_inst :: "wasm_instance option"
  pn_taint_seen :: bool

definition acquire_pinned ::
  "host_config \<Rightarrow> (string \<Rightarrow> string) \<Rightarrow> (string \<Rightarrow> string + wasm_module) \<Rightarrow> (limiter_error + unit) \<Rightarrow> string + nat
   \<Rightarrow> host_state \<Rightarrow> call_request \<Rightarrow> time \<Rightarrow> host_state \<times> (wasm_error + pinned)" where
  "acquire_pinned cfg sha compile slot start hs req now =
     (let m = cr_module req in
      case guest_module_validate m of
        Inl e \<Rightarrow> (hs, Inl e)
      | Inr _ \<Rightarrow>
     (case caller_validate (cr_caller req) of
        Inl e \<Rightarrow> (hs, Inl (WCaller e))
      | Inr _ \<Rightarrow>
          if gm_residency m \<noteq> Pinned then (hs, Inl NotPinned)
          else
     (case tier_for cfg (ho_closed hs) m of
        Inl e \<Rightarrow> (hs, Inl e)
      | Inr tier \<Rightarrow>
     (case module_get sha compile (ho_cache hs) (cr_source req) (gm_hash m) of
        (cache, Inl e) \<Rightarrow> (hs\<lparr>ho_cache := cache\<rparr>, Inl e)
      | (cache, Inr w) \<Rightarrow>
     (let hs1 = hs\<lparr>ho_cache := cache\<rparr> in
      case slot of
        Inl e \<Rightarrow> (hs1, Inl (WLimiter e))
      | Inr _ \<Rightarrow>
     (let want = want_pages cfg m * page_bytes + instance_overhead in
      case pool_reserve (ho_pool hs1) want of
        (p, Inl e) \<Rightarrow> (hs1\<lparr>ho_pool := p\<rparr>, Inl (WReserve e))
      | (p, Inr _) \<Rightarrow>
          (case instantiate start w m (key_of req tier) now of
             Inl e \<Rightarrow> (hs1\<lparr>ho_pool := pool_unreserve p want\<rparr>, Inl e)
           | Inr i \<Rightarrow>
               (hs1\<lparr>ho_pool := p\<rparr>,
                Inr \<lparr>pn_module = m, pn_caller = cr_caller req, pn_bytes = want, pn_wasm = w,
                     pn_inst = Some i, pn_taint_seen = is_untrusted (cr_trust req)\<rparr>))))))))"

definition pinned_request :: "pinned \<Rightarrow> string \<Rightarrow> string \<Rightarrow> call_request" where
  "pinned_request pn f input =
     \<lparr>cr_module = pn_module pn, cr_source = None, cr_function = f, cr_input = input,
      cr_caller = pn_caller pn, cr_timeout = None, cr_trust = Trusted\<rparr>"

definition pinned_call ::
  "host_config \<Rightarrow> data_layer \<Rightarrow> (string \<Rightarrow> string option) \<Rightarrow> (string \<Rightarrow> string) \<Rightarrow> pinned \<Rightarrow> string \<Rightarrow> string
   \<Rightarrow> guest_run \<Rightarrow> pinned \<times> (call_failure + call_result)" where
  "pinned_call cfg deps json lossy pn f input run =
     (let tnt = (if pn_taint_seen pn then Untrusted else Trusted) in
      case pn_inst pn of
        None \<Rightarrow> (pn, Inl (early WClosed))
      | Some i \<Rightarrow>
          if in_dead i then (pn, Inl (early PinnedDead))
          else (case invoke cfg deps json lossy (pn_wasm pn) i (pinned_request pn f input) tnt
                       (hc_call_timeout cfg) run of
                  (i', res) \<Rightarrow>
                    (let reached = (case res of Inl x \<Rightarrow> cf_trust x | Inr r \<Rightarrow> ca_trust r) in
                     (pn\<lparr>pn_inst := Some i',
                         pn_taint_seen := (is_untrusted reached \<or> pn_taint_seen pn)\<rparr>, res))))"

definition pinned_close :: "host_state \<Rightarrow> pinned \<Rightarrow> host_state \<times> pinned" where
  "pinned_close hs pn =
     (case pn_inst pn of
        None \<Rightarrow> (hs, pn)
      | Some _ \<Rightarrow> (hs\<lparr>ho_pool := pool_unreserve (ho_pool hs) (pn_bytes pn)\<rparr>, pn\<lparr>pn_inst := None\<rparr>))"

section \<open>The eviction loop returns\<close>

lemma detach_oldest_shorter:
  assumes "detach_oldest p = Some (i, p')"
  shows "length (pl_idle p') < length (pl_idle p)"
proof -
  from assms obtain rest where s: "sort_key in_seq (pl_idle p) = i # rest" "p' = detach i (remove1 i (pl_idle p)) p"
    by (auto simp: detach_oldest_def split: list.splits)
  then have i: "i \<in> set (pl_idle p)" by (metis list.set_intros(1) set_sort)
  then have "0 < length (pl_idle p)" by (rule length_pos_if_in_set)
  with i show ?thesis by (simp add: s(2) detach_def length_remove1)
qed

termination evict_locked
  by (relation "measure (\<lambda>p. length (pl_idle p))") (auto dest: detach_oldest_shorter)

declare evict_locked.simps [simp del]

section \<open>The gate\<close>

definition import_ok :: "cap_set \<Rightarrow> string \<Rightarrow> string \<Rightarrow> bool" where
  "import_ok caps m f \<longleftrightarrow>
     m = wasi_module \<and> wasi_allowed f \<or> m = abi_module \<or> (\<exists>c. m = cap_module_name c \<and> cap_has caps c)"

lemma check_imports_sound:
  assumes "check_imports caps seen imps = Inr ()" "\<forall>m \<in> set seen. \<exists>c. m = cap_module_name c \<and> cap_has caps c"
  shows "(m, f, True) \<in> set imps \<Longrightarrow> import_ok caps m f"
  using assms
proof (induction caps seen imps rule: check_imports.induct)
  case (2 caps seen m' f' is_func imps)
  consider "\<not> is_func" | "is_func" "m' = wasi_module" | "is_func" "m' \<noteq> wasi_module" "m' = abi_module"
    | "is_func" "m' \<noteq> wasi_module" "m' \<noteq> abi_module" "m' \<in> set seen"
    | "is_func" "m' \<noteq> wasi_module" "m' \<noteq> abi_module" "m' \<notin> set seen" by blast
  then show ?case
  proof cases
    case 5
    with "2.prems"(2) obtain c where c: "for_module m' = Some c" "cap_has caps c"
      "check_imports caps (seen @ [m']) imps = Inr ()"
      by (auto split: option.splits if_splits)
    with for_module_Some [OF c(1)] 5 "2.prems" "2.IH"(5) show ?thesis
      by (auto simp: import_ok_def)
  qed (use 2 in \<open>auto simp: import_ok_def split: if_splits\<close>)
qed simp

lemma check_module_sound:
  "check_module w caps = Inr () \<Longrightarrow> (m, f, True) \<in> set (wm_imports w) \<Longrightarrow> import_ok caps m f"
  by (auto simp: check_module_def split: if_splits intro: check_imports_sound [of caps "[]"])

text \<open>The memo never answers for another module: what it remembers is what the check would say.\<close>

definition memo_ok :: "host_state \<Rightarrow> bool" where
  "memo_ok hs \<longleftrightarrow>
     (\<forall>h caps v. map_of (ho_memo hs) (h, caps) = Some v \<longrightarrow>
        (\<exists>w. map_of (ho_cache hs) h = Some w \<and> v = check_module w caps))"

lemma module_get_cache:
  assumes "module_get sha compile cache src h = (cache', r)"
  shows "map_of cache g = Some w \<Longrightarrow> map_of cache' g = Some w" and "r = Inr x \<Longrightarrow> map_of cache' h = Some x"
  using assms by (auto simp: module_get_def split: option.splits sum.splits if_splits)

lemma verify_sound:
  assumes "memo_ok hs" "map_of cache h = Some w" "\<And>g x. map_of (ho_cache hs) g = Some x \<Longrightarrow> map_of cache g = Some x"
    "verify (ho_memo hs) w h caps = (memo, v)"
  shows "v = check_module w caps \<and> memo_ok (hs\<lparr>ho_cache := cache, ho_memo := memo\<rparr>)"
proof -
  have old: "\<exists>x. map_of cache g = Some x \<and> v' = check_module x c" if "map_of (ho_memo hs) (g, c) = Some v'" for g c v'
    using assms(1,3) that unfolding memo_ok_def by blast
  show ?thesis
  proof (cases "map_of (ho_memo hs) (h, caps)")
    case None
    with assms(4) have v: "v = check_module w caps" "memo = ((h, caps), v) # ho_memo hs"
      by (auto simp: verify_def Let_def)
    with old assms(2) show ?thesis by (simp add: memo_ok_def)
  next
    case (Some v')
    with assms(4) have "v = v'" "memo = ho_memo hs" by (auto simp: verify_def)
    with old [OF Some] old assms(2) show ?thesis by (simp add: memo_ok_def)
  qed
qed

section \<open>What reaches the data layer\<close>

text \<open>The requests an invocation sends, in order: one for each capability call whose body was readable.\<close>

fun requests ::
  "data_layer \<Rightarrow> (string \<Rightarrow> string option) \<Rightarrow> (string \<Rightarrow> string) \<Rightarrow> nat \<Rightarrow> call_state
   \<Rightarrow> (string \<times> host_op) list \<Rightarrow> request list" where
  "requests deps json lossy n st [] = []"
| "requests deps json lossy n st ((mem, opn) # ops) =
     (case opn of
        OpCapability m v ptr l \<Rightarrow>
          (case read_guest mem ptr l (cs_max_input st) of Inr body \<Rightarrow> [request_of st body] | Inl _ \<Rightarrow> [])
      | _ \<Rightarrow> []) @ requests deps json lossy (Suc n) (fst (run_op deps json lossy n st mem opn)) ops"

lemma requests_caller:
  "rq \<in> set (requests deps json lossy n st ops) \<Longrightarrow> rq_caller rq = cs_caller st \<and> rq_app rq = cs_app st"
proof (induction ops arbitrary: n st)
  case (Cons x ops)
  obtain mem opn where x: "x = (mem, opn)" by (cases x)
  from Cons.prems x consider body where "rq = request_of st body"
    | "rq \<in> set (requests deps json lossy (Suc n) (fst (run_op deps json lossy n st mem opn)) ops)"
    by (auto split: host_op.splits sum.splits)
  then show ?case
    by cases (auto simp: request_of_def run_op_identity dest: Cons.IH)
qed simp

lemma run_ops_append:
  "run_ops deps json lossy n st (a @ b) = run_ops deps json lossy (n + length a) (run_ops deps json lossy n st a) b"
  by (induction a arbitrary: n st) auto

lemma requests_append:
  "requests deps json lossy n st (a @ b) =
     requests deps json lossy n st a @ requests deps json lossy (n + length a) (run_ops deps json lossy n st a) b"
  by (induction a arbitrary: n st) auto

lemma requests_tainted:
  assumes "cs_taint st = Untrusted" "\<forall>p \<in> set ops. \<not> sanitizes (snd p)" "rq \<in> set (requests deps json lossy n st ops)"
  shows "rq_trust rq = Untrusted"
  using assms
proof (induction ops arbitrary: n st)
  case (Cons x ops)
  obtain mem opn where x: "x = (mem, opn)" by (cases x)
  let ?st = "fst (run_op deps json lossy n st mem opn)"
  from Cons.prems(1,2) x have t: "cs_taint ?st = Untrusted"
    using run_ops_taint [of st "[x]" deps json lossy n] by simp
  from Cons.prems(3) x consider body where "rq = request_of st body"
    | "rq \<in> set (requests deps json lossy (Suc n) ?st ops)"
    by (auto split: host_op.splits sum.splits)
  then show ?case
    using Cons.IH [OF t] Cons.prems by cases (auto simp: request_of_def)
qed simp

section \<open>Calls and taint\<close>

text \<open>A guest calls only what its module imports: that is what linking means.\<close>

definition linked :: "wasm_module \<Rightarrow> guest_run \<Rightarrow> bool" where
  "linked w run \<longleftrightarrow>
     (\<forall>p \<in> set (gr_calls run). case snd p of OpCapability m v ptr l \<Rightarrow> (m, v, True) \<in> set (wm_imports w) | _ \<Rightarrow> True)"

lemma linked_no_sanitize:
  assumes "linked w run" "check_module w caps = Inr ()" "\<not> cap_has caps CapSanitize"
  shows "\<forall>p \<in> set (gr_calls run). \<not> sanitizes (snd p)"
proof
  fix p assume p: "p \<in> set (gr_calls run)"
  show "\<not> sanitizes (snd p)"
  proof
    assume "sanitizes (snd p)"
    then obtain v ptr l where "snd p = OpCapability ''hive_sanitize'' v ptr l"
      by (auto simp: sanitizes_def split: host_op.splits)
    moreover have "case snd p of OpCapability m v ptr l \<Rightarrow> (m, v, True) \<in> set (wm_imports w) | _ \<Rightarrow> True"
      using assms(1) p unfolding linked_def by blast
    ultimately have "(''hive_sanitize'', v, True) \<in> set (wm_imports w)" by simp
    from check_module_sound [OF assms(2) this] obtain c where "''hive_sanitize'' = cap_module_name c" "cap_has caps c"
      by (auto simp: import_ok_def wasi_module_def abi_module_def)
    with assms(3) show False by (cases c) simp_all
  qed
qed

definition trust_of :: "call_failure + call_result \<Rightarrow> level" where
  "trust_of out = (case out of Inl f \<Rightarrow> cf_trust f | Inr r \<Rightarrow> ca_trust r)"

lemma invoke_trust:
  assumes "invoke cfg deps json lossy w inst req t timeout run = (inst', out)" "cr_function req \<in> set (wm_entries w)"
  shows "trust_of out = cs_taint (run_ops deps json lossy 0 (new_call_state cfg req t) (gr_calls run)) \<and>
    (trust_of out = Untrusted \<longrightarrow> in_dead inst')"
  using assms
  by (auto simp: invoke_def trust_of_def Let_def is_untrusted_def split: run_outcome.splits if_splits)

lemma pool_acquire_subset: "set (pl_idle (fst (pool_acquire p k))) \<subseteq> set (pl_idle p)"
  using set_remove1_subset [of _ "rev (pl_idle p)"]
  by (auto simp: pool_acquire_def detach_def split: option.splits)

text \<open>The failures of a guest that was entered: it trapped, was stopped, or reported an error itself.\<close>

fun guest_failed :: "wasm_error \<Rightarrow> bool" where
  "guest_failed (WGuest g) = True"
| "guest_failed (WTerminated t) = True"
| "guest_failed (WTrap msg) = True"
| "guest_failed e = False"

lemma invoke_fails:
  assumes "invoke cfg deps json lossy w inst req t timeout run = (inst', Inl f)" "cr_function req \<in> set (wm_entries w)"
  shows "guest_failed (cf_error f)"
  using assms by (auto simp: invoke_def Let_def terminated_error_def split: run_outcome.splits if_splits)

definition before_guest :: "wasm_error \<Rightarrow> bool" where
  "before_guest e \<longleftrightarrow> \<not> guest_failed e \<and> (\<forall>f. e \<noteq> NoSuchFunction f)"

lemma before_guest_simps [simp]: "before_guest (WLink l)" "before_guest (WLimiter x)"
  by (simp_all add: before_guest_def)

lemma setup_errors:
  "call_checks cfg hs req = Inl e \<Longrightarrow> before_guest e"
  "module_get sha compile cache src h = (cache', Inl e) \<Longrightarrow> before_guest e"
  "instantiate start w m key now = Inl e \<Longrightarrow> before_guest e"
  unfolding before_guest_def
  by (auto simp: call_checks_def guest_module_validate_def tier_for_def Let_def module_get_def instantiate_def
      split: sum.split_asm if_split_asm option.split_asm)

text \<open>A call that got past its checks ran in an instance on a module whose imports had just been checked.\<close>

lemma host_call_cases:
  assumes "host_call cfg deps json lossy sha compile slot start hs req run now = (hs', out)" "memo_ok hs"
  obtains (early) e where "out = Inl (early e)" "memo_ok hs'" "before_guest e"
      "set (pl_idle (ho_pool hs')) \<subseteq> set (pl_idle (ho_pool hs))"
  | (ran) w inst p inst' out0 timeout where
      "map_of (ho_cache hs') (gm_hash (cr_module req)) = Some w"
      "check_module w (gm_capabilities (cr_module req)) = Inr ()"
      "invoke cfg deps json lossy w inst req (cr_trust req) timeout run = (inst', out0)"
      "ho_pool hs' = pool_release p inst' now" "trust_of out = trust_of out0"
      "\<forall>f. out0 = Inl f \<longrightarrow> out = Inl f" "set (pl_idle p) \<subseteq> set (pl_idle (ho_pool hs))" "memo_ok hs'"
      "\<forall>f. out = Inl f \<longrightarrow> out0 = Inl f"
proof (cases "call_checks cfg hs req")
  case (Inl e)
  with assms early setup_errors(1) [OF Inl] show thesis by (auto simp: host_call_def)
next
  case c: (Inr tier)
  let ?h = "gm_hash (cr_module req)" and ?caps = "gm_capabilities (cr_module req)"
  obtain cache r where g: "module_get sha compile (ho_cache hs) (cr_source req) ?h = (cache, r)" by (metis surj_pair)
  note mc = module_get_cache [OF g]
  show thesis
  proof (cases r)
    case (Inl e)
    with assms(1) c g have "out = Inl (early e)" "hs' = hs\<lparr>ho_cache := cache\<rparr>" by (auto simp: host_call_def)
    moreover have "memo_ok (hs\<lparr>ho_cache := cache\<rparr>)" using assms(2) mc(1) unfolding memo_ok_def by simp blast
    ultimately show thesis using early setup_errors(2) g Inl by auto
  next
    case w: (Inr w)
    obtain memo v where vf: "verify (ho_memo hs) w ?h ?caps = (memo, v)" by (metis surj_pair)
    have v: "v = check_module w ?caps" "memo_ok (hs\<lparr>ho_cache := cache, ho_memo := memo\<rparr>)"
      using verify_sound [OF assms(2) mc(2) [OF w] mc(1) vf] by auto
    then have m: "memo_ok (hs\<lparr>ho_cache := cache, ho_memo := memo, ho_pool := p\<rparr>)" for p
      by (simp add: memo_ok_def)
    let ?a = "pool_acquire (ho_pool hs) (key_of req tier)"
    let ?i = "case snd ?a of Some i \<Rightarrow> Inr i | None \<Rightarrow> instantiate start w (cr_module req) (key_of req tier) now"
    have sub: "set (pl_idle (fst ?a)) \<subseteq> set (pl_idle (ho_pool hs))" by (rule pool_acquire_subset)
    show thesis
    proof (cases "(\<exists>e. v = Inl e) \<or> (\<exists>e. slot = Inl e) \<or> (\<exists>e. ?i = Inl e)")
      case True
      with assms(1) c g w vf v(2) m sub show thesis
        by (auto simp: host_call_def Let_def split: sum.splits prod.splits option.splits intro!: early dest: setup_errors(3))
    next
      case False
      then obtain inst where i: "v = Inr ()" "slot = Inr ()" "?i = Inr inst" by (metis old.unit.exhaust sum.exhaust)
      let ?t = "case cr_timeout req of None \<Rightarrow> hc_call_timeout cfg | Some t \<Rightarrow> t"
      obtain inst' out0 where inv: "invoke cfg deps json lossy w inst req (cr_trust req) ?t run = (inst', out0)"
        by (metis surj_pair)
      have "hs' = hs\<lparr>ho_cache := cache, ho_memo := memo, ho_pool := pool_release (fst ?a) inst' now\<rparr>"
        "out = map_sum id (\<lambda>r. r\<lparr>ca_warm := (snd ?a \<noteq> None)\<rparr>) out0"
        using assms(1) c g w vf i inv by (auto simp: host_call_def Let_def split: prod.splits)
      with ran [OF _ _ inv, of "fst ?a"] mc(2) [OF w] v(1) i(1) m sub show thesis
        by (cases out0) (auto simp: trust_of_def)
    qed
  qed
qed

text \<open>
  C33: A guest without the sanitize capability cannot launder. The host linked the module against its
  capabilities on this very call, from the pool or cold, so it has no way to the sanitizer; from the
  first moment the invocation is untrusted, every request it sends to the data layer is stamped
  untrusted, and always with the caller the host resolved. What the call returns is untrusted, and so is
  every failure of a guest that was entered, whether it trapped, was stopped, overran its deadline or
  reported an error; and in each of these cases no instance goes back to the pool. The other failures
  come before the guest: the module, the caller, the limits, or a function the module does not have,
  and only the last, which carries the trust of the request, leaves an instance behind.
\<close>

theorem guest_cannot_launder:
  assumes "host_call cfg deps json lossy sha compile slot start hs req run now = (hs', out)" "memo_ok hs"
    and "\<And>w. map_of (ho_cache hs') (gm_hash (cr_module req)) = Some w \<Longrightarrow> linked w run"
    and "\<not> cap_has (gm_capabilities (cr_module req)) CapSanitize" "gr_calls run = earlier @ later"
    and "cs_taint (run_ops deps json lossy 0 (new_call_state cfg req (cr_trust req)) earlier) = Untrusted"
  shows "memo_ok hs' \<and>
    (let none_returned = (set (pl_idle (ho_pool hs')) \<subseteq> set (pl_idle (ho_pool hs)));
         sealed = (none_returned \<and>
           (\<forall>rq \<in> set (requests deps json lossy 0 (new_call_state cfg req (cr_trust req)) (gr_calls run)). rq_caller rq = cr_caller req) \<and>
           (\<forall>rq \<in> set (requests deps json lossy (length earlier)
              (run_ops deps json lossy 0 (new_call_state cfg req (cr_trust req)) earlier) later). rq_trust rq = Untrusted))
     in case out of
          Inr r \<Rightarrow> ca_trust r = Untrusted \<and> sealed
        | Inl f \<Rightarrow>
            if guest_failed (cf_error f) then cf_trust f = Untrusted \<and> sealed
            else if cf_error f = NoSuchFunction (cr_function req) then cf_trust f = cr_trust req
            else before_guest (cf_error f) \<and> none_returned)"
  using assms(1,2)
proof (cases rule: host_call_cases)
  case (ran w inst p inst' out0 timeout)
  let ?st = "new_call_state cfg req (cr_trust req)"
  have ns: "\<forall>q \<in> set (gr_calls run). \<not> sanitizes (snd q)"
    using linked_no_sanitize [OF assms(3) [OF ran(1)] ran(2) assms(4)] .
  show ?thesis
  proof (cases "cr_function req \<in> set (wm_entries w)")
    case False
    with ran(3) have o: "out0 = Inl \<lparr>cf_error = NoSuchFunction (cr_function req), cf_trust = cr_trust req, cf_tainted_by = []\<rparr>"
      by (simp add: invoke_def)
    with ran(6) have "out = Inl \<lparr>cf_error = NoSuchFunction (cr_function req), cf_trust = cr_trust req, cf_tainted_by = []\<rparr>"
      by blast
    with ran(8) show ?thesis by (simp add: Let_def)
  next
    case True
    have "cs_taint (run_ops deps json lossy 0 ?st (gr_calls run)) = Untrusted"
      using run_ops_taint [OF assms(6), of later] ns assms(5) by (simp add: run_ops_append)
    with invoke_trust [OF ran(3) True] have t: "trust_of out0 = Untrusted" "in_dead inst'" by auto
    then have "set (pl_idle (ho_pool hs')) \<subseteq> set (pl_idle (ho_pool hs))"
      using ran(4,7) by (simp add: pool_release_def)
    moreover have "rq_caller rq = cr_caller req" if "rq \<in> set (requests deps json lossy 0 ?st (gr_calls run))" for rq
      using requests_caller [OF that] by (simp add: new_call_state_def)
    moreover have "rq_trust rq = Untrusted"
      if "rq \<in> set (requests deps json lossy (length earlier) (run_ops deps json lossy 0 ?st earlier) later)" for rq
      using requests_tainted [OF assms(6) _ that] ns assms(5) by simp
    moreover have "trust_of out = Untrusted" using t(1) ran(5) by simp
    moreover have "guest_failed (cf_error f)" if "out = Inl f" for f
    proof -
      have "out0 = Inl f" using that ran(9) by blast
      with ran(3) show ?thesis using invoke_fails True by blast
    qed
    ultimately show ?thesis using ran(8) by (cases out) (simp_all add: trust_of_def Let_def)
  qed
next
  case (early e)
  then show ?thesis by (simp add: early_def Let_def before_guest_def)
qed

text \<open>
  The taint at the end of the invocation alone decides about the instance: whatever an invocation read
  before a successful sanitize, the instance that holds those bytes is reusable.
\<close>

lemma sanitized_memory_is_reused:
  assumes "cr_function req \<in> set (wm_entries w)" "gr_outcome run = OutReturned code" "gr_elapsed run \<le> timeout"
    and "cs_taint (run_ops deps json lossy 0 (new_call_state cfg req t) (gr_calls run)) = Trusted"
  shows "in_dead (fst (invoke cfg deps json lossy w inst req t timeout run)) = in_dead inst"
  using assms by (simp add: invoke_def Let_def is_untrusted_def)

text \<open>
  A pinned instance does not outlive its first untrusted call. The instance is held across calls so
  that a stream keeps its state, and it remembers having seen untrusted data; but a call that ends
  untrusted leaves the instance dead like any other, so every call after it is refused, and a stream
  that started untrusted gets exactly one chunk.
\<close>

theorem pinned_stream_ends_with_taint:
  assumes "pinned_call cfg deps json lossy pn f input run = (pn', out)" "pn_inst pn = Some i" "\<not> in_dead i"
    and "f \<in> set (wm_entries (pn_wasm pn))" "trust_of out = Untrusted"
  shows "pn_taint_seen pn' \<and>
    (\<forall>g input' run'. pinned_call cfg deps json lossy pn' g input' run' = (pn', Inl (early PinnedDead)))"
proof -
  obtain i' where inv: "invoke cfg deps json lossy (pn_wasm pn) i (pinned_request pn f input)
      (if pn_taint_seen pn then Untrusted else Trusted) (hc_call_timeout cfg) run = (i', out)"
    and pn': "pn' = pn\<lparr>pn_inst := Some i', pn_taint_seen := (is_untrusted (trust_of out) \<or> pn_taint_seen pn)\<rparr>"
    using assms(1-3) by (auto simp: pinned_call_def Let_def trust_of_def split: prod.splits)
  have "cr_function (pinned_request pn f input) \<in> set (wm_entries (pn_wasm pn))"
    using assms(4) by (simp add: pinned_request_def)
  from invoke_trust [OF inv this] assms(5) have "in_dead i'" by blast
  with pn' assms(5) show ?thesis by (simp add: pinned_call_def is_untrusted_def)
qed

section \<open>The pool keeps its budget\<close>

definition pool_ok0 :: "pool \<Rightarrow> bool" where
  "pool_ok0 p \<longleftrightarrow>
     pl_count p = length (pl_idle p) \<and> pl_bytes p = sum_list (map in_bytes (pl_idle p))
   \<and> (\<forall>i \<in> set (pl_idle p). \<not> in_dead i \<and> in_bytes i = mem_bytes i \<and> in_seq i \<le> pl_seq p)
   \<and> sorted_wrt (<) (map in_seq (pl_idle p)) \<and> (pl_closed p \<longrightarrow> pl_idle p = [])
   \<and> (0 < pl_reserved_budget p \<longrightarrow> pl_reserved p \<le> pl_reserved_budget p)"

definition pool_ok :: "pool \<Rightarrow> bool" where
  "pool_ok p \<longleftrightarrow> pool_ok0 p \<and> pl_bytes p \<le> evictable_budget p"

lemma sorted_wrt_less_sort_key:
  "sorted_wrt (<) (map (f :: 'a \<Rightarrow> nat) xs) \<Longrightarrow> sort_key f xs = xs"
  by (simp add: sort_key_id_if_sorted strict_sorted_imp_sorted)

lemma detach_oldest_eq:
  assumes "pool_ok0 p" "pl_idle p = i # rest"
  shows "detach_oldest p = Some (i, detach i rest p)" "pool_ok0 (detach i rest p)"
  using assms sorted_wrt_less_sort_key [of in_seq "pl_idle p"]
  by (auto simp: pool_ok0_def detach_oldest_def detach_def)

text \<open>Eviction takes the least recently used instances, and stops as soon as the rest fits.\<close>

lemma evict_ok:
  assumes "pool_ok0 p"
  shows "pool_ok (evict_locked p) \<and> (\<exists>n. pl_idle (evict_locked p) = drop n (pl_idle p)) \<and>
    pl_reserved (evict_locked p) = pl_reserved p \<and> pl_budget (evict_locked p) = pl_budget p \<and>
    pl_reserved_budget (evict_locked p) = pl_reserved_budget p"
  using assms
proof (induction p rule: evict_locked.induct)
  case (1 p)
  show ?case
  proof (cases "evictable_budget p < pl_bytes p")
    case False
    with 1 show ?thesis by (subst (1 2 3 4 5) evict_locked.simps) (auto simp: pool_ok_def intro: exI [of _ 0])
  next
    case True
    then obtain i rest where r: "pl_idle p = i # rest"
      using 1 by (cases "pl_idle p") (auto simp: pool_ok0_def)
    note d = detach_oldest_eq [OF "1.prems" r]
    then have e: "evict_locked p = evict_locked (detach i rest p)"
      using True by (subst evict_locked.simps) simp
    from "1.IH" [OF True d(1) refl d(2)] obtain n where n: "pool_ok (evict_locked (detach i rest p))"
      "pl_idle (evict_locked (detach i rest p)) = drop n rest"
      "pl_reserved (evict_locked (detach i rest p)) = pl_reserved p"
      "pl_budget (evict_locked (detach i rest p)) = pl_budget p"
      "pl_reserved_budget (evict_locked (detach i rest p)) = pl_reserved_budget p"
      by (auto simp: detach_def)
    then have "pl_idle (evict_locked p) = drop (Suc n) (pl_idle p)" by (simp add: e r)
    with n show ?thesis unfolding e by blast
  qed
qed

inductive pool_step :: "pool \<Rightarrow> pool \<Rightarrow> bool" where
  pool_do_reserve: "pool_step p (fst (pool_reserve p n))"
| pool_do_unreserve: "pool_step p (pool_unreserve p n)"
| pool_do_acquire: "pool_step p (fst (pool_acquire p k))"
| pool_do_release: "pool_step p (pool_release p i now)"
| pool_do_sweep: "pool_step p (pool_sweep p now)"
| pool_do_close: "pool_step p (pool_close_all p)"

lemma sum_filter_split:
  "sum_list (map f (filter P xs)) + sum_list (map f (filter (\<lambda>x. \<not> P x) xs)) = sum_list (map (f :: 'a \<Rightarrow> nat) xs)"
  by (induction xs) auto

lemma remove_parts:
  assumes "i \<in> set xs"
  obtains a b where "xs = a @ i # b" "rev (remove1 i (rev xs)) = a @ b"
proof -
  from split_list_last [OF assms] obtain a b where ab: "xs = a @ i # b" "i \<notin> set b" by blast
  then have "remove1 i (rev xs) = rev b @ rev a" by (simp add: remove1_append)
  with ab(1) that show thesis by simp
qed

lemma pool_acquire_ok:
  assumes "pool_ok p" "pool_acquire p k = (p', got)"
  shows "pool_ok p' \<and> (\<forall>i. got = Some i \<longrightarrow> i \<in> set (pl_idle p) \<and> in_key i = k)"
proof (cases "got")
  case None
  with assms show ?thesis by (auto simp: pool_acquire_def split: if_splits option.splits)
next
  case (Some i)
  with assms(2) have f: "List.find (\<lambda>i. in_key i = k) (rev (pl_idle p)) = Some i"
    "p' = detach i (rev (remove1 i (rev (pl_idle p)))) p"
    by (auto simp: pool_acquire_def split: if_splits option.splits)
  then have i: "i \<in> set (pl_idle p)" "in_key i = k" using find_SomeD [OF f(1)] by auto
  from remove_parts [OF i(1)] obtain a b where ab: "pl_idle p = a @ i # b" "p' = detach i (a @ b) p"
    using f(2) by metis
  have "pool_ok p'"
    using assms(1) unfolding ab(2) pool_ok_def pool_ok0_def
    by (auto simp: detach_def ab(1) evictable_budget_def sorted_wrt_append)
  with i Some show ?thesis by simp
qed

lemma pool_release_ok:
  assumes "pool_ok p" shows "pool_ok (pool_release p i now)"
proof (cases "in_dead i \<or> pl_closed p")
  case True
  with assms show ?thesis by (auto simp: pool_release_def)
next
  case False
  let ?i = "i\<lparr>in_bytes := mem_bytes i, in_last_used := now, in_seq := pl_seq p + 1\<rparr>"
  let ?p = "p\<lparr>pl_seq := pl_seq p + 1, pl_count := pl_count p + 1, pl_bytes := pl_bytes p + in_bytes ?i, pl_idle := pl_idle p @ [?i]\<rparr>"
  have "mem_bytes ?i = mem_bytes i" by (simp add: mem_bytes_def)
  then have "pool_ok0 ?p"
    using assms False by (fastforce simp: pool_ok_def pool_ok0_def sorted_wrt_append)
  with False evict_ok show ?thesis by (auto simp: pool_release_def Let_def)
qed

lemma pool_step_ok:
  assumes "pool_step p p'" "pool_ok p" shows "pool_ok p'"
  using assms(1)
proof cases
  case (pool_do_reserve n)
  have "pool_ok0 (p\<lparr>pl_reserved := pl_reserved p + n\<rparr>)"
    if "\<not> (0 < pl_reserved_budget p \<and> pl_reserved_budget p < pl_reserved p + n)"
    using assms(2) that by (auto simp: pool_ok_def pool_ok0_def)
  with evict_ok assms(2) pool_do_reserve show ?thesis by (auto simp: pool_reserve_def)
next
  case (pool_do_unreserve n)
  with assms(2) show ?thesis
    by (auto simp: pool_unreserve_def pool_ok_def pool_ok0_def evictable_budget_def)
next
  case (pool_do_acquire k)
  with pool_acquire_ok [OF assms(2)] show ?thesis by (metis prod.collapse)
next
  case (pool_do_release i now)
  with pool_release_ok assms(2) show ?thesis by simp
next
  case (pool_do_sweep now)
  let ?g = "\<lambda>i. in_last_used i \<le> now - pl_ttl p"
  have "sum_list (map in_bytes (pl_idle p)) - sum_list (map in_bytes (filter ?g (pl_idle p))) =
      sum_list (map in_bytes (filter (\<lambda>i. \<not> ?g i) (pl_idle p)))"
    using sum_filter_split [of in_bytes ?g "pl_idle p"] by simp
  moreover have "length (pl_idle p) - length (filter ?g (pl_idle p)) = length (filter (\<lambda>i. \<not> ?g i) (pl_idle p))"
    using sum_length_filter_compl [of ?g "pl_idle p"] by simp
  moreover have "sorted_wrt (<) (map in_seq (filter (\<lambda>i. \<not> ?g i) (pl_idle p)))"
    using assms(2) sorted_wrt_filter [of "\<lambda>x y. in_seq x < in_seq y" "pl_idle p"]
    by (auto simp: pool_ok_def pool_ok0_def sorted_wrt_map)
  ultimately show ?thesis
    using assms(2) unfolding pool_do_sweep pool_sweep_def Let_def pool_ok_def pool_ok0_def
    by (auto simp: evictable_budget_def)
next
  case pool_do_close
  with assms(2) show ?thesis by (auto simp: pool_close_all_def pool_ok_def pool_ok0_def)
qed

text \<open>
  The pool keeps its books and its budget. After any sequence of reservations, acquisitions,
  releases, sweeps and the close, the count and the bytes are those of the idle instances, the bytes
  fit in the budget less what pinned instances have reserved, the reservations fit theirs, and no
  instance marked dead is idle; an acquire hands out an idle instance of exactly the module, principal,
  tier and capabilities asked for.
\<close>

theorem pool_within_budget:
  assumes "pool_step\<^sup>*\<^sup>* (pool_new budget rbudget ttl) p"
  shows "pl_count p = length (pl_idle p) \<and> pl_bytes p = sum_list (map mem_bytes (pl_idle p)) \<and>
    pl_bytes p \<le> pl_budget p - pl_reserved p \<and> (0 < pl_reserved_budget p \<longrightarrow> pl_reserved p \<le> pl_reserved_budget p) \<and>
    (\<forall>i \<in> set (pl_idle p). \<not> in_dead i) \<and>
    (\<forall>k p' i. pool_acquire p k = (p', Some i) \<longrightarrow> i \<in> set (pl_idle p) \<and> in_key i = k)"
proof -
  have ok: "pool_ok p"
    using assms
  proof (induction rule: rtranclp_induct)
    case base
    show ?case by (simp add: pool_new_def pool_ok_def pool_ok0_def)
  qed (rule pool_step_ok)
  then have "map in_bytes (pl_idle p) = map mem_bytes (pl_idle p)"
    by (simp add: pool_ok_def pool_ok0_def)
  moreover have "\<forall>k p' i. pool_acquire p k = (p', Some i) \<longrightarrow> i \<in> set (pl_idle p) \<and> in_key i = k"
    using pool_acquire_ok [OF ok] by blast
  ultimately show ?thesis
    using ok unfolding pool_ok_def pool_ok0_def evictable_budget_def by metis
qed

section \<open>A host to evaluate\<close>

definition sample_config :: host_config where
  "sample_config = config_fill \<lparr>hc_memory_tiers = [], hc_default_pages = 0, hc_pool_budget = 0,
     hc_reserved_budget = 0, hc_idle_ttl = 0, hc_call_timeout = 0, hc_default_termination = TermDefault,
     hc_epoch_tick = 0, hc_max_input = 0, hc_max_output = 0\<rparr>"

definition sample_wasm :: wasm_module where
  "sample_wasm = \<lparr>wm_memories = [''memory''], wm_entries = [''main''],
     wm_imports = [(''hive_kv'', ''get'', True), (''hive_kv'', ''set'', True)]\<rparr>"

definition sample_module :: guest_module where
  "sample_module = \<lparr>gm_hash = ''h'', gm_app = ''app'', gm_version = ''1'', gm_memory_pages = 0,
     gm_capabilities = from_names [''kv'', ''egress''], gm_termination = TermDefault, gm_residency = Pooled\<rparr>"

definition sample_caller :: caller where
  "sample_caller = \<lparr>cl_cred = \<lparr>actor_id = 1, principal_kind = User, principal_id = 1\<rparr>, cl_install_id = 10\<rparr>"

definition sample_request :: call_request where
  "sample_request = \<lparr>cr_module = sample_module, cr_source = Some (\<lambda>_. Inr ''bytes''), cr_function = ''main'',
     cr_input = ''{}'', cr_caller = sample_caller, cr_timeout = None, cr_trust = Trusted\<rparr>"

text \<open>The guest reads a key whose value came from outside, then writes one.\<close>

definition sample_layer :: data_layer where
  "sample_layer n m v rq = Inr \<lparr>rp_trust = (if v = ''get'' then Untrusted else Trusted), rp_data = ''1''\<rparr>"

definition sample_run :: guest_run where
  "sample_run = \<lparr>gr_calls = [(''{}'', OpCapability ''hive_kv'' ''get'' 0 2)] @ [(''{}'', OpCapability ''hive_kv'' ''set'' 0 2)],
     gr_outcome = OutReturned 0, gr_elapsed = 5, gr_memory = 65536\<rparr>"

definition sample_host :: host_state where
  "sample_host = \<lparr>ho_pool = pool_new (hc_pool_budget sample_config) (hc_reserved_budget sample_config) (hc_idle_ttl sample_config),
     ho_closed = False, ho_cache = [], ho_memo = []\<rparr>"

definition sample_answer :: "host_state \<times> (call_failure + call_result)" where
  "sample_answer = host_call sample_config sample_layer Some id (\<lambda>_. ''h'') (\<lambda>_. Inr sample_wasm) (Inr ()) (Inr 65536)
     sample_host sample_request sample_run 7"

text \<open>Evaluation leaves the packed words alone: nothing of the outcome depends on them.\<close>

lemmas host_eval =
  sample_answer_def host_call_def call_checks_def sample_host_def sample_request_def sample_module_def
  sample_caller_def sample_run_def sample_layer_def sample_wasm_def sample_config_def config_fill_def
  guest_module_validate_def caller_validate_def credential_validate_def tier_for_def want_pages_def
  module_get_def verify_def check_module_def wasi_module_def abi_module_def for_module_def capability_all_def
  cap_has_from_names instantiate_def pool_acquire_def pool_new_def invoke_def new_call_state_def
  capability_call_def read_guest_def dispatch_def domains_def request_of_def weaken_def envelope_def trust_of_def
  is_untrusted_def key_of_def pinned_call_def pinned_request_def Let_def

theorem guest_cannot_launder_witness:
  "trust_of (snd sample_answer) = Untrusted \<and> pl_idle (ho_pool (fst sample_answer)) = [] \<and>
   list_all (\<lambda>rq. rq_trust rq = Untrusted) (requests sample_layer Some id 1 (run_ops sample_layer Some id 0
      (new_call_state sample_config sample_request Trusted) [(''{}'', OpCapability ''hive_kv'' ''get'' 0 2)])
      [(''{}'', OpCapability ''hive_kv'' ''set'' 0 2)])"
proof -
  let ?b = "[(''{}'', OpCapability ''hive_kv'' ''get'' 0 2)]" and ?l = "[(''{}'', OpCapability ''hive_kv'' ''set'' 0 2)]"
  have c: "host_call sample_config sample_layer Some id (\<lambda>_. ''h'') (\<lambda>_. Inr sample_wasm) (Inr ()) (Inr 65536)
     sample_host sample_request sample_run 7 = (fst sample_answer, snd sample_answer)"
    by (simp add: sample_answer_def)
  have m: "memo_ok sample_host" by (simp add: memo_ok_def sample_host_def)
  have "map_of (ho_cache (fst sample_answer)) (gm_hash (cr_module sample_request)) = Some sample_wasm"
    by (simp add: host_eval)
  moreover have "linked sample_wasm sample_run" by (simp add: linked_def sample_run_def sample_wasm_def)
  ultimately have l: "linked w sample_run"
    if "map_of (ho_cache (fst sample_answer)) (gm_hash (cr_module sample_request)) = Some w" for w using that by simp
  have s: "\<not> cap_has (gm_capabilities (cr_module sample_request)) CapSanitize"
    by (simp add: host_eval)
  have p: "gr_calls sample_run = ?b @ ?l" by (simp add: sample_run_def)
  have t: "cs_taint (run_ops sample_layer Some id 0 (new_call_state sample_config sample_request (cr_trust sample_request)) ?b) = Untrusted"
    by (simp add: host_eval)
  have r: "\<not> isl (snd sample_answer)" by (simp add: host_eval)
  have e: "pl_idle (ho_pool sample_host) = []" "cr_trust sample_request = Trusted"
    by (simp_all add: sample_host_def pool_new_def sample_request_def)
  from r obtain ca where ca: "snd sample_answer = Inr ca" by (cases "snd sample_answer") simp_all
  from guest_cannot_launder [OF c m l s p t] show ?thesis
    unfolding e list_all_iff ca Let_def by (simp add: trust_of_def)
qed

definition sample_pinned :: pinned where
  "sample_pinned = \<lparr>pn_module = sample_module, pn_caller = sample_caller, pn_bytes = 0, pn_wasm = sample_wasm,
     pn_inst = Some \<lparr>in_key = key_of sample_request (256, True), in_memory = 65536, in_last_used = 0, in_seq = 0,
       in_bytes = 98304, in_dead = False\<rparr>, pn_taint_seen = True\<rparr>"

theorem pinned_stream_ends_with_taint_witness:
  "pinned_call sample_config sample_layer Some id
     (fst (pinned_call sample_config sample_layer Some id sample_pinned ''main'' ''chunk 1'' sample_run)) ''main'' ''chunk 2'' sample_run =
   (fst (pinned_call sample_config sample_layer Some id sample_pinned ''main'' ''chunk 1'' sample_run), Inl (early PinnedDead))"
proof -
  let ?c = "pinned_call sample_config sample_layer Some id sample_pinned ''main'' ''chunk 1'' sample_run"
  have c: "?c = (fst ?c, snd ?c)" by simp
  have "trust_of (snd ?c) = Untrusted" by (simp add: host_eval sample_pinned_def)
  with pinned_stream_ends_with_taint [OF c] show ?thesis
    by (simp add: sample_pinned_def sample_wasm_def)
qed

definition sample_pool :: pool where
  "sample_pool = pool_release (pool_release (pool_new 200000 0 10)
     (the (pn_inst sample_pinned)) 1) (the (pn_inst sample_pinned)\<lparr>in_memory := 131072\<rparr>) 2"

theorem pool_within_budget_witness:
  "pl_count sample_pool = 1 \<and> pl_bytes sample_pool = 163840 \<and> pl_bytes sample_pool \<le> 200000 \<and>
   list_all (\<lambda>i. \<not> in_dead i) (pl_idle sample_pool)"
proof -
  let ?p = "pool_release (pool_new 200000 0 10) (the (pn_inst sample_pinned)) 1"
  have "pool_step (pool_new 200000 0 10) ?p" "pool_step ?p sample_pool"
    by (simp_all add: sample_pool_def pool_do_release)
  then have run: "pool_step\<^sup>*\<^sup>* (pool_new 200000 0 10) sample_pool"
    by (rule converse_rtranclp_into_rtranclp [OF _ r_into_rtranclp])
  have "pl_idle sample_pool \<noteq> []" "pl_count sample_pool = 1" "pl_bytes sample_pool = 163840" by code_simp+
  with pool_within_budget [OF run] show ?thesis by (simp add: list_all_iff)
qed

end
