(* ===== verification/Hive_Jobs.thy ===== *)
theory Hive_Jobs
  imports Hive_Events Hive_Catalog Hive_Abi Hive_Manifest
begin

text \<open>
  The model job queue and the capability a guest reaches it through (\<open>crates/hive-store/src/models.rs\<close>,
  migration two, and \<open>resolve_active_install\<close> of \<open>appdata.rs\<close>). JSON values are a type of their own with
  printing and parsing as parameters; so are the reading of a guest's body, the collections a build
  declares, the text of a uuid and the conversion of a lease into a time span. Each reading of the
  clock and each fresh id is an argument. A transaction that fails leaves the tables as they were.
\<close>

section \<open>Active installs\<close>

record index_decl =
  xd_collection :: string
  xd_ordinal :: nat
  xd_index :: index

record install_info =
  ii_id :: uuid
  ii_slug :: string
  ii_schema :: string
  ii_owner :: owner
  ii_collections :: "string list"
  ii_indexes :: "index_decl list"

fun index_decls :: "string \<Rightarrow> nat \<Rightarrow> string list \<Rightarrow> store_error + index_decl list" where
  "index_decls c n [] = Inr []"
| "index_decls c n (d # ds) =
     (case parse_index d of
        Inl _ \<Rightarrow> Inl (Other ''index'')
      | Inr ix \<Rightarrow>
          (case index_decls c (Suc n) ds of
             Inl e \<Rightarrow> Inl e
           | Inr xs \<Rightarrow> Inr (\<lparr>xd_collection = c, xd_ordinal = n, xd_index = ix\<rparr> # xs)))"

fun collection_decls :: "collection list \<Rightarrow> store_error + index_decl list" where
  "collection_decls [] = Inr []"
| "collection_decls (c # cs) =
     (case index_decls (c_name c) 0 (c_indexes c) of
        Inl e \<Rightarrow> Inl e
      | Inr xs \<Rightarrow> (case collection_decls cs of Inl e \<Rightarrow> Inl e | Inr ys \<Rightarrow> Inr (xs @ ys)))"

definition resolve_active_install ::
  "(uuid \<Rightarrow> collection list option) \<Rightarrow> 'z core_db_scheme \<Rightarrow> uuid \<Rightarrow> store_error + install_info" where
  "resolve_active_install colls db i =
     (case find_install db i of
        None \<Rightarrow> Inl (HostNotFound ''install does not exist'')
      | Some r \<Rightarrow>
          if find_build db (i_build_id r) = None then Inl (HostNotFound ''install does not exist'')
          else if i_state r \<noteq> Active then Inl HostDenied
          else (case colls (i_build_id r) of
                  None \<Rightarrow> Inl (Other ''collections do not parse'')
                | Some cs \<Rightarrow>
                    (case collection_decls cs of
                       Inl e \<Rightarrow> Inl e
                     | Inr xs \<Rightarrow>
                         Inr \<lparr>ii_id = i_id r, ii_slug = i_slug r, ii_schema = i_schema_name r,
                              ii_owner = i_owner r, ii_collections = map c_name cs, ii_indexes = xs\<rparr>)))"

section \<open>The table\<close>

definition model_capabilities :: "string list" where
  "model_capabilities = [''read'', ''transcribe'', ''generate'', ''embed'']"

datatype job_state = JobPending | JobClaimed | JobDone | JobFailed

fun job_state_as_str :: "job_state \<Rightarrow> string" where
  "job_state_as_str JobPending = ''pending''"
| "job_state_as_str JobClaimed = ''claimed''"
| "job_state_as_str JobDone = ''done''"
| "job_state_as_str JobFailed = ''failed''"

definition job_finished_event :: string where "job_finished_event = ''model.job.finished''"
definition max_attempts :: int where "max_attempts = 3"
definition max_input_text :: nat where "max_input_text = 2 ^ 20"
definition max_options :: nat where "max_options = 64 * 1024"

record job_row =
  jb_id :: uuid
  jb_capability :: string
  jb_input_blob :: "hash option"
  jb_input_mime :: "string option"
  jb_input_text :: "string option"
  jb_options :: string
  jb_install_id :: uuid
  jb_owner :: owner
  jb_by :: credential
  jb_state :: job_state
  jb_claimed_by :: "string option"
  jb_claimed_at :: "time option"
  jb_lease_expires_at :: "time option"
  jb_attempts :: int
  jb_result :: "string option"
  jb_error :: "string option"
  jb_created_at :: time
  jb_finished_at :: "time option"

text \<open>\<open>job_wakes\<close> counts the rings of the in-process bell.\<close>

record job_db =
  jd_log :: event_db
  jd_blobs :: blob_db
  model_jobs :: "job_row list"
  job_wakes :: nat

definition job_checks :: "(string \<Rightarrow> bool) \<Rightarrow> job_row \<Rightarrow> bool" where
  "job_checks valid r \<longleftrightarrow>
     jb_capability r \<in> set model_capabilities \<and> valid (jb_options r)
   \<and> (case jb_result r of None \<Rightarrow> True | Some t \<Rightarrow> valid t)
   \<and> (jb_input_blob r = None) \<noteq> (jb_input_text r = None)
   \<and> (jb_state r = JobPending) = (jb_claimed_by r = None)
   \<and> (jb_state r = JobDone \<longrightarrow> jb_result r \<noteq> None)
   \<and> (jb_state r = JobFailed \<longrightarrow> jb_error r \<noteq> None)"

text \<open>An UPDATE on the table: the rows it changed, or the check one of them fails.\<close>

definition update_jobs ::
  "(string \<Rightarrow> bool) \<Rightarrow> string \<Rightarrow> (job_row \<Rightarrow> bool) \<Rightarrow> (job_row \<Rightarrow> job_row) \<Rightarrow> job_db
   \<Rightarrow> store_error + (job_db \<times> nat)" where
  "update_jobs valid what p f d =
     (if \<exists>r \<in> set (model_jobs d). p r \<and> \<not> job_checks valid (f r)
      then Inl (DbError what (CheckViolation ''model_jobs''))
      else Inr (d\<lparr>model_jobs := update_rows p f (model_jobs d)\<rparr>, count_rows p (model_jobs d)))"

section \<open>The queue\<close>

datatype job_input = BlobInput hash string | TextInput string

record 'j job_spec =
  jp_capability :: string
  jp_input :: job_input
  jp_options :: 'j

text \<open>JSON values: printing and parsing.\<close>

record 'j json_lib =
  js_text :: "'j \<Rightarrow> string"
  js_parse :: "string \<Rightarrow> 'j option"

definition js_store :: "'j json_lib \<Rightarrow> string \<Rightarrow> string option" where
  "js_store js t = map_option (js_text js) (js_parse js t)"

definition js_valid :: "'j json_lib \<Rightarrow> string \<Rightarrow> bool" where
  "js_valid js t \<longleftrightarrow> js_parse js t \<noteq> None"

definition job_fks :: "job_db \<Rightarrow> job_row \<Rightarrow> bool" where
  "job_fks d r \<longleftrightarrow>
     (case jb_input_blob r of None \<Rightarrow> True | Some h \<Rightarrow> find_blob (jd_blobs d) h \<noteq> None)
   \<and> find_install (jd_log d) (jb_install_id r) \<noteq> None \<and> find_actor (jd_log d) (o_id (jb_owner r)) \<noteq> None
   \<and> find_actor (jd_log d) (actor_id (jb_by r)) \<noteq> None \<and> find_actor (jd_log d) (principal_id (jb_by r)) \<noteq> None"

definition new_job :: "'j json_lib \<Rightarrow> credential \<Rightarrow> uuid \<Rightarrow> 'j job_spec \<Rightarrow> uuid \<Rightarrow> time \<Rightarrow> job_row" where
  "new_job js c inst spec i now =
     \<lparr>jb_id = i, jb_capability = jp_capability spec,
      jb_input_blob = (case jp_input spec of BlobInput h m \<Rightarrow> Some h | TextInput t \<Rightarrow> None),
      jb_input_mime = (case jp_input spec of BlobInput h m \<Rightarrow> Some m | TextInput t \<Rightarrow> None),
      jb_input_text = (case jp_input spec of BlobInput h m \<Rightarrow> None | TextInput t \<Rightarrow> Some t),
      jb_options = js_text js (jp_options spec), jb_install_id = inst,
      jb_owner = owner_of c, jb_by = c, jb_state = JobPending, jb_claimed_by = None,
      jb_claimed_at = None, jb_lease_expires_at = None, jb_attempts = 0, jb_result = None,
      jb_error = None, jb_created_at = now, jb_finished_at = None\<rparr>"

definition submit ::
  "'j json_lib \<Rightarrow> job_db \<Rightarrow> credential \<Rightarrow> uuid \<Rightarrow> 'j job_spec \<Rightarrow> uuid \<Rightarrow> time \<Rightarrow> job_db \<times> (store_error + uuid)" where
  "submit js d c inst spec i now =
     (case credential_validate c of
        Inl e \<Rightarrow> (d, Inl (CredentialError e))
      | Inr _ \<Rightarrow>
          if jp_capability spec \<notin> set model_capabilities then (d, Inl (InvalidInput ''not a model capability''))
          else if max_options < length (js_text js (jp_options spec)) then (d, Inl (InvalidInput ''options too large''))
          else if (case jp_input spec of TextInput t \<Rightarrow> max_input_text < length t | BlobInput _ _ \<Rightarrow> False)
          then (d, Inl (InvalidInput ''input text too large''))
          else
            (let r = new_job js c inst spec i now; bad = (\<lambda>w. (d, Inl (DbError ''models: submit'' w)))
             in if \<not> job_checks (js_valid js) r then bad (CheckViolation ''model_jobs'')
                else if \<exists>r' \<in> set (model_jobs d). jb_id r' = i then bad UniqueViolation
                else if \<not> job_fks d r then bad ForeignKeyViolation
                else (d\<lparr>model_jobs := model_jobs d @ [r], job_wakes := job_wakes d + 1\<rparr>, Inr i)))"

record 'j claimed_job =
  cj_id :: uuid
  cj_capability :: string
  cj_input_blob :: "hash option"
  cj_input_mime :: "string option"
  cj_input_text :: "string option"
  cj_options :: 'j
  cj_install_id :: uuid
  cj_owner :: owner
  cj_attempts :: int

definition lease_until :: "(nat \<Rightarrow> int option) \<Rightarrow> time \<Rightarrow> nat \<Rightarrow> time" where
  "lease_until from_std now l = now + (case from_std l of None \<Rightarrow> 0 | Some x \<Rightarrow> x)"

definition oldest_pending :: "job_db \<Rightarrow> job_row option" where
  "oldest_pending d =
     (case sort_key (\<lambda>r. (jb_created_at r, jb_id r)) (filter (\<lambda>r. jb_state r = JobPending) (model_jobs d)) of
        [] \<Rightarrow> None | r # _ \<Rightarrow> Some r)"

definition claim ::
  "'j json_lib \<Rightarrow> (nat \<Rightarrow> int option) \<Rightarrow> job_db \<Rightarrow> string \<Rightarrow> nat \<Rightarrow> time \<Rightarrow> time
   \<Rightarrow> job_db \<times> (store_error + 'j claimed_job option)" where
  "claim js from_std d worker lease now now2 =
     (if worker = [] \<or> lease = 0 then (d, Inl (Other ''models: a claim needs a worker name and a positive lease''))
      else (case oldest_pending d of
              None \<Rightarrow> (d, Inr None)
            | Some r \<Rightarrow>
                (case js_parse js (jb_options r) of
                   None \<Rightarrow> (d, Inl (Other ''options''))
                 | Some v \<Rightarrow>
                     (case update_jobs (js_valid js) ''models: claim'' (\<lambda>x. jb_id x = jb_id r)
                             (\<lambda>x. x\<lparr>jb_state := JobClaimed, jb_claimed_by := Some worker, jb_claimed_at := Some now,
                                    jb_lease_expires_at := Some (lease_until from_std now2 lease),
                                    jb_attempts := jb_attempts x + 1\<rparr>) d of
                        Inl e \<Rightarrow> (d, Inl e)
                      | Inr (d', _) \<Rightarrow>
                          (d', Inr (Some \<lparr>cj_id = jb_id r, cj_capability = jb_capability r,
                                          cj_input_blob = jb_input_blob r, cj_input_mime = jb_input_mime r,
                                          cj_input_text = jb_input_text r, cj_options = v,
                                          cj_install_id = jb_install_id r, cj_owner = jb_owner r,
                                          cj_attempts = jb_attempts r + 1\<rparr>))))))"

definition holds_claim :: "uuid \<Rightarrow> string \<Rightarrow> job_row \<Rightarrow> bool" where
  "holds_claim i worker r \<longleftrightarrow> jb_id r = i \<and> jb_state r = JobClaimed \<and> jb_claimed_by r = Some worker"

definition extend_lease ::
  "'j json_lib \<Rightarrow> (nat \<Rightarrow> int option) \<Rightarrow> job_db \<Rightarrow> uuid \<Rightarrow> string \<Rightarrow> nat \<Rightarrow> time \<Rightarrow> job_db \<times> (store_error + bool)" where
  "extend_lease js from_std d i worker lease now =
     (case update_jobs (js_valid js) ''models: extend lease'' (holds_claim i worker)
             (\<lambda>x. x\<lparr>jb_lease_expires_at := Some (lease_until from_std now lease)\<rparr>) d of
        Inl e \<Rightarrow> (d, Inl e)
      | Inr (d', n) \<Rightarrow> (d', Inr (n = 1)))"

text \<open>The body of the announcement: an object with its keys in order.\<close>

definition finished_body :: "(uuid \<Rightarrow> string) \<Rightarrow> job_row \<Rightarrow> job_state \<Rightarrow> string" where
  "finished_body show_uuid r st =
     ''{\"capability\":\"'' @ jb_capability r @ ''\",\"install\":\"'' @ show_uuid (jb_install_id r)
     @ ''\",\"job\":\"'' @ show_uuid (jb_id r) @ ''\",\"state\":\"'' @ job_state_as_str st @ ''\"}''"

definition finished_event :: "(uuid \<Rightarrow> string) \<Rightarrow> job_row \<Rightarrow> job_state \<Rightarrow> event" where
  "finished_event show_uuid r st =
     (event_new job_finished_event (jb_by r) (finished_body show_uuid r st))\<lparr>ev_owner := jb_owner r\<rparr>"

text \<open>What an outcome writes: the state, the result and the error.\<close>

definition outcome_of :: "'j json_lib \<Rightarrow> string + 'j \<Rightarrow> job_state \<times> string option \<times> string option" where
  "outcome_of js res =
     (case res of Inr v \<Rightarrow> (JobDone, Some (js_text js v), None) | Inl e \<Rightarrow> (JobFailed, None, Some e))"

definition finish ::
  "'j json_lib \<Rightarrow> (uuid \<Rightarrow> string) \<Rightarrow> (nat \<Rightarrow> time \<times> time) \<Rightarrow> job_db \<Rightarrow> uuid \<Rightarrow> string \<Rightarrow> string + 'j \<Rightarrow> time
   \<Rightarrow> job_db \<times> (store_error + bool)" where
  "finish js show_uuid clk d i worker res now =
     (case List.find (holds_claim i worker) (model_jobs d) of
        None \<Rightarrow> (d, Inr False)
      | Some r \<Rightarrow>
          (case outcome_of js res of (st, result, err) \<Rightarrow>
           case update_jobs (js_valid js) ''models: finish'' (\<lambda>x. jb_id x = i)
                  (\<lambda>x. x\<lparr>jb_state := st, jb_result := result, jb_error := err, jb_finished_at := Some now\<rparr>) d of
             Inl e \<Rightarrow> (d, Inl e)
           | Inr (d', _) \<Rightarrow>
               (case append_events (js_store js) clk (jd_log d') [finished_event show_uuid r st] of
                  (_, _, Some e) \<Rightarrow> (d, Inl e)
                | (log', _, None) \<Rightarrow> (d'\<lparr>jd_log := log'\<rparr>, Inr True))))"

record 'j job_view =
  jv_job :: uuid
  jv_capability :: string
  jv_state :: string
  jv_result :: "'j option"
  jv_error :: "string option"

definition result ::
  "'j json_lib \<Rightarrow> job_db \<Rightarrow> credential \<Rightarrow> uuid \<Rightarrow> uuid \<Rightarrow> store_error + 'j job_view option" where
  "result js d c inst i =
     (case credential_validate c of
        Inl e \<Rightarrow> Inl (CredentialError e)
      | Inr _ \<Rightarrow>
          (case List.find (\<lambda>r. jb_id r = i \<and> jb_install_id r = inst) (model_jobs d) of
             None \<Rightarrow> Inr None
           | Some r \<Rightarrow>
               (case jb_result r of
                  None \<Rightarrow> Inr (Some \<lparr>jv_job = i, jv_capability = jb_capability r,
                                     jv_state = job_state_as_str (jb_state r), jv_result = None, jv_error = jb_error r\<rparr>)
                | Some t \<Rightarrow>
                    (case js_parse js t of
                       None \<Rightarrow> Inl (Other ''result'')
                     | Some v \<Rightarrow> Inr (Some \<lparr>jv_job = i, jv_capability = jb_capability r,
                                     jv_state = job_state_as_str (jb_state r), jv_result = Some v, jv_error = jb_error r\<rparr>)))))"

definition lapsed :: "time \<Rightarrow> job_row \<Rightarrow> bool" where
  "lapsed now r \<longleftrightarrow> jb_state r = JobClaimed \<and> (case jb_lease_expires_at r of None \<Rightarrow> False | Some t \<Rightarrow> t < now)"

text \<open>Two statements, each on its own: what the first failed, the second no longer sees.\<close>

definition reclaim_lapsed :: "'j json_lib \<Rightarrow> job_db \<Rightarrow> time \<Rightarrow> job_db \<times> (store_error + nat \<times> nat)" where
  "reclaim_lapsed js d now =
     (case update_jobs (js_valid js) ''models: reclaim'' (\<lambda>r. lapsed now r \<and> max_attempts \<le> jb_attempts r)
             (\<lambda>r. r\<lparr>jb_state := JobFailed,
                    jb_error := Some ''abandoned: the worker holding the lease stopped answering'',
                    jb_finished_at := Some now\<rparr>) d of
        Inl e \<Rightarrow> (d, Inl e)
      | Inr (d1, failed) \<Rightarrow>
          (case update_jobs (js_valid js) ''models: reclaim'' (lapsed now)
                  (\<lambda>r. r\<lparr>jb_state := JobPending, jb_claimed_by := None, jb_claimed_at := None,
                         jb_lease_expires_at := None\<rparr>) d1 of
             Inl e \<Rightarrow> (d1, Inl e)
           | Inr (d2, requeued) \<Rightarrow>
               (if 0 < requeued then d2\<lparr>job_wakes := job_wakes d2 + 1\<rparr> else d2, Inr (requeued, failed))))"

section \<open>The capability\<close>

record 'j submit_body =
  sb_capability :: string
  sb_blob :: string
  sb_text :: string
  sb_options :: "'j option"

definition job_input_of ::
  "(string \<Rightarrow> string option) \<Rightarrow> job_db \<Rightarrow> credential \<Rightarrow> 'j submit_body \<Rightarrow> store_error + job_input" where
  "job_input_of dec d c b =
     (if trim (sb_blob b) \<noteq> [] \<and> sb_text b = []
      then (case hash_parse dec (trim (sb_blob b)) of
              Inl _ \<Rightarrow> Inl (HostInvalid ''models.submit: malformed blob address'')
            | Inr h \<Rightarrow>
                (case resolve (jd_blobs d) c h of
                   Inl _ \<Rightarrow> Inl (HostNotFound ''blob not found'')
                 | Inr (desc, _) \<Rightarrow> Inr (BlobInput h (d_mime desc))))
      else if trim (sb_blob b) = [] \<and> sb_text b \<noteq> [] then Inr (TextInput (sb_text b))
      else Inl (HostInvalid ''models.submit: exactly one of blob or text''))"

definition submit_inner ::
  "'j json_lib \<Rightarrow> 'j \<Rightarrow> (string \<Rightarrow> 'j submit_body option) \<Rightarrow> (string \<Rightarrow> string option) \<Rightarrow> (uuid \<Rightarrow> collection list option)
   \<Rightarrow> job_db \<Rightarrow> request \<Rightarrow> uuid \<Rightarrow> time \<Rightarrow> job_db \<times> (store_error + level \<times> uuid)" where
  "submit_inner js empty_object body_of dec colls d req i now =
     (let c = cl_cred (rq_caller req); inst = cl_install_id (rq_caller req) in
      case caller_validate (rq_caller req) of
        Inl _ \<Rightarrow> (d, Inl HostDenied)
      | Inr _ \<Rightarrow>
     (case body_of (rq_body req) of
        None \<Rightarrow> (d, Inl (HostInvalid ''models.submit: body is not an object''))
      | Some b \<Rightarrow>
     (case resolve_active_install colls (jd_log d) inst of
        Inl e \<Rightarrow> (d, Inl e)
      | Inr _ \<Rightarrow>
     (case job_input_of dec d c b of
        Inl e \<Rightarrow> (d, Inl e)
      | Inr inp \<Rightarrow>
     (case submit js d c inst \<lparr>jp_capability = sb_capability b, jp_input = inp,
             jp_options = (case sb_options b of None \<Rightarrow> empty_object | Some v \<Rightarrow> v)\<rparr> i now of
        (d', Inl e) \<Rightarrow> (d', Inl e)
      | (d', Inr j) \<Rightarrow> (d', Inr (Trusted, j)))))))"

definition result_inner ::
  "'j json_lib \<Rightarrow> (string \<Rightarrow> string option) \<Rightarrow> (string \<Rightarrow> uuid option) \<Rightarrow> job_db \<Rightarrow> request
   \<Rightarrow> store_error + level \<times> 'j job_view" where
  "result_inner js body_of uuid_of d req =
     (let c = cl_cred (rq_caller req); inst = cl_install_id (rq_caller req) in
      case caller_validate (rq_caller req) of
        Inl _ \<Rightarrow> Inl HostDenied
      | Inr _ \<Rightarrow>
     (case body_of (rq_body req) of
        None \<Rightarrow> Inl (HostInvalid ''models.result: body is not an object'')
      | Some j \<Rightarrow>
     (case uuid_of (trim j) of
        None \<Rightarrow> Inl (HostInvalid ''models.result: job is not a uuid'')
      | Some i \<Rightarrow>
     (case result js d c inst i of
        Inl e \<Rightarrow> Inl e
      | Inr None \<Rightarrow> Inl (HostNotFound ''no such job'')
      | Inr (Some v) \<Rightarrow> Inr (if jv_result v \<noteq> None then Untrusted else Trusted, v)))))"

fun to_host :: "store_error \<Rightarrow> host_error" where
  "to_host HostDenied = \<lparr>he_status = StDenied, he_message = []\<rparr>"
| "to_host (HostInvalid m) = \<lparr>he_status = StInvalid, he_message = m\<rparr>"
| "to_host (HostNotFound m) = \<lparr>he_status = StNotFound, he_message = m\<rparr>"
| "to_host HostInternal = \<lparr>he_status = StError, he_message = []\<rparr>"
| "to_host Denied = \<lparr>he_status = StDenied, he_message = ''denied''\<rparr>"
| "to_host (InvalidInput m) = \<lparr>he_status = StInvalid, he_message = m\<rparr>"
| "to_host _ = \<lparr>he_status = StError, he_message = ''models: internal''\<rparr>"

section \<open>The life of a job\<close>

definition same_job :: "job_row \<Rightarrow> job_row \<Rightarrow> bool" where
  "same_job r r' \<longleftrightarrow>
     jb_id r' = jb_id r \<and> jb_capability r' = jb_capability r \<and> jb_input_blob r' = jb_input_blob r
   \<and> jb_input_text r' = jb_input_text r \<and> jb_options r' = jb_options r \<and> jb_install_id r' = jb_install_id r
   \<and> jb_owner r' = jb_owner r \<and> jb_by r' = jb_by r"

text \<open>
  The moves of a row: handed out, kept alive, answered, given up, handed back. What was asked, and by
  whom, never changes.
\<close>

definition job_move :: "job_row \<Rightarrow> job_row \<Rightarrow> bool" where
  "job_move r r' \<longleftrightarrow> same_job r r' \<and>
     (case (jb_state r, jb_state r') of
        (JobPending, JobClaimed) \<Rightarrow> jb_attempts r' = jb_attempts r + 1
      | (JobClaimed, JobPending) \<Rightarrow> jb_attempts r' = jb_attempts r \<and> jb_attempts r < max_attempts
      | (JobClaimed, _) \<Rightarrow> jb_attempts r' = jb_attempts r
      | _ \<Rightarrow> False)"

definition job_ok :: "(string \<Rightarrow> bool) \<Rightarrow> job_row \<Rightarrow> bool" where
  "job_ok valid r \<longleftrightarrow>
     job_checks valid r \<and> 0 \<le> jb_attempts r \<and> jb_attempts r \<le> max_attempts
   \<and> (jb_state r = JobPending \<longrightarrow> jb_attempts r < max_attempts)"

definition jobs_ok :: "(string \<Rightarrow> bool) \<Rightarrow> job_db \<Rightarrow> bool" where
  "jobs_ok valid d \<longleftrightarrow> distinct (map jb_id (model_jobs d)) \<and> (\<forall>r \<in> set (model_jobs d). job_ok valid r)"

text \<open>One statement's effect: rows move or stay, new rows come last under fresh ids.\<close>

definition job_effect :: "(string \<Rightarrow> bool) \<Rightarrow> job_db \<Rightarrow> job_db \<Rightarrow> bool" where
  "job_effect valid d d' \<longleftrightarrow>
     (\<exists>f more. model_jobs d' = map f (model_jobs d) @ more
       \<and> (\<forall>r \<in> set (model_jobs d). f r = r \<or> job_move r (f r) \<and> job_checks valid (f r))
       \<and> (\<forall>r \<in> set more. job_ok valid r) \<and> distinct (map jb_id more)
       \<and> set (map jb_id more) \<inter> set (map jb_id (model_jobs d)) = {})"

lemma job_effect_refl: "model_jobs d' = model_jobs d \<Longrightarrow> job_effect valid d d'"
  unfolding job_effect_def by (rule exI [of _ id], rule exI [of _ "[]"]) simp

lemma update_jobs_effect:
  assumes "update_jobs valid what p f d = Inr (d', n)"
    "\<And>r. r \<in> set (model_jobs d) \<Longrightarrow> p r \<Longrightarrow> job_move r (f r)"
  shows "job_effect valid d d'"
  unfolding job_effect_def
  by (rule exI [of _ "\<lambda>r. if p r then f r else r"], rule exI [of _ "[]"])
     (use assms in \<open>auto simp: update_jobs_def update_rows_def split: if_splits\<close>)

lemma update_jobs_log: "update_jobs valid what p f d = Inr (d', n) \<Longrightarrow> jd_log d' = jd_log d"
  by (auto simp: update_jobs_def split: if_splits)

lemma job_move_ok: "job_ok valid r \<Longrightarrow> job_move r r' \<Longrightarrow> job_checks valid r' \<Longrightarrow> job_ok valid r'"
  by (auto simp: job_ok_def job_move_def split: job_state.splits)

lemma job_effect_ok:
  assumes "job_effect valid d d'" "jobs_ok valid d"
  shows "jobs_ok valid d'"
proof -
  from assms(1) obtain f more where e: "model_jobs d' = map f (model_jobs d) @ more"
    "\<forall>r \<in> set (model_jobs d). f r = r \<or> job_move r (f r) \<and> job_checks valid (f r)"
    "\<forall>r \<in> set more. job_ok valid r" "distinct (map jb_id more)"
    "set (map jb_id more) \<inter> set (map jb_id (model_jobs d)) = {}"
    unfolding job_effect_def by blast
  have ids: "map jb_id (map f (model_jobs d)) = map jb_id (model_jobs d)"
    using e(2) by (auto simp: job_move_def same_job_def)
  have "job_ok valid (f r)" if "r \<in> set (model_jobs d)" for r
    using e(2) assms(2) that job_move_ok by (metis jobs_ok_def)
  then have "\<forall>r \<in> set (model_jobs d'). job_ok valid r" using e(1,3) by auto
  moreover have "distinct (map jb_id (model_jobs d'))"
    unfolding e(1) map_append ids using assms(2) e(4,5) by (auto simp: jobs_ok_def)
  ultimately show ?thesis by (simp add: jobs_ok_def)
qed

abbreviation job_at :: "job_db \<Rightarrow> uuid \<Rightarrow> job_row option" where
  "job_at d \<equiv> state_in jb_id (\<lambda>r. r) (model_jobs d)"

lemma job_effect_row:
  assumes "job_effect valid d d'" "job_at d k = Some r"
  shows "\<exists>r'. job_at d' k = Some r' \<and> (r' = r \<or> job_move r r')"
proof -
  from assms(1) obtain f more where e: "model_jobs d' = map f (model_jobs d) @ more"
    "\<forall>r \<in> set (model_jobs d). f r = r \<or> job_move r (f r)"
    unfolding job_effect_def by blast
  from assms(2) have r: "List.find (\<lambda>r. jb_id r = k) (model_jobs d) = Some r" by (simp add: state_in_def)
  have "List.find (\<lambda>r. jb_id r = k) (map f rs) = map_option f (List.find (\<lambda>r. jb_id r = k) rs)"
    if "\<forall>r \<in> set rs. f r = r \<or> job_move r (f r)" for rs
    using that by (induction rs) (auto simp: job_move_def same_job_def)
  from this [OF e(2)] r have "job_at d' k = Some (f r)" by (simp add: state_in_def e(1) find_append)
  with e(2) find_SomeD [OF r] show ?thesis by auto
qed

inductive job_step :: "'j json_lib \<Rightarrow> (nat \<Rightarrow> int option) \<Rightarrow> (uuid \<Rightarrow> string) \<Rightarrow> job_db \<Rightarrow> job_db \<Rightarrow> bool"
  for js from_std show_uuid where
  step_submit: "job_step js from_std show_uuid d (fst (submit js d c inst spec i now))"
| step_claim: "job_step js from_std show_uuid d (fst (claim js from_std d worker lease now now2))"
| step_extend: "job_step js from_std show_uuid d (fst (extend_lease js from_std d i worker lease now))"
| step_finish: "job_step js from_std show_uuid d (fst (finish js show_uuid clk d i worker res now))"
| step_reclaim: "job_step js from_std show_uuid d (fst (reclaim_lapsed js d now))"

lemma submit_cases:
  obtains (refused) e where "submit js d c inst spec i now = (d, Inl e)"
  | (queued) "submit js d c inst spec i now =
        (d\<lparr>model_jobs := model_jobs d @ [new_job js c inst spec i now], job_wakes := job_wakes d + 1\<rparr>, Inr i)"
      "job_checks (js_valid js) (new_job js c inst spec i now)" "\<forall>r \<in> set (model_jobs d). jb_id r \<noteq> i"
      "job_fks d (new_job js c inst spec i now)"
proof (cases "\<exists>e. submit js d c inst spec i now = (d, Inl e)")
  case True
  then show ?thesis using refused by blast
next
  case False
  then obtain u where v: "credential_validate c = Inr u"
    by (cases "credential_validate c") (auto simp: submit_def)
  let ?r = "new_job js c inst spec i now" and ?bad = "\<lambda>w. (d, Inl (DbError ''models: submit'' w))"
  have "submit js d c inst spec i now =
    (if jp_capability spec \<notin> set model_capabilities then (d, Inl (InvalidInput ''not a model capability''))
     else if max_options < length (js_text js (jp_options spec)) then (d, Inl (InvalidInput ''options too large''))
     else if (case jp_input spec of TextInput t \<Rightarrow> max_input_text < length t | BlobInput _ _ \<Rightarrow> False)
     then (d, Inl (InvalidInput ''input text too large''))
     else if \<not> job_checks (js_valid js) ?r then ?bad (CheckViolation ''model_jobs'')
     else if \<exists>r' \<in> set (model_jobs d). jb_id r' = i then ?bad UniqueViolation
     else if \<not> job_fks d ?r then ?bad ForeignKeyViolation
     else (d\<lparr>model_jobs := model_jobs d @ [?r], job_wakes := job_wakes d + 1\<rparr>, Inr i))"
    unfolding submit_def v Let_def by simp
  with False have "job_checks (js_valid js) ?r" "\<forall>r \<in> set (model_jobs d). jb_id r \<noteq> i" "job_fks d ?r"
    "submit js d c inst spec i now = (d\<lparr>model_jobs := model_jobs d @ [?r], job_wakes := job_wakes d + 1\<rparr>, Inr i)"
    by (metis)+
  then show ?thesis using queued by blast
qed

lemma submit_effect: "job_effect (js_valid js) d (fst (submit js d c inst spec i now))"
proof (cases rule: submit_cases [of js d c inst spec i now])
  case (refused e)
  then show ?thesis by (simp add: job_effect_refl)
next
  case queued
  show ?thesis
    unfolding job_effect_def
    by (rule exI [of _ id], rule exI [of _ "[new_job js c inst spec i now]"])
       (use queued in \<open>auto simp: job_ok_def max_attempts_def new_job_def\<close>)
qed

lemma oldest_pending_Some:
  assumes "oldest_pending d = Some r"
  shows "r \<in> set (model_jobs d) \<and> jb_state r = JobPending"
proof -
  let ?rs = "filter (\<lambda>r. jb_state r = JobPending) (model_jobs d)"
  from assms obtain rest where "sort_key (\<lambda>r. (jb_created_at r, jb_id r)) ?rs = r # rest"
    by (auto simp: oldest_pending_def split: list.splits)
  then have "r \<in> set ?rs" by (metis list.set_intros(1) set_sort)
  then show ?thesis by simp
qed

lemma same_id: "jobs_ok valid d \<Longrightarrow> x \<in> set (model_jobs d) \<Longrightarrow> r \<in> set (model_jobs d) \<Longrightarrow> jb_id x = jb_id r \<Longrightarrow> x = r"
  by (metis eq_key_imp_eq_value distinct_map inj_onD jobs_ok_def)

lemma claim_effect:
  assumes "jobs_ok (js_valid js) d"
  shows "job_effect (js_valid js) d (fst (claim js from_std d worker lease now now2))"
proof (cases "fst (claim js from_std d worker lease now now2) = d")
  case False
  let ?f = "\<lambda>x. x\<lparr>jb_state := JobClaimed, jb_claimed_by := Some worker, jb_claimed_at := Some now,
    jb_lease_expires_at := Some (lease_until from_std now2 lease), jb_attempts := jb_attempts x + 1\<rparr>"
  from False obtain r n where r: "oldest_pending d = Some r"
    and u: "update_jobs (js_valid js) ''models: claim'' (\<lambda>x. jb_id x = jb_id r) ?f d =
      Inr (fst (claim js from_std d worker lease now now2), n)"
    by (auto simp: claim_def split: if_splits option.splits sum.splits)
  show ?thesis
  proof (rule update_jobs_effect [OF u])
    fix x assume "x \<in> set (model_jobs d)" "jb_id x = jb_id r"
    with oldest_pending_Some [OF r] same_id [OF assms] have "x = r" "jb_state r = JobPending" by blast+
    then show "job_move x (?f x)" by (simp add: job_move_def same_job_def)
  qed
qed (simp add: job_effect_refl)

lemma extend_effect: "job_effect (js_valid js) d (fst (extend_lease js from_std d i worker lease now))"
proof -
  let ?f = "\<lambda>x. x\<lparr>jb_lease_expires_at := Some (lease_until from_std now lease)\<rparr>"
  have "job_move x (?f x)" if "holds_claim i worker x" for x
    using that by (simp add: job_move_def same_job_def holds_claim_def)
  then show ?thesis
    using update_jobs_effect [of "js_valid js" _ "holds_claim i worker" ?f d]
    by (auto simp: extend_lease_def job_effect_refl split: sum.splits)
qed

text \<open>A finish that answers True moved the claimed row and put its announcement on the log.\<close>

lemma finish_cases:
  obtains (no_change) "fst (finish js show_uuid clk d i worker res now) = d"
  | (finished) r st resl err d1 n log es where
      "List.find (holds_claim i worker) (model_jobs d) = Some r" "st \<in> {JobDone, JobFailed}"
      "update_jobs (js_valid js) ''models: finish'' (\<lambda>x. jb_id x = i)
         (\<lambda>x. x\<lparr>jb_state := st, jb_result := resl, jb_error := err, jb_finished_at := Some now\<rparr>) d = Inr (d1, n)"
      "append_events (js_store js) clk (jd_log d1) [finished_event show_uuid r st] = (log, es, None)"
      "finish js show_uuid clk d i worker res now = (d1\<lparr>jd_log := log\<rparr>, Inr True)"
proof -
  obtain st resl err where o: "outcome_of js res = (st, resl, err)" "st \<in> {JobDone, JobFailed}"
    by (cases res) (simp_all add: outcome_of_def)
  let ?up = "update_jobs (js_valid js) ''models: finish'' (\<lambda>x. jb_id x = i)
    (\<lambda>x. x\<lparr>jb_state := st, jb_result := resl, jb_error := err, jb_finished_at := Some now\<rparr>) d"
  show thesis
  proof (cases "List.find (holds_claim i worker) (model_jobs d)")
    case None
    then show ?thesis using no_change by (simp add: finish_def)
  next
    case r: (Some r)
    show ?thesis
    proof (cases ?up)
      case (Inl e)
      then show ?thesis using no_change r o(1) by (simp add: finish_def)
    next
      case (Inr dn)
      obtain d1 n where d1: "?up = Inr (d1, n)" using Inr by (cases dn) simp
      obtain log es e where l: "append_events (js_store js) clk (jd_log d1) [finished_event show_uuid r st] = (log, es, e)"
        by (metis prod_cases3)
      show ?thesis
      proof (cases e)
        case None
        then show ?thesis using finished [OF r o(2) d1] l r d1 o(1) by (simp add: finish_def)
      next
        case (Some x)
        then show ?thesis using no_change r o(1) d1 l by (simp add: finish_def)
      qed
    qed
  qed
qed

lemma finish_effect:
  assumes "jobs_ok (js_valid js) d"
  shows "job_effect (js_valid js) d (fst (finish js show_uuid clk d i worker res now))"
proof (cases rule: finish_cases [of js show_uuid clk d i worker res now])
  case no_change
  then show ?thesis by (simp add: job_effect_refl)
next
  case (finished r st resl err d1 n log es)
  let ?f = "\<lambda>x. x\<lparr>jb_state := st, jb_result := resl, jb_error := err, jb_finished_at := Some now\<rparr>"
  have r: "r \<in> set (model_jobs d)" "jb_id r = i" "jb_state r = JobClaimed"
    using find_SomeD [OF finished(1)] by (auto simp: holds_claim_def)
  have "job_effect (js_valid js) d d1"
  proof (rule update_jobs_effect [OF finished(3)])
    fix x assume "x \<in> set (model_jobs d)" "jb_id x = i"
    with r same_id [OF assms] have "x = r" by blast
    with r(3) finished(2) show "job_move x (?f x)" by (auto simp: job_move_def same_job_def)
  qed
  with finished(5) show ?thesis by (simp add: job_effect_def)
qed

text \<open>The two statements of a reclaim are one update: each lapsed row is given up or handed back.\<close>

lemma reclaim_effect: "job_effect (js_valid js) d (fst (reclaim_lapsed js d now))"
proof -
  let ?fail = "\<lambda>r. r\<lparr>jb_state := JobFailed, jb_error := Some ''abandoned: the worker holding the lease stopped answering'',
    jb_finished_at := Some now\<rparr>"
  let ?requeue = "\<lambda>r. r\<lparr>jb_state := JobPending, jb_claimed_by := None, jb_claimed_at := None, jb_lease_expires_at := None\<rparr>"
  let ?lost = "\<lambda>r. lapsed now r \<and> max_attempts \<le> jb_attempts r"
  have fail: "job_move r (?fail r)" if "?lost r" for r
    using that by (simp add: lapsed_def job_move_def same_job_def)
  show ?thesis
  proof (cases "update_jobs (js_valid js) ''models: reclaim'' ?lost ?fail d")
    case (Inl e)
    then show ?thesis by (simp add: reclaim_lapsed_def job_effect_refl)
  next
    case (Inr dn)
    then obtain d1 n where d1: "update_jobs (js_valid js) ''models: reclaim'' ?lost ?fail d = Inr (d1, n)"
      by (cases dn) simp
    show ?thesis
    proof (cases "update_jobs (js_valid js) ''models: reclaim'' (lapsed now) ?requeue d1")
      case (Inl e)
      then show ?thesis using d1 update_jobs_effect [OF d1] fail by (simp add: reclaim_lapsed_def)
    next
      case (Inr dm)
      then obtain d2 m where d2: "update_jobs (js_valid js) ''models: reclaim'' (lapsed now) ?requeue d1 = Inr (d2, m)"
        by (cases dm) simp
      let ?f = "\<lambda>r. if lapsed now r then if max_attempts \<le> jb_attempts r then ?fail r else ?requeue r else r"
      have ok1: "\<forall>r \<in> set (model_jobs d). ?lost r \<longrightarrow> job_checks (js_valid js) (?fail r)"
        and e1: "model_jobs d1 = update_rows ?lost ?fail (model_jobs d)"
        using d1 by (auto simp: update_jobs_def split: if_splits)
      have ok2: "\<forall>r \<in> set (model_jobs d1). lapsed now r \<longrightarrow> job_checks (js_valid js) (?requeue r)"
        and e2: "model_jobs d2 = update_rows (lapsed now) ?requeue (model_jobs d1)"
        using d2 by (auto simp: update_jobs_def simp del: set_update_rows split: if_splits)
      have rows: "model_jobs d2 = map ?f (model_jobs d)"
        unfolding e2 e1 update_rows_def by (simp add: lapsed_def)
      have "?f r = r \<or> job_move r (?f r) \<and> job_checks (js_valid js) (?f r)" if r: "r \<in> set (model_jobs d)" for r
      proof (cases "lapsed now r \<and> jb_attempts r < max_attempts")
        case True
        then have "r \<in> set (model_jobs d1)" unfolding e1 update_rows_def using r by force
        then have "job_checks (js_valid js) (?requeue r)" using ok2 True by blast
        then show ?thesis using True by (simp add: lapsed_def job_move_def same_job_def)
      next
        case False
        then show ?thesis using fail ok1 r by auto
      qed
      then have "job_effect (js_valid js) d d2"
        unfolding job_effect_def by (intro exI [of _ ?f] exI [of _ "[]"]) (simp add: rows)
      then show ?thesis using d1 d2 by (simp add: reclaim_lapsed_def job_effect_def)
    qed
  qed
qed

text \<open>
  A reclaim announces nothing: the log is the same, though it may have failed jobs.
\<close>

lemma reclaim_is_silent: "jd_log (fst (reclaim_lapsed js d now)) = jd_log d"
  unfolding reclaim_lapsed_def
  by (simp add: update_jobs_log split: sum.split prod.split)

lemma job_step_effect:
  assumes "jobs_ok (js_valid js) d" "job_step js from_std show_uuid d d'"
  shows "job_effect (js_valid js) d d'"
  using assms(2)
proof cases
  case (step_submit c inst spec i now)
  then show ?thesis by (simp add: submit_effect)
next
  case (step_claim worker lease now now2)
  then show ?thesis using claim_effect [OF assms(1)] by simp
next
  case (step_extend i worker lease now)
  then show ?thesis by (simp add: extend_effect)
next
  case (step_finish clk i worker res now)
  then show ?thesis using finish_effect [OF assms(1)] by simp
next
  case (step_reclaim now)
  then show ?thesis by (simp add: reclaim_effect)
qed

definition ok_job_step :: "'j json_lib \<Rightarrow> (nat \<Rightarrow> int option) \<Rightarrow> (uuid \<Rightarrow> string) \<Rightarrow> job_db \<Rightarrow> job_db \<Rightarrow> bool" where
  "ok_job_step js from_std show_uuid d d' \<longleftrightarrow> jobs_ok (js_valid js) d \<and> job_step js from_std show_uuid d d'"

interpretation mj: lifecycle "\<lambda>d. job_at d" "ok_job_step js from_std show_uuid" job_move
proof
  fix d d' k a
  assume s: "ok_job_step js from_std show_uuid d d'" and a: "job_at d k = Some a"
  then have "job_effect (js_valid js) d d'" using job_step_effect by (auto simp: ok_job_step_def)
  from job_effect_row [OF this a] show "\<exists>b. job_at d' k = Some b \<and> (b = a \<or> job_move a b)" .
qed

lemma job_steps_ok:
  assumes "(job_step js from_std show_uuid)\<^sup>*\<^sup>* d d'" "jobs_ok (js_valid js) d"
  shows "(ok_job_step js from_std show_uuid)\<^sup>*\<^sup>* d d' \<and> jobs_ok (js_valid js) d'"
  using assms(1)
proof (induction rule: rtranclp_induct)
  case base
  then show ?case using assms(2) by simp
next
  case (step y z)
  then have "ok_job_step js from_std show_uuid y z" by (simp add: ok_job_step_def)
  moreover have "jobs_ok (js_valid js) z"
    using job_effect_ok job_step_effect step by blast
  ultimately show ?case using step.IH by (meson rtranclp.rtrancl_into_rtrancl)
qed

lemma terminal_job: "jb_state r \<in> {JobDone, JobFailed} \<Longrightarrow> \<not> job_move r r'"
  by (auto simp: job_move_def)

lemma same_job_trans: "same_job a b \<Longrightarrow> same_job b c \<Longrightarrow> same_job a c"
  by (simp add: same_job_def)

lemma moves_same_job: "job_move\<^sup>*\<^sup>* r r' \<Longrightarrow> same_job r r'"
proof (induction rule: rtranclp_induct)
  case base
  then show ?case by (simp add: same_job_def)
next
  case (step y z)
  then have "same_job y z" by (simp add: job_move_def)
  with step.IH show ?case by (rule same_job_trans)
qed

text \<open>A worker that no longer holds the claim cannot land its answer.\<close>

lemma finish_needs_claim:
  "\<not> (\<exists>r \<in> set (model_jobs d). holds_claim i worker r) \<Longrightarrow> finish js show_uuid clk d i worker res now = (d, Inr False)"
  by (auto simp: finish_def find_None_iff [symmetric, THEN iffD1])

text \<open>
  A run of the queue with its hand-outs: the ids of the jobs its claims gave to a worker, in order.
\<close>

definition handed_out :: "store_error + 'j claimed_job option \<Rightarrow> uuid list" where
  "handed_out res = (case res of Inr (Some c) \<Rightarrow> [cj_id c] | _ \<Rightarrow> [])"

inductive job_run :: "'j json_lib \<Rightarrow> (nat \<Rightarrow> int option) \<Rightarrow> (uuid \<Rightarrow> string) \<Rightarrow> job_db \<Rightarrow> uuid list \<Rightarrow> job_db \<Rightarrow> bool"
  for js from_std show_uuid d where
  run_start: "job_run js from_std show_uuid d [] d"
| run_submit: "job_run js from_std show_uuid d ks d1 \<Longrightarrow> job_run js from_std show_uuid d ks (fst (submit js d1 c inst spec i now))"
| run_claim: "job_run js from_std show_uuid d ks d1 \<Longrightarrow> claim js from_std d1 worker lease now now2 = (d2, res) \<Longrightarrow>
    job_run js from_std show_uuid d (ks @ handed_out res) d2"
| run_extend: "job_run js from_std show_uuid d ks d1 \<Longrightarrow> job_run js from_std show_uuid d ks (fst (extend_lease js from_std d1 i worker lease now))"
| run_finish: "job_run js from_std show_uuid d ks d1 \<Longrightarrow> job_run js from_std show_uuid d ks (fst (finish js show_uuid clk d1 i worker res now))"
| run_reclaim: "job_run js from_std show_uuid d ks d1 \<Longrightarrow> job_run js from_std show_uuid d ks (fst (reclaim_lapsed js d1 now))"

lemma job_run_steps: "job_run js from_std show_uuid d ks d' \<Longrightarrow> (job_step js from_std show_uuid)\<^sup>*\<^sup>* d d'"
proof (induction rule: job_run.induct)
  case (run_claim ks d1 worker lease now now2 d2 res)
  then have "job_step js from_std show_uuid d1 d2" using step_claim by (metis fst_conv)
  with run_claim.IH show ?case by (rule rtranclp.rtrancl_into_rtrancl)
qed (auto intro: rtranclp.rtrancl_into_rtrancl job_step.intros)

definition tries :: "job_row list \<Rightarrow> uuid \<Rightarrow> int" where
  "tries rs k = sum_list (map jb_attempts (filter (\<lambda>r. jb_id r = k) rs))"

lemma tries_append [simp]: "tries (xs @ ys) k = tries xs k + tries ys k"
  by (simp add: tries_def)

lemma tries_update:
  assumes "\<And>r. p r \<Longrightarrow> jb_id (f r) = jb_id r \<and> jb_attempts (f r) = jb_attempts r"
  shows "tries (update_rows p f rs) k = tries rs k"
  using assms by (induction rs) (auto simp: tries_def update_rows_def)

lemma tries_claim:
  assumes "\<And>r. jb_id (f r) = jb_id r \<and> jb_attempts (f r) = jb_attempts r + 1"
  shows "tries (update_rows (\<lambda>r. jb_id r = j) f rs) k = tries rs k + (if k = j then int (length (filter (\<lambda>r. jb_id r = j) rs)) else 0)"
  using assms by (induction rs) (auto simp: tries_def update_rows_def)

lemma tries_update_jobs:
  assumes "update_jobs valid what p f d = Inr (d', n)" "\<And>r. p r \<Longrightarrow> jb_id (f r) = jb_id r \<and> jb_attempts (f r) = jb_attempts r"
  shows "tries (model_jobs d') k = tries (model_jobs d) k"
  using assms tries_update [of p f] by (auto simp: update_jobs_def split: if_splits)

lemma one_row:
  assumes "distinct (map jb_id rs)" "r \<in> set rs"
  shows "filter (\<lambda>x. jb_id x = jb_id r) rs = [r]"
  using assms
proof (induction rs)
  case (Cons a rs)
  show ?case
  proof (cases "a = r")
    case True
    then have "filter (\<lambda>x. jb_id x = jb_id r) rs = []" using Cons.prems(1) by (simp add: filter_empty_conv) (metis imageI)
    with True show ?thesis by simp
  next
    case False
    with Cons.prems have "jb_id a \<noteq> jb_id r" by simp (metis imageI)
    with False Cons show ?thesis by simp
  qed
qed simp

lemma claim_tries:
  assumes ok: "jobs_ok (js_valid js) d" and c: "claim js from_std d worker lease now now2 = (d', res)"
  shows "tries (model_jobs d') k = tries (model_jobs d) k + int (count_list (handed_out res) k)"
proof (cases "\<exists>c. res = Inr (Some c)")
  case False
  then have "handed_out res = []" by (auto simp: handed_out_def split: sum.splits option.splits)
  moreover have "d' = d" using c False by (auto simp: claim_def split: if_splits option.splits sum.splits prod.splits)
  ultimately show ?thesis by simp
next
  case True
  then obtain cj where cj: "res = Inr (Some cj)" by blast
  let ?f = "\<lambda>x. x\<lparr>jb_state := JobClaimed, jb_claimed_by := Some worker, jb_claimed_at := Some now,
    jb_lease_expires_at := Some (lease_until from_std now2 lease), jb_attempts := jb_attempts x + 1\<rparr>"
  obtain x n where x: "oldest_pending d = Some x" "cj_id cj = jb_id x"
    and u: "update_jobs (js_valid js) ''models: claim'' (\<lambda>y. jb_id y = jb_id x) ?f d = Inr (d', n)"
    using c cj by (auto simp: claim_def split: if_splits option.splits sum.splits prod.splits)
  have "filter (\<lambda>y. jb_id y = jb_id x) (model_jobs d) = [x]"
    by (rule one_row) (use oldest_pending_Some [OF x(1)] ok in \<open>simp_all add: jobs_ok_def\<close>)
  moreover have "model_jobs d' = update_rows (\<lambda>y. jb_id y = jb_id x) ?f (model_jobs d)"
    using u by (auto simp: update_jobs_def simp del: set_update_rows split: if_splits)
  ultimately show ?thesis using tries_claim [of ?f "jb_id x" "model_jobs d" k] x(2) cj by (simp add: handed_out_def)
qed

lemma other_tries:
  "tries (model_jobs (fst (submit js d c inst spec i now))) k = tries (model_jobs d) k"
  "tries (model_jobs (fst (extend_lease js from_std d i worker lease now))) k = tries (model_jobs d) k"
  "tries (model_jobs (fst (finish js show_uuid clk d i worker res now))) k = tries (model_jobs d) k"
  "tries (model_jobs (fst (reclaim_lapsed js d now))) k = tries (model_jobs d) k"
proof -
  show "tries (model_jobs (fst (submit js d c inst spec i now))) k = tries (model_jobs d) k"
    by (cases rule: submit_cases [of js d c inst spec i now]) (simp_all add: tries_def new_job_def)
  show "tries (model_jobs (fst (extend_lease js from_std d i worker lease now))) k = tries (model_jobs d) k"
    by (auto simp: extend_lease_def dest: tries_update_jobs split: sum.split)
  show "tries (model_jobs (fst (finish js show_uuid clk d i worker res now))) k = tries (model_jobs d) k"
    by (cases rule: finish_cases [of js show_uuid clk d i worker res now]) (auto dest: tries_update_jobs)
  show "tries (model_jobs (fst (reclaim_lapsed js d now))) k = tries (model_jobs d) k"
    by (auto simp: reclaim_lapsed_def dest!: tries_update_jobs [where k = k] split: sum.split)
qed

lemma job_run_tries:
  assumes "job_run js from_std show_uuid d ks d'" "jobs_ok (js_valid js) d"
  shows "tries (model_jobs d') k = tries (model_jobs d) k + int (count_list ks k)"
  using assms(1)
proof (induction rule: job_run.induct)
  case (run_claim ks d1 worker lease now now2 d2 res)
  have "jobs_ok (js_valid js) d1" using job_steps_ok [OF job_run_steps [OF run_claim.hyps(1)] assms(2)] by simp
  from claim_tries [OF this run_claim.hyps(2)] run_claim.IH show ?case by simp
qed (simp_all add: other_tries)

lemma tries_at:
  assumes "jobs_ok valid d"
  shows "tries (model_jobs d) k = (case job_at d k of None \<Rightarrow> 0 | Some r \<Rightarrow> jb_attempts r)"
proof (cases "job_at d k")
  case None
  then have "filter (\<lambda>r. jb_id r = k) (model_jobs d) = []" by (auto simp: state_in_def find_None_iff filter_empty_conv)
  with None show ?thesis by (simp add: tries_def)
next
  case (Some r)
  then have "r \<in> set (model_jobs d)" "jb_id r = k" by (auto simp: state_in_def dest: find_SomeD)
  with one_row [of "model_jobs d" r] assms Some show ?thesis by (simp add: tries_def jobs_ok_def)
qed

text \<open>
  C34: The life of a model job. Whatever is submitted, claimed, extended, finished or reclaimed, in any
  order and with any failure: the claims of the whole run hand out no job more than three times, and
  the attempts of a row count its hand-outs; every row keeps the table's checks, no row is lost, what
  was asked and for whom never changes, a row that is done or failed stays exactly as it is, and a
  worker that lost its claim writes nothing and is told so.
\<close>

theorem model_job_lifecycle:
  assumes "jobs_ok (js_valid js) d" "job_run js from_std show_uuid d ks d'"
  shows "(\<forall>k. count_list ks k \<le> 3) \<and>
    (\<forall>r \<in> set (model_jobs d'). job_checks (js_valid js) r \<and> 0 \<le> jb_attempts r \<and> jb_attempts r \<le> 3) \<and>
    (\<forall>k r. job_at d k = Some r \<longrightarrow>
       (\<exists>r'. job_at d' k = Some r' \<and> same_job r r' \<and> jb_attempts r' = jb_attempts r + int (count_list ks k) \<and>
          (jb_state r \<in> {JobDone, JobFailed} \<longrightarrow> r' = r))) \<and>
    ((\<forall>r \<in> set (model_jobs d'). \<not> holds_claim i worker r) \<longrightarrow>
       finish js show_uuid clk d' i worker res now = (d', Inr False))"
proof (intro conjI allI impI)
  note s = job_steps_ok [OF job_run_steps [OF assms(2)] assms(1)]
  note t = job_run_tries [OF assms(2,1)]
  from s show rows: "\<forall>r \<in> set (model_jobs d'). job_checks (js_valid js) r \<and> 0 \<le> jb_attempts r \<and> jb_attempts r \<le> 3"
    by (auto simp: jobs_ok_def job_ok_def max_attempts_def)
  have bounded: "0 \<le> tries (model_jobs e) k \<and> tries (model_jobs e) k \<le> 3" if "jobs_ok (js_valid js) e" for e k
    using that unfolding tries_at [OF that]
    by (auto simp: jobs_ok_def job_ok_def max_attempts_def state_in_def dest!: find_SomeD split: option.split)
  show "count_list ks k \<le> 3" for k using t [of k] bounded [OF assms(1), of k] bounded [OF conjunct2 [OF s], of k] by simp
  fix k r assume r: "job_at d k = Some r"
  from mj.steps_edges [OF conjunct1 [OF s] r] obtain r' where r': "job_at d' k = Some r'" "job_move\<^sup>*\<^sup>* r r'" by blast
  have "r' = r" if "jb_state r \<in> {JobDone, JobFailed}"
    using mj.terminal_kept [OF conjunct1 [OF s] r] terminal_job [OF that] r'(1) by simp
  moreover have "jb_attempts r' = jb_attempts r + int (count_list ks k)"
    using t [of k] r r'(1) by (simp add: tries_at [OF assms(1)] tries_at [OF conjunct2 [OF s]])
  ultimately show "\<exists>r'. job_at d' k = Some r' \<and> same_job r r' \<and> jb_attempts r' = jb_attempts r + int (count_list ks k) \<and>
      (jb_state r \<in> {JobDone, JobFailed} \<longrightarrow> r' = r)"
    using r' moves_same_job by blast
qed (simp add: finish_needs_claim)

section \<open>Who may see a result\<close>

lemma resolve_active_install_ok:
  assumes "resolve_active_install colls db i = Inr info"
  shows "\<exists>r. find_install db i = Some r \<and> i_state r = Active \<and> ii_owner info = i_owner r"
proof (cases "find_install db i")
  case (Some r)
  with assms show ?thesis
    by (auto simp: resolve_active_install_def split: if_split_asm option.split_asm sum.split_asm)
qed (use assms in \<open>simp add: resolve_active_install_def\<close>)

lemma submit_inner_ok:
  fixes js :: "'j json_lib"
  assumes "submit_inner js e body_of dec colls d req i now = (d', Inr (l, j))"
  obtains b :: "'j submit_body" and info inp spec where "resolve_active_install colls (jd_log d) (cl_install_id (rq_caller req)) = Inr info"
    "job_input_of dec d (cl_cred (rq_caller req)) b = Inr inp" "jp_input spec = inp"
    "submit js d (cl_cred (rq_caller req)) (cl_install_id (rq_caller req)) spec i now = (d', Inr j)" "l = Trusted"
proof -
  from assms obtain u b info inp where s: "caller_validate (rq_caller req) = Inr u" "body_of (rq_body req) = Some b"
    "resolve_active_install colls (jd_log d) (cl_install_id (rq_caller req)) = Inr info"
    "job_input_of dec d (cl_cred (rq_caller req)) b = Inr inp"
    by (auto simp: submit_inner_def Let_def split: sum.split_asm option.split_asm)
  let ?spec = "\<lparr>jp_capability = sb_capability b, jp_input = inp,
    jp_options = (case sb_options b of None \<Rightarrow> e | Some v \<Rightarrow> v)\<rparr>"
  have "submit js d (cl_cred (rq_caller req)) (cl_install_id (rq_caller req)) ?spec i now = (d', Inr j) \<and> l = Trusted"
    using assms s(4) unfolding submit_inner_def Let_def s(1) s(2) s(3)
    by (simp split: prod.split_asm sum.split_asm)
  then show thesis using that [OF s(3,4), of ?spec] by simp
qed

lemma submitted_blob_is_held:
  assumes "job_input_of dec d c b = Inr (BlobInput h m)"
  shows "\<exists>desc t. resolve (jd_blobs d) c h = Inr (desc, t)"
  using assms unfolding job_input_of_def
  by (auto split: if_split_asm sum.split_asm)

lemma result_inner_ok:
  assumes "result_inner js body_of uuid_of d req = Inr (l, v)"
  shows "\<exists>r \<in> set (model_jobs d). jb_id r = jv_job v \<and> jb_install_id r = cl_install_id (rq_caller req) \<and>
    (l = Untrusted \<longleftrightarrow> jb_result r \<noteq> None) \<and> jv_result v = Option.bind (jb_result r) (js_parse js)"
proof -
  let ?c = "cl_cred (rq_caller req)" and ?i = "cl_install_id (rq_caller req)"
  from assms obtain i where v: "result js d ?c ?i i = Inr (Some v)" "l = (if jv_result v \<noteq> None then Untrusted else Trusted)"
    by (auto simp: result_inner_def Let_def split: sum.split_asm option.split_asm)
  then obtain r where r: "List.find (\<lambda>r. jb_id r = i \<and> jb_install_id r = ?i) (model_jobs d) = Some r"
    by (auto simp: result_def split: sum.split_asm option.split_asm)
  have "jv_job v = i \<and> jv_result v = Option.bind (jb_result r) (js_parse js) \<and>
      (jb_result r = None \<longleftrightarrow> jv_result v = None)"
    using v(1) r by (auto simp: result_def split: sum.split_asm option.split_asm)
  then show ?thesis using find_SomeD [OF r] v(2) by auto
qed

text \<open>
  A job stays with the install that asked. A guest's submission is accepted only for an active
  install, lands with the owner its credential names, and reads a blob only through a reference that
  credential holds; afterwards, whatever the queue does, only a call made for that same install sees
  the job, and every answer that carries a result is untrusted.
\<close>

theorem job_stays_with_its_install:
  fixes js :: "'j json_lib"
  assumes "jobs_ok (js_valid js) d"
    and "submit_inner js e body_of dec colls d req i now = (d1, Inr (l, j))"
    and "(job_step js from_std show_uuid)\<^sup>*\<^sup>* d1 d2"
  shows "(\<exists>r. find_install (jd_log d) (cl_install_id (rq_caller req)) = Some r \<and> i_state r = Active) \<and>
    (\<exists>r. job_at d1 j = Some r \<and> jb_owner r = owner_of (cl_cred (rq_caller req)) \<and> jb_state r = JobPending \<and>
       (\<forall>h. jb_input_blob r = Some h \<longrightarrow> (\<exists>desc t. resolve (jd_blobs d) (cl_cred (rq_caller req)) h = Inr (desc, t)))) \<and>
    (\<forall>l2 v. result_inner js job_of uuid_of d2 asked = Inr (l2, v) \<longrightarrow> jv_job v = j \<longrightarrow>
       cl_install_id (rq_caller asked) = cl_install_id (rq_caller req) \<and>
       (l2 = Untrusted \<longleftrightarrow> jv_result v \<noteq> None))"
proof -
  let ?c = "cl_cred (rq_caller req)" and ?i = "cl_install_id (rq_caller req)"
  from assms(2) obtain b :: "'j submit_body" and info inp spec where s: "resolve_active_install colls (jd_log d) ?i = Inr info"
    "job_input_of dec d ?c b = Inr inp" "jp_input spec = inp" "submit js d ?c ?i spec i now = (d1, Inr j)" "l = Trusted"
    by (rule submit_inner_ok)
  let ?r = "new_job js ?c ?i spec i now"
  have q: "d1 = d\<lparr>model_jobs := model_jobs d @ [?r], job_wakes := job_wakes d + 1\<rparr>" "j = i"
    "\<forall>r \<in> set (model_jobs d). jb_id r \<noteq> i"
    using s(4) by (cases rule: submit_cases [of js d ?c ?i spec i now]; simp)+
  have "jb_id ?r = i" by (simp add: new_job_def)
  moreover have "List.find (\<lambda>r. jb_id r = i) (model_jobs d) = None" using q(3) by (simp add: find_None_iff)
  ultimately have at: "job_at d1 j = Some ?r" using q(1,2) by (simp add: state_in_def find_append)
  have held: "\<exists>desc t. resolve (jd_blobs d) ?c h = Inr (desc, t)" if "jb_input_blob ?r = Some h" for h
    using that s(2,3) submitted_blob_is_held by (auto simp: new_job_def split: job_input.split_asm)
  have "job_effect (js_valid js) d d1" using submit_effect [of js d ?c ?i spec i now] s(4) by simp
  from job_effect_ok [OF this assms(1)] have ok1: "jobs_ok (js_valid js) d1" .
  note run = job_steps_ok [OF assms(3) ok1]
  from mj.steps_edges [OF conjunct1 [OF run] at] obtain r' where r': "job_at d2 j = Some r'" "same_job ?r r'"
    using moves_same_job by blast
  have "cl_install_id (rq_caller asked) = ?i \<and> (l2 = Untrusted \<longleftrightarrow> jv_result v \<noteq> None)"
    if v: "result_inner js job_of uuid_of d2 asked = Inr (l2, v)" "jv_job v = j" for l2 v
  proof -
    from result_inner_ok [OF v(1)] v(2) obtain x where x: "x \<in> set (model_jobs d2)" "jb_id x = j"
      "jb_install_id x = cl_install_id (rq_caller asked)" by auto
    from r'(1) have f: "List.find (\<lambda>r. jb_id r = j) (model_jobs d2) = Some r'" by (simp add: state_in_def)
    from find_SomeD [OF f] same_id [OF conjunct2 [OF run] x(1)] x(2) have "x = r'" by auto
    then have "cl_install_id (rq_caller asked) = ?i" using x(3) r'(2) by (simp add: same_job_def new_job_def)
    moreover have "l2 = (if jv_result v \<noteq> None then Untrusted else Trusted)"
      using v(1) by (auto simp: result_inner_def Let_def split: sum.split_asm option.split_asm)
    ultimately show ?thesis by simp
  qed
  moreover have "jb_owner ?r = owner_of ?c" "jb_state ?r = JobPending" by (simp_all add: new_job_def)
  ultimately show ?thesis using resolve_active_install_ok [OF s(1)] at held by blast
qed

section \<open>A queue to evaluate\<close>

text \<open>
  JSON values stand for their own text. Install 10 of Alice's asks for the bytes she published to be
  read; a worker takes the job and answers.
\<close>

definition text_json :: "string json_lib" where
  "text_json = \<lparr>js_text = id, js_parse = Some\<rparr>"

definition job_db0 :: job_db where
  "job_db0 = \<lparr>jd_log = event_db0, jd_blobs = st_db store2, model_jobs = [], job_wakes = 0\<rparr>"

definition job_request :: request where
  "job_request = \<lparr>rq_caller = \<lparr>cl_cred = alice, cl_install_id = 10\<rparr>, rq_app = ''notes'', rq_body = ''{}'',
     rq_trust = Trusted, rq_tainted_by = []\<rparr>"

definition read_body :: "string \<Rightarrow> string submit_body option" where
  "read_body _ = Some \<lparr>sb_capability = ''read'', sb_blob = hash_display hex_enc (pad_sha ''hi''), sb_text = [], sb_options = None\<rparr>"

definition submitted :: "job_db \<times> (store_error + level \<times> uuid)" where
  "submitted = submit_inner text_json ''{}'' read_body hex_dec (\<lambda>_. Some []) job_db0 job_request 600 200"

definition job_db2 :: job_db where
  "job_db2 = fst (claim text_json (\<lambda>n. Some (int n)) (fst submitted) ''w1'' 30 210 210)"

definition job_db3 :: job_db where
  "job_db3 = fst (finish text_json (\<lambda>_. ''id'') tick job_db2 600 ''w1'' (Inr ''[1]'') 220)"

abbreviation text_step :: "job_db \<Rightarrow> job_db \<Rightarrow> bool" where
  "text_step \<equiv> job_step text_json (\<lambda>n. Some (int n)) (\<lambda>_. ''id'')"

lemma job_db0_ok: "jobs_ok (js_valid text_json) job_db0"
  by (simp add: jobs_ok_def job_db0_def)

lemma submitted_eq: "submit_inner text_json ''{}'' read_body hex_dec (\<lambda>_. Some []) job_db0 job_request 600 200 =
    (fst submitted, Inr (Trusted, 600))"
  by code_simp

lemma submitted_ok: "jobs_ok (js_valid text_json) (fst submitted)"
  by code_simp

lemma text_run: "text_step\<^sup>*\<^sup>* (fst submitted) job_db3"
proof -
  have "text_step (fst submitted) job_db2" unfolding job_db2_def by (rule step_claim)
  moreover have "text_step job_db2 job_db3" unfolding job_db3_def by (rule step_finish)
  ultimately show ?thesis by (rule converse_rtranclp_into_rtranclp [of text_step, OF _ r_into_rtranclp [of text_step]])
qed

abbreviation text_runs :: "job_db \<Rightarrow> uuid list \<Rightarrow> job_db \<Rightarrow> bool" where
  "text_runs \<equiv> job_run text_json (\<lambda>n. Some (int n)) (\<lambda>_. ''id'')"

theorem model_job_lifecycle_witness:
  "(\<exists>r. job_at job_db3 600 = Some r \<and> jb_state r = JobDone \<and> jb_attempts r = 1) \<and>
   finish text_json (\<lambda>_. ''id'') tick job_db3 600 ''w2'' (Inl ''late'') 230 = (job_db3, Inr False)"
proof -
  let ?c = "claim text_json (\<lambda>n. Some (int n)) (fst submitted) ''w1'' 30 210 210"
  have h: "handed_out (snd ?c) = [600]" by code_simp
  have "text_runs (fst submitted) ([] @ handed_out (snd ?c)) job_db2"
    unfolding job_db2_def by (rule run_claim [OF run_start]) simp
  then have run: "text_runs (fst submitted) [600] job_db3" unfolding h job_db3_def by simp (rule run_finish)
  have h: "\<forall>r \<in> set (model_jobs job_db3). \<not> holds_claim 600 ''w2'' r" by code_simp
  have "map (\<lambda>r. (jb_id r, jb_state r)) (model_jobs job_db3) = [(600, JobDone)]"
    "map (\<lambda>r. (jb_id r, jb_attempts r)) (model_jobs (fst submitted)) = [(600, 0)]" by code_simp+
  then obtain z a where z: "job_at job_db3 600 = Some z" "jb_state z = JobDone"
    and a: "job_at (fst submitted) 600 = Some a" "jb_attempts a = 0"
    by (auto simp: state_in_def)
  note l = model_job_lifecycle [OF submitted_ok run, of 600 "''w2''" tick "Inl ''late''" 230]
  then obtain z' where "job_at job_db3 600 = Some z'" "jb_attempts z' = jb_attempts a + int (count_list [600] (600 :: uuid))"
    using a(1) by blast
  then have "jb_attempts z = 1" using z(1) a(2) by simp
  with z l h show ?thesis by blast
qed

theorem job_stays_with_its_install_witness:
  "(\<exists>desc t. resolve (jd_blobs job_db0) alice (pad_sha ''hi'') = Inr (desc, t)) \<and>
   (\<exists>v. result_inner text_json (\<lambda>_. Some ''600'') (\<lambda>_. Some 600) job_db3 job_request = Inr (Untrusted, v) \<and> jv_result v = Some ''[1]'')"
proof
  have b: "map (\<lambda>r. (jb_id r, jb_input_blob r)) (model_jobs (fst submitted)) = [(600, Some (pad_sha ''hi''))]" by code_simp
  have j: "rq_caller job_request = \<lparr>cl_cred = alice, cl_install_id = 10\<rparr>" by (simp add: job_request_def)
  note keeps = job_stays_with_its_install [OF job_db0_ok submitted_eq text_run,
      where uuid_of = "\<lambda>_. Some 600" and job_of = "\<lambda>_. Some ''600''" and asked = job_request]
  from keeps b show "\<exists>desc t. resolve (jd_blobs job_db0) alice (pad_sha ''hi'') = Inr (desc, t)"
    by (auto simp: state_in_def j)
  have "\<not> isl (result_inner text_json (\<lambda>_. Some ''600'') (\<lambda>_. Some 600) job_db3 job_request)"
    "jv_result (snd (projr (result_inner text_json (\<lambda>_. Some ''600'') (\<lambda>_. Some 600) job_db3 job_request))) = Some ''[1]''"
    "jv_job (snd (projr (result_inner text_json (\<lambda>_. Some ''600'') (\<lambda>_. Some 600) job_db3 job_request))) = 600"
    by code_simp+
  then obtain l v where v: "result_inner text_json (\<lambda>_. Some ''600'') (\<lambda>_. Some 600) job_db3 job_request = Inr (l, v)"
    "jv_result v = Some ''[1]''" "jv_job v = 600" by (metis prod.collapse sum.collapse(2))
  with keeps show "\<exists>v. result_inner text_json (\<lambda>_. Some ''600'') (\<lambda>_. Some 600) job_db3 job_request = Inr (Untrusted, v) \<and>
      jv_result v = Some ''[1]''" by auto
qed

end
