(* ===== verification/Hive_Spec.thy ===== *)
theory Hive_Spec
  imports Hive_Prelude Complex_Main
begin

text \<open>
  What an agent run is (\<open>crates/hive-harness/src/spec.rs\<close>, \<open>pins.rs\<close>): the runtime, the pinned image,
  the caps, the network mode, the output events and the result. A CPU count is a double: a finite
  value, an infinity or no number. Durations are natural numbers; the prose of an error is shortened.
\<close>

section \<open>Runtimes, networks and caps\<close>

datatype runtime = Claude | Codex | OpenCode

definition runtime_all :: "runtime list" where "runtime_all = [Claude, Codex, OpenCode]"

fun runtime_as_str :: "runtime \<Rightarrow> string" where
  "runtime_as_str Claude = ''claude''"
| "runtime_as_str Codex = ''codex''"
| "runtime_as_str OpenCode = ''opencode''"

definition runtime_parse :: "string \<Rightarrow> runtime option" where
  "runtime_parse s = List.find (\<lambda>r. runtime_as_str r = s) runtime_all"

fun config_env :: "runtime \<Rightarrow> (string \<times> string) option" where
  "config_env Claude = Some (''CLAUDE_CONFIG_DIR'', ''/config/claude'')"
| "config_env Codex = Some (''CODEX_HOME'', ''/config/codex'')"
| "config_env OpenCode = None"

datatype network_mode = NetNone | NetDaemon | NetProxied

fun network_as_str :: "network_mode \<Rightarrow> string" where
  "network_as_str NetNone = ''none''"
| "network_as_str NetDaemon = ''daemon''"
| "network_as_str NetProxied = ''proxied''"

datatype f64 = NaN | PosInf | NegInf | Finite rat

text \<open>Comparison with zero: false for no number.\<close>

fun f64_le_zero :: "f64 \<Rightarrow> bool" where
  "f64_le_zero NaN = False"
| "f64_le_zero PosInf = False"
| "f64_le_zero NegInf = True"
| "f64_le_zero (Finite q) = (q \<le> 0)"

record limits =
  lm_memory_bytes :: int
  lm_cpus :: f64
  lm_pids_limit :: int

definition default_limits :: limits where
  "default_limits = \<lparr>lm_memory_bytes = 2 * 2 ^ 30, lm_cpus = Finite 2, lm_pids_limit = 512\<rparr>"

type_synonym spec_error = string

definition limits_validate :: "limits \<Rightarrow> spec_error + unit" where
  "limits_validate l =
     (if lm_memory_bytes l \<le> 0 then Inl ''limits: memory_bytes must be positive''
      else if f64_le_zero (lm_cpus l) then Inl ''limits: cpus must be positive''
      else if lm_pids_limit l \<le> 0 then Inl ''limits: pids_limit must be positive''
      else Inr ())"

definition default_image_repository :: string where
  "default_image_repository = ''localhost/hive-sandbox-harness''"

definition proxy_port :: nat where "proxy_port = 3128"

section \<open>Names\<close>

definition is_alnum :: "char \<Rightarrow> bool" where
  "is_alnum c \<longleftrightarrow> is_digit c \<or> is_lower c \<or> is_upper c"

definition run_id_char :: "char \<Rightarrow> bool" where
  "run_id_char c \<longleftrightarrow> is_alnum c \<or> c = CHR ''_'' \<or> c = CHR ''.'' \<or> c = CHR ''-''"

text \<open>The pattern of a run id: one alphanumeric, then at most 62 of the name characters.\<close>

definition run_id_matches :: "string \<Rightarrow> bool" where
  "run_id_matches s =
     (case s of [] \<Rightarrow> False | c # cs \<Rightarrow> is_alnum c \<and> length cs \<le> 62 \<and> list_all run_id_char cs)"

section \<open>The spec\<close>

record run_spec =
  spec_run_id :: string
  spec_runtime :: "runtime option"
  spec_image_digest :: string
  spec_image_repository :: string
  spec_cli_version :: string
  spec_args :: "string list"
  spec_prompt_stdin :: string
  spec_env :: "(string \<times> string) list"
  spec_workspace_dir :: string
  spec_config_dir :: string
  spec_session_id :: string
  spec_model :: string
  spec_network :: network_mode
  spec_daemon_socket :: string
  spec_egress_allow :: "string list"
  spec_egress_allow_private :: bool
  spec_limits :: limits
  spec_deadline :: nat

definition run_spec_default :: run_spec where
  "run_spec_default = \<lparr>spec_run_id = [], spec_runtime = None, spec_image_digest = [], spec_image_repository = [],
     spec_cli_version = [], spec_args = [], spec_prompt_stdin = [], spec_env = [], spec_workspace_dir = [],
     spec_config_dir = [], spec_session_id = [], spec_model = [], spec_network = NetNone, spec_daemon_socket = [],
     spec_egress_allow = [], spec_egress_allow_private = False,
     spec_limits = \<lparr>lm_memory_bytes = 0, lm_cpus = Finite 0, lm_pids_limit = 0\<rparr>, spec_deadline = 0\<rparr>"

definition image_ref :: "run_spec \<Rightarrow> string" where
  "image_ref s =
     (if spec_image_repository s = [] then default_image_repository else spec_image_repository s)
     @ ''@'' @ spec_image_digest s"

definition container_name :: "run_spec \<Rightarrow> string" where
  "container_name s = ''hive-sandbox-run-'' @ spec_run_id s"

definition proxy_container_name :: "run_spec \<Rightarrow> string" where
  "proxy_container_name s = ''hive-sandbox-proxy-'' @ spec_run_id s"

definition egress_network_name :: "run_spec \<Rightarrow> string" where
  "egress_network_name s = ''hive-sandbox-egress-'' @ spec_run_id s"

definition proxy_url :: "run_spec \<Rightarrow> string" where
  "proxy_url s = ''http://'' @ proxy_container_name s @ '':'' @ show_nat proxy_port"

definition spec_runtime_of :: "run_spec \<Rightarrow> spec_error + runtime" where
  "spec_runtime_of s = (case spec_runtime s of None \<Rightarrow> Inl ''unknown runtime'' | Some r \<Rightarrow> Inr r)"

text \<open>An absolute path of either system; a bare name would be a named volume.\<close>

definition looks_like_a_path :: "string \<Rightarrow> bool" where
  "looks_like_a_path c \<longleftrightarrow>
     c \<noteq> [] \<and> (hd c = CHR ''/'' \<or> hd c = CHR 0x5C
       \<or> 2 < length c \<and> (is_lower (hd c) \<or> is_upper (hd c)) \<and> c ! 1 = CHR '':'')"

definition network_validate :: "run_spec \<Rightarrow> spec_error + unit" where
  "network_validate s =
     (case spec_network s of
        NetNone \<Rightarrow> Inr ()
      | NetDaemon \<Rightarrow> if spec_daemon_socket s = [] then Inl ''network daemon requires daemon_socket'' else Inr ()
      | NetProxied \<Rightarrow> if spec_egress_allow s = [] then Inl ''network proxied requires a non-empty egress_allow'' else Inr ())"

definition spec_validate :: "run_spec \<Rightarrow> spec_error + unit" where
  "spec_validate s =
     (if spec_run_id s = [] then Inl ''run_id is required''
      else if \<not> run_id_matches (spec_run_id s) then Inl ''run_id names a container and a network''
      else (case spec_runtime_of s of
              Inl e \<Rightarrow> Inl e
            | Inr rt \<Rightarrow>
                if spec_image_digest s = [] then Inl ''image_digest is required''
                else if spec_workspace_dir s = [] then Inl ''workspace_dir is required''
                else if spec_config_dir s \<noteq> [] \<and> \<not> looks_like_a_path (spec_config_dir s)
                  then Inl ''config_dir must be an absolute host path''
                else if spec_config_dir s \<noteq> [] \<and> config_env rt = None
                  then Inl ''runtime has no config directory to mount''
                else if spec_deadline s = 0 then Inl ''deadline is required and must be positive''
                else (case limits_validate (spec_limits s) of
                        Inl e \<Rightarrow> Inl e
                      | Inr _ \<Rightarrow> network_validate s)))"

section \<open>Events and results\<close>

datatype event_stream = Stdout | Stderr

fun event_stream_as_str :: "event_stream \<Rightarrow> string" where
  "event_stream_as_str Stdout = ''stdout''"
| "event_stream_as_str Stderr = ''stderr''"

definition event_stream_parse :: "string \<Rightarrow> event_stream option" where
  "event_stream_parse s =
     (if s = ''stdout'' then Some Stdout else if s = ''stderr'' then Some Stderr else None)"

record run_line =
  ln_seq :: int
  ln_at :: time
  ln_stream :: event_stream
  ln_type :: string
  ln_json :: "string option"
  ln_text :: string
  ln_truncated :: bool

datatype terminal_state = Succeeded | RunFailed | DeadlineExceeded | Cancelled | Indeterminate

fun terminal_as_str :: "terminal_state \<Rightarrow> string" where
  "terminal_as_str Succeeded = ''succeeded''"
| "terminal_as_str RunFailed = ''failed''"
| "terminal_as_str DeadlineExceeded = ''deadline_exceeded''"
| "terminal_as_str Cancelled = ''cancelled''"
| "terminal_as_str Indeterminate = ''indeterminate''"

record run_result =
  rr_run_id :: string
  rr_state :: terminal_state
  rr_exit_code :: int
  rr_started_at :: time
  rr_ended_at :: time
  rr_event_count :: int
  rr_session_id :: string
  rr_stderr_tail :: string
  rr_workspace_dir :: string

definition run_duration :: "run_result \<Rightarrow> int" where
  "run_duration r = max 0 (rr_ended_at r - rr_started_at r)"

section \<open>Pins\<close>

record image_pin =
  pin_digest :: string
  pin_cli_version :: string

record image_pins =
  pins_repository :: string
  pins_runtimes :: "runtime \<Rightarrow> image_pin option"

datatype pin_error = PinNotFound | PinRead | PinParse | NoRuntime runtime | NoDigest runtime | NoEgressDigest

text \<open>A lockfile: absent, unreadable, or its bytes; \<open>parse\<close> is the reading of its JSON.\<close>

datatype file_read = FileMissing | FileError | FileBytes string

definition pins_load :: "(string \<Rightarrow> image_pins option) \<Rightarrow> file_read \<Rightarrow> pin_error + image_pins" where
  "pins_load parse f =
     (case f of
        FileMissing \<Rightarrow> Inl PinNotFound
      | FileError \<Rightarrow> Inl PinRead
      | FileBytes b \<Rightarrow>
          (case parse b of
             None \<Rightarrow> Inl PinParse
           | Some p \<Rightarrow> Inr (if pins_repository p = [] then p\<lparr>pins_repository := default_image_repository\<rparr> else p)))"

definition pins_apply :: "image_pins \<Rightarrow> run_spec \<Rightarrow> pin_error + run_spec" where
  "pins_apply p s =
     (case spec_runtime s of
        None \<Rightarrow> Inl (NoRuntime Claude)
      | Some r \<Rightarrow>
          (case pins_runtimes p r of
             None \<Rightarrow> Inl (NoRuntime r)
           | Some pin \<Rightarrow>
               if pin_digest pin = [] then Inl (NoDigest r)
               else Inr (s\<lparr>spec_image_repository := pins_repository p, spec_image_digest := pin_digest pin,
                           spec_cli_version := pin_cli_version pin\<rparr>)))"

record egress_pin =
  ep_repository :: string
  ep_digest :: string
  ep_version :: string

definition default_egress_repository :: string where
  "default_egress_repository = ''localhost/hive-sandbox-egress''"

definition egress_pin_load :: "(string \<Rightarrow> egress_pin option) \<Rightarrow> file_read \<Rightarrow> pin_error + egress_pin" where
  "egress_pin_load parse f =
     (case f of
        FileMissing \<Rightarrow> Inl PinNotFound
      | FileError \<Rightarrow> Inl PinRead
      | FileBytes b \<Rightarrow>
          (case parse b of
             None \<Rightarrow> Inl PinParse
           | Some p0 \<Rightarrow>
               (let p = (if ep_repository p0 = [] then p0\<lparr>ep_repository := default_egress_repository\<rparr> else p0)
                in if ep_digest p = [] then Inl NoEgressDigest else Inr p)))"

definition egress_pin_reference :: "egress_pin \<Rightarrow> string" where
  "egress_pin_reference p = ep_repository p @ ''@'' @ ep_digest p"

section \<open>Lemmas\<close>

lemma spec_validate_ok:
  assumes "spec_validate s = Inr u"
  shows "run_id_matches (spec_run_id s)" "\<exists>rt. spec_runtime s = Some rt \<and> (spec_config_dir s \<noteq> [] \<longrightarrow> config_env rt \<noteq> None)"
    "spec_image_digest s \<noteq> []" "spec_workspace_dir s \<noteq> []" "0 < spec_deadline s"
    "limits_validate (spec_limits s) = Inr ()" "network_validate s = Inr ()"
proof -
  from assms obtain rt where rt: "spec_runtime s = Some rt"
    by (auto simp: spec_validate_def spec_runtime_of_def split: if_splits option.splits)
  with assms show "run_id_matches (spec_run_id s)" "\<exists>rt. spec_runtime s = Some rt \<and> (spec_config_dir s \<noteq> [] \<longrightarrow> config_env rt \<noteq> None)"
    "spec_image_digest s \<noteq> []" "spec_workspace_dir s \<noteq> []" "0 < spec_deadline s"
    "limits_validate (spec_limits s) = Inr ()" "network_validate s = Inr ()"
    by (auto simp: spec_validate_def spec_runtime_of_def split: if_split_asm sum.split_asm)
qed

text \<open>A validated run id is not empty and holds no separator of any name or option.\<close>

lemma run_id_chars: "run_id_matches i \<Longrightarrow> i \<noteq> [] \<and> length i \<le> 63 \<and> (\<forall>c \<in> set i. run_id_char c)"
  by (auto simp: run_id_matches_def run_id_char_def list_all_iff split: list.splits)

text \<open>Names of two runs are the same only for the same run, and no two kinds of name meet.\<close>

lemma run_names_inject:
  "container_name s = container_name t \<longleftrightarrow> spec_run_id s = spec_run_id t"
  "proxy_container_name s = proxy_container_name t \<longleftrightarrow> spec_run_id s = spec_run_id t"
  "egress_network_name s = egress_network_name t \<longleftrightarrow> spec_run_id s = spec_run_id t"
  "container_name s \<noteq> proxy_container_name t"
  by (simp_all add: container_name_def proxy_container_name_def egress_network_name_def)

lemma pins_apply_pins:
  assumes "pins_apply p s = Inr s'"
  shows "spec_image_digest s' \<noteq> [] \<and> (\<exists>r pin. spec_runtime s = Some r \<and> pins_runtimes p r = Some pin \<and>
    image_ref s' = (if pins_repository p = [] then default_image_repository else pins_repository p) @ ''@'' @ pin_digest pin)"
  using assms by (auto simp: pins_apply_def image_ref_def split: option.splits if_splits)

end
