(* ===== verification/Hive_Podman.thy ===== *)
theory Hive_Podman
  imports Hive_Spec Hive_Manifest
begin

text \<open>
  The command lines of the sandbox (\<open>crates/hive-harness/src/podman.rs\<close>, \<open>app.rs\<close>, \<open>egress.rs\<close>): one
  agent run, one app container, the egress proxy of a run, and their teardown. Podman itself is a
  parameter: what a command answers, given the commands before it. The printing of a double is one too.
\<close>

section \<open>Constants\<close>

definition container_workspace :: string where "container_workspace = ''/workspace''"
definition container_home :: string where "container_home = ''/home/harness''"
definition container_daemon_sock :: string where "container_daemon_sock = ''/run/hive-sandbox/api.sock''"
definition container_uid :: nat where "container_uid = 1001"
definition container_gid :: nat where "container_gid = 1001"
definition container_tmp_size :: string where "container_tmp_size = ''512m''"
definition container_home_tmp_size :: string where "container_home_tmp_size = ''256m''"

definition reserved_env :: "string list" where
  "reserved_env =
     [''HOME'', ''NPM_CONFIG_CACHE'', ''HIVE_SANDBOX_RUN_ID'', ''HIVE_SANDBOX_MODEL'', ''HIVE_SANDBOX_SESSION_ID'',
      ''HIVE_SANDBOX_API_SOCKET'', ''HTTP_PROXY'', ''HTTPS_PROXY'', ''http_proxy'', ''https_proxy'', ''NO_PROXY'',
      ''no_proxy'', ''CLAUDE_CONFIG_DIR'', ''CODEX_HOME'']"

definition forbidden_env :: "string list" where "forbidden_env = [''CLAUDE_CODE_OAUTH_TOKEN'']"

definition provider_key_env :: "string list" where
  "provider_key_env = [''ANTHROPIC_API_KEY'', ''ANTHROPIC_AUTH_TOKEN'', ''OPENAI_API_KEY'']"

text \<open>A double with no fraction prints as an integer, cut to the range of \<open>i64\<close>.\<close>

definition format_cpus :: "(f64 \<Rightarrow> string) \<Rightarrow> f64 \<Rightarrow> string" where
  "format_cpus show_f64 c =
     (case c of
        Finite q \<Rightarrow> if q = of_int \<lfloor>q\<rfloor> then show_int (min i64_max (max i64_min \<lfloor>q\<rfloor>)) else show_f64 c
      | _ \<Rightarrow> show_f64 c)"

section \<open>An agent run\<close>

definition env_pair :: "string \<Rightarrow> string \<Rightarrow> string list" where
  "env_pair k v = [''--env'', k @ ''='' @ v]"

definition sandbox_args :: "(f64 \<Rightarrow> string) \<Rightarrow> limits \<Rightarrow> string list" where
  "sandbox_args show_f64 l =
     [''--userns'', ''keep-id:uid='' @ show_nat container_uid @ '',gid='' @ show_nat container_gid,
      ''--user'', show_nat container_uid @ '':'' @ show_nat container_gid,
      ''--read-only'', ''--cap-drop'', ''ALL'', ''--security-opt'', ''no-new-privileges'',
      ''--tmpfs'', ''/tmp:rw,nosuid,nodev,size='' @ container_tmp_size,
      ''--tmpfs'', container_home @ '':rw,nosuid,nodev,size='' @ container_home_tmp_size,
      ''--memory'', show_int (lm_memory_bytes l) @ ''b'',
      ''--cpus'', format_cpus show_f64 (lm_cpus l),
      ''--pids-limit'', show_int (lm_pids_limit l)]"

definition proxy_args :: "string \<Rightarrow> string \<Rightarrow> string list" where
  "proxy_args network proxy =
     [''--network'', network] @ env_pair ''HTTP_PROXY'' proxy @ env_pair ''HTTPS_PROXY'' proxy
     @ env_pair ''http_proxy'' proxy @ env_pair ''https_proxy'' proxy
     @ env_pair ''NO_PROXY'' ''localhost,127.0.0.1'' @ env_pair ''no_proxy'' ''localhost,127.0.0.1''"

definition socket_args :: "string \<Rightarrow> string list" where
  "socket_args sock =
     [''--volume'', sock @ '':'' @ container_daemon_sock @ '':rw''] @ env_pair ''HIVE_SANDBOX_API_SOCKET'' container_daemon_sock"

definition config_args :: "run_spec \<Rightarrow> runtime \<Rightarrow> spec_error + string list" where
  "config_args s rt =
     (if spec_config_dir s = [] then Inr []
      else (case config_env rt of
              None \<Rightarrow> Inl ''runtime has no config directory''
            | Some (var, path) \<Rightarrow>
                Inr ([''--volume'', spec_config_dir s @ '':'' @ path @ '':rw''] @ env_pair var path)))"

definition network_args :: "run_spec \<Rightarrow> string list" where
  "network_args s =
     (case spec_network s of
        NetNone \<Rightarrow> [''--network'', ''none'']
      | NetDaemon \<Rightarrow> [''--network'', ''none''] @ socket_args (spec_daemon_socket s)
      | NetProxied \<Rightarrow>
          proxy_args (egress_network_name s) (proxy_url s)
          @ (if spec_daemon_socket s = [] then [] else socket_args (spec_daemon_socket s)))"

definition launcher_env_args :: "run_spec \<Rightarrow> string list" where
  "launcher_env_args s =
     env_pair ''HOME'' container_home @ env_pair ''NPM_CONFIG_CACHE'' ''/tmp/npm-cache''
     @ env_pair ''HIVE_SANDBOX_RUN_ID'' (spec_run_id s)
     @ (if spec_model s = [] then [] else env_pair ''HIVE_SANDBOX_MODEL'' (spec_model s))
     @ (if spec_session_id s = [] then [] else env_pair ''HIVE_SANDBOX_SESSION_ID'' (spec_session_id s))"

definition key_ok :: "string \<Rightarrow> bool" where
  "key_ok k \<longleftrightarrow> k \<noteq> [] \<and> CHR ''='' \<notin> set k \<and> CHR 0x00 \<notin> set k"

fun env_args :: "run_spec \<Rightarrow> (string \<times> string) list \<Rightarrow> spec_error + string list" where
  "env_args s [] = Inr []"
| "env_args s ((k, v) # rest) =
     (if \<not> key_ok k then Inl ''invalid env key''
      else if k \<in> set reserved_env then Inl ''set by the launcher and cannot be overridden''
      else if k \<in> set forbidden_env then Inl ''never arrives by environment''
      else if spec_config_dir s \<noteq> [] \<and> k \<in> set provider_key_env then Inl ''beside config_dir''
      else (case env_args s rest of Inl e \<Rightarrow> Inl e | Inr xs \<Rightarrow> Inr (env_pair k v @ xs)))"

definition podman_run_args :: "(f64 \<Rightarrow> string) \<Rightarrow> run_spec \<Rightarrow> string list \<Rightarrow> spec_error + string list" where
  "podman_run_args show_f64 s extra =
     (case spec_validate s of
        Inl e \<Rightarrow> Inl e
      | Inr _ \<Rightarrow>
     (case spec_runtime_of s of
        Inl e \<Rightarrow> Inl e
      | Inr rt \<Rightarrow>
     (case config_args s rt of
        Inl e \<Rightarrow> Inl e
      | Inr config \<Rightarrow>
     (case env_args s (spec_env s) of
        Inl e \<Rightarrow> Inl e
      | Inr env \<Rightarrow>
          Inr ([''run'', ''--rm'', ''--name'', container_name s, ''--workdir'', container_workspace]
               @ sandbox_args show_f64 (spec_limits s)
               @ [''--label'', ''org.beesroadhouse.hive-sandbox.run-id='' @ spec_run_id s,
                  ''--label'', ''org.beesroadhouse.hive-sandbox.runtime='' @ runtime_as_str rt,
                  ''--volume'', spec_workspace_dir s @ '':'' @ container_workspace @ '':rw'']
               @ config @ network_args s @ launcher_env_args s @ env @ extra @ [image_ref s] @ spec_args s)))))"

section \<open>An app container\<close>

definition container_app_dir :: string where "container_app_dir = ''/run/app''"
definition container_app_sock :: string where "container_app_sock = ''/run/app/app.sock''"
definition container_app_root :: string where "container_app_root = ''/app''"
definition app_env_socket :: string where "app_env_socket = ''HIVE_APP_SOCKET''"
definition app_env_entry :: string where "app_env_entry = ''HIVE_APP_ENTRY''"
definition app_env_install :: string where "app_env_install = ''HIVE_APP_INSTALL''"
definition app_env_credential :: string where "app_env_credential = ''HIVE_APP_CREDENTIAL''"

record app_spec =
  as_install_id :: string
  as_app :: string
  as_runtime :: "app_runtime option"
  as_entry :: string
  as_image_digest :: string
  as_image_repository :: string
  as_env :: "(string \<times> string) list"
  as_socket_dir :: string
  as_daemon_socket :: string
  as_egress_allow :: "string list"
  as_limits :: limits
  as_idle_timeout :: nat

definition app_container_name :: "app_spec \<Rightarrow> string" where
  "app_container_name s = ''hive-sandbox-app-'' @ as_install_id s"

definition app_proxy_container_name :: "app_spec \<Rightarrow> string" where
  "app_proxy_container_name s = ''hive-sandbox-app-'' @ as_install_id s @ ''-proxy''"

definition app_egress_network_name :: "app_spec \<Rightarrow> string" where
  "app_egress_network_name s = ''hive-sandbox-app-'' @ as_install_id s @ ''-net''"

definition app_proxy_url :: "app_spec \<Rightarrow> string" where
  "app_proxy_url s = ''http://'' @ app_proxy_container_name s @ '':3128''"

definition app_image_ref :: "app_spec \<Rightarrow> string" where
  "app_image_ref s = as_image_repository s @ ''@'' @ as_image_digest s"

definition app_runtime_of :: "app_spec \<Rightarrow> spec_error + app_runtime" where
  "app_runtime_of s = (case as_runtime s of None \<Rightarrow> Inl ''runtime is required'' | Some r \<Rightarrow> Inr r)"

definition app_always_on :: "app_spec \<Rightarrow> bool" where
  "app_always_on s \<longleftrightarrow> as_idle_timeout s = 0"

definition host_path :: "string \<Rightarrow> bool" where
  "host_path v \<longleftrightarrow> v \<noteq> [] \<and> (CHR ''/'' \<in> set v \<or> CHR 0x5C \<in> set v)"

definition egress_entry_ok :: "string \<Rightarrow> bool" where
  "egress_entry_ok h \<longleftrightarrow> h \<noteq> [] \<and> \<not> list_ex is_space h \<and> CHR ''/'' \<notin> set h"

definition app_spec_validate :: "app_spec \<Rightarrow> spec_error + unit" where
  "app_spec_validate s =
     (if \<not> run_id_matches (as_install_id s) then Inl ''install_id''
      else (case app_runtime_of s of
              Inl e \<Rightarrow> Inl e
            | Inr _ \<Rightarrow>
                if \<not> validate_entry (as_entry s) then Inl ''entry''
                else if \<not> starts_with ''sha256:'' (as_image_digest s) \<or> length (as_image_digest s) \<noteq> 71
                  then Inl ''image_digest must be a sha256 digest''
                else if as_image_repository s = [] \<or> CHR ''@'' \<in> set (as_image_repository s)
                  then Inl ''image_repository is required and carries no digest of its own''
                else if \<not> host_path (as_socket_dir s) then Inl ''socket_dir''
                else if \<not> host_path (as_daemon_socket s) then Inl ''daemon_socket''
                else if \<not> list_all egress_entry_ok (as_egress_allow s) then Inl ''egress_allow entry is not a host''
                else limits_validate (as_limits s)))"

definition reserved_app_env :: "string list" where
  "reserved_app_env =
     [''HOME'', ''HIVE_SANDBOX_API_SOCKET'', app_env_socket, app_env_entry, app_env_install,
      ''HTTP_PROXY'', ''HTTPS_PROXY'', ''http_proxy'', ''https_proxy'', ''NO_PROXY'', ''no_proxy'']"

fun app_env_args :: "(string \<times> string) list \<Rightarrow> spec_error + string list" where
  "app_env_args [] = Inr []"
| "app_env_args ((k, v) # rest) =
     (if \<not> key_ok k then Inl ''invalid env key''
      else if k \<in> set reserved_app_env then Inl ''set by the launcher and cannot be overridden''
      else (case app_env_args rest of Inl e \<Rightarrow> Inl e | Inr xs \<Rightarrow> Inr (env_pair k v @ xs)))"

definition app_network_args :: "app_spec \<Rightarrow> string list" where
  "app_network_args s =
     (if as_egress_allow s = [] then [''--network'', ''none'']
      else proxy_args (app_egress_network_name s) (app_proxy_url s))"

definition app_launcher_env_args :: "app_spec \<Rightarrow> string list" where
  "app_launcher_env_args s =
     env_pair ''HOME'' container_home @ env_pair app_env_socket container_app_sock
     @ env_pair app_env_entry (as_entry s) @ env_pair app_env_install (as_install_id s)"

definition podman_app_args :: "(f64 \<Rightarrow> string) \<Rightarrow> app_spec \<Rightarrow> string list \<Rightarrow> spec_error + string list" where
  "podman_app_args show_f64 s extra =
     (case app_spec_validate s of
        Inl e \<Rightarrow> Inl e
      | Inr _ \<Rightarrow>
     (case app_runtime_of s of
        Inl e \<Rightarrow> Inl e
      | Inr rt \<Rightarrow>
     (case app_env_args (as_env s) of
        Inl e \<Rightarrow> Inl e
      | Inr env \<Rightarrow>
          Inr ([''run'', ''--detach'', ''--rm'', ''--name'', app_container_name s, ''--workdir'', container_app_root]
               @ sandbox_args show_f64 (as_limits s)
               @ [''--stop-timeout'', ''10'',
                  ''--label'', ''org.beesroadhouse.hive-sandbox.install-id='' @ as_install_id s,
                  ''--label'', ''org.beesroadhouse.hive-sandbox.app='' @ as_app s,
                  ''--label'', ''org.beesroadhouse.hive-sandbox.app-runtime='' @ app_runtime_as_str rt,
                  ''--volume'', as_socket_dir s @ '':'' @ container_app_dir @ '':rw'']
               @ socket_args (as_daemon_socket s)
               @ app_network_args s @ app_launcher_env_args s @ env @ extra @ [app_image_ref s]))))"

section \<open>What Podman reads\<close>

text \<open>
  Podman reads options until the first word that is not one: a flag of its own or a flag with the word
  after it as its value. Of several \<open>--env\<close> for one key the last one counts, and a binding is split at
  its first equals sign.
\<close>

definition bare_flags :: "string list" where
  "bare_flags = [''--rm'', ''--read-only'', ''--detach'']"

fun read_opts :: "string list \<Rightarrow> (string \<times> string) list" where
  "read_opts [] = []"
| "read_opts [f] = [(f, [])]"
| "read_opts (f # v # rest) =
     (if f \<in> set bare_flags then (f, []) # read_opts (v # rest) else (f, v) # read_opts rest)"

definition values_of :: "string \<Rightarrow> string list \<Rightarrow> string list" where
  "values_of flag opts = map snd (filter (\<lambda>p. fst p = flag) (read_opts opts))"

definition env_of :: "string list \<Rightarrow> string \<Rightarrow> string option" where
  "env_of opts k = map_of (rev (map (\<lambda>b. the (split_once (CHR ''='') b)) (values_of ''--env'' opts))) k"

definition env_words :: "(string \<times> string) list \<Rightarrow> string list" where
  "env_words env = concat (map (\<lambda>(k, v). env_pair k v) env)"

lemma split_once_binding: "CHR ''='' \<notin> set k \<Longrightarrow> split_once (CHR ''='') (k @ ''='' @ v) = Some (k, v)"
  by (induction k) auto

lemma read_env_words: "read_opts (env_words env) = map (\<lambda>(k, v). (''--env'', k @ ''='' @ v)) env"
  by (induction env) (auto simp: env_words_def env_pair_def bare_flags_def)

lemma values_env_words:
  "values_of flag (env_words env) = (if flag = ''--env'' then map (\<lambda>(k, v). k @ ''='' @ v) env else [])"
  by (induction env) (auto simp: values_of_def read_env_words)

text \<open>Options that are complete in themselves: read first, they leave the rest as it is.\<close>

definition complete :: "string list \<Rightarrow> bool" where
  "complete xs \<longleftrightarrow> (\<forall>ys. read_opts (xs @ ys) = read_opts xs @ read_opts ys)"

lemma complete_Nil [simp]: "complete []"
  by (simp add: complete_def)

lemma complete_flag [simp]: "f \<in> set bare_flags \<Longrightarrow> complete [f]"
  by (simp add: complete_def) (metis neq_Nil_conv read_opts.simps(1) read_opts.simps(2) read_opts.simps(3))

lemma complete_pair [simp]: "f \<notin> set bare_flags \<Longrightarrow> complete [f, v]"
  by (simp add: complete_def)

lemma complete_append [simp]: "complete xs \<Longrightarrow> complete ys \<Longrightarrow> complete (xs @ ys)"
  by (simp add: complete_def)

lemma complete_env_words [simp]: "complete (env_words env)"
  by (induction env) (auto simp: env_words_def env_pair_def bare_flags_def complete_def)

lemma values_append: "complete xs \<Longrightarrow> values_of f (xs @ ys) = values_of f xs @ values_of f ys"
  by (simp add: values_of_def complete_def)

lemma env_of_append: "complete xs \<Longrightarrow> env_of (xs @ ys) k = (case env_of ys k of None \<Rightarrow> env_of xs k | Some v \<Rightarrow> Some v)"
  by (simp add: env_of_def values_append map_add_def split: option.split)

lemma env_of_words: "\<forall>(k, v) \<in> set env. CHR ''='' \<notin> set k \<Longrightarrow> env_of (env_words env) = map_of (rev env)"
proof -
  assume e: "\<forall>(k, v) \<in> set env. CHR ''='' \<notin> set k"
  then have "map (\<lambda>b. the (split_once (CHR ''='') b)) (map (\<lambda>(k, v). k @ ''='' @ v) env) = env"
  proof (induction env)
    case (Cons kv env)
    then show ?case using split_once_binding by (cases kv) simp
  qed simp
  then show ?thesis by (intro ext) (simp add: env_of_def values_env_words)
qed

text \<open>
  The contract of a launcher: its own options come first, then the caller's variables, each of them
  with a proper key the launcher did not keep for itself. What follows for every launcher is proved
  here; the run and the app launcher interpret it.
\<close>

locale launcher =
  fixes build :: "'s \<Rightarrow> string list \<Rightarrow> spec_error + string list"
    and own :: "'s \<Rightarrow> string list"
    and env :: "'s \<Rightarrow> (string \<times> string) list"
    and kept :: "'s \<Rightarrow> string \<Rightarrow> bool"
    and image :: "'s \<Rightarrow> string list"
  assumes shape: "build s extra = Inr args \<Longrightarrow>
      args = ''run'' # own s @ env_words (env s) @ extra @ image s \<and> complete (own s)"
    and keys: "build s extra = Inr args \<Longrightarrow> (k, v) \<in> set (env s) \<Longrightarrow> key_ok k \<and> \<not> kept s k"
begin

text \<open>A variable the launcher keeps has the launcher's value, or none.\<close>

lemma kept_env:
  assumes "build s extra = Inr args" "kept s k"
  shows "env_of (own s @ env_words (env s)) k = env_of (own s) k"
proof -
  have "\<forall>(k, v) \<in> set (env s). CHR ''='' \<notin> set k" using keys [OF assms(1)] by (auto simp: key_ok_def)
  then have "env_of (env_words (env s)) k = map_of (rev (env s)) k" by (simp add: env_of_words)
  also have "\<dots> = None" using keys [OF assms(1)] assms(2) by (auto simp: map_of_eq_None_iff)
  finally show ?thesis using shape [OF assms(1)] by (simp add: env_of_append)
qed

text \<open>Every other option is the launcher's: the caller adds variables and nothing else.\<close>

lemma own_values:
  assumes "build s extra = Inr args" "flag \<noteq> ''--env''"
  shows "values_of flag (own s @ env_words (env s)) = values_of flag (own s)"
  using shape [OF assms(1)] assms(2) by (simp add: values_append values_env_words)

end

text \<open>Reading the launchers' own words, one option at a time.\<close>

lemma complete_cons_bare: "f \<in> set bare_flags \<Longrightarrow> complete xs \<Longrightarrow> complete (f # xs)"
  using complete_append [of "[f]" xs] by simp

lemma complete_cons_pair: "f \<notin> set bare_flags \<Longrightarrow> complete xs \<Longrightarrow> complete (f # v # xs)"
  using complete_append [of "[f, v]" xs] by simp

lemma values_cons_bare: "f \<in> set bare_flags \<Longrightarrow> values_of g (f # xs) = (if f = g then [[]] else []) @ values_of g xs"
  using values_append [of "[f]" g xs] by (simp add: values_of_def)

lemma values_cons_pair: "f \<notin> set bare_flags \<Longrightarrow> values_of g (f # v # xs) = (if f = g then [v] else []) @ values_of g xs"
  using values_append [of "[f, v]" g xs] by (simp add: values_of_def)

lemma values_Nil: "values_of g [] = []"
  by (simp add: values_of_def)

lemma complete_env_pair: "complete (env_pair k v)"
  by (simp add: env_pair_def bare_flags_def)

lemma values_env_pair: "values_of g (env_pair k v @ xs) = (if g = ''--env'' then [k @ ''='' @ v] else []) @ values_of g xs"
  by (simp add: env_pair_def values_cons_pair bare_flags_def)

lemma env_of_other: "f \<noteq> ''--env'' \<Longrightarrow> f \<notin> set bare_flags \<Longrightarrow> env_of (f # v # xs) k = env_of xs k"
  by (simp add: env_of_def values_cons_pair)

lemma env_of_bare: "f \<in> set bare_flags \<Longrightarrow> env_of (f # xs) k = env_of xs k"
  by (auto simp: env_of_def values_cons_bare bare_flags_def)

lemma env_of_pair:
  "CHR ''='' \<notin> set j \<Longrightarrow>
   env_of (env_pair j v @ xs) k = (case env_of xs k of None \<Rightarrow> if k = j then Some v else None | Some w \<Rightarrow> Some w)"
  using env_of_append [OF complete_env_pair, of j v xs k] split_once_binding [of j v]
    values_env_pair [of "''--env''" j v "[]"]
  by (simp add: env_of_def [of "env_pair j v"] values_Nil split: option.split)

lemma values_env_pair_end: "values_of g (env_pair k v) = (if g = ''--env'' then [k @ ''='' @ v] else [])"
  using values_env_pair [of g k v "[]"] by (simp add: values_Nil)

lemma env_of_Nil: "env_of [] k = None"
  by (simp add: env_of_def values_Nil)

lemma env_of_pair_end: "CHR ''='' \<notin> set j \<Longrightarrow> env_of (env_pair j v) k = (if k = j then Some v else None)"
  using env_of_pair [of j v "[]" k] by (simp add: env_of_Nil)

lemma bare_flag_iff: "f \<in> set bare_flags \<longleftrightarrow> f = ''--rm'' \<or> f = ''--read-only'' \<or> f = ''--detach''"
  by (simp add: bare_flags_def)

lemmas read_words = complete_cons_bare complete_cons_pair values_cons_bare values_cons_pair values_Nil values_env_pair
  env_of_other env_of_bare env_of_pair env_of_Nil values_env_pair_end env_of_pair_end bare_flag_iff

definition run_own :: "(f64 \<Rightarrow> string) \<Rightarrow> run_spec \<Rightarrow> string list" where
  "run_own show_f64 s =
     [''--rm'', ''--name'', container_name s, ''--workdir'', container_workspace]
     @ sandbox_args show_f64 (spec_limits s)
     @ [''--label'', ''org.beesroadhouse.hive-sandbox.run-id='' @ spec_run_id s,
        ''--label'', ''org.beesroadhouse.hive-sandbox.runtime='' @ runtime_as_str (the (spec_runtime s)),
        ''--volume'', spec_workspace_dir s @ '':'' @ container_workspace @ '':rw'']
     @ projr (config_args s (the (spec_runtime s))) @ network_args s @ launcher_env_args s"

definition run_keeps :: "run_spec \<Rightarrow> string \<Rightarrow> bool" where
  "run_keeps s k \<longleftrightarrow> k \<in> set reserved_env \<or> k \<in> set forbidden_env \<or> spec_config_dir s \<noteq> [] \<and> k \<in> set provider_key_env"

lemma env_args_ok:
  "env_args s env = Inr xs \<Longrightarrow> xs = env_words env \<and> (\<forall>(k, v) \<in> set env. key_ok k \<and> \<not> run_keeps s k)"
  by (induction env arbitrary: xs) (auto simp: env_words_def run_keeps_def split: if_splits sum.splits)

lemma app_env_args_ok:
  "app_env_args env = Inr xs \<Longrightarrow> xs = env_words env \<and> (\<forall>(k, v) \<in> set env. key_ok k \<and> k \<notin> set reserved_app_env)"
  by (induction env arbitrary: xs) (auto simp: env_words_def split: if_splits sum.splits)

lemma complete_sandbox [simp]: "complete (sandbox_args show_f64 l)"
  by (simp add: sandbox_args_def read_words)

lemma complete_proxy [simp]: "complete (proxy_args n p)"
  by (simp add: proxy_args_def complete_env_pair read_words)

lemma complete_socket [simp]: "complete (socket_args x)"
  by (simp add: socket_args_def complete_env_pair read_words)

lemma complete_config: "config_args s rt = Inr c \<Longrightarrow> complete c"
  by (auto simp: config_args_def complete_env_pair read_words split: if_splits option.splits)

lemma complete_network [simp]: "complete (network_args s)"
  by (cases "spec_network s") (simp_all add: network_args_def read_words)

lemma complete_launcher_env [simp]: "complete (launcher_env_args s)"
  by (simp add: launcher_env_args_def complete_env_pair)

lemma podman_run_args_ok:
  assumes "podman_run_args show_f64 s extra = Inr args"
  obtains rt config where "spec_validate s = Inr ()" "spec_runtime s = Some rt" "config_args s rt = Inr config"
    "env_args s (spec_env s) = Inr (env_words (spec_env s))"
    "args = ''run'' # run_own show_f64 s @ env_words (spec_env s) @ extra @ image_ref s # spec_args s"
proof -
  from assms obtain u where v: "spec_validate s = Inr u"
    by (auto simp: podman_run_args_def split: sum.split_asm)
  from spec_validate_ok(2) [OF v] obtain rt where rt: "spec_runtime s = Some rt" by blast
  then have "spec_runtime_of s = Inr rt" by (simp add: spec_runtime_of_def)
  with assms v obtain config env where c: "config_args s rt = Inr config" "env_args s (spec_env s) = Inr env"
    by (auto simp: podman_run_args_def split: sum.split_asm)
  with assms v rt \<open>spec_runtime_of s = Inr rt\<close> env_args_ok [OF c(2)]
  have "args = ''run'' # run_own show_f64 s @ env_words (spec_env s) @ extra @ image_ref s # spec_args s"
    by (simp add: podman_run_args_def run_own_def)
  with that v rt c env_args_ok [OF c(2)] show thesis by simp
qed

interpretation rl: launcher "podman_run_args show_f64" "run_own show_f64" spec_env run_keeps "\<lambda>s. image_ref s # spec_args s"
proof
  fix s extra args k v
  assume b: "podman_run_args show_f64 s extra = Inr args"
  then obtain rt config where r: "spec_runtime s = Some rt" "config_args s rt = Inr config"
    "env_args s (spec_env s) = Inr (env_words (spec_env s))"
    "args = ''run'' # run_own show_f64 s @ env_words (spec_env s) @ extra @ image_ref s # spec_args s"
    by (rule podman_run_args_ok)
  have "complete (run_own show_f64 s)"
    using complete_config [OF r(2)] by (simp add: run_own_def r(1,2) read_words)
  with r(4) show "args = ''run'' # run_own show_f64 s @ env_words (spec_env s) @ extra @ (image_ref s # spec_args s) \<and>
      complete (run_own show_f64 s)" by simp
  assume "(k, v) \<in> set (spec_env s)"
  with env_args_ok [OF r(3)] show "key_ok k \<and> \<not> run_keeps s k" by auto
qed

lemma config_args_cases:
  assumes "config_args s rt = Inr c"
  obtains "spec_config_dir s = []" "c = []"
  | var path where "spec_config_dir s \<noteq> []" "config_env rt = Some (var, path)"
      "c = [''--volume'', spec_config_dir s @ '':'' @ path @ '':rw''] @ env_pair var path"
  using assms by (auto simp: config_args_def split: if_splits option.splits)

text \<open>The launcher's own options of a run, part by part and flag by flag.\<close>

lemma launcher_env_flags: "g \<noteq> ''--env'' \<Longrightarrow> values_of g (launcher_env_args s) = []"
  by (simp add: launcher_env_args_def read_words)

lemma config_flags:
  assumes "config_args s rt = Inr c" "g \<noteq> ''--env''"
  shows "values_of g c = (if g = ''--volume'' \<and> spec_config_dir s \<noteq> []
    then [spec_config_dir s @ '':'' @ snd (the (config_env rt)) @ '':rw''] else [])"
  using assms(1) by (cases rule: config_args_cases) (use assms(2) in \<open>simp_all add: read_words\<close>)

lemma network_flags:
  assumes "g \<noteq> ''--env''"
  shows "values_of g (network_args s) =
    (if g = ''--network'' then [if spec_network s = NetProxied then egress_network_name s else ''none'']
     else if g = ''--volume'' \<and> (spec_network s = NetDaemon \<or> spec_network s = NetProxied \<and> spec_daemon_socket s \<noteq> [])
     then [spec_daemon_socket s @ '':/run/hive-sandbox/api.sock:rw''] else [])"
  using assms
  by (cases "spec_network s")
     (simp_all add: network_args_def proxy_args_def socket_args_def read_words container_daemon_sock_def)

lemma run_own_flag:
  assumes "spec_runtime s = Some rt" "config_args s rt = Inr c"
  shows "values_of g (run_own show_f64 s) =
    values_of g [''--rm'', ''--name'', container_name s, ''--workdir'', container_workspace]
    @ values_of g (sandbox_args show_f64 (spec_limits s))
    @ values_of g [''--label'', ''org.beesroadhouse.hive-sandbox.run-id='' @ spec_run_id s,
        ''--label'', ''org.beesroadhouse.hive-sandbox.runtime='' @ runtime_as_str rt,
        ''--volume'', spec_workspace_dir s @ '':'' @ container_workspace @ '':rw'']
    @ values_of g c @ values_of g (network_args s) @ values_of g (launcher_env_args s)"
  unfolding run_own_def assms option.sel sum.sel
  by (subst values_append; (simp add: read_words; fail)?)+ (simp_all add: complete_config [OF assms(2)] values_append)

lemma run_own_flags:
  assumes "spec_runtime s = Some rt" "config_args s rt = Inr c"
  shows "values_of ''--network'' (run_own show_f64 s) =
      [if spec_network s = NetProxied then egress_network_name s else ''none'']"
    "values_of ''--cap-drop'' (run_own show_f64 s) = [''ALL'']"
    "values_of ''--read-only'' (run_own show_f64 s) = [[]]"
    "values_of ''--security-opt'' (run_own show_f64 s) = [''no-new-privileges'']"
    "values_of ''--user'' (run_own show_f64 s) = [show_nat 1001 @ '':'' @ show_nat 1001]"
    "values_of ''--tmpfs'' (run_own show_f64 s) =
      [''/tmp:rw,nosuid,nodev,size=512m'', ''/home/harness:rw,nosuid,nodev,size=256m'']"
    "values_of ''--volume'' (run_own show_f64 s) =
      [spec_workspace_dir s @ '':/workspace:rw'']
      @ (if spec_config_dir s = [] then [] else [spec_config_dir s @ '':'' @ snd (the (config_env rt)) @ '':rw''])
      @ (if spec_network s = NetDaemon \<or> spec_network s = NetProxied \<and> spec_daemon_socket s \<noteq> []
         then [spec_daemon_socket s @ '':/run/hive-sandbox/api.sock:rw''] else [])"
  unfolding run_own_flag [OF assms]
  by (simp_all add: config_flags [OF assms(2)] network_flags launcher_env_flags sandbox_args_def read_words
      container_uid_def container_gid_def container_workspace_def container_tmp_size_def container_home_def
      container_home_tmp_size_def)

definition run_flags :: "string list" where
  "run_flags = [''--rm'', ''--name'', ''--workdir'', ''--userns'', ''--user'', ''--read-only'', ''--cap-drop'', ''--security-opt'',
     ''--tmpfs'', ''--memory'', ''--cpus'', ''--pids-limit'', ''--label'', ''--volume'', ''--network'', ''--env'']"

lemma run_own_no_other:
  assumes "spec_runtime s = Some rt" "config_args s rt = Inr c" "g \<notin> set run_flags"
  shows "values_of g (run_own show_f64 s) = []"
proof -
  have "\<forall>f \<in> set run_flags. g \<noteq> f \<and> f \<noteq> g" using assms(3) by blast
  then show ?thesis
    unfolding run_own_flag [OF assms(1,2)]
    by (simp add: run_flags_def config_flags [OF assms(2)] network_flags launcher_env_flags sandbox_args_def read_words)
qed

lemma config_path:
  assumes "config_args s rt = Inr c" "spec_config_dir s \<noteq> []"
  shows "snd (the (config_env rt)) = (if rt = Codex then ''/config/codex'' else ''/config/claude'')"
  using assms by (cases rt) (simp_all add: config_args_def)

text \<open>The launcher's own variables of a run.\<close>

lemma launcher_env_env:
  "env_of (launcher_env_args s) k =
     (if k = ''HOME'' then Some container_home else if k = ''NPM_CONFIG_CACHE'' then Some ''/tmp/npm-cache''
      else if k = ''HIVE_SANDBOX_RUN_ID'' then Some (spec_run_id s)
      else if k = ''HIVE_SANDBOX_MODEL'' \<and> spec_model s \<noteq> [] then Some (spec_model s)
      else if k = ''HIVE_SANDBOX_SESSION_ID'' \<and> spec_session_id s \<noteq> [] then Some (spec_session_id s) else None)"
  by (auto simp: launcher_env_args_def read_words)

lemma config_env_env:
  "config_args s rt = Inr c \<Longrightarrow> k \<notin> {''CLAUDE_CONFIG_DIR'', ''CODEX_HOME''} \<Longrightarrow> env_of c k = None"
  by (cases rt) (auto simp: config_args_def read_words split: if_splits)

lemma network_env:
  "env_of (network_args s) k =
     (if k = ''HIVE_SANDBOX_API_SOCKET'' \<and> (spec_network s = NetDaemon \<or> spec_network s = NetProxied \<and> spec_daemon_socket s \<noteq> [])
      then Some container_daemon_sock
      else if spec_network s \<noteq> NetProxied then None
      else if k \<in> {''HTTP_PROXY'', ''HTTPS_PROXY'', ''http_proxy'', ''https_proxy''} then Some (proxy_url s)
      else if k \<in> {''NO_PROXY'', ''no_proxy''} then Some ''localhost,127.0.0.1'' else None)"
  by (cases "spec_network s") (auto simp: network_args_def proxy_args_def socket_args_def read_words)

lemma run_own_env_of:
  assumes "spec_runtime s = Some rt" "config_args s rt = Inr c"
  shows "env_of (run_own show_f64 s) k =
    (case env_of (launcher_env_args s) k of Some v \<Rightarrow> Some v
     | None \<Rightarrow> (case env_of (network_args s) k of Some v \<Rightarrow> Some v | None \<Rightarrow> env_of c k))"
proof -
  have "env_of (sandbox_args show_f64 l @ xs) k = env_of xs k" for l xs
    by (simp add: sandbox_args_def read_words)
  then have "env_of (run_own show_f64 s) k = env_of (c @ network_args s @ launcher_env_args s) k"
    unfolding run_own_def assms option.sel sum.sel by (simp add: read_words)
  also have "\<dots> = (case env_of (launcher_env_args s) k of Some v \<Rightarrow> Some v
     | None \<Rightarrow> (case env_of (network_args s) k of Some v \<Rightarrow> Some v | None \<Rightarrow> env_of c k))"
    by (simp add: env_of_append complete_config [OF assms(2)] split: option.split)
  finally show ?thesis .
qed

lemma run_own_env:
  assumes "spec_runtime s = Some rt" "config_args s rt = Inr c"
  shows "env_of (run_own show_f64 s) ''HOME'' = Some ''/home/harness''"
    "k \<in> {''HTTP_PROXY'', ''HTTPS_PROXY'', ''http_proxy'', ''https_proxy''} \<Longrightarrow>
       env_of (run_own show_f64 s) k = (if spec_network s = NetProxied then Some (proxy_url s) else None)"
    "k \<in> set forbidden_env \<union> set provider_key_env \<Longrightarrow> env_of (run_own show_f64 s) k = None"
proof -
  note e = run_own_env_of [OF assms] launcher_env_env network_env config_env_env [OF assms(2)]
  show "env_of (run_own show_f64 s) ''HOME'' = Some ''/home/harness''"
    by (simp add: e container_home_def)
  show "env_of (run_own show_f64 s) k = (if spec_network s = NetProxied then Some (proxy_url s) else None)"
    if "k \<in> {''HTTP_PROXY'', ''HTTPS_PROXY'', ''http_proxy'', ''https_proxy''}"
    using that by (elim insertE emptyE) (simp_all add: e)
  show "env_of (run_own show_f64 s) k = None" if "k \<in> set forbidden_env \<union> set provider_key_env"
    using that unfolding forbidden_env_def provider_key_env_def list.set Un_insert_left Un_empty_left
    by (elim insertE emptyE) (simp_all add: e)
qed

text \<open>
  C35: A run is isolated whatever its spec says. Every command line the launcher accepts to build reads,
  before the operator's own extra words and the pinned image, as these options and no other: one network
  (none at all, or the run's own internal one and then only with an allowlist), no capabilities, a
  read-only root, no new privileges, the fixed user, memory file systems at the scratch directory and at
  home, and as mounts exactly the workspace, the person's config volume at the fixed path of the runtime
  if there is one, and the daemon's socket where the network mode has it; home is the memory file system,
  the proxy variables are the launcher's, no subscription token is passed, and beside a config volume no
  provider key. The operator's words, of which the daemon passes none, are read after these as they
  stand: they are the operator's to answer for, swallow none of these, and nothing of the spec gets there.
\<close>

theorem agent_run_is_isolated:
  assumes "podman_run_args show_f64 s extra = Inr args"
  shows "\<exists>opts. args = ''run'' # opts @ extra @ image_ref s # spec_args s \<and> spec_image_digest s \<noteq> [] \<and>
    read_opts (opts @ extra) = read_opts opts @ read_opts extra \<and>
    (\<forall>flag. values_of flag opts \<noteq> [] \<longrightarrow> flag \<in> set run_flags) \<and>
    values_of ''--network'' opts = [if spec_network s = NetProxied then egress_network_name s else ''none''] \<and>
    (spec_network s = NetProxied \<longrightarrow> spec_egress_allow s \<noteq> []) \<and>
    values_of ''--cap-drop'' opts = [''ALL''] \<and> values_of ''--read-only'' opts = [[]] \<and>
    values_of ''--security-opt'' opts = [''no-new-privileges''] \<and>
    values_of ''--user'' opts = [show_nat 1001 @ '':'' @ show_nat 1001] \<and>
    values_of ''--tmpfs'' opts = [''/tmp:rw,nosuid,nodev,size=512m'', ''/home/harness:rw,nosuid,nodev,size=256m''] \<and>
    values_of ''--volume'' opts =
      [spec_workspace_dir s @ '':/workspace:rw'']
      @ (if spec_config_dir s = [] then []
         else [spec_config_dir s @ '':'' @ (if spec_runtime s = Some Codex then ''/config/codex'' else ''/config/claude'') @ '':rw''])
      @ (if spec_network s = NetDaemon \<or> spec_network s = NetProxied \<and> spec_daemon_socket s \<noteq> []
         then [spec_daemon_socket s @ '':/run/hive-sandbox/api.sock:rw''] else []) \<and>
    env_of opts ''HOME'' = Some ''/home/harness'' \<and> env_of opts ''CLAUDE_CODE_OAUTH_TOKEN'' = None \<and>
    (\<forall>k. k \<in> {''HTTP_PROXY'', ''HTTPS_PROXY'', ''http_proxy'', ''https_proxy''} \<longrightarrow>
       env_of opts k = (if spec_network s = NetProxied then Some (proxy_url s) else None)) \<and>
    (spec_config_dir s \<noteq> [] \<longrightarrow> (\<forall>k \<in> set provider_key_env. env_of opts k = None))"
proof -
  from assms obtain rt config where r: "spec_validate s = Inr ()" "spec_runtime s = Some rt" "config_args s rt = Inr config"
    by (rule podman_run_args_ok)
  let ?o = "run_own show_f64 s @ env_words (spec_env s)"
  have "args = ''run'' # ?o @ extra @ image_ref s # spec_args s" using rl.shape [OF assms] by simp
  moreover have "spec_image_digest s \<noteq> []" by (rule spec_validate_ok(3) [OF r(1)])
  moreover have "complete ?o" using rl.shape [OF assms] by simp
  then have "read_opts (?o @ extra) = read_opts ?o @ read_opts extra" by (simp add: complete_def)
  moreover have "flag \<in> set run_flags" if "values_of flag ?o \<noteq> []" for flag
    using that rl.own_values [OF assms, of flag] run_own_no_other [OF r(2,3), of flag show_f64]
    by (cases "flag = ''--env''") (auto simp: run_flags_def)
  moreover have "spec_network s = NetProxied \<longrightarrow> spec_egress_allow s \<noteq> []"
    using spec_validate_ok(7) [OF r(1)] by (auto simp: network_validate_def split: if_splits)
  moreover have
    "values_of ''--network'' ?o = [if spec_network s = NetProxied then egress_network_name s else ''none'']"
    "values_of ''--cap-drop'' ?o = [''ALL'']" "values_of ''--read-only'' ?o = [[]]"
    "values_of ''--security-opt'' ?o = [''no-new-privileges'']"
    "values_of ''--user'' ?o = [show_nat 1001 @ '':'' @ show_nat 1001]"
    "values_of ''--tmpfs'' ?o = [''/tmp:rw,nosuid,nodev,size=512m'', ''/home/harness:rw,nosuid,nodev,size=256m'']"
    by (subst rl.own_values [OF assms], simp, rule run_own_flags [OF r(2,3)])+
  moreover have "values_of ''--volume'' ?o =
      [spec_workspace_dir s @ '':/workspace:rw'']
      @ (if spec_config_dir s = [] then []
         else [spec_config_dir s @ '':'' @ (if spec_runtime s = Some Codex then ''/config/codex'' else ''/config/claude'') @ '':rw''])
      @ (if spec_network s = NetDaemon \<or> spec_network s = NetProxied \<and> spec_daemon_socket s \<noteq> []
         then [spec_daemon_socket s @ '':/run/hive-sandbox/api.sock:rw''] else [])"
    unfolding rl.own_values [OF assms, of "''--volume''", simplified] run_own_flags(7) [OF r(2,3)]
    using config_path [OF r(3)] r(2) by simp
  moreover have "env_of ?o ''HOME'' = Some ''/home/harness''"
    using rl.kept_env [OF assms, of "''HOME''"] run_own_env(1) [OF r(2,3)] by (simp add: run_keeps_def reserved_env_def)
  moreover have "env_of ?o ''CLAUDE_CODE_OAUTH_TOKEN'' = None"
    using rl.kept_env [OF assms, of "''CLAUDE_CODE_OAUTH_TOKEN''"] run_own_env(3) [OF r(2,3), of _ show_f64]
    by (simp add: run_keeps_def forbidden_env_def)
  moreover have "env_of ?o k = (if spec_network s = NetProxied then Some (proxy_url s) else None)"
    if k: "k \<in> {''HTTP_PROXY'', ''HTTPS_PROXY'', ''http_proxy'', ''https_proxy''}" for k
  proof -
    from k have "run_keeps s k" by (elim insertE emptyE) (simp_all add: run_keeps_def reserved_env_def)
    from rl.kept_env [OF assms this] run_own_env(2) [OF r(2,3) k] show ?thesis by simp
  qed
  moreover have "env_of ?o k = None" if "spec_config_dir s \<noteq> []" "k \<in> set provider_key_env" for k
    using rl.kept_env [OF assms, of k] run_own_env(3) [OF r(2,3), of k] that by (simp add: run_keeps_def)
  ultimately show ?thesis by (intro exI [of _ ?o] conjI) blast+
qed

definition sample_run_spec :: run_spec where
  "sample_run_spec = run_spec_default\<lparr>spec_run_id := ''r1'', spec_runtime := Some Claude, spec_image_digest := ''sha256:aa'',
     spec_workspace_dir := ''/ws'', spec_limits := default_limits, spec_deadline := 60, spec_network := NetProxied,
     spec_egress_allow := [''api.example.com''], spec_env := [(''KEY'', ''v'')]\<rparr>"

theorem agent_run_is_isolated_witness:
  "\<exists>opts args. podman_run_args (\<lambda>_. ''0.5'') sample_run_spec [] = Inr args \<and>
     args = ''run'' # opts @ [''localhost/hive-sandbox-harness@sha256:aa''] \<and>
     values_of ''--network'' opts = [''hive-sandbox-egress-r1''] \<and> env_of opts ''HOME'' = Some ''/home/harness''"
proof -
  let ?r = "podman_run_args (\<lambda>_. ''0.5'') sample_run_spec []"
  have "\<not> isl ?r" by code_simp
  then have "?r = Inr (projr ?r)" by simp
  from agent_run_is_isolated [OF this] obtain opts where
    o: "projr ?r = ''run'' # opts @ [] @ image_ref sample_run_spec # spec_args sample_run_spec"
      "values_of ''--network'' opts = [if spec_network sample_run_spec = NetProxied then egress_network_name sample_run_spec else ''none'']"
      "env_of opts ''HOME'' = Some ''/home/harness''" by blast
  have e: "image_ref sample_run_spec = ''localhost/hive-sandbox-harness@sha256:aa''" "spec_args sample_run_spec = []"
    "spec_network sample_run_spec = NetProxied" "egress_network_name sample_run_spec = ''hive-sandbox-egress-r1''" by code_simp+
  show ?thesis using \<open>?r = Inr (projr ?r)\<close> o unfolding e append_Nil by auto
qed

section \<open>App containers read the same way\<close>

definition app_own :: "(f64 \<Rightarrow> string) \<Rightarrow> app_spec \<Rightarrow> string list" where
  "app_own show_f64 s =
     [''--detach'', ''--rm'', ''--name'', app_container_name s, ''--workdir'', container_app_root]
     @ sandbox_args show_f64 (as_limits s)
     @ [''--stop-timeout'', ''10'',
        ''--label'', ''org.beesroadhouse.hive-sandbox.install-id='' @ as_install_id s,
        ''--label'', ''org.beesroadhouse.hive-sandbox.app='' @ as_app s,
        ''--label'', ''org.beesroadhouse.hive-sandbox.app-runtime='' @ app_runtime_as_str (the (as_runtime s)),
        ''--volume'', as_socket_dir s @ '':'' @ container_app_dir @ '':rw'']
     @ socket_args (as_daemon_socket s) @ app_network_args s @ app_launcher_env_args s"

lemma complete_app_own: "complete (app_own show_f64 s)"
  unfolding app_own_def app_network_args_def app_launcher_env_args_def
  by (simp add: read_words complete_env_pair)

interpretation al: launcher "podman_app_args show_f64" "app_own show_f64" as_env "\<lambda>s k. k \<in> set reserved_app_env" "\<lambda>s. [app_image_ref s]"
proof
  fix s extra args k v
  assume b: "podman_app_args show_f64 s extra = Inr args"
  then obtain rt env where r: "as_runtime s = Some rt" "app_env_args (as_env s) = Inr env"
    by (auto simp: podman_app_args_def app_runtime_of_def split: sum.split_asm option.split_asm)
  have "args = ''run'' # app_own show_f64 s @ env_words (as_env s) @ extra @ [app_image_ref s]"
    using b r app_env_args_ok [OF r(2)]
    by (simp add: podman_app_args_def app_runtime_of_def app_own_def split: sum.split_asm)
  with complete_app_own
  show "args = ''run'' # app_own show_f64 s @ env_words (as_env s) @ extra @ [app_image_ref s] \<and> complete (app_own show_f64 s)"
    by blast
  assume "(k, v) \<in> set (as_env s)"
  with app_env_args_ok [OF r(2)] show "key_ok k \<and> k \<notin> set reserved_app_env" by auto
qed

lemma app_network:
  assumes "podman_app_args show_f64 s extra = Inr args"
  shows "values_of ''--network'' (app_own show_f64 s @ env_words (as_env s)) =
    [if as_egress_allow s = [] then ''none'' else app_egress_network_name s]"
  unfolding al.own_values [OF assms, of "''--network''", simplified]
  by (simp add: app_own_def sandbox_args_def socket_args_def app_network_args_def proxy_args_def app_launcher_env_args_def read_words)

lemma app_install_variable:
  assumes "podman_app_args show_f64 s extra = Inr args"
  shows "env_of (app_own show_f64 s @ env_words (as_env s)) app_env_install = Some (as_install_id s)"
proof -
  have "env_of (app_launcher_env_args s) app_env_install = Some (as_install_id s)"
    by (simp add: app_launcher_env_args_def app_env_install_def app_env_socket_def app_env_entry_def read_words)
  moreover have "\<exists>xs. complete xs \<and> app_own show_f64 s = xs @ app_launcher_env_args s"
    unfolding app_own_def
    by (rule exI [of _ "[''--detach'', ''--rm'', ''--name'', app_container_name s, ''--workdir'', container_app_root]
      @ sandbox_args show_f64 (as_limits s)
      @ [''--stop-timeout'', ''10'',
         ''--label'', ''org.beesroadhouse.hive-sandbox.install-id='' @ as_install_id s,
         ''--label'', ''org.beesroadhouse.hive-sandbox.app='' @ as_app s,
         ''--label'', ''org.beesroadhouse.hive-sandbox.app-runtime='' @ app_runtime_as_str (the (as_runtime s)),
         ''--volume'', as_socket_dir s @ '':'' @ container_app_dir @ '':rw'']
      @ socket_args (as_daemon_socket s) @ app_network_args s"])
       (simp add: read_words complete_env_pair app_network_args_def)
  moreover have "app_env_install \<in> set reserved_app_env" by (simp add: reserved_app_env_def)
  ultimately show ?thesis using al.kept_env [OF assms] env_of_append by force
qed

text \<open>
  Unlike the names of a run, the names of an app container are not apart: the container of one install
  can be called what the proxy of another is, for ids the pattern accepts.
\<close>

lemma app_names_meet:
  "run_id_matches i \<Longrightarrow> length i \<le> 57 \<Longrightarrow>
   run_id_matches (i @ ''-proxy'') \<and>
   app_container_name (s\<lparr>as_install_id := i @ ''-proxy''\<rparr>) = app_proxy_container_name (s\<lparr>as_install_id := i\<rparr>)"
proof -
  assume i: "run_id_matches i" "length i \<le> 57"
  have "list_all run_id_char ''-proxy''" by code_simp
  then have "run_id_matches (i @ ''-proxy'')"
    using i by (auto simp: run_id_matches_def split: list.splits)
  then show ?thesis by (simp add: app_container_name_def app_proxy_container_name_def)
qed

section \<open>Talking to Podman\<close>

datatype run_error = SpecErr spec_error | RunInFlight string | LauncherErr string | EgressNoImage
  | RecordErr string | RecordFinishErr string | StartErr string | DrainErr string

datatype cmd_output = CmdError string | CmdOut bool string string

type_synonym podman = "string list list \<Rightarrow> string list \<Rightarrow> cmd_output"

record podman_launcher =
  pl_binary :: string
  pl_extra_args :: "string list"
  pl_egress_image :: string
  pl_egress_uplink :: string
  pl_egress_dns :: "string list"

definition default_egress_dns :: "string list" where "default_egress_dns = [''1.1.1.1'', ''9.9.9.9'']"

definition launcher_binary :: "podman_launcher \<Rightarrow> string" where
  "launcher_binary l = (if pl_binary l = [] then ''podman'' else pl_binary l)"

definition launcher_egress_uplink :: "podman_launcher \<Rightarrow> string" where
  "launcher_egress_uplink l = (if pl_egress_uplink l = [] then ''podman'' else pl_egress_uplink l)"

definition launcher_egress_dns :: "podman_launcher \<Rightarrow> string list" where
  "launcher_egress_dns l = (if pl_egress_dns l = [] then default_egress_dns else pl_egress_dns l)"

fun contains_str :: "string \<Rightarrow> string \<Rightarrow> bool" where
  "contains_str p [] = (p = [])"
| "contains_str p (c # s) = (starts_with p (c # s) \<or> contains_str p s)"

definition is_no_such_container :: "string \<Rightarrow> bool" where
  "is_no_such_container out =
     (let l = to_ascii_lowercase out in contains_str ''no such container'' l \<or> contains_str ''no container with name'' l)"

definition is_no_such_network :: "string \<Rightarrow> bool" where
  "is_no_such_network out =
     (let l = to_ascii_lowercase out in contains_str ''no such network'' l \<or> contains_str ''network not found'' l)"

definition proxy_is_listening :: "string \<Rightarrow> bool" where
  "proxy_is_listening logs \<longleftrightarrow>
     contains_str ''role=egress-proxy'' logs \<or> contains_str (''role='' @ [CHR 0x22] @ ''egress-proxy'' @ [CHR 0x22]) logs"

definition rm_args :: "string \<Rightarrow> string list" where
  "rm_args name = [''rm'', ''--force'', ''--time'', ''5'', name]"

definition network_rm_args :: "string \<Rightarrow> string list" where
  "network_rm_args name = [''network'', ''rm'', ''--force'', name]"

definition inspect_args :: "string \<Rightarrow> string \<Rightarrow> string list" where
  "inspect_args what name = [''inspect'', ''--type'', ''container'', ''--format'', what, name]"

definition removal_error :: "string \<Rightarrow> (string \<Rightarrow> bool) \<Rightarrow> cmd_output \<Rightarrow> run_error option" where
  "removal_error what gone out =
     (case out of
        CmdOut True _ _ \<Rightarrow> None
      | CmdOut False _ err \<Rightarrow> if gone err then None else Some (LauncherErr (what @ '': '' @ trim err))
      | CmdError e \<Rightarrow> Some (LauncherErr (what @ '': '' @ e)))"

definition stop_egress :: "podman \<Rightarrow> string list list \<Rightarrow> run_spec \<Rightarrow> string list list \<times> run_error option" where
  "stop_egress po h s =
     (let c1 = rm_args (proxy_container_name s); o1 = po h c1; h1 = h @ [c1];
          c2 = network_rm_args (egress_network_name s); o2 = po h1 c2
      in (h1 @ [c2],
          case removal_error ''remove egress proxy'' is_no_such_container o1 of
            Some e \<Rightarrow> Some e
          | None \<Rightarrow> removal_error ''remove egress network'' is_no_such_network o2))"

definition container_running :: "podman \<Rightarrow> string list list \<Rightarrow> string \<Rightarrow> string list list \<times> bool" where
  "container_running po h name =
     (let c = inspect_args ''{{.State.Running}}'' name
      in (h @ [c], case po h c of CmdOut True out _ \<Rightarrow> trim out = ''true'' | _ \<Rightarrow> False))"

text \<open>The loop runs as often as the clock is found before the deadline.\<close>

fun wait_for_proxy :: "podman \<Rightarrow> run_spec \<Rightarrow> nat \<Rightarrow> string list list \<Rightarrow> string list list \<times> run_error option" where
  "wait_for_proxy po s 0 h = (h, Some (LauncherErr ''egress proxy did not listen''))"
| "wait_for_proxy po s (Suc n) h =
     (let name = proxy_container_name s; c = [''logs'', name]; o1 = po h c; h1 = h @ [c] in
      if (case o1 of CmdOut True out err \<Rightarrow> proxy_is_listening (out @ err) | _ \<Rightarrow> False) then (h1, None)
      else (case container_running po h1 name of
              (h2, True) \<Rightarrow> wait_for_proxy po s n h2
            | (h2, False) \<Rightarrow>
                (h2 @ [inspect_args ''{{.State.ExitCode}}'' name],
                 Some (LauncherErr ''egress proxy exited before listening''))))"

definition proxy_run_args :: "podman_launcher \<Rightarrow> run_spec \<Rightarrow> string list" where
  "proxy_run_args l s =
     [''run'', ''--detach'', ''--name'', proxy_container_name s, ''--network'', egress_network_name s,
      ''--network'', launcher_egress_uplink l, ''--read-only'', ''--cap-drop'', ''ALL'',
      ''--security-opt'', ''no-new-privileges'', ''--memory'', ''128m'', ''--cpus'', ''0.5'', ''--pids-limit'', ''64'',
      ''--label'', ''org.beesroadhouse.hive-sandbox.run-id='' @ spec_run_id s,
      ''--label'', ''org.beesroadhouse.hive-sandbox.component=egress-proxy'']
     @ env_pair ''HIVE_SANDBOX_RUN_ID'' (spec_run_id s)
     @ env_pair ''HIVE_SANDBOX_EGRESS_ALLOW'' (join_with (CHR '','') (spec_egress_allow s))
     @ [pl_egress_image l]
     @ concat (map (\<lambda>d. [''--egress-dns'', d]) (launcher_egress_dns l))
     @ (if spec_egress_allow_private s then [''--egress-allow-private''] else [])"

definition start_egress ::
  "podman \<Rightarrow> podman_launcher \<Rightarrow> nat \<Rightarrow> string list list \<Rightarrow> run_spec \<Rightarrow> string list list \<times> run_error option" where
  "start_egress po l waits h s =
     (if pl_egress_image l = [] then (h, Some EgressNoImage)
      else
        (let h1 = fst (stop_egress po h s);
             c = [''network'', ''create'', ''--internal'', egress_network_name s]; o1 = po h1 c; h2 = h1 @ [c];
             r = proxy_run_args l s; o2 = po h2 r; h3 = h2 @ [r]
         in case o1 of
              CmdError e \<Rightarrow> (h2, Some (LauncherErr (''create network: '' @ e)))
            | CmdOut False _ err \<Rightarrow> (h2, Some (LauncherErr (''create network: '' @ trim err)))
            | CmdOut True _ _ \<Rightarrow>
                (case o2 of
                   CmdError e \<Rightarrow> (h3, Some (LauncherErr (''start egress proxy: '' @ e)))
                 | CmdOut False _ err \<Rightarrow> (h3, Some (LauncherErr (''start egress proxy: '' @ trim err)))
                 | CmdOut True _ _ \<Rightarrow>
                     (case wait_for_proxy po s waits h3 of
                        (h4, None) \<Rightarrow> (h4, None)
                      | (h4, Some e) \<Rightarrow> (fst (stop_egress po h4 s), Some e)))))"

definition launcher_command ::
  "(f64 \<Rightarrow> string) \<Rightarrow> podman \<Rightarrow> podman_launcher \<Rightarrow> nat \<Rightarrow> string list list \<Rightarrow> run_spec
   \<Rightarrow> string list list \<times> (run_error + string list)" where
  "launcher_command show_f64 po l waits h s =
     (case podman_run_args show_f64 s (pl_extra_args l) of
        Inl e \<Rightarrow> (h, Inl (SpecErr e))
      | Inr args \<Rightarrow>
          if spec_network s = NetProxied
          then (case start_egress po l waits h s of
                  (h', Some e) \<Rightarrow> (h', Inl e)
                | (h', None) \<Rightarrow> (h', Inr (launcher_binary l # args)))
          else (h, Inr (launcher_binary l # args)))"

definition launcher_terminate :: "podman \<Rightarrow> string list list \<Rightarrow> run_spec \<Rightarrow> string list list \<times> run_error option" where
  "launcher_terminate po h s =
     (let c = rm_args (container_name s); h1 = h @ [c];
          first = (case po h c of
                     CmdOut True _ _ \<Rightarrow> None
                   | CmdOut False out err \<Rightarrow>
                       if is_no_such_container (err @ out) then None
                       else Some (LauncherErr (''podman rm: '' @ trim (err @ out)))
                   | CmdError e \<Rightarrow> Some (LauncherErr (''podman rm: '' @ e)))
      in if spec_network s = NetProxied
         then (case stop_egress po h1 s of
                 (h2, e) \<Rightarrow> (h2, case first of Some x \<Rightarrow> Some x | None \<Rightarrow> e))
         else (h1, first))"

text \<open>Teardown asks for the removal of everything a run of this id may have left, in the order it can go.\<close>

lemma terminate_removes:
  "fst (launcher_terminate po h s) = h @ [rm_args (container_name s)]
     @ (if spec_network s = NetProxied then [rm_args (proxy_container_name s), network_rm_args (egress_network_name s)] else [])"
  by (simp add: launcher_terminate_def stop_egress_def Let_def split: option.split)

text \<open>The network of a run is made internal, and never before a leftover of the same name was removed.\<close>

lemma wait_for_proxy_extends: "\<exists>rest. fst (wait_for_proxy po s n h) = h @ rest"
proof (induction n arbitrary: h)
  case (Suc n)
  let ?h1 = "h @ [[''logs'', proxy_container_name s]]"
  obtain h2 b where r: "container_running po ?h1 (proxy_container_name s) = (h2, b)" by fastforce
  then have h2: "\<exists>rest. h2 = h @ rest" by (auto simp: container_running_def Let_def)
  with Suc.IH [of h2] have "\<exists>rest. fst (wait_for_proxy po s n h2) = h @ rest" by auto
  with r h2 show ?case by (cases b) (auto simp: Let_def)
qed simp

lemma start_egress_internal:
  assumes "start_egress po l waits h s = (h', None)"
  shows "\<exists>rest. h' = h @ [rm_args (proxy_container_name s), network_rm_args (egress_network_name s),
      [''network'', ''create'', ''--internal'', egress_network_name s], proxy_run_args l s] @ rest"
proof -
  let ?c = "[''network'', ''create'', ''--internal'', egress_network_name s]"
  let ?h1 = "fst (stop_egress po h s)"
  let ?h3 = "?h1 @ [?c] @ [proxy_run_args l s]"
  from assms obtain a b where o1: "po ?h1 ?c = CmdOut True a b"
    by (cases "po ?h1 ?c") (auto simp: start_egress_def Let_def split: if_split_asm bool.split_asm)
  with assms obtain a' b' where o2: "po (?h1 @ [?c]) (proxy_run_args l s) = CmdOut True a' b'"
    by (cases "po (?h1 @ [?c]) (proxy_run_args l s)") (auto simp: start_egress_def Let_def split: if_split_asm bool.split_asm)
  obtain h4 e where w: "wait_for_proxy po s waits ?h3 = (h4, e)" by fastforce
  have "h' = h4" using assms o1 o2 w
    by (simp add: start_egress_def Let_def split: if_split_asm option.split_asm)
  moreover obtain rest where "h4 = ?h3 @ rest" using wait_for_proxy_extends [of po s waits ?h3] w by auto
  ultimately show ?thesis by (auto simp: stop_egress_def Let_def)
qed

end
