(* ===== verification/Hive_Supervisor.thy ===== *)
theory Hive_Supervisor
  imports Hive_Podman Hive_Sse
begin

text \<open>
  The supervisor of an agent run (\<open>crates/hive-harness/src/supervisor.rs\<close>) and the in-memory run store
  (\<open>record.rs\<close>). A pipe is the list of chunks its reads return, ended by the end of the stream or by a
  read error. The lossy reading of bytes as text and the JSON probe are parameters, as are the event
  callback and the run store, which answer each event with success or an error, and the process: how
  it ends, what its pipes hold, where the readers stand when the drain is given up, the order in which
  their lines reach the drainer, and whether the teardown outlasts its grace.
\<close>

section \<open>Configuration and results\<close>

definition default_max_line_bytes :: nat where "default_max_line_bytes = 8 * 2 ^ 20"
definition default_max_stderr_tail_bytes :: nat where "default_max_stderr_tail_bytes = 32 * 2 ^ 10"

record supervisor_config =
  sc_max_line_bytes :: nat
  sc_max_stderr_tail_bytes :: nat

definition supervisor_config_default :: supervisor_config where
  "supervisor_config_default =
     \<lparr>sc_max_line_bytes = default_max_line_bytes, sc_max_stderr_tail_bytes = default_max_stderr_tail_bytes\<rparr>"

text \<open>Keeps the last bytes, from the next character on: continuation bytes at the cut go.\<close>

definition is_continuation :: "char \<Rightarrow> bool" where
  "is_continuation c \<longleftrightarrow> 128 \<le> (of_char c :: nat) \<and> (of_char c :: nat) < 192"

definition append_tail :: "string \<Rightarrow> string \<Rightarrow> nat \<Rightarrow> string" where
  "append_tail tail add m =
     (let s = tail @ add in
      if m < length s then dropWhile is_continuation (drop (length s - m) s) else s)"

definition terminal_state_of :: "bool \<Rightarrow> bool \<Rightarrow> bool \<Rightarrow> bool \<Rightarrow> terminal_state" where
  "terminal_state_of cancelled deadline_hit clean_exit drain_failed =
     (if clean_exit \<and> \<not> drain_failed then Succeeded
      else if cancelled then Cancelled
      else if deadline_hit then DeadlineExceeded
      else RunFailed)"

section \<open>Run records\<close>

record run_record =
  rc_run_id :: string
  rc_runtime :: runtime
  rc_image_digest :: string
  rc_cli_version :: string
  rc_model :: string
  rc_session_id :: string
  rc_network :: network_mode
  rc_limits :: limits
  rc_deadline :: nat
  rc_started_at :: time

text \<open>The record of a validated spec.\<close>

definition run_record_of :: "run_spec \<Rightarrow> time \<Rightarrow> run_record" where
  "run_record_of s now =
     \<lparr>rc_run_id = spec_run_id s, rc_runtime = the (spec_runtime s), rc_image_digest = spec_image_digest s,
      rc_cli_version = spec_cli_version s, rc_model = spec_model s, rc_session_id = spec_session_id s,
      rc_network = spec_network s, rc_limits = spec_limits s, rc_deadline = spec_deadline s, rc_started_at = now\<rparr>"

datatype harness_store_error = RunNotFound string | RunExists string | StoreOther string

record stored_run =
  sr_record :: run_record
  sr_events :: "run_line list"
  sr_result :: "run_result option"

definition stored_run_done :: "stored_run \<Rightarrow> bool" where
  "stored_run_done r \<longleftrightarrow> sr_result r \<noteq> None"

text \<open>The in-memory store: the runs in creation order, by id.\<close>

type_synonym memory_store = "(string \<times> stored_run) list"

definition memory_run :: "memory_store \<Rightarrow> string \<Rightarrow> harness_store_error + stored_run" where
  "memory_run m i = (case map_of m i of None \<Rightarrow> Inl (RunNotFound i) | Some r \<Rightarrow> Inr r)"

definition memory_run_ids :: "memory_store \<Rightarrow> string list" where
  "memory_run_ids m = map fst m"

definition memory_create_run :: "memory_store \<Rightarrow> run_record \<Rightarrow> memory_store \<times> (harness_store_error + unit)" where
  "memory_create_run m rec =
     (if map_of m (rc_run_id rec) \<noteq> None then (m, Inl (RunExists (rc_run_id rec)))
      else (m @ [(rc_run_id rec, \<lparr>sr_record = rec, sr_events = [], sr_result = None\<rparr>)], Inr ()))"

definition memory_change :: "memory_store \<Rightarrow> string \<Rightarrow> (stored_run \<Rightarrow> stored_run) \<Rightarrow> memory_store \<times> (harness_store_error + unit)" where
  "memory_change m i f =
     (if map_of m i = None then (m, Inl (RunNotFound i))
      else (map (\<lambda>(j, r). (j, if j = i then f r else r)) m, Inr ()))"

definition memory_append_event :: "memory_store \<Rightarrow> string \<Rightarrow> run_line \<Rightarrow> memory_store \<times> (harness_store_error + unit)" where
  "memory_append_event m i ev = memory_change m i (\<lambda>r. r\<lparr>sr_events := sr_events r @ [ev]\<rparr>)"

definition memory_finish_run :: "memory_store \<Rightarrow> string \<Rightarrow> run_result \<Rightarrow> memory_store \<times> (harness_store_error + unit)" where
  "memory_finish_run m i res = memory_change m i (\<lambda>r. r\<lparr>sr_result := Some res\<rparr>)"

text \<open>Every operation keeps the ids distinct, and none forgets a run or reorders them.\<close>

lemma memory_ids:
  "distinct (memory_run_ids m) \<Longrightarrow> distinct (memory_run_ids (fst (memory_create_run m rec)))"
  "memory_run_ids (fst (memory_change m i f)) = memory_run_ids m"
  by (auto simp: memory_run_ids_def memory_create_run_def memory_change_def map_of_eq_None_iff case_prod_beta)

section \<open>Reading lines\<close>

definition push_piece :: "nat \<Rightarrow> string \<Rightarrow> bool \<Rightarrow> string \<Rightarrow> string \<times> bool" where
  "push_piece m buf truncated piece =
     (if length buf + length piece \<le> m then (buf @ piece, truncated)
      else if length buf < m then (buf @ take (m - length buf) piece, True)
      else (buf, True))"

text \<open>One pass of the inner loop: a line up to and with its newline, or what came before the end.\<close>

fun read_line :: "nat \<Rightarrow> string \<Rightarrow> bool \<Rightarrow> string list \<Rightarrow> string \<times> bool \<times> bool \<times> string list" where
  "read_line m buf truncated [] = (buf, truncated, True, [])"
| "read_line m buf truncated (c # cs) =
     (if c = [] then (buf, truncated, True, [])
      else if LF \<in> set c
      then (let n = length (takeWhile (\<lambda>x. x \<noteq> LF) c) + 1;
                (buf', truncated') = push_piece m buf truncated (take n c)
            in (buf', truncated', False, if drop n c = [] then cs else drop n c # cs))
      else (let (buf', truncated') = push_piece m buf truncated c in read_line m buf' truncated' cs))"

definition strip_newline :: "string \<Rightarrow> string" where
  "strip_newline s =
     (if s \<noteq> [] \<and> last s = LF
      then (let t = butlast s in if t \<noteq> [] \<and> last t = CR then butlast t else t)
      else s)"

lemma read_line_shrinks:
  "read_line m buf tr cs = (b, t, False, rest) \<Longrightarrow> length (concat rest) < length (concat cs)"
proof (induction cs arbitrary: buf tr)
  case (Cons c cs)
  show ?case
  proof (cases "c = [] \<or> LF \<notin> set c")
    case True
    with Cons show ?thesis by (cases "c = []") (auto split: prod.splits dest!: Cons.IH intro: trans_less_add2)
  next
    case False
    let ?n = "length (takeWhile (\<lambda>x. x \<noteq> LF) c) + 1"
    have "length (drop ?n c) < length c" using False by (cases c) simp_all
    with Cons.prems False show ?thesis by (auto simp: Let_def split: prod.splits if_splits)
  qed
qed simp

text \<open>The outer loop: the lines of a pipe, each with its truncation flag, and the error that ended it.\<close>

function consume :: "(string \<Rightarrow> string) \<Rightarrow> nat \<Rightarrow> string option \<Rightarrow> string list \<Rightarrow> (string \<times> bool) list \<times> string option" where
  "consume lossy m failure cs =
     (case read_line m [] False cs of
        (buf, truncated, eof, rest) \<Rightarrow>
          if eof \<and> failure \<noteq> None then ([], failure)
          else (let line = (if buf \<noteq> [] \<or> truncated then [(strip_newline (lossy buf), truncated)] else [])
                in if eof then (line, None)
                   else (case consume lossy m failure rest of (ls, e) \<Rightarrow> (line @ ls, e))))"
  by pat_completeness auto
termination
  by (relation "measure (\<lambda>(_, _, _, cs). length (concat cs))") (auto dest: read_line_shrinks [OF sym])

declare consume.simps [simp del]

section \<open>Events\<close>

record stream_envelope =
  se_type :: string
  se_session_id :: string
  se_raw :: string

text \<open>\<open>probe\<close> reads the type and the two spellings of the session id out of a JSON object.\<close>

definition parse_stream_json :: "(string \<Rightarrow> (string \<times> string \<times> string) option) \<Rightarrow> string \<Rightarrow> stream_envelope option" where
  "parse_stream_json probe line =
     (let trimmed = trim line in
      if \<not> starts_with ''{'' trimmed then None
      else (case probe trimmed of
              None \<Rightarrow> None
            | Some (ty, sid, alt) \<Rightarrow>
                Some \<lparr>se_type = ty, se_session_id = (if sid = [] then alt else sid), se_raw = trimmed\<rparr>))"

record drainer =
  dr_seq :: int
  dr_first_err :: "string option"
  dr_session :: string
  dr_tail :: string
  dr_recorded :: "run_line list"
  dr_delivered :: "run_line list"

definition drainer_new :: drainer where
  "drainer_new = \<lparr>dr_seq = 0, dr_first_err = None, dr_session = [], dr_tail = [], dr_recorded = [], dr_delivered = []\<rparr>"

definition drain_fail :: "string \<Rightarrow> drainer \<Rightarrow> drainer" where
  "drain_fail e d = (if dr_first_err d = None then d\<lparr>dr_first_err := Some e\<rparr> else d)"

text \<open>
  The sinks of an event, each there or not: the run store and the callback. \<open>dr_recorded\<close> and
  \<open>dr_delivered\<close> are what each of them accepted.
\<close>

record sinks =
  sk_store :: "(run_line \<Rightarrow> string option) option"
  sk_event :: "(run_line \<Rightarrow> string option) option"

definition deliver_event :: "sinks \<Rightarrow> run_line \<Rightarrow> drainer \<Rightarrow> drainer" where
  "deliver_event sk ev d =
     (case sk_event sk of
        None \<Rightarrow> d
      | Some f \<Rightarrow>
          (case f ev of
             Some e \<Rightarrow> drain_fail (''event: '' @ e) d
           | None \<Rightarrow> d\<lparr>dr_delivered := dr_delivered d @ [ev]\<rparr>))"

definition record_and_deliver :: "sinks \<Rightarrow> run_line \<Rightarrow> drainer \<Rightarrow> drainer" where
  "record_and_deliver sk ev d =
     (case sk_store sk of
        None \<Rightarrow> deliver_event sk ev d
      | Some f \<Rightarrow>
          (case f ev of
             Some e \<Rightarrow> drain_fail (''record event: '' @ e) d
           | None \<Rightarrow> deliver_event sk ev (d\<lparr>dr_recorded := dr_recorded d @ [ev]\<rparr>)))"

definition line_event ::
  "(string \<Rightarrow> (string \<times> string \<times> string) option) \<Rightarrow> int \<Rightarrow> time \<Rightarrow> event_stream \<Rightarrow> string \<Rightarrow> bool \<Rightarrow> run_line \<times> string" where
  "line_event probe n now stream line truncated =
     (let ev = \<lparr>ln_seq = n, ln_at = now, ln_stream = stream, ln_type = [], ln_json = None, ln_text = line, ln_truncated = truncated\<rparr>
      in case (if stream = Stdout \<and> \<not> truncated then parse_stream_json probe line else None) of
           None \<Rightarrow> (ev, [])
         | Some env \<Rightarrow> (ev\<lparr>ln_type := se_type env, ln_json := Some (se_raw env)\<rparr>, se_session_id env))"

text \<open>
  What reaches the drainer: a line, a failed read, or a line that is still with the store or the callback
  when the drain is given up. The last is counted, and nobody answered for it.
\<close>

datatype arrival = Line event_stream string bool time | ReadFailed event_stream string | Parked event_stream string bool time

definition drain_take ::
  "supervisor_config \<Rightarrow> int \<Rightarrow> string \<Rightarrow> event_stream \<Rightarrow> string \<Rightarrow> drainer \<Rightarrow> drainer" where
  "drain_take cfg n sid stream line d =
     d\<lparr>dr_seq := n,
       dr_session := (if sid = [] then dr_session d else sid),
       dr_tail := (if stream = Stderr
                   then append_tail (dr_tail d) (line @ [LF]) (sc_max_stderr_tail_bytes cfg)
                   else dr_tail d)\<rparr>"

definition drain_emit ::
  "supervisor_config \<Rightarrow> (string \<Rightarrow> (string \<times> string \<times> string) option) \<Rightarrow> sinks \<Rightarrow> drainer
   \<Rightarrow> event_stream \<Rightarrow> string \<Rightarrow> bool \<Rightarrow> time \<Rightarrow> drainer" where
  "drain_emit cfg probe sk d stream line truncated now =
     (let n = dr_seq d + 1; (ev, sid) = line_event probe n now stream line truncated;
          d1 = drain_take cfg n sid stream line d
      in if dr_first_err d1 \<noteq> None then d1 else record_and_deliver sk ev d1)"

fun drain_step ::
  "supervisor_config \<Rightarrow> (string \<Rightarrow> (string \<times> string \<times> string) option) \<Rightarrow> sinks \<Rightarrow> drainer \<Rightarrow> arrival \<Rightarrow> drainer" where
  "drain_step cfg probe sk d (Line stream line truncated now) = drain_emit cfg probe sk d stream line truncated now"
| "drain_step cfg probe sk d (ReadFailed stream e) = drain_fail (''read '' @ event_stream_as_str stream @ '': '' @ e) d"
| "drain_step cfg probe sk d (Parked stream line truncated now) =
     drain_take cfg (dr_seq d + 1) (snd (line_event probe (dr_seq d + 1) now stream line truncated)) stream line d"

section \<open>A run\<close>

text \<open>
  A reader: the chunks its pipe returned, and how it stopped. One that is aborted at the drain grace
  never sees an end, so what it had of an unfinished line is lost.
\<close>

datatype reader_end = ReadEof | ReadError string | ReadAborted

record reader =
  rd_chunks :: "string list"
  rd_end :: reader_end

definition reader_failure :: "reader_end \<Rightarrow> string option" where
  "reader_failure e = (case e of ReadEof \<Rightarrow> None | ReadError x \<Rightarrow> Some x | ReadAborted \<Rightarrow> Some [])"

text \<open>What a reader hands over, in its order: lines with their truncation flags, and a failed read at the end.\<close>

definition reader_items :: "(string \<Rightarrow> string) \<Rightarrow> nat \<Rightarrow> reader \<Rightarrow> (string + string \<times> bool) list" where
  "reader_items lossy m rd =
     map Inr (fst (consume lossy m (reader_failure (rd_end rd)) (rd_chunks rd)))
     @ (case rd_end rd of ReadError e \<Rightarrow> [Inl e] | _ \<Rightarrow> [])"

definition arrive :: "event_stream \<Rightarrow> time \<Rightarrow> string + string \<times> bool \<Rightarrow> arrival" where
  "arrive stream now it = (case it of Inl e \<Rightarrow> ReadFailed stream e | Inr (line, truncated) \<Rightarrow> Line stream line truncated now)"

text \<open>The two readers take turns at the drainer, in any order.\<close>

fun take_turns ::
  "(event_stream \<times> time) list \<Rightarrow> (string + string \<times> bool) list \<Rightarrow> (string + string \<times> bool) list
   \<Rightarrow> arrival list \<times> (string + string \<times> bool) list \<times> (string + string \<times> bool) list" where
  "take_turns [] os es = ([], os, es)"
| "take_turns ((Stdout, now) # ts) os es =
     (case os of [] \<Rightarrow> take_turns ts os es
      | it # os' \<Rightarrow> (case take_turns ts os' es of (as, rest) \<Rightarrow> (arrive Stdout now it # as, rest)))"
| "take_turns ((Stderr, now) # ts) os es =
     (case es of [] \<Rightarrow> take_turns ts os es
      | it # es' \<Rightarrow> (case take_turns ts os es' of (as, rest) \<Rightarrow> (arrive Stderr now it # as, rest)))"

fun park :: "arrival \<Rightarrow> arrival" where
  "park (Line stream line truncated now) = Parked stream line truncated now"
| "park a = a"

text \<open>
  How the process went: the spawn, which arm of the wait fired, its exit status, its two pipes, the
  turns of their readers, whether one of them was inside the delivery of a line at the drain grace, and
  whether the teardown was cut off at its grace, waiting for which of its commands (from zero).
\<close>

datatype wait_arm = ProcessExited | DeadlineHit | CallerCancelled

record process_outcome =
  po_spawn :: "string option"
  po_arm :: wait_arm
  po_status :: "int option option"
  po_stdout :: reader
  po_stderr :: reader
  po_turns :: "(event_stream \<times> time) list"
  po_downstream_stuck :: bool
  po_ended_at :: time
  po_terminate_cut :: "nat option"

text \<open>
  What the drain got. When every reader was done, or parked in a read, everything it had read arrived;
  with a delivery parked, the turn it holds was the last.
\<close>

definition arrivals :: "supervisor_config \<Rightarrow> (string \<Rightarrow> string) \<Rightarrow> process_outcome \<Rightarrow> arrival list" where
  "arrivals cfg lossy p =
     (case take_turns (po_turns p) (reader_items lossy (sc_max_line_bytes cfg) (po_stdout p))
             (reader_items lossy (sc_max_line_bytes cfg) (po_stderr p)) of
        (as, os, es) \<Rightarrow>
          if po_downstream_stuck p then (if as = [] then [] else butlast as @ [park (last as)])
          else as @ map (arrive Stdout (po_ended_at p)) os @ map (arrive Stderr (po_ended_at p)) es)"

definition result_init :: "run_spec \<Rightarrow> time \<Rightarrow> run_result" where
  "result_init s now =
     \<lparr>rr_run_id = spec_run_id s, rr_state = RunFailed, rr_exit_code = -1, rr_started_at = now, rr_ended_at = now,
      rr_event_count = 0, rr_session_id = [], rr_stderr_tail = [], rr_workspace_dir = spec_workspace_dir s\<rparr>"

definition drain_all ::
  "supervisor_config \<Rightarrow> (string \<Rightarrow> string) \<Rightarrow> (string \<Rightarrow> (string \<times> string \<times> string) option) \<Rightarrow> sinks \<Rightarrow> process_outcome \<Rightarrow> drainer" where
  "drain_all cfg lossy probe sk p = foldl (drain_step cfg probe sk) drainer_new (arrivals cfg lossy p)"

definition drained_result :: "supervisor_config \<Rightarrow> run_spec \<Rightarrow> run_result \<Rightarrow> drainer \<Rightarrow> process_outcome \<Rightarrow> run_result \<times> run_error option" where
  "drained_result cfg s r d p =
     (let code = (case po_status p of Some (Some c) \<Rightarrow> c | _ \<Rightarrow> -1);
          clean = (case po_status p of Some (Some c) \<Rightarrow> c = 0 | _ \<Rightarrow> False);
          stuck = po_downstream_stuck p;
          err = (case dr_first_err d of
                   Some e \<Rightarrow> Some e
                 | None \<Rightarrow> if stuck then Some ''harness: output drain did not finish'' else None);
          tail = (if stuck then append_tail (dr_tail d) (LF # ''[supervisor] output drain abandoned; the reader tasks are parked'') (sc_max_stderr_tail_bytes cfg)
                  else dr_tail d)
      in (r\<lparr>rr_ended_at := po_ended_at p, rr_event_count := dr_seq d,
            rr_session_id := (if dr_session d = [] then spec_session_id s else dr_session d),
            rr_stderr_tail := tail, rr_exit_code := code,
            rr_state := terminal_state_of (po_arm p = CallerCancelled) (po_arm p = DeadlineHit) clean (err \<noteq> None)\<rparr>,
          map_option DrainErr err))"

text \<open>The launcher is its two operations over the commands issued so far.\<close>

record launcher_ops =
  lo_command :: "string list list \<Rightarrow> run_spec \<Rightarrow> string list list \<times> (run_error + string list)"
  lo_terminate :: "string list list \<Rightarrow> run_spec \<Rightarrow> string list list \<times> run_error option"

definition launch_and_drain ::
  "supervisor_config \<Rightarrow> (string \<Rightarrow> string) \<Rightarrow> (string \<Rightarrow> (string \<times> string \<times> string) option) \<Rightarrow> launcher_ops \<Rightarrow> sinks \<Rightarrow> string list list
   \<Rightarrow> run_spec \<Rightarrow> process_outcome \<Rightarrow> run_result \<Rightarrow> string list list \<times> run_result \<times> run_error option" where
  "launch_and_drain cfg lossy probe lo sk h s p r =
     (case lo_command lo h s of
        (h', Inl e) \<Rightarrow> (h', r\<lparr>rr_ended_at := po_ended_at p\<rparr>, Some e)
      | (h', Inr args) \<Rightarrow>
          (case po_spawn p of
             Some e \<Rightarrow> (h' @ [args], r\<lparr>rr_ended_at := po_ended_at p\<rparr>, Some (StartErr e))
           | None \<Rightarrow> (h' @ [args], drained_result cfg s r (drain_all cfg lossy probe sk p) p)))"

text \<open>The store's side of a run: creating, and finishing (an error also stands for a timeout).\<close>

record run_store_ops =
  ro_create :: "run_record \<Rightarrow> string option"
  ro_finish :: "run_result \<Rightarrow> string option"

definition supervisor_finish :: "run_store_ops option \<Rightarrow> run_result \<Rightarrow> run_error option \<Rightarrow> run_result option \<times> run_error option" where
  "supervisor_finish st r err =
     (case st of
        None \<Rightarrow> (Some r, err)
      | Some ops \<Rightarrow>
          (case ro_finish ops r of
             Some e \<Rightarrow> (Some r, case err of None \<Rightarrow> Some (RecordFinishErr e) | Some x \<Rightarrow> Some x)
           | None \<Rightarrow> (Some r, err)))"

text \<open>
  The teardown under its grace. Cut off while a command has not answered, it issues no further one.
  Otherwise it ran to its end, with an error or without; the text of the error is left out of the note.
\<close>

definition terminate_within ::
  "launcher_ops \<Rightarrow> nat option \<Rightarrow> string list list \<Rightarrow> run_spec \<Rightarrow> string list list \<times> string option" where
  "terminate_within lo limit h s =
     (case lo_terminate lo h s of
        (h', t) \<Rightarrow>
          (case limit of
             None \<Rightarrow> (h', map_option (\<lambda>_. '': '') t)
           | Some n \<Rightarrow> (take (length h + Suc n) h', Some '': timed out'')))"

definition run_claimed ::
  "supervisor_config \<Rightarrow> (string \<Rightarrow> string) \<Rightarrow> (string \<Rightarrow> (string \<times> string \<times> string) option) \<Rightarrow> launcher_ops \<Rightarrow> run_store_ops option \<Rightarrow> sinks
   \<Rightarrow> string list list \<Rightarrow> run_spec \<Rightarrow> process_outcome \<Rightarrow> time \<Rightarrow> string list list \<times> run_result option \<times> run_error option" where
  "run_claimed cfg lossy probe lo st sk h s p now =
     (case (case st of None \<Rightarrow> None | Some ops \<Rightarrow> ro_create ops (run_record_of s now)) of
        Some e \<Rightarrow> (h, Some (result_init s now), Some (RecordErr e))
      | None \<Rightarrow>
          (case launch_and_drain cfg lossy probe lo sk h s p (result_init s now) of
             (h1, r, err) \<Rightarrow>
               (case terminate_within lo (po_terminate_cut p) h1 s of
                  (h2, t) \<Rightarrow>
                    (h2, supervisor_finish st
                      (case t of
                         None \<Rightarrow> r
                       | Some note \<Rightarrow> r\<lparr>rr_stderr_tail := append_tail (rr_stderr_tail r) (LF # ''[supervisor] terminate'' @ note)
                                        (sc_max_stderr_tail_bytes cfg)\<rparr>) err))))"

text \<open>The ids in flight: claimed before anything is created, released however the run ends.\<close>

definition supervisor_claim :: "string set \<Rightarrow> string \<Rightarrow> run_error + string set" where
  "supervisor_claim inflight i = (if i \<in> inflight then Inl (RunInFlight i) else Inr (insert i inflight))"

definition supervisor_release :: "string set \<Rightarrow> string \<Rightarrow> string set" where
  "supervisor_release inflight i = inflight - {i}"

definition supervisor_run ::
  "supervisor_config \<Rightarrow> (string \<Rightarrow> string) \<Rightarrow> (string \<Rightarrow> (string \<times> string \<times> string) option) \<Rightarrow> launcher_ops \<Rightarrow> run_store_ops option \<Rightarrow> sinks
   \<Rightarrow> string set \<Rightarrow> string list list \<Rightarrow> run_spec \<Rightarrow> process_outcome \<Rightarrow> time
   \<Rightarrow> string set \<times> string list list \<times> run_result option \<times> run_error option" where
  "supervisor_run cfg lossy probe lo st sk inflight h s p now =
     (case spec_validate s of
        Inl e \<Rightarrow> (inflight, h, None, Some (SpecErr e))
      | Inr _ \<Rightarrow>
          (case supervisor_claim inflight (spec_run_id s) of
             Inl e \<Rightarrow> (inflight, h, None, Some e)
           | Inr inflight' \<Rightarrow>
               (supervisor_release inflight' (spec_run_id s), run_claimed cfg lossy probe lo st sk h s p now)))"

section \<open>Lines do not depend on chunks\<close>

text \<open>The bytes of a pipe, and its lines with their newlines; the last may be without one.\<close>

definition pipe_bytes :: "string list \<Rightarrow> string" where
  "pipe_bytes cs = concat (takeWhile (\<lambda>c. c \<noteq> []) cs)"

definition full_lines :: "string \<Rightarrow> string list" where
  "full_lines s = map (\<lambda>w. w @ [LF]) (butlast (split_on LF s))"

definition rest_line :: "string \<Rightarrow> string list" where
  "rest_line s = (if last (split_on LF s) = [] then [] else [last (split_on LF s)])"

lemma pipe_bytes_simps [simp]: "pipe_bytes [] = []" "pipe_bytes (c # cs) = (if c = [] then [] else c @ pipe_bytes cs)"
  by (simp_all add: pipe_bytes_def)

lemma push_piece_take:
  "piece \<noteq> [] \<Longrightarrow> push_piece m (take m acc) (m < length acc) piece = (take m (acc @ piece), m < length (acc @ piece))"
  by (auto simp: push_piece_def min_def not_le not_less)

lemma split_at_newline: "LF \<in> set s \<Longrightarrow> s = takeWhile (\<lambda>x. x \<noteq> LF) s @ LF # drop (length (takeWhile (\<lambda>x. x \<noteq> LF) s) + 1) s"
  by (induction s) auto

text \<open>Reading to the next newline, whichever chunk it is in; or to the end.\<close>

lemma read_line_newline:
  "LF \<in> set (pipe_bytes cs) \<Longrightarrow>
   \<exists>rest. read_line m (take m acc) (m < length acc) cs =
      (take m (acc @ takeWhile (\<lambda>x. x \<noteq> LF) (pipe_bytes cs) @ [LF]),
       m < length (acc @ takeWhile (\<lambda>x. x \<noteq> LF) (pipe_bytes cs) @ [LF]), False, rest) \<and>
     pipe_bytes rest = drop (length (takeWhile (\<lambda>x. x \<noteq> LF) (pipe_bytes cs)) + 1) (pipe_bytes cs)"
proof (induction cs arbitrary: acc)
  case (Cons c cs)
  then have c: "c \<noteq> []" by auto
  then have b: "pipe_bytes (c # cs) = c @ pipe_bytes cs" by simp
  show ?case
  proof (cases "LF \<in> set c")
    case True
    let ?w = "takeWhile (\<lambda>x. x \<noteq> LF) c"
    have l: "length ?w < length c" using arg_cong [OF split_at_newline [OF True], of length] by simp
    have t: "take (length ?w + 1) c = ?w @ [LF]"
      using split_at_newline [OF True]
      by (metis append_eq_conv_conj append_Cons append_Nil append_assoc length_append_singleton Suc_eq_plus1)
    have w: "takeWhile (\<lambda>x. x \<noteq> LF) (c @ pipe_bytes cs) = ?w" using True by (simp add: takeWhile_append1)
    have p: "push_piece m (take m acc) (m < length acc) (take (length ?w + 1) c) =
        (take m (acc @ ?w @ [LF]), m < length (acc @ ?w @ [LF]))"
      using push_piece_take [of "?w @ [LF]" m acc] t by simp
    let ?rest = "if drop (length ?w + 1) c = [] then cs else drop (length ?w + 1) c # cs"
    have "read_line m (take m acc) (m < length acc) (c # cs) =
        (take m (acc @ ?w @ [LF]), m < length (acc @ ?w @ [LF]), False, ?rest)"
      using True c p by (simp only: read_line.simps Let_def split if_False if_True)
    moreover have "pipe_bytes ?rest = drop (length ?w + 1) (c @ pipe_bytes cs)" using l by simp
    ultimately show ?thesis unfolding b w by blast
  next
    case False
    have p: "push_piece m (take m acc) (m < length acc) c = (take m (acc @ c), m < length (acc @ c))"
      by (rule push_piece_take [OF c])
    have w: "takeWhile (\<lambda>x. x \<noteq> LF) (c @ pipe_bytes cs) = c @ takeWhile (\<lambda>x. x \<noteq> LF) (pipe_bytes cs)"
      using False by (auto intro!: takeWhile_append2)
    have r: "read_line m (take m acc) (m < length acc) (c # cs) = read_line m (take m (acc @ c)) (m < length (acc @ c)) cs"
      using False c p by (simp only: read_line.simps Let_def split if_False)
    have "LF \<in> set (pipe_bytes cs)" using Cons.prems False by (simp split: if_splits)
    from Cons.IH [OF this, of "acc @ c"] show ?thesis unfolding b w r by simp
  qed
qed simp

lemma read_line_end:
  "LF \<notin> set (pipe_bytes cs) \<Longrightarrow>
   read_line m (take m acc) (m < length acc) cs = (take m (acc @ pipe_bytes cs), m < length (acc @ pipe_bytes cs), True, [])"
proof (induction cs arbitrary: acc)
  case (Cons c cs)
  show ?case
  proof (cases "c = []")
    case False
    with Cons.prems have n: "LF \<notin> set c" "LF \<notin> set (pipe_bytes cs)" by simp_all
    have "read_line m (take m acc) (m < length acc) (c # cs) = read_line m (take m (acc @ c)) (m < length (acc @ c)) cs"
      using False n push_piece_take [OF False, of m acc] by (simp only: read_line.simps Let_def split if_False)
    with Cons.IH [OF n(2), of "acc @ c"] False show ?thesis by simp
  qed simp
qed simp

lemma full_lines_step:
  assumes "LF \<in> set s"
  shows "full_lines s = (takeWhile (\<lambda>x. x \<noteq> LF) s @ [LF]) # full_lines (drop (length (takeWhile (\<lambda>x. x \<noteq> LF) s) + 1) s)"
    "rest_line s = rest_line (drop (length (takeWhile (\<lambda>x. x \<noteq> LF) s) + 1) s)"
proof -
  let ?w = "takeWhile (\<lambda>x. x \<noteq> LF) s" and ?r = "drop (length (takeWhile (\<lambda>x. x \<noteq> LF) s) + 1) s"
  have "LF \<notin> set ?w" using set_takeWhileD by fastforce
  then have "split_on LF s = ?w # split_on LF ?r"
    using split_on_append [of LF ?w ?r] split_at_newline [OF assms] by simp
  then show "full_lines s = (?w @ [LF]) # full_lines ?r" "rest_line s = rest_line ?r"
    by (simp_all add: full_lines_def rest_line_def)
qed

lemma no_newline_lines: "LF \<notin> set s \<Longrightarrow> full_lines s = [] \<and> rest_line s = (if s = [] then [] else [s])"
  by (simp add: full_lines_def rest_line_def split_on_atom)

definition line_of :: "(string \<Rightarrow> string) \<Rightarrow> nat \<Rightarrow> string \<Rightarrow> string \<times> bool" where
  "line_of lossy m l = (strip_newline (lossy (take m l)), m < length l)"

lemma consume_spec:
  "consume lossy m failure cs =
     (map (line_of lossy m) (full_lines (pipe_bytes cs) @ (if failure = None then rest_line (pipe_bytes cs) else [])), failure)"
proof (induction lossy m failure cs rule: consume.induct)
  case (1 lossy m failure cs)
  show ?case
  proof (cases "LF \<in> set (pipe_bytes cs)")
    case True
    let ?l = "takeWhile (\<lambda>x. x \<noteq> LF) (pipe_bytes cs) @ [LF]"
    obtain rest where rl: "read_line m [] False cs = (take m ?l, m < length ?l, False, rest)"
      and rest: "pipe_bytes rest = drop (length (takeWhile (\<lambda>x. x \<noteq> LF) (pipe_bytes cs)) + 1) (pipe_bytes cs)"
      using read_line_newline [OF True, of m "[]"] by auto
    have ne: "take m ?l \<noteq> [] \<or> m < length ?l" by (cases m) auto
    have "consume lossy m failure rest =
        (map (line_of lossy m) (full_lines (pipe_bytes rest) @ (if failure = None then rest_line (pipe_bytes rest) else [])), failure)"
      by (rule 1 [OF rl [symmetric] refl refl _ refl]) simp_all
    then show ?thesis
      unfolding consume.simps [of lossy m failure cs] rl full_lines_step [OF True] rest [symmetric]
      using ne by (simp add: line_of_def)
  next
    case False
    have rl: "read_line m [] False cs = (take m (pipe_bytes cs), m < length (pipe_bytes cs), True, [])"
      using read_line_end [OF False, of m "[]"] by simp
    show ?thesis
      unfolding consume.simps [of lossy m failure cs] rl
      using no_newline_lines [OF False] by (cases m) (auto simp: line_of_def)
  qed
qed

text \<open>
  C36: What the supervisor reads does not depend on how the pipe was cut into reads. The events of a pipe
  are exactly its lines in order, each cut to the cap and flagged when it was longer, with a last line
  that lacks its newline; after a failed read, exactly the lines that were complete, and the error. No
  line is dropped for its length.
\<close>

theorem lines_do_not_depend_on_chunks:
  "consume lossy m None cs =
     (map (\<lambda>l. (strip_newline (lossy (take m l)), m < length l)) (full_lines (pipe_bytes cs) @ rest_line (pipe_bytes cs)), None) \<and>
   consume lossy m (Some e) cs =
     (map (\<lambda>l. (strip_newline (lossy (take m l)), m < length l)) (full_lines (pipe_bytes cs)), Some e) \<and>
   concat (full_lines (pipe_bytes cs) @ rest_line (pipe_bytes cs)) = pipe_bytes cs"
proof (intro conjI)
  show "consume lossy m None cs =
      (map (\<lambda>l. (strip_newline (lossy (take m l)), m < length l)) (full_lines (pipe_bytes cs) @ rest_line (pipe_bytes cs)), None)"
    "consume lossy m (Some e) cs =
      (map (\<lambda>l. (strip_newline (lossy (take m l)), m < length l)) (full_lines (pipe_bytes cs)), Some e)"
    using consume_spec [of lossy m None cs] consume_spec [of lossy m "Some e" cs] by (simp_all add: line_of_def)
  have "concat (map (\<lambda>w. w @ [LF]) (butlast ws) @ (if last ws = [] then [] else [last ws])) = join_with LF ws" if "ws \<noteq> []" for ws
    using that by (induction ws rule: join_with.induct) auto
  from this [of "split_on LF (pipe_bytes cs)"]
  show "concat (full_lines (pipe_bytes cs) @ rest_line (pipe_bytes cs)) = pipe_bytes cs"
    by (simp only: full_lines_def rest_line_def split_on_nonempty join_split not_False_eq_True simp_thms)
qed

section \<open>What is delivered\<close>

text \<open>The events of the lines that arrived, numbered from the count so far.\<close>

fun line_events :: "(string \<Rightarrow> (string \<times> string \<times> string) option) \<Rightarrow> int \<Rightarrow> arrival list \<Rightarrow> run_line list" where
  "line_events probe n [] = []"
| "line_events probe n (Line stream line truncated now # as) =
     fst (line_event probe (n + 1) now stream line truncated) # line_events probe (n + 1) as"
| "line_events probe n (ReadFailed stream e # as) = line_events probe n as"
| "line_events probe n (Parked stream line truncated now # as) = line_events probe (n + 1) as"

fun lines_taken :: "arrival list \<Rightarrow> nat" where
  "lines_taken [] = 0"
| "lines_taken (ReadFailed stream e # as) = lines_taken as"
| "lines_taken (Line stream line truncated now # as) = Suc (lines_taken as)"
| "lines_taken (Parked stream line truncated now # as) = Suc (lines_taken as)"

definition accepts :: "(run_line \<Rightarrow> string option) option \<Rightarrow> run_line \<Rightarrow> bool" where
  "accepts sink ev \<longleftrightarrow> (case sink of None \<Rightarrow> True | Some f \<Rightarrow> f ev = None)"

lemma drain_fail_simps [simp]:
  "dr_seq (drain_fail e d) = dr_seq d" "dr_first_err (drain_fail e d) \<noteq> None"
  "dr_recorded (drain_fail e d) = dr_recorded d" "dr_delivered (drain_fail e d) = dr_delivered d"
  by (simp_all add: drain_fail_def)

lemma deliver_line_cases:
  obtains (none) "sk_event sk = None" "deliver_event sk ev d = d"
  | (ok) f where "sk_event sk = Some f" "f ev = None" "deliver_event sk ev d = d\<lparr>dr_delivered := dr_delivered d @ [ev]\<rparr>"
  | (failed) f e where "sk_event sk = Some f" "f ev = Some e" "deliver_event sk ev d = drain_fail (''event: '' @ e) d"
  by (cases "sk_event sk"; cases "the (sk_event sk) ev") (auto simp: deliver_event_def)

lemma record_and_deliver_keeps:
  "dr_seq (record_and_deliver sk ev d) = dr_seq d"
  "dr_first_err (record_and_deliver sk ev d) = None \<Longrightarrow>
     dr_first_err d = None \<and> accepts (sk_store sk) ev \<and> accepts (sk_event sk) ev"
proof -
  have seq: "dr_seq (deliver_event sk ev x) = dr_seq x" for x
    by (rule deliver_line_cases [of sk ev x]) simp_all
  have ok: "dr_first_err x = None \<and> accepts (sk_event sk) ev" if "dr_first_err (deliver_event sk ev x) = None" for x
    by (rule deliver_line_cases [of sk ev x]) (use that in \<open>auto simp: accepts_def drain_fail_def split: if_splits\<close>)
  show "dr_seq (record_and_deliver sk ev d) = dr_seq d"
    by (cases "sk_store sk"; cases "the (sk_store sk) ev") (simp_all add: record_and_deliver_def seq)
  show "dr_first_err d = None \<and> accepts (sk_store sk) ev \<and> accepts (sk_event sk) ev"
    if "dr_first_err (record_and_deliver sk ev d) = None"
  proof (cases "sk_store sk")
    case None
    with that ok [of d] show ?thesis by (simp add: record_and_deliver_def accepts_def)
  next
    case (Some f)
    show ?thesis
    proof (cases "f ev")
      case None
      with that Some ok [of "d\<lparr>dr_recorded := dr_recorded d @ [ev]\<rparr>"] show ?thesis
        by (simp add: record_and_deliver_def accepts_def)
    next
      case (Some e)
      with that \<open>sk_store sk = Some f\<close> show ?thesis by (simp add: record_and_deliver_def)
    qed
  qed
qed

text \<open>One line: counted whatever happens, and only delivered while nothing has failed.\<close>

lemma emit_spec:
  fixes d cfg probe sk stream line truncated now
  defines "d' \<equiv> drain_emit cfg probe sk d stream line truncated now"
    and "ev \<equiv> fst (line_event probe (dr_seq d + 1) now stream line truncated)"
  shows "dr_seq d' = dr_seq d + 1"
    "dr_first_err d' = None \<Longrightarrow> dr_first_err d = None \<and> accepts (sk_store sk) ev \<and> accepts (sk_event sk) ev"
proof -
  let ?sid = "snd (line_event probe (dr_seq d + 1) now stream line truncated)"
  let ?d1 = "drain_take cfg (dr_seq d + 1) ?sid stream line d"
  have d1: "dr_seq ?d1 = dr_seq d + 1" "dr_first_err ?d1 = dr_first_err d" by (simp_all add: drain_take_def)
  have e: "d' = (if dr_first_err d \<noteq> None then ?d1 else record_and_deliver sk ev ?d1)"
    unfolding d'_def ev_def drain_emit_def Let_def by (simp add: case_prod_beta d1)
  show "dr_seq d' = dr_seq d + 1" unfolding e by (simp add: record_and_deliver_keeps(1) d1)
  show "dr_first_err d' = None \<Longrightarrow> dr_first_err d = None \<and> accepts (sk_store sk) ev \<and> accepts (sk_event sk) ev"
    unfolding e using record_and_deliver_keeps(2) [of sk ev ?d1] by (simp add: d1 split: if_splits)
qed

lemma drain_spec:
  "dr_seq (foldl (drain_step cfg probe sk) d as) = dr_seq d + int (lines_taken as) \<and>
   (dr_first_err (foldl (drain_step cfg probe sk) d as) = None \<longrightarrow>
      dr_first_err d = None \<and> (\<forall>a \<in> set as. \<nexists>stream e. a = ReadFailed stream e) \<and>
      (\<forall>ev \<in> set (line_events probe (dr_seq d) as). accepts (sk_store sk) ev \<and> accepts (sk_event sk) ev))"
proof (induction as arbitrary: d)
  case (Cons a as)
  show ?case
  proof (cases a)
    case (Line stream line truncated now)
    let ?d' = "drain_emit cfg probe sk d stream line truncated now"
    note e = emit_spec [of cfg probe sk d stream line truncated now]
    from Cons.IH [of ?d'] e show ?thesis by (auto simp: Line)
  next
    case (ReadFailed stream e)
    from Cons.IH [of "drain_fail (''read '' @ event_stream_as_str stream @ '': '' @ e) d"] show ?thesis
      by (simp add: ReadFailed)
  next
    case (Parked stream line truncated now)
    let ?d' = "drain_take cfg (dr_seq d + 1) (snd (line_event probe (dr_seq d + 1) now stream line truncated)) stream line d"
    have "dr_seq ?d' = dr_seq d + 1" "dr_first_err ?d' = dr_first_err d" by (simp_all add: drain_take_def)
    with Cons.IH [of ?d'] show ?thesis by (auto simp: Parked)
  qed
qed simp

fun is_parked :: "arrival \<Rightarrow> bool" where
  "is_parked (Parked stream line truncated now) = True"
| "is_parked a = False"

text \<open>Without an error every line was handed to each sink there is, in order.\<close>

definition handed :: "(run_line \<Rightarrow> string option) option \<Rightarrow> run_line list \<Rightarrow> run_line list" where
  "handed sink evs = (if sink = None then [] else evs)"

lemma handed_append: "handed sink (a @ b) = handed sink a @ handed sink b"
  by (simp add: handed_def)

lemma record_and_deliver_hands:
  assumes "dr_first_err (record_and_deliver sk ev d) = None"
  shows "dr_recorded (record_and_deliver sk ev d) = dr_recorded d @ handed (sk_store sk) [ev]"
    "dr_delivered (record_and_deliver sk ev d) = dr_delivered d @ handed (sk_event sk) [ev]"
proof -
  have d: "dr_recorded (deliver_event sk ev x) = dr_recorded x \<and> dr_delivered (deliver_event sk ev x) = dr_delivered x @ handed (sk_event sk) [ev]"
    if "dr_first_err (deliver_event sk ev x) = None" for x
    by (rule deliver_line_cases [of sk ev x]) (use that in \<open>auto simp: handed_def\<close>)
  have "dr_recorded (record_and_deliver sk ev d) = dr_recorded d @ handed (sk_store sk) [ev] \<and>
      dr_delivered (record_and_deliver sk ev d) = dr_delivered d @ handed (sk_event sk) [ev]"
  proof (cases "sk_store sk")
    case None
    with assms d [of d] show ?thesis by (simp add: record_and_deliver_def handed_def)
  next
    case (Some f)
    then have "f ev = None" using assms by (cases "f ev") (simp_all add: record_and_deliver_def)
    with Some assms d [of "d\<lparr>dr_recorded := dr_recorded d @ [ev]\<rparr>"] show ?thesis
      by (simp add: record_and_deliver_def handed_def)
  qed
  then show "dr_recorded (record_and_deliver sk ev d) = dr_recorded d @ handed (sk_store sk) [ev]"
    "dr_delivered (record_and_deliver sk ev d) = dr_delivered d @ handed (sk_event sk) [ev]" by blast+
qed

lemma emit_hands:
  fixes d cfg probe sk stream line truncated now
  defines "d' \<equiv> drain_emit cfg probe sk d stream line truncated now"
    and "ev \<equiv> fst (line_event probe (dr_seq d + 1) now stream line truncated)"
  assumes "dr_first_err d' = None"
  shows "dr_recorded d' = dr_recorded d @ handed (sk_store sk) [ev]" "dr_delivered d' = dr_delivered d @ handed (sk_event sk) [ev]"
proof -
  let ?sid = "snd (line_event probe (dr_seq d + 1) now stream line truncated)"
  let ?d1 = "drain_take cfg (dr_seq d + 1) ?sid stream line d"
  have d1: "dr_first_err ?d1 = dr_first_err d" "dr_recorded ?d1 = dr_recorded d" "dr_delivered ?d1 = dr_delivered d"
    by (simp_all add: drain_take_def)
  have e: "d' = (if dr_first_err d \<noteq> None then ?d1 else record_and_deliver sk ev ?d1)"
    unfolding d'_def ev_def drain_emit_def Let_def by (simp add: case_prod_beta d1)
  have n: "dr_first_err d = None" using assms(3) d1(1) unfolding e by (cases "dr_first_err d") simp_all
  then have r: "d' = record_and_deliver sk ev ?d1" using e by simp
  from record_and_deliver_hands [OF assms(3) [unfolded r]]
  show "dr_recorded d' = dr_recorded d @ handed (sk_store sk) [ev]" "dr_delivered d' = dr_delivered d @ handed (sk_event sk) [ev]"
    unfolding r d1 by simp_all
qed

lemma drain_hands:
  assumes "list_all (\<lambda>a. \<not> is_parked a) as"
    and "dr_first_err (foldl (drain_step cfg probe sk) d as) = None"
  shows "dr_recorded (foldl (drain_step cfg probe sk) d as) = dr_recorded d @ handed (sk_store sk) (line_events probe (dr_seq d) as) \<and>
    dr_delivered (foldl (drain_step cfg probe sk) d as) = dr_delivered d @ handed (sk_event sk) (line_events probe (dr_seq d) as)"
  using assms
proof (induction as arbitrary: d)
  case Nil
  then show ?case by (simp add: handed_def)
next
  case (Cons a as)
  have ok: "dr_first_err (foldl (drain_step cfg probe sk) (drain_step cfg probe sk d a) as) = None" using Cons.prems(2) by simp
  with drain_spec [of cfg probe sk "drain_step cfg probe sk d a" as] have step: "dr_first_err (drain_step cfg probe sk d a) = None" by blast
  show ?case
  proof (cases a)
    case (Line stream line truncated now)
    let ?d' = "drain_emit cfg probe sk d stream line truncated now"
    have e: "dr_first_err ?d' = None" using step Line by simp
    let ?ev = "fst (line_event probe (dr_seq d + 1) now stream line truncated)"
    have as: "list_all (\<lambda>a. \<not> is_parked a) as" using Cons.prems(1) by simp
    have f: "foldl (drain_step cfg probe sk) d (a # as) = foldl (drain_step cfg probe sk) ?d' as" by (simp add: Line)
    have l: "line_events probe (dr_seq d) (a # as) = [?ev] @ line_events probe (dr_seq ?d') as"
      using emit_spec(1) [of cfg probe sk d stream line truncated now] by (simp add: Line)
    from Cons.IH [OF as Cons.prems(2) [unfolded f]] show ?thesis
      unfolding f l handed_append emit_hands [OF e] by simp
  next
    case (ReadFailed stream e)
    with step show ?thesis by simp
  next
    case (Parked stream line truncated now)
    with Cons.prems(1) show ?thesis by simp
  qed
qed

text \<open>Taking turns loses nothing of either reader and keeps its order.\<close>

fun item_of :: "event_stream \<Rightarrow> arrival \<Rightarrow> (string + string \<times> bool) list" where
  "item_of st (Line stream line truncated now) = (if stream = st then [Inr (line, truncated)] else [])"
| "item_of st (ReadFailed stream e) = (if stream = st then [Inl e] else [])"
| "item_of st (Parked stream line truncated now) = []"

lemma item_of_arrive [simp]: "item_of st (arrive stream now it) = (if stream = st then [it] else [])"
  by (cases it) (auto simp: arrive_def)

lemma concat_nothing [simp]: "concat (map (\<lambda>x. []) xs) = []"
  by (induction xs) simp_all

lemma take_turns_items:
  "take_turns ts os es = (as, os', es') \<Longrightarrow>
   concat (map (item_of Stdout) as) @ os' = os \<and> concat (map (item_of Stderr) as) @ es' = es"
proof (induction ts os es arbitrary: as rule: take_turns.induct)
qed (auto split: list.split_asm prod.split_asm)

lemma arrivals_complete:
  assumes "\<not> po_downstream_stuck p"
  shows "concat (map (item_of Stdout) (arrivals cfg lossy p)) = reader_items lossy (sc_max_line_bytes cfg) (po_stdout p)"
    "concat (map (item_of Stderr) (arrivals cfg lossy p)) = reader_items lossy (sc_max_line_bytes cfg) (po_stderr p)"
proof -
  obtain as os es where t: "take_turns (po_turns p) (reader_items lossy (sc_max_line_bytes cfg) (po_stdout p))
      (reader_items lossy (sc_max_line_bytes cfg) (po_stderr p)) = (as, os, es)" by (metis prod_cases3)
  show "concat (map (item_of Stdout) (arrivals cfg lossy p)) = reader_items lossy (sc_max_line_bytes cfg) (po_stdout p)"
    "concat (map (item_of Stderr) (arrivals cfg lossy p)) = reader_items lossy (sc_max_line_bytes cfg) (po_stderr p)"
    using take_turns_items [OF t] assms by (simp_all add: arrivals_def t o_def)
qed

lemma arrive_not_parked [simp]: "\<not> is_parked (arrive stream now it)"
  by (cases it) (auto simp: arrive_def)

lemma take_turns_not_parked: "list_all (\<lambda>a. \<not> is_parked a) (fst (take_turns ts os es))"
  by (induction ts os es rule: take_turns.induct) (auto simp: case_prod_beta split: list.split)

lemma arrivals_not_parked:
  assumes "\<not> po_downstream_stuck p"
  shows "list_all (\<lambda>a. \<not> is_parked a) (arrivals cfg lossy p)"
proof -
  obtain as os es where t: "take_turns (po_turns p) (reader_items lossy (sc_max_line_bytes cfg) (po_stdout p))
      (reader_items lossy (sc_max_line_bytes cfg) (po_stderr p)) = (as, os, es)" by (metis prod_cases3)
  with take_turns_not_parked have "list_all (\<lambda>a. \<not> is_parked a) as" by (metis fst_conv)
  with assms show ?thesis by (auto simp: arrivals_def t list_all_iff)
qed

text \<open>The events of one pipe are its lines.\<close>

lemma line_event_parts:
  "ln_stream (fst (line_event probe n now stream line truncated)) = stream"
  "ln_text (fst (line_event probe n now stream line truncated)) = line"
  "ln_truncated (fst (line_event probe n now stream line truncated)) = truncated"
  "ln_seq (fst (line_event probe n now stream line truncated)) = n"
  by (simp_all add: line_event_def Let_def split: option.split)

lemma events_of_a_pipe:
  "map (\<lambda>ev. (ln_text ev, ln_truncated ev)) (filter (\<lambda>ev. ln_stream ev = st) (line_events probe n as)) =
   concat (map (\<lambda>it. case it of Inl _ \<Rightarrow> [] | Inr l \<Rightarrow> [l]) (concat (map (item_of st) as)))"
  by (induction probe n as rule: line_events.induct) (simp_all add: line_event_parts)

definition complete_lines :: "(string \<Rightarrow> string) \<Rightarrow> nat \<Rightarrow> reader \<Rightarrow> (string \<times> bool) list" where
  "complete_lines lossy m rd =
     map (line_of lossy m) (full_lines (pipe_bytes (rd_chunks rd))
       @ (if rd_end rd = ReadEof then rest_line (pipe_bytes (rd_chunks rd)) else []))"

lemma reader_items_lines:
  "concat (map (\<lambda>it. case it of Inl _ \<Rightarrow> [] | Inr l \<Rightarrow> [l]) (reader_items lossy m rd)) = complete_lines lossy m rd"
proof -
  have ls: "concat (map (\<lambda>it. case it of Inl _ \<Rightarrow> [] | Inr l \<Rightarrow> [l]) (map Inr ls @ rest)) =
      ls @ concat (map (\<lambda>it. case it of Inl _ \<Rightarrow> [] | Inr l \<Rightarrow> [l]) rest)"
    for ls :: "(string \<times> bool) list" and rest :: "(string + string \<times> bool) list"
    by (induction ls) simp_all
  show ?thesis
    unfolding reader_items_def ls
    by (cases "rd_end rd") (simp_all add: complete_lines_def consume_spec reader_failure_def)
qed

lemma no_failed_read:
  assumes "\<forall>a \<in> set as. \<nexists>stream e. a = ReadFailed stream e"
    and "concat (map (item_of st) as) = reader_items lossy m rd"
  shows "\<nexists>e. rd_end rd = ReadError e"
proof
  assume "\<exists>e. rd_end rd = ReadError e"
  then obtain e where "rd_end rd = ReadError e" by blast
  then have "Inl e \<in> set (reader_items lossy m rd)" by (simp add: reader_items_def)
  then obtain a where "a \<in> set as" "Inl e \<in> set (item_of st a)" unfolding assms(2) [symmetric] by auto
  with assms(1) show False by (cases a) (auto split: if_splits)
qed

section \<open>Runs are torn down\<close>

lemma drained_succeeds:
  assumes "drained_result cfg s r d p = (r', err)" "rr_state r' = Succeeded"
  shows "po_status p = Some (Some 0) \<and> dr_first_err d = None \<and> \<not> po_downstream_stuck p \<and> err = None"
  using assms
  by (auto simp: drained_result_def terminal_state_of_def Let_def split: option.split_asm if_split_asm)

lemma launch_cases:
  assumes "launch_and_drain cfg lossy probe lo sk h s p r = (h', r', err)" "rr_state r = RunFailed"
  shows "(\<exists>mid. length mid \<le> 1 \<and> h' = fst (lo_command lo h s) @ mid) \<and>
    (rr_state r' = Succeeded \<longrightarrow> po_status p = Some (Some 0) \<and> \<not> po_downstream_stuck p \<and> err = None \<and>
      dr_first_err (drain_all cfg lossy probe sk p) = None)"
proof -
  obtain h1 c where c: "lo_command lo h s = (h1, c)" by fastforce
  show ?thesis
  proof (cases c)
    case (Inl e)
    with assms c show ?thesis by (auto simp: launch_and_drain_def)
  next
    case (Inr args)
    show ?thesis
    proof (cases "po_spawn p")
      case None
      then have d: "drained_result cfg s r (drain_all cfg lossy probe sk p) p = (r', err)" "h' = h1 @ [args]"
        using assms c Inr by (auto simp: launch_and_drain_def)
      from d(2) c have "length [args] \<le> 1 \<and> h' = fst (lo_command lo h s) @ [args]" by simp
      with drained_succeeds [OF d(1)] show ?thesis by blast
    next
      case (Some e)
      with assms c Inr have d: "h' = h1 @ [args]" "rr_state r' = RunFailed" by (auto simp: launch_and_drain_def)
      from d(1) c have "length [args] \<le> 1 \<and> h' = fst (lo_command lo h s) @ [args]" by simp
      with d(2) show ?thesis by (metis terminal_state.distinct(5) terminal_state.distinct(3) terminal_state.distinct(1))
    qed
  qed
qed

text \<open>The launcher of the daemon, as the supervisor sees it.\<close>

definition podman_ops :: "(f64 \<Rightarrow> string) \<Rightarrow> podman \<Rightarrow> podman_launcher \<Rightarrow> nat \<Rightarrow> launcher_ops" where
  "podman_ops show_f64 po l waits =
     \<lparr>lo_command = launcher_command show_f64 po l waits, lo_terminate = launcher_terminate po\<rparr>"

text \<open>What a run leaves behind, in the order its teardown asks for the removal.\<close>

definition removals :: "run_spec \<Rightarrow> string list list" where
  "removals s = [rm_args (container_name s)]
     @ (if spec_network s = NetProxied then [rm_args (proxy_container_name s), network_rm_args (egress_network_name s)] else [])"

lemma teardown:
  "fst (terminate_within (podman_ops show_f64 po l waits) limit h s) =
     h @ (case limit of None \<Rightarrow> removals s | Some n \<Rightarrow> take (Suc n) (removals s))"
  "limit \<noteq> None \<Longrightarrow> snd (terminate_within (podman_ops show_f64 po l waits) limit h s) = Some '': timed out''"
proof -
  obtain h2 t where t: "launcher_terminate po h s = (h2, t)" by fastforce
  then have "h2 = h @ removals s" using terminate_removes [of po h s] by (simp add: removals_def)
  with t show "fst (terminate_within (podman_ops show_f64 po l waits) limit h s) =
      h @ (case limit of None \<Rightarrow> removals s | Some n \<Rightarrow> take (Suc n) (removals s))"
    "limit \<noteq> None \<Longrightarrow> snd (terminate_within (podman_ops show_f64 po l waits) limit h s) = Some '': timed out''"
    by (auto simp: terminate_within_def podman_ops_def split: option.split)
qed

text \<open>
  A drain without an error took in every line of both pipes, and handed the events of all of them, in
  order, to the store and to the callback.
\<close>

definition all_lines_handed ::
  "supervisor_config \<Rightarrow> (string \<Rightarrow> string) \<Rightarrow> (string \<Rightarrow> (string \<times> string \<times> string) option) \<Rightarrow> sinks \<Rightarrow> process_outcome \<Rightarrow> bool" where
  "all_lines_handed cfg lossy probe sk p \<longleftrightarrow>
     (\<exists>evs. dr_recorded (drain_all cfg lossy probe sk p) = handed (sk_store sk) evs \<and>
        dr_delivered (drain_all cfg lossy probe sk p) = handed (sk_event sk) evs \<and>
        (\<forall>ev \<in> set evs. accepts (sk_store sk) ev \<and> accepts (sk_event sk) ev) \<and>
        map (\<lambda>ev. (ln_text ev, ln_truncated ev)) (filter (\<lambda>ev. ln_stream ev = Stdout) evs)
          = complete_lines lossy (sc_max_line_bytes cfg) (po_stdout p) \<and>
        map (\<lambda>ev. (ln_text ev, ln_truncated ev)) (filter (\<lambda>ev. ln_stream ev = Stderr) evs)
          = complete_lines lossy (sc_max_line_bytes cfg) (po_stderr p))"

lemma clean_drain:
  assumes "dr_first_err (drain_all cfg lossy probe sk p) = None" "\<not> po_downstream_stuck p"
  shows "(\<nexists>e. rd_end (po_stdout p) = ReadError e) \<and> (\<nexists>e. rd_end (po_stderr p) = ReadError e) \<and>
    all_lines_handed cfg lossy probe sk p"
proof -
  let ?as = "arrivals cfg lossy p" let ?evs = "line_events probe 0 ?as"
  have n: "dr_seq drainer_new = 0" "dr_recorded drainer_new = []" "dr_delivered drainer_new = []" by (simp_all add: drainer_new_def)
  note d = drain_spec [of cfg probe sk drainer_new ?as, unfolded n]
  have ok: "\<forall>a \<in> set ?as. \<nexists>stream e. a = ReadFailed stream e"
    "\<forall>ev \<in> set ?evs. accepts (sk_store sk) ev \<and> accepts (sk_event sk) ev"
    using d assms(1) unfolding drain_all_def by blast+
  have h: "dr_recorded (drain_all cfg lossy probe sk p) = handed (sk_store sk) ?evs"
    "dr_delivered (drain_all cfg lossy probe sk p) = handed (sk_event sk) ?evs"
    using drain_hands [OF arrivals_not_parked [OF assms(2)] assms(1) [unfolded drain_all_def]]
    unfolding drain_all_def n by simp_all
  note c = arrivals_complete [OF assms(2), of cfg lossy]
  note e = events_of_a_pipe [of _ probe 0 ?as]
  have "all_lines_handed cfg lossy probe sk p"
    unfolding all_lines_handed_def
    by (intro exI [of _ ?evs] conjI h ok(2) e [of Stdout, unfolded c(1) reader_items_lines] e [of Stderr, unfolded c(2) reader_items_lines])
  then show ?thesis using no_failed_read [OF ok(1) c(1)] no_failed_read [OF ok(1) c(2)] by blast
qed


section \<open>A run to evaluate\<close>

text \<open>
  A clean run whose standard output stays open in a grandchild, so that its reader is aborted with half
  a line, and whose teardown hangs on the removal of the container.
\<close>

definition sample_process :: process_outcome where
  "sample_process = \<lparr>po_spawn = None, po_arm = ProcessExited, po_status = Some (Some 0),
     po_stdout = \<lparr>rd_chunks = [''hel'', ''lo'' @ [LF], ''half''], rd_end = ReadAborted\<rparr>,
     po_stderr = \<lparr>rd_chunks = [''note''], rd_end = ReadEof\<rparr>,
     po_turns = [(Stderr, 5)], po_downstream_stuck = False, po_ended_at = 9, po_terminate_cut = Some 0\<rparr>"


end
