(* ===== verification/Hive_Runs.thy ===== *)
theory Hive_Runs
  imports Hive_Jobs Hive_Supervisor Hive_Guard
begin

text \<open>
  Agent runs as the store keeps them (\<open>crates/hive-store/src/agentruns.rs\<close>) and the tables of chat and
  runs (migration one): messages, turns, sessions, runs and their output. A run store is bound to the
  credential and the turn it writes for. Which workflow steps exist is a parameter; runs of a chat
  have none.
\<close>

section \<open>The tables\<close>

record message_row =
  ms_conversation :: uuid
  ms_seq :: int
  ms_role :: string
  ms_author :: uuid
  ms_body :: string
  ms_trust :: level
  ms_run_id :: "uuid option"
  ms_created_at :: time

datatype turn_state = TurnPending | TurnClaimed | TurnDone | TurnFailed

fun turn_state_as_str :: "turn_state \<Rightarrow> string" where
  "turn_state_as_str TurnPending = ''pending''"
| "turn_state_as_str TurnClaimed = ''claimed''"
| "turn_state_as_str TurnDone = ''done''"
| "turn_state_as_str TurnFailed = ''failed''"

record turn_row =
  tn_id :: uuid
  tn_conversation :: uuid
  tn_request_seq :: int
  tn_state :: turn_state
  tn_claimed_by :: "string option"
  tn_claimed_at :: "time option"
  tn_lease_expires_at :: "time option"
  tn_created_at :: time

definition turn_checks :: "turn_row \<Rightarrow> bool" where
  "turn_checks t \<longleftrightarrow> (tn_state t = TurnPending) = (tn_claimed_by t = None)"

record session_row =
  ss_conversation :: uuid
  ss_runtime :: string
  ss_session_id :: string
  ss_updated_at :: time

datatype run_state = Running | Ended terminal_state

record agent_run_row =
  ag_id :: uuid
  ag_author :: uuid
  ag_owner :: owner
  ag_agent_actor :: "uuid option"
  ag_step :: "uuid option"
  ag_run_key :: string
  ag_runtime :: string
  ag_image_digest :: string
  ag_cli_version :: string
  ag_model :: string
  ag_session_id :: string
  ag_network :: network_mode
  ag_limits :: limits
  ag_trust :: level
  ag_state :: run_state
  ag_exit_code :: "int option"
  ag_event_count :: int
  ag_stderr_tail :: string
  ag_started_at :: time
  ag_deadline_at :: "time option"
  ag_ended_at :: "time option"
  ag_conversation :: "uuid option"
  ag_turn :: "uuid option"

record run_event_row =
  re_run_id :: uuid
  re_seq :: int
  re_at :: time
  re_stream :: event_stream
  re_type :: string
  re_body :: "string option"
  re_text :: string

record chat_db = core_db +
  chat_messages :: "message_row list"
  chat_turns :: "turn_row list"
  chat_sessions :: "session_row list"
  agent_runs :: "agent_run_row list"
  agent_run_events :: "run_event_row list"

text \<open>The pattern of the run key column: 1 to 63 characters, the first alphanumeric.\<close>

definition run_key_check :: "string \<Rightarrow> bool" where
  "run_key_check k \<longleftrightarrow>
     1 \<le> length k \<and> length k \<le> 63 \<and> (case k of [] \<Rightarrow> False | c # _ \<Rightarrow> is_alnum c) \<and> \<not> list_ex (\<lambda>c. \<not> run_id_char c) k"

fun f64_ge_zero :: "f64 \<Rightarrow> bool" where
  "f64_ge_zero NaN = False"
| "f64_ge_zero PosInf = True"
| "f64_ge_zero NegInf = False"
| "f64_ge_zero (Finite q) = (0 \<le> q)"

definition run_checks :: "agent_run_row \<Rightarrow> bool" where
  "run_checks r \<longleftrightarrow>
     run_key_check (ag_run_key r) \<and> 0 \<le> lm_memory_bytes (ag_limits r) \<and> f64_ge_zero (lm_cpus (ag_limits r))
   \<and> 0 \<le> lm_pids_limit (ag_limits r) \<and> 0 \<le> ag_event_count r
   \<and> (ag_trust r = Trusted \<or> ag_network r \<noteq> NetProxied)
   \<and> (ag_state r = Running \<or> ag_ended_at r \<noteq> None)
   \<and> (case ag_ended_at r of None \<Rightarrow> True | Some t \<Rightarrow> ag_started_at r \<le> t)"

definition run_fks :: "(uuid \<Rightarrow> bool) \<Rightarrow> chat_db \<Rightarrow> agent_run_row \<Rightarrow> bool" where
  "run_fks step_exists db r \<longleftrightarrow>
     find_actor db (ag_author r) \<noteq> None \<and> find_actor db (o_id (ag_owner r)) \<noteq> None
   \<and> (case ag_agent_actor r of None \<Rightarrow> True | Some a \<Rightarrow> find_actor db a \<noteq> None)
   \<and> (case ag_step r of None \<Rightarrow> True | Some s \<Rightarrow> step_exists s)
   \<and> (case ag_conversation r of None \<Rightarrow> True | Some c \<Rightarrow> c \<in> cv_id ` set (conversations db))
   \<and> (case ag_turn r of None \<Rightarrow> True | Some t \<Rightarrow> t \<in> tn_id ` set (chat_turns db))"

text \<open>The primary key, the run key, and at most one run for each step and each turn.\<close>

definition run_clashes :: "agent_run_row \<Rightarrow> agent_run_row \<Rightarrow> bool" where
  "run_clashes r q \<longleftrightarrow>
     ag_id q = ag_id r \<or> ag_run_key q = ag_run_key r \<or> ag_step r \<noteq> None \<and> ag_step q = ag_step r
   \<or> ag_turn r \<noteq> None \<and> ag_turn q = ag_turn r"

definition insert_run :: "(uuid \<Rightarrow> bool) \<Rightarrow> string \<Rightarrow> chat_db \<Rightarrow> agent_run_row \<Rightarrow> store_error + chat_db" where
  "insert_run step_exists what db r =
     (if \<not> run_checks r then Inl (DbError what (CheckViolation ''agent_runs''))
      else if \<exists>q \<in> set (agent_runs db). run_clashes r q then Inl (DbError what UniqueViolation)
      else if \<not> run_fks step_exists db r then Inl (DbError what ForeignKeyViolation)
      else Inr (db\<lparr>agent_runs := agent_runs db @ [r]\<rparr>))"

definition update_runs ::
  "string \<Rightarrow> (agent_run_row \<Rightarrow> bool) \<Rightarrow> (agent_run_row \<Rightarrow> agent_run_row) \<Rightarrow> chat_db \<Rightarrow> store_error + (chat_db \<times> nat)" where
  "update_runs what p f db =
     (if \<exists>r \<in> set (agent_runs db). p r \<and> \<not> run_checks (f r) then Inl (DbError what (CheckViolation ''agent_runs''))
      else Inr (db\<lparr>agent_runs := update_rows p f (agent_runs db)\<rparr>, count_rows p (agent_runs db)))"

section \<open>The run store\<close>

record run_writer =
  rw_cred :: credential
  rw_agent_actor :: "uuid option"
  rw_trust :: level
  rw_step_id :: "uuid option"
  rw_conversation_id :: "uuid option"
  rw_turn_id :: "uuid option"

definition run_writer_new :: "credential \<Rightarrow> run_writer" where
  "run_writer_new c = \<lparr>rw_cred = c, rw_agent_actor = None, rw_trust = Trusted, rw_step_id = None,
     rw_conversation_id = None, rw_turn_id = None\<rparr>"

text \<open>A store for one writer, with what it remembers of run keys.\<close>

record agent_run_store =
  rs_writer :: run_writer
  rs_ids :: "(string \<times> uuid) list"

definition agent_run_store_new :: "run_writer \<Rightarrow> store_error + agent_run_store" where
  "agent_run_store_new w =
     (case credential_validate (rw_cred w) of
        Inl e \<Rightarrow> Inl (CredentialError e)
      | Inr _ \<Rightarrow> Inr \<lparr>rs_writer = w, rs_ids = []\<rparr>)"

definition run_row_id :: "chat_db \<Rightarrow> agent_run_store \<Rightarrow> string \<Rightarrow> agent_run_store \<times> (store_error + uuid)" where
  "run_row_id db st key =
     (case map_of (rs_ids st) key of
        Some i \<Rightarrow> (st, Inr i)
      | None \<Rightarrow>
          (case List.find (\<lambda>r. ag_run_key r = key \<and> ag_owner r = owner_of (rw_cred (rs_writer st))) (agent_runs db) of
             None \<Rightarrow> (st, Inl (Other ''run not found''))
           | Some r \<Rightarrow> (st\<lparr>rs_ids := (key, ag_id r) # rs_ids st\<rparr>, Inr (ag_id r))))"

definition run_deadline :: "(nat \<Rightarrow> int option) \<Rightarrow> run_record \<Rightarrow> time option" where
  "run_deadline from_std rec =
     (if rc_deadline rec = 0 then None
      else Some (rc_started_at rec + (case from_std (rc_deadline rec) of None \<Rightarrow> 0 | Some x \<Rightarrow> x)))"

definition run_row_of :: "(nat \<Rightarrow> int option) \<Rightarrow> run_writer \<Rightarrow> run_record \<Rightarrow> uuid \<Rightarrow> agent_run_row" where
  "run_row_of from_std w rec i =
     \<lparr>ag_id = i, ag_author = actor_id (rw_cred w), ag_owner = owner_of (rw_cred w), ag_agent_actor = rw_agent_actor w,
      ag_step = rw_step_id w, ag_run_key = rc_run_id rec, ag_runtime = runtime_as_str (rc_runtime rec),
      ag_image_digest = rc_image_digest rec, ag_cli_version = rc_cli_version rec, ag_model = rc_model rec,
      ag_session_id = rc_session_id rec, ag_network = rc_network rec, ag_limits = rc_limits rec, ag_trust = rw_trust w,
      ag_state = Running, ag_exit_code = None, ag_event_count = 0, ag_stderr_tail = [], ag_started_at = rc_started_at rec,
      ag_deadline_at = run_deadline from_std rec, ag_ended_at = None, ag_conversation = rw_conversation_id w,
      ag_turn = rw_turn_id w\<rparr>"

definition run_create ::
  "(uuid \<Rightarrow> bool) \<Rightarrow> (nat \<Rightarrow> int option) \<Rightarrow> chat_db \<Rightarrow> agent_run_store \<Rightarrow> run_record \<Rightarrow> uuid
   \<Rightarrow> chat_db \<times> agent_run_store \<times> (store_error + unit)" where
  "run_create step_exists from_std db st rec i =
     (case insert_run step_exists ''agent run: create'' db (run_row_of from_std (rs_writer st) rec i) of
        Inl e \<Rightarrow> (db, st, Inl e)
      | Inr db' \<Rightarrow> (db', st\<lparr>rs_ids := (rc_run_id rec, i) # rs_ids st\<rparr>, Inr ()))"

definition run_append ::
  "'j json_lib \<Rightarrow> chat_db \<Rightarrow> agent_run_store \<Rightarrow> string \<Rightarrow> run_line \<Rightarrow> chat_db \<times> agent_run_store \<times> (store_error + unit)" where
  "run_append js db st key ev =
     (case run_row_id db st key of
        (st', Inl e) \<Rightarrow> (db, st', Inl e)
      | (st', Inr i) \<Rightarrow>
          (let row = \<lparr>re_run_id = i, re_seq = ln_seq ev, re_at = ln_at ev, re_stream = ln_stream ev, re_type = ln_type ev,
                      re_body = Option.bind (ln_json ev) (js_store js), re_text = ln_text ev\<rparr>;
               bad = (\<lambda>w. (db, st', Inl (DbError ''agent run: append event'' w)))
           in if re_seq row < 1 then bad (CheckViolation ''agent_run_events'')
              else if \<exists>q \<in> set (agent_run_events db). re_run_id q = i \<and> re_seq q = re_seq row then bad UniqueViolation
              else if \<exists>q \<in> set (agent_runs db). ag_id q = i
              then (db\<lparr>agent_run_events := agent_run_events db @ [row]\<rparr>, st', Inr ())
              else bad ForeignKeyViolation))"

definition run_finish ::
  "chat_db \<Rightarrow> agent_run_store \<Rightarrow> string \<Rightarrow> run_result \<Rightarrow> chat_db \<times> agent_run_store \<times> (store_error + unit)" where
  "run_finish db st key res =
     (case run_row_id db st key of
        (st', Inl e) \<Rightarrow> (db, st', Inl e)
      | (st', Inr i) \<Rightarrow>
          (case update_runs ''agent run: finish'' (\<lambda>r. ag_id r = i \<and> ag_state r = Running)
                  (\<lambda>r. r\<lparr>ag_state := Ended (rr_state res),
                         ag_exit_code := (if 0 \<le> rr_exit_code res then Some (rr_exit_code res) else None),
                         ag_event_count := rr_event_count res, ag_stderr_tail := rr_stderr_tail res,
                         ag_session_id := (if rr_session_id res = [] then ag_session_id r else rr_session_id res),
                         ag_ended_at := Some (rr_ended_at res)\<rparr>) db of
             Inl e \<Rightarrow> (db, st', Inl e)
           | Inr (db', _) \<Rightarrow> (db', st', Inr ())))"

definition reclaim_abandoned_runs :: "(nat \<Rightarrow> int option) \<Rightarrow> chat_db \<Rightarrow> nat \<Rightarrow> time \<Rightarrow> chat_db \<times> (store_error + nat)" where
  "reclaim_abandoned_runs from_std db grace now =
     (let cutoff = now - (case from_std grace of None \<Rightarrow> 0 | Some x \<Rightarrow> x) in
      case update_runs ''agent runs: reclaim abandoned''
             (\<lambda>r. ag_state r = Running \<and> (case ag_deadline_at r of None \<Rightarrow> False | Some t \<Rightarrow> t < cutoff))
             (\<lambda>r. r\<lparr>ag_state := Ended Indeterminate, ag_ended_at := Some now\<rparr>) db of
        Inl e \<Rightarrow> (db, Inl e)
      | Inr (db', n) \<Rightarrow> (db', Inr n))"

section \<open>Lemmas\<close>

text \<open>The column's pattern and the spec's say the same.\<close>

lemma run_key_is_run_id: "run_key_check k \<longleftrightarrow> run_id_matches k"
  by (cases k) (auto simp: run_key_check_def run_id_matches_def run_id_char_def list_ex_iff list_all_iff)

end
