(* ===== verification/Hive_Chat.thy ===== *)
theory Hive_Chat
  imports Hive_Runs Hive_Lifecycle
begin

text \<open>
  The chat store (\<open>crates/hive-store/src/chat.rs\<close>): conversations, messages, the turn ledger and session
  continuity. A caller's operation asks the guard first and returns the tables, the audit file and its
  result; the worker's side takes no credential. A transaction that fails leaves the tables as they
  were, the audit file excepted, which is another database. A conversation and a message are returned
  as their rows. Rows that tie in an ORDER BY come in the order they were inserted.
\<close>

section \<open>Reading the tables\<close>

definition i32_max :: int where "i32_max = 2 ^ 31 - 1"

definition conv_messages :: "chat_db \<Rightarrow> uuid \<Rightarrow> message_row list" where
  "conv_messages db c = filter (\<lambda>m. ms_conversation m = c) (chat_messages db)"

definition find_conversation :: "chat_db \<Rightarrow> uuid \<Rightarrow> conversation option" where
  "find_conversation db c = List.find (\<lambda>v. cv_id v = c) (conversations db)"

definition find_message :: "chat_db \<Rightarrow> uuid \<Rightarrow> int \<Rightarrow> message_row option" where
  "find_message db c n = List.find (\<lambda>m. ms_conversation m = c \<and> ms_seq m = n) (chat_messages db)"

definition next_seq :: "chat_db \<Rightarrow> uuid \<Rightarrow> int" where
  "next_seq db c = (case map ms_seq (conv_messages db c) of [] \<Rightarrow> 0 | n # ns \<Rightarrow> fold max ns n) + 1"

text \<open>An UPDATE of the turns: the rows it changed, or the check one of them fails.\<close>

definition update_turns ::
  "string \<Rightarrow> (turn_row \<Rightarrow> bool) \<Rightarrow> (turn_row \<Rightarrow> turn_row) \<Rightarrow> chat_db \<Rightarrow> store_error + (chat_db \<times> nat)" where
  "update_turns what p f db =
     (if \<exists>t \<in> set (chat_turns db). p t \<and> \<not> turn_checks (f t) then Inl (DbError what (CheckViolation ''chat_turns''))
      else Inr (db\<lparr>chat_turns := update_rows p f (chat_turns db)\<rparr>, count_rows p (chat_turns db)))"

section \<open>The caller's side\<close>

type_synonym 'a chat_result = "chat_db \<times> audit_db \<times> (store_error + 'a)"

definition create_conversation ::
  "chat_db \<Rightarrow> credential \<Rightarrow> string \<Rightarrow> string \<Rightarrow> string \<Rightarrow> uuid \<Rightarrow> time \<Rightarrow> chat_db \<times> (store_error + conversation)" where
  "create_conversation db c runtime model title i now =
     (case credential_validate c of
        Inl e \<Rightarrow> (db, Inl (CredentialError e))
      | Inr _ \<Rightarrow>
          if trim runtime = [] then (db, Inl (InvalidInput ''a conversation needs a runtime''))
          else
            (let v = \<lparr>cv_id = i, cv_author = actor_id c, cv_owner = owner_of c, cv_runtime = runtime, cv_model = model,
                      cv_title = title, cv_created_at = now, cv_updated_at = now, cv_archived_at = None\<rparr>;
                 s = \<lparr>ss_conversation = i, ss_runtime = runtime, ss_session_id = [], ss_updated_at = now\<rparr>;
                 bad = (\<lambda>what w. (db, Inl (DbError what w)))
             in if find_conversation db i \<noteq> None then bad ''chat: create conversation'' UniqueViolation
                else if find_actor db (actor_id c) = None \<or> find_actor db (o_id (owner_of c)) = None
                then bad ''chat: create conversation'' ForeignKeyViolation
                else if \<exists>q \<in> set (chat_sessions db). ss_conversation q = i then bad ''chat: create session'' UniqueViolation
                else (db\<lparr>conversations := conversations db @ [v], chat_sessions := chat_sessions db @ [s]\<rparr>, Inr v)))"

definition conversation_read ::
  "chat_db \<Rightarrow> audit_db \<Rightarrow> credential \<Rightarrow> uuid \<Rightarrow> time \<Rightarrow> time \<Rightarrow> audit_db \<times> (store_error + conversation)" where
  "conversation_read db au c i t1 t2 =
     (case credential_validate c of
        Inl e \<Rightarrow> (au, Inl (CredentialError e))
      | Inr _ \<Rightarrow>
          (case authorize db au c (subject_new SConversation i) Read ''chat.read'' t1 t2 of
             (au', Inl e) \<Rightarrow> (au', Inl e)
           | (au', Inr _) \<Rightarrow>
               (case List.find (\<lambda>v. cv_id v = i \<and> cv_archived_at v = None) (conversations db) of
                  None \<Rightarrow> (au', Inl Denied)
                | Some v \<Rightarrow> (au', Inr v))))"

definition chat_page_limit :: "int \<Rightarrow> int \<Rightarrow> int \<Rightarrow> int" where
  "chat_page_limit hi std lmt = (if lmt \<le> 0 \<or> hi < lmt then std else lmt)"

definition conversations_list ::
  "chat_db \<Rightarrow> audit_db \<Rightarrow> credential \<Rightarrow> int \<Rightarrow> time \<Rightarrow> time \<Rightarrow> audit_db \<times> (store_error + conversation list)" where
  "conversations_list db au c lmt t1 t2 =
     (case credential_validate c of
        Inl e \<Rightarrow> (au, Inl (CredentialError e))
      | Inr _ \<Rightarrow>
          (case visible_conversation_ids db au c Read (chat_page_limit 200 50 lmt) t1 t2 of
             (au', Inl e) \<Rightarrow> (au', Inl e)
           | (au', Inr is) \<Rightarrow>
               if is = [] then (au', Inr [])
               else (au', Inr (sort_key (\<lambda>v. - cv_updated_at v) (filter (\<lambda>v. cv_id v \<in> set is) (conversations db))))))"

text \<open>The message, the touched conversation and, for a person's message, its turn: one transaction.\<close>

definition insert_message :: "chat_db \<Rightarrow> message_row \<Rightarrow> store_error + chat_db" where
  "insert_message db m =
     (if ms_seq m < 1 \<or> ms_role m \<notin> {''user'', ''agent'', ''system''}
      then Inl (DbError ''chat: post'' (CheckViolation ''chat_messages''))
      else if find_message db (ms_conversation m) (ms_seq m) \<noteq> None then Inl (DbError ''chat: post'' UniqueViolation)
      else if find_conversation db (ms_conversation m) = None \<or> find_actor db (ms_author m) = None
            \<or> (case ms_run_id m of None \<Rightarrow> False | Some r \<Rightarrow> r \<notin> ag_id ` set (agent_runs db))
      then Inl (DbError ''chat: post'' ForeignKeyViolation)
      else Inr (db\<lparr>chat_messages := chat_messages db @ [m],
                   conversations := update_rows (\<lambda>v. cv_id v = ms_conversation m)
                     (\<lambda>v. v\<lparr>cv_updated_at := ms_created_at m\<rparr>) (conversations db)\<rparr>))"

definition insert_turn :: "chat_db \<Rightarrow> turn_row \<Rightarrow> store_error + chat_db" where
  "insert_turn db t =
     (if \<not> turn_checks t then Inl (DbError ''chat: open turn'' (CheckViolation ''chat_turns''))
      else if \<exists>q \<in> set (chat_turns db). tn_id q = tn_id t
            \<or> tn_conversation q = tn_conversation t \<and> tn_request_seq q = tn_request_seq t
      then Inl (DbError ''chat: open turn'' UniqueViolation)
      else if find_conversation db (tn_conversation t) = None then Inl (DbError ''chat: open turn'' ForeignKeyViolation)
      else Inr (db\<lparr>chat_turns := chat_turns db @ [t]\<rparr>))"

definition new_turn :: "uuid \<Rightarrow> message_row \<Rightarrow> turn_row" where
  "new_turn i m = \<lparr>tn_id = i, tn_conversation = ms_conversation m, tn_request_seq = ms_seq m, tn_state = TurnPending,
     tn_claimed_by = None, tn_claimed_at = None, tn_lease_expires_at = None, tn_created_at = ms_created_at m\<rparr>"

definition post_rows :: "chat_db \<Rightarrow> message_row \<Rightarrow> uuid \<Rightarrow> store_error + (chat_db \<times> turn_row option)" where
  "post_rows db m i =
     (case insert_message db m of
        Inl e \<Rightarrow> Inl e
      | Inr db1 \<Rightarrow>
          if ms_role m = ''user''
          then (case insert_turn db1 (new_turn i m) of
                  Inl e \<Rightarrow> Inl e
                | Inr db2 \<Rightarrow> Inr (db2, Some (new_turn i m)))
          else Inr (db1, None))"

definition post_message ::
  "chat_db \<Rightarrow> audit_db \<Rightarrow> credential \<Rightarrow> uuid \<Rightarrow> string \<Rightarrow> string \<Rightarrow> level \<Rightarrow> uuid option \<Rightarrow> uuid \<Rightarrow> time \<Rightarrow> time \<Rightarrow> time
   \<Rightarrow> (message_row \<times> turn_row option) chat_result" where
  "post_message db au c conv role body lvl run i t1 t2 now =
     (case credential_validate c of
        Inl e \<Rightarrow> (db, au, Inl (CredentialError e))
      | Inr _ \<Rightarrow>
          if trim body = [] then (db, au, Inl (InvalidInput ''an empty message is not a message''))
          else if role \<notin> {''user'', ''agent'', ''system''} then (db, au, Inl (InvalidInput ''unknown role''))
          else
            (case authorize db au c (subject_new SConversation conv) Write ''chat.post'' t1 t2 of
               (au', Inl e) \<Rightarrow> (db, au', Inl e)
             | (au', Inr _) \<Rightarrow>
                 if i32_max < next_seq db conv then (db, au', Inl (DbError ''chat: next seq'' (DecodeError ''i32'')))
                 else
                   (let m = \<lparr>ms_conversation = conv, ms_seq = next_seq db conv, ms_role = role, ms_author = actor_id c,
                             ms_body = body, ms_trust = lvl, ms_run_id = run, ms_created_at = now\<rparr>
                    in case post_rows db m i of
                         Inl e \<Rightarrow> (db, au', Inl e)
                       | Inr (db', t) \<Rightarrow> (db', au', Inr (m, t)))))"

definition chat_gate :: "chat_db \<Rightarrow> audit_db \<Rightarrow> credential \<Rightarrow> uuid \<Rightarrow> time \<Rightarrow> time \<Rightarrow> audit_db \<times> (store_error + unit)" where
  "chat_gate db au c conv t1 t2 =
     (case credential_validate c of
        Inl e \<Rightarrow> (au, Inl (CredentialError e))
      | Inr _ \<Rightarrow>
          (case authorize db au c (subject_new SConversation conv) Read ''chat.read'' t1 t2 of
             (au', Inl e) \<Rightarrow> (au', Inl e)
           | (au', Inr _) \<Rightarrow> (au', Inr ())))"

definition messages ::
  "chat_db \<Rightarrow> audit_db \<Rightarrow> credential \<Rightarrow> uuid \<Rightarrow> int \<Rightarrow> int \<Rightarrow> time \<Rightarrow> time \<Rightarrow> audit_db \<times> (store_error + message_row list)" where
  "messages db au c conv after lmt t1 t2 =
     (case chat_gate db au c conv t1 t2 of
        (au', Inl e) \<Rightarrow> (au', Inl e)
      | (au', Inr _) \<Rightarrow>
          (au', Inr (limit_rows (chat_page_limit 200 100 lmt)
                       (sort_key ms_seq (filter (\<lambda>m. after < ms_seq m) (conv_messages db conv))))))"

definition is_open :: "turn_row \<Rightarrow> bool" where
  "is_open t \<longleftrightarrow> tn_state t \<in> {TurnPending, TurnClaimed}"

definition open_turns ::
  "chat_db \<Rightarrow> audit_db \<Rightarrow> credential \<Rightarrow> uuid \<Rightarrow> time \<Rightarrow> time
   \<Rightarrow> audit_db \<times> (store_error + (uuid \<times> int \<times> turn_state) list)" where
  "open_turns db au c conv t1 t2 =
     (case chat_gate db au c conv t1 t2 of
        (au', Inl e) \<Rightarrow> (au', Inl e)
      | (au', Inr _) \<Rightarrow>
          (au', Inr (map (\<lambda>t. (tn_id t, tn_request_seq t, tn_state t))
                       (sort_key tn_request_seq (filter (\<lambda>t. tn_conversation t = conv \<and> is_open t) (chat_turns db))))))"

record run_event =
  rv_request_seq :: int
  rv_run_id :: uuid
  rv_seq :: int
  rv_at :: time
  rv_stream :: event_stream
  rv_type :: string
  rv_body :: string
  rv_text :: string

text \<open>The join of a conversation's runs with their turns and their output.\<close>

definition run_event_of :: "turn_row \<Rightarrow> run_event_row \<Rightarrow> run_event" where
  "run_event_of t e = \<lparr>rv_request_seq = tn_request_seq t, rv_run_id = re_run_id e, rv_seq = re_seq e, rv_at = re_at e,
     rv_stream = re_stream e, rv_type = re_type e, rv_body = (case re_body e of None \<Rightarrow> [] | Some b \<Rightarrow> b), rv_text = re_text e\<rparr>"

definition conv_run_events :: "chat_db \<Rightarrow> uuid \<Rightarrow> run_event list" where
  "conv_run_events db conv =
     concat (map (\<lambda>r. case Option.bind (ag_turn r) (\<lambda>i. List.find (\<lambda>t. tn_id t = i) (chat_turns db)) of
                        None \<Rightarrow> []
                      | Some t \<Rightarrow> map (run_event_of t) (filter (\<lambda>e. re_run_id e = ag_id r) (agent_run_events db)))
       (filter (\<lambda>r. ag_conversation r = Some conv) (agent_runs db)))"

definition rv_pos :: "run_event \<Rightarrow> int \<times> int" where
  "rv_pos e = (rv_request_seq e, rv_seq e)"

definition turn_events ::
  "chat_db \<Rightarrow> audit_db \<Rightarrow> credential \<Rightarrow> uuid \<Rightarrow> int \<Rightarrow> int \<Rightarrow> int \<Rightarrow> time \<Rightarrow> time \<Rightarrow> audit_db \<times> (store_error + run_event list)" where
  "turn_events db au c conv after_request after lmt t1 t2 =
     (case chat_gate db au c conv t1 t2 of
        (au', Inl e) \<Rightarrow> (au', Inl e)
      | (au', Inr _) \<Rightarrow>
          (au', Inr (limit_rows (chat_page_limit 1000 500 lmt)
                       (sort_key rv_pos (filter (\<lambda>e. (after_request, after) < rv_pos e) (conv_run_events db conv))))))"

section \<open>Sessions\<close>

definition resume_session :: "chat_db \<Rightarrow> uuid \<Rightarrow> store_error + (string \<times> string)" where
  "resume_session db conv =
     (case List.find (\<lambda>s. ss_conversation s = conv) (chat_sessions db) of
        None \<Rightarrow> Inl NoRows
      | Some s \<Rightarrow> Inr (ss_runtime s, ss_session_id s))"

definition record_session :: "chat_db \<Rightarrow> uuid \<Rightarrow> string \<Rightarrow> time \<Rightarrow> chat_db" where
  "record_session db conv sid now =
     (if trim sid = [] then db
      else db\<lparr>chat_sessions := update_rows (\<lambda>s. ss_conversation s = conv)
                (\<lambda>s. s\<lparr>ss_session_id := sid, ss_updated_at := now\<rparr>) (chat_sessions db)\<rparr>)"

section \<open>The worker's side\<close>

record claimed_turn =
  ct_turn_id :: uuid
  ct_conversation_id :: uuid
  ct_request_seq :: int
  ct_owner :: owner
  ct_author_actor :: uuid
  ct_runtime :: string
  ct_model :: string
  ct_prompt :: string

text \<open>A pending turn with no earlier open turn of its conversation, and the rows it joins.\<close>

definition no_earlier_open :: "turn_row list \<Rightarrow> turn_row \<Rightarrow> bool" where
  "no_earlier_open ts t \<longleftrightarrow>
     \<not> list_ex (\<lambda>u. tn_conversation u = tn_conversation t \<and> tn_request_seq u < tn_request_seq t \<and> is_open u) ts"

definition claimed_turn_of :: "chat_db \<Rightarrow> turn_row \<Rightarrow> string \<Rightarrow> claimed_turn option" where
  "claimed_turn_of db t prompt =
     map_option (\<lambda>v. \<lparr>ct_turn_id = tn_id t, ct_conversation_id = tn_conversation t, ct_request_seq = tn_request_seq t,
                      ct_owner = cv_owner v, ct_author_actor = cv_author v, ct_runtime = cv_runtime v,
                      ct_model = cv_model v, ct_prompt = prompt\<rparr>)
       (find_conversation db (tn_conversation t))"

definition claim_row :: "chat_db \<Rightarrow> turn_row \<Rightarrow> claimed_turn option" where
  "claim_row db t =
     (if tn_state t = TurnPending \<and> no_earlier_open (chat_turns db) t
      then (case find_message db (tn_conversation t) (tn_request_seq t) of
              None \<Rightarrow> None
            | Some m \<Rightarrow> claimed_turn_of db t (ms_body m))
      else None)"

definition claim_turn ::
  "(nat \<Rightarrow> int option) \<Rightarrow> chat_db \<Rightarrow> string \<Rightarrow> nat \<Rightarrow> time \<Rightarrow> time \<Rightarrow> chat_db \<times> (store_error + claimed_turn option)" where
  "claim_turn from_std db worker lease now now2 =
     (if worker = [] then (db, Inl (Other ''chat: a claim needs a worker name; an untraceable claim is worse than none''))
      else if lease = 0 then (db, Inl (Other ''chat: a claim needs a positive lease''))
      else (case List.map_filter (claim_row db) (sort_key tn_created_at (chat_turns db)) of
              [] \<Rightarrow> (db, Inr None)
            | ct # _ \<Rightarrow>
                (case update_turns ''chat: claim turn'' (\<lambda>t. tn_id t = ct_turn_id ct)
                        (\<lambda>t. t\<lparr>tn_state := TurnClaimed, tn_claimed_by := Some worker, tn_claimed_at := Some now,
                               tn_lease_expires_at := Some (lease_until from_std now2 lease)\<rparr>) db of
                   Inl e \<Rightarrow> (db, Inl e)
                 | Inr (db', _) \<Rightarrow> (db', Inr (Some ct)))))"

definition extend_turn_lease ::
  "(nat \<Rightarrow> int option) \<Rightarrow> chat_db \<Rightarrow> uuid \<Rightarrow> string \<Rightarrow> nat \<Rightarrow> time \<Rightarrow> chat_db \<times> (store_error + bool)" where
  "extend_turn_lease from_std db i worker lease now =
     (case update_turns ''chat: extend lease''
             (\<lambda>t. tn_id t = i \<and> tn_state t = TurnClaimed \<and> tn_claimed_by t = Some worker)
             (\<lambda>t. t\<lparr>tn_lease_expires_at := Some (lease_until from_std now lease)\<rparr>) db of
        Inl e \<Rightarrow> (db, Inl e)
      | Inr (db', n) \<Rightarrow> (db', Inr (n = 1)))"

definition close_turn :: "chat_db \<Rightarrow> uuid \<Rightarrow> turn_state \<Rightarrow> chat_db \<times> (store_error + unit)" where
  "close_turn db i st =
     (if st \<noteq> TurnDone \<and> st \<noteq> TurnFailed then (db, Inl (Other ''not a terminal turn state''))
      else (case update_turns ''chat: close turn'' (\<lambda>t. tn_id t = i \<and> tn_state t = TurnClaimed)
                   (\<lambda>t. t\<lparr>tn_state := st\<rparr>) db of
              Inl e \<Rightarrow> (db, Inl e)
            | Inr (db', _) \<Rightarrow> (db', Inr ())))"

definition turn_lapsed :: "time \<Rightarrow> turn_row \<Rightarrow> bool" where
  "turn_lapsed now t \<longleftrightarrow> tn_state t = TurnClaimed \<and> (case tn_lease_expires_at t of None \<Rightarrow> False | Some e \<Rightarrow> e < now)"

definition lapsed_turns :: "chat_db \<Rightarrow> time \<Rightarrow> claimed_turn list" where
  "lapsed_turns db now =
     List.map_filter (\<lambda>t. claimed_turn_of db t [])
       (sort_key (\<lambda>t. case tn_lease_expires_at t of None \<Rightarrow> 0 | Some e \<Rightarrow> e) (filter (turn_lapsed now) (chat_turns db)))"

fun fail_lapsed :: "time \<Rightarrow> chat_db \<Rightarrow> claimed_turn list \<Rightarrow> store_error + chat_db" where
  "fail_lapsed now db [] = Inr db"
| "fail_lapsed now db (ct # cts) =
     (case update_turns ''chat: fail lapsed turn'' (\<lambda>t. tn_id t = ct_turn_id ct) (\<lambda>t. t\<lparr>tn_state := TurnFailed\<rparr>) db of
        Inl e \<Rightarrow> Inl e
      | Inr (db1, _) \<Rightarrow>
          (case update_runs ''chat: mark run indeterminate''
                  (\<lambda>r. ag_turn r = Some (ct_turn_id ct) \<and> ag_state r = Running)
                  (\<lambda>r. r\<lparr>ag_state := Ended Indeterminate, ag_ended_at := Some now\<rparr>) db1 of
             Inl e \<Rightarrow> Inl e
           | Inr (db2, _) \<Rightarrow> fail_lapsed now db2 cts))"

definition reclaim_lapsed_turns :: "chat_db \<Rightarrow> time \<Rightarrow> chat_db \<times> (store_error + claimed_turn list)" where
  "reclaim_lapsed_turns db now =
     (case fail_lapsed now db (lapsed_turns db now) of
        Inl e \<Rightarrow> (db, Inl e)
      | Inr db' \<Rightarrow> (db', Inr (lapsed_turns db now)))"

end
