(* ===== verification/Hive_Turns.thy ===== *)
theory Hive_Turns
  imports Hive_Chat
begin

text \<open>
  What the chat tables keep under every operation of the chat store and the run store: the messages of
  a conversation are numbered without gaps, every turn answers one person's message, a claimed turn
  has no open turn before it, a turn has at most one run, and closed turns and ended runs never change.
\<close>

section \<open>The invariant\<close>

definition dense :: "int list \<Rightarrow> bool" where
  "dense ns \<longleftrightarrow> ns = map int [1..<Suc (length ns)]"

definition asks :: "message_row \<Rightarrow> turn_row \<Rightarrow> bool" where
  "asks m t \<longleftrightarrow> ms_conversation m = tn_conversation t \<and> ms_seq m = tn_request_seq t \<and> ms_role m = ''user''"

abbreviation turn_place :: "turn_row \<Rightarrow> uuid \<times> int" where
  "turn_place t \<equiv> (tn_conversation t, tn_request_seq t)"

definition turns_ok :: "message_row list \<Rightarrow> turn_row list \<Rightarrow> bool" where
  "turns_ok ms ts \<longleftrightarrow>
     distinct (map tn_id ts) \<and> distinct (map turn_place ts) \<and> list_all turn_checks ts
   \<and> list_all (\<lambda>t. list_ex (\<lambda>m. asks m t) ms) ts
   \<and> list_all (\<lambda>t. tn_state t = TurnClaimed \<longrightarrow> no_earlier_open ts t) ts"

definition runs_ok :: "agent_run_row list \<Rightarrow> bool" where
  "runs_ok rs \<longleftrightarrow>
     distinct (map ag_id rs) \<and> distinct (map ag_run_key rs) \<and> distinct (List.map_filter ag_turn rs) \<and> list_all run_checks rs"

definition chat_ok :: "chat_db \<Rightarrow> bool" where
  "chat_ok db \<longleftrightarrow>
     list_all (\<lambda>m. dense (map ms_seq (conv_messages db (ms_conversation m)))) (chat_messages db)
   \<and> list_all (\<lambda>t. find_conversation db (tn_conversation t) \<noteq> None) (chat_turns db)
   \<and> turns_ok (chat_messages db) (chat_turns db) \<and> runs_ok (agent_runs db)"

section \<open>How rows move\<close>

definition same_turn :: "turn_row \<Rightarrow> turn_row \<Rightarrow> bool" where
  "same_turn t t' \<longleftrightarrow> tn_id t' = tn_id t \<and> turn_place t' = turn_place t \<and> tn_created_at t' = tn_created_at t"

definition turn_move :: "turn_row \<Rightarrow> turn_row \<Rightarrow> bool" where
  "turn_move t t' \<longleftrightarrow> same_turn t t' \<and>
     (case tn_state t of
        TurnPending \<Rightarrow> tn_state t' = TurnClaimed
      | TurnClaimed \<Rightarrow> tn_state t' \<noteq> TurnPending \<and> tn_claimed_by t' = tn_claimed_by t
      | _ \<Rightarrow> False)"

definition same_run :: "agent_run_row \<Rightarrow> agent_run_row \<Rightarrow> bool" where
  "same_run r r' \<longleftrightarrow>
     r' = r\<lparr>ag_state := ag_state r', ag_exit_code := ag_exit_code r', ag_event_count := ag_event_count r',
            ag_stderr_tail := ag_stderr_tail r', ag_session_id := ag_session_id r', ag_ended_at := ag_ended_at r'\<rparr>"

definition run_move :: "agent_run_row \<Rightarrow> agent_run_row \<Rightarrow> bool" where
  "run_move r r' \<longleftrightarrow> same_run r r' \<and> ag_state r = Running \<and> ag_state r' \<noteq> Running"

abbreviation turn_at :: "chat_db \<Rightarrow> uuid \<Rightarrow> turn_row option" where
  "turn_at db \<equiv> state_in tn_id id (chat_turns db)"

abbreviation run_at :: "chat_db \<Rightarrow> uuid \<Rightarrow> agent_run_row option" where
  "run_at db \<equiv> state_in ag_id id (agent_runs db)"

text \<open>One operation: rows are kept or moved, and new ones come last.\<close>

definition chat_effect :: "chat_db \<Rightarrow> chat_db \<Rightarrow> bool" where
  "chat_effect db db' \<longleftrightarrow>
     (\<exists>f new. chat_turns db' = map f (chat_turns db) @ new \<and>
        (\<forall>t \<in> set (chat_turns db). turn_move\<^sup>*\<^sup>* t (f t)))
   \<and> (\<exists>f new. agent_runs db' = map f (agent_runs db) @ new \<and>
        (\<forall>r \<in> set (agent_runs db). run_move\<^sup>*\<^sup>* r (f r)))"

inductive chat_step :: "(uuid \<Rightarrow> bool) \<Rightarrow> (nat \<Rightarrow> int option) \<Rightarrow> 'j json_lib \<Rightarrow> chat_db \<Rightarrow> chat_db \<Rightarrow> bool"
  for step_exists from_std js where
  chat_create: "chat_step step_exists from_std js db (fst (create_conversation db c runtime model title i now))"
| chat_post: "chat_step step_exists from_std js db (fst (post_message db au c conv role body lvl run i t1 t2 now))"
| chat_session: "chat_step step_exists from_std js db (record_session db conv sid now)"
| chat_claim: "chat_step step_exists from_std js db (fst (claim_turn from_std db worker lease now now2))"
| chat_extend: "chat_step step_exists from_std js db (fst (extend_turn_lease from_std db i worker lease now))"
| chat_close: "chat_step step_exists from_std js db (fst (close_turn db i st))"
| chat_reclaim: "chat_step step_exists from_std js db (fst (reclaim_lapsed_turns db now))"
| chat_run_create: "chat_step step_exists from_std js db (fst (run_create step_exists from_std db rs rec i))"
| chat_run_append: "chat_step step_exists from_std js db (fst (run_append js db rs key ev))"
| chat_run_finish: "chat_step step_exists from_std js db (fst (run_finish db rs key res))"
| chat_run_reclaim: "chat_step step_exists from_std js db (fst (reclaim_abandoned_runs from_std db grace now))"

section \<open>Updates of turns and runs\<close>

lemma same_turn_refl [simp]: "same_turn t t"
  by (simp add: same_turn_def)

lemma turn_move_open: "turn_move t t' \<Longrightarrow> is_open t"
  by (auto simp: turn_move_def is_open_def split: turn_state.splits)

lemma moved_same: "f t = t \<or> turn_move t (f t) \<Longrightarrow> same_turn t (f t)"
  by (auto simp: turn_move_def)

text \<open>A new claim must have been ready; then moving the rows keeps the ledger in order.\<close>

lemma turns_ok_map:
  assumes ok: "turns_ok ms ts"
    and moves: "\<And>t. t \<in> set ts \<Longrightarrow> f t = t \<or> turn_move t (f t)"
    and ready: "\<And>t. t \<in> set ts \<Longrightarrow> tn_state (f t) = TurnClaimed \<Longrightarrow> tn_state t = TurnClaimed \<or> no_earlier_open ts t"
    and checks: "\<And>t. t \<in> set ts \<Longrightarrow> turn_checks (f t)"
  shows "turns_ok ms (map f ts)"
proof -
  have same: "same_turn t (f t)" if "t \<in> set ts" for t using moved_same moves that by blast
  have ids: "map (tn_id \<circ> f) ts = map tn_id ts" "map (turn_place \<circ> f) ts = map turn_place ts"
    using same by (simp_all add: same_turn_def)
  have "no_earlier_open (map f ts) (f t)" if t: "t \<in> set ts" "tn_state (f t) = TurnClaimed" for t
  proof -
    have first: "no_earlier_open ts t" using ready [OF t] ok t(1) by (auto simp: turns_ok_def list_all_iff)
    have "\<not> is_open (f u)" if u: "u \<in> set ts" "tn_conversation (f u) = tn_conversation (f t)"
        "tn_request_seq (f u) < tn_request_seq (f t)" for u
    proof -
      have "\<not> is_open u" using first u same [OF t(1)] same [OF u(1)]
        by (auto simp: no_earlier_open_def list_ex_iff same_turn_def)
      then show ?thesis using moves [OF u(1)] turn_move_open by fastforce
    qed
    then show ?thesis by (auto simp: no_earlier_open_def list_ex_iff)
  qed
  moreover have "list_ex (\<lambda>m. asks m (f t)) ms" if "t \<in> set ts" for t
    using ok same [OF that] that by (auto simp: turns_ok_def list_all_iff asks_def same_turn_def)
  ultimately show ?thesis
    using ok checks unfolding turns_ok_def by (simp add: ids list_all_iff del: map_map) (simp add: ids)
qed

lemma update_turns_ok:
  assumes "update_turns what p f db = Inr (db', n)" "chat_ok db"
    and "\<And>t. t \<in> set (chat_turns db) \<Longrightarrow> p t \<Longrightarrow> f t = t \<or> turn_move t (f t)"
    and "\<And>t. t \<in> set (chat_turns db) \<Longrightarrow> p t \<Longrightarrow> tn_state (f t) = TurnClaimed \<Longrightarrow>
      tn_state t = TurnClaimed \<or> no_earlier_open (chat_turns db) t"
  shows "chat_ok db' \<and> chat_effect db db'"
proof -
  let ?g = "\<lambda>t. if p t then f t else t"
  have db': "db' = db\<lparr>chat_turns := map ?g (chat_turns db)\<rparr>"
    and c: "\<And>t. t \<in> set (chat_turns db) \<Longrightarrow> p t \<Longrightarrow> turn_checks (f t)"
    using assms(1) by (auto simp: update_turns_def update_rows_def split: if_split_asm)
  have m: "?g t = t \<or> turn_move t (?g t)" if "t \<in> set (chat_turns db)" for t using assms(3) that by auto
  have "turns_ok (chat_messages db) (map ?g (chat_turns db))"
    by (rule turns_ok_map) (use assms(2,4) m c in \<open>auto simp: chat_ok_def turns_ok_def list_all_iff split: if_split_asm\<close>)
  moreover have "tn_conversation (f t) = tn_conversation t" if "t \<in> set (chat_turns db)" "p t" for t
    using moved_same [of ?g t] m [OF that(1)] that(2) by (simp add: same_turn_def)
  ultimately have "chat_ok db'"
    using assms(2) by (auto simp: chat_ok_def db' conv_messages_def find_conversation_def list_all_iff)
  moreover have "chat_effect db db'"
  proof -
    have "turn_move\<^sup>*\<^sup>* t (?g t)" if "t \<in> set (chat_turns db)" for t using m [OF that] by auto
    then show ?thesis
      unfolding chat_effect_def db' by (intro conjI exI [of _ ?g] exI [of _ "[]"] exI [of _ "\<lambda>r. r"]) simp_all
  qed
  ultimately show ?thesis ..
qed

lemma same_run_keys: "same_run r r' \<Longrightarrow> ag_id r' = ag_id r \<and> ag_run_key r' = ag_run_key r \<and> ag_turn r' = ag_turn r"
  unfolding same_run_def by (cases r'; cases r) simp

lemma map_filter_map_same:
  "(\<And>x. x \<in> set xs \<Longrightarrow> h (f x) = h x) \<Longrightarrow> List.map_filter h (map f xs) = List.map_filter h xs"
  by (induction xs) (auto simp: List.map_filter_def)

lemma update_runs_ok:
  assumes "update_runs what p f db = Inr (db', n)" "chat_ok db"
    and "\<And>r. r \<in> set (agent_runs db) \<Longrightarrow> p r \<Longrightarrow> run_move r (f r)"
  shows "chat_ok db' \<and> chat_effect db db' \<and> chat_turns db' = chat_turns db"
proof -
  let ?g = "\<lambda>r. if p r then f r else r"
  have db': "db' = db\<lparr>agent_runs := map ?g (agent_runs db)\<rparr>"
    and c: "\<And>r. r \<in> set (agent_runs db) \<Longrightarrow> p r \<Longrightarrow> run_checks (f r)"
    using assms(1) by (auto simp: update_runs_def update_rows_def split: if_split_asm)
  have keys: "ag_id (?g r) = ag_id r" "ag_run_key (?g r) = ag_run_key r" "ag_turn (?g r) = ag_turn r"
    if "r \<in> set (agent_runs db)" for r
    using assms(3) [OF that] same_run_keys by (auto simp: run_move_def)
  have k: "map ag_id (map ?g (agent_runs db)) = map ag_id (agent_runs db)"
    "map ag_run_key (map ?g (agent_runs db)) = map ag_run_key (agent_runs db)"
    "List.map_filter ag_turn (map ?g (agent_runs db)) = List.map_filter ag_turn (agent_runs db)"
    using keys by (simp_all add: map_filter_map_same)
  have "runs_ok (map ?g (agent_runs db))"
    unfolding runs_ok_def k using assms(2) c by (auto simp: chat_ok_def runs_ok_def list_all_iff)
  then have "chat_ok db'"
    using assms(2) by (simp add: chat_ok_def db' conv_messages_def find_conversation_def)
  moreover have "chat_effect db db'"
  proof -
    have "run_move\<^sup>*\<^sup>* r (?g r)" if "r \<in> set (agent_runs db)" for r using assms(3) [OF that] by auto
    then show ?thesis
      unfolding chat_effect_def db' by (intro conjI exI [of _ ?g] exI [of _ "[]"] exI [of _ "\<lambda>r. r"]) simp_all
  qed
  ultimately show ?thesis by (simp add: db')
qed

section \<open>Each operation\<close>

lemma chat_effect_same:
  "chat_turns db' = chat_turns db \<Longrightarrow> agent_runs db' = agent_runs db \<Longrightarrow> chat_effect db db'"
  unfolding chat_effect_def by (intro conjI exI [of _ "\<lambda>r. r"] exI [of _ "[]"]) simp_all

lemma find_conversation_iff: "find_conversation db c \<noteq> None \<longleftrightarrow> c \<in> set (map cv_id (conversations db))"
  unfolding find_conversation_def find_neq_None by auto

text \<open>An operation that leaves messages, turns, runs and the conversations' ids alone.\<close>

lemma chat_ok_cong:
  assumes "chat_messages db' = chat_messages db" "chat_turns db' = chat_turns db" "agent_runs db' = agent_runs db"
    and "set (map cv_id (conversations db)) \<subseteq> set (map cv_id (conversations db'))"
  shows "chat_ok db \<Longrightarrow> chat_ok db' \<and> chat_effect db db'"
proof -
  have "find_conversation db' c \<noteq> None" if "find_conversation db c \<noteq> None" for c
    using assms(4) that unfolding find_conversation_iff by blast
  then show "chat_ok db \<Longrightarrow> ?thesis"
    using assms(1-3) by (auto simp: chat_ok_def conv_messages_def list_all_iff intro: chat_effect_same)
qed

lemma chat_ok_refl: "chat_ok db \<Longrightarrow> chat_ok db \<and> chat_effect db db"
  by (simp add: chat_effect_same)

lemma create_conversation_ok:
  assumes "chat_ok db" shows "chat_ok (fst (create_conversation db c runtime model title i now)) \<and>
    chat_effect db (fst (create_conversation db c runtime model title i now))"
  by (rule chat_ok_cong [OF _ _ _ _ assms]) (auto simp: create_conversation_def Let_def split: sum.split)

lemma record_session_ok:
  "chat_ok db \<Longrightarrow> chat_ok (record_session db conv sid now) \<and> chat_effect db (record_session db conv sid now)"
  by (rule chat_ok_cong) (simp_all add: record_session_def)

lemma run_append_ok:
  "chat_ok db \<Longrightarrow> chat_ok (fst (run_append js db st key ev)) \<and> chat_effect db (fst (run_append js db st key ev))"
  by (rule chat_ok_cong) (simp_all add: run_append_def Let_def split: prod.split sum.split)

lemma extend_turn_lease_ok:
  assumes "chat_ok db" shows "chat_ok (fst (extend_turn_lease from_std db i worker lease now)) \<and>
    chat_effect db (fst (extend_turn_lease from_std db i worker lease now))"
  unfolding extend_turn_lease_def
  by (auto split: sum.split simp: chat_ok_refl [OF assms] turn_move_def same_turn_def dest!: update_turns_ok [OF _ assms])

lemma close_turn_ok:
  assumes "chat_ok db" shows "chat_ok (fst (close_turn db i st)) \<and> chat_effect db (fst (close_turn db i st))"
  unfolding close_turn_def
  by (auto split: sum.split simp: chat_ok_refl [OF assms] turn_move_def same_turn_def dest!: update_turns_ok [OF _ assms])

lemma run_finish_ok:
  assumes "chat_ok db" shows "chat_ok (fst (run_finish db st key res)) \<and> chat_effect db (fst (run_finish db st key res))"
  unfolding run_finish_def
  by (auto split: sum.split prod.split simp: chat_ok_refl [OF assms] run_move_def same_run_def dest!: update_runs_ok [OF _ assms])

lemma reclaim_abandoned_runs_ok:
  assumes "chat_ok db" shows "chat_ok (fst (reclaim_abandoned_runs from_std db grace now)) \<and>
    chat_effect db (fst (reclaim_abandoned_runs from_std db grace now))"
  unfolding reclaim_abandoned_runs_def Let_def
  by (auto split: sum.split prod.split simp: chat_ok_refl [OF assms] run_move_def same_run_def dest!: update_runs_ok [OF _ assms])

text \<open>The answer to a claim, the first turn in line.\<close>

lemma map_filter_ConsD: "List.map_filter h xs = y # ys \<Longrightarrow> \<exists>x \<in> set xs. h x = Some y"
  by (induction xs) (auto simp: List.map_filter_def split: if_split_asm)

lemma claim_row_Some:
  assumes "claim_row db t = Some ct"
  shows "tn_state t = TurnPending \<and> no_earlier_open (chat_turns db) t \<and> ct_turn_id ct = tn_id t \<and>
    ct_conversation_id ct = tn_conversation t \<and> ct_request_seq ct = tn_request_seq t \<and>
    (\<exists>m v. find_message db (tn_conversation t) (tn_request_seq t) = Some m \<and> ct_prompt ct = ms_body m \<and>
       find_conversation db (tn_conversation t) = Some v \<and> ct_owner ct = cv_owner v \<and> ct_author_actor ct = cv_author v)"
  using assms by (auto simp: claim_row_def claimed_turn_of_def split: if_split_asm option.split_asm)

lemma same_turn_id:
  "chat_ok db \<Longrightarrow> t \<in> set (chat_turns db) \<Longrightarrow> u \<in> set (chat_turns db) \<Longrightarrow> tn_id t = tn_id u \<Longrightarrow> t = u"
  by (auto simp: chat_ok_def turns_ok_def distinct_map dest: inj_onD)

lemma claim_turn_ok:
  assumes "chat_ok db" shows "chat_ok (fst (claim_turn from_std db worker lease now now2)) \<and>
    chat_effect db (fst (claim_turn from_std db worker lease now now2))"
proof (cases "List.map_filter (claim_row db) (sort_key tn_created_at (chat_turns db))")
  case (Cons ct cts)
  let ?f = "\<lambda>t. t\<lparr>tn_state := TurnClaimed, tn_claimed_by := Some worker, tn_claimed_at := Some now,
    tn_lease_expires_at := Some (lease_until from_std now2 lease)\<rparr>"
  from map_filter_ConsD [OF Cons] obtain t where t: "t \<in> set (chat_turns db)" "claim_row db t = Some ct" by auto
  note row = claim_row_Some [OF t(2)]
  then have mv: "turn_move t (?f t)" by (simp add: turn_move_def same_turn_def)
  have only: "u = t" if "u \<in> set (chat_turns db)" "tn_id u = ct_turn_id ct" for u
    using same_turn_id [OF assms that(1) t(1)] that(2) row by simp
  have "chat_ok db' \<and> chat_effect db db'"
    if "update_turns ''chat: claim turn'' (\<lambda>t. tn_id t = ct_turn_id ct) ?f db = Inr (db', n)" for db' n
    by (rule update_turns_ok [OF that assms]) (metis only mv, metis only row)
  then show ?thesis
    unfolding claim_turn_def Cons using chat_ok_refl [OF assms] by (simp split: sum.split prod.split)
qed (simp add: claim_turn_def chat_ok_refl [OF assms])

text \<open>Effects compose.\<close>

lemma chat_effect_trans: "chat_effect db1 db2 \<Longrightarrow> chat_effect db2 db3 \<Longrightarrow> chat_effect db1 db3"
proof -
  have compose: "\<exists>h new. zs = map h xs @ new \<and> (\<forall>x \<in> set xs. R\<^sup>*\<^sup>* x (h x))"
    if "\<exists>f new. ys = map f xs @ new \<and> (\<forall>x \<in> set xs. R\<^sup>*\<^sup>* x (f x))"
      "\<exists>g new. zs = map g ys @ new \<and> (\<forall>y \<in> set ys. R\<^sup>*\<^sup>* y (g y))" for R :: "'r \<Rightarrow> 'r \<Rightarrow> bool" and xs ys zs
  proof -
    from that obtain f g n1 n2 where e: "ys = map f xs @ n1" "zs = map g ys @ n2"
      "\<forall>x \<in> set xs. R\<^sup>*\<^sup>* x (f x)" "\<forall>y \<in> set ys. R\<^sup>*\<^sup>* y (g y)" by blast
    then have "\<forall>x \<in> set xs. R\<^sup>*\<^sup>* x (g (f x))" by (auto intro: rtranclp_trans)
    then show ?thesis using e by (intro exI [of _ "g \<circ> f"] exI [of _ "map g n1 @ n2"]) simp
  qed
  show "chat_effect db1 db2 \<Longrightarrow> chat_effect db2 db3 \<Longrightarrow> ?thesis"
    unfolding chat_effect_def by (intro conjI; elim conjE; rule compose)
qed

definition failing :: "chat_db \<Rightarrow> claimed_turn list \<Rightarrow> bool" where
  "failing db cts \<longleftrightarrow> (\<forall>ct \<in> set cts. \<forall>t \<in> set (chat_turns db).
     tn_id t = ct_turn_id ct \<longrightarrow> tn_state t \<in> {TurnClaimed, TurnFailed})"

lemma fail_lapsed_ok:
  "fail_lapsed now db cts = Inr db' \<Longrightarrow> chat_ok db \<Longrightarrow> failing db cts \<Longrightarrow> chat_ok db' \<and> chat_effect db db'"
proof (induction now db cts arbitrary: db' rule: fail_lapsed.induct)
  case (1 now db)
  then show ?case using chat_ok_refl by simp
next
  case (2 now db ct cts)
  let ?p = "\<lambda>t. tn_id t = ct_turn_id ct" and ?f = "\<lambda>t. t\<lparr>tn_state := TurnFailed\<rparr>"
  from 2(2) obtain db1 n1 db2 n2 where s: "update_turns ''chat: fail lapsed turn'' ?p ?f db = Inr (db1, n1)"
    "update_runs ''chat: mark run indeterminate'' (\<lambda>r. ag_turn r = Some (ct_turn_id ct) \<and> ag_state r = Running)
       (\<lambda>r. r\<lparr>ag_state := Ended Indeterminate, ag_ended_at := Some now\<rparr>) db1 = Inr (db2, n2)"
    "fail_lapsed now db2 cts = Inr db'"
    by (auto split: sum.split_asm prod.split_asm)
  have mv: "?f t = t \<or> turn_move t (?f t)" if "t \<in> set (chat_turns db)" "?p t" for t
    using 2(4) that by (auto simp: failing_def turn_move_def same_turn_def)
  have ok1: "chat_ok db1 \<and> chat_effect db db1"
    by (rule update_turns_ok [OF s(1) 2(3)]) (use mv in auto)
  have ok2: "chat_ok db2 \<and> chat_effect db1 db2 \<and> chat_turns db2 = chat_turns db1"
    by (rule update_runs_ok [OF s(2)]) (use ok1 in \<open>auto simp: run_move_def same_run_def\<close>)
  have "chat_turns db1 = map (\<lambda>t. if ?p t then ?f t else t) (chat_turns db)"
    using s(1) by (auto simp: update_turns_def update_rows_def split: if_split_asm)
  then have "failing db2 cts" using 2(4) ok2 by (auto simp: failing_def)
  with 2(1) [OF s(1) _ s(2) _ s(3)] ok1 ok2 show ?case by (auto intro: chat_effect_trans)
qed

lemma reclaim_lapsed_turns_ok:
  assumes "chat_ok db" shows "chat_ok (fst (reclaim_lapsed_turns db now)) \<and> chat_effect db (fst (reclaim_lapsed_turns db now))"
proof (cases "fail_lapsed now db (lapsed_turns db now)")
  case (Inr db')
  have "\<exists>t \<in> set (chat_turns db). tn_id t = ct_turn_id ct \<and> tn_state t = TurnClaimed" if "ct \<in> set (lapsed_turns db now)" for ct
    using that by (auto simp: lapsed_turns_def List.map_filter_def claimed_turn_of_def turn_lapsed_def)
  then have "failing db (lapsed_turns db now)" using same_turn_id [OF assms] by (fastforce simp: failing_def)
  then show ?thesis using fail_lapsed_ok [OF Inr assms] Inr by (simp add: reclaim_lapsed_turns_def)
qed (simp add: reclaim_lapsed_turns_def chat_ok_refl [OF assms])

lemma run_create_ok:
  assumes "chat_ok db" shows "chat_ok (fst (run_create step_exists from_std db st rec i)) \<and>
    chat_effect db (fst (run_create step_exists from_std db st rec i))"
proof -
  let ?r = "run_row_of from_std (rs_writer st) rec i"
  have "chat_ok db' \<and> chat_effect db db'" if "insert_run step_exists what db ?r = Inr db'" for db' what
  proof -
    from that have db': "db' = db\<lparr>agent_runs := agent_runs db @ [?r]\<rparr>" and c: "run_checks ?r"
      and q: "\<forall>q \<in> set (agent_runs db). \<not> run_clashes ?r q"
      by (auto simp: insert_run_def split: if_split_asm)
    have "runs_ok (agent_runs db @ [?r])"
      using assms c q by (fastforce simp: chat_ok_def runs_ok_def run_clashes_def List.map_filter_def)
    then have "chat_ok db'" using assms by (simp add: chat_ok_def db' conv_messages_def find_conversation_def)
    moreover have "chat_effect db db'"
      unfolding chat_effect_def db' by (intro conjI exI [of _ "\<lambda>r. r"] exI [of _ "[]"] exI [of _ "[?r]"]) simp_all
    ultimately show ?thesis ..
  qed
  then show ?thesis using chat_ok_refl [OF assms] by (simp add: run_create_def split: sum.split)
qed

section \<open>Posting\<close>

lemma dense_Nil [simp]: "dense []"
  by (simp add: dense_def)

lemma dense_snoc: "dense ns \<Longrightarrow> dense (ns @ [int (length ns) + 1])"
  by (simp add: dense_def)

lemma dense_set: "dense ns \<Longrightarrow> set ns = {1..int (length ns)}"
proof -
  assume "dense ns"
  then have "set ns = int ` {1..length ns}"
    unfolding dense_def by (metis atLeastLessThanSuc_atLeastAtMost set_map set_upt)
  then show ?thesis by (simp add: image_int_atLeastAtMost)
qed

lemma conv_dense: "chat_ok db \<Longrightarrow> dense (map ms_seq (conv_messages db c))"
proof (cases "conv_messages db c")
  case (Cons m ms)
  then have "m \<in> set (conv_messages db c)" by simp
  then have "m \<in> set (chat_messages db)" "ms_conversation m = c" by (auto simp: conv_messages_def)
  then show "chat_ok db \<Longrightarrow> ?thesis" by (auto simp: chat_ok_def list_all_iff)
qed simp

lemma next_seq_dense:
  assumes "dense (map ms_seq (conv_messages db c))"
  shows "next_seq db c = int (length (conv_messages db c)) + 1"
proof (cases "map ms_seq (conv_messages db c)")
  case (Cons n ns)
  then have "fold max ns n = Max (set (map ms_seq (conv_messages db c)))" using Max.set_eq_fold [of n ns] by simp
  also have "\<dots> = int (length (conv_messages db c))"
  proof -
    have "1 \<le> length (conv_messages db c)" using Cons by (cases "conv_messages db c") auto
    then show ?thesis unfolding dense_set [OF assms] by (intro Max_eqI) auto
  qed
  finally show ?thesis by (simp add: next_seq_def Cons)
qed (simp add: next_seq_def)

lemma turn_seq_bound:
  assumes "chat_ok db" "t \<in> set (chat_turns db)"
  shows "tn_request_seq t < next_seq db (tn_conversation t)"
proof -
  note d = conv_dense [OF assms(1), of "tn_conversation t"]
  from assms obtain m where "m \<in> set (chat_messages db)" "asks m t"
    by (auto simp: chat_ok_def turns_ok_def list_all_iff list_ex_iff)
  then have "tn_request_seq t \<in> set (map ms_seq (conv_messages db (tn_conversation t)))"
    by (force simp: asks_def conv_messages_def)
  then show ?thesis unfolding dense_set [OF d] next_seq_dense [OF d] by simp
qed

lemma turns_ok_more: "turns_ok ms ts \<Longrightarrow> turns_ok (ms @ new) ts"
  by (auto simp: turns_ok_def list_all_iff list_ex_iff)

lemma turns_ok_snoc:
  assumes "turns_ok ms ts" "tn_id t \<notin> tn_id ` set ts" "turn_checks t" "list_ex (\<lambda>m. asks m t) ms" "tn_state t = TurnPending"
    and later: "\<And>u. u \<in> set ts \<Longrightarrow> tn_conversation u = tn_conversation t \<Longrightarrow> tn_request_seq u < tn_request_seq t"
  shows "turns_ok ms (ts @ [t])"
proof -
  have "no_earlier_open (ts @ [t]) u" if "u \<in> set ts" "no_earlier_open ts u" for u
    using that later [OF that(1)] by (auto simp: no_earlier_open_def list_ex_iff)
  moreover have "turn_place t \<notin> turn_place ` set ts" using later by fastforce
  ultimately show ?thesis using assms(1-5) by (auto simp: turns_ok_def list_all_iff)
qed

lemma post_rows_ok:
  assumes ok: "chat_ok db" and post: "post_rows db m i = Inr (db', t)" and seq: "ms_seq m = next_seq db (ms_conversation m)"
  shows "chat_ok db' \<and> chat_effect db db' \<and> chat_messages db' = chat_messages db @ [m]"
proof -
  from post obtain db1 where ins: "insert_message db m = Inr db1" by (auto simp: post_rows_def split: sum.split_asm)
  then have db1: "chat_messages db1 = chat_messages db @ [m]" "chat_turns db1 = chat_turns db" "agent_runs db1 = agent_runs db"
    "map cv_id (conversations db1) = map cv_id (conversations db)"
    by (auto simp: insert_message_def split: if_split_asm)
  have "dense (map ms_seq (conv_messages db1 c))" for c
    using conv_dense [OF ok, of c] dense_snoc [OF conv_dense [OF ok, of c]] next_seq_dense [OF conv_dense [OF ok, of c]] seq
    by (auto simp: conv_messages_def db1)
  then have ok1: "chat_ok db1" and dense: "\<And>c. dense (map ms_seq (conv_messages db1 c))"
    using ok turns_ok_more [of "chat_messages db" "chat_turns db"] unfolding chat_ok_def db1 list_all_iff find_conversation_iff
    by simp_all
  have eff1: "chat_effect db db1" by (rule chat_effect_same) (simp_all add: db1)
  show ?thesis
  proof (cases "ms_role m = ''user''")
    case False
    then show ?thesis using post ins ok1 eff1 db1 by (simp add: post_rows_def)
  next
    case True
    then have t: "insert_turn db1 (new_turn i m) = Inr db'"
      using post ins by (auto simp: post_rows_def split: sum.split_asm)
    let ?t = "new_turn i m"
    from t have db': "db' = db1\<lparr>chat_turns := chat_turns db1 @ [?t]\<rparr>" and c: "turn_checks ?t"
      and id: "tn_id ?t \<notin> tn_id ` set (chat_turns db1)" and cv: "find_conversation db1 (tn_conversation ?t) \<noteq> None"
      by (auto simp: insert_turn_def split: if_split_asm)
    have "turns_ok (chat_messages db1) (chat_turns db1 @ [?t])"
    proof (rule turns_ok_snoc [OF _ id c])
      show "turns_ok (chat_messages db1) (chat_turns db1)" using ok1 by (simp add: chat_ok_def)
      show "list_ex (\<lambda>m. asks m ?t) (chat_messages db1)" using True by (simp add: db1 asks_def new_turn_def)
      show "tn_state ?t = TurnPending" by (simp add: new_turn_def)
      show "tn_request_seq u < tn_request_seq ?t" if "u \<in> set (chat_turns db1)" "tn_conversation u = tn_conversation ?t" for u
        using turn_seq_bound [OF ok, of u] that seq by (simp add: db1 new_turn_def)
    qed
    then have "chat_ok db'"
      using ok1 cv by (simp add: chat_ok_def db' conv_messages_def find_conversation_def)
    moreover have "chat_effect db1 db'"
      unfolding chat_effect_def db' by (intro conjI exI [of _ "\<lambda>r. r"] exI [of _ "[]"] exI [of _ "[?t]"]) simp_all
    ultimately show ?thesis using eff1 db1 by (auto intro: chat_effect_trans simp: db')
  qed
qed

definition posted :: "chat_db \<Rightarrow> credential \<Rightarrow> uuid \<Rightarrow> string \<Rightarrow> string \<Rightarrow> level \<Rightarrow> uuid option \<Rightarrow> time \<Rightarrow> message_row" where
  "posted db c conv role body lvl run now =
     \<lparr>ms_conversation = conv, ms_seq = next_seq db conv, ms_role = role, ms_author = actor_id c,
      ms_body = body, ms_trust = lvl, ms_run_id = run, ms_created_at = now\<rparr>"

lemma post_message_cases:
  obtains (refused) au' e where "post_message db au c conv role body lvl run i t1 t2 now = (db, au', Inl e)"
  | (accepted) db' au' t r where
      "post_message db au c conv role body lvl run i t1 t2 now = (db', au', Inr (posted db c conv role body lvl run now, t))"
      "authorize db au c (subject_new SConversation conv) Write ''chat.post'' t1 t2 = (au', Inr r)"
      "post_rows db (posted db c conv role body lvl run now) i = Inr (db', t)"
      "next_seq db conv \<le> i32_max" "trim body \<noteq> []" "role \<in> {''user'', ''agent'', ''system''}"
proof -
  let ?r = "post_message db au c conv role body lvl run i t1 t2 now"
  have "(\<exists>au' e. ?r = (db, au', Inl e)) \<or>
    (\<exists>db' au' t r. ?r = (db', au', Inr (posted db c conv role body lvl run now, t)) \<and>
      authorize db au c (subject_new SConversation conv) Write ''chat.post'' t1 t2 = (au', Inr r) \<and>
      post_rows db (posted db c conv role body lvl run now) i = Inr (db', t) \<and>
      next_seq db conv \<le> i32_max \<and> trim body \<noteq> [] \<and> role \<in> {''user'', ''agent'', ''system''})"
    unfolding post_message_def Let_def posted_def [symmetric]
    by (cases "role \<in> {''user'', ''agent'', ''system''}") (simp_all only: if_True if_False simp_thms not_False_eq_True,
        auto split: sum.split prod.split simp del: insert_iff)
  then show thesis using refused accepted by blast
qed

lemma post_message_ok:
  assumes "chat_ok db" shows "chat_ok (fst (post_message db au c conv role body lvl run i t1 t2 now)) \<and>
    chat_effect db (fst (post_message db au c conv role body lvl run i t1 t2 now))"
proof (cases rule: post_message_cases [of db au c conv role body lvl run i t1 t2 now])
  case (refused au' e)
  then show ?thesis using chat_ok_refl [OF assms] by simp
next
  case (accepted db' au' t r)
  have "ms_seq (posted db c conv role body lvl run now) = next_seq db (ms_conversation (posted db c conv role body lvl run now))"
    by (simp add: posted_def)
  from post_rows_ok [OF assms accepted(3) this] show ?thesis by (simp add: accepted(1))
qed

section \<open>Any sequence of operations\<close>

lemma chat_step_ok:
  "chat_step step_exists from_std js db db' \<Longrightarrow> chat_ok db \<Longrightarrow> chat_ok db' \<and> chat_effect db db'"
  by (induction rule: chat_step.induct)
    (simp_all only: create_conversation_ok post_message_ok record_session_ok claim_turn_ok extend_turn_lease_ok close_turn_ok
      reclaim_lapsed_turns_ok run_create_ok run_append_ok run_finish_ok reclaim_abandoned_runs_ok)

lemma chat_steps_ok:
  assumes "(chat_step step_exists from_std js)\<^sup>*\<^sup>* db db'" "chat_ok db"
  shows "chat_ok db' \<and> chat_effect db db'"
  using assms(1)
proof (induction rule: rtranclp_induct)
  case base
  then show ?case using chat_ok_refl [OF assms(2)] .
next
  case (step y z)
  then show ?case using chat_step_ok chat_effect_trans by blast
qed

text \<open>Turns and runs are both keyed tables that follow their own graph.\<close>

lemma keyed_rows_follow:
  assumes "rows' = map f rows @ new" "\<And>r. r \<in> set rows \<Longrightarrow> key (f r) = key r" "state_in key id rows k = Some a"
  shows "state_in key id rows' k = Some (f a)"
proof -
  from assms(3) have a: "List.find (\<lambda>r. key r = k) rows = Some a" by (simp add: state_in_def)
  have "List.find (\<lambda>r. key r = k) (map f rows) = Some (f a)"
    using a assms(2) by (induction rows) auto
  then show ?thesis by (simp add: state_in_def assms(1) find_append)
qed

lemma moves_same_turn: "turn_move\<^sup>*\<^sup>* t t' \<Longrightarrow> same_turn t t'"
  by (induction rule: rtranclp_induct) (auto simp: turn_move_def same_turn_def)

lemma same_run_trans: "same_run r s \<Longrightarrow> same_run s q \<Longrightarrow> same_run r q"
  unfolding same_run_def by (cases r; cases s; cases q) simp

lemma moves_same_run: "run_move\<^sup>*\<^sup>* r r' \<Longrightarrow> same_run r r'"
proof (induction rule: rtranclp_induct)
  case base
  show ?case by (simp add: same_run_def)
next
  case (step y z)
  then show ?case by (auto simp: run_move_def intro: same_run_trans)
qed

definition ok_chat_step :: "(uuid \<Rightarrow> bool) \<Rightarrow> (nat \<Rightarrow> int option) \<Rightarrow> 'j json_lib \<Rightarrow> chat_db \<Rightarrow> chat_db \<Rightarrow> bool" where
  "ok_chat_step step_exists from_std js db db' \<longleftrightarrow> chat_ok db \<and> chat_step step_exists from_std js db db'"

lemma ok_chat_step_effect: "ok_chat_step step_exists from_std js db db' \<Longrightarrow> chat_effect db db'"
  unfolding ok_chat_step_def using chat_step_ok by blast

lemma ok_chat_steps:
  assumes "(chat_step step_exists from_std js)\<^sup>*\<^sup>* db db'" "chat_ok db"
  shows "(ok_chat_step step_exists from_std js)\<^sup>*\<^sup>* db db'"
  using assms(1)
proof (induction rule: rtranclp_induct)
  case (step y z)
  with chat_steps_ok [OF step.hyps(1) assms(2)] have "ok_chat_step step_exists from_std js y z" by (simp add: ok_chat_step_def)
  with step.IH show ?case by (rule rtranclp.rtrancl_into_rtrancl)
qed simp

interpretation tl: lifecycle "\<lambda>db. turn_at db" "ok_chat_step step_exists from_std js" "turn_move\<^sup>+\<^sup>+"
proof
  fix db db' k a
  assume s: "ok_chat_step step_exists from_std js db db'" and a: "turn_at db k = Some a"
  then have "chat_effect db db'" by (intro ok_chat_step_effect)
  then obtain f new where f: "chat_turns db' = map f (chat_turns db) @ new" "\<forall>t \<in> set (chat_turns db). turn_move\<^sup>*\<^sup>* t (f t)"
    unfolding chat_effect_def by blast
  then have "tn_id (f t) = tn_id t" if "t \<in> set (chat_turns db)" for t
    using moves_same_turn that by (auto simp: same_turn_def)
  from keyed_rows_follow [OF f(1) this a] have "turn_at db' k = Some (f a)" .
  moreover have "a \<in> set (chat_turns db)" using a by (auto simp: state_in_def dest: find_SomeD)
  ultimately show "\<exists>b. turn_at db' k = Some b \<and> (b = a \<or> turn_move\<^sup>+\<^sup>+ a b)"
    using f(2) rtranclpD [of turn_move a "f a"] by auto
qed

interpretation ml: lifecycle "\<lambda>db. run_at db" "ok_chat_step step_exists from_std js" "run_move\<^sup>+\<^sup>+"
proof
  fix db db' k a
  assume s: "ok_chat_step step_exists from_std js db db'" and a: "run_at db k = Some a"
  then have "chat_effect db db'" by (intro ok_chat_step_effect)
  then obtain f new where f: "agent_runs db' = map f (agent_runs db) @ new" "\<forall>r \<in> set (agent_runs db). run_move\<^sup>*\<^sup>* r (f r)"
    unfolding chat_effect_def by blast
  then have "ag_id (f r) = ag_id r" if "r \<in> set (agent_runs db)" for r
    using moves_same_run same_run_keys that by blast
  from keyed_rows_follow [OF f(1) this a] have "run_at db' k = Some (f a)" .
  moreover have "a \<in> set (agent_runs db)" using a by (auto simp: state_in_def dest: find_SomeD)
  ultimately show "\<exists>b. run_at db' k = Some b \<and> (b = a \<or> run_move\<^sup>+\<^sup>+ a b)"
    using f(2) rtranclpD [of run_move a "f a"] by auto
qed

section \<open>What holds of every history\<close>

lemma one_claim:
  assumes ok: "chat_ok db" and t: "t \<in> set (chat_turns db)" "u \<in> set (chat_turns db)" "tn_conversation t = tn_conversation u"
    and s: "tn_state t = TurnClaimed" "tn_state u = TurnClaimed"
  shows "t = u"
proof -
  have first: "no_earlier_open (chat_turns db) t" "no_earlier_open (chat_turns db) u"
    using ok t s by (auto simp: chat_ok_def turns_ok_def list_all_iff)
  then have "\<not> tn_request_seq u < tn_request_seq t" "\<not> tn_request_seq t < tn_request_seq u"
    using t s by (auto simp: no_earlier_open_def list_ex_iff is_open_def)
  then have "turn_place t = turn_place u" using t(3) by simp
  then show ?thesis using ok t(1,2) by (auto simp: chat_ok_def turns_ok_def distinct_map dest: inj_onD)
qed

lemma distinct_map_filterD:
  "distinct (List.map_filter h xs) \<Longrightarrow> x \<in> set xs \<Longrightarrow> y \<in> set xs \<Longrightarrow> h x = Some k \<Longrightarrow> h y = Some k \<Longrightarrow> x = y"
  by (induction xs) (force simp: List.map_filter_def split: if_split_asm)+

text \<open>
  C40: One turn at a time. Whatever is created, posted, claimed, extended, closed, reclaimed or recorded,
  in any order and with any failure: no conversation ever has two claimed turns, its messages are
  numbered from one without a gap, every turn answers one message that a person wrote, and no turn has
  two runs.
\<close>

theorem one_turn_at_a_time:
  assumes "chat_ok db" "(chat_step step_exists from_std js)\<^sup>*\<^sup>* db db'"
  shows "(\<forall>t u. t \<in> set (chat_turns db') \<and> u \<in> set (chat_turns db') \<and> tn_conversation t = tn_conversation u \<and>
       tn_state t = TurnClaimed \<and> tn_state u = TurnClaimed \<longrightarrow> t = u) \<and>
    (\<forall>c. map ms_seq (conv_messages db' c) = map int [1..<Suc (length (conv_messages db' c))]) \<and>
    (\<forall>t \<in> set (chat_turns db'). \<exists>m \<in> set (chat_messages db'). ms_conversation m = tn_conversation t \<and>
       ms_seq m = tn_request_seq t \<and> ms_role m = ''user'') \<and>
    (\<forall>r q i. r \<in> set (agent_runs db') \<and> q \<in> set (agent_runs db') \<and> ag_turn r = Some i \<and> ag_turn q = Some i \<longrightarrow> r = q)"
proof (intro conjI)
  have ok: "chat_ok db'" using chat_steps_ok [OF assms(2,1)] by simp
  show "\<forall>t u. t \<in> set (chat_turns db') \<and> u \<in> set (chat_turns db') \<and> tn_conversation t = tn_conversation u \<and>
       tn_state t = TurnClaimed \<and> tn_state u = TurnClaimed \<longrightarrow> t = u"
    using one_claim [OF ok] by blast
  show "\<forall>c. map ms_seq (conv_messages db' c) = map int [1..<Suc (length (conv_messages db' c))]"
    using conv_dense [OF ok] by (simp only: dense_def length_map simp_thms)
  show "\<forall>t \<in> set (chat_turns db'). \<exists>m \<in> set (chat_messages db'). ms_conversation m = tn_conversation t \<and>
       ms_seq m = tn_request_seq t \<and> ms_role m = ''user''"
    using ok by (simp only: chat_ok_def turns_ok_def list_all_iff list_ex_iff asks_def) blast
  show "\<forall>r q i. r \<in> set (agent_runs db') \<and> q \<in> set (agent_runs db') \<and> ag_turn r = Some i \<and> ag_turn q = Some i \<longrightarrow> r = q"
    using ok distinct_map_filterD [of ag_turn "agent_runs db'"] by (simp only: chat_ok_def runs_ok_def) blast
qed

lemma closed_turn_stays: "\<not> is_open t \<Longrightarrow> \<not> turn_move\<^sup>+\<^sup>+ t t'"
  by (metis tranclpD turn_move_open)

lemma ended_run_stays: "ag_state r \<noteq> Running \<Longrightarrow> \<not> run_move\<^sup>+\<^sup>+ r r'"
  by (metis tranclpD run_move_def)

text \<open>
  A turn is answered once and a run ends once. Under the same operations no turn and no run is ever
  lost or turned into another one; a turn that is done or failed, and a run that has ended, as
  indeterminate too, stays exactly as it is, so nothing that may have spent money is started again.
\<close>

theorem turns_and_runs_end_once:
  assumes "chat_ok db" "(chat_step step_exists from_std js)\<^sup>*\<^sup>* db db'"
  shows "(\<forall>i t. turn_at db i = Some t \<longrightarrow> (\<exists>t'. turn_at db' i = Some t' \<and> same_turn t t' \<and>
       (tn_state t \<noteq> TurnPending \<longrightarrow> tn_state t' \<noteq> TurnPending) \<and> (tn_state t \<in> {TurnDone, TurnFailed} \<longrightarrow> t' = t))) \<and>
    (\<forall>i r. run_at db i = Some r \<longrightarrow> (\<exists>r'. run_at db' i = Some r' \<and> same_run r r' \<and> (ag_state r \<noteq> Running \<longrightarrow> r' = r)))"
proof (intro conjI allI impI)
  note s = ok_chat_steps [OF assms(2,1)]
  fix i t assume t: "turn_at db i = Some t"
  from tl.steps_edges [OF s t] obtain t' where t': "turn_at db' i = Some t'" "turn_move\<^sup>*\<^sup>* t t'" by auto
  have "tn_state t' \<noteq> TurnPending" if "tn_state t \<noteq> TurnPending"
    using t'(2) that by (induction rule: rtranclp_induct) (auto simp: turn_move_def split: turn_state.splits)
  moreover have "t' = t" if "tn_state t \<in> {TurnDone, TurnFailed}"
    using tl.terminal_kept [OF s t] closed_turn_stays [of t] that t'(1) by (auto simp: is_open_def)
  ultimately show "\<exists>t'. turn_at db' i = Some t' \<and> same_turn t t' \<and>
      (tn_state t \<noteq> TurnPending \<longrightarrow> tn_state t' \<noteq> TurnPending) \<and> (tn_state t \<in> {TurnDone, TurnFailed} \<longrightarrow> t' = t)"
    using t' moves_same_turn by blast
next
  note s = ok_chat_steps [OF assms(2,1)]
  fix i r assume r: "run_at db i = Some r"
  from ml.steps_edges [OF s r] obtain r' where r': "run_at db' i = Some r'" "run_move\<^sup>*\<^sup>* r r'" by auto
  have "r' = r" if "ag_state r \<noteq> Running"
    using ml.terminal_kept [OF s r] ended_run_stays [OF that] r'(1) by simp
  then show "\<exists>r'. run_at db' i = Some r' \<and> same_run r r' \<and> (ag_state r \<noteq> Running \<longrightarrow> r' = r)"
    using r' moves_same_run by blast
qed

section \<open>Claiming\<close>

lemma map_filter_first:
  "List.map_filter h xs = y # ys \<Longrightarrow> \<exists>before x rest. xs = before @ x # rest \<and> h x = Some y \<and> (\<forall>z \<in> set before. h z = None)"
proof (induction xs)
  case (Cons a xs)
  show ?case
  proof (cases "h a")
    case None
    with Cons obtain before x rest where "xs = before @ x # rest" "h x = Some y" "\<forall>z \<in> set before. h z = None"
      by (auto simp: List.map_filter_def)
    with None show ?thesis by (intro exI [of _ "a # before"]) auto
  next
    case (Some b)
    with Cons.prems show ?thesis by (intro exI [of _ "[]"]) (auto simp: List.map_filter_def)
  qed
qed (simp add: List.map_filter_def)

lemma first_in_line:
  assumes "List.map_filter h (sort_key k xs) = y # ys"
  shows "\<exists>x \<in> set xs. h x = Some y \<and> (\<forall>z \<in> set xs. h z \<noteq> None \<longrightarrow> k x \<le> k z)"
proof -
  from map_filter_first [OF assms] obtain before x rest where x: "sort_key k xs = before @ x # rest" "h x = Some y"
    "\<forall>z \<in> set before. h z = None" by blast
  have "sorted (map k (before @ x # rest))" unfolding x(1) [symmetric] by simp
  then have "k x \<le> k z" if "z \<in> set (x # rest)" for z using that by (auto simp: sorted_append)
  moreover have mem: "set xs = set before \<union> set (x # rest)" using x(1) by (metis set_append set_sort)
  ultimately have "k x \<le> k z" if "z \<in> set xs" "h z \<noteq> None" for z using that x(3) by auto
  moreover have "x \<in> set xs" using mem by simp
  ultimately show ?thesis using x(2) by blast
qed

lemma map_filter_empty: "List.map_filter h xs = [] \<longleftrightarrow> (\<forall>x \<in> set xs. h x = None)"
  by (induction xs) (auto simp: List.map_filter_def)

lemma claim_row_iff:
  assumes "chat_ok db" "t \<in> set (chat_turns db)"
  shows "claim_row db t \<noteq> None \<longleftrightarrow> tn_state t = TurnPending \<and> no_earlier_open (chat_turns db) t"
proof -
  from assms obtain m where "m \<in> set (chat_messages db)" "asks m t"
    by (auto simp: chat_ok_def turns_ok_def list_all_iff list_ex_iff)
  then have "find_message db (tn_conversation t) (tn_request_seq t) \<noteq> None"
    unfolding find_message_def find_neq_None by (auto simp: asks_def)
  moreover have "find_conversation db (tn_conversation t) \<noteq> None" using assms by (auto simp: chat_ok_def list_all_iff)
  ultimately show ?thesis by (auto simp: claim_row_def claimed_turn_of_def)
qed

text \<open>The open turn of a conversation with the lowest number is claimed or can be.\<close>

lemma some_turn_is_first:
  assumes "t \<in> set ts" "is_open t"
  shows "\<exists>u \<in> set ts. tn_conversation u = tn_conversation t \<and> is_open u \<and> no_earlier_open ts u"
proof -
  let ?s = "{u \<in> set ts. tn_conversation u = tn_conversation t \<and> is_open u}"
  have "finite ?s" "t \<in> ?s" using assms by auto
  then obtain u where u: "u \<in> ?s" "\<forall>v \<in> ?s. tn_request_seq u \<le> tn_request_seq v"
    by (metis (no_types, lifting) arg_min_if_finite(1) arg_min_least empty_iff)
  then show ?thesis by (force simp: no_earlier_open_def list_ex_iff)
qed

lemma claim_turn_Some:
  assumes "chat_ok db" "claim_turn from_std db worker lease now now2 = (db', Inr (Some ct))"
  shows "\<exists>t \<in> set (chat_turns db). claim_row db t = Some ct \<and> turn_at db (ct_turn_id ct) = Some t \<and>
    (\<forall>u \<in> set (chat_turns db). claim_row db u \<noteq> None \<longrightarrow> tn_created_at t \<le> tn_created_at u) \<and>
    turn_at db' (ct_turn_id ct) = Some (t\<lparr>tn_state := TurnClaimed, tn_claimed_by := Some worker, tn_claimed_at := Some now,
      tn_lease_expires_at := Some (lease_until from_std now2 lease)\<rparr>)"
proof -
  let ?f = "\<lambda>t. t\<lparr>tn_state := TurnClaimed, tn_claimed_by := Some worker, tn_claimed_at := Some now,
    tn_lease_expires_at := Some (lease_until from_std now2 lease)\<rparr>"
  from assms(2) obtain cts where c: "List.map_filter (claim_row db) (sort_key tn_created_at (chat_turns db)) = ct # cts"
    and db': "db' = db\<lparr>chat_turns := update_rows (\<lambda>t. tn_id t = ct_turn_id ct) ?f (chat_turns db)\<rparr>"
    by (auto simp: claim_turn_def update_turns_def split: list.split_asm if_split_asm sum.split_asm prod.split_asm)
  from first_in_line [OF c] obtain t where t: "t \<in> set (chat_turns db)" "claim_row db t = Some ct"
    "\<forall>u \<in> set (chat_turns db). claim_row db u \<noteq> None \<longrightarrow> tn_created_at t \<le> tn_created_at u" by blast
  have id: "tn_id t = ct_turn_id ct" using claim_row_Some [OF t(2)] by simp
  then have f: "List.find (\<lambda>r. tn_id r = ct_turn_id ct) (chat_turns db) = Some t"
    using find_unique_key [of tn_id "chat_turns db" t] assms(1) t(1) by (simp add: chat_ok_def turns_ok_def)
  have "turn_at db' (ct_turn_id ct) = Some (?f t)" unfolding db' using f id by (simp add: state_in_update)
  then show ?thesis using t f by (intro bexI [of _ t]) (simp_all add: state_in_def)
qed

lemma claim_turn_total:
  assumes "chat_ok db" "worker \<noteq> []" "lease \<noteq> 0"
  shows "\<exists>db' r. claim_turn from_std db worker lease now now2 = (db', Inr r) \<and>
    (r = None \<longrightarrow> db' = db \<and> (\<forall>t \<in> set (chat_turns db). claim_row db t = None))"
  using assms by (auto simp: claim_turn_def update_turns_def turn_checks_def map_filter_empty split: list.split)

text \<open>
  A claim is never stuck and never out of turn. With a worker name and a lease it does not fail. What
  it gives is the oldest of the turns that are first in line in their conversation, together with the
  words of the message it answers and the authority of the conversation's owner, and that turn is then
  claimed by this worker; it gives nothing, and changes nothing, only when every pending turn waits
  behind a claimed one of its own conversation.
\<close>

theorem claim_is_never_stuck:
  assumes "chat_ok db" "worker \<noteq> []" "lease \<noteq> 0"
  shows "case claim_turn from_std db worker lease now now2 of
      (db', Inl e) \<Rightarrow> False
    | (db', Inr None) \<Rightarrow> db' = db \<and> (\<forall>t \<in> set (chat_turns db). tn_state t = TurnPending \<longrightarrow>
        (\<exists>u \<in> set (chat_turns db). tn_conversation u = tn_conversation t \<and> tn_state u = TurnClaimed))
    | (db', Inr (Some ct)) \<Rightarrow>
        (\<exists>t m v. turn_at db (ct_turn_id ct) = Some t \<and> tn_state t = TurnPending \<and> no_earlier_open (chat_turns db) t \<and>
          (\<forall>u \<in> set (chat_turns db). tn_state u = TurnPending \<and> no_earlier_open (chat_turns db) u \<longrightarrow>
             tn_created_at t \<le> tn_created_at u) \<and>
          find_message db (tn_conversation t) (tn_request_seq t) = Some m \<and> ct_prompt ct = ms_body m \<and>
          find_conversation db (tn_conversation t) = Some v \<and> ct_owner ct = cv_owner v \<and>
          turn_at db' (ct_turn_id ct) = Some (t\<lparr>tn_state := TurnClaimed, tn_claimed_by := Some worker,
            tn_claimed_at := Some now, tn_lease_expires_at := Some (lease_until from_std now2 lease)\<rparr>))"
proof -
  from claim_turn_total [OF assms, of from_std now now2] obtain db' r where
    c: "claim_turn from_std db worker lease now now2 = (db', Inr r)"
    and none: "r = None \<longrightarrow> db' = db \<and> (\<forall>t \<in> set (chat_turns db). claim_row db t = None)" by blast
  show ?thesis
  proof (cases r)
    case None
    have "\<exists>u \<in> set (chat_turns db). tn_conversation u = tn_conversation t \<and> tn_state u = TurnClaimed"
      if t: "t \<in> set (chat_turns db)" "tn_state t = TurnPending" for t
    proof -
      from some_turn_is_first [OF t(1)] t(2) obtain u where u: "u \<in> set (chat_turns db)"
        "tn_conversation u = tn_conversation t" "is_open u" "no_earlier_open (chat_turns db) u" by (auto simp: is_open_def)
      with claim_row_iff [OF assms(1) u(1)] none None show ?thesis by (auto simp: is_open_def)
    qed
    then show ?thesis using none c None by simp
  next
    case (Some ct)
    from claim_turn_Some [OF assms(1) c [unfolded Some]] obtain t where t: "claim_row db t = Some ct"
      "turn_at db (ct_turn_id ct) = Some t"
      "\<forall>u \<in> set (chat_turns db). claim_row db u \<noteq> None \<longrightarrow> tn_created_at t \<le> tn_created_at u"
      "turn_at db' (ct_turn_id ct) = Some (t\<lparr>tn_state := TurnClaimed, tn_claimed_by := Some worker, tn_claimed_at := Some now,
        tn_lease_expires_at := Some (lease_until from_std now2 lease)\<rparr>)" by blast
    with claim_row_Some [OF t(1)] claim_row_iff [OF assms(1)] c Some show ?thesis by auto
  qed
qed

section \<open>Reading\<close>

lemma dense_nth:
  assumes "dense ns" "i < length ns" shows "ns ! i = int i + 1"
proof -
  have "ns ! i = map int [1..<Suc (length ns)] ! i"
    using assms(1) unfolding dense_def by (rule arg_cong)
  also have "\<dots> = int i + 1" using assms(2) by (simp del: upt_Suc)
  finally show ?thesis .
qed

lemma drop_dense:
  assumes "dense (map k xs)"
  shows "filter (\<lambda>x. int n < k x) xs = drop n xs"
proof -
  have pos: "k (xs ! i) = int i + 1" if "i < length xs" for i using dense_nth [OF assms, of i] that by simp
  have "filter (\<lambda>x. int n < k x) xs = filter (\<lambda>x. int n < k x) (take n xs) @ filter (\<lambda>x. int n < k x) (drop n xs)"
    by (metis append_take_drop_id filter_append)
  moreover have "filter (\<lambda>x. int n < k x) (take n xs) = []"
    using pos by (auto simp: filter_empty_conv in_set_conv_nth)
  moreover have "filter (\<lambda>x. int n < k x) (drop n xs) = drop n xs"
    using pos by (auto simp: filter_id_conv in_set_conv_nth)
  ultimately show ?thesis by simp
qed

lemma dense_sorted: "dense ns \<Longrightarrow> sorted ns"
  by (simp add: sorted_iff_nth_mono dense_nth)

lemma sorted_key_drop: "sorted (map k xs) \<Longrightarrow> sorted (map k (drop n xs))"
  by (simp add: drop_map [symmetric] sorted_wrt_drop)

text \<open>
  Paging a conversation misses nothing. Reading after the number of the last message one has gives
  the messages that follow it, in order and without a gap, as many as the page holds.
\<close>

theorem messages_page:
  assumes "chat_ok db" "messages db au c conv (int n) lmt t1 t2 = (au', Inr ms)"
  shows "ms = take (nat (chat_page_limit 200 100 lmt)) (drop n (conv_messages db conv)) \<and>
    (\<forall>i < length ms. ms_seq (ms ! i) = int n + int i + 1) \<and> (ms = [] \<longleftrightarrow> length (conv_messages db conv) \<le> n)"
proof -
  note d = conv_dense [OF assms(1), of conv]
  have "ms = limit_rows (chat_page_limit 200 100 lmt) (sort_key ms_seq (filter (\<lambda>m. int n < ms_seq m) (conv_messages db conv)))"
    using assms(2) by (auto simp: messages_def split: prod.split_asm sum.split_asm)
  also have "\<dots> = limit_rows (chat_page_limit 200 100 lmt) (drop n (conv_messages db conv))"
    unfolding drop_dense [OF d]
    by (subst sort_key_id_if_sorted) (simp_all add: sorted_key_drop dense_sorted [OF d])
  also have "\<dots> = take (nat (chat_page_limit 200 100 lmt)) (drop n (conv_messages db conv))"
    by (simp add: limit_rows_def chat_page_limit_def)
  finally have ms: "ms = take (nat (chat_page_limit 200 100 lmt)) (drop n (conv_messages db conv))" .
  have "ms_seq (ms ! i) = int n + int i + 1" if "i < length ms" for i
    using dense_nth [OF d, of "n + i"] that by (auto simp: ms)
  moreover have "0 < nat (chat_page_limit 200 100 lmt)" by (simp add: chat_page_limit_def)
  ultimately show ?thesis using ms by auto
qed

section \<open>A conversation to evaluate\<close>

text \<open>
  Alice starts a thread and sends two messages. A worker takes the first and its run is recorded; its
  lease lapses, the turn is failed, another worker takes the second turn and its run speaks.
\<close>

definition secs :: "nat \<Rightarrow> int option" where "secs n = Some (int n)"

definition chat_db0 :: chat_db where
  "chat_db0 = core_db.extend sample_db (chat_db.fields [] [] [] [] [])"

definition chat_db1 :: chat_db where
  "chat_db1 = fst (create_conversation chat_db0 alice ''claude'' ''m'' ''t'' 70 100)"

definition chat_db2 :: chat_db where
  "chat_db2 = fst (post_message chat_db1 audit0 alice 70 ''user'' ''one'' Trusted None 71 110 110 110)"

definition chat_db3 :: chat_db where
  "chat_db3 = fst (post_message chat_db2 audit0 alice 70 ''user'' ''two'' Trusted None 72 120 120 120)"

definition chat_db4 :: chat_db where
  "chat_db4 = fst (claim_turn secs chat_db3 ''w1'' 30 130 130)"

definition run_store_for :: "uuid \<Rightarrow> agent_run_store" where
  "run_store_for t = \<lparr>rs_writer = (run_writer_new alice)\<lparr>rw_conversation_id := Some 70, rw_turn_id := Some t\<rparr>, rs_ids = []\<rparr>"

definition run_rec :: "string \<Rightarrow> run_record" where
  "run_rec k = \<lparr>rc_run_id = k, rc_runtime = Claude, rc_image_digest = ''d'', rc_cli_version = ''v'', rc_model = ''m'',
     rc_session_id = [], rc_network = NetDaemon, rc_limits = default_limits, rc_deadline = 600, rc_started_at = 131\<rparr>"

definition out_line :: "int \<Rightarrow> run_line" where
  "out_line n = \<lparr>ln_seq = n, ln_at = 140, ln_stream = Stdout, ln_type = ''assistant'', ln_json = None, ln_text = ''hi'', ln_truncated = False\<rparr>"

definition chat_db5 :: chat_db where
  "chat_db5 = fst (run_create (\<lambda>_. False) secs chat_db4 (run_store_for 71) (run_rec ''chat-71'') 81)"

definition chat_db6 :: chat_db where
  "chat_db6 = fst (claim_turn secs (fst (reclaim_lapsed_turns chat_db5 200)) ''w2'' 30 210 210)"

definition chat_db7 :: chat_db where
  "chat_db7 = fst (run_append text_json (fst (run_create (\<lambda>_. False) secs chat_db6 (run_store_for 72) ((run_rec ''chat-72'')\<lparr>rc_started_at := 211\<rparr>) 82))
     (run_store_for 72) ''chat-72'' (out_line 1))"

definition chat_db8 :: chat_db where
  "chat_db8 = fst (run_append text_json chat_db7 (run_store_for 71) ''chat-71'' (out_line 1))"

abbreviation sample_step :: "chat_db \<Rightarrow> chat_db \<Rightarrow> bool" where
  "sample_step \<equiv> chat_step (\<lambda>_. False) secs text_json"

lemma chat_db8_turns:
  "map (\<lambda>t. (tn_id t, tn_state t)) (chat_turns chat_db8) = [(71, TurnFailed), (72, TurnClaimed)]
   \<and> map (\<lambda>r. (ag_id r, ag_state r)) (agent_runs chat_db8) = [(81, Ended Indeterminate), (82, Running)]"
  by code_simp

lemma chat_db0_ok: "chat_ok chat_db0"
  by code_simp

lemma chat_db3_ok: "chat_ok chat_db3"
  by code_simp

lemma chat_db7_ok: "chat_ok chat_db7"
  by code_simp

lemma sample_history: "sample_step\<^sup>*\<^sup>* chat_db0 chat_db5" "sample_step\<^sup>*\<^sup>* chat_db5 chat_db8"
proof -
  note go = converse_rtranclp_into_rtranclp [of sample_step]
  have s: "sample_step chat_db0 chat_db1" "sample_step chat_db1 chat_db2" "sample_step chat_db2 chat_db3"
    "sample_step chat_db3 chat_db4" "sample_step chat_db4 chat_db5"
    unfolding chat_db1_def chat_db2_def chat_db3_def chat_db4_def chat_db5_def
    by (rule chat_create chat_post chat_claim chat_run_create)+
  show "sample_step\<^sup>*\<^sup>* chat_db0 chat_db5"
    by (rule s [THEN go] rtranclp.rtrancl_refl)+
  let ?a = "fst (reclaim_lapsed_turns chat_db5 200)"
    and ?b = "fst (run_create (\<lambda>_. False) secs chat_db6 (run_store_for 72) ((run_rec ''chat-72'')\<lparr>rc_started_at := 211\<rparr>) 82)"
  have t: "sample_step chat_db5 ?a" "sample_step ?a chat_db6" "sample_step chat_db6 ?b" "sample_step ?b chat_db7"
    "sample_step chat_db7 chat_db8"
    unfolding chat_db6_def chat_db7_def chat_db8_def
    by (rule chat_reclaim chat_claim chat_run_create chat_run_append)+
  show "sample_step\<^sup>*\<^sup>* chat_db5 chat_db8"
    by (rule t [THEN go] rtranclp.rtrancl_refl)+
qed

theorem one_turn_at_a_time_witness:
  "map (\<lambda>t. (tn_id t, tn_state t)) (chat_turns chat_db5) = [(71, TurnClaimed), (72, TurnPending)] \<and>
   map ms_seq (conv_messages chat_db5 70) = [1, 2]"
proof
  show "map (\<lambda>t. (tn_id t, tn_state t)) (chat_turns chat_db5) = [(71, TurnClaimed), (72, TurnPending)]" by code_simp
  have "length (conv_messages chat_db5 70) = 2" by code_simp
  moreover have "map ms_seq (conv_messages chat_db5 70) = map int [1..<Suc (length (conv_messages chat_db5 70))]"
    using one_turn_at_a_time [OF chat_db0_ok sample_history(1)] by blast
  ultimately show "map ms_seq (conv_messages chat_db5 70) = [1, 2]" by (simp add: upt_rec)
qed

theorem turns_and_runs_end_once_witness:
  "\<exists>t r. turn_at chat_db8 71 = Some t \<and> tn_conversation t = 70 \<and> tn_state t = TurnFailed \<and>
     run_at chat_db8 81 = Some r \<and> ag_run_key r = ''chat-71'' \<and> ag_state r = Ended Indeterminate"
proof -
  have "map (\<lambda>t. (tn_id t, tn_conversation t)) (chat_turns chat_db5) = [(71, 70), (72, 70)]"
    "map (\<lambda>r. (ag_id r, ag_run_key r)) (agent_runs chat_db5) = [(81, ''chat-71'')]" by code_simp+
  then obtain t r where t: "turn_at chat_db5 71 = Some t" "tn_conversation t = 70"
    and r: "run_at chat_db5 81 = Some r" "ag_run_key r = ''chat-71''" by (auto simp: state_in_def)
  have ok: "chat_ok chat_db5" by code_simp
  note e = turns_and_runs_end_once [OF ok sample_history(2)]
  from conjunct1 [OF e] t(1) obtain t' where "turn_at chat_db8 71 = Some t'" "same_turn t t'" by blast
  with t(2) have t': "turn_at chat_db8 71 = Some t'" "tn_conversation t' = 70" by (simp_all add: same_turn_def)
  from conjunct2 [OF e] r(1) obtain r' where "run_at chat_db8 81 = Some r'" "same_run r r'" by blast
  with r(2) same_run_keys have r': "run_at chat_db8 81 = Some r'" "ag_run_key r' = ''chat-71''" by auto
  from t'(1) r'(1) chat_db8_turns have "tn_state t' = TurnFailed" "ag_state r' = Ended Indeterminate"
    by (auto simp: state_in_def)
  with t' r' show ?thesis by blast
qed

theorem claim_is_never_stuck_witness:
  "\<exists>ct. snd (claim_turn secs chat_db3 ''w1'' 30 130 130) = Inr (Some ct) \<and> ct_prompt ct = ''one'' \<and>
     (\<exists>t. turn_at chat_db4 71 = Some t \<and> tn_claimed_by t = Some ''w1'')"
proof -
  let ?c = "claim_turn secs chat_db3 ''w1'' 30 130 130"
  have "map_option (\<lambda>ct. (ct_turn_id ct, ct_prompt ct)) (projr (snd ?c)) = Some (71, ''one'')" "\<not> isl (snd ?c)" by code_simp+
  then obtain ct where c: "?c = (chat_db4, Inr (Some ct))" "ct_turn_id ct = 71" "ct_prompt ct = ''one''"
    unfolding chat_db4_def by (cases ?c; cases "snd ?c") auto
  show ?thesis using claim_is_never_stuck [OF chat_db3_ok, of "''w1''" 30 secs 130 130] c by auto
qed

theorem messages_page_witness:
  "map ms_body (projr (snd (messages chat_db3 audit0 alice 70 1 0 150 150))) = [''two'']"
proof -
  have "\<not> isl (snd (messages chat_db3 audit0 alice 70 1 0 150 150))" by code_simp
  then obtain au' ms where m: "messages chat_db3 audit0 alice 70 1 0 150 150 = (au', Inr ms)"
    by (cases "messages chat_db3 audit0 alice 70 1 0 150 150"; cases "snd (messages chat_db3 audit0 alice 70 1 0 150 150)") auto
  have "map ms_body (take 100 (drop 1 (conv_messages chat_db3 70))) = [''two'']" by code_simp
  then show ?thesis using messages_page [OF chat_db3_ok, of audit0 alice 70 1 0 150 150 au' ms] m
    by (simp add: chat_page_limit_def)
qed

text \<open>
  The cursor of the run output is not safe once a turn is reclaimed: the reclaimed run may still write,
  and its lines sort before those of the next turn. A reader that has the next turn's first line is
  never given them.
\<close>

theorem reclaimed_output_falls_behind_the_cursor:
  "chat_ok chat_db7 \<and> sample_step chat_db7 chat_db8 \<and>
   map rv_pos (projr (snd (turn_events chat_db7 audit0 alice 70 0 0 0 300 300))) = [(2, 1)] \<and>
   map rv_pos (conv_run_events chat_db8 70) = [(1, 1), (2, 1)] \<and>
   turn_events chat_db8 audit0 alice 70 2 1 0 300 300 = (audit0, Inr [])"
proof (intro conjI)
  show "sample_step chat_db7 chat_db8" unfolding chat_db8_def by (rule chat_run_append)
qed (rule chat_db7_ok, code_simp+)

end
