(* ===== verification/Hive_Worker.thy ===== *)
theory Hive_Worker
  imports Hive_Turns
begin

text \<open>
  The turn worker (\<open>crates/hive-chat\<close>): what of a run's output becomes the answer, the fan-out to live
  subscribers, and the worker that claims a turn, runs an agent for it and closes it. JSON values are
  read through parameters. Between any two of the worker's accesses to the store other workers, the
  heartbeat and the reclaimer may act: \<open>others n\<close> is what they do before its \<open>n\<close>-th access. The process
  is what the supervisor's model takes; creating the workspace and the text of a uuid are parameters.
\<close>

section \<open>The answer\<close>

record 'j json_view =
  jx_get :: "'j \<Rightarrow> string \<Rightarrow> 'j option"
  jx_str :: "'j \<Rightarrow> string option"
  jx_array :: "'j \<Rightarrow> 'j list option"

definition is_assistant_type :: "string \<Rightarrow> bool" where
  "is_assistant_type t \<longleftrightarrow> t = ''assistant'' \<or> t = ''text''"

definition block_text :: "'j json_view \<Rightarrow> 'j \<Rightarrow> string" where
  "block_text jx c =
     (if Option.bind (jx_get jx c ''type'') (jx_str jx) = Some ''text''
      then (case Option.bind (jx_get jx c ''text'') (jx_str jx) of None \<Rightarrow> [] | Some t \<Rightarrow> t)
      else [])"

definition extract_text :: "'j json_lib \<Rightarrow> 'j json_view \<Rightarrow> run_line \<Rightarrow> string" where
  "extract_text js jx ev =
     (case ln_json ev of
        None \<Rightarrow> []
      | Some raw \<Rightarrow>
          (case js_parse js raw of
             None \<Rightarrow> []
           | Some v \<Rightarrow>
               (case Option.bind (jx_get jx v ''text'') (jx_str jx) of
                  Some (c # t) \<Rightarrow> c # t
                | _ \<Rightarrow>
                    (case Option.bind (jx_get jx v ''message'') (\<lambda>m. Option.bind (jx_get jx m ''content'') (jx_array jx)) of
                       None \<Rightarrow> []
                     | Some cs \<Rightarrow> concat (map (block_text jx) cs)))))"

definition assistant_text :: "'j json_lib \<Rightarrow> 'j json_view \<Rightarrow> run_line \<Rightarrow> string" where
  "assistant_text js jx ev =
     (if ln_stream ev \<noteq> Stdout \<or> \<not> is_assistant_type (ln_type ev) then [] else extract_text js jx ev)"

definition observe :: "'j json_lib \<Rightarrow> 'j json_view \<Rightarrow> string list \<Rightarrow> run_line \<Rightarrow> string list" where
  "observe js jx parts ev = (let t = assistant_text js jx ev in if t = [] then parts else parts @ [t])"

definition answer_text :: "string list \<Rightarrow> string" where
  "answer_text parts = trim (concat parts)"

section \<open>The hub\<close>

record run_frame =
  fr_request_seq :: int
  fr_seq :: int
  fr_stream :: string
  fr_type :: string
  fr_text :: string

definition frame_of :: "'j json_lib \<Rightarrow> 'j json_view \<Rightarrow> int \<Rightarrow> run_line \<Rightarrow> run_frame" where
  "frame_of js jx n ev =
     \<lparr>fr_request_seq = n, fr_seq = ln_seq ev, fr_stream = event_stream_as_str (ln_stream ev), fr_type = ln_type ev,
      fr_text = assistant_text js jx ev\<rparr>"

text \<open>A stored stream is one of the two, so reading it back always parses.\<close>

definition frame_of_record :: "'j json_lib \<Rightarrow> 'j json_view \<Rightarrow> run_event \<Rightarrow> run_frame" where
  "frame_of_record js jx e =
     frame_of js jx (rv_request_seq e)
       \<lparr>ln_seq = rv_seq e, ln_at = rv_at e, ln_stream = rv_stream e, ln_type = rv_type e,
        ln_json = (if rv_body e = [] then None else Some (rv_body e)), ln_text = rv_text e, ln_truncated = False\<rparr>"

datatype update = RunUpdate run_frame | TurnUpdate int turn_state

text \<open>A subscriber: its conversation, its id, the size of its channel and what waits in it.\<close>

record subscriber =
  sb_conversation :: uuid
  sb_id :: nat
  sb_buffer :: nat
  sb_queue :: "update list"

record chat_hub =
  hub_subs :: "subscriber list"
  hub_next :: nat

definition hub_subscribe :: "chat_hub \<Rightarrow> uuid \<Rightarrow> nat \<Rightarrow> chat_hub \<times> nat" where
  "hub_subscribe h c buffer =
     (let i = hub_next h + 1
      in (\<lparr>hub_subs = hub_subs h @ [\<lparr>sb_conversation = c, sb_id = i, sb_buffer = (if buffer = 0 then 64 else buffer), sb_queue = []\<rparr>],
           hub_next = i\<rparr>, i))"

definition hub_publish :: "chat_hub \<Rightarrow> uuid \<Rightarrow> update \<Rightarrow> chat_hub" where
  "hub_publish h c u =
     h\<lparr>hub_subs := map (\<lambda>s. if sb_conversation s = c \<and> length (sb_queue s) < sb_buffer s
                             then s\<lparr>sb_queue := sb_queue s @ [u]\<rparr> else s) (hub_subs h)\<rparr>"

definition hub_try_recv :: "chat_hub \<Rightarrow> nat \<Rightarrow> chat_hub \<times> update option" where
  "hub_try_recv h i =
     (case List.find (\<lambda>s. sb_id s = i) (hub_subs h) of
        None \<Rightarrow> (h, None)
      | Some s \<Rightarrow>
          (case sb_queue s of
             [] \<Rightarrow> (h, None)
           | u # us \<Rightarrow> (h\<lparr>hub_subs := update_rows (\<lambda>x. sb_id x = i) (\<lambda>x. x\<lparr>sb_queue := us\<rparr>) (hub_subs h)\<rparr>, Some u)))"

definition hub_drop :: "chat_hub \<Rightarrow> uuid \<Rightarrow> nat \<Rightarrow> chat_hub" where
  "hub_drop h c i = h\<lparr>hub_subs := delete_rows (\<lambda>s. sb_conversation s = c \<and> sb_id s = i) (hub_subs h)\<rparr>"

section \<open>The worker\<close>

definition lease_duration :: nat where "lease_duration = 120"
definition abandoned_run_grace :: nat where "abandoned_run_grace = 120"
definition failed_turn_notice :: string where "failed_turn_notice = ''The agent could not answer this message.''"
definition reclaimed_turn_notice :: string where
  "reclaimed_turn_notice = ''The agent stopped answering. Send the message again to retry.''"

record worker_config =
  wc_name :: string
  wc_pins :: image_pins
  wc_daemon_socket :: string
  wc_workspace_root :: string
  wc_deadline :: nat
  wc_concurrency :: nat
  wc_poll_interval :: nat

definition worker_defaults :: "worker_config \<Rightarrow> worker_config" where
  "worker_defaults c =
     c\<lparr>wc_deadline := (if wc_deadline c = 0 then 600 else wc_deadline c),
       wc_concurrency := (if wc_concurrency c = 0 then 1 else wc_concurrency c),
       wc_poll_interval := (if wc_poll_interval c = 0 then 1 else wc_poll_interval c)\<rparr>"

datatype worker_error =
    WConfig string | WStore store_error | WPins pin_error | WWorkspace | WRunEnded terminal_state | WRun string

definition worker_new :: "worker_config \<Rightarrow> worker_error + worker_config" where
  "worker_new c =
     (if wc_name c = [] then Inl (WConfig ''needs a name; an untraceable claim is worse than none'')
      else if list_all (\<lambda>r. pins_runtimes (wc_pins c) r = None) runtime_all then Inl (WConfig ''needs image pins: a tag is not a pin'')
      else if wc_daemon_socket c = [] then Inl (WConfig ''needs the daemon socket path; a turn has no other route to the API'')
      else if wc_workspace_root c = [] then Inl (WConfig ''needs a workspace root'')
      else Inr (worker_defaults c))"

definition streaming_args :: "string \<Rightarrow> string list" where
  "streaming_args sid =
     [''--print'', ''--output-format'', ''stream-json'', ''--verbose''] @ (if sid = [] then [] else [''--resume'', sid])"

text \<open>The heartbeat, by what each extension said: True when it cancelled the run.\<close>

fun heartbeat :: "(store_error + bool) list \<Rightarrow> bool" where
  "heartbeat [] = False"
| "heartbeat (Inr False # _) = True"
| "heartbeat (_ # ticks) = heartbeat ticks"

record worker_state =
  wk_db :: chat_db
  wk_audit :: audit_db
  wk_hub :: chat_hub
  wk_inflight :: "string set"
  wk_history :: "string list list"
  wk_access :: nat

text \<open>What a worker is given: the parameters, the clock, and what others do.\<close>

record 'j worker_env =
  we_config :: worker_config
  we_json :: "'j json_lib"
  we_view :: "'j json_view"
  we_from_std :: "nat \<Rightarrow> int option"
  we_show :: "uuid \<Rightarrow> string"
  we_mkdir :: "string \<Rightarrow> bool"
  we_lossy :: "string \<Rightarrow> string"
  we_probe :: "string \<Rightarrow> (string \<times> string \<times> string) option"
  we_sup :: supervisor_config
  we_launcher :: launcher_ops
  we_others :: "nat \<Rightarrow> chat_db \<Rightarrow> chat_db"
  we_clock :: "nat \<Rightarrow> time"
  we_fresh :: "nat \<Rightarrow> uuid"

text \<open>One access to the store: the others act, then it happens, at its own time and with its own fresh id.\<close>

definition wk_enter :: "'j worker_env \<Rightarrow> worker_state \<Rightarrow> worker_state" where
  "wk_enter en w = w\<lparr>wk_db := we_others en (wk_access w) (wk_db w), wk_access := wk_access w + 1\<rparr>"

abbreviation wk_now :: "'j worker_env \<Rightarrow> worker_state \<Rightarrow> time" where
  "wk_now en w \<equiv> we_clock en (wk_access w)"

definition wk_publish :: "worker_state \<Rightarrow> uuid \<Rightarrow> update \<Rightarrow> worker_state" where
  "wk_publish w c u = w\<lparr>wk_hub := hub_publish (wk_hub w) c u\<rparr>"

definition wk_post ::
  "'j worker_env \<Rightarrow> worker_state \<Rightarrow> credential \<Rightarrow> uuid \<Rightarrow> string \<Rightarrow> string \<Rightarrow> worker_state \<times> (store_error + unit)" where
  "wk_post en w c conv role body =
     (let w1 = wk_enter en w; t = wk_now en w1
      in case post_message (wk_db w1) (wk_audit w1) c conv role body Trusted None (we_fresh en (wk_access w1)) t t t of
           (db', au', Inl e) \<Rightarrow> (w1\<lparr>wk_db := db', wk_audit := au'\<rparr>, Inl e)
         | (db', au', Inr _) \<Rightarrow> (w1\<lparr>wk_db := db', wk_audit := au'\<rparr>, Inr ()))"

definition wk_close :: "'j worker_env \<Rightarrow> worker_state \<Rightarrow> uuid \<Rightarrow> turn_state \<Rightarrow> worker_state \<times> (store_error + unit)" where
  "wk_close en w i st =
     (let w1 = wk_enter en w in case close_turn (wk_db w1) i st of (db', r) \<Rightarrow> (w1\<lparr>wk_db := db'\<rparr>, r))"

definition worker_cred :: "claimed_turn \<Rightarrow> credential" where
  "worker_cred c = \<lparr>actor_id = ct_author_actor c, principal_kind = o_kind (ct_owner c), principal_id = o_id (ct_owner c)\<rparr>"

definition worker_notify :: "'j worker_env \<Rightarrow> worker_state \<Rightarrow> claimed_turn \<Rightarrow> string \<Rightarrow> worker_state" where
  "worker_notify en w c body = fst (wk_post en w (worker_cred c) (ct_conversation_id c) ''system'' body)"

definition worker_fail ::
  "'j worker_env \<Rightarrow> worker_state \<Rightarrow> claimed_turn \<Rightarrow> worker_error \<Rightarrow> worker_state \<times> (worker_error + unit)" where
  "worker_fail en w c cause =
     (let w1 = worker_notify en w c failed_turn_notice; w2 = fst (wk_close en w1 (ct_turn_id c) TurnFailed)
      in (wk_publish w2 (ct_conversation_id c) (TurnUpdate (ct_request_seq c) TurnFailed), Inl cause))"

definition worker_finish ::
  "'j worker_env \<Rightarrow> worker_state \<Rightarrow> claimed_turn \<Rightarrow> string \<Rightarrow> worker_state \<times> (worker_error + unit)" where
  "worker_finish en w c body =
     (case wk_post en w (worker_cred c) (ct_conversation_id c) ''agent''
             (if body = [] then ''(the agent produced no answer)'' else body) of
        (w1, Inl e) \<Rightarrow> worker_fail en w1 c (WRun ''post answer'')
      | (w1, Inr _) \<Rightarrow>
          (case wk_close en w1 (ct_turn_id c) TurnDone of
             (w2, Inl e) \<Rightarrow> (w2, Inl (WStore e))
           | (w2, Inr _) \<Rightarrow>
               (wk_publish w2 (ct_conversation_id c) (TurnUpdate (ct_request_seq c) TurnDone), Inr ())))"

definition turn_spec :: "'j worker_env \<Rightarrow> claimed_turn \<Rightarrow> run_spec" where
  "turn_spec en c =
     run_spec_default\<lparr>spec_run_id := ''chat-'' @ we_show en (ct_turn_id c), spec_runtime := runtime_parse (ct_runtime c),
       spec_model := ct_model c, spec_prompt_stdin := ct_prompt c, spec_network := NetDaemon,
       spec_daemon_socket := wc_daemon_socket (we_config en), spec_limits := default_limits,
       spec_deadline := wc_deadline (we_config en)\<rparr>"

definition turn_writer :: "claimed_turn \<Rightarrow> run_writer" where
  "turn_writer c = (run_writer_new (worker_cred c))\<lparr>rw_trust := Trusted, rw_conversation_id := Some (ct_conversation_id c),
     rw_turn_id := Some (ct_turn_id c)\<rparr>"

definition worker_record :: "run_spec \<Rightarrow> time \<Rightarrow> run_record" where
  "worker_record s now = (run_record_of s now)\<lparr>rc_runtime := (case spec_runtime s of None \<Rightarrow> Claude | Some r \<Rightarrow> r)\<rparr>"

text \<open>
  The callback on each line, in order: recorded first, then added to the answer and published; the
  first line that cannot be recorded ends the delivery.
\<close>

fun deliver_lines ::
  "'j worker_env \<Rightarrow> claimed_turn \<Rightarrow> string \<Rightarrow> worker_state \<Rightarrow> agent_run_store \<Rightarrow> string list \<Rightarrow> run_line list
   \<Rightarrow> worker_state \<times> agent_run_store \<times> string list \<times> run_line option" where
  "deliver_lines en c key w st parts [] = (w, st, parts, None)"
| "deliver_lines en c key w st parts (ev # evs) =
     (let w1 = wk_enter en w
      in case run_append (we_json en) (wk_db w1) st key ev of
           (db', st', Inl e) \<Rightarrow> (w1\<lparr>wk_db := db'\<rparr>, st', parts, Some ev)
         | (db', st', Inr _) \<Rightarrow>
             deliver_lines en c key
               (wk_publish (w1\<lparr>wk_db := db'\<rparr>) (ct_conversation_id c)
                  (RunUpdate (frame_of (we_json en) (we_view en) (ct_request_seq c) ev)))
               st' (observe (we_json en) (we_view en) parts ev) evs)"

text \<open>The lines the supervisor's drain hands to the callback: none when the process never started.\<close>

definition lines_of_run :: "'j worker_env \<Rightarrow> worker_state \<Rightarrow> run_spec \<Rightarrow> process_outcome \<Rightarrow> run_line list" where
  "lines_of_run en w s p =
     (if isl (spec_validate s) \<or> spec_run_id s \<in> wk_inflight w \<or> isl (snd (lo_command (we_launcher en) (wk_history w) s))
       \<or> po_spawn p \<noteq> None
      then [] else line_events (we_probe en) 0 (arrivals (we_sup en) (we_lossy en) p))"

definition supervise ::
  "'j worker_env \<Rightarrow> worker_state \<Rightarrow> run_spec \<Rightarrow> process_outcome \<Rightarrow> run_line option
   \<Rightarrow> worker_state \<times> run_result option \<times> run_error option" where
  "supervise en w s p refused =
     (case supervisor_run (we_sup en) (we_lossy en) (we_probe en) (we_launcher en) None
             \<lparr>sk_store = None, sk_event = Some (\<lambda>ev. if refused = Some ev then Some ''append'' else None)\<rparr>
             (wk_inflight w) (wk_history w) s p (wk_now en w) of
        (inflight, h, res, err) \<Rightarrow> (w\<lparr>wk_inflight := inflight, wk_history := h\<rparr>, res, err))"

text \<open>After the run: its result is recorded whatever it is, then the turn is failed or answered.\<close>

definition conclude ::
  "'j worker_env \<Rightarrow> claimed_turn \<Rightarrow> string \<Rightarrow> agent_run_store \<Rightarrow> string list
   \<Rightarrow> worker_state \<Rightarrow> run_result option \<Rightarrow> run_error option \<Rightarrow> worker_state \<times> (worker_error + unit)" where
  "conclude en c key st parts w res err =
     (let w1 = (case res of
                  None \<Rightarrow> w
                | Some r \<Rightarrow> (let w' = wk_enter en w in w'\<lparr>wk_db := fst (run_finish (wk_db w') st key r)\<rparr>))
      in case err of
           Some e \<Rightarrow> worker_fail en w1 c (WRun ''run'')
         | None \<Rightarrow>
             (case res of
                None \<Rightarrow> worker_fail en w1 c (WRun ''no result'')
              | Some r \<Rightarrow>
                  if rr_state r \<noteq> Succeeded then worker_fail en w1 c (WRunEnded (rr_state r))
                  else (let w2 = wk_enter en w1;
                            w3 = w2\<lparr>wk_db := record_session (wk_db w2) (ct_conversation_id c) (rr_session_id r) (wk_now en w2)\<rparr>
                        in worker_finish en w3 c (answer_text parts))))"

definition worker_launch ::
  "'j worker_env \<Rightarrow> worker_state \<Rightarrow> claimed_turn \<Rightarrow> agent_run_store \<Rightarrow> run_spec \<Rightarrow> process_outcome
   \<Rightarrow> worker_state \<times> (worker_error + unit)" where
  "worker_launch en w c st s p =
     (let w2 = wk_enter en w
      in case run_create (\<lambda>_. False) (we_from_std en) (wk_db w2) st
                (worker_record s (wk_now en w2)) (we_fresh en (wk_access w2)) of
           (db', st1, Inl e) \<Rightarrow> worker_fail en (w2\<lparr>wk_db := db'\<rparr>) c (WRun ''record run'')
         | (db', st1, Inr _) \<Rightarrow>
             (case deliver_lines en c (spec_run_id s) (w2\<lparr>wk_db := db'\<rparr>) st1 [] (lines_of_run en w2 s p) of
                (w3, st2, parts, refused) \<Rightarrow>
                  (case supervise en w3 s p refused of
                     (w4, res, err) \<Rightarrow> conclude en c (spec_run_id s) st2 parts w4 res err)))"

definition worker_answer ::
  "'j worker_env \<Rightarrow> worker_state \<Rightarrow> claimed_turn \<Rightarrow> process_outcome \<Rightarrow> worker_state \<times> (worker_error + unit)" where
  "worker_answer en w c p =
     (case pins_apply (wc_pins (we_config en)) (turn_spec en c) of
        Inl e \<Rightarrow> worker_fail en w c (WPins e)
      | Inr s0 \<Rightarrow>
          (let dir = wc_workspace_root (we_config en) @ ''/'' @ we_show en (ct_conversation_id c)
           in if \<not> we_mkdir en dir then worker_fail en w c WWorkspace
              else
                (case agent_run_store_new (turn_writer c) of
                   Inl e \<Rightarrow> worker_fail en w c (WStore e)
                 | Inr st \<Rightarrow>
                     (let w1 = wk_enter en w
                      in case resume_session (wk_db w1) (ct_conversation_id c) of
                           Inl e \<Rightarrow> worker_fail en w1 c (WStore e)
                         | Inr (_, sid) \<Rightarrow>
                             worker_launch en w1 c st
                               (s0\<lparr>spec_workspace_dir := dir, spec_session_id := sid, spec_args := streaming_args sid\<rparr>) p))))"

definition worker_run_one ::
  "'j worker_env \<Rightarrow> worker_state \<Rightarrow> process_outcome \<Rightarrow> worker_state \<times> (worker_error + bool)" where
  "worker_run_one en w p =
     (let w1 = wk_enter en w
      in case claim_turn (we_from_std en) (wk_db w1) (wc_name (we_config en)) lease_duration (wk_now en w1) (wk_now en w1) of
           (db', Inl e) \<Rightarrow> (w1\<lparr>wk_db := db'\<rparr>, Inl (WStore e))
         | (db', Inr None) \<Rightarrow> (w1\<lparr>wk_db := db'\<rparr>, Inr False)
         | (db', Inr (Some c)) \<Rightarrow>
             (case worker_answer en (wk_publish (w1\<lparr>wk_db := db'\<rparr>) (ct_conversation_id c) (TurnUpdate (ct_request_seq c) TurnClaimed)) c p of
                (w2, Inl e) \<Rightarrow> (w2, Inl e)
              | (w2, Inr _) \<Rightarrow> (w2, Inr True)))"

fun notify_reclaimed :: "'j worker_env \<Rightarrow> worker_state \<Rightarrow> claimed_turn list \<Rightarrow> worker_state" where
  "notify_reclaimed en w [] = w"
| "notify_reclaimed en w (t # ts) =
     notify_reclaimed en
       (wk_publish (worker_notify en w t reclaimed_turn_notice) (ct_conversation_id t) (TurnUpdate (ct_request_seq t) TurnFailed)) ts"

definition worker_reclaim :: "'j worker_env \<Rightarrow> worker_state \<Rightarrow> worker_state \<times> (worker_error + unit)" where
  "worker_reclaim en w =
     (let w1 = wk_enter en w
      in case reclaim_lapsed_turns (wk_db w1) (wk_now en w1) of
           (db', Inl e) \<Rightarrow> (w1\<lparr>wk_db := db'\<rparr>, Inl (WStore e))
         | (db', Inr ts) \<Rightarrow>
             (let w2 = wk_enter en (notify_reclaimed en (w1\<lparr>wk_db := db'\<rparr>) ts)
              in case reclaim_abandoned_runs (we_from_std en) (wk_db w2) abandoned_run_grace (wk_now en w2) of
                   (db'', Inl e) \<Rightarrow> (w2\<lparr>wk_db := db''\<rparr>, Inl (WStore e))
                 | (db'', Inr _) \<Rightarrow> (w2\<lparr>wk_db := db''\<rparr>, Inr ())))"

section \<open>What reaches the answer\<close>

lemma observe_concat: "concat (foldl (observe js jx) parts evs) = concat parts @ concat (map (assistant_text js jx) evs)"
  by (induction evs arbitrary: parts) (simp_all add: observe_def Let_def)

lemma deliver_parts:
  "deliver_lines en c key w st parts evs = (w', st', parts', None) \<Longrightarrow>
   parts' = foldl (observe (we_json en) (we_view en)) parts evs"
  by (induction en c key w st parts evs rule: deliver_lines.induct)
    (auto simp: Let_def split: prod.split_asm sum.split_asm)

definition answers :: "run_line \<Rightarrow> bool" where
  "answers ev \<longleftrightarrow> ln_stream ev = Stdout \<and> is_assistant_type (ln_type ev)"

lemma silent_lines: "concat (map (assistant_text js jx) (filter answers evs)) = concat (map (assistant_text js jx) evs)"
  by (induction evs) (auto simp: answers_def assistant_text_def)

text \<open>
  Only what the assistant said reaches the answer. When every line of a run was delivered, the answer
  is the text of the assistant's own lines on standard output, in order; tool calls, tool results, other
  types and everything on standard error could be left out of the run without changing it, and it is
  exactly the text that live subscribers were shown.
\<close>

theorem answer_is_the_assistants_text:
  assumes "deliver_lines en c key w st [] evs = (w', st', parts, None)"
  shows "answer_text parts = trim (concat (map (assistant_text (we_json en) (we_view en)) (filter answers evs))) \<and>
    answer_text parts = trim (concat (map (\<lambda>ev. fr_text (frame_of (we_json en) (we_view en) n ev)) evs))"
proof -
  have "concat parts = concat (map (assistant_text (we_json en) (we_view en)) evs)"
    unfolding deliver_parts [OF assms] by (simp add: observe_concat)
  then show ?thesis by (simp add: answer_text_def silent_lines frame_of_def)
qed

text \<open>
  A replayed line is the line that was shown. When JSON values print to something that parses back
  to them, a line that was recorded for a run is afterwards part of the conversation's replay, at its
  turn's number and its own, and the replay shows for it the frame live subscribers were sent.
\<close>

theorem replay_shows_what_was_live:
  assumes json: "\<And>v. js_parse js (js_text js v) = Some v \<and> js_text js v \<noteq> []"
    and rec: "run_append js db st key ev = (db', st', Inr ())" "snd (run_row_id db st key) = Inr i"
    and run: "r \<in> set (agent_runs db)" "ag_id r = i" "ag_conversation r = Some conv" "ag_turn r = Some tid"
    and turn: "List.find (\<lambda>t. tn_id t = tid) (chat_turns db) = Some t"
  shows "\<exists>e \<in> set (conv_run_events db' conv). rv_pos e = (tn_request_seq t, ln_seq ev) \<and>
    frame_of_record js jx e = frame_of js jx (tn_request_seq t) ev"
proof -
  let ?row = "\<lparr>re_run_id = i, re_seq = ln_seq ev, re_at = ln_at ev, re_stream = ln_stream ev, re_type = ln_type ev,
    re_body = Option.bind (ln_json ev) (js_store js), re_text = ln_text ev\<rparr>"
  have db': "db' = db\<lparr>agent_run_events := agent_run_events db @ [?row]\<rparr>"
    using rec by (auto simp: run_append_def Let_def split: prod.split_asm sum.split_asm if_split_asm)
  have "run_event_of t ?row \<in> set (conv_run_events db' conv)"
    using run turn by (auto simp: db' conv_run_events_def intro!: bexI [of _ r])
  moreover have "extract_text js jx ev = extract_text js jx
      (ev\<lparr>ln_json := (case re_body ?row of None \<Rightarrow> None | Some b \<Rightarrow> if b = [] then None else Some b)\<rparr>)"
  proof (cases "ln_json ev")
    case (Some raw)
    then show ?thesis using json by (cases "js_parse js raw") (auto simp: extract_text_def js_store_def)
  qed (simp add: extract_text_def)
  then have "frame_of_record js jx (run_event_of t ?row) = frame_of js jx (tn_request_seq t) ev"
    by (cases "re_body ?row")
      (auto simp: frame_of_record_def frame_of_def run_event_of_def assistant_text_def extract_text_def)
  ultimately show ?thesis by (intro bexI [of _ "run_event_of t ?row"]) (simp_all add: rv_pos_def run_event_of_def)
qed

section \<open>Every turn a worker takes is closed\<close>

abbreviation env_step :: "'j worker_env \<Rightarrow> chat_db \<Rightarrow> chat_db \<Rightarrow> bool" where
  "env_step en \<equiv> chat_step (\<lambda>_. False) (we_from_std en) (we_json en)"

definition others_ok :: "'j worker_env \<Rightarrow> bool" where
  "others_ok en \<longleftrightarrow> (\<forall>n db. (env_step en)\<^sup>*\<^sup>* db (we_others en n db))"

definition reaches :: "'j worker_env \<Rightarrow> worker_state \<Rightarrow> worker_state \<Rightarrow> bool" where
  "reaches en w w' \<longleftrightarrow> (env_step en)\<^sup>*\<^sup>* (wk_db w) (wk_db w')"

lemma reaches_trans: "reaches en w w1 \<Longrightarrow> reaches en w1 w2 \<Longrightarrow> reaches en w w2"
  unfolding reaches_def by (rule rtranclp_trans)

lemma reaches_same: "wk_db w' = wk_db w \<Longrightarrow> reaches en w w'"
  by (simp add: reaches_def)

lemma wk_enter_reaches: "others_ok en \<Longrightarrow> reaches en w (wk_enter en w)"
  by (simp add: reaches_def wk_enter_def others_ok_def)

text \<open>An access: the others, then one step.\<close>

lemma access_reaches:
  assumes "others_ok en" "env_step en (wk_db (wk_enter en w)) (wk_db w')"
  shows "reaches en w w'"
  by (rule reaches_trans [OF wk_enter_reaches [OF assms(1)]]) (use assms(2) in \<open>auto simp: reaches_def\<close>)

lemma wk_post_db:
  "wk_db (fst (wk_post en w c conv role body)) =
     fst (post_message (wk_db (wk_enter en w)) (wk_audit (wk_enter en w)) c conv role body Trusted None
       (we_fresh en (wk_access (wk_enter en w))) (wk_now en (wk_enter en w)) (wk_now en (wk_enter en w)) (wk_now en (wk_enter en w)))"
  unfolding wk_post_def Let_def by (simp split: prod.split sum.split)

lemma wk_post_reaches: "others_ok en \<Longrightarrow> reaches en w (fst (wk_post en w c conv role body))"
  by (rule access_reaches) (simp_all add: wk_post_db chat_post)

lemma wk_close_db: "wk_db (fst (wk_close en w i st)) = fst (close_turn (wk_db (wk_enter en w)) i st)"
  "snd (wk_close en w i st) = snd (close_turn (wk_db (wk_enter en w)) i st)"
  unfolding wk_close_def Let_def by (simp_all split: prod.split)

lemma wk_close_reaches: "others_ok en \<Longrightarrow> reaches en w (fst (wk_close en w i st))"
  by (rule access_reaches) (simp_all add: wk_close_db chat_close)

lemma deliver_reaches:
  assumes ok: "others_ok en" shows "reaches en w (fst (deliver_lines en c key w st parts evs))"
proof (induction evs arbitrary: w st parts)
  case Nil
  then show ?case by (simp add: reaches_def)
next
  case (Cons ev evs)
  let ?w = "wk_enter en w"
  obtain db' st' r where a: "run_append (we_json en) (wk_db ?w) st key ev = (db', st', r)" by (metis prod_cases3)
  have step: "env_step en (wk_db ?w) db'"
    using chat_run_append [of "\<lambda>_. False" "we_from_std en" "we_json en" "wk_db ?w" st key ev] a by simp
  have here: "reaches en w w1" if "wk_db w1 = db'" for w1 using access_reaches [OF ok] step that by simp
  show ?case
  proof (cases r)
    case (Inl e)
    then show ?thesis using a here by (simp add: Let_def)
  next
    case (Inr u)
    let ?w1 = "wk_publish (?w\<lparr>wk_db := db'\<rparr>) (ct_conversation_id c) (RunUpdate (frame_of (we_json en) (we_view en) (ct_request_seq c) ev))"
    have "deliver_lines en c key w st parts (ev # evs) =
        deliver_lines en c key ?w1 st' (observe (we_json en) (we_view en) parts ev) evs"
      using a Inr by (simp add: Let_def)
    moreover have "reaches en w ?w1" by (rule here) (simp add: wk_publish_def)
    ultimately show ?thesis using Cons.IH reaches_trans by metis
  qed
qed

text \<open>A turn somebody has taken, and one that is closed.\<close>

definition taken :: "chat_db \<Rightarrow> uuid \<Rightarrow> bool" where
  "taken db i \<longleftrightarrow> chat_ok db \<and> (\<exists>t. turn_at db i = Some t \<and> tn_state t \<noteq> TurnPending)"

definition closed :: "chat_db \<Rightarrow> uuid \<Rightarrow> bool" where
  "closed db i \<longleftrightarrow> chat_ok db \<and> (\<exists>t. turn_at db i = Some t \<and> tn_state t \<in> {TurnDone, TurnFailed})"

lemma moves_not_pending: "turn_move\<^sup>*\<^sup>* t t' \<Longrightarrow> tn_state t \<noteq> TurnPending \<Longrightarrow> tn_state t' \<noteq> TurnPending"
  by (induction rule: rtranclp_induct) (auto simp: turn_move_def split: turn_state.splits)

lemma taken_stays:
  assumes "taken (wk_db w) i" "reaches en w w'"
  shows "taken (wk_db w') i"
proof -
  from assms(1) obtain t where ok: "chat_ok (wk_db w)" and t: "turn_at (wk_db w) i = Some t" "tn_state t \<noteq> TurnPending"
    by (auto simp: taken_def)
  have s: "(env_step en)\<^sup>*\<^sup>* (wk_db w) (wk_db w')" using assms(2) by (simp add: reaches_def)
  from tl.steps_edges [OF ok_chat_steps [OF s ok] t(1)] obtain t' where "turn_at (wk_db w') i = Some t'" "turn_move\<^sup>*\<^sup>* t t'"
    by auto
  then show ?thesis using moves_not_pending [OF _ t(2)] chat_steps_ok [OF s ok] by (auto simp: taken_def)
qed

lemma close_turn_closes:
  assumes "taken db i" "st \<in> {TurnDone, TurnFailed}"
  shows "snd (close_turn db i st) = Inr () \<and> closed (fst (close_turn db i st)) i"
proof -
  from assms(1) obtain t where ok: "chat_ok db" and t: "turn_at db i = Some t" "tn_state t \<noteq> TurnPending" by (auto simp: taken_def)
  let ?p = "\<lambda>t. tn_id t = i \<and> tn_state t = TurnClaimed"
  have checks: "turn_checks (x\<lparr>tn_state := st\<rparr>)" if "x \<in> set (chat_turns db)" "?p x" for x
    using ok that assms(2) by (auto simp: chat_ok_def turns_ok_def list_all_iff turn_checks_def)
  then have c: "close_turn db i st =
      (db\<lparr>chat_turns := update_rows ?p (\<lambda>t. t\<lparr>tn_state := st\<rparr>) (chat_turns db)\<rparr>, Inr ())"
    using assms(2) by (auto simp: close_turn_def update_turns_def)
  have f: "List.find (\<lambda>r. tn_id r = i) (chat_turns db) = Some t" "tn_id t = i"
    using t(1) by (auto simp: state_in_def dest: find_SomeD)
  have "turn_at (fst (close_turn db i st)) i = Some (if tn_state t = TurnClaimed then t\<lparr>tn_state := st\<rparr> else t)"
    unfolding c using f by (simp add: state_in_update)
  then show ?thesis using c close_turn_ok [OF ok, of i st] t(2) assms(2)
    by (cases "tn_state t") (auto simp: closed_def)
qed

lemma wk_close_closes:
  assumes "others_ok en" "taken (wk_db w) i" "st \<in> {TurnDone, TurnFailed}"
  shows "snd (wk_close en w i st) = Inr () \<and> closed (wk_db (fst (wk_close en w i st))) i"
  unfolding wk_close_db
  by (rule close_turn_closes [OF taken_stays [OF assms(2) wk_enter_reaches [OF assms(1)]] assms(3)])

lemma wk_publish_db [simp]: "wk_db (wk_publish w c u) = wk_db w"
  by (simp add: wk_publish_def)

text \<open>What a worker does to a turn it has taken ends with the turn closed.\<close>

definition settles :: "claimed_turn \<Rightarrow> worker_state \<times> (worker_error + unit) \<Rightarrow> bool" where
  "settles c out \<longleftrightarrow> closed (wk_db (fst out)) (ct_turn_id c)"

lemma fail_settles:
  assumes "others_ok en" "taken (wk_db w) (ct_turn_id c)"
  shows "settles c (worker_fail en w c cause)"
proof -
  have "taken (wk_db (worker_notify en w c failed_turn_notice)) (ct_turn_id c)"
    unfolding worker_notify_def by (rule taken_stays [OF assms(2) wk_post_reaches [OF assms(1)]])
  from wk_close_closes [OF assms(1) this, of TurnFailed] show ?thesis
    by (simp add: settles_def worker_fail_def Let_def)
qed

lemma finish_settles:
  assumes "others_ok en" "taken (wk_db w) (ct_turn_id c)"
  shows "settles c (worker_finish en w c body)"
proof -
  let ?body = "if body = [] then ''(the agent produced no answer)'' else body"
  obtain w1 r where p: "wk_post en w (worker_cred c) (ct_conversation_id c) ''agent'' ?body = (w1, r)" by fastforce
  have t: "taken (wk_db w1) (ct_turn_id c)"
    using taken_stays [OF assms(2) wk_post_reaches [OF assms(1), of w "worker_cred c" "ct_conversation_id c" "''agent''" ?body]] p
    by simp
  show ?thesis
  proof (cases r)
    case (Inl e)
    have "worker_finish en w c body = worker_fail en w1 c (WRun ''post answer'')"
      unfolding worker_finish_def p Inl by simp
    then show ?thesis using fail_settles [OF assms(1) t] by simp
  next
    case (Inr u)
    obtain w2 r2 where k: "wk_close en w1 (ct_turn_id c) TurnDone = (w2, r2)" by fastforce
    then have "r2 = Inr ()" "closed (wk_db w2) (ct_turn_id c)" using wk_close_closes [OF assms(1) t, of TurnDone] by simp_all
    then show ?thesis unfolding settles_def worker_finish_def p Inr k by (simp add: k)
  qed
qed

lemma conclude_settles:
  assumes "others_ok en" "taken (wk_db w) (ct_turn_id c)"
  shows "settles c (conclude en c key st parts w res err)"
proof -
  define w1 where "w1 = (case res of None \<Rightarrow> w
    | Some r \<Rightarrow> (wk_enter en w)\<lparr>wk_db := fst (run_finish (wk_db (wk_enter en w)) st key r)\<rparr>)"
  have "reaches en w w1"
  proof (cases res)
    case (Some r)
    then show ?thesis unfolding w1_def by (intro access_reaches [OF assms(1)]) (simp add: chat_run_finish)
  qed (simp add: w1_def reaches_def)
  from taken_stays [OF assms(2) this] have t1: "taken (wk_db w1) (ct_turn_id c)" .
  define w3 where "w3 = (\<lambda>r :: run_result. (wk_enter en w1)\<lparr>wk_db := record_session (wk_db (wk_enter en w1)) (ct_conversation_id c)
    (rr_session_id r) (wk_now en (wk_enter en w1))\<rparr>)"
  have t3: "taken (wk_db (w3 r)) (ct_turn_id c)" for r
    unfolding w3_def by (rule taken_stays [OF t1 access_reaches [OF assms(1)]]) (simp add: chat_session)
  have "conclude en c key st parts w res err =
      (case err of Some e \<Rightarrow> worker_fail en w1 c (WRun ''run'')
       | None \<Rightarrow> (case res of None \<Rightarrow> worker_fail en w1 c (WRun ''no result'')
           | Some r \<Rightarrow> if rr_state r \<noteq> Succeeded then worker_fail en w1 c (WRunEnded (rr_state r))
               else worker_finish en (w3 r) c (answer_text parts)))"
    unfolding conclude_def Let_def w1_def w3_def by simp
  then show ?thesis
    using fail_settles [OF assms(1) t1] finish_settles [OF assms(1) t3] by (simp split: option.split)
qed

lemma launch_settles:
  assumes "others_ok en" "taken (wk_db w) (ct_turn_id c)"
  shows "settles c (worker_launch en w c st s p)"
proof -
  let ?w2 = "wk_enter en w"
  obtain db' st1 r where k: "run_create (\<lambda>_. False) (we_from_std en) (wk_db ?w2) st
      (worker_record s (wk_now en ?w2)) (we_fresh en (wk_access ?w2)) = (db', st1, r)" by (metis prod_cases3)
  let ?w2' = "?w2\<lparr>wk_db := db'\<rparr>"
  have "env_step en (wk_db ?w2) db'"
    using chat_run_create [of "\<lambda>_. False" "we_from_std en" "we_json en" "wk_db ?w2" st
      "worker_record s (wk_now en ?w2)" "we_fresh en (wk_access ?w2)"] k by simp
  then have t2: "taken (wk_db ?w2') (ct_turn_id c)"
    by (intro taken_stays [OF assms(2) access_reaches [OF assms(1)]]) simp
  obtain w3 st2 parts refused where d: "deliver_lines en c (spec_run_id s) ?w2' st1 [] (lines_of_run en ?w2 s p) = (w3, st2, parts, refused)"
    by (metis prod_cases4)
  have "taken (wk_db w3) (ct_turn_id c)"
    using taken_stays [OF t2 deliver_reaches [OF assms(1), of ?w2' c "spec_run_id s" st1 "[]" "lines_of_run en ?w2 s p"]] d by simp
  then have t4: "taken (wk_db (fst (supervise en w3 s p refused))) (ct_turn_id c)"
    by (simp add: supervise_def split: prod.split)
  obtain w4 res err where v: "supervise en w3 s p refused = (w4, res, err)" by (metis prod_cases3)
  show ?thesis
    unfolding worker_launch_def Let_def k
    using fail_settles [OF assms(1) t2] d v conclude_settles [OF assms(1), of w4 c] t4 by (simp split: sum.split)
qed

lemma answer_settles:
  assumes "others_ok en" "taken (wk_db w) (ct_turn_id c)"
  shows "settles c (worker_answer en w c p)"
proof -
  have t1: "taken (wk_db (wk_enter en w)) (ct_turn_id c)" by (rule taken_stays [OF assms(2) wk_enter_reaches [OF assms(1)]])
  show ?thesis
    unfolding worker_answer_def Let_def
    using fail_settles [OF assms] fail_settles [OF assms(1) t1] launch_settles [OF assms(1) t1]
    by (simp split: sum.split prod.split)
qed

text \<open>
  A turn a worker takes is always closed. Whatever other workers, the heartbeat and the reclaimer do to
  the store in between, and however the pins, the workspace, the session, the record, the launch, the
  process, its output or the posting fail, once a worker has claimed a turn it returns with that turn
  done or failed, so no conversation is left waiting for it, and the tables keep their invariant.
\<close>

theorem worker_closes_its_turn:
  assumes "chat_ok (wk_db w)" "others_ok en" "wc_name (we_config en) \<noteq> []"
    and "claim_turn (we_from_std en) (wk_db (wk_enter en w)) (wc_name (we_config en)) lease_duration
           (wk_now en (wk_enter en w)) (wk_now en (wk_enter en w)) = (db1, Inr (Some c))"
    and "worker_run_one en w p = (w', res)"
  shows "chat_ok (wk_db w') \<and> res \<noteq> Inr False \<and>
    (\<exists>t. turn_at (wk_db w') (ct_turn_id c) = Some t \<and> tn_state t \<in> {TurnDone, TurnFailed})"
proof -
  let ?w1 = "wk_enter en w"
  have "chat_ok (wk_db ?w1)"
    using assms(1) wk_enter_reaches [OF assms(2), of w] chat_steps_ok unfolding reaches_def by blast
  then have ok1: "chat_ok db1"
    using claim_turn_ok [of "wk_db ?w1" "we_from_std en" "wc_name (we_config en)" lease_duration] assms(4) by (metis fst_conv)
  from claim_turn_Some [OF \<open>chat_ok (wk_db ?w1)\<close> assms(4)]
  have "\<exists>t. turn_at db1 (ct_turn_id c) = Some t \<and> tn_state t = TurnClaimed" by fastforce
  with ok1 have t: "taken db1 (ct_turn_id c)" by (auto simp: taken_def)
  let ?w2 = "wk_publish (?w1\<lparr>wk_db := db1\<rparr>) (ct_conversation_id c) (TurnUpdate (ct_request_seq c) TurnClaimed)"
  have "settles c (worker_answer en ?w2 c p)" by (rule answer_settles [OF assms(2)]) (simp add: t)
  moreover have "w' = fst (worker_answer en ?w2 c p)" "res \<noteq> Inr False"
    using assms(5) unfolding worker_run_one_def Let_def assms(4)
    by (auto split: prod.split_asm sum.split_asm)
  ultimately show ?thesis by (auto simp: settles_def closed_def)
qed

section \<open>A worker to evaluate\<close>

text \<open>
  JSON values stand for their own text, and every value is an object whose text is itself. Others do
  nothing, or the reclaimer comes by once the run is recorded.
\<close>

definition text_view :: "string json_view" where
  "text_view = \<lparr>jx_get = (\<lambda>v k. if k = ''text'' then Some v else None), jx_str = Some, jx_array = (\<lambda>_. None)\<rparr>"

definition sample_worker :: worker_config where
  "sample_worker = \<lparr>wc_name = ''w1'', wc_pins = \<lparr>pins_repository = ''r'', pins_runtimes = (\<lambda>_. Some \<lparr>pin_digest = ''d'', pin_cli_version = ''v''\<rparr>)\<rparr>,
     wc_daemon_socket = ''/run/hive.sock'', wc_workspace_root = ''/ws'', wc_deadline = 600, wc_concurrency = 1, wc_poll_interval = 1\<rparr>"

definition sample_env :: "(nat \<Rightarrow> chat_db \<Rightarrow> chat_db) \<Rightarrow> string worker_env" where
  "sample_env others = \<lparr>we_config = sample_worker, we_json = text_json, we_view = text_view, we_from_std = secs,
     we_show = show_nat, we_mkdir = (\<lambda>_. True), we_lossy = id, we_probe = (\<lambda>l. Some (''assistant'', ''s1'', l)),
     we_sup = \<lparr>sc_max_line_bytes = 99, sc_max_stderr_tail_bytes = 99\<rparr>,
     we_launcher = \<lparr>lo_command = (\<lambda>h s. (h, Inr [''run''])), lo_terminate = (\<lambda>h s. (h, None))\<rparr>,
     we_others = others, we_clock = (\<lambda>n. 200 + int n), we_fresh = (\<lambda>n. 500 + n)\<rparr>"

definition sample_out :: process_outcome where
  "sample_out = \<lparr>po_spawn = None, po_arm = ProcessExited, po_status = Some (Some 0),
     po_stdout = \<lparr>rd_chunks = [''{hello}'' @ [LF]], rd_end = ReadEof\<rparr>, po_stderr = \<lparr>rd_chunks = [''note''], rd_end = ReadEof\<rparr>,
     po_turns = [(Stdout, 5), (Stderr, 6)], po_downstream_stuck = False, po_ended_at = 300, po_terminate_cut = None\<rparr>"

definition sample_state :: worker_state where
  "sample_state = \<lparr>wk_db = chat_db3, wk_audit = audit0, wk_hub = fst (hub_subscribe \<lparr>hub_subs = [], hub_next = 0\<rparr> 70 0),
     wk_inflight = {}, wk_history = [], wk_access = 0\<rparr>"

definition quiet_run :: "worker_state \<times> (worker_error + bool)" where
  "quiet_run = worker_run_one (sample_env (\<lambda>_ db. db)) sample_state sample_out"

definition reclaimed_run :: "worker_state \<times> (worker_error + bool)" where
  "reclaimed_run = worker_run_one (sample_env (\<lambda>n db. if n = 3 then fst (reclaim_lapsed_turns db 1000) else db)) sample_state sample_out"

lemma quiet_run_turns:
  "map (\<lambda>t. (tn_id t, tn_state t)) (chat_turns (wk_db (fst quiet_run))) = [(71, TurnDone), (72, TurnPending)]"
  by code_simp

text \<open>
  A run whose claim was reclaimed still posts its answer, and live subscribers are told the turn is
  done, though in the tables it stays failed.
\<close>

theorem late_answer_is_announced:
  "snd reclaimed_run = Inr True \<and>
   map (\<lambda>t. (tn_id t, tn_state t)) (chat_turns (wk_db (fst reclaimed_run))) = [(71, TurnFailed), (72, TurnPending)] \<and>
   map ms_role (chat_messages (wk_db (fst reclaimed_run))) = [''user'', ''user'', ''agent''] \<and>
   map (\<lambda>s. last (sb_queue s)) (hub_subs (wk_hub (fst reclaimed_run))) = [TurnUpdate 1 TurnDone]"
  by code_simp

text \<open>An answer is stored as trusted, as the author of the conversation, and without its run.\<close>

lemma worker_message:
  assumes "wk_post en w c conv role body = (w', Inr ())"
  shows "\<exists>m. last (chat_messages (wk_db w')) = m \<and> ms_role m = role \<and> ms_body m = body \<and> ms_author m = actor_id c \<and>
    ms_trust m = Trusted \<and> ms_run_id m = None"
proof -
  let ?w = "wk_enter en w" let ?t = "wk_now en ?w"
  have "wk_post en w c conv role body = (?w\<lparr>wk_db := db', wk_audit := au'\<rparr>, Inl e)"
    if "post_message (wk_db ?w) (wk_audit ?w) c conv role body Trusted None (we_fresh en (wk_access ?w)) ?t ?t ?t = (db', au', Inl e)"
    for db' au' e using that by (simp add: wk_post_def Let_def)
  then show ?thesis
  proof (cases rule: post_message_cases [of "wk_db ?w" "wk_audit ?w" c conv role body Trusted None "we_fresh en (wk_access ?w)" ?t ?t ?t])
    case (refused au' e)
    then show ?thesis using assms by (simp add: wk_post_def Let_def)
  next
    case (accepted db' au' t r)
    have "chat_messages db' = chat_messages (wk_db ?w) @ [posted (wk_db ?w) c conv role body Trusted None ?t]"
      using accepted(3) by (auto simp: post_rows_def insert_message_def insert_turn_def split: sum.split_asm if_split_asm)
    moreover have "wk_db w' = db'" using assms accepted(1) by (auto simp: wk_post_def Let_def)
    ultimately show ?thesis by (simp add: posted_def)
  qed
qed

theorem worker_closes_its_turn_witness:
  "\<exists>t. turn_at (wk_db (fst quiet_run)) 71 = Some t \<and> tn_state t = TurnDone"
proof -
  let ?en = "sample_env (\<lambda>_ db. db)"
  let ?c = "claim_turn (we_from_std ?en) (wk_db (wk_enter ?en sample_state)) (wc_name (we_config ?en)) lease_duration
    (wk_now ?en (wk_enter ?en sample_state)) (wk_now ?en (wk_enter ?en sample_state))"
  have "map_option ct_turn_id (projr (snd ?c)) = Some 71" "\<not> isl (snd ?c)" by code_simp+
  then obtain db1 c where c: "?c = (db1, Inr (Some c))" "ct_turn_id c = 71" by (cases ?c; cases "snd ?c") auto
  have h: "chat_ok (wk_db sample_state)" "others_ok ?en" "wc_name (we_config ?en) \<noteq> []"
    using chat_db3_ok by (simp_all add: sample_state_def others_ok_def sample_env_def sample_worker_def)
  have r: "worker_run_one ?en sample_state sample_out = (fst quiet_run, snd quiet_run)" by (simp add: quiet_run_def)
  from worker_closes_its_turn [OF h c(1) r] c(2)
  obtain t where "turn_at (wk_db (fst quiet_run)) 71 = Some t" "tn_state t \<in> {TurnDone, TurnFailed}" by auto
  with quiet_run_turns show ?thesis by (auto simp: state_in_def)
qed

definition quiet_lines :: "worker_state \<times> agent_run_store \<times> string list \<times> run_line option" where
  "quiet_lines = deliver_lines (sample_env (\<lambda>_ db. db))
     \<lparr>ct_turn_id = 71, ct_conversation_id = 70, ct_request_seq = 1, ct_owner = owner_user 1, ct_author_actor = 1,
      ct_runtime = ''claude'', ct_model = ''m'', ct_prompt = ''one''\<rparr> ''chat-71'' (sample_state\<lparr>wk_db := chat_db5\<rparr>) (run_store_for 71) []
     [(out_line 1)\<lparr>ln_json := Some ''said''\<rparr>, (out_line 2)\<lparr>ln_stream := Stderr, ln_json := Some ''noise''\<rparr>]"

theorem answer_is_the_assistants_text_witness:
  "answer_text (fst (snd (snd quiet_lines))) = ''said''"
proof -
  have "snd (snd (snd quiet_lines)) = None" by code_simp
  then have d: "quiet_lines = (fst quiet_lines, fst (snd quiet_lines), fst (snd (snd quiet_lines)), None)"
    by (metis prod.collapse)
  have "trim (concat (map (assistant_text text_json text_view)
      (filter answers [(out_line 1)\<lparr>ln_json := Some ''said''\<rparr>, (out_line 2)\<lparr>ln_stream := Stderr, ln_json := Some ''noise''\<rparr>]))) = ''said''"
    by code_simp
  moreover have "we_json (sample_env (\<lambda>_ db. db)) = text_json" "we_view (sample_env (\<lambda>_ db. db)) = text_view"
    by (simp_all add: sample_env_def)
  ultimately show ?thesis
    using answer_is_the_assistants_text [OF d [unfolded quiet_lines_def], of 1] unfolding quiet_lines_def by simp
qed

text \<open>JSON values that print to a quoted text.\<close>

definition quoted_json :: "string json_lib" where
  "quoted_json = \<lparr>js_text = (\<lambda>v. CHR 0x22 # v), js_parse = (\<lambda>s. case s of [] \<Rightarrow> None | c # v \<Rightarrow> if c = CHR 0x22 then Some v else None)\<rparr>"

definition said_line :: run_line where
  "said_line = (out_line 2)\<lparr>ln_json := Some (CHR 0x22 # ''said'')\<rparr>"

definition chat_db9 :: "chat_db \<times> agent_run_store \<times> (store_error + unit)" where
  "chat_db9 = run_append quoted_json chat_db8 (run_store_for 72) ''chat-72'' said_line"

theorem replay_shows_what_was_live_witness:
  "list_ex (\<lambda>e. rv_pos e = (2, 2) \<and> fr_text (frame_of_record quoted_json text_view e) = ''said'')
     (conv_run_events (fst chat_db9) 70)"
proof -
  have j: "js_parse quoted_json (js_text quoted_json v) = Some v \<and> js_text quoted_json v \<noteq> []" for v
    by (simp add: quoted_json_def)
  have "snd (snd chat_db9) = Inr ()" by code_simp
  then have a: "run_append quoted_json chat_db8 (run_store_for 72) ''chat-72'' said_line = (fst chat_db9, fst (snd chat_db9), Inr ())"
    unfolding chat_db9_def by (metis prod.collapse)
  have i: "snd (run_row_id chat_db8 (run_store_for 72) ''chat-72'') = Inr 82" by code_simp
  have "map (\<lambda>r. (ag_id r, ag_conversation r, ag_turn r)) (agent_runs chat_db8) = [(81, Some 70, Some 71), (82, Some 70, Some 72)]"
    by code_simp
  then obtain r where r: "r \<in> set (agent_runs chat_db8)" "ag_id r = 82" "ag_conversation r = Some 70" "ag_turn r = Some 72" by force
  have "map_option tn_request_seq (List.find (\<lambda>t. tn_id t = 72) (chat_turns chat_db8)) = Some 2" by code_simp
  then obtain t where t: "List.find (\<lambda>t. tn_id t = 72) (chat_turns chat_db8) = Some t" "tn_request_seq t = 2" by auto
  have e: "fr_text (frame_of quoted_json text_view 2 said_line) = ''said''" "ln_seq said_line = 2" by code_simp+
  from replay_shows_what_was_live [OF j a i r t(1), of text_view] show ?thesis
    using t(2) e by (fastforce simp: list_ex_iff)
qed

end
