(* ===== verification/Hive_Ip.thy ===== *)
theory Hive_Ip
  imports Hive_Prelude "HOL-Library.Word"
begin

unbundle bit_operations_syntax

text \<open>
  Network addresses as the egress proxy uses them: the standard library's reading of an address from
  text, and the classes of addresses \<open>is_private\<close> asks about (\<open>crates/hive-egress/src/allowlist.rs\<close>).
  An address is a word of 32 or of 128 bits.
\<close>

section \<open>Addresses\<close>

type_synonym ipv4 = "32 word"
type_synonym ipv6 = "128 word"
type_synonym port = "16 word"

datatype ip_addr = V4 ipv4 | V6 ipv6

definition octet :: "ipv4 \<Rightarrow> nat \<Rightarrow> nat" where
  "octet a i = unat (drop_bit (24 - 8 * i) a AND 0xFF)"

definition segment :: "ipv6 \<Rightarrow> nat \<Rightarrow> nat" where
  "segment a i = unat (drop_bit (112 - 16 * i) a AND 0xFFFF)"

section \<open>Classes\<close>

definition v4_is_loopback :: "ipv4 \<Rightarrow> bool" where "v4_is_loopback a \<longleftrightarrow> octet a 0 = 127"
definition v4_is_private :: "ipv4 \<Rightarrow> bool" where
  "v4_is_private a \<longleftrightarrow> octet a 0 = 10 \<or> octet a 0 = 172 \<and> 16 \<le> octet a 1 \<and> octet a 1 \<le> 31
     \<or> octet a 0 = 192 \<and> octet a 1 = 168"
definition v4_is_unspecified :: "ipv4 \<Rightarrow> bool" where "v4_is_unspecified a \<longleftrightarrow> a = 0"
definition v4_is_link_local :: "ipv4 \<Rightarrow> bool" where "v4_is_link_local a \<longleftrightarrow> octet a 0 = 169 \<and> octet a 1 = 254"
definition v4_is_multicast :: "ipv4 \<Rightarrow> bool" where "v4_is_multicast a \<longleftrightarrow> 224 \<le> octet a 0 \<and> octet a 0 \<le> 239"
definition v4_is_broadcast :: "ipv4 \<Rightarrow> bool" where "v4_is_broadcast a \<longleftrightarrow> a = - 1"

definition v6_is_loopback :: "ipv6 \<Rightarrow> bool" where "v6_is_loopback a \<longleftrightarrow> a = 1"
definition v6_is_unspecified :: "ipv6 \<Rightarrow> bool" where "v6_is_unspecified a \<longleftrightarrow> a = 0"
definition v6_is_multicast :: "ipv6 \<Rightarrow> bool" where "v6_is_multicast a \<longleftrightarrow> drop_bit 120 a = 0xFF"
definition v6_is_link_local :: "ipv6 \<Rightarrow> bool" where "v6_is_link_local a \<longleftrightarrow> drop_bit 118 a = 0x3FA"
definition v6_is_unique_local :: "ipv6 \<Rightarrow> bool" where "v6_is_unique_local a \<longleftrightarrow> drop_bit 121 a = 0x7E"

definition to_ipv4_mapped :: "ipv6 \<Rightarrow> ipv4 option" where
  "to_ipv4_mapped a = (if drop_bit 32 a = 0xFFFF then Some (ucast a) else None)"

definition is_cgnat :: "ipv4 \<Rightarrow> bool" where
  "is_cgnat a \<longleftrightarrow> octet a 0 = 100 \<and> 64 \<le> octet a 1 \<and> octet a 1 \<le> 127"

fun canonical :: "ip_addr \<Rightarrow> ip_addr" where
  "canonical (V6 a) = (case to_ipv4_mapped a of None \<Rightarrow> V6 a | Some b \<Rightarrow> V4 b)"
| "canonical (V4 a) = V4 a"

definition same_ip :: "ip_addr \<Rightarrow> ip_addr \<Rightarrow> bool" where
  "same_ip a b \<longleftrightarrow> canonical a = canonical b"

definition is_private :: "ip_addr \<Rightarrow> bool" where
  "is_private ip =
     (case canonical ip of
        V4 a \<Rightarrow> v4_is_loopback a \<or> v4_is_private a \<or> v4_is_unspecified a \<or> v4_is_link_local a \<or> v4_is_multicast a
                \<or> v4_is_broadcast a \<or> is_cgnat a
      | V6 a \<Rightarrow> v6_is_loopback a \<or> v6_is_unspecified a \<or> v6_is_multicast a \<or> v6_is_link_local a \<or> v6_is_unique_local a)"

section \<open>Reading an address\<close>

text \<open>
  The parser of \<open>core::net\<close>: every piece either reads a value and leaves the rest, or leaves its input
  alone. A number has a cap on its digits, and a piece of an IPv4 address no leading zero.
\<close>

definition digit_value :: "nat \<Rightarrow> char \<Rightarrow> nat option" where
  "digit_value radix c =
     (let n = of_char c :: nat;
          v = (if is_digit c then Some (n - 48) else if is_lower c then Some (n - 87) else if is_upper c then Some (n - 55) else None)
      in case v of None \<Rightarrow> None | Some d \<Rightarrow> if d < radix then Some d else None)"

fun digits_value :: "nat \<Rightarrow> nat \<Rightarrow> string \<Rightarrow> nat \<times> nat \<times> string" where
  "digits_value radix acc [] = (acc, 0, [])"
| "digits_value radix acc (c # cs) =
     (case digit_value radix c of
        None \<Rightarrow> (acc, 0, c # cs)
      | Some d \<Rightarrow> (case digits_value radix (acc * radix + d) cs of (v, n, rest) \<Rightarrow> (v, n + 1, rest)))"

definition read_number :: "nat \<Rightarrow> nat option \<Rightarrow> nat \<Rightarrow> bool \<Rightarrow> string \<Rightarrow> (nat \<times> string) option" where
  "read_number radix max_digits hi zero_prefix s =
     (case digits_value radix 0 s of
        (v, n, rest) \<Rightarrow>
          if n = 0 \<or> (case max_digits of None \<Rightarrow> False | Some m \<Rightarrow> m < n) \<or> hi < v
            \<or> \<not> zero_prefix \<and> hd s = CHR ''0'' \<and> 1 < n
          then None else Some (v, rest))"

fun read_char :: "char \<Rightarrow> string \<Rightarrow> string option" where
  "read_char c [] = None"
| "read_char c (x # xs) = (if x = c then Some xs else None)"

definition read_separator :: "char \<Rightarrow> nat \<Rightarrow> string \<Rightarrow> string option" where
  "read_separator c i s = (if i = 0 then Some s else read_char c s)"

fun read_octets :: "nat \<Rightarrow> nat \<Rightarrow> nat \<Rightarrow> string \<Rightarrow> (nat \<times> string) option" where
  "read_octets i 0 acc s = Some (acc, s)"
| "read_octets i (Suc k) acc s =
     (case Option.bind (read_separator CHR ''.'' i s) (read_number 10 (Some 3) 255 False) of
        None \<Rightarrow> None
      | Some (v, rest) \<Rightarrow> read_octets (i + 1) k (acc * 256 + v) rest)"

definition read_ipv4 :: "string \<Rightarrow> (ipv4 \<times> string) option" where
  "read_ipv4 s = map_option (\<lambda>(v, rest). (word_of_nat v, rest)) (read_octets 0 4 0 s)"

text \<open>Groups of an IPv6 address: what was read, whether it ended with an IPv4 address, and the rest.\<close>

fun read_groups :: "nat \<Rightarrow> nat \<Rightarrow> string \<Rightarrow> nat list \<times> bool \<times> string" where
  "read_groups i 0 s = ([], False, s)"
| "read_groups i (Suc k) s =
     (case (if 0 < k then Option.bind (read_separator CHR '':'' i s) read_ipv4 else None) of
        Some (v, rest) \<Rightarrow> ([unat v div 65536, unat v mod 65536], True, rest)
      | None \<Rightarrow>
          (case Option.bind (read_separator CHR '':'' i s) (read_number 16 (Some 4) 65535 True) of
             None \<Rightarrow> ([], False, s)
           | Some (g, rest) \<Rightarrow>
               (case read_groups (i + 1) k rest of (gs, v4, r) \<Rightarrow> (g # gs, v4, r))))"

definition ipv6_of :: "nat list \<Rightarrow> ipv6" where
  "ipv6_of gs = word_of_nat (foldl (\<lambda>a g. a * 65536 + g) 0 gs)"

definition read_ipv6 :: "string \<Rightarrow> (ipv6 \<times> string) option" where
  "read_ipv6 s =
     (case read_groups 0 8 s of
        (hd_groups, v4, rest) \<Rightarrow>
          if length hd_groups = 8 then Some (ipv6_of hd_groups, rest)
          else if v4 then None
          else
            (case Option.bind (read_char CHR '':'' rest) (read_char CHR '':'') of
               None \<Rightarrow> None
             | Some rest1 \<Rightarrow>
                 (case read_groups 0 (7 - length hd_groups) rest1 of
                    (tl_groups, _, rest2) \<Rightarrow>
                      Some (ipv6_of (hd_groups @ replicate (8 - length hd_groups - length tl_groups) 0 @ tl_groups), rest2))))"

definition read_ip :: "string \<Rightarrow> (ip_addr \<times> string) option" where
  "read_ip s =
     (case read_ipv4 s of
        Some (a, rest) \<Rightarrow> Some (V4 a, rest)
      | None \<Rightarrow> map_option (\<lambda>(a, rest). (V6 a, rest)) (read_ipv6 s))"

definition whole :: "('a \<times> string) option \<Rightarrow> 'a option" where
  "whole r = (case r of Some (v, []) \<Rightarrow> Some v | _ \<Rightarrow> None)"

definition parse_ip :: "string \<Rightarrow> ip_addr option" where
  "parse_ip s = whole (read_ip s)"

text \<open>An address with a port: \<open>a.b.c.d:port\<close>, or an IPv6 address in brackets, with a scope id or without.\<close>

definition read_port :: "string \<Rightarrow> (port \<times> string) option" where
  "read_port s = map_option (\<lambda>(v, rest). (word_of_nat v, rest))
     (Option.bind (read_char CHR '':'' s) (read_number 10 None 65535 True))"

definition read_scope :: "string \<Rightarrow> string" where
  "read_scope s = (case Option.bind (read_char CHR ''%'' s) (read_number 10 None (2 ^ 32 - 1) True) of
     None \<Rightarrow> s | Some (_, rest) \<Rightarrow> rest)"

definition parse_socket_addr :: "string \<Rightarrow> (ip_addr \<times> port) option" where
  "parse_socket_addr s =
     (case Option.bind (read_ipv4 s) (\<lambda>(a, rest). map_option (\<lambda>(p, r). ((V4 a, p), r)) (read_port rest)) of
        Some ((a, p), r) \<Rightarrow> if r = [] then Some (a, p) else None
      | None \<Rightarrow>
          whole (Option.bind (read_char CHR ''['' s) (\<lambda>s1. Option.bind (read_ipv6 s1) (\<lambda>(a, r).
            Option.bind (read_char CHR '']'' (read_scope r)) (\<lambda>s2. map_option (\<lambda>(p, r'). ((V6 a, p), r')) (read_port s2))))))"

section \<open>What is private\<close>

text \<open>A block of addresses: its first address and the length of its prefix.\<close>

definition in_block :: "ipv4 \<Rightarrow> nat \<times> nat \<Rightarrow> bool" where
  "in_block a b \<longleftrightarrow> fst b \<le> unat a \<and> unat a < fst b + 2 ^ (32 - snd b)"

definition v4_block :: "nat \<Rightarrow> nat \<Rightarrow> nat \<Rightarrow> nat \<Rightarrow> nat \<Rightarrow> nat \<times> nat" where
  "v4_block a b c d n = (((a * 256 + b) * 256 + c) * 256 + d, n)"

definition private_blocks :: "(nat \<times> nat) list" where
  "private_blocks = [v4_block 127 0 0 0 8, v4_block 10 0 0 0 8, v4_block 172 16 0 0 12, v4_block 192 168 0 0 16,
     v4_block 0 0 0 0 32, v4_block 169 254 0 0 16, v4_block 224 0 0 0 4, v4_block 255 255 255 255 32, v4_block 100 64 0 0 10]"

lemma unat_drop_bit: "unat (drop_bit n w) = unat w div 2 ^ n" for w :: "'a::len word"
  unfolding unsigned_drop_bit_eq by (simp add: drop_bit_eq_div take_bit_nat_eq_self unsigned_less)

lemma octet_div: "octet a i = unat a div 2 ^ (24 - 8 * i) mod 256"
proof -
  have "(0xFF :: 32 word) = mask 8" by (simp add: mask_eq_exp_minus_1)
  then have "octet a i = unat (take_bit 8 (drop_bit (24 - 8 * i) a))" by (simp only: octet_def take_bit_eq_mask)
  also have "\<dots> = take_bit 8 (unat (drop_bit (24 - 8 * i) a))" by (simp only: unsigned_take_bit_eq)
  finally show ?thesis by (simp add: unat_drop_bit take_bit_eq_mod)
qed

lemma octet_0: "octet a 0 = unat a div 2 ^ 24"
proof -
  have "unat a < 2 ^ 32" using unsigned_less [of a] by simp
  then have "unat a div 2 ^ 24 < 256" by simp
  then show ?thesis by (simp add: octet_div)
qed

lemma first_octet: "octet a 0 = n \<longleftrightarrow> n * 2 ^ 24 \<le> unat a \<and> unat a < n * 2 ^ 24 + 2 ^ 24"
  unfolding octet_0 by auto

lemma first_octets: "m \<le> octet a 0 \<and> octet a 0 \<le> n \<longleftrightarrow> m * 2 ^ 24 \<le> unat a \<and> unat a < n * 2 ^ 24 + 2 ^ 24"
  unfolding octet_0 by auto

lemma div_mod_range:
  "h < 256 \<Longrightarrow> q div 256 = n \<and> l \<le> q mod 256 \<and> q mod 256 \<le> h \<longleftrightarrow> n * 256 + l \<le> q \<and> q \<le> n * 256 + h" for q :: nat
proof -
  assume h: "h < 256"
  have q: "q = 256 * (q div 256) + q mod 256" by simp
  show ?thesis
  proof
    assume "q div 256 = n \<and> l \<le> q mod 256 \<and> q mod 256 \<le> h"
    then show "n * 256 + l \<le> q \<and> q \<le> n * 256 + h" using q by linarith
  next
    assume r: "n * 256 + l \<le> q \<and> q \<le> n * 256 + h"
    then have "q div 256 = n" using h by (intro div_nat_eqI) auto
    then show "q div 256 = n \<and> l \<le> q mod 256 \<and> q mod 256 \<le> h" using q r by linarith
  qed
qed

lemma two_octets:
  assumes "h < 256"
  shows "octet a 0 = n \<and> l \<le> octet a 1 \<and> octet a 1 \<le> h \<longleftrightarrow>
    n * 2 ^ 24 + l * 2 ^ 16 \<le> unat a \<and> unat a < n * 2 ^ 24 + h * 2 ^ 16 + 2 ^ 16"
proof -
  let ?q = "unat a div 2 ^ 16"
  have d: "octet a 0 = ?q div 256" "octet a 1 = ?q mod 256" by (simp_all only: octet_0) (simp_all add: octet_div div_mult2_eq [symmetric])
  have "octet a 0 = n \<and> l \<le> octet a 1 \<and> octet a 1 \<le> h \<longleftrightarrow> n * 256 + l \<le> ?q \<and> ?q \<le> n * 256 + h"
    unfolding d by (rule div_mod_range [OF assms])
  then show ?thesis by auto
qed

lemma is_private_V4: "is_private (V4 a) \<longleftrightarrow> list_ex (in_block a) private_blocks"
proof -
  have m: "v4_is_broadcast a \<longleftrightarrow> unat a = 2 ^ 32 - 1" "v4_is_unspecified a \<longleftrightarrow> unat a = 0"
    by (simp_all add: v4_is_broadcast_def v4_is_unspecified_def word_unat_eq_iff unsigned_minus_1_eq_mask mask_eq_exp_minus_1)
  have b: "unat a < 2 ^ 32" using unsigned_less [of a] by simp
  have "v4_is_private a \<longleftrightarrow> in_block a (v4_block 10 0 0 0 8) \<or> in_block a (v4_block 172 16 0 0 12) \<or> in_block a (v4_block 192 168 0 0 16)"
    using first_octet [of a 10] two_octets [of 31 a 172 16] two_octets [of 168 a 192 168]
    by (auto simp: v4_is_private_def in_block_def v4_block_def)
  moreover have "v4_is_loopback a \<longleftrightarrow> in_block a (v4_block 127 0 0 0 8)"
    using first_octet [of a 127] by (auto simp: v4_is_loopback_def in_block_def v4_block_def)
  moreover have "v4_is_link_local a \<longleftrightarrow> in_block a (v4_block 169 254 0 0 16)"
    using two_octets [of 254 a 169 254] by (auto simp: v4_is_link_local_def in_block_def v4_block_def)
  moreover have "v4_is_multicast a \<longleftrightarrow> in_block a (v4_block 224 0 0 0 4)"
    using first_octets [of 224 a 239] by (auto simp: v4_is_multicast_def in_block_def v4_block_def)
  moreover have "is_cgnat a \<longleftrightarrow> in_block a (v4_block 100 64 0 0 10)"
    using two_octets [of 127 a 100 64] by (auto simp: is_cgnat_def in_block_def v4_block_def)
  moreover have "v4_is_broadcast a \<longleftrightarrow> in_block a (v4_block 255 255 255 255 32)" "v4_is_unspecified a \<longleftrightarrow> in_block a (v4_block 0 0 0 0 32)"
    using b by (auto simp: m in_block_def v4_block_def)
  ultimately show ?thesis by (auto simp: is_private_def private_blocks_def)
qed

lemma mapped_V6: "to_ipv4_mapped (0xFFFF00000000 + ucast a) = Some a" for a :: ipv4
proof -
  let ?w = "0xFFFF00000000 + ucast a :: 128 word"
  have lt: "unat a < 2 ^ 32" using unsigned_less [of a] by simp
  have u: "unat ?w = 0xFFFF00000000 + unat a"
    using lt by (simp add: unat_word_ariths unsigned_ucast_eq take_bit_nat_eq_self)
  have "unat (drop_bit 32 ?w) = 0xFFFF" unfolding unat_drop_bit u using lt by simp
  then have "drop_bit 32 ?w = 0xFFFF" by (simp add: word_unat_eq_iff)
  moreover have "ucast ?w = a"
  proof -
    have "(0xFFFF * 4294967296 + unat a) mod 4294967296 = unat a" using lt by (simp only: mod_mult_self3) simp
    then show ?thesis by (simp add: word_unat_eq_iff unsigned_ucast_eq u take_bit_eq_mod)
  qed
  ultimately show ?thesis by (simp add: to_ipv4_mapped_def)
qed

text \<open>
  What counts as not public. An IPv4 address is private exactly when it lies in one of the nine blocks
  for loopback, private use, link local, shared address space, multicast, broadcast and unspecified; an
  IPv6 address that carries an IPv4 address is judged as that one, and any other exactly when it is
  loopback or unspecified or in the blocks for unique local, link local and multicast.
\<close>

theorem private_addresses_are_these_blocks:
  "(is_private (V4 a) \<longleftrightarrow> list_ex (in_block a) private_blocks) \<and>
   is_private (V6 (0xFFFF00000000 + ucast a)) = is_private (V4 a) \<and>
   (drop_bit 32 b \<noteq> 0xFFFF \<longrightarrow> is_private (V6 b) =
      (unat b \<le> 1 \<or> 0xFC * 2 ^ 120 \<le> unat b \<and> unat b < 0xFE * 2 ^ 120 \<or>
       0xFE80 * 2 ^ 112 \<le> unat b \<and> unat b < 0xFEC0 * 2 ^ 112 \<or> 0xFF * 2 ^ 120 \<le> unat b))"
proof (intro conjI impI)
  show "is_private (V4 a) \<longleftrightarrow> list_ex (in_block a) private_blocks" by (rule is_private_V4)
  show "is_private (V6 (0xFFFF00000000 + ucast a)) = is_private (V4 a)"
    by (simp add: is_private_def mapped_V6)
  assume "drop_bit 32 b \<noteq> 0xFFFF"
  then have c: "canonical (V6 b) = V6 b" by (simp add: to_ipv4_mapped_def)
  have d: "drop_bit n b = k \<longleftrightarrow> unat b div 2 ^ n = unat k" for n k by (simp only: word_unat_eq_iff unat_drop_bit)
  have lt: "unat b < 2 ^ 128" using unsigned_less [of b] by simp
  have l: "v6_is_loopback b \<or> v6_is_unspecified b \<longleftrightarrow> unat b \<le> 1"
    by (auto simp: v6_is_loopback_def v6_is_unspecified_def word_unat_eq_iff)
  have u: "v6_is_unique_local b \<longleftrightarrow> 0xFC * 2 ^ 120 \<le> unat b \<and> unat b < 0xFE * 2 ^ 120"
    unfolding v6_is_unique_local_def d by auto
  have k: "v6_is_link_local b \<longleftrightarrow> 0xFE80 * 2 ^ 112 \<le> unat b \<and> unat b < 0xFEC0 * 2 ^ 112"
    unfolding v6_is_link_local_def d by auto
  have m: "v6_is_multicast b \<longleftrightarrow> 0xFF * 2 ^ 120 \<le> unat b"
    unfolding v6_is_multicast_def d using lt by auto
  show "is_private (V6 b) =
      (unat b \<le> 1 \<or> 0xFC * 2 ^ 120 \<le> unat b \<and> unat b < 0xFE * 2 ^ 120 \<or>
       0xFE80 * 2 ^ 112 \<le> unat b \<and> unat b < 0xFEC0 * 2 ^ 112 \<or> 0xFF * 2 ^ 120 \<le> unat b)"
    unfolding is_private_def c using l u k m by auto
qed

theorem private_addresses_are_these_blocks_witness:
  "is_private (V4 0xA9FEA9FE) \<and> is_private (V6 (0xFFFF00000000 + ucast (0xA9FEA9FE :: ipv4))) \<and> is_private (V6 0xFD000000000000000000000000000001)"
proof -
  have d: "drop_bit 32 (0xFD000000000000000000000000000001 :: ipv6) \<noteq> 0xFFFF" by code_simp
  have u: "unat (0xFD000000000000000000000000000001 :: ipv6) = 0xFD000000000000000000000000000001" by simp
  have b: "list_ex (in_block 0xA9FEA9FE) private_blocks" by code_simp
  from private_addresses_are_these_blocks [of "0xA9FEA9FE" "0xFD000000000000000000000000000001"] d b
  show ?thesis unfolding u by simp
qed

end
