(* ===== verification/Hive_Egress.thy ===== *)
theory Hive_Egress
  imports Hive_Ip
begin

text \<open>
  The egress proxy (\<open>crates/hive-egress\<close>): the allowlist of a run, and what the proxy does with a request.
  A request is what the HTTP library parsed of it; the resolver and the connection attempt are
  parameters, and the proxy's answer comes with every address it tried to reach. Strings are bytes;
  host names are ASCII.
\<close>

section \<open>The allowlist\<close>

definition default_ports :: "port list" where "default_ports = [80, 443]"
definition private_prefix :: string where "private_prefix = ''private:''"

record rule =
  ru_host :: string
  ru_ports :: "port list"
  ru_wildcard :: bool
  ru_allow_private :: bool
  ru_ip :: "ip_addr option"

definition permits_port :: "rule \<Rightarrow> port \<Rightarrow> bool" where
  "permits_port r p = (if ru_ports r = [] then p \<in> set default_ports else p \<in> set (ru_ports r))"

definition matches_host :: "rule \<Rightarrow> string \<Rightarrow> bool" where
  "matches_host r host =
     (if ru_wildcard r then ends_with (ru_host r) host
      else (case ru_ip r of
              Some ip \<Rightarrow> (case parse_ip host of None \<Rightarrow> False | Some c \<Rightarrow> same_ip ip c)
            | None \<Rightarrow> host = ru_host r))"

definition join_host_port :: "string \<Rightarrow> port \<Rightarrow> string" where
  "join_host_port host p =
     (if CHR '':'' \<in> set host then ''['' @ host @ '']:'' @ show_nat (unat p) else host @ '':'' @ show_nat (unat p))"

definition rule_display :: "rule \<Rightarrow> string" where
  "rule_display r =
     (let host = (if ru_wildcard r then ''*'' @ ru_host r else ru_host r)
      in if ru_ports r = [] then host else join_with CHR '','' (map (join_host_port host) (ru_ports r)))"

text \<open>The reasons an entry is refused for, one constructor per message of the source.\<close>

datatype entry_error =
    PortNotANumber string
  | PortOutOfRange nat
  | MalformedBracketed
  | NoHostAfterPrefix
  | NoHost
  | AllowsEveryHost
  | MalformedWildcard
  | WildcardNotLeading

definition parse_port :: "string \<Rightarrow> entry_error + port" where
  "parse_port p =
     (case parse_unsigned (2 ^ 32 - 1) p of
        None \<Rightarrow> Inl (PortNotANumber p)
      | Some n \<Rightarrow> if 1 \<le> n \<and> n \<le> 65535 then Inr (word_of_nat n) else Inl (PortOutOfRange n))"

definition count_char :: "char \<Rightarrow> string \<Rightarrow> nat" where
  "count_char c s = length (filter (\<lambda>x. x = c) s)"

definition entry_split_host_port :: "string \<Rightarrow> entry_error + (string \<times> port option)" where
  "entry_split_host_port entry =
     (case strip_prefix ''['' entry of
        Some rest \<Rightarrow>
          (case split_once CHR '']'' rest of
             None \<Rightarrow> Inl MalformedBracketed
           | Some (host, after) \<Rightarrow>
               if after = [] then Inr (host, None)
               else (case strip_prefix '':'' after of
                       None \<Rightarrow> Inl MalformedBracketed
                     | Some p \<Rightarrow> (case parse_port p of Inl e \<Rightarrow> Inl e | Inr n \<Rightarrow> Inr (host, Some n))))
      | None \<Rightarrow>
          if count_char CHR '':'' entry = 1
          then (case rsplit_once CHR '':'' entry of
                  Some (host, p) \<Rightarrow> (case parse_port p of Inl e \<Rightarrow> Inl e | Inr n \<Rightarrow> Inr (host, Some n))
                | None \<Rightarrow> Inr (entry, None))
          else Inr (entry, None))"

definition trim_end_char :: "char \<Rightarrow> string \<Rightarrow> string" where
  "trim_end_char c s = rev (dropWhile (\<lambda>x. x = c) (rev s))"

definition rule_of :: "string \<Rightarrow> port list \<Rightarrow> bool \<Rightarrow> entry_error + rule" where
  "rule_of host ports allow_private =
     (if host = ''*'' then Inl AllowsEveryHost
      else (case strip_prefix ''*.'' host of
              Some suffix \<Rightarrow>
                if suffix = [] \<or> CHR ''*'' \<in> set suffix then Inl MalformedWildcard
                else Inr \<lparr>ru_host = CHR ''.'' # suffix, ru_ports = ports, ru_wildcard = True,
                          ru_allow_private = allow_private, ru_ip = None\<rparr>
            | None \<Rightarrow>
                if CHR ''*'' \<in> set host then Inl WildcardNotLeading
                else Inr \<lparr>ru_host = host, ru_ports = ports, ru_wildcard = False,
                          ru_allow_private = (allow_private \<or> (case parse_ip host of None \<Rightarrow> False | Some ip \<Rightarrow> is_private ip)),
                          ru_ip = parse_ip host\<rparr>))"

definition parse_rule :: "string \<Rightarrow> entry_error + rule" where
  "parse_rule entry0 =
     (let (allow_private, entry) =
        (case strip_prefix private_prefix entry0 of None \<Rightarrow> (False, entry0) | Some rest \<Rightarrow> (True, trim rest))
      in if allow_private \<and> entry = [] then Inl NoHostAfterPrefix
         else (case entry_split_host_port entry of
                 Inl e \<Rightarrow> Inl e
               | Inr (h, p) \<Rightarrow>
                   (let host = to_ascii_lowercase (trim_end_char CHR ''.'' h)
                    in if host = [] then Inl NoHost
                       else rule_of host (case p of None \<Rightarrow> [] | Some n \<Rightarrow> [n]) allow_private)))"

record allowlist =
  al_rules :: "rule list"
  al_private_destinations :: bool

definition allowlist_default :: allowlist where
  "allowlist_default = \<lparr>al_rules = [], al_private_destinations = False\<rparr>"

fun parse_entries :: "string list \<Rightarrow> (string \<times> entry_error) + rule list" where
  "parse_entries [] = Inr []"
| "parse_entries (raw # raws) =
     (if trim raw = [] then parse_entries raws
      else (case parse_rule (trim raw) of
              Inl reason \<Rightarrow> Inl (raw, reason)
            | Inr r \<Rightarrow> (case parse_entries raws of Inl e \<Rightarrow> Inl e | Inr rs \<Rightarrow> Inr (r # rs))))"

definition parse_allowlist :: "string list \<Rightarrow> (string \<times> entry_error) + allowlist" where
  "parse_allowlist entries =
     (case parse_entries entries of Inl e \<Rightarrow> Inl e | Inr rs \<Rightarrow> Inr (allowlist_default\<lparr>al_rules := rs\<rparr>))"

definition trim_start_char :: "char \<Rightarrow> string \<Rightarrow> string" where
  "trim_start_char c s = dropWhile (\<lambda>x. x = c) s"

definition match_rule :: "allowlist \<Rightarrow> string \<Rightarrow> port \<Rightarrow> rule option" where
  "match_rule al host p =
     (let h = trim_end_char CHR '']'' (trim_start_char CHR ''['' (to_ascii_lowercase (trim_end_char CHR ''.'' host)))
      in List.find (\<lambda>r. permits_port r p \<and> matches_host r h) (al_rules al))"

definition permits :: "allowlist \<Rightarrow> string \<Rightarrow> port \<Rightarrow> bool" where
  "permits al host p \<longleftrightarrow> match_rule al host p \<noteq> None"

definition permits_addr :: "allowlist \<Rightarrow> rule \<Rightarrow> ip_addr \<Rightarrow> bool" where
  "permits_addr al r ip \<longleftrightarrow> \<not> is_private ip \<or> al_private_destinations al \<or> ru_allow_private r"

section \<open>DNS servers\<close>

definition normalize_dns_server :: "string \<Rightarrow> string option" where
  "normalize_dns_server raw =
     (let s = trim raw
      in if s = [] then None
         else if parse_socket_addr s \<noteq> None then Some s
         else (let host = trim_end_char CHR '']'' (trim_start_char CHR ''['' s)
               in if CHR '':'' \<in> set host then Some (''['' @ host @ '']:53'') else Some (host @ '':53'')))"

definition normalize_dns_servers :: "string list \<Rightarrow> string list" where
  "normalize_dns_servers servers = List.map_filter normalize_dns_server servers"

text \<open>The servers the resolver is given: their addresses, all of them with the last one's port.\<close>

fun dns_addresses :: "port \<Rightarrow> string list \<Rightarrow> string + (ip_addr list \<times> port)" where
  "dns_addresses p [] = Inr ([], p)"
| "dns_addresses p (s # ss) =
     (case parse_socket_addr s of
        None \<Rightarrow> Inl s
      | Some (ip, q) \<Rightarrow> (case dns_addresses q ss of Inl e \<Rightarrow> Inl e | Inr (ips, r) \<Rightarrow> Inr (ip # ips, r)))"

datatype dns_error = BadDnsServer string | NoDnsServers

definition dns_resolver_new :: "string list \<Rightarrow> dns_error + (ip_addr \<times> port) list" where
  "dns_resolver_new servers =
     (case dns_addresses 53 (normalize_dns_servers servers) of
        Inl s \<Rightarrow> Inl (BadDnsServer s)
      | Inr (ips, p) \<Rightarrow> if ips = [] then Inl NoDnsServers else Inr (map (\<lambda>ip. (ip, p)) ips))"

section \<open>The proxy\<close>

record proxy_request =
  pq_connect :: bool
  pq_authority :: "string option"
  pq_host_header :: "string option"
  pq_scheme :: "string option"
  pq_path :: "string option"
  pq_headers :: "(string \<times> string) list"

text \<open>A lookup or a connection: its result, an error, or a timeout.\<close>

datatype 'a attempt = Got 'a | Failed string | TimedOut

text \<open>
  What the proxy did on the network: a name it asked for, with the answer, or an address it dialled. The
  network answers by what has happened so far, so that two lookups of one name may differ.
\<close>

datatype net_event = Looked string "ip_addr list attempt" | Dialled ip_addr port

record network =
  nw_lookup :: "net_event list \<Rightarrow> string \<Rightarrow> ip_addr list attempt"
  nw_connect :: "net_event list \<Rightarrow> ip_addr \<Rightarrow> port \<Rightarrow> unit attempt"
  nw_exchange :: "net_event list \<Rightarrow> ip_addr \<Rightarrow> port \<Rightarrow> string \<Rightarrow> (string \<times> string) list \<Rightarrow> nat attempt"

datatype proxy_response = Forbidden string | BadGateway | Tunnel ip_addr port | Forwarded nat

datatype dial_error = DialDenied ip_addr | DialUpstream

text \<open>An address as text: an IPv6 address with its first longest run of two or more zeros left out.\<close>

definition v4_display :: "ipv4 \<Rightarrow> string" where
  "v4_display a = join_with CHR ''.'' (map (\<lambda>i. show_nat (octet a i)) [0, 1, 2, 3])"

fun hex_digits :: "nat \<Rightarrow> string" where
  "hex_digits n = (if n < 16 then [''0123456789abcdef'' ! n] else hex_digits (n div 16) @ [''0123456789abcdef'' ! (n mod 16)])"

declare hex_digits.simps [simp del]

definition zeros_from :: "nat list \<Rightarrow> nat \<Rightarrow> nat" where
  "zeros_from gs i = length (takeWhile (\<lambda>g. g = 0) (drop i gs))"

definition longest_zeros :: "nat list \<Rightarrow> nat \<times> nat" where
  "longest_zeros gs = foldl (\<lambda>b i. if snd b < zeros_from gs i then (i, zeros_from gs i) else b) (0, 0) [0 ..< length gs]"

definition groups_display :: "nat list \<Rightarrow> string" where
  "groups_display gs = join_with CHR '':'' (map hex_digits gs)"

definition v6_display :: "ipv6 \<Rightarrow> string" where
  "v6_display a =
     (case to_ipv4_mapped a of
        Some b \<Rightarrow> ''::ffff:'' @ v4_display b
      | None \<Rightarrow>
          (let gs = map (segment a) [0 ..< 8]; z = longest_zeros gs
           in if 1 < snd z then groups_display (take (fst z) gs) @ ''::'' @ groups_display (drop (fst z + snd z) gs)
              else groups_display gs))"

fun ip_display :: "ip_addr \<Rightarrow> string" where
  "ip_display (V4 a) = v4_display a"
| "ip_display (V6 a) = v6_display a"

definition max_reason_bytes :: nat where "max_reason_bytes = 200"

definition sanitize_reason :: "string \<Rightarrow> string" where
  "sanitize_reason s = take max_reason_bytes
     (map (\<lambda>c. if 32 \<le> (of_char c :: nat) \<and> (of_char c :: nat) \<le> 126 then c else CHR ''?'') s)"

definition proxy_deny :: "string \<Rightarrow> proxy_response" where
  "proxy_deny reason = Forbidden (sanitize_reason reason)"

definition parse_u16 :: "string \<Rightarrow> port option" where
  "parse_u16 s = map_option word_of_nat (parse_unsigned 65535 s)"

definition target_split_host_port :: "string \<Rightarrow> port \<Rightarrow> (string \<times> port) option" where
  "target_split_host_port target0 default_port =
     (let target = trim target0
      in if target = [] then None
         else (case strip_prefix ''['' target of
                 Some rest \<Rightarrow>
                   (case split_once CHR '']'' rest of
                      None \<Rightarrow> None
                    | Some (host, after) \<Rightarrow>
                        (case (case strip_prefix '':'' after of None \<Rightarrow> Some default_port | Some p \<Rightarrow> parse_u16 p) of
                           None \<Rightarrow> None
                         | Some port \<Rightarrow> if port = 0 then None else Some (to_ascii_lowercase host, port)))
               | None \<Rightarrow>
                   if count_char CHR '':'' target = 1
                   then (case rsplit_once CHR '':'' target of
                           None \<Rightarrow> Some (to_ascii_lowercase target, default_port)
                         | Some (host, p) \<Rightarrow>
                             (case parse_u16 p of
                                None \<Rightarrow> None
                              | Some port \<Rightarrow> if port = 0 \<or> host = [] then None else Some (to_ascii_lowercase host, port)))
                   else Some (to_ascii_lowercase target, default_port)))"

text \<open>Trying the candidates in order.\<close>

fun dial_each ::
  "allowlist \<Rightarrow> network \<Rightarrow> rule \<Rightarrow> port \<Rightarrow> dial_error \<Rightarrow> net_event list \<Rightarrow> ip_addr list
   \<Rightarrow> net_event list \<times> (dial_error + ip_addr)" where
  "dial_each al nw r p err h [] = (h, Inl err)"
| "dial_each al nw r p err h (ip # ips) =
     (if \<not> permits_addr al r ip then dial_each al nw r p (DialDenied ip) h ips
      else (case nw_connect nw h ip p of
              Got _ \<Rightarrow> (h @ [Dialled ip p], Inr ip)
            | _ \<Rightarrow> dial_each al nw r p DialUpstream (h @ [Dialled ip p]) ips))"

definition candidates :: "network \<Rightarrow> net_event list \<Rightarrow> string \<Rightarrow> net_event list \<times> ip_addr list option" where
  "candidates nw h host =
     (case parse_ip host of
        Some ip \<Rightarrow> (h, Some [ip])
      | None \<Rightarrow>
          (let answer = nw_lookup nw h host
           in (h @ [Looked host answer], case answer of Got ips \<Rightarrow> Some ips | _ \<Rightarrow> None)))"

definition dial ::
  "allowlist \<Rightarrow> network \<Rightarrow> rule \<Rightarrow> net_event list \<Rightarrow> string \<Rightarrow> port \<Rightarrow> net_event list \<times> (dial_error + ip_addr)" where
  "dial al nw r h host p =
     (case candidates nw h host of
        (h', None) \<Rightarrow> (h', Inl DialUpstream)
      | (h', Some ips) \<Rightarrow> dial_each al nw r p DialUpstream h' ips)"

definition proxy_reject :: "dial_error \<Rightarrow> proxy_response" where
  "proxy_reject e = (case e of DialDenied ip \<Rightarrow> proxy_deny (''destination '' @ ip_display ip @ '' is not a public address'') | DialUpstream \<Rightarrow> BadGateway)"

definition handle_connect :: "allowlist \<Rightarrow> network \<Rightarrow> net_event list \<Rightarrow> proxy_request \<Rightarrow> net_event list \<times> proxy_response" where
  "handle_connect al nw h q =
     (let target = (case pq_authority q of Some a \<Rightarrow> a | None \<Rightarrow> (case pq_host_header q of Some x \<Rightarrow> x | None \<Rightarrow> []))
      in case target_split_host_port target 443 of
           None \<Rightarrow> (h, proxy_deny ''malformed CONNECT target'')
         | Some (host, p) \<Rightarrow>
             (case match_rule al host p of
                None \<Rightarrow> (h, proxy_deny ''host not on the run's allowlist'')
              | Some r \<Rightarrow>
                  (case dial al nw r h host p of
                     (h', Inl e) \<Rightarrow> (h', proxy_reject e)
                   | (h', Inr ip) \<Rightarrow> (h', Tunnel ip p))))"

definition hop_by_hop :: "string list" where
  "hop_by_hop = [''proxy-connection'', ''proxy-authorization'', ''connection'', ''keep-alive'', ''transfer-encoding'',
     ''te'', ''trailer'', ''upgrade'']"

text \<open>Header names are lower case, as the HTTP library keeps them.\<close>

definition outbound_headers :: "string \<Rightarrow> (string \<times> string) list \<Rightarrow> (string \<times> string) list" where
  "outbound_headers authority hs =
     (let kept = filter (\<lambda>(n, _). n \<notin> set hop_by_hop) hs
      in if ''host'' \<in> fst ` set kept then kept else kept @ [(''host'', authority)])"

definition handle_forward :: "allowlist \<Rightarrow> network \<Rightarrow> net_event list \<Rightarrow> proxy_request \<Rightarrow> net_event list \<times> proxy_response" where
  "handle_forward al nw h q =
     (case pq_scheme q of
        None \<Rightarrow> (h, proxy_deny ''not a proxy request: expected an absolute URI'')
      | Some scheme \<Rightarrow>
          if scheme \<noteq> ''http'' then (h, proxy_deny (''scheme '' @ scheme @ '' must use CONNECT''))
          else
            (let authority = (case pq_authority q of Some a \<Rightarrow> a | None \<Rightarrow> [])
             in case target_split_host_port authority 80 of
                  None \<Rightarrow> (h, proxy_deny ''malformed target'')
                | Some (host, p) \<Rightarrow>
                    (case match_rule al host p of
                       None \<Rightarrow> (h, proxy_deny ''host not on the run's allowlist'')
                     | Some r \<Rightarrow>
                         (case dial al nw r h host p of
                            (h', Inl e) \<Rightarrow> (h', proxy_reject e)
                          | (h', Inr ip) \<Rightarrow>
                              (h',
                               case nw_exchange nw h' ip p (case pq_path q of Some x \<Rightarrow> x | None \<Rightarrow> ''/'')
                                      (outbound_headers authority (pq_headers q)) of
                                 Got status \<Rightarrow> Forwarded status
                               | _ \<Rightarrow> BadGateway)))))"

definition handle :: "allowlist \<Rightarrow> network \<Rightarrow> net_event list \<Rightarrow> proxy_request \<Rightarrow> net_event list \<times> proxy_response" where
  "handle al nw h q = (if pq_connect q then handle_connect al nw h q else handle_forward al nw h q)"

text \<open>The tunnel's watchdog: it closes an open tunnel at a tick after which nothing was carried.\<close>

datatype tunnel_event = Carried | UpDone | DownDone | WatchdogTick
datatype tunnel_end = TunnelFinished | TunnelIdle | TunnelOpen

fun tunnel :: "bool \<Rightarrow> bool \<Rightarrow> bool \<Rightarrow> tunnel_event list \<Rightarrow> tunnel_end" where
  "tunnel up down active [] = (if up \<or> down then TunnelOpen else TunnelFinished)"
| "tunnel up down active (e # es) =
     (if \<not> up \<and> \<not> down then TunnelFinished
      else (case e of
              Carried \<Rightarrow> tunnel up down True es
            | UpDone \<Rightarrow> tunnel False down active es
            | DownDone \<Rightarrow> tunnel up False active es
            | WatchdogTick \<Rightarrow> if active then tunnel up down False es else TunnelIdle))"

section \<open>Where a request can go\<close>

text \<open>
  What dialling the candidates adds: addresses of the list, each permitted; and on success one of them.
\<close>

lemma dial_each_spec:
  assumes "dial_each al nw r p err h ips = (h', res)"
  shows "\<exists>tried. h' = h @ map (\<lambda>ip. Dialled ip p) tried \<and> (\<forall>ip \<in> set tried. ip \<in> set ips \<and> permits_addr al r ip) \<and>
    (\<forall>ip. res = Inr ip \<longrightarrow> ip \<in> set tried)"
  using assms
proof (induction al nw r p err h ips rule: dial_each.induct)
  case (2 al nw r p err h ip ips)
  show ?case
  proof (cases "permits_addr al r ip")
    case False
    with 2 show ?thesis by fastforce
  next
    case True
    show ?thesis
    proof (cases "\<exists>u. nw_connect nw h ip p = Got u")
      case T: True
      with True "2.prems" show ?thesis by (intro exI [of _ "[ip]"]) auto
    next
      case F: False
      with True "2.prems" have "dial_each al nw r p DialUpstream (h @ [Dialled ip p]) ips = (h', res)"
        by (simp split: attempt.split_asm)
      moreover from F have "\<exists>e. nw_connect nw h ip p = Failed e \<or> nw_connect nw h ip p = TimedOut"
        by (cases "nw_connect nw h ip p") auto
      ultimately obtain tried where "h' = (h @ [Dialled ip p]) @ map (\<lambda>ip. Dialled ip p) tried"
        "\<forall>ip \<in> set tried. ip \<in> set ips \<and> permits_addr al r ip" "\<forall>ip. res = Inr ip \<longrightarrow> ip \<in> set tried"
        using "2.IH"(2,3) True by blast
      with True show ?thesis by (intro exI [of _ "ip # tried"]) auto
    qed
  qed
qed auto

text \<open>The addresses of one resolution: the literal itself, or what a lookup on record gave.\<close>

definition resolved :: "net_event list \<Rightarrow> string \<Rightarrow> ip_addr \<Rightarrow> bool" where
  "resolved es host ip \<longleftrightarrow>
     (case parse_ip host of Some x \<Rightarrow> ip = x | None \<Rightarrow> (\<exists>ips. Looked host (Got ips) \<in> set es \<and> ip \<in> set ips))"

text \<open>What one dial adds: at most one lookup, of the host, and then permitted addresses it gave.\<close>

definition one_dial :: "allowlist \<Rightarrow> rule \<Rightarrow> string \<Rightarrow> port \<Rightarrow> net_event list \<Rightarrow> bool" where
  "one_dial al r host p new \<longleftrightarrow>
     (\<exists>looked tried. new = looked @ map (\<lambda>ip. Dialled ip p) tried \<and> length looked \<le> 1 \<and>
        (\<forall>e \<in> set looked. \<exists>a. e = Looked host a) \<and> (\<forall>ip \<in> set tried. permits_addr al r ip \<and> resolved new host ip))"

lemma dial_spec:
  assumes "dial al nw r h host p = (h', res)"
  shows "\<exists>new. h' = h @ new \<and> one_dial al r host p new \<and> (\<forall>ip. res = Inr ip \<longrightarrow> Dialled ip p \<in> set new)"
proof (cases "parse_ip host")
  case (Some x)
  with assms have "dial_each al nw r p DialUpstream h [x] = (h', res)" by (simp add: dial_def candidates_def)
  from dial_each_spec [OF this] obtain tried where t: "h' = h @ map (\<lambda>ip. Dialled ip p) tried"
    "\<forall>ip \<in> set tried. ip = x \<and> permits_addr al r ip" "\<forall>ip. res = Inr ip \<longrightarrow> ip \<in> set tried" by auto
  have "one_dial al r host p (map (\<lambda>ip. Dialled ip p) tried)"
    unfolding one_dial_def by (rule exI [of _ "[]"], rule exI [of _ tried]) (use t(2) Some in \<open>auto simp: resolved_def\<close>)
  with t show ?thesis by (intro exI [of _ "map (\<lambda>ip. Dialled ip p) tried"]) auto
next
  case None
  let ?a = "nw_lookup nw h host" and ?h = "h @ [Looked host (nw_lookup nw h host)]"
  show ?thesis
  proof (cases "\<exists>ips. ?a = Got ips")
    case True
    then obtain ips where g: "?a = Got ips" by blast
    with None assms have "dial_each al nw r p DialUpstream ?h ips = (h', res)"
      by (simp add: dial_def candidates_def Let_def)
    from dial_each_spec [OF this] obtain tried where t: "h' = ?h @ map (\<lambda>ip. Dialled ip p) tried"
      "\<forall>ip \<in> set tried. ip \<in> set ips \<and> permits_addr al r ip" "\<forall>ip. res = Inr ip \<longrightarrow> ip \<in> set tried" by auto
    let ?new = "[Looked host ?a] @ map (\<lambda>ip. Dialled ip p) tried"
    have "one_dial al r host p ?new"
      unfolding one_dial_def by (rule exI [of _ "[Looked host ?a]"], rule exI [of _ tried])
        (use t(2) None g in \<open>auto simp: resolved_def\<close>)
    with t show ?thesis by (intro exI [of _ ?new]) auto
  next
    case False
    with None assms have "h' = ?h" "res = Inl DialUpstream"
      by (auto simp: dial_def candidates_def Let_def split: attempt.split_asm)
    moreover have "one_dial al r host p [Looked host ?a]"
      unfolding one_dial_def by (rule exI [of _ "[Looked host ?a]"], rule exI [of _ "[]"]) simp
    ultimately show ?thesis by (intro exI [of _ "[Looked host ?a]"]) simp
  qed
qed

definition plain_host :: "string \<Rightarrow> string" where
  "plain_host host = trim_end_char CHR '']'' (trim_start_char CHR ''['' (to_ascii_lowercase (trim_end_char CHR ''.'' host)))"

lemma match_ruleD:
  assumes "match_rule al host p = Some r"
  shows "r \<in> set (al_rules al) \<and> permits_port r p \<and> matches_host r (plain_host host)"
  using find_SomeD [of _ "al_rules al" r] assms unfolding match_rule_def Let_def plain_host_def [symmetric] by fastforce

text \<open>The host and the port a request names.\<close>

definition target_of :: "proxy_request \<Rightarrow> (string \<times> port) option" where
  "target_of q =
     (if pq_connect q
      then target_split_host_port (case pq_authority q of Some a \<Rightarrow> a | None \<Rightarrow> (case pq_host_header q of Some h \<Rightarrow> h | None \<Rightarrow> [])) 443
      else target_split_host_port (case pq_authority q of Some a \<Rightarrow> a | None \<Rightarrow> []) 80)"

definition reached :: "proxy_response \<Rightarrow> bool" where
  "reached a \<longleftrightarrow> (case a of Tunnel _ _ \<Rightarrow> True | Forwarded _ \<Rightarrow> True | _ \<Rightarrow> False)"

text \<open>One request: refused without a packet, or one dial under the rule that matched its target.\<close>

lemma handle_cases:
  obtains (refused) why where "handle al nw h q = (h, proxy_deny why)"
  | (dialled) host p r h' res answer where "target_of q = Some (host, p)" "match_rule al host p = Some r"
      "dial al nw r h host p = (h', res)" "handle al nw h q = (h', answer)"
      "isl res \<Longrightarrow> \<not> reached answer" "\<And>ip' p'. answer = Tunnel ip' p' \<Longrightarrow> res = Inr ip' \<and> p' = p"
proof (cases "target_of q")
  case None
  then have "\<exists>why. handle al nw h q = (h, proxy_deny why)"
    unfolding handle_def handle_connect_def handle_forward_def target_of_def Let_def
    by (cases "pq_connect q"; cases "pq_scheme q") auto
  then show thesis using refused by blast
next
  case (Some hp)
  obtain host p where hp: "hp = (host, p)" by fastforce
  show thesis
  proof (cases "match_rule al host p")
    case None
    then have "\<exists>why. handle al nw h q = (h, proxy_deny why)"
      using Some hp unfolding handle_def handle_connect_def handle_forward_def target_of_def Let_def
      by (cases "pq_connect q"; cases "pq_scheme q") auto
    then show thesis using refused by blast
  next
    case (Some r)
    obtain h' res where d: "dial al nw r h host p = (h', res)" by fastforce
    note t = \<open>target_of q = Some hp\<close> [unfolded hp]
    have rej: "\<not> reached (proxy_reject e)" "proxy_reject e \<noteq> Tunnel ip' p'" for e ip' p'
      by (cases e; simp add: proxy_reject_def proxy_deny_def reached_def)+
    show thesis
    proof (cases "pq_connect q")
      case True
      then have "handle al nw h q = (h', case res of Inl e \<Rightarrow> proxy_reject e | Inr ip \<Rightarrow> Tunnel ip p)"
        using t Some d unfolding handle_def handle_connect_def target_of_def Let_def by (simp split: sum.split)
      then show thesis by (rule dialled [OF t Some d]) (use rej in \<open>auto split: sum.split_asm\<close>)
    next
      case False
      let ?x = "\<lambda>ip. case nw_exchange nw h' ip p (case pq_path q of Some x \<Rightarrow> x | None \<Rightarrow> ''/'')
        (outbound_headers (case pq_authority q of Some a \<Rightarrow> a | None \<Rightarrow> []) (pq_headers q)) of Got status \<Rightarrow> Forwarded status | _ \<Rightarrow> BadGateway"
      show thesis
      proof (cases "pq_scheme q = Some ''http''")
        case True
        then have "handle al nw h q = (h', case res of Inl e \<Rightarrow> proxy_reject e | Inr ip \<Rightarrow> ?x ip)"
          using False t Some d unfolding handle_def handle_forward_def target_of_def Let_def by (simp split: sum.split)
        then show thesis by (rule dialled [OF t Some d]) (use rej in \<open>auto split: sum.split_asm attempt.split_asm\<close>)
      next
        case F: False
        then have "\<exists>why. handle al nw h q = (h, proxy_deny why)"
          using False unfolding handle_def handle_forward_def by (cases "pq_scheme q") auto
        then show thesis using refused by blast
      qed
    qed
  qed
qed

lemma sanitize_reason_printable:
  "length (sanitize_reason s) \<le> 200 \<and> list_all (\<lambda>c. 32 \<le> (of_char c :: nat) \<and> (of_char c :: nat) \<le> 126) (sanitize_reason s)"
  unfolding sanitize_reason_def max_reason_bytes_def by (auto simp: list_all_iff dest!: in_set_takeD)

lemma forbidden_printable:
  assumes "snd (handle al nw h q) = Forbidden why"
  shows "length why \<le> 200 \<and> list_all (\<lambda>c. 32 \<le> (of_char c :: nat) \<and> (of_char c :: nat) \<le> 126) why"
proof -
  have "\<exists>s. why = sanitize_reason s"
    using assms unfolding handle_def handle_connect_def handle_forward_def Let_def proxy_reject_def proxy_deny_def
    by (auto split: if_split_asm option.split_asm prod.split_asm sum.split_asm attempt.split_asm dial_error.split_asm)
  then show ?thesis using sanitize_reason_printable by blast
qed

text \<open>
  C38: A run reaches only what its allowlist names. Whatever request it makes, whatever a name resolves to
  at whatever moment and whatever connects: a request costs at most one lookup, of its own target, and
  a name no entry covers is not even looked up. Every address the proxy dials is one that this lookup
  gave (or the literal the target is), on the target's port, under an entry of the list that permits that
  host and that port; a non-public address is dialled only if that entry, or the list as a whole, says so. What is
  tunnelled or forwarded went to such an address, and a refusal is at most two hundred printable characters.
\<close>

theorem egress_reaches_only_the_allowed:
  "\<exists>new. fst (handle al nw h q) = h @ new \<and>
   length (filter (\<lambda>e. \<exists>host a. e = Looked host a) new) \<le> 1 \<and>
   (\<forall>host a. Looked host a \<in> set new \<longrightarrow>
      (\<exists>p r. target_of q = Some (host, p) \<and> r \<in> set (al_rules al) \<and> permits_port r p \<and> matches_host r (plain_host host))) \<and>
   (\<forall>ip p. Dialled ip p \<in> set new \<longrightarrow>
      (\<exists>host r. target_of q = Some (host, p) \<and> r \<in> set (al_rules al) \<and> permits_port r p \<and> matches_host r (plain_host host) \<and>
         resolved new host ip \<and> (is_private ip \<longrightarrow> al_private_destinations al \<or> ru_allow_private r))) \<and>
   (reached (snd (handle al nw h q)) \<longrightarrow> (\<exists>ip p. Dialled ip p \<in> set new)) \<and>
   (\<forall>ip p. snd (handle al nw h q) = Tunnel ip p \<longrightarrow> Dialled ip p \<in> set new) \<and>
   (\<forall>why. snd (handle al nw h q) = Forbidden why \<longrightarrow> length why \<le> 200 \<and>
      list_all (\<lambda>c. 32 \<le> (of_char c :: nat) \<and> (of_char c :: nat) \<le> 126) why)"
proof (cases rule: handle_cases [of al nw h q])
  case (refused why)
  then show ?thesis by (simp add: reached_def proxy_deny_def sanitize_reason_printable)
next
  case (dialled host p r h' res answer)
  from dial_spec [OF dialled(3)] obtain new where new: "h' = h @ new" "one_dial al r host p new"
    "\<forall>ip. res = Inr ip \<longrightarrow> Dialled ip p \<in> set new" by blast
  from new(2) obtain looked tried where n: "new = looked @ map (\<lambda>ip. Dialled ip p) tried" "length looked \<le> 1"
    "\<forall>e \<in> set looked. \<exists>a. e = Looked host a" "\<forall>ip \<in> set tried. permits_addr al r ip \<and> resolved new host ip"
    unfolding one_dial_def by blast
  note m = match_ruleD [OF dialled(2)]
  have "length (filter (\<lambda>e. \<exists>host a. e = Looked host a) new) \<le> 1"
    using n(2) by (simp add: n(1) le_trans [OF length_filter_le])
  moreover have "\<exists>p r. target_of q = Some (host', p) \<and> r \<in> set (al_rules al) \<and> permits_port r p \<and> matches_host r (plain_host host')"
    if "Looked host' a \<in> set new" for host' a
  proof -
    have "host' = host" using that n(3) by (auto simp: n(1))
    with dialled(1) m show ?thesis by blast
  qed
  moreover have "\<exists>host r. target_of q = Some (host, p') \<and> r \<in> set (al_rules al) \<and> permits_port r p' \<and> matches_host r (plain_host host) \<and>
      resolved new host ip \<and> (is_private ip \<longrightarrow> al_private_destinations al \<or> ru_allow_private r)"
    if "Dialled ip p' \<in> set new" for ip p'
  proof -
    have "ip \<in> set tried" "p' = p" using that n(3) by (auto simp: n(1))
    with dialled(1) m n(4) show ?thesis unfolding permits_addr_def by blast
  qed
  moreover have "\<exists>ip p. Dialled ip p \<in> set new" if "reached answer"
    using that dialled(5) new(3) by (cases res) auto
  moreover have "Dialled ip p' \<in> set new" if "answer = Tunnel ip p'" for ip p'
    using dialled(6) [OF that] new(3) by blast
  moreover have "length why \<le> 200 \<and> list_all (\<lambda>c. 32 \<le> (of_char c :: nat) \<and> (of_char c :: nat) \<le> 126) why"
    if "answer = Forbidden why" for why
    using forbidden_printable [of al nw h q why] dialled(4) that by simp
  ultimately show ?thesis
    unfolding dialled(4) fst_conv snd_conv new(1) by blast
qed

text \<open>A name whose first answer has a public address behind a loopback one, and whose later answers are loopback only.\<close>

definition rebinding :: network where
  "rebinding = \<lparr>nw_lookup = (\<lambda>h _. if h = [] then Got [V4 0x7F000001, V4 0x08080808] else Got [V4 0x7F000001]),
     nw_connect = (\<lambda>_ _ _. Got ()), nw_exchange = (\<lambda>_ _ _ _ _. Got 200)\<rparr>"

theorem egress_reaches_only_the_allowed_witness:
  "let al = \<lparr>al_rules = [\<lparr>ru_host = ''a.io'', ru_ports = [], ru_wildcard = False, ru_allow_private = False, ru_ip = None\<rparr>],
             al_private_destinations = False\<rparr>;
       q = \<lparr>pq_connect = True, pq_authority = Some ''A.io:443'', pq_host_header = None, pq_scheme = None, pq_path = None, pq_headers = []\<rparr>;
       h = fst (handle al rebinding [] q)
   in snd (handle al rebinding [] q) = Tunnel (V4 0x08080808) 443 \<and>
      h = [Looked ''a.io'' (Got [V4 0x7F000001, V4 0x08080808]), Dialled (V4 0x08080808) 443] \<and>
      fst (handle al rebinding h q) = h @ [Looked ''a.io'' (Got [V4 0x7F000001])] \<and>
      target_of q = Some (''a.io'', 443) \<and> \<not> is_private (V4 0x08080808)"
proof -
  let ?al = "\<lparr>al_rules = [\<lparr>ru_host = ''a.io'', ru_ports = [], ru_wildcard = False, ru_allow_private = False, ru_ip = None\<rparr>],
             al_private_destinations = False\<rparr>"
  let ?q = "\<lparr>pq_connect = True, pq_authority = Some ''A.io:443'', pq_host_header = None, pq_scheme = None, pq_path = None, pq_headers = []\<rparr>"
  let ?h = "[Looked ''a.io'' (Got [V4 0x7F000001, V4 0x08080808]), Dialled (V4 0x08080808) 443]"
  have h: "handle ?al rebinding [] ?q = (?h, Tunnel (V4 0x08080808) 443)" by code_simp
  have h2: "fst (handle ?al rebinding ?h ?q) = ?h @ [Looked ''a.io'' (Got [V4 0x7F000001])]" by code_simp
  have t: "target_of ?q = Some (''a.io'', 443)" by code_simp
  from egress_reaches_only_the_allowed [of ?al rebinding "[]" ?q] have "\<not> is_private (V4 0x08080808)"
    unfolding h by auto
  with h h2 t show ?thesis unfolding Let_def by simp
qed

section \<open>What an entry says\<close>

text \<open>A rule as the parser builds it.\<close>

definition rule_wf :: "rule \<Rightarrow> bool" where
  "rule_wf r \<longleftrightarrow> ru_host r \<noteq> [] \<and> CHR ''*'' \<notin> set (ru_host r) \<and> to_ascii_lowercase (ru_host r) = ru_host r \<and>
     length (ru_ports r) \<le> 1 \<and> 0 \<notin> set (ru_ports r) \<and>
     (if ru_wildcard r then ru_ip r = None \<and> hd (ru_host r) = CHR ''.'' \<and> tl (ru_host r) \<noteq> []
      else ru_ip r = parse_ip (ru_host r) \<and> (case ru_ip r of None \<Rightarrow> True | Some ip \<Rightarrow> is_private ip \<longrightarrow> ru_allow_private r))"

lemma parse_port_nonzero: "parse_port p = Inr n \<Longrightarrow> n \<noteq> 0"
proof -
  have "(word_of_nat k :: port) \<noteq> 0" if "1 \<le> k" "k \<le> 65535" for k
  proof -
    have "unat (word_of_nat k :: port) = k" using that by (simp add: unsigned_of_nat take_bit_nat_eq_self)
    then show ?thesis using that by auto
  qed
  then show "parse_port p = Inr n \<Longrightarrow> n \<noteq> 0" by (auto simp: parse_port_def split: option.split_asm if_split_asm)
qed

lemma entry_port_nonzero: "entry_split_host_port e = Inr (h, Some n) \<Longrightarrow> n \<noteq> 0"
  unfolding entry_split_host_port_def
  by (auto dest: parse_port_nonzero split: option.split_asm prod.split_asm if_split_asm sum.split_asm)

lemma lowercase_Cons: "to_ascii_lowercase (c # s) = c # s \<Longrightarrow> to_ascii_lowercase s = s"
  by (simp add: to_ascii_lowercase_def)

lemma rule_of_wf:
  assumes "rule_of host ports pr = Inr r" "to_ascii_lowercase host = host" "host \<noteq> []" "length ports \<le> 1" "0 \<notin> set ports"
  shows "rule_wf r"
proof (cases "strip_prefix ''*.'' host")
  case (Some suffix)
  then have "host = CHR ''*'' # CHR ''.'' # suffix" by (simp add: strip_prefix_Some)
  then show ?thesis using assms Some lowercase_Cons by (auto simp: rule_of_def rule_wf_def split: if_split_asm)
next
  case None
  then show ?thesis using assms by (auto simp: rule_of_def rule_wf_def split: if_split_asm option.split)
qed

lemma lowercase_idem: "to_ascii_lowercase (to_ascii_lowercase s) = to_ascii_lowercase s"
proof -
  have "\<not> is_upper (if is_upper c then char_of (of_char c + 32 :: nat) else c)" for c
    by (simp add: is_upper_def of_char_of)
  then show ?thesis unfolding to_ascii_lowercase_def by simp
qed

lemma parse_rule_wf:
  assumes "parse_rule e = Inr r"
  shows "rule_wf r"
proof -
  from assms obtain e' h p pr where h: "entry_split_host_port e' = Inr (h, p)" "to_ascii_lowercase (trim_end_char CHR ''.'' h) \<noteq> []"
     "rule_of (to_ascii_lowercase (trim_end_char CHR ''.'' h)) (case p of None \<Rightarrow> [] | Some n \<Rightarrow> [n]) pr = Inr r"
    unfolding parse_rule_def Let_def by (auto split: option.split_asm prod.split_asm if_split_asm sum.split_asm)
  show ?thesis
    by (rule rule_of_wf [OF h(3) lowercase_idem h(2)]) (use h(1) entry_port_nonzero in \<open>auto split: option.split\<close>)
qed

lemma parse_entries_cases:
  "case parse_entries es of
     Inl (raw, e) \<Rightarrow> raw \<in> set es \<and> parse_rule (trim raw) = Inl e
   | Inr rs \<Rightarrow> map Inr rs = map (\<lambda>raw. parse_rule (trim raw)) (filter (\<lambda>raw. trim raw \<noteq> []) es)"
  by (induction es) (auto split: sum.split sum.split_asm prod.split)

lemma wildcard_not_apex:
  assumes "rule_wf r" "ru_wildcard r" "matches_host r h"
  shows "h \<noteq> tl (ru_host r)"
  using assms by (cases "ru_host r") (auto simp: rule_wf_def matches_host_def ends_with_def)

text \<open>
  C39: A list that parses says what its entries say. It has one rule per entry that is not blank, in order, and
  never the switch that opens private destinations to all. Every rule names a host in lower case without a
  star, and at most one port, never zero; a literal address is matched as an address, and one that is private
  opens private destinations for its own rule only; a wildcard covers names below its domain and never
  the domain itself. A list that does not parse names an entry of its own that is at fault.
\<close>

theorem allowlist_says_what_its_entries_say:
  "case parse_allowlist es of
     Inl (raw, e) \<Rightarrow> raw \<in> set es \<and> parse_rule (trim raw) = Inl e
   | Inr al \<Rightarrow>
       map Inr (al_rules al) = map (\<lambda>raw. parse_rule (trim raw)) (filter (\<lambda>raw. trim raw \<noteq> []) es) \<and>
       \<not> al_private_destinations al \<and> list_all rule_wf (al_rules al) \<and>
       list_all (\<lambda>r. ru_wildcard r \<longrightarrow> \<not> matches_host r (tl (ru_host r))) (al_rules al)"
proof (cases "parse_entries es")
  case (Inl x)
  then show ?thesis using parse_entries_cases [of es] by (auto simp: parse_allowlist_def)
next
  case (Inr rs)
  then have m: "map Inr rs = map (\<lambda>raw. parse_rule (trim raw)) (filter (\<lambda>raw. trim raw \<noteq> []) es)"
    using parse_entries_cases [of es] by simp
  have w: "rule_wf r" if "r \<in> set rs" for r
  proof -
    have "Inr r \<in> set (map (Inr :: rule \<Rightarrow> entry_error + rule) rs)" using that by simp
    then obtain raw where "parse_rule (trim raw) = Inr r" unfolding m by auto
    then show ?thesis by (rule parse_rule_wf)
  qed
  then have "list_all rule_wf rs" "list_all (\<lambda>r. ru_wildcard r \<longrightarrow> \<not> matches_host r (tl (ru_host r))) rs"
    using wildcard_not_apex unfolding list_all_iff by blast+
  with m Inr show ?thesis by (simp add: parse_allowlist_def allowlist_default_def)
qed

theorem allowlist_says_what_its_entries_say_witness:
  "case parse_allowlist [''*.a.io'', '' '', ''private:b.io:8443''] of
     Inl _ \<Rightarrow> False
   | Inr al \<Rightarrow> length (al_rules al) = 2 \<and> list_all rule_wf (al_rules al) \<and>
       permits al ''x.a.io'' 443 \<and> \<not> permits al ''a.io'' 443 \<and> permits al ''b.io'' 8443"
proof -
  have p: "case parse_allowlist [''*.a.io'', '' '', ''private:b.io:8443''] of
     Inl _ \<Rightarrow> False
   | Inr al \<Rightarrow> length (al_rules al) = 2 \<and> permits al ''x.a.io'' 443 \<and> \<not> permits al ''a.io'' 443 \<and> permits al ''b.io'' 8443" by code_simp
  with allowlist_says_what_its_entries_say [of "[''*.a.io'', '' '', ''private:b.io:8443'']"]
  show ?thesis by (simp split: sum.split sum.split_asm)
qed

text \<open>
  The port of the last server given is the port every server is asked on: a list that gives two servers
  different ports asks the first one on the port of the second.
\<close>

theorem dns_servers_share_the_last_port:
  "dns_resolver_new [''10.0.0.1:5353'', ''10.0.0.2''] = Inr [(V4 0x0A000001, 53), (V4 0x0A000002, 53)]"
  by code_simp

end
