(* ===== verification/Hive_Mcp.thy ===== *)
theory Hive_Mcp
  imports Hive_Surface Hive_Trust
begin

text \<open>
  The tool server (\<open>crates/hive-mcp\<close>): listing and calling over three collaborators, which are arguments here:
  the installs an actor could be offered tools of, the guard asked about one tool of one install, and the
  dispatcher. The guard threads a state of its own, because asking may write an audit row; its contract is
  the locale \<open>tool_guard\<close>, and that the two paths agree is proved against it.
\<close>

section \<open>Data\<close>

record mcp_install =
  mi_id :: uuid
  mi_app :: string
  mi_surface :: surface

record mcp_tool =
  mt_name :: string
  mt_description :: string
  mt_input_schema :: "json option"

datatype mcp_error =
    UnknownTool string
  | MalformedName string
  | McpCredential identity_error
  | McpInstalls string
  | McpGuard string string
  | McpDispatch string string

record tool_result =
  tr_output :: string
  tr_trust :: level
  tr_tainted_by :: string

datatype dispatch_call =
    CallGuest mcp_install credential string string
  | CallCrud mcp_install credential string op string

type_synonym 'a guard_fn = "'a \<Rightarrow> credential \<Rightarrow> uuid \<Rightarrow> string \<Rightarrow> 'a \<times> (string + bool)"

section \<open>Listing\<close>

fun list_install :: "'a guard_fn \<Rightarrow> 'a \<Rightarrow> credential \<Rightarrow> mcp_install \<Rightarrow> tool list \<Rightarrow> 'a \<times> (mcp_error + mcp_tool list)" where
  "list_install ask g c i [] = (g, Inr [])"
| "list_install ask g c i (t # ts) =
     (case ask g c (mi_id i) (t_name t) of
        (g', Inl e) \<Rightarrow> (g', Inl (McpGuard (mi_app i @ ''.'' @ t_name t) e))
      | (g', Inr ok) \<Rightarrow>
          (case list_install ask g' c i ts of
             (g'', Inl e) \<Rightarrow> (g'', Inl e)
           | (g'', Inr out) \<Rightarrow>
               (g'', Inr (if ok then \<lparr>mt_name = qualified_tool_name (mi_app i) (t_name t), mt_description = t_description t,
                                      mt_input_schema = t_input_schema t\<rparr> # out else out))))"

fun list_installs :: "'a guard_fn \<Rightarrow> 'a \<Rightarrow> credential \<Rightarrow> mcp_install list \<Rightarrow> 'a \<times> (mcp_error + mcp_tool list)" where
  "list_installs ask g c [] = (g, Inr [])"
| "list_installs ask g c (i # is) =
     (case list_install ask g c i (sf_tools (mi_surface i)) of
        (g', Inl e) \<Rightarrow> (g', Inl e)
      | (g', Inr xs) \<Rightarrow> (case list_installs ask g' c is of (g'', Inl e) \<Rightarrow> (g'', Inl e) | (g'', Inr ys) \<Rightarrow> (g'', Inr (xs @ ys))))"

definition list_tools :: "(credential \<Rightarrow> string + mcp_install list) \<Rightarrow> 'a guard_fn \<Rightarrow> 'a \<Rightarrow> credential \<Rightarrow> 'a \<times> (mcp_error + mcp_tool list)" where
  "list_tools active ask g c =
     (case credential_validate c of
        Inl e \<Rightarrow> (g, Inl (McpCredential e))
      | Inr _ \<Rightarrow>
          (case active c of
             Inl e \<Rightarrow> (g, Inl (McpInstalls e))
           | Inr is \<Rightarrow> (case list_installs ask g c is of (g', Inl e) \<Rightarrow> (g', Inl e) | (g', Inr ts) \<Rightarrow> (g', Inr (sort_key mt_name ts)))))"

section \<open>Calling\<close>

definition dispatch_of :: "mcp_install \<Rightarrow> credential \<Rightarrow> tool \<Rightarrow> string \<Rightarrow> dispatch_call" where
  "dispatch_of i c t input =
     (case t_impl t of
        GeneratedCrud \<Rightarrow> CallCrud i c (t_collection t) (case t_op t of Some o' \<Rightarrow> o' | None \<Rightarrow> List_op) input
      | Guest \<Rightarrow> CallGuest i c (t_function t) input)"

fun call_installs ::
  "'a guard_fn \<Rightarrow> (dispatch_call \<Rightarrow> string + tool_result) \<Rightarrow> 'a \<Rightarrow> credential \<Rightarrow> string \<Rightarrow> string \<Rightarrow> string \<Rightarrow> string \<Rightarrow> mcp_install list
   \<Rightarrow> 'a \<times> (mcp_error + tool_result)" where
  "call_installs ask disp g c nm app tn input [] = (g, Inl (UnknownTool nm))"
| "call_installs ask disp g c nm app tn input (i # is) =
     (if mi_app i \<noteq> app then call_installs ask disp g c nm app tn input is
      else (case List.find (\<lambda>t. t_name t = tn) (sf_tools (mi_surface i)) of
              None \<Rightarrow> call_installs ask disp g c nm app tn input is
            | Some t \<Rightarrow>
                (case ask g c (mi_id i) (t_name t) of
                   (g', Inl e) \<Rightarrow> (g', Inl (McpGuard nm e))
                 | (g', Inr False) \<Rightarrow> (g', Inl (UnknownTool nm))
                 | (g', Inr True) \<Rightarrow> (g', map_sum (McpDispatch nm) id (disp (dispatch_of i c t input))))))"

definition call_tool ::
  "(credential \<Rightarrow> string + mcp_install list) \<Rightarrow> 'a guard_fn \<Rightarrow> (dispatch_call \<Rightarrow> string + tool_result) \<Rightarrow> 'a \<Rightarrow> credential \<Rightarrow> string \<Rightarrow> string
   \<Rightarrow> 'a \<times> (mcp_error + tool_result)" where
  "call_tool active ask disp g c nm input =
     (case credential_validate c of
        Inl e \<Rightarrow> (g, Inl (McpCredential e))
      | Inr _ \<Rightarrow>
          (case split_tool_name nm of
             None \<Rightarrow> (g, Inl (MalformedName nm))
           | Some (app, tn) \<Rightarrow>
               (case active c of
                  Inl e \<Rightarrow> (g, Inl (McpInstalls e))
                | Inr is \<Rightarrow> call_installs ask disp g c nm app tn input is)))"

text \<open>A call is accepted when it got past the lookup and the guard, whatever the tool then did.\<close>

definition accepted :: "mcp_error + tool_result \<Rightarrow> bool" where
  "accepted r \<longleftrightarrow> (case r of Inl (UnknownTool _) \<Rightarrow> False | Inl (MalformedName _) \<Rightarrow> False | _ \<Rightarrow> True)"

lemma accepted_simps [simp]: "accepted (map_sum (McpDispatch nm) id r)" "\<not> accepted (Inl (UnknownTool nm))" "\<not> accepted (Inl (MalformedName nm))"
  by (cases r) (simp_all add: accepted_def)

lemma split_qualified: "app \<noteq> [] \<Longrightarrow> CHR ''.'' \<notin> set app \<Longrightarrow> tn \<noteq> [] \<Longrightarrow> split_tool_name (qualified_tool_name app tn) = Some (app, tn)"
  using split_once_Some [of "CHR ''.''" "app @ CHR ''.'' # tn" app tn] by (simp add: split_tool_name_def qualified_tool_name_def)

lemma split_tool_name_Some: "split_tool_name nm = Some (app, tn) \<Longrightarrow> nm = qualified_tool_name app tn \<and> CHR ''.'' \<notin> set app"
  by (auto simp: split_tool_name_def qualified_tool_name_def split_once_Some split: option.split_asm if_split_asm)

lemma qualified_inject:
  "CHR ''.'' \<notin> set a \<Longrightarrow> CHR ''.'' \<notin> set b \<Longrightarrow> qualified_tool_name a x = qualified_tool_name b y \<longleftrightarrow> a = b \<and> x = y"
  using sep_unique [of "CHR ''.''" a b x y] by (auto simp: qualified_tool_name_def)

section \<open>The contract of the guard\<close>

text \<open>
  A guard that answers: while it is up it always says yes or no, the answer depends on nothing but the question,
  and it stays up.
\<close>

locale tool_guard =
  fixes ask :: "'a guard_fn" and up :: "'a \<Rightarrow> bool" and yes :: "credential \<Rightarrow> uuid \<Rightarrow> string \<Rightarrow> bool"
  assumes answers: "up g \<Longrightarrow> \<exists>g'. ask g c i t = (g', Inr (yes c i t)) \<and> up g'"
begin

definition offered :: "credential \<Rightarrow> mcp_install \<Rightarrow> tool \<Rightarrow> bool" where
  "offered c i t \<longleftrightarrow> t \<in> set (sf_tools (mi_surface i)) \<and> yes c (mi_id i) (t_name t)"

lemma list_install_names:
  assumes "up g"
  shows "\<exists>g' out. list_install ask g c i ts = (g', Inr out) \<and> up g' \<and>
    mt_name ` set out = {qualified_tool_name (mi_app i) (t_name t) | t. t \<in> set ts \<and> yes c (mi_id i) (t_name t)}"
  using assms
proof (induction ts arbitrary: g)
  case (Cons t ts)
  from answers [OF Cons.prems] obtain g1 where g1: "ask g c (mi_id i) (t_name t) = (g1, Inr (yes c (mi_id i) (t_name t)))" "up g1" by blast
  from Cons.IH [OF g1(2)] obtain g2 out where o: "list_install ask g1 c i ts = (g2, Inr out)" "up g2"
    "mt_name ` set out = {qualified_tool_name (mi_app i) (t_name t) | t. t \<in> set ts \<and> yes c (mi_id i) (t_name t)}" by blast
  show ?case using g1 o by auto
qed simp

lemma list_installs_names:
  assumes "up g"
  shows "\<exists>g' out. list_installs ask g c is = (g', Inr out) \<and> up g' \<and>
    mt_name ` set out = {qualified_tool_name (mi_app i) (t_name t) | i t. i \<in> set is \<and> offered c i t}"
  using assms
proof (induction "is" arbitrary: g)
  case (Cons i "is")
  from list_install_names [OF Cons.prems] obtain g1 xs where x: "list_install ask g c i (sf_tools (mi_surface i)) = (g1, Inr xs)" "up g1"
    "mt_name ` set xs = {qualified_tool_name (mi_app i) (t_name t) | t. t \<in> set (sf_tools (mi_surface i)) \<and> yes c (mi_id i) (t_name t)}" by blast
  from Cons.IH [OF x(2)] obtain g2 ys where y: "list_installs ask g1 c is = (g2, Inr ys)" "up g2"
    "mt_name ` set ys = {qualified_tool_name (mi_app i) (t_name t) | i t. i \<in> set is \<and> offered c i t}" by blast
  have "mt_name ` set (xs @ ys) = {qualified_tool_name (mi_app j) (t_name t) | j t. j \<in> set (i # is) \<and> offered c j t}"
    unfolding set_append image_Un x(3) y(3) by (auto simp: offered_def)
  then show ?case using x y by simp
qed simp

text \<open>Where no two installs share a name, a call reaches the install the listing showed.\<close>

lemma call_installs_first:
  assumes "up g" "distinct (map mi_app is)" "list_all (\<lambda>i. distinct (map t_name (sf_tools (mi_surface i)))) is"
  shows "\<exists>g'. call_installs ask disp g c nm app tn input is =
    (g', case List.find (\<lambda>i. mi_app i = app) is of
           None \<Rightarrow> Inl (UnknownTool nm)
         | Some i \<Rightarrow>
             (case List.find (\<lambda>t. t_name t = tn) (sf_tools (mi_surface i)) of
                None \<Rightarrow> Inl (UnknownTool nm)
              | Some t \<Rightarrow> if yes c (mi_id i) tn then map_sum (McpDispatch nm) id (disp (dispatch_of i c t input)) else Inl (UnknownTool nm)))"
  using assms
proof (induction "is" arbitrary: g)
  case (Cons i "is")
  show ?case
  proof (cases "mi_app i = app")
    case False
    with Cons show ?thesis by simp
  next
    case True
    have rest: "List.find (\<lambda>j. mi_app j = app) is = None"
      using True Cons.prems(2) unfolding find_eq_None by (metis distinct.simps(2) imageI list.set_map list.simps(9))
    show ?thesis
    proof (cases "List.find (\<lambda>t. t_name t = tn) (sf_tools (mi_surface i))")
      case None
      have "\<exists>g'. call_installs ask disp g c nm app tn input is = (g', Inl (UnknownTool nm))"
        using Cons.IH [OF Cons.prems(1)] Cons.prems(2,3) rest by simp
      then show ?thesis using None True by simp
    next
      case (Some t)
      then have "t_name t = tn" by (auto dest: find_SomeD)
      moreover obtain g1 where "ask g c (mi_id i) (t_name t) = (g1, Inr (yes c (mi_id i) (t_name t)))" using answers [OF Cons.prems(1)] by blast
      ultimately show ?thesis using Some True by (cases "yes c (mi_id i) tn") simp_all
    qed
  qed
qed simp

lemma listing_is_calling:
  assumes "up g" "credential_validate c = Inr u" "active c = Inr is"
    and names: "distinct (map mi_app is)" "list_all (\<lambda>i. mi_app i \<noteq> [] \<and> CHR ''.'' \<notin> set (mi_app i)) is"
    and tools: "list_all (\<lambda>i. distinct (map t_name (sf_tools (mi_surface i))) \<and> list_all (\<lambda>t. t_name t \<noteq> []) (sf_tools (mi_surface i))) is"
  shows "\<exists>g' ts. list_tools active ask g c = (g', Inr ts) \<and> sorted (map mt_name ts) \<and>
    (\<forall>nm. nm \<in> mt_name ` set ts \<longleftrightarrow> accepted (snd (call_tool active ask disp g c nm input)))"
proof -
  obtain g1 out where o: "list_installs ask g c is = (g1, Inr out)"
    "mt_name ` set out = {qualified_tool_name (mi_app i) (t_name t) | i t. i \<in> set is \<and> offered c i t}"
    using list_installs_names [OF assms(1)] by blast
  have v: "credential_validate c = Inr ()" using assms(2) by simp
  have l: "list_tools active ask g c = (g1, Inr (sort_key mt_name out))" unfolding list_tools_def v assms(3) using o(1) by simp
  have tdist: "list_all (\<lambda>i. distinct (map t_name (sf_tools (mi_surface i)))) is" using tools by (auto simp: list_all_iff)
  have "nm \<in> mt_name ` set out \<longleftrightarrow> accepted (snd (call_tool active ask disp g c nm input))" for nm
  proof (cases "split_tool_name nm")
    case None
    then have no: "\<not> accepted (snd (call_tool active ask disp g c nm input))" unfolding call_tool_def v by (simp add: accepted_def)
    have "split_tool_name (qualified_tool_name (mi_app i) (t_name t)) \<noteq> None" if "i \<in> set is" "offered c i t" for i t
      using that names(2) tools split_qualified [of "mi_app i" "t_name t"] by (auto simp: list_all_iff offered_def)
    then have "nm \<notin> mt_name ` set out" unfolding o(2) using None by fastforce
    then show ?thesis using no by blast
  next
    case (Some at)
    obtain app tn where at: "at = (app, tn)" by fastforce
    then have nm: "nm = qualified_tool_name app tn" "CHR ''.'' \<notin> set app" using split_tool_name_Some Some by blast+
    have same: "qualified_tool_name (mi_app i) (t_name t) = nm \<longleftrightarrow> mi_app i = app \<and> t_name t = tn" if "i \<in> set is" for i t
      using that names(2) qualified_inject [of "mi_app i" app "t_name t" tn] nm by (auto simp: list_all_iff)
    have "nm \<in> mt_name ` set out \<longleftrightarrow> (\<exists>i \<in> set is. \<exists>t. offered c i t \<and> mi_app i = app \<and> t_name t = tn)"
      unfolding o(2) mem_Collect_eq using same by metis
    also have "\<dots> \<longleftrightarrow> (case List.find (\<lambda>i. mi_app i = app) is of
           None \<Rightarrow> False
         | Some i \<Rightarrow> (case List.find (\<lambda>t. t_name t = tn) (sf_tools (mi_surface i)) of None \<Rightarrow> False | Some t \<Rightarrow> yes c (mi_id i) tn))"
    proof (cases "List.find (\<lambda>i. mi_app i = app) is")
      case None
      then have "\<forall>i \<in> set is. mi_app i \<noteq> app" by (simp add: find_eq_None)
      with None show ?thesis by auto
    next
      case (Some i)
      then have i: "i \<in> set is" "mi_app i = app" by (auto dest: find_SomeD)
      have only: "j = i" if "j \<in> set is" "mi_app j = app" for j
        using inj_onD [of mi_app "set is" j i] that i names(1) by (simp add: distinct_map)
      have "(\<exists>j \<in> set is. \<exists>t. offered c j t \<and> mi_app j = app \<and> t_name t = tn) \<longleftrightarrow>
          (\<exists>t \<in> set (sf_tools (mi_surface i)). t_name t = tn \<and> yes c (mi_id i) tn)"
        unfolding offered_def using only i by metis
      moreover have "(\<exists>t \<in> set (sf_tools (mi_surface i)). t_name t = tn) \<longleftrightarrow> List.find (\<lambda>t. t_name t = tn) (sf_tools (mi_surface i)) \<noteq> None"
        unfolding find_neq_None by (rule refl)
      ultimately show ?thesis using Some by (cases "List.find (\<lambda>t. t_name t = tn) (sf_tools (mi_surface i))") auto
    qed
    also have "\<dots> \<longleftrightarrow> accepted (snd (call_tool active ask disp g c nm input))"
    proof -
      have "call_tool active ask disp g c nm input = call_installs ask disp g c nm app tn input is"
        unfolding call_tool_def v assms(3) using Some at by simp
      then show ?thesis using call_installs_first [OF assms(1) names(1) tdist, of disp c nm app tn input]
        by (cases "List.find (\<lambda>i. mi_app i = app) is") (auto split: option.split if_split_asm)
    qed
    finally show ?thesis .
  qed
  then show ?thesis using l by auto
qed

end

end
