(* ===== verification/Hive_Credentials.thy ===== *)
theory Hive_Credentials
  imports Hive_Predicate
begin

text \<open>
  Credentials (\<open>crates/hive-store/src/credentials.rs\<close>, \<open>appcred.rs\<close>, \<open>actors.rs\<close>): issuing, resolving and
  revoking bearer tokens, and the actor and the credential an install of a process app runs with, beside
  the checks and triggers of the tables \<open>actors\<close> and \<open>credentials\<close>. The columns of an actor and of an install
  that no authorization reads are kept in tables of their own, keyed by the id. The digest of a token is a
  parameter; a minted token, a new id and every reading of the clock are arguments.
\<close>

section \<open>Tables\<close>

record actor_info =
  ai_id :: uuid
  ai_handle :: string
  ai_display_name :: string
  ai_persona :: "string option"
  ai_created_by :: "uuid option"

record cred_row =
  cr_id :: uuid
  cr_actor :: uuid
  cr_principal :: owner
  cr_token :: string
  cr_label :: string
  cr_by :: credential
  cr_created_at :: time
  cr_expires_at :: "time option"
  cr_revoked_at :: "time option"
  cr_last_used_at :: "time option"
  cr_install_id :: "uuid option"

record cred_db = core_db +
  actor_infos :: "actor_info list"
  credentials :: "cred_row list"
  install_actors :: "(uuid \<times> uuid) list"

definition kind_of :: "'z core_db_scheme \<Rightarrow> uuid \<Rightarrow> actor_kind option" where
  "kind_of db i = map_option a_kind (find_actor db i)"

section \<open>Actors\<close>

text \<open>The checks of a row, and the triggers that fire once it is in the table.\<close>

definition actor_checks :: "actor \<Rightarrow> actor_info \<Rightarrow> bool" where
  "actor_checks a n \<longleftrightarrow>
     (a_kind a = AiActor) = (ai_persona n \<noteq> None) \<and>
     (a_kind a = AiActor \<or> a_principal_id a = a_id a \<and> a_principal_kind a = (if a_kind a = OrgActor then Org else User)) \<and>
     (a_kind a \<noteq> AiActor \<or> a_principal_id a \<noteq> a_id a)"

definition principal_check :: "'z core_db_scheme \<Rightarrow> actor \<Rightarrow> refusal option" where
  "principal_check db a =
     (case kind_of db (a_principal_id a) of
        None \<Rightarrow> Some (TriggerAbort ''actor has no principal row'')
      | Some k \<Rightarrow>
          if k = AiActor then Some (TriggerAbort ''an AI actor cannot be a principal'')
          else if (k = OrgActor) \<noteq> (a_principal_kind a = Org) then Some (TriggerAbort ''principal_kind disagrees'')
          else None)"

definition creation_check :: "'z core_db_scheme \<Rightarrow> actor \<Rightarrow> actor_info \<Rightarrow> refusal option" where
  "creation_check db a n =
     (case ai_created_by n of
        None \<Rightarrow> None
      | Some creator \<Rightarrow>
          (case kind_of db creator of
             None \<Rightarrow> Some (TriggerAbort ''creator does not exist'')
           | Some k \<Rightarrow>
               if k = AiActor then Some (TriggerAbort ''an AI actor may not create actors'')
               else if a_kind a = AiActor \<and> \<not> (a_principal_kind a = User \<and> a_principal_id a = creator)
                 \<and> \<not> (a_principal_kind a = Org \<and> is_admin db (a_principal_id a) creator)
                 then Some (TriggerAbort ''creator may not create an AI acting for that principal'')
               else None))"

definition insert_actor :: "'z cred_db_scheme \<Rightarrow> actor \<Rightarrow> actor_info \<Rightarrow> refusal + 'z cred_db_scheme" where
  "insert_actor db a n =
     (if \<not> actor_checks a n then Inl (CheckViolation ''actors'')
      else if find_actor db (a_id a) \<noteq> None \<or> list_ex (\<lambda>m. ai_handle m = ai_handle n) (actor_infos db)
        \<or> ai_created_by n = None \<and> list_ex (\<lambda>m. ai_created_by m = None) (actor_infos db) then Inl UniqueViolation
      else
        let db' = db\<lparr>actors := actors db @ [a], actor_infos := actor_infos db @ [n]\<rparr>
        in case principal_check db' a of
             Some r \<Rightarrow> Inl r
           | None \<Rightarrow> (case creation_check db' a n of Some r \<Rightarrow> Inl r | None \<Rightarrow> Inr db'))"

record actor_view =
  av_id :: uuid
  av_kind :: actor_kind
  av_handle :: string
  av_display_name :: string
  av_persona :: string
  av_principal :: owner

definition actor_by_id :: "'z cred_db_scheme \<Rightarrow> uuid \<Rightarrow> store_error + actor_view" where
  "actor_by_id db i =
     (case (find_actor db i, List.find (\<lambda>n. ai_id n = i) (actor_infos db)) of
        (Some a, Some n) \<Rightarrow>
          Inr \<lparr>av_id = a_id a, av_kind = a_kind a, av_handle = ai_handle n, av_display_name = ai_display_name n,
               av_persona = (case ai_persona n of None \<Rightarrow> [] | Some p \<Rightarrow> p),
               av_principal = \<lparr>o_kind = a_principal_kind a, o_id = a_principal_id a\<rparr>\<rparr>
      | _ \<Rightarrow> Inl NoRows)"

section \<open>Issuing\<close>

text \<open>The trigger \<open>credentials_issue_check\<close>.\<close>

definition issue_check :: "'z core_db_scheme \<Rightarrow> cred_row \<Rightarrow> refusal option" where
  "issue_check db n =
     (let issuer = actor_id (cr_by n); pk = o_kind (cr_principal n); pid = o_id (cr_principal n)
      in if kind_of db issuer = Some AiActor then Some (TriggerAbort ''an AI actor may not issue credentials'')
         else if kind_of db (cr_actor n) = Some AiActor \<and>
           \<not> (case find_actor db (cr_actor n) of None \<Rightarrow> False | Some a \<Rightarrow> a_principal_kind a = pk \<and> a_principal_id a = pid)
           then Some (TriggerAbort ''an AI actor is pinned to one principal'')
         else if kind_of db (cr_actor n) \<noteq> Some AiActor \<and>
           \<not> (pk = User \<and> pid = cr_actor n \<or> pk = Org \<and> is_member db pid (cr_actor n))
           then Some (TriggerAbort ''actor cannot act for that principal'')
         else if \<not> (pk = User \<and> pid = issuer) \<and> \<not> (pk = Org \<and> is_admin db pid issuer)
           then Some (TriggerAbort ''issuer may not issue for that principal'')
         else None)"

definition token_check :: "string \<Rightarrow> bool" where
  "token_check s \<longleftrightarrow> length s = 64 \<and>
     list_all (\<lambda>c. is_digit c \<or> 97 \<le> (of_char c :: nat) \<and> (of_char c :: nat) \<le> 102) s"

definition insert_credential :: "'z cred_db_scheme \<Rightarrow> cred_row \<Rightarrow> refusal + 'z cred_db_scheme" where
  "insert_credential db n =
     (case issue_check db n of
        Some r \<Rightarrow> Inl r
      | None \<Rightarrow>
          if \<not> token_check (cr_token n) then Inl (CheckViolation ''token_sha256'')
          else if list_ex (\<lambda>c. cr_id c = cr_id n \<or> cr_token c = cr_token n) (credentials db) then Inl UniqueViolation
          else if find_actor db (cr_actor n) = None \<or> find_actor db (o_id (cr_principal n)) = None
            \<or> find_actor db (actor_id (cr_by n)) = None \<or> find_actor db (principal_id (cr_by n)) = None then Inl ForeignKeyViolation
          else Inr (db\<lparr>credentials := credentials db @ [n]\<rparr>))"

definition hash_token :: "(string \<Rightarrow> string) \<Rightarrow> string \<Rightarrow> string" where
  "hash_token sha256_hex token = sha256_hex token"

text \<open>A new token: the URL-safe text of thirty-two random bytes, with its hash.\<close>

definition new_token :: "(string \<Rightarrow> string) \<Rightarrow> (string \<Rightarrow> string) \<Rightarrow> string \<Rightarrow> string \<times> string" where
  "new_token sha256_hex b64 random = (let token = b64 random in (token, hash_token sha256_hex token))"

definition issue_credential ::
  "(string \<Rightarrow> string) \<Rightarrow> (string \<Rightarrow> string) \<Rightarrow> 'z cred_db_scheme \<Rightarrow> uuid \<Rightarrow> owner \<Rightarrow> credential \<Rightarrow> string \<Rightarrow> time option
   \<Rightarrow> string \<Rightarrow> uuid \<Rightarrow> time \<Rightarrow> 'z cred_db_scheme \<times> (store_error + string \<times> uuid)" where
  "issue_credential sha256_hex b64 db for_actor pr c label expires random new_id now =
     (case new_token sha256_hex b64 random of
        (token, h) \<Rightarrow>
          (case insert_credential db
                  \<lparr>cr_id = new_id, cr_actor = for_actor, cr_principal = pr, cr_token = h, cr_label = label, cr_by = c,
                   cr_created_at = now, cr_expires_at = expires, cr_revoked_at = None, cr_last_used_at = None,
                   cr_install_id = None\<rparr> of
             Inl r \<Rightarrow> (db, Inl (DbError ''issue credential'' r))
           | Inr db' \<Rightarrow> (db', Inr (token, new_id))))"

definition ensure_bootstrap_credential ::
  "(string \<Rightarrow> string) \<Rightarrow> 'z cred_db_scheme \<Rightarrow> uuid \<Rightarrow> string \<Rightarrow> uuid \<Rightarrow> time \<Rightarrow> 'z cred_db_scheme \<times> (store_error + unit)" where
  "ensure_bootstrap_credential sha256_hex db root token new_id engine_now =
     (if token = [] then (db, Inl (Other ''bootstrap credential needs a token''))
      else (case List.find (\<lambda>c. cr_token c = hash_token sha256_hex token) (credentials db) of
              Some c \<Rightarrow> (db, if cr_actor c \<noteq> root then Inl (Other ''bootstrap token already belongs to another actor'') else Inr ())
            | None \<Rightarrow>
                (case insert_credential db
                        \<lparr>cr_id = new_id, cr_actor = root, cr_principal = owner_user root, cr_token = hash_token sha256_hex token,
                         cr_label = ''bootstrap'', cr_by = \<lparr>actor_id = root, principal_kind = User, principal_id = root\<rparr>,
                         cr_created_at = engine_now, cr_expires_at = None, cr_revoked_at = None, cr_last_used_at = None,
                         cr_install_id = None\<rparr> of
                   Inl r \<Rightarrow> (db, Inl (DbError ''create bootstrap credential'' r))
                 | Inr db' \<Rightarrow> (db', Inr ()))))"

section \<open>Resolving\<close>

definition cred_live :: "'z core_db_scheme \<Rightarrow> string \<Rightarrow> time \<Rightarrow> cred_row \<Rightarrow> bool" where
  "cred_live db h now c \<longleftrightarrow>
     cr_token c = h \<and> (case find_actor db (cr_actor c) of None \<Rightarrow> False | Some a \<Rightarrow> a_disabled_at a = None) \<and>
     cr_revoked_at c = None \<and> (case cr_expires_at c of None \<Rightarrow> True | Some e \<Rightarrow> now < e)"

definition row_credential :: "cred_row \<Rightarrow> credential" where
  "row_credential c = \<lparr>actor_id = cr_actor c, principal_kind = o_kind (cr_principal c), principal_id = o_id (cr_principal c)\<rparr>"

text \<open>\<open>touch\<close> says whether the bookkeeping write went through; its failure is ignored.\<close>

definition resolve_credential ::
  "(string \<Rightarrow> string) \<Rightarrow> 'z cred_db_scheme \<Rightarrow> string \<Rightarrow> time \<Rightarrow> bool \<Rightarrow> 'z cred_db_scheme \<times> (store_error + credential)" where
  "resolve_credential sha256_hex db token now touch =
     (if token = [] then (db, Inl NoCredential)
      else let h = hash_token sha256_hex token
           in case List.find (cred_live db h now) (credentials db) of
                None \<Rightarrow> (db, Inl NoCredential)
              | Some c \<Rightarrow>
                  (if touch then db\<lparr>credentials := update_rows (\<lambda>r. cr_token r = h) (\<lambda>r. r\<lparr>cr_last_used_at := Some now\<rparr>) (credentials db)\<rparr>
                   else db, Inr (row_credential c)))"

record credential_detail =
  cd_cred :: credential
  cd_id :: uuid
  cd_label :: string
  cd_created_at :: time
  cd_last_used_at :: "time option"

definition credential_detail_by_token ::
  "(string \<Rightarrow> string) \<Rightarrow> 'z cred_db_scheme \<Rightarrow> string \<Rightarrow> time \<Rightarrow> store_error + credential_detail" where
  "credential_detail_by_token sha256_hex db token now =
     (if token = [] then Inl NoCredential
      else (case List.find (cred_live db (hash_token sha256_hex token) now) (credentials db) of
              None \<Rightarrow> Inl NoCredential
            | Some c \<Rightarrow> Inr \<lparr>cd_cred = row_credential c, cd_id = cr_id c, cd_label = cr_label c,
                            cd_created_at = cr_created_at c, cd_last_used_at = cr_last_used_at c\<rparr>))"

section \<open>The credential of an install\<close>

definition install_credential_label :: string where "install_credential_label = ''install''"

definition install_persona :: "string \<Rightarrow> string" where "install_persona slug = ''app:'' @ slug"

definition install_actor :: "'z cred_db_scheme \<Rightarrow> uuid \<Rightarrow> uuid option" where
  "install_actor db i = map_option snd (List.find (\<lambda>p. fst p = i) (install_actors db))"

text \<open>
  \<open>short\<close> is the first eight characters of an id's text. The actor is bound only where the install still
  has none: \<open>won\<close> is the actor a concurrent staging bound in between, if one did.
\<close>

definition ensure_install_actor ::
  "(uuid \<Rightarrow> string) \<Rightarrow> 'z cred_db_scheme \<Rightarrow> uuid \<Rightarrow> credential \<Rightarrow> uuid \<Rightarrow> uuid option
   \<Rightarrow> 'z cred_db_scheme \<times> (store_error + uuid)" where
  "ensure_install_actor short db inst c new_id won =
     (case find_install db inst of
        None \<Rightarrow> (db, Inl NoRows)
      | Some i \<Rightarrow>
          (case install_actor db inst of
             Some a \<Rightarrow> (db, Inr a)
           | None \<Rightarrow>
               (case insert_actor db
                       \<lparr>a_id = new_id, a_kind = AiActor, a_principal_kind = o_kind (i_owner i), a_principal_id = o_id (i_owner i),
                        a_disabled_at = None\<rparr>
                       \<lparr>ai_id = new_id, ai_handle = ''app:'' @ i_slug i @ '':'' @ short new_id, ai_display_name = i_slug i @ '' (app)'',
                        ai_persona = Some (install_persona (i_slug i)), ai_created_by = Some (actor_id c)\<rparr> of
                  Inl r \<Rightarrow> (db, Inl (DbError ''create install actor'' r))
                | Inr db' \<Rightarrow>
                    (case won of
                       Some w \<Rightarrow> (db'\<lparr>install_actors := install_actors db' @ [(inst, w)]\<rparr>, Inr w)
                     | None \<Rightarrow>
                         if list_ex (\<lambda>p. snd p = new_id) (install_actors db')
                         then (db', Inl (DbError ''bind install actor'' UniqueViolation))
                         else (db'\<lparr>install_actors := install_actors db' @ [(inst, new_id)]\<rparr>, Inr new_id)))))"

definition issue_install_credential ::
  "(string \<Rightarrow> string) \<Rightarrow> (string \<Rightarrow> string) \<Rightarrow> 'z cred_db_scheme \<Rightarrow> uuid \<Rightarrow> string \<Rightarrow> uuid \<Rightarrow> time
   \<Rightarrow> 'z cred_db_scheme \<times> (store_error + string \<times> uuid)" where
  "issue_install_credential sha256_hex b64 db inst random new_id now =
     (case find_install db inst of
        None \<Rightarrow> (db, Inl NoRows)
      | Some i \<Rightarrow>
          if i_state i \<noteq> Active then (db, Inl (Other ''only an active install gets a credential''))
          else (case install_actor db inst of
                  None \<Rightarrow> (db, Inl (Other ''install has no actor''))
                | Some a \<Rightarrow>
                    (case issue_credential sha256_hex b64 db a (i_owner i)
                            \<lparr>actor_id = i_installed_by i, principal_kind = o_kind (i_owner i), principal_id = o_id (i_owner i)\<rparr>
                            install_credential_label None random new_id now of
                       (db', Inl e) \<Rightarrow> (db', Inl e)
                     | (db', Inr (token, i')) \<Rightarrow>
                         (db'\<lparr>credentials := update_rows (\<lambda>r. cr_id r = i') (\<lambda>r. r\<lparr>cr_install_id := Some inst\<rparr>) (credentials db')\<rparr>,
                          Inr (token, i')))))"

definition revoke_where :: "(cred_row \<Rightarrow> bool) \<Rightarrow> 'z cred_db_scheme \<Rightarrow> time \<Rightarrow> 'z cred_db_scheme \<times> nat" where
  "revoke_where P db now =
     (let hit = (\<lambda>r. P r \<and> cr_revoked_at r = None)
      in (db\<lparr>credentials := update_rows hit (\<lambda>r. r\<lparr>cr_revoked_at := Some now\<rparr>) (credentials db)\<rparr>,
          count_rows hit (credentials db)))"

definition revoke_install_credentials :: "'z cred_db_scheme \<Rightarrow> uuid \<Rightarrow> time \<Rightarrow> 'z cred_db_scheme \<times> nat" where
  "revoke_install_credentials db inst now = revoke_where (\<lambda>r. cr_install_id r = Some inst) db now"

definition revoke_all_install_credentials :: "'z cred_db_scheme \<Rightarrow> time \<Rightarrow> 'z cred_db_scheme \<times> nat" where
  "revoke_all_install_credentials db now = revoke_where (\<lambda>r. cr_install_id r \<noteq> None) db now"

definition install_of_actor :: "'z cred_db_scheme \<Rightarrow> uuid \<Rightarrow> uuid option" where
  "install_of_actor db act = map_option fst (List.find (\<lambda>p. snd p = act) (install_actors db))"

section \<open>The invariant\<close>

text \<open>A row says what its issuer was allowed to say: nobody acts for a principal that is not theirs.\<close>

definition pair_ok :: "'z core_db_scheme \<Rightarrow> uuid \<Rightarrow> owner \<Rightarrow> bool" where
  "pair_ok db act w =
     (case find_actor db act of
        None \<Rightarrow> False
      | Some a \<Rightarrow>
          if a_kind a = AiActor then a_principal_kind a = o_kind w \<and> a_principal_id a = o_id w
          else o_kind w = User \<and> o_id w = act \<or> o_kind w = Org \<and> is_member db (o_id w) act)"

definition issuer_ok :: "'z core_db_scheme \<Rightarrow> uuid \<Rightarrow> owner \<Rightarrow> bool" where
  "issuer_ok db act w \<longleftrightarrow> kind_of db act \<noteq> None \<and> kind_of db act \<noteq> Some AiActor \<and>
     (o_kind w = User \<and> o_id w = act \<or> o_kind w = Org \<and> is_admin db (o_id w) act)"

definition cred_row_ok :: "'z core_db_scheme \<Rightarrow> cred_row \<Rightarrow> bool" where
  "cred_row_ok db c \<longleftrightarrow> pair_ok db (cr_actor c) (cr_principal c) \<and> issuer_ok db (actor_id (cr_by c)) (cr_principal c)"

definition creds_wf :: "'z cred_db_scheme \<Rightarrow> bool" where
  "creds_wf db \<longleftrightarrow> distinct (map cr_id (credentials db)) \<and> distinct (map cr_token (credentials db)) \<and>
     list_all (cred_row_ok db) (credentials db) \<and>
     distinct (map fst (install_actors db)) \<and> distinct (map snd (install_actors db)) \<and>
     list_all (\<lambda>c. case cr_install_id c of None \<Rightarrow> True | Some i \<Rightarrow> install_actor db i = Some (cr_actor c)) (credentials db)"

text \<open>What a later row keeps of an earlier one.\<close>

definition same_cred :: "cred_row \<Rightarrow> cred_row \<Rightarrow> bool" where
  "same_cred c c' \<longleftrightarrow> cr_id c' = cr_id c \<and> cr_actor c' = cr_actor c \<and> cr_principal c' = cr_principal c \<and> cr_token c' = cr_token c \<and>
     cr_by c' = cr_by c \<and> cr_expires_at c' = cr_expires_at c \<and>
     (cr_revoked_at c \<noteq> None \<longrightarrow> cr_revoked_at c' = cr_revoked_at c) \<and> (cr_install_id c \<noteq> None \<longrightarrow> cr_install_id c' = cr_install_id c)"

definition creds_kept :: "'z cred_db_scheme \<Rightarrow> 'z cred_db_scheme \<Rightarrow> bool" where
  "creds_kept db db' \<longleftrightarrow> (\<forall>c \<in> set (credentials db). \<exists>c' \<in> set (credentials db'). same_cred c c')"

inductive cred_step :: "'z cred_db_scheme \<Rightarrow> 'z cred_db_scheme \<Rightarrow> bool" where
  issue: "cred_step db (fst (issue_credential sha b64 db act pr c label ex rnd new_id now))"
| bootstrap: "cred_step db (fst (ensure_bootstrap_credential sha db root token new_id now))"
| resolve: "cred_step db (fst (resolve_credential sha db token now touch))"
| ensure_actor: "case won of None \<Rightarrow> True | Some w \<Rightarrow> w \<notin> snd ` set (install_actors db)
    \<Longrightarrow> cred_step db (fst (ensure_install_actor short db inst c new_id won))"
| issue_install: "cred_step db (fst (issue_install_credential sha b64 db inst rnd new_id now))"
| revoke_install: "cred_step db (fst (revoke_install_credentials db inst now))"
| revoke_all: "cred_step db (fst (revoke_all_install_credentials db now))"

lemma same_cred_refl [simp]: "same_cred c c" by (simp add: same_cred_def)

lemma same_cred_trans: "same_cred a b \<Longrightarrow> same_cred b c \<Longrightarrow> same_cred a c"
  by (auto simp: same_cred_def)

lemma creds_kept_refl [simp]: "creds_kept db db" unfolding creds_kept_def using same_cred_refl by blast

lemma creds_kept_trans: "creds_kept a b \<Longrightarrow> creds_kept b c \<Longrightarrow> creds_kept a c"
  unfolding creds_kept_def by (meson same_cred_trans)

lemma cred_row_ok_cong:
  assumes "actors db' = actors db" "org_members db' = org_members db"
  shows "cred_row_ok db' = cred_row_ok db"
proof -
  have "find_actor db' = find_actor db" "is_member db' = is_member db" "is_admin db' = is_admin db"
    by (intro ext, rule directory_cong [OF assms])+
  then show ?thesis by (intro ext) (simp only: cred_row_ok_def pair_ok_def issuer_ok_def kind_of_def)
qed

lemma find_actor_append: "find_actor (db\<lparr>actors := actors db @ [a]\<rparr>) i =
    (case find_actor db i of Some b \<Rightarrow> Some b | None \<Rightarrow> if a_id a = i then Some a else None)"
  by (simp add: find_actor_def find_append split: option.split)

text \<open>An update of rows that keeps what the invariant reads.\<close>

lemma update_creds_ok:
  assumes wf: "creds_wf db" and same: "\<And>r. p r \<Longrightarrow> r \<in> set (credentials db) \<Longrightarrow> same_cred r (f r)"
    and inst: "\<And>r i. r \<in> set (credentials db) \<Longrightarrow> p r \<Longrightarrow> cr_install_id (f r) = Some i \<Longrightarrow>
      cr_install_id r = Some i \<or> install_actor db i = Some (cr_actor r)"
  shows "creds_wf (db\<lparr>credentials := update_rows p f (credentials db)\<rparr>) \<and>
    creds_kept db (db\<lparr>credentials := update_rows p f (credentials db)\<rparr>)"
proof
  let ?db = "db\<lparr>credentials := update_rows p f (credentials db)\<rparr>"
  have keys: "map cr_id (update_rows p f (credentials db)) = map cr_id (credentials db)"
    "map cr_token (update_rows p f (credentials db)) = map cr_token (credentials db)"
    using same by (auto simp: same_cred_def update_rows_def)
  have ok: "cred_row_ok ?db = cred_row_ok db" by (rule cred_row_ok_cong) simp_all
  have row: "cred_row_ok db (f r)" if "p r" "r \<in> set (credentials db)" for r
    using wf same [OF that] that(2) by (auto simp: creds_wf_def list_all_iff cred_row_ok_def same_cred_def)
  have ia: "install_actor ?db = install_actor db" by (intro ext) (simp add: install_actor_def)
  have i: "case cr_install_id (f r) of None \<Rightarrow> True | Some j \<Rightarrow> install_actor db j = Some (cr_actor (f r))"
    if "p r" "r \<in> set (credentials db)" for r
    using inst [OF that(2,1)] same [OF that] wf that(2)
    by (fastforce simp: creds_wf_def list_all_iff same_cred_def split: option.split)
  show "creds_wf ?db"
    using wf row i keys unfolding creds_wf_def ok ia by (auto simp: list_all_iff)
  show "creds_kept db ?db"
    unfolding creds_kept_def
  proof
    fix c assume "c \<in> set (credentials db)"
    then show "\<exists>c' \<in> set (credentials ?db). same_cred c c'"
      using same [of c] by (cases "p c") (auto intro: bexI [of _ "f c"] bexI [of _ c])
  qed
qed

lemma insert_credential_ok:
  assumes wf: "creds_wf db" and ins: "insert_credential db n = Inr db'" and none: "cr_install_id n = None"
  shows "creds_wf db' \<and> creds_kept db db' \<and> db' = db\<lparr>credentials := credentials db @ [n]\<rparr> \<and> cred_row_ok db n
    \<and> cr_id n \<notin> cr_id ` set (credentials db) \<and> cr_token n \<notin> cr_token ` set (credentials db)"
proof -
  have db': "db' = db\<lparr>credentials := credentials db @ [n]\<rparr>" and chk: "issue_check db n = None"
    and u: "cr_id n \<notin> cr_id ` set (credentials db)" "cr_token n \<notin> cr_token ` set (credentials db)"
    and fk: "find_actor db (cr_actor n) \<noteq> None" "find_actor db (actor_id (cr_by n)) \<noteq> None"
    using ins by (auto simp: insert_credential_def list_ex_iff split: option.split_asm if_split_asm)
  have n: "cred_row_ok db n"
    using chk fk by (auto simp: issue_check_def Let_def cred_row_ok_def pair_ok_def issuer_ok_def kind_of_def split: if_split_asm option.split_asm)
  have ok: "cred_row_ok db' = cred_row_ok db" unfolding db' by (rule cred_row_ok_cong) simp_all
  have ia: "install_actor db' = install_actor db" unfolding db' by (intro ext) (simp add: install_actor_def)
  have "creds_wf db'"
    using wf n u none unfolding creds_wf_def ok ia by (auto simp: db' list_all_iff)
  moreover have "creds_kept db db'" unfolding creds_kept_def db' using same_cred_refl by (auto intro!: bexI)
  ultimately show ?thesis using db' n u by simp
qed

lemma issue_credential_ok:
  assumes "creds_wf db" "issue_credential sha b64 db act pr c label ex rnd new_id now = (db', res)"
  shows "creds_wf db' \<and> creds_kept db db'"
    and "res = Inr (token, i) \<Longrightarrow> i = new_id \<and> token = b64 rnd \<and> new_id \<notin> cr_id ` set (credentials db) \<and>
      cred_row_ok db (last (credentials db')) \<and>
      db' = db\<lparr>credentials := credentials db @ [\<lparr>cr_id = new_id, cr_actor = act, cr_principal = pr, cr_token = sha token, cr_label = label, cr_by = c,
        cr_created_at = now, cr_expires_at = ex, cr_revoked_at = None, cr_last_used_at = None, cr_install_id = None\<rparr>]\<rparr> \<and>
      sha token \<notin> cr_token ` set (credentials db)"
proof -
  let ?n = "\<lparr>cr_id = new_id, cr_actor = act, cr_principal = pr, cr_token = sha (b64 rnd), cr_label = label, cr_by = c,
    cr_created_at = now, cr_expires_at = ex, cr_revoked_at = None, cr_last_used_at = None, cr_install_id = None\<rparr>"
  have *: "(db', res) = (case insert_credential db ?n of
      Inl r \<Rightarrow> (db, Inl (DbError ''issue credential'' r)) | Inr db' \<Rightarrow> (db', Inr (b64 rnd, new_id)))"
    using assms(2) by (simp add: issue_credential_def new_token_def Let_def hash_token_def)
  show "creds_wf db' \<and> creds_kept db db'"
    using * assms(1) insert_credential_ok [OF assms(1), of ?n] by (cases "insert_credential db ?n") auto
  show "res = Inr (token, i) \<Longrightarrow> i = new_id \<and> token = b64 rnd \<and> new_id \<notin> cr_id ` set (credentials db) \<and>
      cred_row_ok db (last (credentials db')) \<and>
      db' = db\<lparr>credentials := credentials db @ [\<lparr>cr_id = new_id, cr_actor = act, cr_principal = pr, cr_token = sha token, cr_label = label, cr_by = c,
        cr_created_at = now, cr_expires_at = ex, cr_revoked_at = None, cr_last_used_at = None, cr_install_id = None\<rparr>]\<rparr> \<and>
      sha token \<notin> cr_token ` set (credentials db)"
    using * insert_credential_ok [OF assms(1), of ?n] by (cases "insert_credential db ?n") simp_all
qed

lemma bootstrap_credential_ok:
  assumes "creds_wf db"
  shows "creds_wf (fst (ensure_bootstrap_credential sha db root token new_id now)) \<and>
    creds_kept db (fst (ensure_bootstrap_credential sha db root token new_id now))"
  using assms insert_credential_ok [OF assms]
  by (auto simp: ensure_bootstrap_credential_def split: sum.split option.split)

lemma resolve_credential_ok:
  assumes "creds_wf db"
  shows "creds_wf (fst (resolve_credential sha db token now touch)) \<and> creds_kept db (fst (resolve_credential sha db token now touch))"
proof -
  have "creds_wf (db\<lparr>credentials := update_rows (\<lambda>r. cr_token r = h) (\<lambda>r. r\<lparr>cr_last_used_at := Some now\<rparr>) (credentials db)\<rparr>) \<and>
    creds_kept db (db\<lparr>credentials := update_rows (\<lambda>r. cr_token r = h) (\<lambda>r. r\<lparr>cr_last_used_at := Some now\<rparr>) (credentials db)\<rparr>)" for h
    by (rule update_creds_ok [OF assms]) (simp_all add: same_cred_def)
  then show ?thesis using assms by (simp add: resolve_credential_def Let_def split: option.split)
qed

lemma revoke_where_ok:
  assumes "creds_wf db"
  shows "creds_wf (fst (revoke_where P db now)) \<and> creds_kept db (fst (revoke_where P db now))"
  unfolding revoke_where_def Let_def fst_conv by (rule update_creds_ok [OF assms]) (auto simp: same_cred_def)

lemma insert_actor_ok:
  assumes wf: "creds_wf db" and ins: "insert_actor db a n = Inr db'"
  shows "creds_wf db' \<and> credentials db' = credentials db \<and> install_actors db' = install_actors db"
proof -
  have db': "db' = db\<lparr>actors := actors db @ [a], actor_infos := actor_infos db @ [n]\<rparr>"
    using ins by (auto simp: insert_actor_def Let_def split: option.split_asm if_split_asm)
  have f: "find_actor db' i = Some b" if "find_actor db i = Some b" for i b
    using that by (simp add: db' find_actor_def find_append)
  have m: "is_member db' = is_member db" "is_admin db' = is_admin db"
    by (intro ext, simp add: db' is_member_def is_admin_def)+
  have "cred_row_ok db' c" if "cred_row_ok db c" for c
    using that f unfolding cred_row_ok_def pair_ok_def issuer_ok_def kind_of_def m
    by (auto split: option.split_asm)
  moreover have ia: "install_actor db' = install_actor db" by (intro ext) (simp add: db' install_actor_def)
  moreover have k: "credentials db' = credentials db" "install_actors db' = install_actors db" by (simp_all add: db')
  ultimately have "creds_wf db'" using wf unfolding creds_wf_def list_all_iff k ia by blast
  then show ?thesis using k by simp
qed

lemma bind_actor_ok:
  assumes wf: "creds_wf db" and new: "install_actor db inst = None" "w \<notin> snd ` set (install_actors db)"
  shows "creds_wf (db\<lparr>install_actors := install_actors db @ [(inst, w)]\<rparr>)"
proof -
  let ?db = "db\<lparr>install_actors := install_actors db @ [(inst, w)]\<rparr>"
  have n: "inst \<notin> fst ` set (install_actors db)" using new(1) by (auto simp: install_actor_def find_None_iff)
  have i: "install_actor ?db i = Some a" if "install_actor db i = Some a" for i a
    using that by (auto simp: install_actor_def find_append split: option.split_asm)
  have "cred_row_ok ?db = cred_row_ok db" by (rule cred_row_ok_cong) simp_all
  then show ?thesis using wf n new(2) i by (auto simp: creds_wf_def list_all_iff split: option.split_asm option.split)
qed

lemma ensure_actor_ok:
  assumes wf: "creds_wf db" and w: "case won of None \<Rightarrow> True | Some w \<Rightarrow> w \<notin> snd ` set (install_actors db)"
  shows "creds_wf (fst (ensure_install_actor short db inst c new_id won)) \<and>
    creds_kept db (fst (ensure_install_actor short db inst c new_id won))"
proof (cases "find_install db inst = None \<or> install_actor db inst \<noteq> None")
  case True
  then show ?thesis using wf by (auto simp: ensure_install_actor_def split: option.split)
next
  case False
  then obtain i where i: "find_install db inst = Some i" "install_actor db inst = None" by auto
  show ?thesis
  proof (cases "insert_actor db
      \<lparr>a_id = new_id, a_kind = AiActor, a_principal_kind = o_kind (i_owner i), a_principal_id = o_id (i_owner i), a_disabled_at = None\<rparr>
      \<lparr>ai_id = new_id, ai_handle = ''app:'' @ i_slug i @ '':'' @ short new_id, ai_display_name = i_slug i @ '' (app)'',
        ai_persona = Some (install_persona (i_slug i)), ai_created_by = Some (actor_id c)\<rparr>")
    case (Inl r)
    then show ?thesis using wf i unfolding ensure_install_actor_def by simp
  next
    case (Inr db')
    note ok = insert_actor_ok [OF wf Inr]
    then have n: "install_actor db' inst = None" using i(2) by (simp add: install_actor_def)
    have k: "creds_kept db db2" if "credentials db2 = credentials db" for db2
      unfolding creds_kept_def that using same_cred_refl by blast
    show ?thesis
    proof (cases won)
      case (Some w0)
      then show ?thesis
        using i Inr ok bind_actor_ok [OF _ n, of w0] w k unfolding ensure_install_actor_def by simp
    next
      case None
      then show ?thesis
        using i Inr ok bind_actor_ok [OF _ n, of new_id] k unfolding ensure_install_actor_def by (auto simp: list_ex_iff)
    qed
  qed
qed

lemma issue_install_ok:
  assumes wf: "creds_wf db" and iss: "issue_install_credential sha b64 db inst rnd new_id now = (db', res)"
  shows "creds_wf db' \<and> creds_kept db db'"
    and "res = Inr (token, i) \<Longrightarrow> \<exists>r act. install_actor db inst = Some act \<and> find_install db inst = Some r \<and> i_state r = Active \<and>
      (\<exists>c \<in> set (credentials db'). cr_token c = sha token \<and> cr_actor c = act \<and> cr_principal c = i_owner r \<and> cr_revoked_at c = None \<and>
         cr_expires_at c = None \<and> cr_install_id c = Some inst) \<and>
      actors db' = actors db \<and> install_actors db' = install_actors db"
proof -
  have "(creds_wf db' \<and> creds_kept db db') \<and> (res = Inr (token, i) \<longrightarrow> (\<exists>r act. install_actor db inst = Some act \<and>
      find_install db inst = Some r \<and> i_state r = Active \<and>
      (\<exists>c \<in> set (credentials db'). cr_token c = sha token \<and> cr_actor c = act \<and> cr_principal c = i_owner r \<and> cr_revoked_at c = None \<and>
         cr_expires_at c = None \<and> cr_install_id c = Some inst) \<and>
      actors db' = actors db \<and> install_actors db' = install_actors db))"
  proof (cases "\<exists>r act. find_install db inst = Some r \<and> i_state r = Active \<and> install_actor db inst = Some act")
    case False
    then have "db' = db \<and> isl res" using iss by (auto simp: issue_install_credential_def split: option.split_asm if_split_asm)
    then show ?thesis using wf by auto
  next
    case True
    then obtain r act where r: "find_install db inst = Some r" "i_state r = Active" "install_actor db inst = Some act" by blast
    let ?by = "\<lparr>actor_id = i_installed_by r, principal_kind = o_kind (i_owner r), principal_id = o_id (i_owner r)\<rparr>"
    obtain db1 res1 where i1: "issue_credential sha b64 db act (i_owner r) ?by install_credential_label None rnd new_id now = (db1, res1)"
      by fastforce
    note ok1 = issue_credential_ok [OF wf i1]
    show ?thesis
    proof (cases res1)
      case (Inl e)
      then have "db' = db1" "res = Inl e" using iss r i1 by (simp_all add: issue_install_credential_def)
      then show ?thesis using ok1(1) by simp
    next
      case (Inr ti)
      obtain t j where ti: "ti = (t, j)" by fastforce
      note n = ok1(2) [OF Inr [unfolded ti]]
      let ?p = "\<lambda>c. cr_id c = new_id" and ?f = "\<lambda>c. c\<lparr>cr_install_id := Some inst\<rparr>"
      have res: "db' = db1\<lparr>credentials := update_rows ?p ?f (credentials db1)\<rparr>" "res = Inr (t, new_id)"
        using iss r i1 Inr ti n by (simp_all add: issue_install_credential_def)
      have new: "cr_install_id c = None \<and> cr_actor c = act" if "?p c" "c \<in> set (credentials db1)" for c
      proof -
        define m where "m = last (credentials db1)"
        have m: "credentials db1 = credentials db @ [m]" "cr_install_id m = None" "cr_actor m = act" using n by (simp_all add: m_def)
        then have "c = m" using that n by auto
        then show ?thesis using m by simp
      qed
      have "creds_wf db' \<and> creds_kept db1 db'"
        unfolding res(1) by (rule update_creds_ok) (use ok1(1) new n r(3) in \<open>auto simp: same_cred_def install_actor_def\<close>)
      moreover have "\<exists>c \<in> set (credentials db'). cr_token c = sha t \<and> cr_actor c = act \<and> cr_principal c = i_owner r \<and>
          cr_revoked_at c = None \<and> cr_expires_at c = None \<and> cr_install_id c = Some inst"
        using n unfolding res(1) by (simp add: update_rows_def)
      moreover have "actors db' = actors db \<and> install_actors db' = install_actors db" using n unfolding res(1) by simp
      ultimately show ?thesis using r ok1(1) creds_kept_trans res(2) by auto
    qed
  qed
  then show "creds_wf db' \<and> creds_kept db db'"
    and "res = Inr (token, i) \<Longrightarrow> \<exists>r act. install_actor db inst = Some act \<and> find_install db inst = Some r \<and> i_state r = Active \<and>
      (\<exists>c \<in> set (credentials db'). cr_token c = sha token \<and> cr_actor c = act \<and> cr_principal c = i_owner r \<and> cr_revoked_at c = None \<and>
         cr_expires_at c = None \<and> cr_install_id c = Some inst) \<and>
      actors db' = actors db \<and> install_actors db' = install_actors db" by blast+
qed

lemma cred_step_ok: "cred_step db db' \<Longrightarrow> creds_wf db \<Longrightarrow> creds_wf db' \<and> creds_kept db db'"
proof (induction rule: cred_step.induct)
  case (issue db sha b64 act pr c label ex rnd new_id now)
  then show ?case using issue_credential_ok(1) by (metis prod.collapse)
next
  case (issue_install db sha b64 inst rnd new_id now)
  then show ?case using issue_install_ok(1) by (metis prod.collapse)
qed (simp_all add: bootstrap_credential_ok resolve_credential_ok ensure_actor_ok revoke_install_credentials_def
    revoke_all_install_credentials_def revoke_where_ok)

lemma cred_steps_ok: "cred_step\<^sup>*\<^sup>* db db' \<Longrightarrow> creds_wf db \<Longrightarrow> creds_wf db' \<and> creds_kept db db'"
  by (induction rule: rtranclp_induct) (auto dest: cred_step_ok creds_kept_trans)

lemma same_token:
  assumes "creds_wf db" "c \<in> set (credentials db)" "d \<in> set (credentials db)" "cr_token c = cr_token d"
  shows "c = d"
  using assms by (auto simp: creds_wf_def distinct_map inj_on_def)

lemma dead_token:
  assumes "creds_wf db" "c \<in> set (credentials db)" "cr_token c = sha token" "cr_revoked_at c \<noteq> None"
  shows "snd (resolve_credential sha db token now touch) = Inl NoCredential"
proof -
  have "\<not> cred_live db (sha token) now d" if "d \<in> set (credentials db)" for d
    using same_token [OF assms(1) assms(2) that] assms(3,4) by (auto simp: cred_live_def)
  then have "List.find (cred_live db (sha token) now) (credentials db) = None" by (auto simp: find_None_iff)
  then show ?thesis by (simp add: resolve_credential_def Let_def hash_token_def)
qed

section \<open>What holds of credentials\<close>

text \<open>
  C20: A revoked token stays dead. Whatever is issued, resolved, bound or revoked afterwards, in any order, the
  rows of the credentials table only ever gain: no row changes who it is for, who issued it, its token or its
  expiry, a revoked one stays revoked, ids and tokens stay unique, and every row still names a pair its
  issuer could give. So once the credentials of an install are revoked, none of their tokens resolves again.
\<close>

theorem revoked_token_stays_dead:
  assumes "creds_wf db" "c \<in> set (credentials db)" "cr_install_id c = Some inst"
    and "revoke_install_credentials db inst now = (db1, n)" "cred_step\<^sup>*\<^sup>* db1 db2"
  shows "creds_wf db2 \<and> creds_kept db db2 \<and>
    (sha256_hex token = cr_token c \<longrightarrow> snd (resolve_credential sha256_hex db2 token later touch) = Inl NoCredential)"
proof -
  have db1: "db1 = fst (revoke_where (\<lambda>r. cr_install_id r = Some inst) db now)"
    using assms(4) by (simp add: revoke_install_credentials_def revoke_where_def Let_def)
  then have ok1: "creds_wf db1" "creds_kept db db1" using revoke_where_ok [OF assms(1)] by auto
  have ok2: "creds_wf db2" "creds_kept db1 db2" using cred_steps_ok [OF assms(5) ok1(1)] by auto
  have "\<exists>c1 \<in> set (credentials db1). cr_token c1 = cr_token c \<and> cr_revoked_at c1 \<noteq> None"
  proof (cases "cr_revoked_at c")
    case None
    then show ?thesis using assms(2,3) unfolding db1 revoke_where_def Let_def
      by (intro bexI [of _ "c\<lparr>cr_revoked_at := Some now\<rparr>"]) auto
  next
    case (Some t)
    then show ?thesis using assms(2) unfolding db1 revoke_where_def Let_def by (intro bexI [of _ c]) auto
  qed
  then obtain c2 where "c2 \<in> set (credentials db2)" "cr_token c2 = cr_token c" "cr_revoked_at c2 \<noteq> None"
    using ok2(2) unfolding creds_kept_def same_cred_def by (metis not_None_eq)
  then show ?thesis using ok2 ok1(2) creds_kept_trans dead_token [OF ok2(1), of c2 sha256_hex token later touch] by auto
qed

text \<open>
  What a token resolves to. It is the pair of the one row that carries the token's digest, not revoked and
  not expired, of an actor that is not disabled; that actor, unless it is an organisation's own, can act for
  the principal, an AI only for the one it is bound to, and no AI issued it. In every other case the
  answer is the one error that says nothing of the reason.
\<close>

theorem resolved_credential_can_act:
  assumes "creds_wf db"
  shows "case snd (resolve_credential sha256_hex db token now touch) of
      Inl e \<Rightarrow> e = NoCredential \<and> (token = [] \<or> (\<forall>c \<in> set (credentials db). \<not> cred_live db (sha256_hex token) now c))
    | Inr cred \<Rightarrow> (\<exists>c \<in> set (credentials db). cred_live db (sha256_hex token) now c \<and> cred = row_credential c \<and>
        kind_of db (actor_id (cr_by c)) \<noteq> Some AiActor \<and>
        (kind_of db (actor_id cred) = Some OrgActor \<or>
         acting_kind db (actor_id cred) (principal_kind cred) (principal_id cred) = kind_of db (actor_id cred)))"
proof (cases "List.find (cred_live db (sha256_hex token) now) (credentials db)")
  case None
  then have "\<forall>c \<in> set (credentials db). \<not> cred_live db (sha256_hex token) now c" by (simp add: find_eq_None)
  with None show ?thesis by (simp add: resolve_credential_def Let_def hash_token_def)
next
  case (Some c)
  then have c: "c \<in> set (credentials db)" "cred_live db (sha256_hex token) now c" by (auto dest: find_SomeD)
  then have ok: "cred_row_ok db c" using assms by (auto simp: creds_wf_def list_all_iff)
  obtain a where a: "find_actor db (cr_actor c) = Some a" "a_disabled_at a = None"
    using c(2) by (auto simp: cred_live_def split: option.split_asm)
  have "kind_of db (cr_actor c) = Some OrgActor \<or>
    acting_kind db (cr_actor c) (o_kind (cr_principal c)) (o_id (cr_principal c)) = kind_of db (cr_actor c)"
    using ok a by (cases "a_kind a") (auto simp: cred_row_ok_def pair_ok_def kind_of_def acting_kind_def)
  then show ?thesis
    using Some c ok by (auto simp: resolve_credential_def Let_def hash_token_def row_credential_def cred_row_ok_def issuer_ok_def)
qed

text \<open>
  The credential a container starts with is the install's. It is given to an active install only; its token
  resolves, as long as the actor is not disabled, to the install's own actor acting for the install's owner,
  and from that actor the install is found again, and no other.
\<close>

theorem install_credential_names_the_install:
  assumes "creds_wf db" "issue_install_credential sha256_hex b64 db inst rnd new_id now = (db', Inr (token, i))" "token \<noteq> []"
  shows "\<exists>r act. find_install db inst = Some r \<and> i_state r = Active \<and> install_actor db inst = Some act \<and>
    install_of_actor db' act = Some inst \<and>
    (case find_actor db act of None \<Rightarrow> False | Some a \<Rightarrow> a_disabled_at a = None \<longrightarrow>
       snd (resolve_credential sha256_hex db' token later touch) =
         Inr \<lparr>actor_id = act, principal_kind = o_kind (i_owner r), principal_id = o_id (i_owner r)\<rparr>)"
proof -
  note ok = issue_install_ok(1) [OF assms(1,2)]
  obtain r act c where r: "install_actor db inst = Some act" "find_install db inst = Some r" "i_state r = Active"
    and c: "c \<in> set (credentials db')" "cr_token c = sha256_hex token" "cr_actor c = act" "cr_principal c = i_owner r"
      "cr_revoked_at c = None" "cr_expires_at c = None" "cr_install_id c = Some inst"
    and same: "actors db' = actors db" "install_actors db' = install_actors db"
    using issue_install_ok(2) [OF assms(1,2) refl] by blast
  have fa: "find_actor db' = find_actor db" by (intro ext) (simp add: find_actor_def same)
  have "cred_row_ok db' c" using ok c(1) by (auto simp: creds_wf_def list_all_iff)
  then obtain a where a: "find_actor db act = Some a"
    unfolding fa [symmetric] using c(3) by (auto simp: cred_row_ok_def pair_ok_def split: option.split_asm)
  have ia: "install_of_actor db' act = Some inst"
  proof -
    obtain p where p: "p \<in> set (install_actors db)" "p = (inst, act)"
      using r(1) by (auto simp: install_actor_def dest!: find_SomeD)
    have d: "distinct (map snd (install_actors db))" using assms(1) by (simp add: creds_wf_def)
    have "List.find (\<lambda>q. snd q = act) (install_actors db) = Some p"
      by (rule find_unique_key [of snd, OF d p(1)]) (simp add: p(2))
    then show ?thesis by (simp add: install_of_actor_def same p(2))
  qed
  have "snd (resolve_credential sha256_hex db' token later touch) =
      Inr \<lparr>actor_id = act, principal_kind = o_kind (i_owner r), principal_id = o_id (i_owner r)\<rparr>" if "a_disabled_at a = None"
  proof -
    have live: "cred_live db' (sha256_hex token) later c" using c a that by (simp add: cred_live_def fa)
    obtain d where d: "List.find (cred_live db' (sha256_hex token) later) (credentials db') = Some d"
      using live c(1) by (metis find_eq_None not_None_eq)
    then have "d \<in> set (credentials db')" "cr_token d = sha256_hex token" by (auto dest!: find_SomeD simp: cred_live_def)
    then have "d = c" using same_token [of db' d c] ok c by simp
    then show ?thesis using d assms(3) c by (simp add: resolve_credential_def Let_def hash_token_def row_credential_def)
  qed
  then show ?thesis using r ia a by (intro exI [of _ r] exI [of _ act]) simp
qed

section \<open>A store with one install\<close>

definition sample_digest :: "string \<Rightarrow> string" where "sample_digest t = replicate 64 CHR ''a''"

definition sample_install :: install where
  "sample_install = \<lparr>i_id = 5, i_build_id = 2, i_slug = ''notes'', i_owner = owner_user 1, i_installed_by = 1, i_activated_by = Some 1,
     i_authority = None, i_schema_name = ''s'', i_state = Active, i_created_at = 0\<rparr>"

definition cred_db0 :: cred_db where
  "cred_db0 = \<lparr>actors = [\<lparr>a_id = 1, a_kind = HumanActor, a_principal_kind = User, a_principal_id = 1, a_disabled_at = None\<rparr>,
       \<lparr>a_id = 9, a_kind = AiActor, a_principal_kind = User, a_principal_id = 1, a_disabled_at = None\<rparr>],
     org_members = [], app_builds = [], installs = [sample_install], install_authorities = [], entities = [], conversations = [], grants = [],
     actor_infos = [], credentials = [], install_actors = [(5, 9)]\<rparr>"

definition cred_db1 :: cred_db where
  "cred_db1 = fst (issue_install_credential sample_digest id cred_db0 5 ''tok'' 7 100)"

lemma cred_db0_wf: "creds_wf cred_db0" by code_simp

lemma cred_db1_issue: "issue_install_credential sample_digest id cred_db0 5 ''tok'' 7 100 = (cred_db1, Inr (''tok'', 7))"
proof -
  have "snd (issue_install_credential sample_digest id cred_db0 5 ''tok'' 7 100) = Inr (''tok'', 7)" by code_simp
  then show ?thesis unfolding cred_db1_def by (simp add: prod_eq_iff)
qed

lemma cred_db1_wf: "creds_wf cred_db1"
  using issue_install_ok(1) [OF cred_db0_wf cred_db1_issue] by simp

theorem install_credential_names_the_install_witness:
  "snd (resolve_credential sample_digest cred_db1 ''tok'' 200 True) = Inr \<lparr>actor_id = 9, principal_kind = User, principal_id = 1\<rparr> \<and>
   install_of_actor cred_db1 9 = Some 5"
proof -
  have "install_actor cred_db0 5 = Some 9" "find_install cred_db0 5 = Some sample_install"
    "find_actor cred_db0 9 = Some \<lparr>a_id = 9, a_kind = AiActor, a_principal_kind = User, a_principal_id = 1, a_disabled_at = None\<rparr>"
    "i_owner sample_install = owner_user 1" by code_simp+
  with install_credential_names_the_install [OF cred_db0_wf cred_db1_issue, of 200 True] show ?thesis
    by (auto simp: owner_user_def)
qed

theorem resolved_credential_can_act_witness:
  "\<exists>c \<in> set (credentials cred_db1). cred_live cred_db1 (sample_digest ''tok'') 200 c \<and> kind_of cred_db1 (actor_id (cr_by c)) \<noteq> Some AiActor"
proof -
  have "snd (resolve_credential sample_digest cred_db1 ''tok'' 200 True) = Inr \<lparr>actor_id = 9, principal_kind = User, principal_id = 1\<rparr>" by code_simp
  with resolved_credential_can_act [OF cred_db1_wf, where sha256_hex = sample_digest and token = "''tok''" and now = 200 and touch = True] show ?thesis by auto
qed

theorem revoked_token_stays_dead_witness:
  "snd (resolve_credential sample_digest cred_db1 ''tok'' 200 True) \<noteq> Inl NoCredential \<and>
   snd (resolve_credential sample_digest (fst (revoke_install_credentials cred_db1 5 150)) ''tok'' 200 True) = Inl NoCredential"
proof -
  let ?c = "hd (credentials cred_db1)"
  have c: "?c \<in> set (credentials cred_db1)" "cr_install_id ?c = Some 5" "sample_digest ''tok'' = cr_token ?c" by code_simp+
  have "snd (resolve_credential sample_digest cred_db1 ''tok'' 200 True) \<noteq> Inl NoCredential" by code_simp
  with revoked_token_stays_dead [OF cred_db1_wf c(1,2) surjective_pairing rtranclp.rtrancl_refl,
    where sha256_hex = sample_digest and token = "''tok''" and now = 150 and later = 200 and touch = True] c(3)
  show ?thesis by simp
qed

end
