(* ===== verification/Hive_Httpauth.thy ===== *)
theory Hive_Httpauth
  imports Hive_Credentials
begin

text \<open>
  From a request to a credential (\<open>crates/hive-httpauth\<close>) and the handlers about credentials
  (\<open>crates/hive-httpapi/src/credentials.rs\<close>, \<open>session.rs\<close>): where the token is read, the one refusal, who am
  I, enrolling a device, the browser's session cookie. Text is bytes; a header is a name in lower case with
  its bytes. A computation that panics is None. The parsing of the enrolment's JSON body is a parameter.
\<close>

section \<open>Reading the token\<close>

type_synonym headers = "(string \<times> string) list"

definition session_cookie :: string where "session_cookie = ''hive_session''"

text \<open>\<open>HeaderValue::to_str\<close>: visible ASCII and tabs only.\<close>

definition hdr_to_str :: "string \<Rightarrow> string option" where
  "hdr_to_str v = (if list_all (\<lambda>c. 32 \<le> (of_char c :: nat) \<and> (of_char c :: nat) < 127 \<or> (of_char c :: nat) = 9) v then Some v else None)"

definition hdr_get :: "headers \<Rightarrow> string \<Rightarrow> string option" where
  "hdr_get hs n = Option.bind (map_option snd (List.find (\<lambda>h. fst h = n) hs)) hdr_to_str"

fun cookie_in :: "string \<Rightarrow> string list \<Rightarrow> string option" where
  "cookie_in n [] = None"
| "cookie_in n (p # ps) =
     (case split_once CHR ''='' (trim p) of
        Some (k, v) \<Rightarrow> if trim k = n then Some (trim v) else cookie_in n ps
      | None \<Rightarrow> cookie_in n ps)"

fun cookie :: "headers \<Rightarrow> string \<Rightarrow> string option" where
  "cookie [] n = None"
| "cookie (h # hs) n =
     (if fst h \<noteq> ''cookie'' then cookie hs n
      else (case hdr_to_str (snd h) of
              None \<Rightarrow> cookie hs n
            | Some s \<Rightarrow> (case cookie_in n (split_on CHR '';'' s) of Some v \<Rightarrow> Some v | None \<Rightarrow> cookie hs n)))"

text \<open>
  \<open>u8::from_str_radix(_, 16)\<close> of two bytes: two digits, or a plus sign and one. The slice of two bytes
  panics when it ends inside a character.
\<close>

definition hex_digit_value :: "char \<Rightarrow> nat option" where
  "hex_digit_value c =
     (let n = (of_char c :: nat)
      in if 48 \<le> n \<and> n \<le> 57 then Some (n - 48) else if 97 \<le> n \<and> n \<le> 102 then Some (n - 87)
         else if 65 \<le> n \<and> n \<le> 70 then Some (n - 55) else None)"

definition hex_byte :: "char \<Rightarrow> char \<Rightarrow> char option" where
  "hex_byte a b =
     (if a = CHR ''+'' then map_option char_of (hex_digit_value b)
      else (case (hex_digit_value a, hex_digit_value b) of
              (Some x, Some y) \<Rightarrow> Some (char_of (16 * x + y))
            | _ \<Rightarrow> None))"

definition continuation :: "char \<Rightarrow> bool" where
  "continuation c \<longleftrightarrow> 128 \<le> (of_char c :: nat) \<and> (of_char c :: nat) < 192"

fun percent_bytes :: "string \<Rightarrow> string option" where
  "percent_bytes [] = Some []"
| "percent_bytes (c # s) =
     (if c = CHR ''%'' then
        (case s of
           a # b # rest \<Rightarrow>
             (if rest \<noteq> [] \<and> continuation (hd rest) then None
              else (case hex_byte a b of
                      Some x \<Rightarrow> map_option (Cons x) (percent_bytes rest)
                    | None \<Rightarrow> map_option (Cons CHR ''%'') (percent_bytes s)))
         | _ \<Rightarrow> map_option (Cons CHR ''%'') (percent_bytes s))
      else map_option (Cons (if c = CHR ''+'' then CHR '' '' else c)) (percent_bytes s))"

text \<open>
  \<open>String::from_utf8_lossy\<close>: the length of the first character, or of the longest start of one that is not
  completed, which is replaced.
\<close>

definition between :: "char \<Rightarrow> nat \<Rightarrow> nat \<Rightarrow> bool" where
  "between c lo hi \<longleftrightarrow> lo \<le> (of_char c :: nat) \<and> (of_char c :: nat) \<le> hi"

definition second_byte :: "nat \<Rightarrow> nat \<times> nat" where
  "second_byte b = (if b = 224 then (160, 191) else if b = 237 then (128, 159) else if b = 240 then (144, 191)
     else if b = 244 then (128, 143) else (128, 191))"

definition char_width :: "nat \<Rightarrow> nat" where
  "char_width b = (if b < 128 then 1 else if b < 194 then 0 else if b < 224 then 2 else if b < 240 then 3 else if b < 245 then 4 else 0)"

definition utf8_step :: "string \<Rightarrow> nat \<times> bool" where
  "utf8_step s =
     (let b = (of_char (hd s) :: nat); w = char_width b;
          good = (\<lambda>i. i < length s \<and> (if i = 1 then between (s ! 1) (fst (second_byte b)) (snd (second_byte b)) else continuation (s ! i)));
          n = 1 + length (takeWhile good [1 ..< w])
      in if w = 0 then (1, False) else (n, n = w))"

fun utf8_lossy :: "string \<Rightarrow> string" where
  "utf8_lossy [] = []"
| "utf8_lossy (c # s) =
     (case utf8_step (c # s) of
        (n, ok) \<Rightarrow> (if ok then c # take (n - 1) s else [char_of (239 :: nat), char_of (191 :: nat), char_of (189 :: nat)])
          @ utf8_lossy (drop (n - 1) s))"

definition percent_decode :: "string \<Rightarrow> string option" where
  "percent_decode s = map_option utf8_lossy (percent_bytes s)"

fun query_param_in :: "string list \<Rightarrow> string \<Rightarrow> string option option" where
  "query_param_in [] n = Some None"
| "query_param_in (p # ps) n =
     (let (k, v) = (case split_once CHR ''='' p of Some kv \<Rightarrow> kv | None \<Rightarrow> (p, []))
      in case percent_decode k of
           None \<Rightarrow> None
         | Some k' \<Rightarrow> if k' = n then map_option Some (percent_decode v) else query_param_in ps n)"

definition query_param :: "string \<Rightarrow> string \<Rightarrow> string option option" where
  "query_param query n = query_param_in (split_on CHR ''&'' query) n"

definition bearer :: "headers \<Rightarrow> string option" where
  "bearer hs =
     (case Option.bind (hdr_get hs ''authorization'') (strip_prefix ''Bearer '') of
        None \<Rightarrow> None
      | Some t \<Rightarrow> if trim t = [] then None else Some (trim t))"

definition token :: "headers \<Rightarrow> string option \<Rightarrow> string option option" where
  "token hs query =
     (case bearer hs of
        Some t \<Rightarrow> Some (Some t)
      | None \<Rightarrow>
          (case cookie hs session_cookie of
             Some (c # cs) \<Rightarrow> Some (Some (c # cs))
           | _ \<Rightarrow>
               (case query of
                  None \<Rightarrow> Some None
                | Some q \<Rightarrow> map_option (\<lambda>t. if t = Some [] then None else t) (query_param q ''access_token''))))"

section \<open>Replies\<close>

datatype reply_body =
    Empty
  | JsonText string
  | Whoami string actor_view owner credential_detail
  | Enrolled string uuid uuid string

record reply =
  rp_status :: nat
  rp_headers :: headers
  rp_body :: reply_body

definition json_type :: "string \<times> string" where
  "json_type = (''content-type'', ''application/json'')"

definition error_text :: "string \<Rightarrow> string" where
  "error_text code = ''{'' @ [CHR 0x22] @ ''error'' @ [CHR 0x22, CHR '':'', CHR 0x22] @ code @ [CHR 0x22] @ ''}'' @ [CHR 0x0A]"

definition unauthorized :: reply where
  "unauthorized = \<lparr>rp_status = 401, rp_headers = [json_type], rp_body = JsonText (error_text ''unauthorized'')\<rparr>"

definition http_json :: "nat \<Rightarrow> reply_body \<Rightarrow> reply" where
  "http_json st b = \<lparr>rp_status = st, rp_headers = [json_type], rp_body = b\<rparr>"

definition http_fail :: "nat \<Rightarrow> string \<Rightarrow> reply" where
  "http_fail st code = http_json st (JsonText (error_text code))"

section \<open>Authentication\<close>

definition auth_resolve ::
  "(string \<Rightarrow> string) \<Rightarrow> 'z cred_db_scheme \<Rightarrow> headers \<Rightarrow> string option \<Rightarrow> time \<Rightarrow> bool
   \<Rightarrow> ('z cred_db_scheme \<times> (store_error + credential)) option" where
  "auth_resolve sha256_hex db hs query now touch =
     (case token hs query of
        None \<Rightarrow> None
      | Some None \<Rightarrow> Some (db, Inl NoCredential)
      | Some (Some t) \<Rightarrow> Some (resolve_credential sha256_hex db t now touch))"

text \<open>The extractor in front of every handler: a credential or the refusal.\<close>

definition authed ::
  "(string \<Rightarrow> string) \<Rightarrow> 'z cred_db_scheme \<Rightarrow> headers \<Rightarrow> string option \<Rightarrow> time \<Rightarrow> bool
   \<Rightarrow> ('z cred_db_scheme \<times> (reply + credential)) option" where
  "authed sha256_hex db hs query now touch =
     map_option (\<lambda>(db', r). (db', case r of Inl _ \<Rightarrow> Inl unauthorized | Inr c \<Rightarrow> Inr c))
       (auth_resolve sha256_hex db hs query now touch)"

section \<open>Handlers\<close>

text \<open>\<open>db2\<close> is the store when the row is read again: it may have changed since the credential was resolved.\<close>

definition whoami ::
  "(string \<Rightarrow> string) \<Rightarrow> string \<Rightarrow> 'z cred_db_scheme \<Rightarrow> credential \<Rightarrow> headers \<Rightarrow> string option \<Rightarrow> time \<Rightarrow> reply option" where
  "whoami sha256_hex version db2 cred hs query now =
     (case actor_by_id db2 (actor_id cred) of
        Inl _ \<Rightarrow> Some (http_fail 500 ''internal'')
      | Inr a \<Rightarrow>
          (case token hs query of
             None \<Rightarrow> None
           | Some t \<Rightarrow>
               (case credential_detail_by_token sha256_hex db2 (case t of None \<Rightarrow> [] | Some x \<Rightarrow> x) now of
                  Inl NoCredential \<Rightarrow> Some unauthorized
                | Inl _ \<Rightarrow> Some (http_fail 500 ''internal'')
                | Inr d \<Rightarrow> Some (http_json 200 (Whoami version a (owner_of cred) d)))))"

definition max_enroll_body :: nat where "max_enroll_body = 4096"
definition max_enroll_label :: nat where "max_enroll_label = 200"

definition is_constraint :: "store_error \<Rightarrow> bool" where
  "is_constraint e = (case e of DbError _ r \<Rightarrow> (case r of DecodeError _ \<Rightarrow> False | _ \<Rightarrow> True) | _ \<Rightarrow> False)"

definition issue_failure :: "store_error \<Rightarrow> nat \<times> string" where
  "issue_failure e = (if is_constraint e then (403, ''forbidden'') else (500, ''internal''))"

definition enroll ::
  "(string \<Rightarrow> string) \<Rightarrow> (string \<Rightarrow> string) \<Rightarrow> (string \<Rightarrow> string option) \<Rightarrow> 'z cred_db_scheme \<Rightarrow> credential \<Rightarrow> string
   \<Rightarrow> string \<Rightarrow> uuid \<Rightarrow> time \<Rightarrow> 'z cred_db_scheme \<times> reply" where
  "enroll sha256_hex b64 parse_label db cred body rnd new_id now =
     (if max_enroll_body < length body then (db, http_fail 400 ''bad_request'')
      else (case parse_label body of
              None \<Rightarrow> (db, http_fail 400 ''bad_request'')
            | Some l \<Rightarrow>
                (let label = trim l
                 in if label = [] \<or> max_enroll_label < length label then (db, http_fail 400 ''bad_request'')
                    else (case issue_credential sha256_hex b64 db (actor_id cred) (owner_user (actor_id cred)) cred label None rnd new_id now of
                            (db', Inr (t, i)) \<Rightarrow> (db', http_json 201 (Enrolled t i (actor_id cred) label))
                          | (db', Inl e) \<Rightarrow> (db', http_fail (fst (issue_failure e)) (snd (issue_failure e)))))))"

definition set_cookie :: "string \<Rightarrow> bool \<Rightarrow> bool \<Rightarrow> string" where
  "set_cookie v clear plain_http =
     session_cookie @ ''='' @ v @ ''; Path=/'' @ (if clear then ''; Max-Age=0'' else []) @ ''; HttpOnly; SameSite=Strict''
     @ (if plain_http then [] else ''; Secure'')"

definition session_start ::
  "(string \<Rightarrow> string) \<Rightarrow> 'z cred_db_scheme \<Rightarrow> bool \<Rightarrow> headers \<Rightarrow> time \<Rightarrow> bool \<Rightarrow> 'z cred_db_scheme \<times> reply" where
  "session_start sha256_hex db plain_http hs now touch =
     (case bearer hs of
        None \<Rightarrow> (db, unauthorized)
      | Some t \<Rightarrow>
          (case resolve_credential sha256_hex db t now touch of
             (db', Inl _) \<Rightarrow> (db', unauthorized)
           | (db', Inr _) \<Rightarrow>
               (db', \<lparr>rp_status = 204, rp_headers = [(''set-cookie'', set_cookie t False plain_http)], rp_body = Empty\<rparr>)))"

definition session_end :: "bool \<Rightarrow> reply" where
  "session_end plain_http = \<lparr>rp_status = 204, rp_headers = [(''set-cookie'', set_cookie [] True plain_http)], rp_body = Empty\<rparr>"

section \<open>What a request learns\<close>

lemma resolve_refused: "snd (resolve_credential sha db t now touch) = Inl e \<Longrightarrow> fst (resolve_credential sha db t now touch) = db \<and> e = NoCredential"
  by (auto simp: resolve_credential_def Let_def split: if_split_asm option.split_asm)

text \<open>
  The token a request presents: the one in the authorization header; only where that has none, the one in
  the session cookie; only where that has none either, the one in the query.
\<close>

definition presented :: "headers \<Rightarrow> string option \<Rightarrow> string \<Rightarrow> bool" where
  "presented hs query t \<longleftrightarrow>
     (if bearer hs \<noteq> None then bearer hs = Some t
      else if cookie hs session_cookie \<notin> {None, Some []} then cookie hs session_cookie = Some t
      else t \<noteq> [] \<and> (\<exists>q. query = Some q \<and> query_param q ''access_token'' = Some (Some t)))"

definition live_token :: "(string \<Rightarrow> string) \<Rightarrow> 'z cred_db_scheme \<Rightarrow> time \<Rightarrow> string \<Rightarrow> credential \<Rightarrow> bool" where
  "live_token sha256_hex db now t c \<longleftrightarrow>
     t \<noteq> [] \<and> (\<exists>row \<in> set (credentials db). cred_live db (sha256_hex t) now row \<and> c = row_credential row)"

lemma bearer_nonempty: "bearer hs = Some t \<Longrightarrow> t \<noteq> []"
  by (auto simp: bearer_def split: option.split_asm if_split_asm)

lemma token_presented: "token hs query = Some (Some t) \<longleftrightarrow> presented hs query t"
  by (auto simp: token_def presented_def split: option.split list.split)

lemma token_presented_nonempty: "token hs query = Some (Some t) \<Longrightarrow> t \<noteq> []"
  by (auto simp: token_def dest: bearer_nonempty split: option.split_asm list.split_asm if_split_asm)

lemma token_panics:
  "token hs query = None \<longleftrightarrow> bearer hs = None \<and> cookie hs session_cookie \<in> {None, Some []} \<and>
     (\<exists>q. query = Some q \<and> query_param q ''access_token'' = None)"
  by (auto simp: token_def split: option.split list.split)

lemma resolve_live:
  assumes "t \<noteq> []"
  shows "(case snd (resolve_credential sha256_hex db t now touch) of
      Inl _ \<Rightarrow> \<not> (\<exists>c. live_token sha256_hex db now t c)
    | Inr c \<Rightarrow> live_token sha256_hex db now t c)"
proof (cases "List.find (cred_live db (sha256_hex t) now) (credentials db)")
  case None
  then have "\<not> live_token sha256_hex db now t c" for c by (auto simp: live_token_def find_None_iff)
  with None assms show ?thesis by (simp add: resolve_credential_def Let_def hash_token_def)
next
  case (Some row)
  then show ?thesis using assms find_SomeD [OF Some]
    by (auto simp: resolve_credential_def Let_def hash_token_def live_token_def split: if_split)
qed

text \<open>
  C21: A refusal does not say why. The extractor before a handler refuses exactly the requests that do not
  present a live token, whether there is none or it is unknown, revoked, expired or of a disabled actor, and
  then gives the same bytes and changes nothing; a request that passes has the credential of a live row of
  the token it presents, and the header comes before the cookie and the cookie before the query. The login
  refuses with the same bytes unless the header's token is live, and the handler that reads the row again
  after the token was revoked does too. Only a query whose decoding panics gets no answer.
\<close>

theorem refusals_look_alike:
  "(case authed sha256_hex db hs query now touch of
      None \<Rightarrow> bearer hs = None \<and> cookie hs session_cookie \<in> {None, Some []} \<and>
        (\<exists>q. query = Some q \<and> query_param q ''access_token'' = None)
    | Some (db', Inl r) \<Rightarrow> r = unauthorized \<and> db' = db \<and>
        \<not> (\<exists>t c. presented hs query t \<and> live_token sha256_hex db now t c)
    | Some (db', Inr c) \<Rightarrow> (\<exists>t. presented hs query t \<and> live_token sha256_hex db now t c)) \<and>
   (if \<exists>t c. bearer hs = Some t \<and> live_token sha256_hex db now t c
    then rp_status (snd (session_start sha256_hex db plain_http hs now touch)) = 204
    else session_start sha256_hex db plain_http hs now touch = (db, unauthorized)) \<and>
   (\<forall>a t. actor_by_id db (actor_id cred) = Inr a \<and> presented hs query t \<and>
      credential_detail_by_token sha256_hex db t now = Inl NoCredential \<longrightarrow>
      whoami sha256_hex version db cred hs query now = Some unauthorized)"
proof (intro conjI)
  show "case authed sha256_hex db hs query now touch of
      None \<Rightarrow> bearer hs = None \<and> cookie hs session_cookie \<in> {None, Some []} \<and>
        (\<exists>q. query = Some q \<and> query_param q ''access_token'' = None)
    | Some (db', Inl r) \<Rightarrow> r = unauthorized \<and> db' = db \<and>
        \<not> (\<exists>t c. presented hs query t \<and> live_token sha256_hex db now t c)
    | Some (db', Inr c) \<Rightarrow> (\<exists>t. presented hs query t \<and> live_token sha256_hex db now t c)"
  proof (cases "token hs query")
    case None
    then show ?thesis using token_panics [of hs query] by (simp add: authed_def auth_resolve_def)
  next
    case (Some o')
    show ?thesis
    proof (cases o')
      case None
      with Some have "\<not> presented hs query t" for t using token_presented [of hs query t] by simp
      with None Some show ?thesis by (simp add: authed_def auth_resolve_def)
    next
      case t: (Some t)
      have p: "presented hs query u \<longleftrightarrow> u = t" for u using token_presented [of hs query u] Some t by auto
      have "t \<noteq> []" using token_presented_nonempty Some t by blast
      note live = resolve_live [OF this, of sha256_hex db now touch]
      obtain db' r where r: "resolve_credential sha256_hex db t now touch = (db', r)" by fastforce
      have a: "authed sha256_hex db hs query now touch = Some (db', case r of Inl _ \<Rightarrow> Inl unauthorized | Inr c \<Rightarrow> Inr c)"
        using Some t r by (simp add: authed_def auth_resolve_def)
      show ?thesis
      proof (cases r)
        case (Inl e)
        then show ?thesis using a resolve_refused [of sha256_hex db t now touch e] r live p by simp
      next
        case (Inr c)
        then show ?thesis using a r live p by simp
      qed
    qed
  qed
  show "if \<exists>t c. bearer hs = Some t \<and> live_token sha256_hex db now t c
    then rp_status (snd (session_start sha256_hex db plain_http hs now touch)) = 204
    else session_start sha256_hex db plain_http hs now touch = (db, unauthorized)"
  proof (cases "bearer hs")
    case None
    then show ?thesis by (simp add: session_start_def)
  next
    case (Some t)
    obtain db' r where r: "resolve_credential sha256_hex db t now touch = (db', r)" by fastforce
    note live = resolve_live [OF bearer_nonempty [OF Some], of sha256_hex db now touch]
    show ?thesis using Some r live resolve_refused [of sha256_hex db t now touch]
      by (cases r) (auto simp: session_start_def)
  qed
  show "\<forall>a t. actor_by_id db (actor_id cred) = Inr a \<and> presented hs query t \<and>
      credential_detail_by_token sha256_hex db t now = Inl NoCredential \<longrightarrow>
      whoami sha256_hex version db cred hs query now = Some unauthorized"
    by (auto simp: whoami_def simp flip: token_presented)
qed

text \<open>
  A device is enrolled for its own person. A success gives a fresh token for the caller's actor acting
  personally, whatever principal the presented credential spent, and the token resolves to exactly that;
  an AI never gets one. Any other answer leaves the store as it was.
\<close>

theorem enroll_is_for_the_caller:
  assumes "creds_wf db" "enroll sha256_hex b64 parse_label db cred body rnd new_id now = (db', r)"
  shows "(rp_status r \<noteq> 201 \<longrightarrow> db' = db) \<and> (kind_of db (actor_id cred) = Some AiActor \<longrightarrow> rp_status r \<noteq> 201) \<and>
    (rp_status r = 201 \<longrightarrow> (\<exists>l. rp_body r = Enrolled (b64 rnd) new_id (actor_id cred) l \<and> l \<noteq> [] \<and> length l \<le> 200) \<and> creds_wf db' \<and>
      (\<forall>c \<in> set (credentials db'). c \<in> set (credentials db) \<or>
         cr_token c = sha256_hex (b64 rnd) \<and> row_credential c = \<lparr>actor_id = actor_id cred, principal_kind = User, principal_id = actor_id cred\<rparr>))"
proof -
  let ?iss = "\<lambda>l. issue_credential sha256_hex b64 db (actor_id cred) (owner_user (actor_id cred)) cred l None rnd new_id now"
  consider (bad) "db' = db" "rp_status r \<noteq> 201"
    | (refused) l e where "?iss l = (db', Inl e)" "r = http_fail (fst (issue_failure e)) (snd (issue_failure e))"
    | (made) l t i where "?iss l = (db', Inr (t, i))" "r = http_json 201 (Enrolled t i (actor_id cred) l)" "l \<noteq> []" "length l \<le> 200"
    using assms(2) unfolding enroll_def Let_def
    by (auto simp: http_fail_def http_json_def max_enroll_label_def split: if_split_asm option.split_asm prod.split_asm sum.split_asm)
  then show ?thesis
  proof cases
    case bad
    then show ?thesis by simp
  next
    case refused
    then have "db' = db" by (auto simp: issue_credential_def new_token_def Let_def split: sum.split_asm)
    moreover have "rp_status r \<noteq> 201" using refused by (simp add: issue_failure_def http_fail_def http_json_def)
    ultimately show ?thesis by simp
  next
    case made
    note ok = issue_credential_ok [OF assms(1) made(1)]
    note n = ok(2) [OF refl]
    have "cr_by (last (credentials db')) = cred" using n by simp
    then have "kind_of db (actor_id cred) \<noteq> Some AiActor" using n by (auto simp: cred_row_ok_def issuer_ok_def)
    then show ?thesis using ok(1) n made by (auto simp: http_json_def row_credential_def owner_user_def)
  qed
qed

lemma trim_space_free:
  assumes "t \<noteq> []" "\<not> is_space (hd t)" "\<not> is_space (last t)"
  shows "trim t = t"
proof -
  have "dropWhile is_space t = t" "dropWhile is_space (rev t) = rev t"
    using assms by (simp_all add: dropWhile_eq_self_iff hd_rev)
  then show ?thesis by (simp add: trim_def)
qed

lemma trim_ends: "trim t \<noteq> [] \<Longrightarrow> \<not> is_space (hd (trim t)) \<and> \<not> is_space (last (trim t))"
proof -
  let ?u = "dropWhile is_space t"
  have h: "?u \<noteq> [] \<Longrightarrow> \<not> is_space (hd ?u)" by (rule hd_dropWhile)
  assume ne: "trim t \<noteq> []"
  then have r: "dropWhile is_space (rev ?u) \<noteq> []" by (simp add: trim_def)
  obtain xs where x: "rev ?u = xs @ dropWhile is_space (rev ?u)" by (metis takeWhile_dropWhile_id)
  have u: "?u = trim t @ rev xs" unfolding trim_def using arg_cong [OF x, of rev] by simp
  then have "hd ?u = hd (trim t)" "?u \<noteq> []" using ne by (metis hd_append2, metis Nil_is_append_conv)
  moreover have "last (trim t) = hd (dropWhile is_space (rev ?u))" using r by (simp add: trim_def last_rev)
  ultimately show ?thesis using h hd_dropWhile [OF r] by simp
qed

text \<open>What a browser sends back of a cookie: the name and the value, up to the first semicolon.\<close>

definition cookie_pair :: "string \<Rightarrow> string" where
  "cookie_pair s = hd (split_on CHR '';'' s)"

lemma split_on_hd: "hd (split_on c (xs @ c # ys)) = takeWhile (\<lambda>x. x \<noteq> c) xs"
proof (cases "c \<in> set xs")
  case False
  then have "takeWhile (\<lambda>x. x \<noteq> c) xs = xs" by (auto simp: takeWhile_eq_all_conv)
  then show ?thesis by (metis False split_on_append list.sel(1))
next
  case True
  then obtain as bs where x: "xs = as @ c # bs" "c \<notin> set as" by (meson split_list_first)
  then have "hd (split_on c (xs @ c # ys)) = as" using split_on_append [OF x(2), of "bs @ c # ys"] by simp
  moreover have "takeWhile (\<lambda>x. x \<noteq> c) xs = as" using x by (simp add: takeWhile_append)
  ultimately show ?thesis by simp
qed

lemma trim_keeps_front: "\<not> is_space (hd p) \<Longrightarrow> \<not> is_space (last p) \<Longrightarrow> p \<noteq> [] \<Longrightarrow> trim (p @ u) = p @ rev (dropWhile is_space (rev u))"
proof -
  assume p: "\<not> is_space (hd p)" "\<not> is_space (last p)" "p \<noteq> []"
  then have "dropWhile is_space (p @ u) = p @ u" by (cases p) simp_all
  moreover have "dropWhile is_space (rev p) = rev p" using p by (cases "rev p") (auto simp: last_rev hd_rev [symmetric])
  then have "dropWhile is_space (rev u @ rev p) = dropWhile is_space (rev u) @ rev p"
    by (cases "\<exists>x \<in> set u. \<not> is_space x") (auto simp: dropWhile_append dropWhile_append3)
  ultimately show ?thesis by (simp add: trim_def)
qed

lemma cookie_value:
  assumes "list_all (\<lambda>c. 32 \<le> (of_char c :: nat) \<and> (of_char c :: nat) < 127 \<or> (of_char c :: nat) = 9) u" "CHR '';'' \<notin> set u"
  shows "cookie [(''cookie'', session_cookie @ ''='' @ u)] session_cookie = Some (trim (rev (dropWhile is_space (rev u))))"
proof -
  let ?w = "rev (dropWhile is_space (rev u))"
  let ?pair = "session_cookie @ ''='' @ u"
  have "trim ((session_cookie @ ''='') @ u) = (session_cookie @ ''='') @ ?w"
    by (rule trim_keeps_front) (simp_all add: session_cookie_def is_space_def)
  then have "trim ?pair = session_cookie @ ''='' @ ?w" by simp
  moreover have "split_once CHR ''='' (session_cookie @ ''='' @ ?w) = Some (session_cookie, ?w)" by (simp add: session_cookie_def)
  moreover have "trim session_cookie = session_cookie" by code_simp
  moreover have "hdr_to_str ?pair = Some ?pair" using assms(1) by (simp add: hdr_to_str_def session_cookie_def)
  moreover have "split_on CHR '';'' ?pair = [?pair]" using assms(2) by (intro split_on_atom) (simp add: session_cookie_def)
  ultimately show ?thesis by simp
qed

lemma set_trim: "set (trim (rev (dropWhile is_space (rev u)))) \<subseteq> set u"
  unfolding trim_def by (auto dest!: set_dropWhileD)

lemma bearer_visible:
  assumes "bearer hs = Some t"
  shows "list_all (\<lambda>c. 32 \<le> (of_char c :: nat) \<and> (of_char c :: nat) < 127 \<or> (of_char c :: nat) = 9) t" "trim t = t"
proof -
  obtain v where v: "hdr_get hs ''authorization'' = Some (''Bearer '' @ v)" "trim v = t" "t \<noteq> []"
    using assms by (auto simp: bearer_def split: option.split_asm if_split_asm bind_split_asm)
  have "list_all (\<lambda>c. 32 \<le> (of_char c :: nat) \<and> (of_char c :: nat) < 127 \<or> (of_char c :: nat) = 9) (''Bearer '' @ v)"
    using v(1) by (auto simp: hdr_get_def hdr_to_str_def split: bind_split_asm if_split_asm)
  moreover have "set (trim v) \<subseteq> set v"
    unfolding trim_def by (auto dest!: set_dropWhileD)
  ultimately show "list_all (\<lambda>c. 32 \<le> (of_char c :: nat) \<and> (of_char c :: nat) < 127 \<or> (of_char c :: nat) = 9) t"
    using v(2) by (auto simp: list_all_iff)
  show "trim t = t" by (rule trim_space_free) (use trim_ends [of v] v in simp_all)
qed

text \<open>
  C22: The login moves the token into the cookie and nothing else. A browser that was given the cookie and sends it
  back, as the name and the value up to the first semicolon, presents the very token it logged in with,
  whatever the query says, exactly when the token has no semicolon. The tokens the store draws are text in an
  alphabet without one, but an operator chooses the first: with a semicolon in it the login succeeds and the
  cookie never authenticates as that token. The cookie is out of reach of scripts and of other sites, and kept
  to secure connections unless the deployment serves plain HTTP.
\<close>

theorem session_cookie_round_trip:
  assumes "bearer hs = Some t" and "snd (resolve_credential sha256_hex db t now touch) = Inr c"
  shows "\<exists>sc. rp_headers (snd (session_start sha256_hex db plain_http hs now touch)) = [(''set-cookie'', sc)] \<and>
    (if CHR '';'' \<in> set t then \<not> presented [(''cookie'', cookie_pair sc)] None t
     else \<forall>q. token [(''cookie'', cookie_pair sc)] q = Some (Some t)) \<and>
    (\<exists>rest. sc = session_cookie @ ''='' @ t @ ''; Path=/; HttpOnly; SameSite=Strict'' @ rest \<and> (plain_http \<or> rest = ''; Secure''))"
proof -
  let ?sc = "set_cookie t False plain_http"
  define u where "u = takeWhile (\<lambda>c. c \<noteq> CHR '';'') t"
  have sc: "rp_headers (snd (session_start sha256_hex db plain_http hs now touch)) = [(''set-cookie'', ?sc)]"
    using assms by (cases "resolve_credential sha256_hex db t now touch") (simp add: session_start_def)
  have shape: "?sc = (session_cookie @ ''='' @ t) @ CHR '';'' # drop (length (session_cookie @ ''='' @ t) + 1) ?sc"
    by (simp add: set_cookie_def session_cookie_def)
  then have "cookie_pair ?sc = takeWhile (\<lambda>c. c \<noteq> CHR '';'') (session_cookie @ ''='' @ t)"
    unfolding cookie_pair_def by (metis split_on_hd)
  then have pair: "cookie_pair ?sc = session_cookie @ ''='' @ u" by (simp add: session_cookie_def u_def)
  have free: "CHR '';'' \<notin> set u" unfolding u_def by (auto dest: set_takeWhileD)
  moreover have "list_all (\<lambda>c. 32 \<le> (of_char c :: nat) \<and> (of_char c :: nat) < 127 \<or> (of_char c :: nat) = 9) u"
    using bearer_visible(1) [OF assms(1)] unfolding u_def by (auto simp: list_all_iff dest: set_takeWhileD)
  ultimately have ck: "cookie [(''cookie'', cookie_pair ?sc)] session_cookie = Some (trim (rev (dropWhile is_space (rev u))))"
    unfolding pair by (intro cookie_value)
  have nb: "bearer [(''cookie'', cookie_pair ?sc)] = None" by (simp add: bearer_def hdr_get_def)
  have "if CHR '';'' \<in> set t then \<not> presented [(''cookie'', cookie_pair ?sc)] None t
     else \<forall>q. token [(''cookie'', cookie_pair ?sc)] q = Some (Some t)"
  proof (cases "CHR '';'' \<in> set t")
    case True
    with free set_trim [of u] have "trim (rev (dropWhile is_space (rev u))) \<noteq> t" by blast
    with True ck nb show ?thesis by (simp add: presented_def)
  next
    case False
    then have "u = t" unfolding u_def by (auto simp: takeWhile_eq_all_conv)
    moreover have "\<not> is_space (last t)" using trim_ends [of t] bearer_visible(2) [OF assms(1)] bearer_nonempty [OF assms(1)] by simp
    then have "rev (dropWhile is_space (rev t)) = t" by (cases t rule: rev_cases) simp_all
    ultimately have "cookie [(''cookie'', cookie_pair ?sc)] session_cookie = Some t" using ck bearer_visible(2) [OF assms(1)] by simp
    with False nb bearer_nonempty [OF assms(1)] show ?thesis by (cases t) (simp_all add: token_def)
  qed
  moreover have "?sc = session_cookie @ ''='' @ t @ ''; Path=/; HttpOnly; SameSite=Strict'' @ (if plain_http then [] else ''; Secure'')"
    by (simp add: set_cookie_def)
  ultimately show ?thesis using sc by (intro exI [of _ ?sc]) auto
qed

theorem session_cookie_round_trip_witness:
  "\<exists>sc. rp_headers (snd (session_start sample_digest cred_db1 False [(''authorization'', ''Bearer  tok'')] 200 True)) = [(''set-cookie'', sc)] \<and>
    token [(''cookie'', cookie_pair sc)] None = Some (Some ''tok'')"
proof -
  have "bearer [(''authorization'', ''Bearer  tok'')] = Some ''tok''"
    "snd (resolve_credential sample_digest cred_db1 ''tok'' 200 True) = Inr \<lparr>actor_id = 9, principal_kind = User, principal_id = 1\<rparr>" by code_simp+
  from session_cookie_round_trip [OF this, where plain_http = False] show ?thesis by auto
qed

text \<open>The cookie alone does not log in.\<close>

theorem refusals_look_alike_witness:
  "session_start sample_digest cred_db1 False [(''cookie'', ''hive_session=tok'')] 200 True = (cred_db1, unauthorized)"
proof -
  have "bearer [(''cookie'', ''hive_session=tok'')] = None" by code_simp
  with refusals_look_alike [where sha256_hex = sample_digest and db = cred_db1 and hs = "[(''cookie'', ''hive_session=tok'')]"
      and now = 200 and touch = True and plain_http = False]
  show ?thesis by simp
qed

theorem enroll_is_for_the_caller_witness:
  "rp_status (snd (enroll (\<lambda>_. replicate 64 CHR ''b'') id Some cred_db1 \<lparr>actor_id = 1, principal_kind = User, principal_id = 1\<rparr> ''phone'' ''r'' 8 300)) = 201 \<and>
   rp_status (snd (enroll (\<lambda>_. replicate 64 CHR ''b'') id Some cred_db1 \<lparr>actor_id = 9, principal_kind = User, principal_id = 1\<rparr> ''phone'' ''r'' 8 300)) \<noteq> 201"
proof -
  have "rp_status (snd (enroll (\<lambda>_. replicate 64 CHR ''b'') id Some cred_db1 \<lparr>actor_id = 1, principal_kind = User, principal_id = 1\<rparr> ''phone'' ''r'' 8 300)) = 201"
    "kind_of cred_db1 9 = Some AiActor" by code_simp+
  with enroll_is_for_the_caller [where sha256_hex = "\<lambda>_. replicate 64 CHR ''b''" and ?b64.0 = id and parse_label = Some
      and cred = "\<lparr>actor_id = 9, principal_kind = User, principal_id = 1\<rparr>" and body = "''phone''" and rnd = "''r''" and new_id = 8 and now = 300,
      OF cred_db1_wf surjective_pairing]
  show ?thesis by simp
qed

text \<open>
  The decoding of a query slices the text two bytes after a percent sign: where the second of them begins a
  character of several bytes the slice ends inside it and the request panics. And the standard parser of
  hexadecimal numbers takes a plus sign, so an escape of a sign and one digit is read as a byte.
\<close>

theorem percent_decode_panics:
  "percent_decode (''%a'' @ [char_of (195 :: nat), char_of (169 :: nat)]) = None"
  "token [] (Some (''x=%a'' @ [char_of (195 :: nat), char_of (169 :: nat)])) = Some None"
  "token [] (Some (''%a'' @ [char_of (195 :: nat), char_of (169 :: nat)])) = None"
  "percent_decode ''%+f'' = Some [char_of (15 :: nat)]"
  by code_simp+

end
