(* ===== verification/Hive_Guestevents.thy ===== *)
theory Hive_Guestevents
  imports Hive_Installs Hive_Jobs
begin

text \<open>
  The events a guest app may raise (\<open>crates/hive-store/src/guestevents.rs\<close>): the kind is filed under the app's
  own name, everything that says who is taken from the credential, and the write goes through the guard. The
  audit file is not part of the transaction: what the guard wrote there stays when the transaction fails.
\<close>

section \<open>Kinds\<close>

definition kind_prefix :: string where "kind_prefix = ''app.''"

definition guest_kind :: "string \<Rightarrow> store_error + unit" where
  "guest_kind k =
     (if k = [] then Inl (HostInvalid ''events.emit: kind is required'')
      else if 96 < length k then Inl (HostInvalid ''events.emit: kind is too long'')
      else if \<not> (list_all (\<lambda>c. is_lower c \<or> is_digit c \<or> c = CHR ''.'' \<or> c = CHR ''_'' \<or> c = CHR ''-'') k \<and>
                 (is_lower (hd k) \<or> is_digit (hd k)))
        then Inl (HostInvalid ''events.emit: kind must be lower-case alphanumeric with . _ -'')
      else Inr ())"

definition namespace_of :: "string \<Rightarrow> string" where "namespace_of slug = kind_prefix @ slug @ ''.''"

definition platform_kind :: "string \<Rightarrow> bool" where "platform_kind k \<longleftrightarrow> \<not> starts_with kind_prefix k"

definition visible_to :: "string \<Rightarrow> string \<Rightarrow> bool" where
  "visible_to k slug \<longleftrightarrow> platform_kind k \<or> starts_with (namespace_of slug) k"

section \<open>Emitting\<close>

record 'j emit_body =
  eb_kind :: string
  eb_body :: "'j option"

fun guest_host :: "store_error \<Rightarrow> store_error" where
  "guest_host Denied = HostDenied"
| "guest_host HostDenied = HostDenied"
| "guest_host (HostInvalid m) = HostInvalid m"
| "guest_host (HostNotFound m) = HostNotFound m"
| "guest_host _ = HostInternal"

definition emit_event :: "string \<Rightarrow> credential \<Rightarrow> string \<Rightarrow> uuid \<Rightarrow> owner \<Rightarrow> level \<Rightarrow> event" where
  "emit_event k c body inst w l =
     (event_new k c body)\<lparr>ev_subject := Some (subject_new SInstall inst), ev_owner := w, ev_trust := level_as_str l, ev_origin := ''guest''\<rparr>"

text \<open>The second half of \<open>emit_inner\<close>, once the install is resolved.\<close>

definition emit_write ::
  "'j json_lib \<Rightarrow> 'j \<Rightarrow> event_db \<Rightarrow> audit_db \<Rightarrow> request \<Rightarrow> install_info \<Rightarrow> 'j emit_body \<Rightarrow> time \<Rightarrow> time \<Rightarrow> (nat \<Rightarrow> time \<times> time) \<Rightarrow> bool
   \<Rightarrow> event_db \<times> audit_db \<times> (store_error + level \<times> string)" where
  "emit_write js empty_object db au req info inp t1 t2 clk commits =
     (let c = cl_cred (rq_caller req); k = kind_prefix @ ii_slug info @ ''.'' @ eb_kind inp in
      case valid_event_kind k of
        Inl _ \<Rightarrow> (db, au, Inl (HostInvalid ''events.emit: kind''))
      | Inr _ \<Rightarrow>
     (case authorize db au c (subject_new SInstall (ii_id info)) Write ''events.emit'' t1 t2 of
        (au', Inl e) \<Rightarrow> (db, au', Inl (guest_host e))
      | (au', Inr _) \<Rightarrow>
     (case append_events (js_store js) clk db
             [emit_event k c (js_text js (case eb_body inp of None \<Rightarrow> empty_object | Some v \<Rightarrow> v)) (ii_id info) (ii_owner info) (rq_trust req)] of
        (db', _, Some e) \<Rightarrow> (db, au', Inl (guest_host e))
      | (db', _, None) \<Rightarrow> if commits then (db', au', Inr (rq_trust req, k)) else (db, au', Inl HostInternal))))"

definition emit_inner ::
  "'j json_lib \<Rightarrow> 'j \<Rightarrow> (string \<Rightarrow> 'j emit_body option) \<Rightarrow> (uuid \<Rightarrow> collection list option) \<Rightarrow> event_db \<Rightarrow> audit_db \<Rightarrow> request
   \<Rightarrow> time \<Rightarrow> time \<Rightarrow> (nat \<Rightarrow> time \<times> time) \<Rightarrow> bool \<Rightarrow> event_db \<times> audit_db \<times> (store_error + level \<times> string)" where
  "emit_inner js empty_object body_of colls db au req t1 t2 clk commits =
     (case caller_validate (rq_caller req) of
        Inl _ \<Rightarrow> (db, au, Inl HostDenied)
      | Inr _ \<Rightarrow>
     (case body_of (rq_body req) of
        None \<Rightarrow> (db, au, Inl (HostInvalid ''events.emit: body is not an object''))
      | Some inp \<Rightarrow>
     (case guest_kind (eb_kind inp) of
        Inl e \<Rightarrow> (db, au, Inl e)
      | Inr _ \<Rightarrow>
     (case resolve_active_install colls db (cl_install_id (rq_caller req)) of
        Inl e \<Rightarrow> (db, au, Inl (guest_host e))
      | Inr info \<Rightarrow> emit_write js empty_object db au req info inp t1 t2 clk commits))))"

section \<open>Namespaces\<close>

lemma dot_free_prefix:
  assumes "CHR ''.'' \<notin> set s" "CHR ''.'' \<notin> set s'" "s @ CHR ''.'' # x = s' @ CHR ''.'' # y"
  shows "s = s' \<and> x = y"
  using assms by (induction s arbitrary: s') (case_tac s'; auto)+

lemma namespaces_are_disjoint:
  assumes "CHR ''.'' \<notin> set slug" "CHR ''.'' \<notin> set slug'"
  shows "visible_to (kind_prefix @ slug @ ''.'' @ k) slug' \<longleftrightarrow> slug' = slug"
proof -
  have "starts_with (namespace_of slug') (kind_prefix @ slug @ ''.'' @ k) \<longleftrightarrow> slug' = slug"
  proof
    assume "starts_with (namespace_of slug') (kind_prefix @ slug @ ''.'' @ k)"
    then obtain r where "kind_prefix @ slug @ CHR ''.'' # k = kind_prefix @ slug' @ CHR ''.'' # r"
      unfolding namespace_of_def starts_with_iff by auto
    then have "slug @ CHR ''.'' # k = slug' @ CHR ''.'' # r" by simp
    then show "slug' = slug" using dot_free_prefix [OF assms] by blast
  next
    assume "slug' = slug"
    then show "starts_with (namespace_of slug') (kind_prefix @ slug @ ''.'' @ k)"
      unfolding namespace_of_def starts_with_iff by simp
  qed
  moreover have "\<not> platform_kind (kind_prefix @ slug @ ''.'' @ k)" unfolding platform_kind_def starts_with_iff by blast
  ultimately show ?thesis by (simp only: visible_to_def) blast
qed

lemma slug_check_no_dot: "slug_check s \<Longrightarrow> CHR ''.'' \<notin> set s"
proof -
  have "\<not> (is_lower CHR ''.'' \<or> is_digit CHR ''.'')" by code_simp
  then show "slug_check s \<Longrightarrow> CHR ''.'' \<notin> set s" unfolding slug_check_def list_all_iff by fastforce
qed

lemma emit_write_cases:
  obtains (refused) au' e where "emit_write js e0 db au req info inp t1 t2 clk commits = (db, au', Inl e)"
  | (written) db' au' r es where
    "emit_write js e0 db au req info inp t1 t2 clk commits = (db', au', Inr (rq_trust req, kind_prefix @ ii_slug info @ ''.'' @ eb_kind inp))"
    "authorize db au (cl_cred (rq_caller req)) (subject_new SInstall (ii_id info)) Write ''events.emit'' t1 t2 = (au', Inr r)"
    "append_events (js_store js) clk db
       [emit_event (kind_prefix @ ii_slug info @ ''.'' @ eb_kind inp) (cl_cred (rq_caller req))
          (js_text js (case eb_body inp of None \<Rightarrow> e0 | Some v \<Rightarrow> v)) (ii_id info) (ii_owner info) (rq_trust req)] = (db', es, None)"
proof -
  let ?k = "kind_prefix @ ii_slug info @ ''.'' @ eb_kind inp"
  obtain au' ra where a: "authorize db au (cl_cred (rq_caller req)) (subject_new SInstall (ii_id info)) Write ''events.emit'' t1 t2 = (au', ra)"
    by fastforce
  obtain db' es x where p: "append_events (js_store js) clk db
       [emit_event ?k (cl_cred (rq_caller req))
          (js_text js (case eb_body inp of None \<Rightarrow> e0 | Some v \<Rightarrow> v)) (ii_id info) (ii_owner info) (rq_trust req)] = (db', es, x)"
    by (metis prod_cases3)
  show thesis
  proof (cases "valid_event_kind ?k")
    case (Inl e)
    then show ?thesis using refused unfolding emit_write_def Let_def by simp
  next
    case v: (Inr u)
    show ?thesis
    proof (cases ra)
      case (Inl e)
      then show ?thesis using refused v a unfolding emit_write_def Let_def by simp
    next
      case r: (Inr r)
      show ?thesis
      proof (cases "x = None \<and> commits")
        case True
        then show ?thesis using written v a r p unfolding emit_write_def Let_def by simp
      next
        case False
        then show ?thesis using refused v a r p unfolding emit_write_def Let_def by (cases x) simp_all
      qed
    qed
  qed
qed

lemma emit_inner_cases:
  fixes js :: "'j json_lib"
  obtains (refused) au' e where "emit_inner js e0 body_of colls db au req t1 t2 clk commits = (db, au', Inl e)"
  | (resolved) inp :: "'j emit_body" and info where "resolve_active_install colls db (cl_install_id (rq_caller req)) = Inr info"
    "guest_kind (eb_kind inp) = Inr ()"
    "emit_inner js e0 body_of colls db au req t1 t2 clk commits = emit_write js e0 db au req info inp t1 t2 clk commits"
proof (cases "caller_validate (rq_caller req)")
  case (Inl e)
  then show thesis using refused unfolding emit_inner_def by simp
next
  case c: (Inr u)
  show thesis
  proof (cases "body_of (rq_body req)")
    case None
    then show thesis using refused c unfolding emit_inner_def by simp
  next
    case b: (Some inp)
    show thesis
    proof (cases "guest_kind (eb_kind inp)")
      case (Inl e)
      then show thesis using refused c b unfolding emit_inner_def by simp
    next
      case k: (Inr v)
      show thesis
      proof (cases "resolve_active_install colls db (cl_install_id (rq_caller req))")
        case (Inl e)
        then show thesis using refused c b k unfolding emit_inner_def by simp
      next
        case (Inr info)
        then show thesis using resolved c b k unfolding emit_inner_def by simp
      qed
    qed
  qed
qed

text \<open>
  C30: A guest speaks only in its own name. What an app raises is one event of a kind that begins with its
  install's slug, so that it never reads as the platform's or as another app's, whatever kind it asked for;
  the install is the caller's and active, the credential may write it, the author and the principal are the
  credential's, the owner is the install's and the trust is the invocation's, unchanged. A call that
  fails leaves the log as it was.
\<close>

theorem guest_speaks_in_its_own_name:
  fixes js :: "'j json_lib"
  assumes "wf_events (js_store js) db" "list_all (\<lambda>i. slug_check (i_slug i)) (installs db)"
    and "emit_inner js e0 body_of colls db au req t1 t2 clk commits = (db', au', res)"
  shows "case res of
      Inl _ \<Rightarrow> db' = db
    | Inr (l, k) \<Rightarrow> l = rq_trust req \<and> wf_events (js_store js) db' \<and>
        (\<exists>i ev more. find_install db (cl_install_id (rq_caller req)) = Some i \<and> i_state i = Active \<and>
           may db t1 (cl_cred (rq_caller req)) (subject_new SInstall (i_id i)) Write None \<and>
           events db' = events db @ more \<and> scan_events more = Inr [ev] \<and> ev_kind ev = k \<and>
           \<not> platform_kind k \<and> (\<forall>slug. CHR ''.'' \<notin> set slug \<longrightarrow> visible_to k slug = (slug = i_slug i)) \<and>
           ev_author_actor ev = actor_id (cl_cred (rq_caller req)) \<and> ev_principal_id ev = principal_id (cl_cred (rq_caller req)) \<and>
           ev_owner ev = i_owner i \<and> ev_trust ev = level_as_str (rq_trust req) \<and> ev_origin ev = ''guest'')"
proof -
  let ?c = "cl_cred (rq_caller req)"
  consider (failed) e where "db' = db" "res = Inl e"
    | (emitted) inp :: "'j emit_body" and info r es where "resolve_active_install colls db (cl_install_id (rq_caller req)) = Inr info"
      "res = Inr (rq_trust req, kind_prefix @ ii_slug info @ ''.'' @ eb_kind inp)"
      "authorize db au ?c (subject_new SInstall (ii_id info)) Write ''events.emit'' t1 t2 = (au', Inr r)"
      "append_events (js_store js) clk db
         [emit_event (kind_prefix @ ii_slug info @ ''.'' @ eb_kind inp) ?c
            (js_text js (case eb_body inp of None \<Rightarrow> e0 | Some v \<Rightarrow> v)) (ii_id info) (ii_owner info) (rq_trust req)] = (db', es, None)"
  proof (cases rule: emit_inner_cases [of js e0 body_of colls db au req t1 t2 clk commits])
    case (refused au2 e)
    then show thesis using failed assms(3) by simp
  next
    case (resolved inp info)
    show thesis
    proof (cases rule: emit_write_cases [of js e0 db au req info inp t1 t2 clk commits])
      case (refused au2 e)
      then have "db' = db" "res = Inl e" using assms(3) resolved(3) by simp_all
      then show thesis by (rule failed)
    next
      case (written db2 au2 r es)
      have e: "db2 = db'" "au2 = au'" "res = Inr (rq_trust req, kind_prefix @ ii_slug info @ ''.'' @ eb_kind inp)"
        using written(1) assms(3) resolved(3) by simp_all
      show thesis by (rule emitted [OF resolved(1) e(3) written(2,3) [unfolded e(1,2)]])
    qed
  qed
  then show ?thesis
  proof cases
    case failed
    then show ?thesis by simp
  next
    case (emitted inp info r es)
    define k where "k = kind_prefix @ ii_slug info @ ''.'' @ eb_kind inp"
    note info = emitted(1) and auth = emitted(3) and app = emitted(4) [folded k_def]
    obtain i where i: "find_install db (cl_install_id (rq_caller req)) = Some i" "i_state i = Active"
      "ii_slug info = i_slug i" "ii_owner info = i_owner i" "ii_id info = i_id i"
      using info by (auto simp: resolve_active_install_def split: option.split_asm if_split_asm sum.split_asm)
    have "slug_check (i_slug i)" using assms(2) find_install_SomeD [OF i(1)] by (auto simp: list_all_iff)
    then have dot: "CHR ''.'' \<notin> set (i_slug i)" by (rule slug_check_no_dot)
    have "decide_and_audit db au ?c (subject_new SInstall (i_id i)) Write None ''events.emit'' t1 t2 = (au', Inr r)"
      using auth i(5) by (simp add: authorize_def)
    then have m: "may db t1 ?c (subject_new SInstall (i_id i)) Write None" using decide_and_audit_ok by blast
    let ?ev = "emit_event k ?c (js_text js (case eb_body inp of None \<Rightarrow> e0 | Some v \<Rightarrow> v)) (ii_id info) (ii_owner info) (rq_trust req)"
    obtain db1 es1 where loop: "append_loop (js_store js) clk 0 db [?ev] = (db1, es1, None)" "db' = ring db1"
      using app by (auto simp: append_events_def split: prod.split_asm option.split_asm)
    from append_loop_spec [OF assms(1) loop(1)] have w: "wf_events (js_store js) db1" and ap: "appends (js_store js) db [?ev] db1 es1" by auto
    then obtain more ev1 where more: "events db1 = events db @ more" "scan_events more = Inr [stored (js_store js) ev1]" "filled_in ?ev ev1"
      by (auto simp: appends_def list_all2_Cons1)
    have f: "ev_kind ev1 = k" "ev_author_actor ev1 = actor_id ?c" "ev_principal_id ev1 = principal_id ?c" "ev_owner ev1 = ii_owner info"
      "ev_trust ev1 = level_as_str (rq_trust req)" "ev_origin ev1 = ''guest''"
      using more(3) by (cases "rq_trust req"; auto simp: filled_in_def fill_defaults_def emit_event_def event_new_def Let_def)+
    have p: "\<not> platform_kind k" by (simp add: k_def platform_kind_def starts_with_iff)
    have "\<forall>slug. CHR ''.'' \<notin> set slug \<longrightarrow> visible_to k slug = (slug = i_slug i)"
      using namespaces_are_disjoint [OF dot] by (simp add: k_def i(3))
    moreover have "wf_events (js_store js) db' = wf_events (js_store js) db1" by (simp add: loop(2) ring_def wf_events_def)
    moreover have "events db' = events db @ more" using more(1) by (simp add: loop(2) ring_def)
    ultimately show ?thesis using w emitted(2) [folded k_def] i m more(2) f p
      by (auto simp: stored_def intro!: exI [of _ i] exI [of _ "stored (js_store js) ev1"] exI [of _ more])
  qed
qed

definition emit_sample :: "event_db \<times> audit_db \<times> (store_error + level \<times> string)" where
  "emit_sample = emit_inner text_json ''{}'' (\<lambda>_. Some \<lparr>eb_kind = ''entry.created'', eb_body = None\<rparr>) (\<lambda>_. Some []) event_db0 audit0
     job_request 100 101 tick True"

theorem guest_speaks_in_its_own_name_witness:
  "\<exists>k. snd (snd emit_sample) = Inr (Trusted, k) \<and> \<not> platform_kind k \<and> length (events (fst emit_sample)) = 1"
proof -
  have wf: "wf_events (js_store text_json) event_db0" "list_all (\<lambda>i. slug_check (i_slug i)) (installs event_db0)" by code_simp+
  have r: "isl (snd (snd emit_sample)) = False" "fst (projr (snd (snd emit_sample))) = Trusted" "length (events (fst emit_sample)) = 1" by code_simp+
  obtain db' au' res where e: "emit_sample = (db', au', res)" by (metis prod_cases3)
  have "\<not> isl res" using r(1) unfolding e by simp
  then obtain l k where res: "res = Inr (l, k)" by (cases res) auto
  from guest_speaks_in_its_own_name [OF wf e [unfolded emit_sample_def]] have "\<not> platform_kind k" unfolding res by auto
  then show ?thesis using r(2,3) unfolding e res by simp
qed

end
