(* ===== verification/Hive_Surfaces.thy ===== *)
theory Hive_Surfaces
  imports Hive_Mcp Hive_Host Hive_Httpauth Hive_Guestevents
begin

text \<open>
  Where the derived surfaces are served (\<open>crates/hive-surfaces\<close>, \<open>hive-httpapi/src/mcp.rs\<close> and \<open>apps.rs\<close>): the
  candidate installs of an actor, the three ways a tool or a route runs, the matching of a path, and the two
  HTTP endpoints over them. The manifest and the module of a build are columns no other table reads: they
  are arguments, as are the parsing and printing of JSON, the wasm host, the app runtime and the data layer.
\<close>

section \<open>The environment of a request\<close>

record route_facts =
  rf_method :: string
  rf_path :: string
  rf_query :: "string option"

datatype invoke_kind = InvokeTool | InvokeRoute

record app_invoke =
  iv_install_id :: uuid
  iv_kind :: invoke_kind
  iv_name :: string
  iv_cred :: credential
  iv_trust :: level
  iv_data :: json
  iv_route :: "route_facts option"

record surf_env =
  se_manifest :: "uuid \<Rightarrow> manifest option"
  se_module :: "uuid \<Rightarrow> string option \<times> string"
  se_parse :: "string \<Rightarrow> json option"
  se_print :: "json \<Rightarrow> string"
  se_host :: "call_request \<Rightarrow> string + call_result"
  se_apps :: "(app_invoke \<Rightarrow> string + level \<times> json) option"
  se_storage :: "op \<Rightarrow> request \<Rightarrow> host_error + cap_response"
  se_blob :: "string \<Rightarrow> string + string"

section \<open>Candidates\<close>

definition candidate_grant :: "'z core_db_scheme \<Rightarrow> credential \<Rightarrow> time \<Rightarrow> uuid \<Rightarrow> grant \<Rightarrow> bool" where
  "candidate_grant db c now i g \<longleftrightarrow>
     s_id (g_subject g) = i \<and> s_kind (g_subject g) \<in> {SInstall, STool, SRoute, SCollection} \<and>
     g_revoked_at g = None \<and> (case g_expires_at g of None \<Rightarrow> True | Some e \<Rightarrow> now < e) \<and>
     (case g_target g of
        TargetPrincipal w \<Rightarrow> w = owner_of c \<or> principal_kind c = User \<and> o_kind w = Org \<and> is_member db (o_id w) (principal_id c)
      | TargetInstall _ \<Rightarrow> False)"

fun read_surfaces :: "(uuid \<Rightarrow> manifest option) \<Rightarrow> install list \<Rightarrow> string + mcp_install list" where
  "read_surfaces mf [] = Inr []"
| "read_surfaces mf (i # is) =
     (case mf (i_build_id i) of
        None \<Rightarrow> Inl ''manifest does not parse''
      | Some m \<Rightarrow>
          (case read_surfaces mf is of
             Inl e \<Rightarrow> Inl e
           | Inr out \<Rightarrow> Inr (\<lparr>mi_id = i_id i, mi_app = i_slug i, mi_surface = derive m\<rparr> # out)))"

definition candidate_rows :: "'z core_db_scheme \<Rightarrow> credential \<Rightarrow> time \<Rightarrow> install list" where
  "candidate_rows db c now =
     sort_key (\<lambda>i. (i_slug i, i_id i))
       (filter (\<lambda>i. find_build db (i_build_id i) \<noteq> None \<and> i_state i = Active \<and>
                    (i_owner i = owner_of c \<or> list_ex (candidate_grant db c now (i_id i)) (grants db))) (installs db))"

definition install_candidates :: "surf_env \<Rightarrow> 'z core_db_scheme \<Rightarrow> time \<Rightarrow> credential \<Rightarrow> string + mcp_install list" where
  "install_candidates env db now c =
     (case credential_validate c of
        Inl _ \<Rightarrow> Inl ''incomplete credential''
      | Inr _ \<Rightarrow> read_surfaces (se_manifest env) (candidate_rows db c now))"

text \<open>The guard the tool server asks.\<close>

definition ask_tool :: "'z core_db_scheme \<Rightarrow> time \<Rightarrow> time \<Rightarrow> time \<Rightarrow> audit_db guard_fn" where
  "ask_tool db t1 t2 t3 au c inst tn =
     (case tool_reason db au c inst tn t1 t2 t3 of
        (au', Inl _) \<Rightarrow> (au', Inl ''guard'')
      | (au', Inr r) \<Rightarrow> (au', Inr (r \<noteq> None)))"

section \<open>Running a tool\<close>

definition process_of :: "surf_env \<Rightarrow> 'z core_db_scheme \<Rightarrow> uuid \<Rightarrow> string + process_decl option" where
  "process_of env db inst =
     (case find_install db inst of
        None \<Rightarrow> Inr None
      | Some i \<Rightarrow>
          if find_build db (i_build_id i) = None then Inr None
          else (case se_manifest env (i_build_id i) of None \<Rightarrow> Inl ''manifest does not parse'' | Some m \<Rightarrow> Inr (mf_process m)))"

definition run_process ::
  "surf_env \<Rightarrow> mcp_install \<Rightarrow> credential \<Rightarrow> invoke_kind \<Rightarrow> string \<Rightarrow> string \<Rightarrow> route_facts option \<Rightarrow> string + tool_result" where
  "run_process env inst c k nm input route =
     (case se_apps env of
        None \<Rightarrow> Inl ''this daemon runs no process apps''
      | Some call \<Rightarrow>
          (case (if input = [] then Some JNull else se_parse env input) of
             None \<Rightarrow> Inl ''input is not JSON''
           | Some d \<Rightarrow>
               (case call \<lparr>iv_install_id = mi_id inst, iv_kind = k, iv_name = nm, iv_cred = c, iv_trust = Trusted, iv_data = d, iv_route = route\<rparr> of
                  Inl e \<Rightarrow> Inl e
                | Inr (l, out) \<Rightarrow>
                    Inr \<lparr>tr_output = se_print env out, tr_trust = l, tr_tainted_by = (if l = Trusted then [] else ''app response'')\<rparr>)))"

definition module_for :: "surf_env \<Rightarrow> 'z core_db_scheme \<Rightarrow> mcp_install \<Rightarrow> string + guest_module" where
  "module_for env db inst =
     (case resolve_active_install (\<lambda>b. map_option mf_collections (se_manifest env b)) db (mi_id inst) of
        Inl _ \<Rightarrow> Inl ''install''
      | Inr info \<Rightarrow>
          (case find_install db (mi_id inst) of
             None \<Rightarrow> Inl ''build of install''
           | Some i \<Rightarrow>
               (case se_module env (i_build_id i) of
                  (None, _) \<Rightarrow> Inl ''install has no module''
                | (Some h, v) \<Rightarrow>
                    Inr \<lparr>gm_hash = h, gm_app = ii_slug info, gm_version = v, gm_memory_pages = 0,
                         gm_capabilities = from_names (sf_capabilities (mi_surface inst)),
                         gm_termination = TermDefault, gm_residency = Pooled\<rparr>)))"

definition run_guest :: "surf_env \<Rightarrow> 'z core_db_scheme \<Rightarrow> mcp_install \<Rightarrow> credential \<Rightarrow> string \<Rightarrow> string \<Rightarrow> string + tool_result" where
  "run_guest env db inst c function input =
     (case module_for env db inst of
        Inl e \<Rightarrow> Inl e
      | Inr m \<Rightarrow>
          (case se_host env \<lparr>cr_module = m, cr_source = Some (se_blob env), cr_function = function, cr_input = input,
                             cr_caller = \<lparr>cl_cred = c, cl_install_id = mi_id inst\<rparr>, cr_timeout = None, cr_trust = Trusted\<rparr> of
             Inl e \<Rightarrow> Inl e
           | Inr r \<Rightarrow> Inr \<lparr>tr_output = ca_output r, tr_trust = ca_trust r, tr_tainted_by = ca_tainted_by r\<rparr>))"

text \<open>A JSON object keeps its keys sorted; \<open>get\<close> and \<open>insert\<close> on it.\<close>

definition jget :: "string \<Rightarrow> json \<Rightarrow> json option" where
  "jget k v = (case v of JObj kvs \<Rightarrow> map_of kvs k | _ \<Rightarrow> None)"

fun jput :: "string \<Rightarrow> 'v \<Rightarrow> (string \<times> 'v) list \<Rightarrow> (string \<times> 'v) list" where
  "jput k v [] = [(k, v)]"
| "jput k v ((k', v') # kvs) =
     (if k = k' then (k, v) # kvs else if k < k' then (k, v) # (k', v') # kvs else (k', v') # jput k v kvs)"

definition jput_opt :: "string \<Rightarrow> json option \<Rightarrow> (string \<times> json) list \<Rightarrow> (string \<times> json) list" where
  "jput_opt k v kvs = (case v of None \<Rightarrow> kvs | Some x \<Rightarrow> jput k x kvs)"

fun crud_body :: "string \<Rightarrow> op \<Rightarrow> json \<Rightarrow> json" where
  "crud_body coll List_op a =
     JObj (jput_opt ''near'' (jget ''near'' a) (jput_opt ''search'' (jget ''search'' a) (jput_opt ''after'' (jget ''cursor'' a)
       (jput_opt ''limit'' (jget ''limit'' a) [(''collection'', JStr coll)]))))"
| "crud_body coll Get_op a = JObj (jput_opt ''id'' (jget ''id'' a) [(''collection'', JStr coll)])"
| "crud_body coll Delete_op a = JObj (jput_opt ''id'' (jget ''id'' a) [(''collection'', JStr coll)])"
| "crud_body coll Create_op a = JObj (jput_opt ''doc'' (jget ''doc'' a) [(''collection'', JStr coll)])"
| "crud_body coll Update_op a =
     JObj (jput_opt ''doc'' (jget ''doc'' a) (jput_opt ''id'' (jget ''id'' a) [(''collection'', JStr coll)]))"

definition run_crud :: "surf_env \<Rightarrow> mcp_install \<Rightarrow> credential \<Rightarrow> string \<Rightarrow> op \<Rightarrow> string \<Rightarrow> string + tool_result" where
  "run_crud env inst c coll o' input =
     (case (if input = [] then Some (JObj []) else se_parse env input) of
        None \<Rightarrow> Inl ''arguments are not JSON''
      | Some a \<Rightarrow>
          (case a of
             JObj _ \<Rightarrow>
               (case se_storage env o' \<lparr>rq_caller = \<lparr>cl_cred = c, cl_install_id = mi_id inst\<rparr>, rq_app = mi_app inst,
                        rq_body = se_print env (crud_body coll o' a), rq_trust = Trusted, rq_tainted_by = []\<rparr> of
                  Inl e \<Rightarrow> Inl (he_message e)
                | Inr r \<Rightarrow> Inr \<lparr>tr_output = rp_data r, tr_trust = rp_trust r, tr_tainted_by = []\<rparr>)
           | _ \<Rightarrow> Inl ''arguments must be a JSON object''))"

fun surf_dispatch :: "surf_env \<Rightarrow> 'z core_db_scheme \<Rightarrow> dispatch_call \<Rightarrow> string + tool_result" where
  "surf_dispatch env db (CallGuest inst c f input) =
     (case process_of env db (mi_id inst) of
        Inl e \<Rightarrow> Inl e
      | Inr (Some _) \<Rightarrow> run_process env inst c InvokeTool f input None
      | Inr None \<Rightarrow> run_guest env db inst c f input)"
| "surf_dispatch env db (CallCrud inst c coll o' input) = run_crud env inst c coll o' input"

section \<open>Routes\<close>

record route_call =
  rc_cred :: credential
  rc_app :: string
  rc_method :: string
  rc_path :: string
  rc_query :: "string option"
  rc_body :: string

datatype route_error = NotFound | BadRequest string | RouteFailed string

definition path_segments :: "string \<Rightarrow> string list" where
  "path_segments p = filter (\<lambda>s. s \<noteq> []) (split_on CHR ''/'' p)"

definition capture_name :: "string \<Rightarrow> string option" where
  "capture_name t = (case strip_prefix ''{'' t of None \<Rightarrow> None | Some s \<Rightarrow> if ends_with ''}'' s then Some (butlast s) else None)"

fun match_segments :: "string list \<Rightarrow> string list \<Rightarrow> (string \<times> string) list \<Rightarrow> nat \<Rightarrow> ((string \<times> string) list \<times> nat) option" where
  "match_segments (t # ts) (w # ws) ps n =
     (case capture_name t of
        Some x \<Rightarrow> match_segments ts ws (jput x w ps) n
      | None \<Rightarrow> if t = w then match_segments ts ws ps (n + 1) else None)"
| "match_segments _ _ ps n = Some (ps, n)"

definition match_one :: "string \<Rightarrow> string list \<Rightarrow> route \<Rightarrow> ((string \<times> string) list \<times> nat) option" where
  "match_one meth want r =
     (if to_ascii_lowercase (r_method r) \<noteq> to_ascii_lowercase meth then None
      else if length (path_segments (r_path r)) \<noteq> length want then None
      else match_segments (path_segments (r_path r)) want [] 0)"

fun best_route :: "string \<Rightarrow> string list \<Rightarrow> (route \<times> (string \<times> string) list \<times> nat) option \<Rightarrow> route list
   \<Rightarrow> (route \<times> (string \<times> string) list \<times> nat) option" where
  "best_route meth want best [] = best"
| "best_route meth want best (r # rs) =
     (case match_one meth want r of
        None \<Rightarrow> best_route meth want best rs
      | Some (ps, n) \<Rightarrow>
          best_route meth want
            (if (case best of None \<Rightarrow> True | Some (_, _, m) \<Rightarrow> m < n) then Some (r, ps, n) else best) rs)"

definition match_route :: "surface \<Rightarrow> string \<Rightarrow> string \<Rightarrow> (route \<times> (string \<times> string) list) option" where
  "match_route sf meth path = map_option (\<lambda>(r, ps, _). (r, ps)) (best_route meth (path_segments path) None (sf_routes sf))"

text \<open>The decoder here branches as the one of the credentials does; it is the same function of its input.\<close>

definition route_percent_decode :: "string \<Rightarrow> string option" where
  "route_percent_decode s = percent_decode s"

fun decode_pairs :: "string list \<Rightarrow> (string \<times> string) list option" where
  "decode_pairs [] = Some []"
| "decode_pairs (kv # kvs) =
     (let (k, v) = (case split_once CHR ''='' kv of Some p \<Rightarrow> p | None \<Rightarrow> (kv, []))
      in case (route_percent_decode k, route_percent_decode v, decode_pairs kvs) of
           (Some a, Some b, Some r) \<Rightarrow> Some ((a, b) # r)
         | _ \<Rightarrow> None)"

definition query_pairs :: "string option \<Rightarrow> (string \<times> string) list option" where
  "query_pairs q = decode_pairs (filter (\<lambda>kv. kv \<noteq> []) (split_on CHR ''&'' (case q of None \<Rightarrow> [] | Some x \<Rightarrow> x)))"

fun list_args :: "(string \<times> string) list \<Rightarrow> (string \<times> json) list \<Rightarrow> string + (string \<times> json) list" where
  "list_args [] a = Inr a"
| "list_args ((k, v) # kvs) a =
     (if k = ''limit''
      then (case parse_i64 v of None \<Rightarrow> Inl ''limit is not a number'' | Some n \<Rightarrow> list_args kvs (jput ''limit'' (JInt n) a))
      else if k = ''cursor'' then list_args kvs (jput ''cursor'' (JStr v) a)
      else list_args kvs a)"

definition crud_args_from_http :: "surf_env \<Rightarrow> op \<Rightarrow> (string \<times> string) list \<Rightarrow> string option \<Rightarrow> string \<Rightarrow> (string + json) option" where
  "crud_args_from_http env o' ps q body =
     (let a0 = (case map_of ps ''id'' of None \<Rightarrow> [] | Some i \<Rightarrow> [(''id'', JStr i)])
      in case (if o' = List_op then map_option (\<lambda>kvs. list_args kvs a0) (query_pairs q) else Some (Inr a0)) of
           None \<Rightarrow> None
         | Some (Inl e) \<Rightarrow> Some (Inl e)
         | Some (Inr a1) \<Rightarrow>
             if o' = Create_op \<or> o' = Update_op
             then (if body = [] then Some (Inl ''a document body is required'')
                   else (case se_parse env body of
                           None \<Rightarrow> Some (Inl ''body is not JSON'')
                         | Some d \<Rightarrow> Some (Inr (JObj (jput ''doc'' d a1)))))
             else Some (Inr (JObj a1)))"

definition guest_route_input :: "surf_env \<Rightarrow> route_call \<Rightarrow> (string \<times> string) list \<Rightarrow> json option" where
  "guest_route_input env call ps =
     (case query_pairs (rc_query call) of
        None \<Rightarrow> None
      | Some kvs \<Rightarrow>
          Some (JObj [(''body'', if rc_body call = [] then JNull
                                 else (case se_parse env (rc_body call) of Some v \<Rightarrow> v | None \<Rightarrow> JStr (utf8_lossy (rc_body call)))),
                      (''method'', JStr (rc_method call)),
                      (''params'', JObj (map (map_prod id JStr) ps)),
                      (''path'', JStr (rc_path call)),
                      (''query'', JObj (foldl (\<lambda>m (k, v). jput k (JStr v) m) [] kvs))]))"

definition run_route :: "surf_env \<Rightarrow> 'z core_db_scheme \<Rightarrow> route_call \<Rightarrow> mcp_install \<Rightarrow> route \<Rightarrow> (string \<times> string) list
   \<Rightarrow> (route_error + tool_result) option" where
  "run_route env db call inst r ps =
     (case r_impl r of
        GeneratedCrud \<Rightarrow>
          (let o' = (case r_op r of Some x \<Rightarrow> x | None \<Rightarrow> List_op)
           in case crud_args_from_http env o' ps (rc_query call) (rc_body call) of
                None \<Rightarrow> None
              | Some (Inl e) \<Rightarrow> Some (Inl (BadRequest e))
              | Some (Inr a) \<Rightarrow> Some (map_sum RouteFailed id (run_crud env inst (rc_cred call) (r_collection r) o' (se_print env a))))
      | Guest \<Rightarrow>
          (case guest_route_input env call ps of
             None \<Rightarrow> None
           | Some v \<Rightarrow>
               Some (case process_of env db (mi_id inst) of
                       Inl e \<Rightarrow> Inl (RouteFailed e)
                     | Inr (Some _) \<Rightarrow>
                         map_sum RouteFailed id (run_process env inst (rc_cred call) InvokeRoute (r_function r) (se_print env v)
                           (Some \<lparr>rf_method = rc_method call, rf_path = rc_path call, rf_query = rc_query call\<rparr>))
                     | Inr None \<Rightarrow> map_sum RouteFailed id (run_guest env db inst (rc_cred call) (r_function r) (se_print env v)))))"

definition call_route ::
  "surf_env \<Rightarrow> 'z core_db_scheme \<Rightarrow> audit_db \<Rightarrow> route_call \<Rightarrow> time \<Rightarrow> time \<Rightarrow> time \<Rightarrow> time
   \<Rightarrow> (audit_db \<times> (route_error + tool_result)) option" where
  "call_route env db au call t0 t1 t2 t3 =
     (case credential_validate (rc_cred call) of
        Inl _ \<Rightarrow> Some (au, Inl NotFound)
      | Inr _ \<Rightarrow>
          (case install_candidates env db t0 (rc_cred call) of
             Inl e \<Rightarrow> Some (au, Inl (RouteFailed e))
           | Inr is \<Rightarrow>
               (case List.find (\<lambda>i. mi_app i = rc_app call) is of
                  None \<Rightarrow> Some (au, Inl NotFound)
                | Some inst \<Rightarrow>
                    (case match_route (mi_surface inst) (rc_method call) (rc_path call) of
                       None \<Rightarrow> Some (au, Inl NotFound)
                     | Some (r, ps) \<Rightarrow>
                         (case route_reason db au (rc_cred call) (mi_id inst) (r_method r @ '' '' @ r_path r) t1 t2 t3 of
                            (au', Inl _) \<Rightarrow> Some (au', Inl (RouteFailed ''guard''))
                          | (au', Inr None) \<Rightarrow> Some (au', Inl NotFound)
                          | (au', Inr (Some _)) \<Rightarrow> map_option (Pair au') (run_route env db call inst r ps))))))"

section \<open>The endpoints\<close>

definition protocol_version :: string where "protocol_version = ''2025-06-18''"
definition max_http_body :: nat where "max_http_body = 2 ^ 20"

record rpc_request =
  rq_jsonrpc :: string
  rq_id :: "json option"
  rq_method :: string
  rq_params :: json

definition rpc_result :: "surf_env \<Rightarrow> json \<Rightarrow> json \<Rightarrow> reply" where
  "rpc_result env i r = http_json 200 (JsonText (se_print env (JObj [(''id'', i), (''jsonrpc'', JStr ''2.0''), (''result'', r)])))"

definition rpc_error :: "surf_env \<Rightarrow> json \<Rightarrow> int \<Rightarrow> string \<Rightarrow> reply" where
  "rpc_error env i code msg =
     http_json 200 (JsonText (se_print env (JObj [(''error'', JObj [(''code'', JInt code), (''message'', JStr msg)]), (''id'', i), (''jsonrpc'', JStr ''2.0'')])))"

definition tool_json :: "mcp_tool \<Rightarrow> json" where
  "tool_json t = JObj [(''description'', JStr (mt_description t)),
     (''inputSchema'', case mt_input_schema t of Some v \<Rightarrow> v | None \<Rightarrow> JObj [(''type'', JStr ''object'')]),
     (''name'', JStr (mt_name t))]"

definition result_json :: "surf_env \<Rightarrow> tool_result \<Rightarrow> json" where
  "result_json env r =
     JObj ([(''_meta'', JObj [(''taintedBy'', JStr (tr_tainted_by r)), (''trust'', JStr (level_as_str (tr_trust r)))]),
            (''content'', JArr [JObj [(''text'', JStr (utf8_lossy (tr_output r))), (''type'', JStr ''text'')]]),
            (''isError'', JBool False)]
       @ (case se_parse env (tr_output r) of Some (JObj kvs) \<Rightarrow> [(''structuredContent'', JObj kvs)] | _ \<Rightarrow> []))"

definition bare_status :: "nat \<Rightarrow> reply" where
  "bare_status st = \<lparr>rp_status = st, rp_headers = [], rp_body = Empty\<rparr>"

definition rpc_tools_call ::
  "surf_env \<Rightarrow> (string \<Rightarrow> string \<Rightarrow> 'a \<times> (mcp_error + tool_result)) \<Rightarrow> 'a \<Rightarrow> json \<Rightarrow> json \<Rightarrow> 'a \<times> reply" where
  "rpc_tools_call env call g i ps =
     (let nm = (case jget ''name'' ps of Some (JStr n) \<Rightarrow> n | _ \<Rightarrow> [])
      in if nm = [] then (g, rpc_error env i (-32602) ''params.name is required'')
         else (case call nm (se_print env (case jget ''arguments'' ps of Some a \<Rightarrow> a | None \<Rightarrow> JObj [])) of
                 (g', Inr r) \<Rightarrow> (g', rpc_result env i (result_json env r))
               | (g', Inl (UnknownTool _)) \<Rightarrow> (g', rpc_error env i (-32602) (''unknown tool: '' @ nm))
               | (g', Inl (MalformedName _)) \<Rightarrow> (g', rpc_error env i (-32602) (''unknown tool: '' @ nm))
               | (g', Inl (McpDispatch _ msg)) \<Rightarrow>
                   (g', rpc_result env i (JObj [(''content'', JArr [JObj [(''text'', JStr msg), (''type'', JStr ''text'')]]), (''isError'', JBool True)]))
               | (g', Inl _) \<Rightarrow> (g', rpc_error env i (-32603) ''internal'')))"

text \<open>\<open>rpc_of\<close> is the decoding of the request; \<open>version\<close> the daemon's. The text of an internal or a parse error is left out.\<close>

definition rpc ::
  "surf_env \<Rightarrow> string \<Rightarrow> (string \<Rightarrow> rpc_request option) \<Rightarrow> bool \<Rightarrow> ('a \<Rightarrow> 'a \<times> (mcp_error + mcp_tool list))
   \<Rightarrow> ('a \<Rightarrow> string \<Rightarrow> string \<Rightarrow> 'a \<times> (mcp_error + tool_result)) \<Rightarrow> 'a \<Rightarrow> string \<Rightarrow> 'a \<times> reply" where
  "rpc env version rpc_of configured lister caller g body =
     (if \<not> configured then (g, bare_status 404)
      else if max_http_body < length body then (g, rpc_error env JNull (-32600) ''request too large'')
      else (case rpc_of body of
              None \<Rightarrow> (g, rpc_error env JNull (-32700) ''parse error'')
            | Some q \<Rightarrow>
                if rq_jsonrpc q \<noteq> ''2.0'' then (g, rpc_error env (case rq_id q of Some i \<Rightarrow> i | None \<Rightarrow> JNull) (-32600) (''jsonrpc must be '' @ [CHR 0x22] @ ''2.0'' @ [CHR 0x22]))
                else (case rq_id q of
                        None \<Rightarrow> (g, bare_status 202)
                      | Some i \<Rightarrow>
                          if rq_method q = ''initialize''
                          then (g, rpc_result env i (JObj [(''capabilities'', JObj [(''tools'', JObj [(''listChanged'', JBool False)])]),
                                 (''protocolVersion'', JStr protocol_version),
                                 (''serverInfo'', JObj [(''name'', JStr ''hive-sandbox''), (''version'', JStr version)])]))
                          else if rq_method q = ''ping'' then (g, rpc_result env i (JObj []))
                          else if rq_method q = ''tools/list''
                          then (case lister g of
                                  (g', Inr ts) \<Rightarrow> (g', rpc_result env i (JObj [(''tools'', JArr (map tool_json ts))]))
                                | (g', Inl _) \<Rightarrow> (g', rpc_error env i (-32603) ''internal''))
                          else if rq_method q = ''tools/call'' then rpc_tools_call env (caller g) g i (rq_params q)
                          else (g, rpc_error env i (-32601) (''method not found: '' @ rq_method q)))))"

definition trust_header :: string where "trust_header = ''x-hive-trust''"

definition app_error :: "surf_env \<Rightarrow> nat \<Rightarrow> string \<Rightarrow> string option \<Rightarrow> reply" where
  "app_error env st code detail =
     http_json st (JsonText (se_print env (JObj ((case detail of None \<Rightarrow> [] | Some d \<Rightarrow> [(''detail'', JStr d)]) @ [(''error'', JStr code)]))))"

definition app_dispatch ::
  "surf_env \<Rightarrow> (route_call \<Rightarrow> ('a \<times> (route_error + tool_result)) option) \<Rightarrow> 'a \<Rightarrow> credential \<Rightarrow> string \<Rightarrow> string \<Rightarrow> string \<Rightarrow> string option \<Rightarrow> string
   \<Rightarrow> ('a \<times> reply) option" where
  "app_dispatch env router g c app rest meth q body =
     (if max_http_body < length body then Some (g, app_error env 413 ''too_large'' None)
      else map_option (\<lambda>(g', r). (g',
          case r of
            Inr res \<Rightarrow> \<lparr>rp_status = 200, rp_headers = [json_type, (trust_header, level_as_str (tr_trust res))], rp_body = JsonText (tr_output res)\<rparr>
          | Inl NotFound \<Rightarrow> app_error env 404 ''not_found'' None
          | Inl (BadRequest d) \<Rightarrow> app_error env 400 ''bad_request'' (Some d)
          | Inl (RouteFailed d) \<Rightarrow> app_error env 502 ''app_failed'' (Some d)))
        (router \<lparr>rc_cred = c, rc_app = app, rc_method = meth, rc_path = (if rest = [] then ''/'' else CHR ''/'' # rest), rc_query = q, rc_body = body\<rparr>))"

section \<open>The guard keeps the contract\<close>

definition named_may :: "'z core_db_scheme \<Rightarrow> subject_kind \<Rightarrow> time \<Rightarrow> time \<Rightarrow> credential \<Rightarrow> uuid \<Rightarrow> string \<Rightarrow> bool" where
  "named_may db kind t1 t2 c inst nm \<longleftrightarrow>
     may db t2 c (if has_allowlist db kind inst (principal_kind c) (principal_id c) t1 then subject_named kind inst nm else subject_new SInstall inst)
       Call None"

lemma named_reason_answers:
  assumes up: "audit_up au" and k: "kind \<in> {STool, SRoute}"
  shows "\<exists>au' r. named_reason db au c kind inst nm note t1 t2 t3 = (au', Inr r) \<and> audit_up au' \<and>
    (r \<noteq> None) = named_may db kind t1 t2 c inst nm"
proof -
  define s where "s = (if has_allowlist db kind inst (principal_kind c) (principal_id c) t1 then subject_named kind inst nm else subject_new SInstall inst)"
  obtain r gid where d: "guard_decision db c s Call None t2 = (r, gid)" by fastforce
  then have m: "(r \<noteq> None) = named_may db kind t1 t2 c inst nm"
    using guard_decision_None [of db c s Call None t2] by (simp add: named_may_def s_def)
  show ?thesis
  proof (cases "r = Some OverrideReason")
    case True
    have "\<exists>w. subject_owner db (s_kind s) (s_id s) = Some w"
      using guard_decision_override [of db c s Call None t2] d True by (intro override_owned [of db c s Call t2 None]) simp
    then obtain w where "subject_owner db kind inst = Some w"
      using k subject_owner_install [of kind db inst] subject_owner_install [of SInstall db inst] by (auto simp: s_def split: if_split_asm)
    then obtain au' where "record_override db au c (subject_named kind inst nm) Call gid note t3 = (au', Inr ())" "audit_up au'"
      using record_override_total [OF up, of db "subject_named kind inst nm"] by fastforce
    then show ?thesis using True d m by (auto simp: named_reason_def s_def [symmetric] Let_def)
  next
    case False
    then show ?thesis using d m up by (cases r) (auto simp: named_reason_def s_def [symmetric] Let_def)
  qed
qed

interpretation surf: tool_guard "ask_tool db t1 t2 t3" audit_up "named_may db STool t1 t2" for db t1 t2 t3
proof
  fix g :: audit_db and c i t assume "audit_up g"
  from named_reason_answers [OF this, of STool db c i t "''tool call''" t1 t2 t3] obtain g' r
    where "tool_reason db g c i t t1 t2 t3 = (g', Inr r)" "audit_up g'" "(r \<noteq> None) = named_may db STool t1 t2 c i t"
    unfolding tool_reason_def by blast
  then show "\<exists>g'. ask_tool db t1 t2 t3 g c i t = (g', Inr (named_may db STool t1 t2 c i t)) \<and> audit_up g'"
    by (simp add: ask_tool_def)
qed

section \<open>What the surfaces promise\<close>

lemma derived_tools:
  assumes "validate m = Inr ()"
  shows "distinct (map tool.t_name (sf_tools (derive m)))" "list_all (\<lambda>t. tool.t_name t \<noteq> []) (sf_tools (derive m))"
proof -
  obtain s where s: "tm.slots_ok s" "sf_tools (derive m) = sort_key tool.t_name (filter (\<lambda>t. tool.t_name t \<noteq> []) (items s))"
    using derive_tools_look [OF assms] by blast
  have "distinct (map tool.t_name (sort_key tool.t_name xs)) = distinct (map tool.t_name xs)" for xs :: "tool list"
    by (metis distinct_map distinct_sort set_sort)
  then show "distinct (map tool.t_name (sf_tools (derive m)))" using tm.distinct_live_items [OF s(1)] by (simp add: s(2))
  show "list_all (\<lambda>t. tool.t_name t \<noteq> []) (sf_tools (derive m))" by (simp add: s(2) list_all_iff)
qed

lemma read_surfaces_rows:
  assumes "read_surfaces mf rows = Inr ins"
  shows "map mi_app ins = map i_slug rows"
  using assms by (induction rows arbitrary: ins) (auto split: option.split_asm sum.split_asm)

lemma read_surfaces_row:
  assumes "read_surfaces mf rows = Inr ins" "i \<in> set ins"
  shows "\<exists>r m. r \<in> set rows \<and> mf (i_build_id r) = Some m \<and> i = \<lparr>mi_id = i_id r, mi_app = i_slug r, mi_surface = derive m\<rparr>"
  using assms
proof (induction rows arbitrary: ins)
  case (Cons r rows)
  then obtain m out where m: "mf (i_build_id r) = Some m" and o: "read_surfaces mf rows = Inr out"
    and i: "ins = \<lparr>mi_id = i_id r, mi_app = i_slug r, mi_surface = derive m\<rparr> # out"
    by (auto split: option.split_asm sum.split_asm)
  show ?case
  proof (cases "i \<in> set out")
    case True
    from Cons.IH [OF o this] show ?thesis by (metis list.set_intros(2))
  next
    case False
    then have "i = \<lparr>mi_id = i_id r, mi_app = i_slug r, mi_surface = derive m\<rparr>" using Cons.prems(2) i by simp
    with m show ?thesis by (metis list.set_intros(1))
  qed
qed simp

text \<open>
  C23: What is listed can be called, and what can be called is listed. Where no two installs the actor could be
  offered carry the same name, the tools the server lists are exactly the names a call is not refused for,
  at the same instant: both paths ask the guard the same question. The list is sorted, and a tool
  that is not the actor's is refused like one that does not exist.
\<close>

theorem listed_is_callable:
  assumes "audit_up au" "install_candidates env db t0 c = Inr ins" "distinct (map mi_app ins)"
    and "list_all (\<lambda>i. slug_check (i_slug i)) (installs db)" "\<And>b m. se_manifest env b = Some m \<Longrightarrow> validate m = Inr ()"
  shows "\<exists>au' ts. list_tools (install_candidates env db t0) (ask_tool db t1 t2 t3) au c = (au', Inr ts) \<and> sorted (map mt_name ts) \<and>
    (\<forall>nm. nm \<in> mt_name ` set ts \<longleftrightarrow>
       accepted (snd (call_tool (install_candidates env db t0) (ask_tool db t1 t2 t3) (surf_dispatch env db) au c nm input)))"
proof -
  have v: "credential_validate c = Inr ()" and r: "read_surfaces (se_manifest env) (candidate_rows db c t0) = Inr ins"
    using assms(2) by (auto simp: install_candidates_def split: sum.split_asm)
  have slug: "slug_check (mi_app i)" if "i \<in> set ins" for i
  proof -
    have "mi_app i \<in> set (map i_slug (candidate_rows db c t0))" using read_surfaces_rows [OF r] that by (metis image_eqI set_map)
    then show ?thesis using assms(4) by (auto simp: candidate_rows_def list_all_iff)
  qed
  have apps: "list_all (\<lambda>i. mi_app i \<noteq> [] \<and> CHR ''.'' \<notin> set (mi_app i)) ins"
    unfolding list_all_iff
  proof
    fix i assume "i \<in> set ins"
    from slug [OF this] show "mi_app i \<noteq> [] \<and> CHR ''.'' \<notin> set (mi_app i)"
      using slug_check_no_dot [of "mi_app i"] by (cases "mi_app i") (simp_all add: slug_check_def)
  qed
  have tools: "list_all (\<lambda>i. distinct (map tool.t_name (sf_tools (mi_surface i))) \<and> list_all (\<lambda>t. tool.t_name t \<noteq> []) (sf_tools (mi_surface i))) ins"
    unfolding list_all_iff
  proof
    fix i assume "i \<in> set ins"
    from read_surfaces_row [OF r this] obtain b m where "se_manifest env b = Some m" "mi_surface i = derive m" by auto
    then show "distinct (map tool.t_name (sf_tools (mi_surface i))) \<and> (\<forall>t \<in> set (sf_tools (mi_surface i)). tool.t_name t \<noteq> [])"
      using derived_tools [OF assms(5)] by (simp add: list_all_iff)
  qed
  show ?thesis
    by (rule surf.listing_is_calling [where active = "install_candidates env db t0", OF assms(1) v assms(2,3) apps tools])
qed

definition notes_env :: surf_env where
  "notes_env = \<lparr>se_manifest = (\<lambda>b. if b = 30 then Some (journal_manifest \<lparr>mf_name := ''notes''\<rparr>) else None), se_module = (\<lambda>b. (Some ''h'', ''1'')),
     se_parse = (\<lambda>s. Some (JObj [])), se_print = (\<lambda>v. ''{}''), se_host = (\<lambda>q. Inl ''down''), se_apps = None,
     se_storage = (\<lambda>o' q. Inr \<lparr>rp_trust = Trusted, rp_data = ''[]''\<rparr>), se_blob = (\<lambda>h. Inl ''none'')\<rparr>"

lemma notes_manifest_valid: "validate (journal_manifest \<lparr>mf_name := ''notes''\<rparr>) = Inr ()"
  by code_simp

theorem listed_is_callable_witness:
  "\<exists>au' ts. list_tools (install_candidates notes_env sample_db 100) (ask_tool sample_db 101 102 103) audit0 alice = (au', Inr ts) \<and>
     sorted (map mt_name ts) \<and>
     (\<forall>nm. nm \<in> mt_name ` set ts \<longleftrightarrow>
       accepted (snd (call_tool (install_candidates notes_env sample_db 100) (ask_tool sample_db 101 102 103)
         (surf_dispatch notes_env sample_db) audit0 alice nm ''{}'')))"
proof (rule listed_is_callable [where ins = "[\<lparr>mi_id = 10, mi_app = ''notes'', mi_surface = derive (journal_manifest \<lparr>mf_name := ''notes''\<rparr>)\<rparr>]"])
  have rows: "candidate_rows sample_db alice 100 = [hd (installs sample_db)]" by code_simp
  have v: "credential_validate alice = Inr ()" by code_simp
  show "install_candidates notes_env sample_db 100 alice = Inr [\<lparr>mi_id = 10, mi_app = ''notes'', mi_surface = derive (journal_manifest \<lparr>mf_name := ''notes''\<rparr>)\<rparr>]"
    unfolding install_candidates_def v rows by (simp add: notes_env_def sample_db_def)
  show "list_all (\<lambda>i. slug_check (i_slug i)) (installs sample_db)" by code_simp
  show "validate m = Inr ()" if "se_manifest notes_env b = Some m" for b m
    using that notes_manifest_valid by (auto simp: notes_env_def split: if_split_asm)
qed (simp_all add: audit0_def)

text \<open>
  Two installs of one name. Alice shares a collection of her install with Bob, who has an install of the
  same app of his own: both are candidates, hers sorts first, and Bob may call no tool of hers. The list
  shows him the tools of his own install; the call stops at the first install of that name and refuses.
\<close>

definition shadow_db :: core_db where
  "shadow_db = sample_db \<lparr>
     installs := installs sample_db @
       [\<lparr>i_id = 13, i_build_id = 30, i_slug = ''notes'', i_owner = owner_user 2, i_installed_by = 2, i_activated_by = Some 2,
         i_authority = None, i_schema_name = ''app_notes_0000000d'', i_state = Active, i_created_at = 20\<rparr>],
     grants :=
       [\<lparr>g_id = 50, g_subject = subject_named SCollection 10 ''entries'', g_target = TargetPrincipal (owner_user 2),
         g_access = Read, g_source = Direct, g_inherited_from = None, g_by = alice, g_reason = [],
         g_created_at = 10, g_expires_at = None, g_revoked_at = None, g_revoked_by = None\<rparr>]\<rparr>"

theorem listed_tool_is_refused:
  "\<exists>ts. snd (list_tools (install_candidates notes_env shadow_db 100) (ask_tool shadow_db 101 102 103) audit0 bob) = Inr ts \<and>
     ''notes.summarize'' \<in> set (map mt_name ts) \<and>
     snd (call_tool (install_candidates notes_env shadow_db 100) (ask_tool shadow_db 101 102 103) (surf_dispatch notes_env shadow_db)
       audit0 bob ''notes.summarize'' ''{}'') = Inl (UnknownTool ''notes.summarize'')"
proof -
  let ?l = "snd (list_tools (install_candidates notes_env shadow_db 100) (ask_tool shadow_db 101 102 103) audit0 bob)"
  have "case ?l of Inl _ \<Rightarrow> False | Inr ts \<Rightarrow> ''notes.summarize'' \<in> set (map mt_name ts)" by code_simp
  moreover have "snd (call_tool (install_candidates notes_env shadow_db 100) (ask_tool shadow_db 101 102 103) (surf_dispatch notes_env shadow_db)
       audit0 bob ''notes.summarize'' ''{}'') = Inl (UnknownTool ''notes.summarize'')" by code_simp
  ultimately show ?thesis by (cases ?l) simp_all
qed

section \<open>Routes\<close>

lemma best_route_Some:
  assumes "best_route meth want b rs = Some (r, ps, n)"
  shows "(b = Some (r, ps, n) \<or> r \<in> set rs \<and> match_one meth want r = Some (ps, n)) \<and>
    (\<forall>q \<in> set rs. \<forall>qs k. match_one meth want q = Some (qs, k) \<longrightarrow> k \<le> n) \<and> (\<forall>q qs k. b = Some (q, qs, k) \<longrightarrow> k \<le> n)"
  using assms
proof (induction rs arbitrary: b)
  case (Cons q rs)
  show ?case
  proof (cases "match_one meth want q")
    case None
    with Cons.prems have "best_route meth want b rs = Some (r, ps, n)" by simp
    from Cons.IH [OF this] None show ?thesis by auto
  next
    case (Some y)
    then obtain qs k where q: "match_one meth want q = Some (qs, k)" by (cases y) simp
    let ?b = "if (case b of None \<Rightarrow> True | Some (_, _, m) \<Rightarrow> m < k) then Some (q, qs, k) else b"
    have "best_route meth want ?b rs = Some (r, ps, n)" using Cons.prems q by simp
    note ih = Cons.IH [OF this]
    have le: "k \<le> n \<and> (\<forall>q' qs' k'. b = Some (q', qs', k') \<longrightarrow> k' \<le> n)"
    proof (cases b)
      case None
      with ih show ?thesis by simp
    next
      case (Some y')
      then obtain q' qs' k' where "b = Some (q', qs', k')" by (cases y') simp
      with ih show ?thesis by (cases "k' < k") simp_all
    qed
    have "?b = Some (r, ps, n) \<Longrightarrow> b = Some (r, ps, n) \<or> r = q \<and> qs = ps \<and> k = n" by (simp split: if_split_asm)
    with ih le q show ?thesis by auto
  qed
qed simp

lemma best_route_None: "best_route meth want b rs = None \<longleftrightarrow> b = None \<and> (\<forall>q \<in> set rs. match_one meth want q = None)"
  by (induction meth want b rs rule: best_route.induct) (auto split: option.split)

text \<open>
  The route served is a declared one of the request's method whose template fits the path, and none that
  fits has more fixed segments: the order of the declarations does not matter for that. No route is
  served only where none fits.
\<close>

theorem static_segments_win:
  assumes "match_route sf meth path = Some (r, ps)"
  shows "r \<in> set (sf_routes sf) \<and> (\<exists>n. match_one meth (path_segments path) r = Some (ps, n) \<and>
    (\<forall>q \<in> set (sf_routes sf). \<forall>qs k. match_one meth (path_segments path) q = Some (qs, k) \<longrightarrow> k \<le> n))"
proof -
  obtain n where "best_route meth (path_segments path) None (sf_routes sf) = Some (r, ps, n)"
    using assms by (auto simp: match_route_def)
  from best_route_Some [OF this] show ?thesis by blast
qed

text \<open>
  C24: A route runs only for someone the guard lets through. Where a request over HTTP is answered with a
  result, the app named in it is an active install the caller owns or was granted something of, the
  method and path fit a route its manifest declares, and the access predicate says yes for that very
  route, by its declared name, at the instant it was asked. Everything else is answered like a path that
  does not exist, or is a failure; it never runs.
\<close>

theorem route_runs_only_allowed:
  assumes "call_route env db au call t0 t1 t2 t3 = Some (au', Inr res)" and "audit_up au"
  shows "\<exists>i m r ps. i \<in> set (installs db) \<and> i_slug i = rc_app call \<and> i_state i = Active \<and>
    (i_owner i = owner_of (rc_cred call) \<or> list_ex (candidate_grant db (rc_cred call) t0 (i_id i)) (grants db)) \<and>
    se_manifest env (i_build_id i) = Some m \<and> match_route (derive m) (rc_method call) (rc_path call) = Some (r, ps) \<and>
    named_may db SRoute t1 t2 (rc_cred call) (i_id i) (r_method r @ '' '' @ r_path r)"
proof -
  obtain ins where c: "install_candidates env db t0 (rc_cred call) = Inr ins" and v: "credential_validate (rc_cred call) = Inr ()"
    using assms(1) by (auto simp: call_route_def split: sum.split_asm)
  then have rd: "read_surfaces (se_manifest env) (candidate_rows db (rc_cred call) t0) = Inr ins" by (simp add: install_candidates_def)
  obtain inst where f: "List.find (\<lambda>i. mi_app i = rc_app call) ins = Some inst"
    using assms(1) unfolding call_route_def c v by (auto split: option.split_asm)
  obtain r ps where mr: "match_route (mi_surface inst) (rc_method call) (rc_path call) = Some (r, ps)"
    using assms(1) unfolding call_route_def c v sum.case f option.case by (auto split: option.split_asm)
  obtain au1 a where rr: "route_reason db au (rc_cred call) (mi_id inst) (r_method r @ '' '' @ r_path r) t1 t2 t3 = (au1, Inr a)"
    and yes: "(a \<noteq> None) = named_may db SRoute t1 t2 (rc_cred call) (mi_id inst) (r_method r @ '' '' @ r_path r)"
    using named_reason_answers [OF assms(2), of SRoute db "rc_cred call" "mi_id inst" "r_method r @ '' '' @ r_path r" "''route call''" t1 t2 t3]
    unfolding route_reason_def by blast
  have "a \<noteq> None"
    using assms(1) unfolding call_route_def c v sum.case f option.case mr prod.case rr by (cases a) auto
  moreover from f have "inst \<in> set ins" "mi_app inst = rc_app call" by (auto dest: find_SomeD)
  moreover then obtain i m where "i \<in> set (candidate_rows db (rc_cred call) t0)" "se_manifest env (i_build_id i) = Some m"
      "inst = \<lparr>mi_id = i_id i, mi_app = i_slug i, mi_surface = derive m\<rparr>"
    using read_surfaces_row [OF rd] by blast
  ultimately show ?thesis using mr yes by (auto simp: candidate_rows_def)
qed

theorem route_runs_only_allowed_witness:
  "\<exists>i m r ps. i \<in> set (installs sample_db) \<and> i_slug i = ''notes'' \<and> i_state i = Active \<and>
    (i_owner i = owner_of alice \<or> list_ex (candidate_grant sample_db alice 100 (i_id i)) (grants sample_db)) \<and>
    se_manifest notes_env (i_build_id i) = Some m \<and> match_route (derive m) ''GET'' ''/entries'' = Some (r, ps) \<and>
    named_may sample_db SRoute 101 102 alice (i_id i) (r_method r @ '' '' @ r_path r)"
proof -
  let ?call = "\<lparr>rc_cred = alice, rc_app = ''notes'', rc_method = ''GET'', rc_path = ''/entries'', rc_query = None, rc_body = []\<rparr>"
  let ?r = "call_route notes_env sample_db audit0 ?call 100 101 102 103"
  have "case ?r of None \<Rightarrow> False | Some (_, Inl _) \<Rightarrow> False | Some (_, Inr _) \<Rightarrow> True" by code_simp
  then obtain au' x where x: "?r = Some (au', x)" "case x of Inl _ \<Rightarrow> False | Inr _ \<Rightarrow> True" by (auto split: option.split_asm)
  then obtain res where "?r = Some (au', Inr res)" by (cases x) simp_all
  from route_runs_only_allowed [OF this] show ?thesis by (simp add: audit0_def)
qed

end
