(* ===== verification/Hive_Docblobs.thy ===== *)
theory Hive_Docblobs
  imports Hive_Manifest Hive_Hash Hive_Schema
begin

text \<open>
  The blobs a document names (\<open>crates/hive-store/src/docblobs.rs\<close>): the walk over a JSON value that collects every
  digest under the reserved key, with its two bounds. \<open>dec\<close> decodes hexadecimal text and \<open>parse\<close> JSON text.
\<close>

section \<open>The walk\<close>

definition max_descriptor_depth :: nat where "max_descriptor_depth = 64"
definition max_descriptors_per_doc :: nat where "max_descriptors_per_doc = 256"
definition descriptor_key :: string where "descriptor_key = ''blob''"

fun json_type_name :: "json \<Rightarrow> string" where
  "json_type_name JNull = ''null''"
| "json_type_name (JBool _) = ''bool''"
| "json_type_name (JInt _) = ''number''"
| "json_type_name (JFloat _) = ''number''"
| "json_type_name (JStr _) = ''string''"
| "json_type_name (JArr _) = ''array''"
| "json_type_name (JObj _) = ''object''"

definition descriptor_hash :: "(string \<Rightarrow> string option) \<Rightarrow> json \<Rightarrow> string + hash" where
  "descriptor_hash dec raw =
     (case raw of
        JStr s \<Rightarrow> (case hash_parse dec s of Inl _ \<Rightarrow> Inl ''malformed hash'' | Inr h \<Rightarrow> Inr h)
      | other \<Rightarrow> Inl (''value is '' @ json_type_name other @ '', not a string''))"

text \<open>The reserved key of one object: the set collected so far is a sorted list.\<close>

definition note_descriptor :: "(string \<Rightarrow> string option) \<Rightarrow> string \<Rightarrow> (string \<times> json) list \<Rightarrow> hash list \<Rightarrow> store_error + hash list" where
  "note_descriptor dec path kvs out =
     (case map_of kvs descriptor_key of
        None \<Rightarrow> Inr out
      | Some raw \<Rightarrow>
          (case descriptor_hash dec raw of
             Inl e \<Rightarrow> Inl (HostInvalid (path @ ''.blob: blob is reserved for blob descriptors and must be a 64-character hex digest ('' @ e @ '')''))
           | Inr h \<Rightarrow>
               if h \<in> set out then Inr out
               else if max_descriptors_per_doc \<le> length out then Inl (HostInvalid ''document names more than 256 blobs'')
               else Inr (insort h out)))"

definition too_deep :: "string \<Rightarrow> store_error" where
  "too_deep path = HostInvalid (path @ '': document nests deeper than 64 levels'')"

fun walk :: "(string \<Rightarrow> string option) \<Rightarrow> json \<Rightarrow> string \<Rightarrow> nat \<Rightarrow> hash list \<Rightarrow> store_error + hash list"
  and walk_fields :: "(string \<Rightarrow> string option) \<Rightarrow> (string \<times> json) list \<Rightarrow> string \<Rightarrow> nat \<Rightarrow> hash list \<Rightarrow> store_error + hash list"
  and walk_items :: "(string \<Rightarrow> string option) \<Rightarrow> json list \<Rightarrow> nat \<Rightarrow> string \<Rightarrow> nat \<Rightarrow> hash list \<Rightarrow> store_error + hash list" where
  "walk dec node path depth out =
     (if max_descriptor_depth < depth then Inl (too_deep path)
      else (case node of
              JObj kvs \<Rightarrow>
                (case note_descriptor dec path kvs out of
                   Inl e \<Rightarrow> Inl e
                 | Inr out' \<Rightarrow> walk_fields dec kvs path depth out')
            | JArr vs \<Rightarrow> walk_items dec vs 0 path depth out
            | _ \<Rightarrow> Inr out))"
| "walk_fields dec [] path depth out = Inr out"
| "walk_fields dec ((k, v) # kvs) path depth out =
     (case walk dec v (path @ ''.'' @ k) (depth + 1) out of
        Inl e \<Rightarrow> Inl e
      | Inr out' \<Rightarrow> walk_fields dec kvs path depth out')"
| "walk_items dec [] i path depth out = Inr out"
| "walk_items dec (v # vs) i path depth out =
     (case walk dec v (path @ ''['' @ show_nat i @ '']'') (depth + 1) out of
        Inl e \<Rightarrow> Inl e
      | Inr out' \<Rightarrow> walk_items dec vs (i + 1) path depth out')"

definition descriptors_in :: "(string \<Rightarrow> string option) \<Rightarrow> (string \<Rightarrow> json option) \<Rightarrow> string \<Rightarrow> store_error + hash list" where
  "descriptors_in dec parse doc =
     (if doc = [] then Inr []
      else (case parse doc of
              None \<Rightarrow> Inl (HostInvalid ''document is not json'')
            | Some root \<Rightarrow> walk dec root ''doc'' 0 []))"

section \<open>What a document names\<close>

text \<open>Every value under the reserved key, at any depth, and how deep a value nests.\<close>

fun blob_values :: "json \<Rightarrow> json list" where
  "blob_values (JObj kvs) = (case map_of kvs descriptor_key of None \<Rightarrow> [] | Some raw \<Rightarrow> [raw]) @ concat (map (\<lambda>kv. blob_values (snd kv)) kvs)"
| "blob_values (JArr vs) = concat (map blob_values vs)"
| "blob_values _ = []"

fun nesting :: "json \<Rightarrow> nat" where
  "nesting (JObj kvs) = fold max (map (\<lambda>kv. Suc (nesting (snd kv))) kvs) 0"
| "nesting (JArr vs) = fold max (map (\<lambda>v. Suc (nesting v)) vs) 0"
| "nesting _ = 0"

definition named_hashes :: "(string \<Rightarrow> string option) \<Rightarrow> json list \<Rightarrow> hash set" where
  "named_hashes dec raws = {h. \<exists>raw \<in> set raws. descriptor_hash dec raw = Inr h}"

text \<open>What a stretch of the walk adds: every value reads as a digest, and the set stays within the bound.\<close>

definition collects :: "(string \<Rightarrow> string option) \<Rightarrow> hash list \<Rightarrow> json list \<Rightarrow> hash list \<Rightarrow> bool" where
  "collects dec out raws out' \<longleftrightarrow>
     (\<forall>raw \<in> set raws. \<exists>h. descriptor_hash dec raw = Inr h) \<and>
     card (set out \<union> named_hashes dec raws) \<le> max_descriptors_per_doc \<and> out' = sorted_list_of_set (set out \<union> named_hashes dec raws)"

definition tidy :: "hash list \<Rightarrow> bool" where
  "tidy out \<longleftrightarrow> sorted out \<and> distinct out \<and> length out \<le> max_descriptors_per_doc"

lemma named_hashes_simps [simp]:
  "named_hashes dec [] = {}" "named_hashes dec (xs @ ys) = named_hashes dec xs \<union> named_hashes dec ys"
  by (auto simp: named_hashes_def)

lemma finite_named_hashes [simp]: "finite (named_hashes dec raws)"
proof -
  have "named_hashes dec raws \<subseteq> (\<lambda>raw. projr (descriptor_hash dec raw)) ` set raws"
    unfolding named_hashes_def by (auto simp: image_iff) (metis sum.sel(2))
  then show ?thesis by (rule finite_subset) simp
qed

lemma collects_tidy: "collects dec out raws out' \<Longrightarrow> tidy out' \<and> set out' = set out \<union> named_hashes dec raws"
  by (simp add: collects_def tidy_def)

lemma collects_Nil: "tidy out \<Longrightarrow> collects dec out [] out' \<longleftrightarrow> out' = out"
  by (auto simp: collects_def tidy_def distinct_card sorted_list_of_set.idem_if_sorted_distinct)

lemma collects_append: "collects dec out (xs @ ys) out' \<longleftrightarrow> (\<exists>m. collects dec out xs m \<and> collects dec m ys out')"
proof
  assume l: "collects dec out (xs @ ys) out'"
  let ?m = "sorted_list_of_set (set out \<union> named_hashes dec xs)"
  have "card (set out \<union> named_hashes dec xs) \<le> card (set out \<union> named_hashes dec (xs @ ys))"
    by (intro card_mono) auto
  then have "collects dec out xs ?m" using l by (auto simp: collects_def)
  moreover have "collects dec ?m ys out'" using l by (auto simp: collects_def Un_assoc)
  ultimately show "\<exists>m. collects dec out xs m \<and> collects dec m ys out'" by blast
next
  assume "\<exists>m. collects dec out xs m \<and> collects dec m ys out'"
  then obtain m where m: "collects dec out xs m" "collects dec m ys out'" by blast
  then show "collects dec out (xs @ ys) out'"
    using collects_tidy [OF m(1)] by (auto simp: collects_def Un_assoc)
qed

lemma note_descriptor_iff:
  assumes "tidy out"
  shows "note_descriptor dec path kvs out = Inr out' \<longleftrightarrow>
    collects dec out (case map_of kvs descriptor_key of None \<Rightarrow> [] | Some raw \<Rightarrow> [raw]) out'"
proof (cases "map_of kvs descriptor_key")
  case None
  then show ?thesis using collects_Nil [OF assms, of dec out'] by (auto simp: note_descriptor_def)
next
  case (Some raw)
  show ?thesis
  proof (cases "descriptor_hash dec raw")
    case (Inl e)
    then show ?thesis using Some by (simp add: note_descriptor_def collects_def)
  next
    case (Inr h)
    then have n: "named_hashes dec [raw] = {h}" by (simp add: named_hashes_def)
    have o: "sorted_list_of_set (set out) = out" "card (set out) = length out"
      using assms by (simp_all add: tidy_def sorted_list_of_set.idem_if_sorted_distinct distinct_card)
    have i: "h \<notin> set out \<Longrightarrow> sorted_list_of_set (insert h (set out)) = insort h out"
      using assms o by (simp add: tidy_def)
    show ?thesis
    proof (cases "h \<in> set out")
      case True
      then have "set out \<union> {h} = set out" by auto
      then show ?thesis using Some Inr n o True assms by (auto simp: note_descriptor_def collects_def tidy_def)
    next
      case False
      then show ?thesis using Some Inr n o i by (auto simp: note_descriptor_def collects_def)
    qed
  qed
qed

lemma fold_max_le: "fold max xs (a :: nat) \<le> n \<longleftrightarrow> a \<le> n \<and> (\<forall>x \<in> set xs. x \<le> n)"
  by (induction xs arbitrary: a) auto

lemma sum_bind_iff: "(case x of Inl e \<Rightarrow> Inl e | Inr m \<Rightarrow> f m) = Inr z \<longleftrightarrow> (\<exists>m. x = Inr m \<and> f m = Inr z)"
  by (cases x) auto

lemma nesting_le:
  "d + nesting (JObj kvs) \<le> n \<longleftrightarrow> d \<le> n \<and> (\<forall>kv \<in> set kvs. d + 1 + nesting (snd kv) \<le> n)"
  "d + nesting (JArr vs) \<le> n \<longleftrightarrow> d \<le> n \<and> (\<forall>v \<in> set vs. d + 1 + nesting v \<le> n)"
proof -
  have a: "d + fold max xs 0 \<le> n \<longleftrightarrow> d \<le> n \<and> (\<forall>x \<in> set xs. d + x \<le> n)" for xs :: "nat list"
    using fold_max_le [of xs 0 "n - d"] by (cases "d \<le> n") (auto simp: le_diff_conv2 add.commute)
  show "d + nesting (JObj kvs) \<le> n \<longleftrightarrow> d \<le> n \<and> (\<forall>kv \<in> set kvs. d + 1 + nesting (snd kv) \<le> n)"
    by (simp add: a)
  show "d + nesting (JArr vs) \<le> n \<longleftrightarrow> d \<le> n \<and> (\<forall>v \<in> set vs. d + 1 + nesting v \<le> n)"
    by (simp add: a)
qed

lemma bind_collects:
  assumes f: "\<And>m. f = Inr m \<longleftrightarrow> P \<and> collects dec out xs m"
    and g: "\<And>m. f = Inr m \<Longrightarrow> tidy m \<Longrightarrow> g m = Inr out' \<longleftrightarrow> Q \<and> collects dec m ys out'"
  shows "(case f of Inl e \<Rightarrow> Inl e | Inr m \<Rightarrow> g m) = Inr out' \<longleftrightarrow> P \<and> Q \<and> collects dec out (xs @ ys) out'"
proof -
  have "f = Inr m \<and> g m = Inr out' \<longleftrightarrow> P \<and> Q \<and> collects dec out xs m \<and> collects dec m ys out'" for m
    using g [of m] f [of m] collects_tidy [of dec out xs m] by blast
  then show ?thesis unfolding sum_bind_iff collects_append by blast
qed

lemma walk_iff:
  "tidy out \<Longrightarrow> walk dec v path d out = Inr out' \<longleftrightarrow> d + nesting v \<le> max_descriptor_depth \<and> collects dec out (blob_values v) out'"
  "tidy out \<Longrightarrow> walk_fields dec kvs path d out = Inr out' \<longleftrightarrow>
     (\<forall>kv \<in> set kvs. d + 1 + nesting (snd kv) \<le> max_descriptor_depth) \<and> collects dec out (concat (map (\<lambda>kv. blob_values (snd kv)) kvs)) out'"
  "tidy out \<Longrightarrow> walk_items dec vs i path d out = Inr out' \<longleftrightarrow>
     (\<forall>v \<in> set vs. d + 1 + nesting v \<le> max_descriptor_depth) \<and> collects dec out (concat (map blob_values vs)) out'"
proof (induction dec v path d out and dec kvs path d out and dec vs i path d out
    arbitrary: out' and out' and out' rule: walk_walk_fields_walk_items.induct)
  case (1 dec node path depth out)
  show ?case
  proof (cases "max_descriptor_depth < depth")
    case True
    then show ?thesis by simp
  next
    case d: False
    show ?thesis
    proof (cases node)
      case (JObj kvs)
      have "walk dec node path depth out = Inr out' \<longleftrightarrow> True \<and>
          (\<forall>kv \<in> set kvs. depth + 1 + nesting (snd kv) \<le> max_descriptor_depth) \<and>
          collects dec out ((case map_of kvs descriptor_key of None \<Rightarrow> [] | Some raw \<Rightarrow> [raw]) @ concat (map (\<lambda>kv. blob_values (snd kv)) kvs)) out'"
        using bind_collects [of "note_descriptor dec path kvs out" True, OF _ "1.IH"(2) [OF d JObj]] note_descriptor_iff [OF "1.prems"] d JObj by simp
      then show ?thesis using d unfolding JObj nesting_le blob_values.simps by auto
    next
      case (JArr vs)
      then show ?thesis using d "1.IH"(1) [OF d JArr "1.prems"] unfolding JArr nesting_le by simp
    qed (use d collects_Nil [OF "1.prems"] in auto)
  qed
next
  case (3 dec k v kvs path depth out)
  show ?case using bind_collects [OF "3.IH"(1) [OF "3.prems"] "3.IH"(2)] by (simp add: conj_assoc)
next
  case (5 dec v vs i path depth out)
  show ?case using bind_collects [OF "5.IH"(1) [OF "5.prems"] "5.IH"(2)] by (simp add: conj_assoc)
qed (auto simp: collects_Nil)

text \<open>
  C28: the walk misses no blob and invents none. It accepts a document exactly when it nests at most 64 deep,
  every value under the reserved key, wherever it stands, is a digest, and at most 256 different ones are named;
  then it returns those, all of them, each once and in order. Past a bound it refuses; it never cuts off.
\<close>

theorem descriptors_are_exact:
  assumes "doc \<noteq> []" "parse doc = Some v"
  shows "descriptors_in dec parse doc = Inr hs \<longleftrightarrow>
    nesting v \<le> max_descriptor_depth \<and> (\<forall>raw \<in> set (blob_values v). \<exists>h. descriptor_hash dec raw = Inr h) \<and>
    card (named_hashes dec (blob_values v)) \<le> max_descriptors_per_doc \<and>
    sorted hs \<and> distinct hs \<and> set hs = named_hashes dec (blob_values v)"
proof -
  have "tidy []" by (simp add: tidy_def)
  from walk_iff(1) [OF this, of dec v "''doc''" 0 hs]
  have "descriptors_in dec parse doc = Inr hs \<longleftrightarrow> nesting v \<le> max_descriptor_depth \<and> collects dec [] (blob_values v) hs"
    using assms by (simp only: descriptors_in_def) simp
  moreover have "hs = sorted_list_of_set (named_hashes dec (blob_values v)) \<longleftrightarrow> sorted hs \<and> distinct hs \<and> set hs = named_hashes dec (blob_values v)"
    by (metis finite_named_hashes set_sorted_list_of_set sorted_list_of_set.distinct_sorted_key_list_of_set sorted_list_of_set.idem_if_sorted_distinct
        sorted_list_of_set.sorted_sorted_key_list_of_set map_ident)
  ultimately show ?thesis by (simp add: collects_def)
qed

theorem descriptors_are_exact_witness:
  "descriptors_in (\<lambda>s. Some (take 2 s)) (\<lambda>s. Some (JObj [(''a'', JArr [JObj [(''blob'', JStr (replicate 64 CHR ''b''))], JNull]), (''blob'', JStr (replicate 64 CHR ''a''))])) ''x''
     = Inr [''aa'', ''bb'']"
proof -
  let ?dec = "\<lambda>s :: string. Some (take 2 s)"
  let ?v = "JObj [(''a'', JArr [JObj [(''blob'', JStr (replicate 64 CHR ''b''))], JNull]), (''blob'', JStr (replicate 64 CHR ''a''))]"
  have raws: "blob_values ?v = [JStr (replicate 64 CHR ''a''), JStr (replicate 64 CHR ''b'')]" by code_simp
  have h: "descriptor_hash ?dec (JStr (replicate 64 CHR ''a'')) = Inr ''aa''" "descriptor_hash ?dec (JStr (replicate 64 CHR ''b'')) = Inr ''bb''"
    by code_simp+
  have n: "named_hashes ?dec (blob_values ?v) = {''aa'', ''bb''}" unfolding raws named_hashes_def by (auto simp: h)
  have c: "card {''aa'', ''bb''} \<le> max_descriptors_per_doc" by (simp add: max_descriptors_per_doc_def)
  have d: "nesting ?v \<le> max_descriptor_depth" by code_simp
  have s: "sorted [''aa'', ''bb'']" "distinct [''aa'', ''bb'']" "set [''aa'', ''bb''] = {''aa'', ''bb''}" by (code_simp, simp, simp)
  have p: "\<forall>raw \<in> set (blob_values ?v). \<exists>h. descriptor_hash ?dec raw = Inr h" unfolding raws by (simp add: h)
  show ?thesis
    unfolding descriptors_are_exact [where doc = "''x''" and parse = "\<lambda>s. Some ?v" and dec = ?dec and v = ?v, OF list.distinct(2) refl] n
    using c d s p by blast
qed

end
