(* ===== verification/Hive_Appdata.thy ===== *)
theory Hive_Appdata
  imports Hive_Docblobs Hive_Guestevents
begin

text \<open>
  The data layer behind \<open>host.storage\<close> (\<open>crates/hive-store/src/appdata.rs\<close>, \<open>owners.rs\<close> and the names of
  \<open>appschema.rs\<close>). A document is a row of its collection's table and a row of \<open>entities\<close> under the same id; a
  write is one transaction over both, the blob references and the event. The audit file and the owner's file
  are outside it. The tables are keyed by the quoted name the statements use. Decoding and printing of JSON and
  of identifiers, and what the full-text and vector indexes of the engine answer, are arguments.
\<close>

section \<open>Names\<close>

datatype engine = Sqlite | Postgres

definition max_identifier_len :: nat where "max_identifier_len = 63"

definition check_ident :: "string \<Rightarrow> bool" where
  "check_ident s \<longleftrightarrow>
     s \<noteq> [] \<and> length s \<le> max_identifier_len \<and> is_lower (hd s) \<and> list_all (\<lambda>c. is_lower c \<or> is_digit c \<or> c = CHR ''_'') (tl s)"

fun double_quotes :: "string \<Rightarrow> string" where
  "double_quotes [] = []"
| "double_quotes (c # s) = (if c = CHR 0x22 then [c, c] else [c]) @ double_quotes s"

definition quote_ident :: "string \<Rightarrow> string" where
  "quote_ident s = [CHR 0x22] @ double_quotes s @ [CHR 0x22]"

definition owner_table :: "string \<Rightarrow> string \<Rightarrow> string" where
  "owner_table alias t = quote_ident alias @ ''.'' @ quote_ident t"

definition table_name :: "engine \<Rightarrow> string \<Rightarrow> string \<Rightarrow> string \<Rightarrow> string" where
  "table_name en alias schema coll =
     (case en of
        Sqlite \<Rightarrow> owner_table alias (schema @ ''__'' @ coll)
      | Postgres \<Rightarrow> quote_ident schema @ ''.'' @ quote_ident coll)"

record qualified_name =
  qn_app :: "string option"
  qn_collection :: string

definition qualified_parse :: "string \<Rightarrow> store_error + qualified_name" where
  "qualified_parse raw =
     (let bad = (\<lambda>w. Inl (HostInvalid (''collection is not a valid name: '' @ w)));
          checked = (\<lambda>app coll.
            if (case app of None \<Rightarrow> False | Some a \<Rightarrow> \<not> check_ident a) then bad ''app qualifier''
            else if \<not> check_ident coll then bad ''collection''
            else Inr \<lparr>qn_app = app, qn_collection = coll\<rparr>)
      in case split_once CHR ''/'' raw of
           None \<Rightarrow> checked None raw
         | Some (a, rest) \<Rightarrow>
             if CHR ''/'' \<in> set rest then bad ''at most one slash''
             else if a = [] then bad ''empty app qualifier''
             else checked (Some a) rest)"

section \<open>State\<close>

record doc_row =
  dr_id :: uuid
  dr_doc :: json
  dr_trust :: level
  dr_tainted_by :: "string option"
  dr_created_at :: time
  dr_updated_at :: time

text \<open>The columns of \<open>entities\<close> that the access predicate does not read.\<close>

record entity_info =
  ei_id :: uuid
  ei_install_id :: uuid
  ei_collection :: string
  ei_ref :: string
  ei_author :: uuid
  ei_trust :: level
  ei_tainted_by :: "string option"
  ei_updated_at :: time

record app_db =
  ad_log :: event_db
  ad_blobs :: blob_db
  ad_info :: "entity_info list"
  ad_tables :: "string \<Rightarrow> doc_row list option"
  ad_files :: "string \<Rightarrow> owner option"

record near =
  nr_path :: string
  nr_vector :: "json list"

record doc_request =
  dq_collection :: string
  dq_id :: string
  dq_ref :: string
  dq_kind :: string
  dq_doc :: "json option"
  dq_match :: "json option"
  dq_limit :: int
  dq_after :: string
  dq_search :: string
  dq_near :: "near option"

definition doc_request_default :: doc_request where
  "doc_request_default = \<lparr>dq_collection = [], dq_id = [], dq_ref = [], dq_kind = [], dq_doc = None, dq_match = None,
     dq_limit = 0, dq_after = [], dq_search = [], dq_near = None\<rparr>"

record data_env =
  de_engine :: engine
  de_owners_dir :: string
  de_uuid_text :: "uuid \<Rightarrow> string"
  de_uuid_parse :: "string \<Rightarrow> uuid option"
  de_hex :: "string \<Rightarrow> string option"
  de_body :: "string \<Rightarrow> doc_request option"
  de_json :: "json json_lib"
  de_collections :: "uuid \<Rightarrow> collection list option"
  de_vector_ok :: "index \<Rightarrow> json \<Rightarrow> bool"
  de_matches :: "index \<Rightarrow> string \<Rightarrow> json \<Rightarrow> bool"
  de_distance :: "index \<Rightarrow> string \<Rightarrow> json \<Rightarrow> int option"

section \<open>The owner's file\<close>

definition owner_file :: "data_env \<Rightarrow> owner \<Rightarrow> string" where
  "owner_file env w = de_owners_dir env @ ''/'' @ principal_kind_as_str (o_kind w) @ ''-'' @ de_uuid_text env (o_id w) @ ''.db''"

definition owner_alias :: "data_env \<Rightarrow> owner \<Rightarrow> string" where
  "owner_alias env w = ''o_'' @ principal_kind_as_str (o_kind w) @ ''_'' @ filter (\<lambda>c. c \<noteq> CHR ''-'') (de_uuid_text env (o_id w))"

text \<open>The marker is written once, on a connection of its own: a file keeps the first owner it was made for.\<close>

definition initialise :: "data_env \<Rightarrow> (string \<Rightarrow> owner option) \<Rightarrow> owner \<Rightarrow> string \<Rightarrow> owner option" where
  "initialise env fs w = (let p = owner_file env w in if fs p = None then fs(p := Some w) else fs)"

definition attach_owner :: "data_env \<Rightarrow> (string \<Rightarrow> owner option) \<Rightarrow> owner \<Rightarrow> (string \<Rightarrow> owner option) \<times> (store_error + string)" where
  "attach_owner env fs w =
     (case de_engine env of
        Postgres \<Rightarrow> (fs, Inr (owner_alias env w))
      | Sqlite \<Rightarrow>
          (let fs' = initialise env fs w
           in (fs', if fs' (owner_file env w) = Some w then Inr (owner_alias env w) else Inl (Other ''owner file belongs to another''))))"

section \<open>Requests\<close>

fun doc_host :: "bool \<Rightarrow> store_error \<Rightarrow> store_error" where
  "doc_host as_not_found Denied = (if as_not_found then HostNotFound ''no such document'' else HostDenied)"
| "doc_host _ HostDenied = HostDenied"
| "doc_host _ (HostInvalid m) = HostInvalid m"
| "doc_host _ (HostNotFound m) = HostNotFound m"
| "doc_host _ (CredentialError _) = HostDenied"
| "doc_host _ _ = HostInternal"

definition doc_parse :: "data_env \<Rightarrow> request \<Rightarrow> store_error + doc_request" where
  "doc_parse env req =
     (case (if rq_body req = [] then Some doc_request_default else de_body env (rq_body req)) of
        None \<Rightarrow> Inl (HostInvalid ''body is not an object'')
      | Some d \<Rightarrow>
          if dq_collection d = [] then Inl (HostInvalid ''collection is required'')
          else (case qualified_parse (dq_collection d) of Inl e \<Rightarrow> Inl e | Inr _ \<Rightarrow> Inr d))"

definition doc_id :: "data_env \<Rightarrow> doc_request \<Rightarrow> store_error + uuid" where
  "doc_id env d =
     (if dq_id d = [] then Inl (HostInvalid ''id is required'')
      else (case de_uuid_parse env (dq_id d) of None \<Rightarrow> Inl (HostInvalid ''id is not a uuid'') | Some i \<Rightarrow> Inr i))"

definition doc_or_empty :: "doc_request \<Rightarrow> json" where
  "doc_or_empty d = (case dq_doc d of None \<Rightarrow> JObj [] | Some v \<Rightarrow> v)"

definition write_trust :: "level \<Rightarrow> level \<Rightarrow> level" where
  "write_trust existing incoming = weaker existing incoming"

definition nullable :: "string \<Rightarrow> string option" where
  "nullable s = (if s = [] then None else Some s)"

section \<open>Targets\<close>

record target_coll =
  tc_info :: install_info
  tc_collection :: string
  tc_cross :: bool
  tc_table :: string

definition core_app :: string where "core_app = ''core''"

definition target_install :: "'z core_db_scheme \<Rightarrow> credential \<Rightarrow> string \<Rightarrow> install option" where
  "target_install db c app =
     List.find (\<lambda>i. i_slug i = (if app = core_app then core_app else app) \<and> i_owner i = owner_of c \<and> i_state i = Active) (installs db)"

text \<open>The owner of a qualified name is the credential's; the request has no way to name one.\<close>

definition resolve_target ::
  "data_env \<Rightarrow> app_db \<Rightarrow> install_info \<Rightarrow> credential \<Rightarrow> string \<Rightarrow> (string \<Rightarrow> owner option) \<times> (store_error + target_coll)" where
  "resolve_target env d caller c raw =
     (let at = (\<lambda>info cross coll.
        case attach_owner env (ad_files d) (ii_owner info) of
          (fs, Inl e) \<Rightarrow> (fs, Inl e)
        | (fs, Inr alias) \<Rightarrow>
            (fs, Inr \<lparr>tc_info = info, tc_collection = coll, tc_cross = cross,
                      tc_table = table_name (de_engine env) alias (ii_schema info) coll\<rparr>))
      in case qualified_parse raw of
           Inl e \<Rightarrow> (ad_files d, Inl e)
         | Inr q \<Rightarrow>
             (case qn_app q of
                None \<Rightarrow> at caller False (qn_collection q)
              | Some app \<Rightarrow>
                  (case target_install (ad_log d) c app of
                     None \<Rightarrow> (ad_files d, Inl (HostNotFound ''no active app here''))
                   | Some i \<Rightarrow>
                       (case resolve_active_install (de_collections env) (ad_log d) (i_id i) of
                          Inl e \<Rightarrow> (ad_files d, Inl e)
                        | Inr info \<Rightarrow> at info (ii_id info \<noteq> ii_id caller) (qn_collection q)))))"

definition declared :: "target_coll \<Rightarrow> store_error + unit" where
  "declared t = (if tc_collection t \<in> set (ii_collections (tc_info t)) then Inr () else Inl (HostNotFound ''collection is not declared''))"

text \<open>What every verb does first: the caller's install, the body, the collection it means, and that it is declared.\<close>

definition open_target ::
  "data_env \<Rightarrow> app_db \<Rightarrow> request \<Rightarrow> (string \<Rightarrow> owner option) \<times> (store_error + (doc_request \<times> install_info \<times> target_coll))" where
  "open_target env d req =
     (case resolve_active_install (de_collections env) (ad_log d) (cl_install_id (rq_caller req)) of
        Inl e \<Rightarrow> (ad_files d, Inl e)
      | Inr info \<Rightarrow>
     (case doc_parse env req of
        Inl e \<Rightarrow> (ad_files d, Inl e)
      | Inr q \<Rightarrow>
     (case resolve_target env d info (cl_cred (rq_caller req)) (dq_collection q) of
        (fs, Inl e) \<Rightarrow> (fs, Inl e)
      | (fs, Inr t) \<Rightarrow> (case declared t of Inl e \<Rightarrow> (fs, Inl e) | Inr _ \<Rightarrow> (fs, Inr (q, info, t))))))"

text \<open>The collection gate: always on an insert, and on the other verbs where the collection is another install's.\<close>

definition collection_gate ::
  "app_db \<Rightarrow> audit_db \<Rightarrow> request \<Rightarrow> install_info \<Rightarrow> target_coll \<Rightarrow> access \<Rightarrow> string \<Rightarrow> bool \<Rightarrow> time \<times> time \<Rightarrow> audit_db \<times> (store_error + unit)" where
  "collection_gate d au req info t x note as_not_found tm =
     (case authorize_collection (ad_log d) au (cl_cred (rq_caller req)) (subject_named SCollection (ii_id (tc_info t)) (tc_collection t))
             (ii_id info) x note (fst tm) (snd tm) of
        (au', Inl e) \<Rightarrow> (au', Inl (doc_host as_not_found e))
      | (au', Inr _) \<Rightarrow> (au', Inr ()))"

definition cross_gate ::
  "app_db \<Rightarrow> audit_db \<Rightarrow> request \<Rightarrow> install_info \<Rightarrow> target_coll \<Rightarrow> access \<Rightarrow> string \<Rightarrow> time \<times> time \<Rightarrow> audit_db \<times> (store_error + unit)" where
  "cross_gate d au req info t x note tm =
     (if tc_cross t then collection_gate d au req info t x note True tm else (au, Inr ()))"

definition entity_gate ::
  "app_db \<Rightarrow> audit_db \<Rightarrow> request \<Rightarrow> uuid \<Rightarrow> access \<Rightarrow> string \<Rightarrow> time \<times> time \<Rightarrow> audit_db \<times> (store_error + reason)" where
  "entity_gate d au req i x note tm =
     (case authorize (ad_log d) au (cl_cred (rq_caller req)) (subject_new SEntity i) x note (fst tm) (snd tm) of
        (au', Inl e) \<Rightarrow> (au', Inl (doc_host True e))
      | (au', Inr r) \<Rightarrow> (au', Inr r))"

section \<open>Rows\<close>

text \<open>What a write reads from the clock and draws at random, and whether its commit goes through.\<close>

record write_facts =
  wf_gate :: "time \<times> time"
  wf_entity :: "time \<times> time"
  wf_ref :: uuid
  wf_id :: uuid
  wf_now :: time
  wf_engine_now :: time
  wf_link :: "nat \<Rightarrow> uuid \<times> time"
  wf_release :: "nat \<Rightarrow> time"
  wf_clk :: "nat \<Rightarrow> time \<times> time"
  wf_commits :: bool

datatype doc_reply =
    Inserted uuid string time
  | Updated uuid time level
  | Deleted uuid

definition insert_entity :: "app_db \<Rightarrow> entity \<Rightarrow> entity_info \<Rightarrow> store_error + app_db" where
  "insert_entity d e i =
     (if e_id e \<in> set (map e_id (entities (ad_log d))) \<or>
         (\<exists>j \<in> set (ad_info d). ei_install_id j = ei_install_id i \<and> ei_collection j = ei_collection i \<and> ei_ref j = ei_ref i)
      then Inl (DbError ''insert entity'' UniqueViolation)
      else if find_install (ad_log d) (ei_install_id i) = None \<or> find_actor (ad_log d) (o_id (e_owner e)) = None \<or>
              find_actor (ad_log d) (ei_author i) = None
      then Inl (DbError ''insert entity'' ForeignKeyViolation)
      else Inr (d\<lparr>ad_log := (ad_log d)\<lparr>entities := entities (ad_log d) @ [e]\<rparr>, ad_info := ad_info d @ [i]\<rparr>))"

definition vectors_ok :: "data_env \<Rightarrow> target_coll \<Rightarrow> json \<Rightarrow> bool" where
  "vectors_ok env t v \<longleftrightarrow>
     list_all (\<lambda>x. xd_collection x = tc_collection t \<and> ix_method (xd_index x) = Vector \<longrightarrow> de_vector_ok env (xd_index x) v) (ii_indexes (tc_info t))"

definition wrong_dimension :: store_error where
  "wrong_dimension = HostInvalid ''a vector in the document has the wrong dimension for its index''"

definition insert_doc :: "data_env \<Rightarrow> target_coll \<Rightarrow> app_db \<Rightarrow> doc_row \<Rightarrow> store_error + app_db" where
  "insert_doc env t d r =
     (case ad_tables d (tc_table t) of
        None \<Rightarrow> Inl (DbError ''insert document'' (TriggerAbort ''no such table''))
      | Some rows \<Rightarrow>
          if dr_id r \<in> set (map dr_id rows) then Inl (DbError ''insert document'' UniqueViolation)
          else if \<not> vectors_ok env t (dr_doc r) then Inl wrong_dimension
          else Inr (d\<lparr>ad_tables := (ad_tables d)(tc_table t := Some (rows @ [r]))\<rparr>))"

text \<open>The trigger stamps a row whose \<open>updated_at\<close> the statement left as it was; SQLite returns the statement's value.\<close>

definition touched_at :: "time \<Rightarrow> time \<Rightarrow> doc_row \<Rightarrow> time" where
  "touched_at now engine_now r = (if now = dr_updated_at r then engine_now else now)"

definition update_doc ::
  "data_env \<Rightarrow> target_coll \<Rightarrow> app_db \<Rightarrow> uuid \<Rightarrow> json \<Rightarrow> level \<Rightarrow> string option \<Rightarrow> time \<Rightarrow> time \<Rightarrow> store_error + app_db \<times> time" where
  "update_doc env t d i v l by now engine_now =
     (case ad_tables d (tc_table t) of
        None \<Rightarrow> Inl (DbError ''update document'' (TriggerAbort ''no such table''))
      | Some rows \<Rightarrow>
          (case List.find (\<lambda>r. dr_id r = i) rows of
             None \<Rightarrow> Inl (HostNotFound ''no such document'')
           | Some old \<Rightarrow>
               if \<not> vectors_ok env t v then Inl wrong_dimension
               else Inr (d\<lparr>ad_tables := (ad_tables d)(tc_table t := Some (update_rows (\<lambda>r. dr_id r = i)
                             (\<lambda>r. r\<lparr>dr_doc := v, dr_trust := l, dr_tainted_by := (case by of None \<Rightarrow> dr_tainted_by r | x \<Rightarrow> x),
                                    dr_updated_at := touched_at now engine_now r\<rparr>) rows))\<rparr>,
                         case de_engine env of Sqlite \<Rightarrow> now | Postgres \<Rightarrow> touched_at now engine_now old)))"

definition update_entity :: "app_db \<Rightarrow> uuid \<Rightarrow> level \<Rightarrow> string option \<Rightarrow> time \<Rightarrow> app_db" where
  "update_entity d i l by now =
     d\<lparr>ad_info := update_rows (\<lambda>j. ei_id j = i)
         (\<lambda>j. j\<lparr>ei_trust := l, ei_tainted_by := (case by of None \<Rightarrow> ei_tainted_by j | x \<Rightarrow> x), ei_updated_at := now\<rparr>) (ad_info d)\<rparr>"

definition delete_doc :: "target_coll \<Rightarrow> app_db \<Rightarrow> uuid \<Rightarrow> store_error + app_db" where
  "delete_doc t d i =
     (case ad_tables d (tc_table t) of
        None \<Rightarrow> Inl (DbError ''delete document'' (TriggerAbort ''no such table''))
      | Some rows \<Rightarrow> Inr (d\<lparr>ad_tables := (ad_tables d)(tc_table t := Some (delete_rows (\<lambda>r. dr_id r = i) rows))\<rparr>))"

definition delete_entity :: "app_db \<Rightarrow> uuid \<Rightarrow> store_error + app_db" where
  "delete_entity d i =
     (if count_rows (\<lambda>e. e_id e = i) (entities (ad_log d)) = 0 then Inl (HostNotFound ''no such document'')
      else Inr (d\<lparr>ad_log := (ad_log d)\<lparr>entities := delete_rows (\<lambda>e. e_id e = i) (entities (ad_log d))\<rparr>,
                  ad_info := delete_rows (\<lambda>j. ei_id j = i) (ad_info d)\<rparr>))"

definition entity_live :: "app_db \<Rightarrow> uuid \<Rightarrow> bool" where
  "entity_live d i \<longleftrightarrow> (\<exists>e \<in> set (entities (ad_log d)). e_id e = i \<and> e_deleted_at e = None)"

definition find_info :: "app_db \<Rightarrow> uuid \<Rightarrow> entity_info option" where
  "find_info d i = (if entity_live d i then List.find (\<lambda>j. ei_id j = i) (ad_info d) else None)"

section \<open>References and events\<close>

fun descriptor_denied :: "blob_error \<Rightarrow> store_error" where
  "descriptor_denied (BlobNotFound _ _) = HostNotFound ''no such blob''"
| "descriptor_denied _ = Other ''blob''"

fun link_each :: "'z core_db_scheme \<Rightarrow> credential \<Rightarrow> ref_spec \<Rightarrow> (nat \<Rightarrow> uuid \<times> time) \<Rightarrow> nat \<Rightarrow> blob_db \<Rightarrow> hash list \<Rightarrow> store_error + blob_db" where
  "link_each db c s fresh n bd [] = Inr bd"
| "link_each db c s fresh n bd (h # hs) =
     (case link_ref db bd c h s (fst (fresh n)) (snd (fresh n)) of
        Inl e \<Rightarrow> Inl (descriptor_denied e)
      | Inr (bd', _) \<Rightarrow> link_each db c s fresh (Suc n) bd' hs)"

definition link_descriptors ::
  "data_env \<Rightarrow> app_db \<Rightarrow> request \<Rightarrow> uuid \<Rightarrow> hash list \<Rightarrow> level \<Rightarrow> (nat \<Rightarrow> uuid \<times> time) \<Rightarrow> store_error + app_db" where
  "link_descriptors env d req i hs l fresh =
     (let c = cl_cred (rq_caller req)
      in case link_each (ad_log d) c \<lparr>rs_cred = c, rs_source_kind = SrcCollection, rs_source_id = de_uuid_text env i, rs_trust = l\<rparr>
                fresh 0 (ad_blobs d) hs of
           Inl e \<Rightarrow> Inl e
         | Inr bd \<Rightarrow> Inr (d\<lparr>ad_blobs := bd\<rparr>))"

fun release_each :: "credential \<Rightarrow> string \<Rightarrow> hash list \<Rightarrow> (nat \<Rightarrow> time) \<Rightarrow> nat \<Rightarrow> blob_db \<Rightarrow> hash list \<Rightarrow> store_error + blob_db" where
  "release_each c sid wanted tm n bd [] = Inr bd"
| "release_each c sid wanted tm n bd (h # hs) =
     (if h \<in> set wanted then release_each c sid wanted tm n bd hs
      else (case release bd c h SrcCollection sid (tm n) of
              Inl _ \<Rightarrow> Inl (Other ''blob'')
            | Inr bd' \<Rightarrow> release_each c sid wanted tm (Suc n) bd' hs))"

definition doc_text :: "data_env \<Rightarrow> json \<Rightarrow> string" where
  "doc_text env v = js_text (de_json env) v"

definition relink_descriptors ::
  "data_env \<Rightarrow> app_db \<Rightarrow> request \<Rightarrow> uuid \<Rightarrow> json \<Rightarrow> level \<Rightarrow> write_facts \<Rightarrow> store_error + app_db" where
  "relink_descriptors env d req i v l w =
     (let c = cl_cred (rq_caller req); sid = de_uuid_text env i in
      case descriptors_in (de_hex env) (js_parse (de_json env)) (doc_text env v) of
        Inl e \<Rightarrow> Inl e
      | Inr named \<Rightarrow>
     (case held_by_source (ad_blobs d) c SrcCollection sid of
        Inl _ \<Rightarrow> Inl (Other ''blob'')
      | Inr held \<Rightarrow>
     (case link_descriptors env d req i (filter (\<lambda>h. h \<notin> set held) named) l (wf_link w) of
        Inl e \<Rightarrow> Inl e
      | Inr d1 \<Rightarrow>
     (case release_each c sid named (wf_release w) 0 (ad_blobs d1) held of
        Inl e \<Rightarrow> Inl e
      | Inr bd \<Rightarrow> Inr (d1\<lparr>ad_blobs := bd\<rparr>)))))"

definition doc_event :: "data_env \<Rightarrow> request \<Rightarrow> target_coll \<Rightarrow> uuid \<Rightarrow> owner \<Rightarrow> level \<Rightarrow> string \<Rightarrow> event" where
  "doc_event env req t i wn l verb =
     (event_new (ii_slug (tc_info t) @ ''.'' @ tc_collection t @ ''.'' @ verb) (cl_cred (rq_caller req))
        (js_text (de_json env) (JObj [(''collection'', JStr (tc_collection t)), (''id'', JStr (de_uuid_text env i))])))
       \<lparr>ev_subject := Some (subject_new SEntity i), ev_owner := wn, ev_trust := level_as_str l\<rparr>"

definition doc_emit :: "data_env \<Rightarrow> app_db \<Rightarrow> request \<Rightarrow> target_coll \<Rightarrow> uuid \<Rightarrow> level \<Rightarrow> string \<Rightarrow> (nat \<Rightarrow> time \<times> time) \<Rightarrow> store_error + app_db" where
  "doc_emit env d req t i l verb clk =
     (case append_events (js_store (de_json env)) clk (ad_log d)
             [doc_event env req t i (owner_of (cl_cred (rq_caller req))) l verb] of
        (_, _, Some e) \<Rightarrow> Inl e
      | (log', _, None) \<Rightarrow> Inr (d\<lparr>ad_log := log'\<rparr>))"

section \<open>The verbs that write\<close>

text \<open>The statements of each verb, in order; a failure leaves the transaction without effect.\<close>

definition insert_rows :: "data_env \<Rightarrow> app_db \<Rightarrow> request \<Rightarrow> doc_request \<Rightarrow> target_coll \<Rightarrow> write_facts \<Rightarrow> store_error + app_db \<times> doc_reply" where
  "insert_rows env d req q t w =
     (let c = cl_cred (rq_caller req); l = write_trust Trusted (rq_trust req); v = doc_or_empty q; by = nullable (rq_tainted_by req);
          rf = (if dq_ref q = [] then de_uuid_text env (wf_ref w) else dq_ref q);
          kd = (if dq_kind q = [] then tc_collection t else dq_kind q)
      in case insert_entity d \<lparr>e_id = wf_id w, e_kind = kd, e_owner = owner_of c, e_created_at = wf_now w, e_deleted_at = None\<rparr>
                \<lparr>ei_id = wf_id w, ei_install_id = ii_id (tc_info t), ei_collection = tc_collection t, ei_ref = rf, ei_author = actor_id c,
                 ei_trust = l, ei_tainted_by = by, ei_updated_at = wf_now w\<rparr> of
           Inl e \<Rightarrow> Inl e
         | Inr d1 \<Rightarrow>
     (case insert_doc env t d1 \<lparr>dr_id = wf_id w, dr_doc = v, dr_trust = l, dr_tainted_by = by, dr_created_at = wf_now w, dr_updated_at = wf_now w\<rparr> of
        Inl e \<Rightarrow> Inl e
      | Inr d2 \<Rightarrow>
     (case descriptors_in (de_hex env) (js_parse (de_json env)) (doc_text env v) of
        Inl e \<Rightarrow> Inl e
      | Inr named \<Rightarrow>
     (case link_descriptors env d2 req (wf_id w) named l (wf_link w) of
        Inl e \<Rightarrow> Inl e
      | Inr d3 \<Rightarrow>
     (case doc_emit env d3 req t (wf_id w) l ''created'' (wf_clk w) of
        Inl e \<Rightarrow> Inl e
      | Inr d4 \<Rightarrow> Inr (d4, Inserted (wf_id w) rf (wf_now w)))))))"

definition update_inner_rows :: "data_env \<Rightarrow> app_db \<Rightarrow> request \<Rightarrow> doc_request \<Rightarrow> target_coll \<Rightarrow> uuid \<Rightarrow> write_facts \<Rightarrow> store_error + app_db \<times> doc_reply" where
  "update_inner_rows env d req q t i w =
     (case find_info d i of
        None \<Rightarrow> Inl (HostNotFound ''no such document'')
      | Some j \<Rightarrow>
     (let l = write_trust (ei_trust j) (rq_trust req); by = nullable (rq_tainted_by req); v = doc_or_empty q in
      case update_doc env t d i v l by (wf_now w) (wf_engine_now w) of
        Inl e \<Rightarrow> Inl e
      | Inr (d1, at) \<Rightarrow>
     (case relink_descriptors env (update_entity d1 i l by at) req i v l w of
        Inl e \<Rightarrow> Inl e
      | Inr d2 \<Rightarrow>
     (case doc_emit env d2 req t i l ''updated'' (wf_clk w) of
        Inl e \<Rightarrow> Inl e
      | Inr d3 \<Rightarrow> Inr (d3, Updated i at l)))))"

definition delete_inner_rows :: "data_env \<Rightarrow> app_db \<Rightarrow> request \<Rightarrow> target_coll \<Rightarrow> uuid \<Rightarrow> write_facts \<Rightarrow> store_error + app_db \<times> doc_reply" where
  "delete_inner_rows env d req t i w =
     (case delete_doc t d i of
        Inl e \<Rightarrow> Inl e
      | Inr d1 \<Rightarrow>
     (case delete_entity d1 i of
        Inl e \<Rightarrow> Inl e
      | Inr d2 \<Rightarrow>
     (case release_by_source (ad_blobs d2) (cl_cred (rq_caller req)) SrcCollection (de_uuid_text env i) (wf_release w 0) of
        Inl _ \<Rightarrow> Inl (Other ''blob'')
      | Inr (bd, _) \<Rightarrow>
     (case doc_emit env (d2\<lparr>ad_blobs := bd\<rparr>) req t i Trusted ''deleted'' (wf_clk w) of
        Inl e \<Rightarrow> Inl e
      | Inr d3 \<Rightarrow> Inr (d3, Deleted i)))))"

text \<open>The end of a transaction: its effect, or nothing but the owner file that was opened.\<close>

definition finish_tx ::
  "app_db \<Rightarrow> (string \<Rightarrow> owner option) \<Rightarrow> audit_db \<Rightarrow> bool \<Rightarrow> store_error + app_db \<times> doc_reply
   \<Rightarrow> app_db \<times> audit_db \<times> (store_error + doc_reply)" where
  "finish_tx d fs au commits r =
     (case r of
        Inl e \<Rightarrow> (d\<lparr>ad_files := fs\<rparr>, au, Inl e)
      | Inr (d', x) \<Rightarrow> if commits then (d', au, Inr x) else (d\<lparr>ad_files := fs\<rparr>, au, Inl (Other ''commit'')))"

definition insert_inner :: "data_env \<Rightarrow> app_db \<Rightarrow> audit_db \<Rightarrow> request \<Rightarrow> write_facts \<Rightarrow> app_db \<times> audit_db \<times> (store_error + doc_reply)" where
  "insert_inner env d au req w =
     (case open_target env d req of
        (fs, Inl e) \<Rightarrow> (d\<lparr>ad_files := fs\<rparr>, au, Inl e)
      | (fs, Inr (q, info, t)) \<Rightarrow>
     (case collection_gate d au req info t Write ''storage.insert'' False (wf_gate w) of
        (au', Inl e) \<Rightarrow> (d\<lparr>ad_files := fs\<rparr>, au', Inl e)
      | (au', Inr _) \<Rightarrow> finish_tx d fs au' (wf_commits w) (insert_rows env (d\<lparr>ad_files := fs\<rparr>) req q t w)))"

definition update_inner :: "data_env \<Rightarrow> app_db \<Rightarrow> audit_db \<Rightarrow> request \<Rightarrow> write_facts \<Rightarrow> app_db \<times> audit_db \<times> (store_error + doc_reply)" where
  "update_inner env d au req w =
     (case open_target env d req of
        (fs, Inl e) \<Rightarrow> (d\<lparr>ad_files := fs\<rparr>, au, Inl e)
      | (fs, Inr (q, info, t)) \<Rightarrow>
     (case doc_id env q of
        Inl e \<Rightarrow> (d\<lparr>ad_files := fs\<rparr>, au, Inl e)
      | Inr i \<Rightarrow>
     (case cross_gate d au req info t Write ''storage.update'' (wf_gate w) of
        (au1, Inl e) \<Rightarrow> (d\<lparr>ad_files := fs\<rparr>, au1, Inl e)
      | (au1, Inr _) \<Rightarrow>
     (case entity_gate d au1 req i Write ''storage.update'' (wf_entity w) of
        (au2, Inl e) \<Rightarrow> (d\<lparr>ad_files := fs\<rparr>, au2, Inl e)
      | (au2, Inr _) \<Rightarrow> finish_tx d fs au2 (wf_commits w) (update_inner_rows env (d\<lparr>ad_files := fs\<rparr>) req q t i w)))))"

definition delete_inner :: "data_env \<Rightarrow> app_db \<Rightarrow> audit_db \<Rightarrow> request \<Rightarrow> write_facts \<Rightarrow> app_db \<times> audit_db \<times> (store_error + doc_reply)" where
  "delete_inner env d au req w =
     (case open_target env d req of
        (fs, Inl e) \<Rightarrow> (d\<lparr>ad_files := fs\<rparr>, au, Inl e)
      | (fs, Inr (q, info, t)) \<Rightarrow>
     (case doc_id env q of
        Inl e \<Rightarrow> (d\<lparr>ad_files := fs\<rparr>, au, Inl e)
      | Inr i \<Rightarrow>
     (case cross_gate d au req info t Write ''storage.delete'' (wf_gate w) of
        (au1, Inl e) \<Rightarrow> (d\<lparr>ad_files := fs\<rparr>, au1, Inl e)
      | (au1, Inr _) \<Rightarrow>
     (case entity_gate d au1 req i Write ''storage.delete'' (wf_entity w) of
        (au2, Inl e) \<Rightarrow> (d\<lparr>ad_files := fs\<rparr>, au2, Inl e)
      | (au2, Inr r) \<Rightarrow>
          if r \<noteq> OwnerReason then (d\<lparr>ad_files := fs\<rparr>, au2, Inl HostDenied)
          else finish_tx d fs au2 (wf_commits w) (delete_inner_rows env (d\<lparr>ad_files := fs\<rparr>) req t i w)))))"

section \<open>Reading one document\<close>

record doc_view =
  dv_id :: uuid
  dv_ref :: string
  dv_kind :: string
  dv_doc :: json
  dv_trust :: level
  dv_tainted_by :: string
  dv_distance :: "int option"
  dv_created_at :: time
  dv_updated_at :: time

definition scan_doc :: "entity \<Rightarrow> entity_info \<Rightarrow> doc_row \<Rightarrow> int option \<Rightarrow> doc_view" where
  "scan_doc e j r dist =
     \<lparr>dv_id = dr_id r, dv_ref = ei_ref j, dv_kind = e_kind e, dv_doc = dr_doc r, dv_trust = dr_trust r,
      dv_tainted_by = (case dr_tainted_by r of None \<Rightarrow> [] | Some b \<Rightarrow> b), dv_distance = dist,
      dv_created_at = dr_created_at r, dv_updated_at = dr_updated_at r\<rparr>"

text \<open>The join of a document with its entity, where there is one that is not deleted.\<close>

definition entity_of :: "app_db \<Rightarrow> uuid \<Rightarrow> (entity \<times> entity_info) option" where
  "entity_of d i =
     (case (List.find (\<lambda>e. e_id e = i \<and> e_deleted_at e = None) (entities (ad_log d)), List.find (\<lambda>j. ei_id j = i) (ad_info d)) of
        (Some e, Some j) \<Rightarrow> Some (e, j)
      | _ \<Rightarrow> None)"

definition read_doc :: "app_db \<Rightarrow> string \<Rightarrow> uuid \<Rightarrow> store_error + doc_view" where
  "read_doc d tab i =
     (case ad_tables d tab of
        None \<Rightarrow> Inl (DbError ''read document'' (TriggerAbort ''no such table''))
      | Some rows \<Rightarrow>
          (case (List.find (\<lambda>r. dr_id r = i) rows, entity_of d i) of
             (Some r, Some (e, j)) \<Rightarrow> Inr (scan_doc e j r None)
           | _ \<Rightarrow> Inl (HostNotFound ''no such document'')))"

definition resolve_ref :: "app_db \<Rightarrow> target_coll \<Rightarrow> string \<Rightarrow> uuid option" where
  "resolve_ref d t rf =
     map_option ei_id (List.find (\<lambda>j. ei_install_id j = ii_id (tc_info t) \<and> ei_collection j = tc_collection t \<and> ei_ref j = rf \<and>
        entity_live d (ei_id j)) (ad_info d))"

definition wanted_id :: "data_env \<Rightarrow> app_db \<Rightarrow> target_coll \<Rightarrow> doc_request \<Rightarrow> store_error + uuid" where
  "wanted_id env d t q =
     (if dq_id q \<noteq> [] then doc_id env q
      else if dq_ref q \<noteq> [] then (case resolve_ref d t (dq_ref q) of None \<Rightarrow> Inl (HostNotFound ''no such document'') | Some i \<Rightarrow> Inr i)
      else Inl (HostInvalid ''id or ref is required''))"

definition get_inner ::
  "data_env \<Rightarrow> app_db \<Rightarrow> audit_db \<Rightarrow> request \<Rightarrow> time \<times> time \<Rightarrow> time \<times> time \<Rightarrow> app_db \<times> audit_db \<times> (store_error + level \<times> doc_view)" where
  "get_inner env d au req tm1 tm2 =
     (case open_target env d req of
        (fs, Inl e) \<Rightarrow> (d\<lparr>ad_files := fs\<rparr>, au, Inl e)
      | (fs, Inr (q, info, t)) \<Rightarrow>
     (case cross_gate d au req info t Read ''storage.get'' tm1 of
        (au1, Inl e) \<Rightarrow> (d\<lparr>ad_files := fs\<rparr>, au1, Inl e)
      | (au1, Inr _) \<Rightarrow>
     (case wanted_id env d t q of
        Inl e \<Rightarrow> (d\<lparr>ad_files := fs\<rparr>, au1, Inl e)
      | Inr i \<Rightarrow>
     (case entity_gate d au1 req i Read ''storage.get'' tm2 of
        (au2, Inl e) \<Rightarrow> (d\<lparr>ad_files := fs\<rparr>, au2, Inl e)
      | (au2, Inr _) \<Rightarrow>
          (d\<lparr>ad_files := fs\<rparr>, au2, case read_doc d (tc_table t) i of Inl e \<Rightarrow> Inl e | Inr v \<Rightarrow> Inr (dv_trust v, v))))))"

section \<open>The capability\<close>

definition storage_insert where "storage_insert env d au req w = (case insert_inner env d au req w of (d', au', r) \<Rightarrow> (d', au', map_sum (doc_host False) id r))"
definition storage_update where "storage_update env d au req w = (case update_inner env d au req w of (d', au', r) \<Rightarrow> (d', au', map_sum (doc_host True) id r))"
definition storage_delete where "storage_delete env d au req w = (case delete_inner env d au req w of (d', au', r) \<Rightarrow> (d', au', map_sum (doc_host True) id r))"
definition storage_get where
  "storage_get env d au req tm1 tm2 = (case get_inner env d au req tm1 tm2 of (d', au', r) \<Rightarrow> (d', au', map_sum (doc_host True) id r))"


section \<open>A document holds the blobs it names\<close>

definition held_hashes :: "blob_db \<Rightarrow> credential \<Rightarrow> string \<Rightarrow> hash set" where
  "held_hashes bd c sid = br_hash ` {r \<in> set (blob_refs bd). by_source c SrcCollection sid r}"

lemma held_iff: "x \<in> held_hashes bd c sid \<longleftrightarrow> (\<exists>r \<in> set (blob_refs bd). by_source c SrcCollection sid r \<and> br_hash r = x)"
  by (auto simp: held_hashes_def)

lemma in_update_rows_iff: "r \<in> set (update_rows p f t) \<longleftrightarrow> (\<exists>q \<in> set t. r = (if p q then f q else q))"
  by (auto simp: update_rows_def)

lemma held_by_source_set: "held_by_source bd c SrcCollection sid = Inr hs \<Longrightarrow> set hs = held_hashes bd c sid"
  by (auto simp: held_by_source_def held_hashes_def split: sum.split_asm)

lemma insert_ref_held:
  assumes "insert_ref db bd h s l i now = Inr (bd', r)"
    and s: "owner_of (rs_cred s) = owner_of c" "rs_source_kind s = SrcCollection" "rs_source_id s = sid"
  shows "held_hashes bd' c sid = insert h (held_hashes bd c sid)"
proof (cases "List.find (same_ref h s) (blob_refs bd)")
  case None
  then obtain x where "bd' = bd\<lparr>blob_refs := blob_refs bd @ [x]\<rparr>" "br_hash x = h" "by_source c SrcCollection sid x"
    using assms(1) s by (auto simp: insert_ref_def Let_def by_source_def split: if_split_asm)
  then show ?thesis by (auto simp: held_hashes_def)
next
  case (Some old)
  then have o: "old \<in> set (blob_refs bd)" "same_ref h s old" by (auto dest: find_SomeD)
  let ?f = "revive_ref (actor_id (rs_cred s)) l"
  have b: "blob_refs bd' = update_rows (same_ref h s) ?f (blob_refs bd)"
    using assms(1) Some by (auto simp: insert_ref_def Let_def split: if_split_asm)
  have live: "br_hash (?f r) = h \<and> by_source c SrcCollection sid (?f r)" if "same_ref h s r" for r
    using that s by (simp add: same_ref_def revive_ref_def by_source_def)
  have "x \<in> held_hashes bd' c sid \<longleftrightarrow> x = h \<or> x \<in> held_hashes bd c sid" for x
  proof
    assume "x \<in> held_hashes bd' c sid"
    then obtain r where r: "r \<in> set (update_rows (same_ref h s) ?f (blob_refs bd))" "by_source c SrcCollection sid r" "br_hash r = x"
      unfolding held_iff b by blast
    from r(1) show "x = h \<or> x \<in> held_hashes bd c sid"
    proof (cases rule: in_update_rowsE)
      case (changed r0)
      then show ?thesis using live [of r0] r(3) by simp
    next
      case kept
      then show ?thesis using r unfolding held_iff by blast
    qed
  next
    assume x: "x = h \<or> x \<in> held_hashes bd c sid"
    show "x \<in> held_hashes bd' c sid"
    proof (cases "x = h")
      case True
      have "?f old \<in> set (blob_refs bd')" unfolding b in_update_rows_iff using o by (intro bexI [of _ old]) simp_all
      then show ?thesis using live [OF o(2)] True unfolding held_iff by blast
    next
      case False
      then obtain r where r: "r \<in> set (blob_refs bd)" "by_source c SrcCollection sid r" "br_hash r = x" using x unfolding held_iff by blast
      then have "\<not> same_ref h s r" using False by (auto simp: same_ref_def)
      then have "r \<in> set (blob_refs bd')" unfolding b in_update_rows_iff using r(1) by (intro bexI [of _ r]) simp_all
      then show ?thesis using r unfolding held_iff by blast
    qed
  qed
  then show ?thesis by blast
qed

lemma link_each_held:
  assumes "link_each db c s fresh n bd hs = Inr bd'"
    and s: "owner_of (rs_cred s) = owner_of c" "rs_source_kind s = SrcCollection" "rs_source_id s = sid"
  shows "held_hashes bd' c sid = held_hashes bd c sid \<union> set hs"
  using assms(1)
proof (induction hs arbitrary: n bd)
  case (Cons h hs)
  then obtain bd1 r where l: "link_ref db bd c h s (fst (fresh n)) (snd (fresh n)) = Inr (bd1, r)" "link_each db c s fresh (Suc n) bd1 hs = Inr bd'"
    by (auto split: sum.split_asm prod.split_asm)
  then obtain lv where "insert_ref db bd h s lv (fst (fresh n)) (snd (fresh n)) = Inr (bd1, r)"
    by (auto simp: link_ref_def split: sum.split_asm if_split_asm prod.split_asm)
  from insert_ref_held [OF this s] Cons.IH [OF l(2)] show ?case by auto
qed simp

lemma release_held:
  assumes "release bd c h SrcCollection sid now = Inr bd'"
  shows "held_hashes bd' c sid = held_hashes bd c sid - {h}"
proof -
  let ?p = "\<lambda>r. br_hash r = h \<and> by_source c SrcCollection sid r"
  have b: "blob_refs bd' = update_rows ?p (\<lambda>r. r\<lparr>br_released_at := Some now\<rparr>) (blob_refs bd)"
    using assms by (auto simp: release_def Let_def split: sum.split_asm if_split_asm)
  have gone: "\<not> by_source c SrcCollection sid (r\<lparr>br_released_at := Some now\<rparr>)" for r by (simp add: by_source_def)
  have "x \<in> held_hashes bd' c sid \<longleftrightarrow> x \<in> held_hashes bd c sid \<and> x \<noteq> h" for x
  proof
    assume "x \<in> held_hashes bd' c sid"
    then obtain r where r: "r \<in> set (update_rows ?p (\<lambda>r. r\<lparr>br_released_at := Some now\<rparr>) (blob_refs bd))" "by_source c SrcCollection sid r" "br_hash r = x"
      unfolding held_iff b by blast
    from r(1) show "x \<in> held_hashes bd c sid \<and> x \<noteq> h"
    proof (cases rule: in_update_rowsE)
      case (changed r0)
      then show ?thesis using gone [of r0] r(2) by simp
    next
      case kept
      then show ?thesis using r unfolding held_iff by blast
    qed
  next
    assume "x \<in> held_hashes bd c sid \<and> x \<noteq> h"
    then obtain r where r: "r \<in> set (blob_refs bd)" "by_source c SrcCollection sid r" "br_hash r = x" "x \<noteq> h" unfolding held_iff by blast
    then have "r \<in> set (blob_refs bd')" unfolding b in_update_rows_iff by (intro bexI [of _ r]) simp_all
    then show "x \<in> held_hashes bd' c sid" using r unfolding held_iff by blast
  qed
  then show ?thesis by blast
qed

lemma release_each_held:
  assumes "release_each c sid wanted tm n bd hs = Inr bd'"
  shows "held_hashes bd' c sid = held_hashes bd c sid - (set hs - set wanted)"
  using assms
proof (induction hs arbitrary: n bd)
  case (Cons h hs)
  show ?case
  proof (cases "h \<in> set wanted")
    case True
    with Cons show ?thesis by auto
  next
    case False
    then obtain bd1 where r: "release bd c h SrcCollection sid (tm n) = Inr bd1" "release_each c sid wanted tm (Suc n) bd1 hs = Inr bd'"
      using Cons.prems by (auto split: sum.split_asm)
    from release_held [OF r(1)] Cons.IH [OF r(2)] False show ?thesis by auto
  qed
qed simp

text \<open>The references that are not the caller's own for this document: none of them is touched.\<close>

definition elsewhere :: "credential \<Rightarrow> string \<Rightarrow> blob_ref \<Rightarrow> bool" where
  "elsewhere c sid r \<longleftrightarrow> br_owner r \<noteq> owner_of c \<or> br_source_kind r \<noteq> SrcCollection \<or> br_source_id r \<noteq> sid"

definition refs_elsewhere :: "blob_db \<Rightarrow> credential \<Rightarrow> string \<Rightarrow> blob_ref list" where
  "refs_elsewhere bd c sid = filter (elsewhere c sid) (blob_refs bd)"

lemma filter_update_rows:
  assumes "\<And>r. p r \<Longrightarrow> \<not> k r \<and> \<not> k (f r)"
  shows "filter k (update_rows p f t) = filter k t"
  using assms by (induction t) (auto simp: update_rows_def)

lemma insert_ref_elsewhere:
  assumes "insert_ref db bd h s l i now = Inr (bd', r)"
    and s: "owner_of (rs_cred s) = owner_of c" "rs_source_kind s = SrcCollection" "rs_source_id s = sid"
  shows "refs_elsewhere bd' c sid = refs_elsewhere bd c sid"
proof -
  have "filter (elsewhere c sid) (update_rows (same_ref h s) (revive_ref (actor_id (rs_cred s)) l) (blob_refs bd)) =
      filter (elsewhere c sid) (blob_refs bd)"
    by (rule filter_update_rows) (use s in \<open>simp add: same_ref_def elsewhere_def revive_ref_def\<close>)
  then show ?thesis
    using assms by (auto simp: insert_ref_def refs_elsewhere_def elsewhere_def Let_def split: option.split_asm if_split_asm)
qed

lemma link_each_elsewhere:
  assumes "link_each db c s fresh n bd hs = Inr bd'"
    and s: "owner_of (rs_cred s) = owner_of c" "rs_source_kind s = SrcCollection" "rs_source_id s = sid"
  shows "refs_elsewhere bd' c sid = refs_elsewhere bd c sid"
  using assms(1)
proof (induction hs arbitrary: n bd)
  case (Cons h hs)
  then obtain bd1 r where l: "link_ref db bd c h s (fst (fresh n)) (snd (fresh n)) = Inr (bd1, r)" "link_each db c s fresh (Suc n) bd1 hs = Inr bd'"
    by (auto split: sum.split_asm prod.split_asm)
  then obtain lv where "insert_ref db bd h s lv (fst (fresh n)) (snd (fresh n)) = Inr (bd1, r)"
    by (auto simp: link_ref_def split: sum.split_asm if_split_asm prod.split_asm)
  from insert_ref_elsewhere [OF this s] Cons.IH [OF l(2)] show ?case by simp
qed simp

lemma release_elsewhere:
  assumes "release bd c h SrcCollection sid now = Inr bd'"
  shows "refs_elsewhere bd' c sid = refs_elsewhere bd c sid"
proof -
  have "blob_refs bd' = update_rows (\<lambda>r. br_hash r = h \<and> by_source c SrcCollection sid r) (\<lambda>r. r\<lparr>br_released_at := Some now\<rparr>) (blob_refs bd)"
    using assms by (auto simp: release_def Let_def split: sum.split_asm if_split_asm)
  then show ?thesis unfolding refs_elsewhere_def
    by (simp only:) (rule filter_update_rows, simp add: by_source_def elsewhere_def)
qed

lemma release_each_elsewhere:
  "release_each c sid wanted tm n bd hs = Inr bd' \<Longrightarrow> refs_elsewhere bd' c sid = refs_elsewhere bd c sid"
proof (induction hs arbitrary: n bd)
  case (Cons h hs)
  then show ?case by (auto split: if_split_asm sum.split_asm dest!: release_elsewhere)
qed simp

lemma link_descriptors_held:
  assumes "link_descriptors env d req i hs l fresh = Inr d'"
  shows "held_hashes (ad_blobs d') (cl_cred (rq_caller req)) (de_uuid_text env i) =
           held_hashes (ad_blobs d) (cl_cred (rq_caller req)) (de_uuid_text env i) \<union> set hs"
    "d' = d\<lparr>ad_blobs := ad_blobs d'\<rparr>"
  using assms link_each_held by (fastforce simp: link_descriptors_def Let_def split: sum.split_asm)+

lemma link_descriptors_elsewhere:
  assumes "link_descriptors env d req i hs l fresh = Inr d'"
  shows "refs_elsewhere (ad_blobs d') (cl_cred (rq_caller req)) (de_uuid_text env i) =
    refs_elsewhere (ad_blobs d) (cl_cred (rq_caller req)) (de_uuid_text env i)"
  using assms link_each_elsewhere by (fastforce simp: link_descriptors_def Let_def split: sum.split_asm)

lemma relink_descriptors_held:
  assumes "relink_descriptors env d req i v l w = Inr d'"
  obtains named where "descriptors_in (de_hex env) (js_parse (de_json env)) (doc_text env v) = Inr named"
    "held_hashes (ad_blobs d') (cl_cred (rq_caller req)) (de_uuid_text env i) = set named" "d' = d\<lparr>ad_blobs := ad_blobs d'\<rparr>"
    "refs_elsewhere (ad_blobs d') (cl_cred (rq_caller req)) (de_uuid_text env i) =
       refs_elsewhere (ad_blobs d) (cl_cred (rq_caller req)) (de_uuid_text env i)"
proof -
  let ?c = "cl_cred (rq_caller req)" and ?sid = "de_uuid_text env i"
  obtain named where n: "descriptors_in (de_hex env) (js_parse (de_json env)) (doc_text env v) = Inr named"
    using assms by (auto simp: relink_descriptors_def Let_def split: sum.split_asm)
  obtain held where h: "held_by_source (ad_blobs d) ?c SrcCollection ?sid = Inr held"
    using assms n by (auto simp: relink_descriptors_def Let_def split: sum.split_asm)
  obtain d1 where d1: "link_descriptors env d req i (filter (\<lambda>h. h \<notin> set held) named) l (wf_link w) = Inr d1"
    using assms n h by (auto simp: relink_descriptors_def Let_def split: sum.split_asm)
  obtain bd where bd: "release_each ?c ?sid named (wf_release w) 0 (ad_blobs d1) held = Inr bd" "d' = d1\<lparr>ad_blobs := bd\<rparr>"
    using assms n h d1 by (auto simp: relink_descriptors_def Let_def split: sum.split_asm)
  have "held_hashes bd ?c ?sid = set named"
    using release_each_held [OF bd(1)] link_descriptors_held(1) [OF d1] held_by_source_set [OF h] by auto
  moreover have "d' = d\<lparr>ad_blobs := ad_blobs d'\<rparr>" using link_descriptors_held(2) [OF d1] bd(2) by (metis app_db.surjective app_db.update_convs(2))
  moreover have "refs_elsewhere bd ?c ?sid = refs_elsewhere (ad_blobs d) ?c ?sid"
    using release_each_elsewhere [OF bd(1)] link_descriptors_elsewhere [OF d1] by simp
  ultimately show thesis using that n bd(2) by simp
qed

lemma doc_emit_keeps:
  assumes "doc_emit env d req t i l verb clk = Inr d'"
  shows "d' = d\<lparr>ad_log := ad_log d'\<rparr>" "core_db.truncate (ad_log d') = core_db.truncate (ad_log d)"
proof -
  obtain es log' where a: "append_events (js_store (de_json env)) clk (ad_log d)
      [doc_event env req t i (owner_of (cl_cred (rq_caller req))) l verb] = (log', es, None)" "d' = d\<lparr>ad_log := log'\<rparr>"
    using assms by (auto simp: doc_emit_def split: prod.split_asm option.split_asm)
  show "d' = d\<lparr>ad_log := ad_log d'\<rparr>" using a(2) by simp
  from a(1) obtain log1 e1 where l: "append_event (js_store (de_json env)) (fst (clk 0)) (snd (clk 0)) (ad_log d)
      (doc_event env req t i (owner_of (cl_cred (rq_caller req))) l verb) = (log1, e1, None)" "log' = ring log1"
    by (auto simp: append_events_def split: prod.split_asm option.split_asm)
  from l(1) obtain r where "insert_event (js_store (de_json env)) (snd (clk 0)) (ad_log d) r = Inr log1"
    by (cases rule: append_event_cases) simp_all
  then have "core_db.truncate log1 = core_db.truncate (ad_log d)"
    by (auto simp: insert_event_def Let_def core_db.truncate_def split: if_split_asm option.split_asm)
  then show "core_db.truncate (ad_log d') = core_db.truncate (ad_log d)"
    using a(2) l(2) by (simp add: ring_def core_db.truncate_def)
qed

lemma link_keeps:
  assumes "link_descriptors env d req i hs l fresh = Inr d'"
  shows "ad_tables d' = ad_tables d" "ad_info d' = ad_info d" "ad_log d' = ad_log d"
  using assms by (auto simp: link_descriptors_def Let_def split: sum.split_asm)

lemma emit_keeps:
  assumes "doc_emit env d req t i l verb clk = Inr d'"
  shows "ad_tables d' = ad_tables d" "ad_info d' = ad_info d" "ad_blobs d' = ad_blobs d" "entities (ad_log d') = entities (ad_log d)"
    "installs (ad_log d') = installs (ad_log d)"
proof -
  from doc_emit_keeps(1) [OF assms] obtain log where "d' = d\<lparr>ad_log := log\<rparr>" by blast
  then show "ad_tables d' = ad_tables d" "ad_info d' = ad_info d" "ad_blobs d' = ad_blobs d" by simp_all
  show "entities (ad_log d') = entities (ad_log d)" "installs (ad_log d') = installs (ad_log d)"
    using doc_emit_keeps(2) [OF assms] by (simp_all add: core_db.truncate_def)
qed


section \<open>What a verb that succeeded did\<close>

datatype doc_verb = VInsert | VUpdate | VDelete

fun write_verb :: "data_env \<Rightarrow> doc_verb \<Rightarrow> app_db \<Rightarrow> audit_db \<Rightarrow> request \<Rightarrow> write_facts \<Rightarrow> app_db \<times> audit_db \<times> (store_error + doc_reply)" where
  "write_verb env VInsert d au req w = insert_inner env d au req w"
| "write_verb env VUpdate d au req w = update_inner env d au req w"
| "write_verb env VDelete d au req w = delete_inner env d au req w"

lemma finish_tx_ok: "finish_tx d fs au cm r = (d', au', Inr x) \<Longrightarrow> r = Inr (d', x) \<and> au' = au"
  by (auto simp: finish_tx_def split: sum.split_asm prod.split_asm if_split_asm)

lemma finish_tx_error: "finish_tx d fs au cm r = (d', au', Inl x) \<Longrightarrow> d' = d\<lparr>ad_files := fs\<rparr>"
  by (auto simp: finish_tx_def split: sum.split_asm prod.split_asm if_split_asm)

lemma insert_inner_ok:
  assumes "insert_inner env d au req w = (d', au', Inr x)"
  obtains fs q info t where "open_target env d req = (fs, Inr (q, info, t))"
    "collection_gate d au req info t Write ''storage.insert'' False (wf_gate w) = (au', Inr ())"
    "insert_rows env (d\<lparr>ad_files := fs\<rparr>) req q t w = Inr (d', x)"
proof -
  obtain fs q info t where o: "open_target env d req = (fs, Inr (q, info, t))"
    using assms unfolding insert_inner_def by (auto split: prod.split_asm sum.split_asm)
  obtain au1 where g: "collection_gate d au req info t Write ''storage.insert'' False (wf_gate w) = (au1, Inr ())"
    using assms unfolding insert_inner_def o prod.case sum.case by (auto split: prod.split_asm sum.split_asm)
  from assms have "finish_tx d fs au1 (wf_commits w) (insert_rows env (d\<lparr>ad_files := fs\<rparr>) req q t w) = (d', au', Inr x)"
    unfolding insert_inner_def o prod.case sum.case g .
  from finish_tx_ok [OF this] that [OF o] g show thesis by simp
qed

lemma update_inner_ok:
  assumes "update_inner env d au req w = (d', au', Inr x)"
  obtains fs q info t i au1 rs where "open_target env d req = (fs, Inr (q, info, t))" "doc_id env q = Inr i"
    "cross_gate d au req info t Write ''storage.update'' (wf_gate w) = (au1, Inr ())"
    "entity_gate d au1 req i Write ''storage.update'' (wf_entity w) = (au', Inr rs)"
    "update_inner_rows env (d\<lparr>ad_files := fs\<rparr>) req q t i w = Inr (d', x)"
proof -
  obtain fs q info t where o: "open_target env d req = (fs, Inr (q, info, t))"
    using assms unfolding update_inner_def by (auto split: prod.split_asm sum.split_asm)
  obtain i where i: "doc_id env q = Inr i"
    using assms unfolding update_inner_def o prod.case sum.case by (auto split: prod.split_asm sum.split_asm)
  obtain au1 where g: "cross_gate d au req info t Write ''storage.update'' (wf_gate w) = (au1, Inr ())"
    using assms unfolding update_inner_def o prod.case sum.case i by (auto split: prod.split_asm sum.split_asm)
  obtain au2 rs where e: "entity_gate d au1 req i Write ''storage.update'' (wf_entity w) = (au2, Inr rs)"
    using assms unfolding update_inner_def o prod.case sum.case i g by (auto split: prod.split_asm sum.split_asm)
  from assms have "finish_tx d fs au2 (wf_commits w) (update_inner_rows env (d\<lparr>ad_files := fs\<rparr>) req q t i w) = (d', au', Inr x)"
    unfolding update_inner_def o prod.case sum.case i g e .
  from finish_tx_ok [OF this] that [OF o i g] e show thesis by simp
qed

lemma delete_inner_ok:
  assumes "delete_inner env d au req w = (d', au', Inr x)"
  obtains fs q info t i au1 where "open_target env d req = (fs, Inr (q, info, t))" "doc_id env q = Inr i"
    "cross_gate d au req info t Write ''storage.delete'' (wf_gate w) = (au1, Inr ())"
    "entity_gate d au1 req i Write ''storage.delete'' (wf_entity w) = (au', Inr OwnerReason)"
    "delete_inner_rows env (d\<lparr>ad_files := fs\<rparr>) req t i w = Inr (d', x)"
proof -
  obtain fs q info t where o: "open_target env d req = (fs, Inr (q, info, t))"
    using assms unfolding delete_inner_def by (auto split: prod.split_asm sum.split_asm)
  obtain i where i: "doc_id env q = Inr i"
    using assms unfolding delete_inner_def o prod.case sum.case by (auto split: prod.split_asm sum.split_asm)
  obtain au1 where g: "cross_gate d au req info t Write ''storage.delete'' (wf_gate w) = (au1, Inr ())"
    using assms unfolding delete_inner_def o prod.case sum.case i by (auto split: prod.split_asm sum.split_asm)
  obtain au2 where e: "entity_gate d au1 req i Write ''storage.delete'' (wf_entity w) = (au2, Inr OwnerReason)"
    using assms unfolding delete_inner_def o prod.case sum.case i g by (auto split: prod.split_asm sum.split_asm if_split_asm)
  from assms have "finish_tx d fs au2 (wf_commits w) (delete_inner_rows env (d\<lparr>ad_files := fs\<rparr>) req t i w) = (d', au', Inr x)"
    unfolding delete_inner_def o prod.case sum.case i g e by simp
  from finish_tx_ok [OF this] that [OF o i g] e show thesis by simp
qed

text \<open>The effect of each verb on the tables, the columns and the references.\<close>

lemma insert_rows_effect:
  assumes "insert_rows env d req q t w = Inr (d', x)"
  obtains rf rows named l tb kd where "x = Inserted (wf_id w) rf (wf_now w)" "l = write_trust Trusted (rq_trust req)"
    "ad_tables d (tc_table t) = Some rows" "wf_id w \<notin> set (map dr_id rows)" "wf_id w \<notin> set (map e_id (entities (ad_log d)))"
    "ad_tables d' = (ad_tables d)(tc_table t := Some (rows @ [\<lparr>dr_id = wf_id w, dr_doc = doc_or_empty q, dr_trust = l,
        dr_tainted_by = tb, dr_created_at = wf_now w, dr_updated_at = wf_now w\<rparr>]))"
    "ad_info d' = ad_info d @ [\<lparr>ei_id = wf_id w, ei_install_id = ii_id (tc_info t), ei_collection = tc_collection t, ei_ref = rf,
        ei_author = actor_id (cl_cred (rq_caller req)), ei_trust = l, ei_tainted_by = tb, ei_updated_at = wf_now w\<rparr>]"
    "entities (ad_log d') = entities (ad_log d) @ [\<lparr>e_id = wf_id w, e_kind = kd, e_owner = owner_of (cl_cred (rq_caller req)),
        e_created_at = wf_now w, e_deleted_at = None\<rparr>]"
    "descriptors_in (de_hex env) (js_parse (de_json env)) (doc_text env (doc_or_empty q)) = Inr named"
    "held_hashes (ad_blobs d') (cl_cred (rq_caller req)) (de_uuid_text env (wf_id w)) =
       held_hashes (ad_blobs d) (cl_cred (rq_caller req)) (de_uuid_text env (wf_id w)) \<union> set named"
    "refs_elsewhere (ad_blobs d') (cl_cred (rq_caller req)) (de_uuid_text env (wf_id w)) =
       refs_elsewhere (ad_blobs d) (cl_cred (rq_caller req)) (de_uuid_text env (wf_id w))"
proof -
  let ?c = "cl_cred (rq_caller req)"
  define l where "l = write_trust Trusted (rq_trust req)"
  define tb where "tb = nullable (rq_tainted_by req)"
  define rf where "rf = (if dq_ref q = [] then de_uuid_text env (wf_ref w) else dq_ref q)"
  define kd where "kd = (if dq_kind q = [] then tc_collection t else dq_kind q)"
  define e where "e = \<lparr>e_id = wf_id w, e_kind = kd, e_owner = owner_of ?c, e_created_at = wf_now w, e_deleted_at = None\<rparr>"
  define j where "j = \<lparr>ei_id = wf_id w, ei_install_id = ii_id (tc_info t), ei_collection = tc_collection t, ei_ref = rf,
        ei_author = actor_id ?c, ei_trust = l, ei_tainted_by = tb, ei_updated_at = wf_now w\<rparr>"
  define r where "r = \<lparr>dr_id = wf_id w, dr_doc = doc_or_empty q, dr_trust = l, dr_tainted_by = tb, dr_created_at = wf_now w, dr_updated_at = wf_now w\<rparr>"
  note u = insert_rows_def [of env d req q t w, unfolded Let_def, folded l_def tb_def rf_def kd_def, folded e_def j_def r_def]
  obtain d1 where d1: "insert_entity d e j = Inr d1" using assms unfolding u by (auto split: sum.split_asm)
  obtain d2 where d2: "insert_doc env t d1 r = Inr d2" using assms unfolding u d1 sum.case by (auto split: sum.split_asm)
  obtain named where n: "descriptors_in (de_hex env) (js_parse (de_json env)) (doc_text env (doc_or_empty q)) = Inr named"
    using assms unfolding u d1 d2 sum.case by (auto split: sum.split_asm)
  obtain d3 where d3: "link_descriptors env d2 req (wf_id w) named l (wf_link w) = Inr d3"
    using assms unfolding u d1 d2 n sum.case by (auto split: sum.split_asm)
  obtain d4 where d4: "doc_emit env d3 req t (wf_id w) l ''created'' (wf_clk w) = Inr d4"
    using assms unfolding u d1 d2 n d3 sum.case by (auto split: sum.split_asm)
  have x: "d' = d4" "x = Inserted (wf_id w) rf (wf_now w)" using assms unfolding u d1 d2 n d3 d4 sum.case by simp_all
  have i1: "d1 = d\<lparr>ad_log := (ad_log d)\<lparr>entities := entities (ad_log d) @ [e]\<rparr>, ad_info := ad_info d @ [j]\<rparr>" "e_id e \<notin> set (map e_id (entities (ad_log d)))"
    using d1 by (auto simp: insert_entity_def split: if_split_asm)
  obtain rows where i2: "ad_tables d1 (tc_table t) = Some rows" "dr_id r \<notin> set (map dr_id rows)"
      "d2 = d1\<lparr>ad_tables := (ad_tables d1)(tc_table t := Some (rows @ [r]))\<rparr>"
    using d2 by (auto simp: insert_doc_def split: option.split_asm if_split_asm)
  have "ad_tables d4 = ad_tables d2" "ad_info d4 = ad_info d2" "ad_blobs d4 = ad_blobs d3" "entities (ad_log d4) = entities (ad_log d2)"
    using emit_keeps [OF d4] link_keeps [OF d3] by simp_all
  then show thesis
    using that [OF x(2) l_def _ _ _ _ _ _ n] i1 i2 link_descriptors_held(1) [OF d3] link_descriptors_elsewhere [OF d3] x(1)
    by (simp add: e_def j_def r_def)
qed

lemma update_rows_effect:
  assumes "update_inner_rows env d req q t i w = Inr (d', x)"
  obtains j rows l at tb named where "x = Updated i at l" "find_info d i = Some j" "l = write_trust (ei_trust j) (rq_trust req)"
    "ad_tables d (tc_table t) = Some rows" "\<exists>r \<in> set rows. dr_id r = i"
    "ad_tables d' = (ad_tables d)(tc_table t := Some (update_rows (\<lambda>r. dr_id r = i)
       (\<lambda>r. r\<lparr>dr_doc := doc_or_empty q, dr_trust := l, dr_tainted_by := (case tb of None \<Rightarrow> dr_tainted_by r | y \<Rightarrow> y),
              dr_updated_at := touched_at (wf_now w) (wf_engine_now w) r\<rparr>) rows))"
    "ad_info d' = update_rows (\<lambda>j. ei_id j = i)
       (\<lambda>j. j\<lparr>ei_trust := l, ei_tainted_by := (case tb of None \<Rightarrow> ei_tainted_by j | y \<Rightarrow> y), ei_updated_at := at\<rparr>) (ad_info d)"
    "entities (ad_log d') = entities (ad_log d)"
    "descriptors_in (de_hex env) (js_parse (de_json env)) (doc_text env (doc_or_empty q)) = Inr named"
    "held_hashes (ad_blobs d') (cl_cred (rq_caller req)) (de_uuid_text env i) = set named"
    "refs_elsewhere (ad_blobs d') (cl_cred (rq_caller req)) (de_uuid_text env i) =
       refs_elsewhere (ad_blobs d) (cl_cred (rq_caller req)) (de_uuid_text env i)"
proof -
  obtain j where j: "find_info d i = Some j" using assms by (auto simp: update_inner_rows_def split: option.split_asm)
  define l where "l = write_trust (ei_trust j) (rq_trust req)"
  define tb where "tb = nullable (rq_tainted_by req)"
  define v where "v = doc_or_empty q"
  note u = update_inner_rows_def [of env d req q t i w, unfolded j option.case Let_def, folded l_def tb_def v_def]
  obtain d1 at where d1: "update_doc env t d i v l tb (wf_now w) (wf_engine_now w) = Inr (d1, at)"
    using assms unfolding u by (auto split: sum.split_asm)
  obtain d2 where d2: "relink_descriptors env (update_entity d1 i l tb at) req i v l w = Inr d2"
    using assms unfolding u d1 sum.case prod.case by (auto split: sum.split_asm)
  obtain d3 where d3: "doc_emit env d2 req t i l ''updated'' (wf_clk w) = Inr d3"
    using assms unfolding u d1 sum.case prod.case d2 by (auto split: sum.split_asm)
  have x: "d' = d3" "x = Updated i at l" using assms unfolding u d1 sum.case prod.case d2 d3 by simp_all
  obtain rows old where r: "ad_tables d (tc_table t) = Some rows" "List.find (\<lambda>r. dr_id r = i) rows = Some old"
      "d1 = d\<lparr>ad_tables := (ad_tables d)(tc_table t := Some (update_rows (\<lambda>r. dr_id r = i)
       (\<lambda>r. r\<lparr>dr_doc := v, dr_trust := l, dr_tainted_by := (case tb of None \<Rightarrow> dr_tainted_by r | y \<Rightarrow> y),
              dr_updated_at := touched_at (wf_now w) (wf_engine_now w) r\<rparr>) rows))\<rparr>"
    using d1 by (auto simp: update_doc_def split: option.split_asm if_split_asm)
  obtain named where n: "descriptors_in (de_hex env) (js_parse (de_json env)) (doc_text env v) = Inr named"
      "held_hashes (ad_blobs d2) (cl_cred (rq_caller req)) (de_uuid_text env i) = set named"
      "d2 = (update_entity d1 i l tb at)\<lparr>ad_blobs := ad_blobs d2\<rparr>"
      "refs_elsewhere (ad_blobs d2) (cl_cred (rq_caller req)) (de_uuid_text env i) =
         refs_elsewhere (ad_blobs (update_entity d1 i l tb at)) (cl_cred (rq_caller req)) (de_uuid_text env i)"
    using relink_descriptors_held [OF d2] by blast
  then obtain bd where d2': "d2 = (update_entity d1 i l tb at)\<lparr>ad_blobs := bd\<rparr>" by blast
  have "ad_tables d3 = ad_tables d1" "ad_info d3 = ad_info (update_entity d1 i l tb at)" "entities (ad_log d3) = entities (ad_log d1)"
      "ad_blobs d3 = ad_blobs d2"
    using emit_keeps [OF d3] d2' by (simp_all add: update_entity_def)
  moreover have "\<exists>r \<in> set rows. dr_id r = i" using find_SomeD [OF r(2)] by blast
  ultimately show thesis
    using that [OF x(2) j l_def r(1) _ _ _ _ n(1) [unfolded v_def]] n(2,4) r(3) x(1) by (simp add: update_entity_def v_def)
qed

lemma delete_rows_effect:
  assumes "delete_inner_rows env d req t i w = Inr (d', x)"
  obtains rows where "x = Deleted i" "ad_tables d (tc_table t) = Some rows"
    "ad_tables d' = (ad_tables d)(tc_table t := Some (delete_rows (\<lambda>r. dr_id r = i) rows))"
    "ad_info d' = delete_rows (\<lambda>j. ei_id j = i) (ad_info d)"
    "entities (ad_log d') = delete_rows (\<lambda>e. e_id e = i) (entities (ad_log d))"
    "held_hashes (ad_blobs d') (cl_cred (rq_caller req)) (de_uuid_text env i) = {}"
    "refs_elsewhere (ad_blobs d') (cl_cred (rq_caller req)) (de_uuid_text env i) =
       refs_elsewhere (ad_blobs d) (cl_cred (rq_caller req)) (de_uuid_text env i)"
proof -
  let ?c = "cl_cred (rq_caller req)" and ?sid = "de_uuid_text env i"
  obtain d1 where d1: "delete_doc t d i = Inr d1" using assms unfolding delete_inner_rows_def by (auto split: sum.split_asm)
  obtain d2 where d2: "delete_entity d1 i = Inr d2" using assms unfolding delete_inner_rows_def d1 sum.case by (auto split: sum.split_asm)
  obtain bd n where b: "release_by_source (ad_blobs d2) ?c SrcCollection ?sid (wf_release w 0) = Inr (bd, n)"
    using assms unfolding delete_inner_rows_def d1 d2 sum.case by (auto split: sum.split_asm)
  obtain d3 where d3: "doc_emit env (d2\<lparr>ad_blobs := bd\<rparr>) req t i Trusted ''deleted'' (wf_clk w) = Inr d3"
    using assms unfolding delete_inner_rows_def d1 d2 b sum.case prod.case by (auto split: sum.split_asm)
  have x: "d' = d3" "x = Deleted i" using assms unfolding delete_inner_rows_def d1 d2 b d3 sum.case prod.case by simp_all
  obtain rows where r: "ad_tables d (tc_table t) = Some rows" "d1 = d\<lparr>ad_tables := (ad_tables d)(tc_table t := Some (delete_rows (\<lambda>r. dr_id r = i) rows))\<rparr>"
    using d1 by (auto simp: delete_doc_def split: option.split_asm)
  have e: "d2 = d1\<lparr>ad_log := (ad_log d1)\<lparr>entities := delete_rows (\<lambda>e. e_id e = i) (entities (ad_log d1))\<rparr>, ad_info := delete_rows (\<lambda>j. ei_id j = i) (ad_info d1)\<rparr>"
    using d2 by (auto simp: delete_entity_def split: if_split_asm)
  have refs: "blob_refs bd = update_rows (by_source ?c SrcCollection ?sid) (\<lambda>r. r\<lparr>br_released_at := Some (wf_release w 0)\<rparr>) (blob_refs (ad_blobs d2))"
    using b by (auto simp: release_by_source_def split: sum.split_asm if_split_asm)
  have "\<not> by_source ?c SrcCollection ?sid r" if "r \<in> set (blob_refs bd)" for r
    using that unfolding refs by (cases rule: in_update_rowsE) (simp_all add: by_source_def)
  then have "held_hashes bd ?c ?sid = {}" by (auto simp: held_hashes_def)
  moreover have "refs_elsewhere bd ?c ?sid = refs_elsewhere (ad_blobs d2) ?c ?sid"
    unfolding refs_elsewhere_def refs by (rule filter_update_rows) (simp add: by_source_def elsewhere_def)
  moreover have "ad_tables d3 = ad_tables d2" "ad_info d3 = ad_info d2" "entities (ad_log d3) = entities (ad_log d2)" "ad_blobs d3 = bd"
    using emit_keeps [OF d3] by simp_all
  ultimately show thesis using that [OF x(2) r(1)] x(1) r(2) e by simp
qed

section \<open>A sample\<close>

text \<open>
  Alice's two apps: \<open>notes\<close> with one document, and \<open>mail\<close>, which was let read the notes and nothing more. The body of a
  request is its id; it names the caller's own collection.
\<close>

definition sample_env :: data_env where
  "sample_env = \<lparr>de_engine = Sqlite, de_owners_dir = ''o'', de_uuid_text = show_nat, de_uuid_parse = parse_digits 0,
     de_hex = (\<lambda>s. Some (take 2 s)), de_body = (\<lambda>s. Some (doc_request_default\<lparr>dq_collection := ''drafts'', dq_id := s\<rparr>)),
     de_json = \<lparr>js_text = (\<lambda>v. ''{}''), js_parse = (\<lambda>s. Some (JObj []))\<rparr>,
     de_collections = (\<lambda>b. Some [\<lparr>c_name = (if b = 30 then ''notes'' else ''drafts''), c_crud = True, c_indexes = []\<rparr>]),
     de_vector_ok = (\<lambda>x v. True), de_matches = (\<lambda>x s v. False), de_distance = (\<lambda>x s v. None)\<rparr>"

definition notes_table :: string where
  "notes_table = table_name Sqlite (owner_alias sample_env (owner_user 1)) ''app_notes_0000000a'' ''notes''"

definition drafts_table :: string where
  "drafts_table = table_name Sqlite (owner_alias sample_env (owner_user 1)) ''app_mail_0000000b'' ''drafts''"

definition sample_app_db :: app_db where
  "sample_app_db = \<lparr>
     ad_log = event_db0\<lparr>installs := map (\<lambda>i. i\<lparr>i_state := Active\<rparr>) (installs event_db0)\<rparr>,
     ad_blobs = \<lparr>blobs = [], blob_refs = []\<rparr>,
     ad_info = [\<lparr>ei_id = 20, ei_install_id = 10, ei_collection = ''notes'', ei_ref = ''a'', ei_author = 1, ei_trust = Trusted,
                 ei_tainted_by = None, ei_updated_at = 8\<rparr>],
     ad_tables = [notes_table \<mapsto> [\<lparr>dr_id = 20, dr_doc = JObj [], dr_trust = Trusted, dr_tainted_by = None, dr_created_at = 8, dr_updated_at = 8\<rparr>],
                  drafts_table \<mapsto> []],
     ad_files = (\<lambda>_. None)\<rparr>"

definition sample_facts :: "uuid \<Rightarrow> write_facts" where
  "sample_facts i = \<lparr>wf_gate = (100, 100), wf_entity = (100, 100), wf_ref = 900, wf_id = i, wf_now = 100, wf_engine_now = 100,
     wf_link = (\<lambda>k. (1000 + k, 100)), wf_release = (\<lambda>k. 100), wf_clk = (\<lambda>k. (100, 100)), wf_commits = True\<rparr>"

definition mail_request :: "string \<Rightarrow> request" where
  "mail_request b = \<lparr>rq_caller = \<lparr>cl_cred = alice, cl_install_id = 11\<rparr>, rq_app = ''mail'', rq_body = b, rq_trust = Trusted, rq_tainted_by = []\<rparr>"

text \<open>
  The collection gate asks about the collection the request names, and the row is deleted by its id alone. An app that
  was never let write another's collection deletes a document of it by naming a collection of its own; the entity
  and its references go, and the document stays behind in a table nothing reads it from any more.
\<close>

theorem app_deletes_anothers_document:
  "\<exists>d' au'. delete_inner sample_env sample_app_db audit0 (mail_request ''20'') (sample_facts 0) = (d', au', Inr (Deleted 20)) \<and>
     (\<forall>e \<in> set (entities (ad_log d')). e_id e \<noteq> 20) \<and>
     map_option (map dr_id) (ad_tables d' notes_table) = Some [20] \<and>
     snd (authorize_collection (ad_log sample_app_db) audit0 alice (subject_named SCollection 10 ''notes'') 11 Write ''storage.delete'' 100 100) = Inl Denied"
proof -
  let ?r = "delete_inner sample_env sample_app_db audit0 (mail_request ''20'') (sample_facts 0)"
  have "snd (snd ?r) = Inr (Deleted 20)" by code_simp
  moreover have "list_all (\<lambda>e. e_id e \<noteq> 20) (entities (ad_log (fst ?r)))" by code_simp
  moreover have "map_option (map dr_id) (ad_tables (fst ?r) notes_table) = Some [20]" by code_simp
  moreover have "snd (authorize_collection (ad_log sample_app_db) audit0 alice (subject_named SCollection 10 ''notes'') 11 Write ''storage.delete'' 100 100) = Inl Denied"
    by code_simp
  ultimately show ?thesis unfolding list_all_iff by (metis prod.collapse)
qed

end
