(* ===== verification/Hive_Documents.thy ===== *)
theory Hive_Documents
  imports Hive_Appdata
begin

text \<open>
  What the data layer keeps: a document holds the blobs it names, is reached through the guard only, and its
  trust never rises.
\<close>

section \<open>The way to a collection\<close>

lemma open_target_ok:
  assumes "open_target env d req = (fs, Inr (q, info, t))"
  shows "resolve_active_install (de_collections env) (ad_log d) (cl_install_id (rq_caller req)) = Inr info"
    "doc_parse env req = Inr q" "resolve_target env d info (cl_cred (rq_caller req)) (dq_collection q) = (fs, Inr t)"
    "tc_collection t \<in> set (ii_collections (tc_info t))"
proof -
  show i: "resolve_active_install (de_collections env) (ad_log d) (cl_install_id (rq_caller req)) = Inr info"
    and p: "doc_parse env req = Inr q"
    using assms by (auto simp: open_target_def split: sum.split_asm prod.split_asm)
  show r: "resolve_target env d info (cl_cred (rq_caller req)) (dq_collection q) = (fs, Inr t)"
    using assms unfolding open_target_def i sum.case p by (auto split: sum.split_asm prod.split_asm)
  show "tc_collection t \<in> set (ii_collections (tc_info t))"
    using assms unfolding open_target_def i sum.case p r prod.case by (auto simp: declared_def split: if_split_asm)
qed

lemma resolved_install_row:
  assumes "resolve_active_install colls db i = Inr info"
  shows "ii_id info = i" "\<exists>r \<in> set (installs db). i_id r = i \<and> i_state r = Active \<and> i_owner r = ii_owner info \<and> i_schema_name r = ii_schema info \<and> i_slug r = ii_slug info"
proof -
  obtain r where f: "find_install db i = Some r" using assms by (auto simp: resolve_active_install_def split: option.split_asm)
  then have r: "r \<in> set (installs db)" "i_id r = i" unfolding find_install_def by (auto dest: find_SomeD)
  have "i_state r = Active \<and> ii_id info = i_id r \<and> i_owner r = ii_owner info \<and> i_schema_name r = ii_schema info \<and> i_slug r = ii_slug info"
    using assms unfolding resolve_active_install_def f option.case by (auto split: if_split_asm option.split_asm sum.split_asm)
  with r show "ii_id info = i" "\<exists>r \<in> set (installs db). i_id r = i \<and> i_state r = Active \<and> i_owner r = ii_owner info \<and> i_schema_name r = ii_schema info \<and> i_slug r = ii_slug info"
    by auto
qed

text \<open>
  The install whose collection a request means: the caller's own for a bare name, and for a qualified
  one the active install of that app that belongs to the credential's own principal.
\<close>

definition meant_install :: "'z core_db_scheme \<Rightarrow> caller \<Rightarrow> qualified_name \<Rightarrow> install option" where
  "meant_install db caller qn =
     (case qn_app qn of
        None \<Rightarrow> find_install db (cl_install_id caller)
      | Some app \<Rightarrow>
          List.find (\<lambda>i. i_slug i = app \<and> i_owner i = owner_of (cl_cred caller) \<and> i_state i = Active) (installs db))"

lemma find_install_distinct:
  "find_install db i = Some r \<Longrightarrow> distinct (map i_id (installs db)) \<Longrightarrow> r' \<in> set (installs db) \<Longrightarrow> i_id r' = i \<Longrightarrow> r' = r"
  unfolding find_install_def by (drule find_SomeD) (auto simp: distinct_map dest: inj_onD)

lemma resolved_is:
  assumes "resolve_active_install colls db i = Inr info"
  shows "\<exists>r. find_install db i = Some r \<and> i_id r = i \<and> i_state r = Active \<and> ii_id info = i \<and> ii_owner info = i_owner r \<and>
    ii_schema info = i_schema_name r"
proof -
  obtain r where f: "find_install db i = Some r" using assms by (auto simp: resolve_active_install_def split: option.split_asm)
  then have "i_id r = i" unfolding find_install_def by (auto dest: find_SomeD)
  moreover have "i_state r = Active \<and> ii_id info = i_id r \<and> ii_owner info = i_owner r \<and> ii_schema info = i_schema_name r"
    using assms unfolding resolve_active_install_def f option.case by (auto split: if_split_asm option.split_asm sum.split_asm)
  ultimately show ?thesis using f by blast
qed

text \<open>The target of a request is the collection it names of the install it means.\<close>

definition is_target :: "data_env \<Rightarrow> caller \<Rightarrow> qualified_name \<Rightarrow> install \<Rightarrow> target_coll \<Rightarrow> bool" where
  "is_target env caller qn I t \<longleftrightarrow>
     i_state I = Active \<and> ii_id (tc_info t) = i_id I \<and> tc_collection t = qn_collection qn \<and>
     (tc_cross t \<longleftrightarrow> i_id I \<noteq> cl_install_id caller) \<and>
     tc_table t = table_name (de_engine env) (owner_alias env (i_owner I)) (i_schema_name I) (qn_collection qn)"

lemma attach_alias: "attach_owner env fs w = (fs', Inr alias) \<Longrightarrow> alias = owner_alias env w"
  by (auto simp: attach_owner_def Let_def split: engine.split_asm if_split_asm)

lemma resolve_target_spec:
  assumes "resolve_target env d info (cl_cred caller) raw = (fs, Inr t)"
    and "resolve_active_install (de_collections env) (ad_log d) (cl_install_id caller) = Inr info"
    and "distinct (map i_id (installs (ad_log d)))"
  shows "\<exists>qn I. qualified_parse raw = Inr qn \<and> meant_install (ad_log d) caller qn = Some I \<and> is_target env caller qn I t"
proof -
  obtain qn where q: "qualified_parse raw = Inr qn" using assms(1) by (auto simp: resolve_target_def Let_def split: sum.split_asm)
  obtain own where own: "find_install (ad_log d) (cl_install_id caller) = Some own" "i_id own = cl_install_id caller" "i_state own = Active"
    "ii_id info = cl_install_id caller" "ii_owner info = i_owner own" "ii_schema info = i_schema_name own"
    using resolved_is [OF assms(2)] by blast
  show ?thesis
  proof (cases "qn_app qn")
    case None
    from assms(1) have "is_target env caller qn own t"
      unfolding resolve_target_def Let_def q sum.case None option.case
      by (auto simp: is_target_def own dest: attach_alias split: prod.split_asm sum.split_asm)
    with None own(1) q show ?thesis by (auto simp: meant_install_def)
  next
    case (Some app)
    obtain i where i: "target_install (ad_log d) (cl_cred caller) app = Some i"
      using assms(1) unfolding resolve_target_def Let_def q sum.case Some option.case by (auto split: option.split_asm)
    obtain info' where r: "resolve_active_install (de_collections env) (ad_log d) (i_id i) = Inr info'"
      using assms(1) unfolding resolve_target_def Let_def q sum.case Some option.case i by (auto split: sum.split_asm)
    obtain r0 where f: "find_install (ad_log d) (i_id i) = Some r0" "i_state r0 = Active" "ii_id info' = i_id i" "ii_owner info' = i_owner r0"
      "ii_schema info' = i_schema_name r0" using resolved_is [OF r] by blast
    have "i \<in> set (installs (ad_log d))" using i unfolding target_install_def by (auto dest: find_SomeD)
    with find_install_distinct [OF f(1) assms(3)] have "i = r0" by simp
    with assms(1) have "is_target env caller qn i t"
      unfolding resolve_target_def Let_def q sum.case Some option.case i r
      by (auto simp: is_target_def f(2-) own(4) dest: attach_alias split: prod.split_asm sum.split_asm)
    moreover have "meant_install (ad_log d) caller qn = Some i"
      using i Some by (simp add: meant_install_def target_install_def if_bool_eq_disj split: if_split_asm)
    ultimately show ?thesis using q by blast
  qed
qed

lemma collection_gate_ok:
  assumes "collection_gate d au req info t x note nf tm = (au', Inr u)"
  shows "may (ad_log d) (fst tm) (cl_cred (rq_caller req)) (subject_named SCollection (ii_id (tc_info t)) (tc_collection t)) x (Some (ii_id info))"
proof -
  obtain rs where "authorize_collection (ad_log d) au (cl_cred (rq_caller req)) (subject_named SCollection (ii_id (tc_info t)) (tc_collection t))
      (ii_id info) x note (fst tm) (snd tm) = (au', Inr rs)"
    using assms by (auto simp: collection_gate_def split: prod.split_asm sum.split_asm)
  then have "decide_and_audit (ad_log d) au (cl_cred (rq_caller req)) (subject_named SCollection (ii_id (tc_info t)) (tc_collection t)) x
      (Some (ii_id info)) note (fst tm) (snd tm) = (au', Inr rs)"
    by (simp add: authorize_collection_def collection_decision_def)
  from decide_and_audit_ok [OF this] show ?thesis by blast
qed

lemma cross_gate_ok:
  assumes "cross_gate d au req info t x note tm = (au', Inr u)" "tc_cross t"
  shows "may (ad_log d) (fst tm) (cl_cred (rq_caller req)) (subject_named SCollection (ii_id (tc_info t)) (tc_collection t)) x (Some (ii_id info))"
  using assms collection_gate_ok by (auto simp: cross_gate_def)

lemma entity_gate_ok:
  assumes "entity_gate d au req i x note tm = (au', Inr rs)"
  shows "may (ad_log d) (fst tm) (cl_cred (rq_caller req)) (subject_new SEntity i) x None"
proof -
  have "authorize (ad_log d) au (cl_cred (rq_caller req)) (subject_new SEntity i) x note (fst tm) (snd tm) = (au', Inr rs)"
    using assms by (auto simp: entity_gate_def split: prod.split_asm sum.split_asm)
  then have "decide_and_audit (ad_log d) au (cl_cred (rq_caller req)) (subject_new SEntity i) x None note (fst tm) (snd tm) = (au', Inr rs)"
    by (simp add: authorize_def)
  from decide_and_audit_ok [OF this] show ?thesis by blast
qed

section \<open>Reading\<close>

lemma get_inner_ok:
  assumes "get_inner env d au req tm1 tm2 = (d', au', Inr (l, v))"
  obtains fs q info t i au1 where "open_target env d req = (fs, Inr (q, info, t))"
    "cross_gate d au req info t Read ''storage.get'' tm1 = (au1, Inr ())" "wanted_id env d t q = Inr i"
    "\<exists>rs. entity_gate d au1 req i Read ''storage.get'' tm2 = (au', Inr rs)" "read_doc d (tc_table t) i = Inr v" "l = dv_trust v" "d' = d\<lparr>ad_files := fs\<rparr>"
proof -
  obtain fs q info t where o: "open_target env d req = (fs, Inr (q, info, t))"
    using assms unfolding get_inner_def by (auto split: prod.split_asm sum.split_asm)
  obtain au1 where g: "cross_gate d au req info t Read ''storage.get'' tm1 = (au1, Inr ())"
    using assms unfolding get_inner_def o prod.case sum.case by (auto split: prod.split_asm sum.split_asm)
  obtain i where i: "wanted_id env d t q = Inr i"
    using assms unfolding get_inner_def o prod.case sum.case g by (auto split: prod.split_asm sum.split_asm)
  obtain au2 rs where e: "entity_gate d au1 req i Read ''storage.get'' tm2 = (au2, Inr rs)"
    using assms unfolding get_inner_def o prod.case sum.case i g by (auto split: prod.split_asm sum.split_asm)
  have "au' = au2" "read_doc d (tc_table t) i = Inr v" "l = dv_trust v" "d' = d\<lparr>ad_files := fs\<rparr>"
    using assms unfolding get_inner_def o prod.case sum.case i g e by (auto split: sum.split_asm)
  then show thesis using that [OF o g i] e by blast
qed

lemma read_doc_ok:
  assumes "read_doc d tab i = Inr v"
  obtains rows r e j where "ad_tables d tab = Some rows" "List.find (\<lambda>r. dr_id r = i) rows = Some r" "v = scan_doc e j r None"
proof -
  obtain rows where rows: "ad_tables d tab = Some rows" using assms by (cases "ad_tables d tab") (simp_all add: read_doc_def)
  show thesis
  proof (cases "List.find (\<lambda>r. dr_id r = i) rows")
    case None
    then show ?thesis using assms rows by (simp add: read_doc_def)
  next
    case (Some r)
    then show ?thesis using assms rows that by (cases "entity_of d i") (auto simp: read_doc_def)
  qed
qed

lemma doc_parse_body: "doc_parse env req = Inr q \<Longrightarrow> de_body env (rq_body req) = Some q"
  by (auto simp: doc_parse_def doc_request_default_def split: if_split_asm option.split_asm sum.split_asm)

text \<open>The document a request asks for: the one with the id it gives or, without one, with the reference it gives.\<close>

definition asked_for :: "data_env \<Rightarrow> app_db \<Rightarrow> uuid \<Rightarrow> string \<Rightarrow> doc_request \<Rightarrow> uuid \<Rightarrow> bool" where
  "asked_for env d inst coll q i \<longleftrightarrow>
     (if dq_id q \<noteq> [] then de_uuid_parse env (dq_id q) = Some i
      else \<exists>j \<in> set (ad_info d). ei_id j = i \<and> ei_install_id j = inst \<and> ei_collection j = coll \<and> ei_ref j = dq_ref q)"

lemma wanted_asked_for:
  "wanted_id env d t q = Inr i \<Longrightarrow> asked_for env d (ii_id (tc_info t)) (tc_collection t) q i"
  by (auto simp: wanted_id_def asked_for_def doc_id_def resolve_ref_def split: if_split_asm option.split_asm dest!: find_SomeD)

text \<open>
  C25: no document is read past the guard. What a read returns is the document the request asks for, and a row of the
  table of the collection the request names, in the install it means: the caller's own for a bare name, and for a
  qualified one the active install of that app with the caller's own principal. The access predicate lets the
  caller's principal read the entity; where the install is not the calling one, the predicate also lets the calling
  install into that collection. The answer carries the trust of the row, never the trust of the request, and
  the read changes no row.
\<close>

theorem document_reads_are_authorized:
  assumes "get_inner env d au req tm1 tm2 = (d', au', Inr (l, v))" "distinct (map i_id (installs (ad_log d)))"
  shows "\<exists>q qn I rows r. de_body env (rq_body req) = Some q \<and> qualified_parse (dq_collection q) = Inr qn \<and>
    meant_install (ad_log d) (rq_caller req) qn = Some I \<and> i_state I = Active \<and>
    ad_tables d (table_name (de_engine env) (owner_alias env (i_owner I)) (i_schema_name I) (qn_collection qn)) = Some rows \<and>
    r \<in> set rows \<and> dr_id r = dv_id v \<and> dr_doc r = dv_doc v \<and> l = dr_trust r \<and> l = dv_trust v \<and>
    asked_for env d (i_id I) (qn_collection qn) q (dv_id v) \<and>
    may (ad_log d) (fst tm2) (cl_cred (rq_caller req)) (subject_new SEntity (dv_id v)) Read None \<and>
    (i_id I \<noteq> cl_install_id (rq_caller req) \<longrightarrow> i_owner I = owner_of (cl_cred (rq_caller req)) \<and>
       may (ad_log d) (fst tm1) (cl_cred (rq_caller req)) (subject_named SCollection (i_id I) (qn_collection qn)) Read
         (Some (cl_install_id (rq_caller req)))) \<and>
    ad_tables d' = ad_tables d \<and> ad_info d' = ad_info d \<and> ad_log d' = ad_log d"
proof -
  let ?c = "cl_cred (rq_caller req)"
  obtain fs q info t i au1 where g: "open_target env d req = (fs, Inr (q, info, t))"
    "cross_gate d au req info t Read ''storage.get'' tm1 = (au1, Inr ())" "wanted_id env d t q = Inr i"
    "\<exists>rs. entity_gate d au1 req i Read ''storage.get'' tm2 = (au', Inr rs)" "read_doc d (tc_table t) i = Inr v" "l = dv_trust v" "d' = d\<lparr>ad_files := fs\<rparr>"
    by (rule get_inner_ok [OF assms(1)])
  note o = open_target_ok [OF g(1)]
  obtain qn I where m: "qualified_parse (dq_collection q) = Inr qn" "meant_install (ad_log d) (rq_caller req) qn = Some I"
    and t: "is_target env (rq_caller req) qn I t"
    using resolve_target_spec [OF o(3) o(1) assms(2)] by blast
  note t = t [unfolded is_target_def]
  obtain rows r e j where r: "ad_tables d (tc_table t) = Some rows" "List.find (\<lambda>r. dr_id r = i) rows = Some r" "v = scan_doc e j r None"
    by (rule read_doc_ok [OF g(5)])
  have row: "r \<in> set rows" "dr_id r = i" using find_SomeD [OF r(2)] by simp_all
  have v: "dv_id v = i" "dv_doc v = dr_doc r" "dv_trust v = dr_trust r" using r(3) row(2) by (simp_all add: scan_doc_def)
  have may1: "may (ad_log d) (fst tm2) ?c (subject_new SEntity i) Read None" using g(4) entity_gate_ok by blast
  have info: "ii_id info = cl_install_id (rq_caller req)" by (rule resolved_install_row(1) [OF o(1)])
  have cross: "i_owner I = owner_of ?c \<and> may (ad_log d) (fst tm1) ?c (subject_named SCollection (i_id I) (qn_collection qn)) Read
      (Some (cl_install_id (rq_caller req)))" if "i_id I \<noteq> cl_install_id (rq_caller req)"
  proof
    show "may (ad_log d) (fst tm1) ?c (subject_named SCollection (i_id I) (qn_collection qn)) Read (Some (cl_install_id (rq_caller req)))"
      using cross_gate_ok [OF g(2)] t that info by simp
    show "i_owner I = owner_of ?c"
      by (cases "qn_app qn") (use that m(2) in \<open>auto simp: meant_install_def find_install_def dest!: find_SomeD\<close>)
  qed
  show ?thesis
    using doc_parse_body [OF o(2)] m t r(1) row v may1 cross g(6,7) wanted_asked_for [OF g(3)]
    by (intro exI [of _ q] exI [of _ qn] exI [of _ I] exI [of _ rows] exI [of _ r]) simp
qed

text \<open>Mail reads Alice's notes by their qualified name.\<close>

definition cross_env :: data_env where
  "cross_env = sample_env\<lparr>de_body := (\<lambda>s. Some (doc_request_default\<lparr>dq_collection := ''notes/notes'', dq_id := s\<rparr>))\<rparr>"

theorem document_reads_are_authorized_witness:
  "(\<exists>d' au' l v. get_inner cross_env sample_app_db audit0 (mail_request ''20'') (100, 100) (100, 100) = (d', au', Inr (l, v)) \<and> dv_id v = 20) \<and>
   may (ad_log sample_app_db) 100 alice (subject_new SEntity 20) Read None \<and>
   may (ad_log sample_app_db) 100 alice (subject_named SCollection 10 ''notes'') Read (Some 11)"
proof -
  let ?r = "get_inner cross_env sample_app_db audit0 (mail_request ''20'') (100, 100) (100, 100)"
  have "case snd (snd ?r) of Inl _ \<Rightarrow> False | Inr (l, v) \<Rightarrow> dv_id v = 20" by code_simp
  then obtain d' au' l v where r: "?r = (d', au', Inr (l, v))" "dv_id v = 20"
    by (cases "snd (snd ?r)") (auto simp: prod_eq_iff)
  have "distinct (map i_id (installs (ad_log sample_app_db)))" by code_simp
  from document_reads_are_authorized [OF r(1) this] obtain q qn I where
    m: "de_body cross_env (rq_body (mail_request ''20'')) = Some q" "qualified_parse (dq_collection q) = Inr qn"
      "meant_install (ad_log sample_app_db) (rq_caller (mail_request ''20'')) qn = Some I"
    and ok: "may (ad_log sample_app_db) 100 alice (subject_new SEntity 20) Read None"
      "i_id I \<noteq> 11 \<longrightarrow> may (ad_log sample_app_db) 100 alice (subject_named SCollection (i_id I) (qn_collection qn)) Read (Some 11)"
    unfolding r(2) by (auto simp: mail_request_def)
  have "dq_collection q = ''notes/notes''" using m(1) by (auto simp: cross_env_def)
  moreover have p: "qualified_parse ''notes/notes'' = Inr \<lparr>qn_app = Some ''notes'', qn_collection = ''notes''\<rparr>" by code_simp
  ultimately have qn: "qn = \<lparr>qn_app = Some ''notes'', qn_collection = ''notes''\<rparr>" using m(2) by simp
  have "map_option i_id (meant_install (ad_log sample_app_db) (rq_caller (mail_request ''20'')) \<lparr>qn_app = Some ''notes'', qn_collection = ''notes''\<rparr>) = Some 10"
    by code_simp
  with m(3) qn have "i_id I = 10" by simp
  with ok r qn show ?thesis by auto
qed

section \<open>Blobs\<close>

lemma descriptors_in_set:
  assumes "descriptors_in dec parse doc = Inr hs" "doc \<noteq> []" "parse doc = Some v"
  shows "set hs = named_hashes dec (blob_values v)"
proof -
  have "tidy []" by (simp add: tidy_def)
  moreover have "walk dec v ''doc'' 0 [] = Inr hs" using assms by (simp only: descriptors_in_def) simp
  ultimately have "collects dec [] (blob_values v) hs" using walk_iff(1) by blast
  from collects_tidy [OF this] show ?thesis by simp
qed

definition holds_its_blobs :: "data_env \<Rightarrow> app_db \<Rightarrow> credential \<Rightarrow> uuid \<Rightarrow> bool" where
  "holds_its_blobs env d c i \<longleftrightarrow>
     (\<exists>tab rows r. ad_tables d tab = Some rows \<and> r \<in> set rows \<and> dr_id r = i \<and>
        held_hashes (ad_blobs d) c (de_uuid_text env i) = named_hashes (de_hex env) (blob_values (dr_doc r)))"

fun reply_id :: "doc_reply \<Rightarrow> uuid" where
  "reply_id (Inserted i _ _) = i"
| "reply_id (Updated i _ _) = i"
| "reply_id (Deleted i) = i"

text \<open>
  C27: who writes a document holds exactly the blobs it names. After an insert or an update went through, the live
  references that the calling principal holds for that document are to the digests found under the reserved key
  anywhere in the stored body, all of them and no other; after a delete the caller, who then is the owner, holds none.
  No other reference row changes at all: neither what another principal holds for the same document (an owner keeps
  what a grantee's update dropped) nor what the caller holds for anything else. For an insert the id is new, so
  nothing was held for it.
\<close>

theorem document_holds_its_blobs:
  assumes ok: "write_verb env vb d au req w = (d', au', Inr x)"
    and law: "\<And>q. de_body env (rq_body req) = Some q \<Longrightarrow>
      doc_text env (doc_or_empty q) \<noteq> [] \<and> js_parse (de_json env) (doc_text env (doc_or_empty q)) = Some (doc_or_empty q)"
    and fresh: "held_hashes (ad_blobs d) (cl_cred (rq_caller req)) (de_uuid_text env (wf_id w)) = {}"
  shows "(case x of
      Inserted i _ _ \<Rightarrow> holds_its_blobs env d' (cl_cred (rq_caller req)) i
    | Updated i _ _ \<Rightarrow> holds_its_blobs env d' (cl_cred (rq_caller req)) i
    | Deleted i \<Rightarrow> held_hashes (ad_blobs d') (cl_cred (rq_caller req)) (de_uuid_text env i) = {}) \<and>
    refs_elsewhere (ad_blobs d') (cl_cred (rq_caller req)) (de_uuid_text env (reply_id x)) =
      refs_elsewhere (ad_blobs d) (cl_cred (rq_caller req)) (de_uuid_text env (reply_id x))"
proof (cases vb)
  case VInsert
  with ok obtain fs q info t where o: "open_target env d req = (fs, Inr (q, info, t))" "insert_rows env (d\<lparr>ad_files := fs\<rparr>) req q t w = Inr (d', x)"
    by (auto elim: insert_inner_ok)
  have b: "de_body env (rq_body req) = Some q" using open_target_ok(2) [OF o(1)] doc_parse_body by blast
  from o(2) show ?thesis
  proof (cases rule: insert_rows_effect)
    case (1 rf rows named l tb kd)
    have n: "set named = named_hashes (de_hex env) (blob_values (doc_or_empty q))" using descriptors_in_set [OF 1(9)] law [OF b] by blast
    let ?r = "\<lparr>dr_id = wf_id w, dr_doc = doc_or_empty q, dr_trust = l, dr_tainted_by = tb, dr_created_at = wf_now w, dr_updated_at = wf_now w\<rparr>"
    have "ad_tables d' (tc_table t) = Some (rows @ [?r])" using 1(6) by simp
    then have "holds_its_blobs env d' (cl_cred (rq_caller req)) (wf_id w)"
      unfolding holds_its_blobs_def using 1(10) fresh n
      by (intro exI [of _ "tc_table t"] exI [of _ "rows @ [?r]"] exI [of _ ?r]) simp
    then show ?thesis using 1(1,11) by simp
  qed
next
  case VUpdate
  with ok obtain fs q info t i where o: "open_target env d req = (fs, Inr (q, info, t))"
      "update_inner_rows env (d\<lparr>ad_files := fs\<rparr>) req q t i w = Inr (d', x)"
    by (auto elim: update_inner_ok)
  have b: "de_body env (rq_body req) = Some q" using open_target_ok(2) [OF o(1)] doc_parse_body by blast
  from o(2) show ?thesis
  proof (cases rule: update_rows_effect)
    case (1 j rows l at tb named)
    have n: "set named = named_hashes (de_hex env) (blob_values (doc_or_empty q))" using descriptors_in_set [OF 1(9)] law [OF b] by blast
    obtain r where r: "r \<in> set rows" "dr_id r = i" using 1(5) by blast
    let ?f = "\<lambda>r. r\<lparr>dr_doc := doc_or_empty q, dr_trust := l, dr_tainted_by := (case tb of None \<Rightarrow> dr_tainted_by r | y \<Rightarrow> y),
              dr_updated_at := touched_at (wf_now w) (wf_engine_now w) r\<rparr>"
    have "?f r \<in> set (update_rows (\<lambda>r. dr_id r = i) ?f rows)" unfolding in_update_rows_iff using r by (intro bexI [of _ r]) simp_all
    moreover have "ad_tables d' (tc_table t) = Some (update_rows (\<lambda>r. dr_id r = i) ?f rows)" using 1(6) by simp
    ultimately have "holds_its_blobs env d' (cl_cred (rq_caller req)) i"
      unfolding holds_its_blobs_def using 1(10) n r(2)
      by (intro exI [of _ "tc_table t"] exI [of _ "update_rows (\<lambda>r. dr_id r = i) ?f rows"] exI [of _ "?f r"]) simp
    then show ?thesis using 1(1,11) by simp
  qed
next
  case VDelete
  with ok obtain fs t i where "delete_inner_rows env (d\<lparr>ad_files := fs\<rparr>) req t i w = Inr (d', x)"
    by (auto elim: delete_inner_ok)
  then show ?thesis by (cases rule: delete_rows_effect) simp
qed

definition note_body :: json where
  "note_body = JObj [(''cover'', JObj [(''blob'', JStr (replicate 64 CHR ''a''))])]"

text \<open>The sample with a document that names a blob Alice holds.\<close>

definition blob_env :: data_env where
  "blob_env = sample_env\<lparr>
     de_body := (\<lambda>s. Some (doc_request_default\<lparr>dq_collection := ''drafts'', dq_id := s, dq_doc := Some note_body\<rparr>)),
     de_json := \<lparr>js_text = (\<lambda>v. ''x''), js_parse = (\<lambda>s. Some note_body)\<rparr>\<rparr>"

definition blob_app_db :: app_db where
  "blob_app_db = sample_app_db\<lparr>ad_blobs := \<lparr>
     blobs = [\<lparr>bl_hash = ''aa'', bl_size = 1, bl_mime = ''m'', bl_driver = ''disk'', bl_driver_ref = Some ''k'', bl_state = BlobLive,
              bl_class = ClassOriginal, bl_source_hash = None, bl_recipe = None, bl_created_at = 1, bl_live_at = Some 1, bl_trashed_at = None\<rparr>],
     blob_refs = [\<lparr>br_id = 700, br_hash = ''aa'', br_owner = owner_user 1, br_author = 1, br_source_kind = SrcUpload, br_source_id = ''u'',
              br_trust = Trusted, br_created_at = 1, br_released_at = None\<rparr>]\<rparr>\<rparr>"

theorem document_holds_its_blobs_witness:
  "\<exists>d' au'. write_verb blob_env VInsert blob_app_db audit0 (mail_request ''1'') (sample_facts 500) = (d', au', Inr (Inserted 500 ''900'' 100)) \<and>
     holds_its_blobs blob_env d' alice 500 \<and> map br_id (refs_elsewhere (ad_blobs d') alice ''500'') = [700]"
proof -
  let ?r = "write_verb blob_env VInsert blob_app_db audit0 (mail_request ''1'') (sample_facts 500)"
  have c: "cl_cred (rq_caller (mail_request ''1'')) = alice" by (simp add: mail_request_def)
  have "snd (snd ?r) = Inr (Inserted 500 ''900'' 100)" by code_simp
  then obtain d' au' where r: "?r = (d', au', Inr (Inserted 500 ''900'' 100))" by (metis prod.collapse)
  have f: "held_hashes (ad_blobs blob_app_db) (cl_cred (rq_caller (mail_request ''1''))) (de_uuid_text blob_env (wf_id (sample_facts 500))) = {}"
    by (auto simp: held_hashes_def blob_app_db_def by_source_def)
  have u: "de_uuid_text blob_env (reply_id (Inserted 500 ''900'' 100)) = ''500''" by code_simp
  have e: "map br_id (refs_elsewhere (ad_blobs blob_app_db) alice ''500'') = [700]" by code_simp
  note h = document_holds_its_blobs [OF r _ f, unfolded c u]
  have "holds_its_blobs blob_env d' alice 500" "refs_elsewhere (ad_blobs d') alice ''500'' = refs_elsewhere (ad_blobs blob_app_db) alice ''500''"
    using h by (auto simp: blob_env_def doc_text_def doc_or_empty_def)
  then show ?thesis using r e by simp
qed

section \<open>Trust\<close>

text \<open>
  The rows of a document agree: its table has it once, no other table has it, and its trust is the same in both rows.
\<close>

definition doc_inv :: "app_db \<Rightarrow> bool" where
  "doc_inv d \<longleftrightarrow>
     (\<forall>tab rows. ad_tables d tab = Some rows \<longrightarrow> distinct (map dr_id rows)) \<and>
     (\<forall>tab tab' rows rows' r r'. ad_tables d tab = Some rows \<and> ad_tables d tab' = Some rows' \<and> r \<in> set rows \<and> r' \<in> set rows' \<and> dr_id r = dr_id r' \<longrightarrow> tab = tab') \<and>
     distinct (map ei_id (ad_info d)) \<and>
     (\<forall>tab rows r j. ad_tables d tab = Some rows \<and> r \<in> set rows \<and> j \<in> set (ad_info d) \<and> ei_id j = dr_id r \<longrightarrow> ei_trust j = dr_trust r)"

text \<open>Ids are drawn at random: the one an insert draws is in no table yet.\<close>

definition id_is_new :: "app_db \<Rightarrow> uuid \<Rightarrow> bool" where
  "id_is_new d i \<longleftrightarrow> (\<forall>tab rows. ad_tables d tab = Some rows \<longrightarrow> i \<notin> dr_id ` set rows) \<and> i \<notin> ei_id ` set (ad_info d)"

inductive doc_step :: "data_env \<Rightarrow> app_db \<Rightarrow> app_db \<Rightarrow> bool" for env where
  doc_write: "write_verb env vb d au req w = (d', au', x) \<Longrightarrow> id_is_new d (wf_id w) \<Longrightarrow> doc_step env d d'"
| doc_read: "get_inner env d au req tm1 tm2 = (d', au', x) \<Longrightarrow> doc_step env d d'"
| doc_provision: "ad_tables d tab = None \<Longrightarrow> doc_step env d (d\<lparr>ad_tables := (ad_tables d)(tab := Some [])\<rparr>)"
| doc_other: "ad_tables d' = ad_tables d \<Longrightarrow> ad_info d' = ad_info d \<Longrightarrow> doc_step env d d'"

inductive_cases doc_stepE: "doc_step env d d'"

text \<open>What one step may do to the rows.\<close>

inductive row_change :: "app_db \<Rightarrow> app_db \<Rightarrow> bool" where
  same: "ad_tables d' = ad_tables d \<Longrightarrow> ad_info d' = ad_info d \<Longrightarrow> row_change d d'"
| added: "ad_tables d tab = Some rows \<Longrightarrow> ad_tables d' = (ad_tables d)(tab := Some (rows @ [r])) \<Longrightarrow> ad_info d' = ad_info d @ [j]
    \<Longrightarrow> ei_id j = dr_id r \<Longrightarrow> ei_trust j = dr_trust r \<Longrightarrow> id_is_new d (dr_id r) \<Longrightarrow> row_change d d'"
| changed: "ad_tables d tab = Some rows \<Longrightarrow> \<exists>r \<in> set rows. dr_id r = i \<Longrightarrow> ad_tables d' = (ad_tables d)(tab := Some (update_rows (\<lambda>r. dr_id r = i) f rows))
    \<Longrightarrow> ad_info d' = update_rows (\<lambda>j. ei_id j = i) g (ad_info d) \<Longrightarrow> j \<in> set (ad_info d) \<Longrightarrow> ei_id j = i
    \<Longrightarrow> (\<And>r. dr_id (f r) = dr_id r \<and> dr_trust (f r) = l) \<Longrightarrow> (\<And>j. ei_id (g j) = ei_id j \<and> ei_trust (g j) = l)
    \<Longrightarrow> (ei_trust j = Untrusted \<Longrightarrow> l = Untrusted) \<Longrightarrow> row_change d d'"
| removed: "ad_tables d tab = Some rows \<Longrightarrow> ad_tables d' = (ad_tables d)(tab := Some (delete_rows (\<lambda>r. dr_id r = i) rows))
    \<Longrightarrow> ad_info d' = delete_rows (\<lambda>j. ei_id j = i) (ad_info d) \<Longrightarrow> row_change d d'"
| opened: "ad_tables d tab = None \<Longrightarrow> ad_tables d' = (ad_tables d)(tab := Some []) \<Longrightarrow> ad_info d' = ad_info d \<Longrightarrow> row_change d d'"

lemma write_trust_untrusted: "write_trust Untrusted l = Untrusted"
  by (cases l) (simp_all add: write_trust_def)

lemma write_verb_error:
  assumes "write_verb env vb d au req w = (d', au', Inl e)"
  shows "ad_tables d' = ad_tables d \<and> ad_info d' = ad_info d"
proof -
  have "\<exists>fs. d' = d\<lparr>ad_files := fs\<rparr>"
    using assms
    by (cases vb) (auto simp: insert_inner_def update_inner_def delete_inner_def split: prod.split_asm sum.split_asm if_split_asm dest!: finish_tx_error)
  then show ?thesis by auto
qed

lemma write_verb_rows:
  assumes "write_verb env vb d au req w = (d', au', Inr x)" "id_is_new d (wf_id w)"
  shows "row_change d d'"
proof (cases vb)
  case VInsert
  with assms(1) obtain fs q info t where "insert_rows env (d\<lparr>ad_files := fs\<rparr>) req q t w = Inr (d', x)" by (auto elim: insert_inner_ok)
  then show ?thesis
  proof (cases rule: insert_rows_effect)
    case (1 rf rows named l tb kd)
    let ?r = "\<lparr>dr_id = wf_id w, dr_doc = doc_or_empty q, dr_trust = l, dr_tainted_by = tb, dr_created_at = wf_now w, dr_updated_at = wf_now w\<rparr>"
    have "ad_tables d (tc_table t) = Some rows" "ad_tables d' = (ad_tables d)(tc_table t := Some (rows @ [?r]))" using 1(3,6) by simp_all
    moreover obtain j where "ad_info d' = ad_info d @ [j]" "ei_id j = dr_id ?r" "ei_trust j = dr_trust ?r" using 1(7) by simp
    moreover have "id_is_new d (dr_id ?r)" using assms(2) by simp
    ultimately show ?thesis by (rule added)
  qed
next
  case VUpdate
  with assms(1) obtain fs q info t i where "update_inner_rows env (d\<lparr>ad_files := fs\<rparr>) req q t i w = Inr (d', x)" by (auto elim: update_inner_ok)
  then show ?thesis
  proof (cases rule: update_rows_effect)
    case (1 j rows l at tb named)
    then have "j \<in> set (ad_info d)" "ei_id j = i" by (auto simp: find_info_def split: if_split_asm dest: find_SomeD)
    moreover have "l = Untrusted" if "ei_trust j = Untrusted" using 1(3) that write_trust_untrusted by simp
    moreover define f :: "doc_row \<Rightarrow> doc_row" where "f = (\<lambda>r. r\<lparr>dr_doc := doc_or_empty q, dr_trust := l, dr_tainted_by := (case tb of None \<Rightarrow> dr_tainted_by r | y \<Rightarrow> y),
              dr_updated_at := touched_at (wf_now w) (wf_engine_now w) r\<rparr>)"
    moreover define g :: "entity_info \<Rightarrow> entity_info" where "g = (\<lambda>j. j\<lparr>ei_trust := l, ei_tainted_by := (case tb of None \<Rightarrow> ei_tainted_by j | y \<Rightarrow> y), ei_updated_at := at\<rparr>)"
    moreover have "ad_tables d (tc_table t) = Some rows" "ad_tables d' = (ad_tables d)(tc_table t := Some (update_rows (\<lambda>r. dr_id r = i) f rows))"
      "ad_info d' = update_rows (\<lambda>j. ei_id j = i) g (ad_info d)"
      using 1(4,6,7) by (simp_all add: f_def g_def)
    moreover have "dr_id (f r) = dr_id r \<and> dr_trust (f r) = l" "ei_id (g k) = ei_id k \<and> ei_trust (g k) = l" for r k by (simp_all add: f_def g_def)
    ultimately show ?thesis using 1(5) by (intro changed [of d "tc_table t" rows i d' f g j l])
  qed
next
  case VDelete
  with assms(1) obtain fs t i where "delete_inner_rows env (d\<lparr>ad_files := fs\<rparr>) req t i w = Inr (d', x)" by (auto elim: delete_inner_ok)
  then show ?thesis
  proof (cases rule: delete_rows_effect)
    case (1 rows)
    then show ?thesis by (intro removed [of d "tc_table t" rows d' i]) simp_all
  qed
qed

lemma get_inner_rows:
  assumes "get_inner env d au req tm1 tm2 = (d', au', x)"
  shows "ad_tables d' = ad_tables d \<and> ad_info d' = ad_info d"
proof -
  have "\<exists>fs. d' = d\<lparr>ad_files := fs\<rparr>" using assms by (auto simp: get_inner_def split: prod.split_asm sum.split_asm)
  then show ?thesis by auto
qed

lemma doc_step_rows: "doc_step env d d' \<Longrightarrow> row_change d d'"
proof (erule doc_stepE)
  fix vb au req w au' x assume "write_verb env vb d au req w = (d', au', x)" "id_is_new d (wf_id w)"
  then show "row_change d d'" using write_verb_rows write_verb_error by (cases x) (auto intro: same)
next
  fix au req tm1 tm2 au' x assume "get_inner env d au req tm1 tm2 = (d', au', x)"
  from get_inner_rows [OF this] show "row_change d d'" by (auto intro: same)
qed (auto intro: same opened)

lemma added_inv:
  assumes inv: "doc_inv d"
    and added: "ad_tables d tab = Some rows" "ad_tables d' = (ad_tables d)(tab := Some (rows @ [r]))" "ad_info d' = ad_info d @ [j]"
      "ei_id j = dr_id r" "ei_trust j = dr_trust r" "id_is_new d (dr_id r)"
  shows "doc_inv d'"
proof -
  have new: "dr_id r \<notin> dr_id ` set rows'" if "ad_tables d tab' = Some rows'" for tab' rows' using added(6) that by (auto simp: id_is_new_def)
  have newi: "dr_id r \<notin> ei_id ` set (ad_info d)" using added(6) by (simp add: id_is_new_def)
  have row: "q = r \<and> tab' = tab \<or> (\<exists>rows0. ad_tables d tab' = Some rows0 \<and> q \<in> set rows0)" if "ad_tables d' tab' = Some rows'" "q \<in> set rows'" for tab' rows' q
    using that added(1,2) by (auto split: if_split_asm)
  show ?thesis unfolding doc_inv_def
  proof (intro conjI allI impI)
    fix tab' rows' assume "ad_tables d' tab' = Some rows'"
    then show "distinct (map dr_id rows')" using added(1,2) new [OF added(1)] inv by (auto simp: doc_inv_def split: if_split_asm)
  next
    fix t1 t2 rows1 rows2 q1 q2
    assume "ad_tables d' t1 = Some rows1 \<and> ad_tables d' t2 = Some rows2 \<and> q1 \<in> set rows1 \<and> q2 \<in> set rows2 \<and> dr_id q1 = dr_id q2"
    then show "t1 = t2" using row [of t1 rows1 q1] row [of t2 rows2 q2] new inv unfolding doc_inv_def by (metis imageI)
  next
    show "distinct (map ei_id (ad_info d'))" using inv newi added(3,4) by (simp add: doc_inv_def)
  next
    fix t1 rows1 q k assume "ad_tables d' t1 = Some rows1 \<and> q \<in> set rows1 \<and> k \<in> set (ad_info d') \<and> ei_id k = dr_id q"
    then have q: "q = r \<and> t1 = tab \<or> (\<exists>rows0. ad_tables d t1 = Some rows0 \<and> q \<in> set rows0)" "k = j \<or> k \<in> set (ad_info d)" "ei_id k = dr_id q"
      using row [of t1 rows1 q] added(3) by auto
    then show "ei_trust k = dr_trust q" using new newi added(4,5) inv unfolding doc_inv_def by (metis imageI)
  qed
qed

lemma changed_inv:
  assumes inv: "doc_inv d"
    and changed: "ad_tables d tab = Some rows" "\<exists>r \<in> set rows. dr_id r = i"
      "ad_tables d' = (ad_tables d)(tab := Some (update_rows (\<lambda>r. dr_id r = i) f rows))"
      "ad_info d' = update_rows (\<lambda>j. ei_id j = i) g (ad_info d)" "j \<in> set (ad_info d)" "ei_id j = i"
      "\<And>r. dr_id (f r) = dr_id r \<and> dr_trust (f r) = l" "\<And>j. ei_id (g j) = ei_id j \<and> ei_trust (g j) = l"
  shows "doc_inv d'"
proof -
  have row: "\<exists>rows0 q0. ad_tables d t1 = Some rows0 \<and> q0 \<in> set rows0 \<and> dr_id q = dr_id q0 \<and> dr_trust q = (if dr_id q0 = i then l else dr_trust q0)"
    if "ad_tables d' t1 = Some rows1" "q \<in> set rows1" for t1 rows1 q
  proof (cases "t1 = tab")
    case True
    then have "q \<in> set (update_rows (\<lambda>r. dr_id r = i) f rows)" using that changed(3) by simp
    then obtain q0 where "q0 \<in> set rows" "q = (if dr_id q0 = i then f q0 else q0)" unfolding in_update_rows_iff by blast
    then show ?thesis using changed(1,7) True by (intro exI [of _ rows] exI [of _ q0]) simp
  next
    case False
    then have t1: "ad_tables d t1 = Some rows1" using that changed(3) by simp
    obtain r0 where "r0 \<in> set rows" "dr_id r0 = i" using changed(2) by blast
    then have "dr_id q \<noteq> i" using inv False t1 that(2) changed(1) unfolding doc_inv_def by metis
    then show ?thesis using t1 that(2) by auto
  qed
  have info: "\<exists>k0 \<in> set (ad_info d). ei_id k = ei_id k0 \<and> ei_trust k = (if ei_id k0 = i then l else ei_trust k0)" if k: "k \<in> set (ad_info d')" for k
  proof -
    obtain k0 where "k0 \<in> set (ad_info d)" "k = (if ei_id k0 = i then g k0 else k0)" using k unfolding changed(4) in_update_rows_iff by blast
    then show ?thesis using changed(8) by (intro bexI [of _ k0]) simp_all
  qed
  have ids: "map dr_id (update_rows (\<lambda>r. dr_id r = i) f rows) = map dr_id rows" "map ei_id (update_rows (\<lambda>j. ei_id j = i) g (ad_info d)) = map ei_id (ad_info d)"
    using changed(7,8) by simp_all
  show ?thesis unfolding doc_inv_def
  proof (intro conjI allI impI)
    fix t1 rows1 assume "ad_tables d' t1 = Some rows1"
    then show "distinct (map dr_id rows1)" using changed(1,3) ids(1) inv by (auto simp: doc_inv_def simp del: map_update_rows_same split: if_split_asm)
  next
    fix t1 t2 rows1 rows2 q1 q2
    assume "ad_tables d' t1 = Some rows1 \<and> ad_tables d' t2 = Some rows2 \<and> q1 \<in> set rows1 \<and> q2 \<in> set rows2 \<and> dr_id q1 = dr_id q2"
    then show "t1 = t2" using row [of t1 rows1 q1] row [of t2 rows2 q2] inv unfolding doc_inv_def by metis
  next
    show "distinct (map ei_id (ad_info d'))" using inv ids(2) changed(4) by (simp add: doc_inv_def)
  next
    fix t1 rows1 q k assume a: "ad_tables d' t1 = Some rows1 \<and> q \<in> set rows1 \<and> k \<in> set (ad_info d') \<and> ei_id k = dr_id q"
    then obtain rows0 q0 where q0: "ad_tables d t1 = Some rows0" "q0 \<in> set rows0" "dr_id q = dr_id q0" "dr_trust q = (if dr_id q0 = i then l else dr_trust q0)"
      using row by blast
    obtain k0 where k0: "k0 \<in> set (ad_info d)" "ei_id k = ei_id k0" "ei_trust k = (if ei_id k0 = i then l else ei_trust k0)" using info a by blast
    have "ei_id k0 = dr_id q0" using a q0(3) k0(2) by simp
    moreover then have "ei_trust k0 = dr_trust q0" using inv q0(1,2) k0(1) unfolding doc_inv_def by blast
    ultimately show "ei_trust k = dr_trust q" using q0(4) k0(3) by simp
  qed
qed

lemma removed_inv:
  assumes inv: "doc_inv d"
    and removed: "ad_tables d tab = Some rows" "ad_tables d' = (ad_tables d)(tab := Some (delete_rows (\<lambda>r. dr_id r = i) rows))"
      "ad_info d' = delete_rows (\<lambda>j. ei_id j = i) (ad_info d)"
  shows "doc_inv d'"
proof -
  have row: "\<exists>rows0. ad_tables d t1 = Some rows0 \<and> q \<in> set rows0" if "ad_tables d' t1 = Some rows1" "q \<in> set rows1" for t1 rows1 q
    using that removed(1,2) by (auto split: if_split_asm)
  have info: "set (ad_info d') \<subseteq> set (ad_info d)" using removed(3) by auto
  show ?thesis unfolding doc_inv_def
  proof (intro conjI allI impI)
    fix t1 rows1 assume "ad_tables d' t1 = Some rows1"
    then show "distinct (map dr_id rows1)" using removed(1,2) inv by (auto simp: doc_inv_def split: if_split_asm)
  next
    fix t1 t2 rows1 rows2 q1 q2
    assume "ad_tables d' t1 = Some rows1 \<and> ad_tables d' t2 = Some rows2 \<and> q1 \<in> set rows1 \<and> q2 \<in> set rows2 \<and> dr_id q1 = dr_id q2"
    then show "t1 = t2" using row [of t1 rows1 q1] row [of t2 rows2 q2] inv unfolding doc_inv_def by metis
  next
    show "distinct (map ei_id (ad_info d'))" using inv removed(3) by (simp add: doc_inv_def)
  next
    fix t1 rows1 q k assume a: "ad_tables d' t1 = Some rows1 \<and> q \<in> set rows1 \<and> k \<in> set (ad_info d') \<and> ei_id k = dr_id q"
    then show "ei_trust k = dr_trust q" using row [of t1 rows1 q] info inv unfolding doc_inv_def by blast
  qed
qed

lemma row_change_inv:
  assumes "row_change d d'" "doc_inv d"
  shows "doc_inv d'"
  using assms(1)
proof cases
  case same
  show ?thesis unfolding doc_inv_def same using assms(2) unfolding doc_inv_def .
next
  case (added tab rows r j)
  show ?thesis by (rule added_inv [OF assms(2) added])
next
  case (changed tab rows i f g j l)
  show ?thesis by (rule changed_inv [OF assms(2) changed(1-8)])
next
  case (removed tab rows i)
  show ?thesis by (rule removed_inv [OF assms(2) removed])
next
  case (opened tab)
  then show ?thesis using assms(2) unfolding doc_inv_def by (auto split: if_split_asm)
qed

lemma row_change_trust:
  assumes "row_change d d'" "doc_inv d" "ad_tables d tab = Some rows" "r \<in> set rows" "dr_trust r = Untrusted"
    and "ad_tables d' tab = Some rows'" "r' \<in> set rows'" "dr_id r' = dr_id r"
  shows "dr_trust r' = Untrusted"
proof -
  have one: "r0 = r" if "ad_tables d tab = Some rows0" "r0 \<in> set rows0" "dr_id r0 = dr_id r" for rows0 r0
  proof -
    have "inj_on dr_id (set rows)" using assms(2,3) by (simp add: doc_inv_def distinct_map)
    then show ?thesis using that assms(3,4) by (simp add: inj_on_def)
  qed
  from assms(1) show ?thesis
  proof cases
    case same
    then show ?thesis using assms(5,6,7,8) one [of rows' r'] by simp
  next
    case (added tab' rows0 q j)
    have "r' \<noteq> q" using added(6) assms(3,4,8) by (auto simp: id_is_new_def)
    then have "\<exists>rows1. ad_tables d tab = Some rows1 \<and> r' \<in> set rows1" using assms(6,7) added(1,2) by (auto split: if_split_asm)
    then show ?thesis using one assms(5,8) by metis
  next
    case (changed tab' rows0 i f g j l)
    show ?thesis
    proof (cases "tab = tab'")
      case True
      then have r': "r' \<in> set (update_rows (\<lambda>r. dr_id r = i) f rows)" using assms(3,6,7) changed(1,3) by simp
      then obtain q where q: "q \<in> set rows" "r' = (if dr_id q = i then f q else q)" unfolding in_update_rows_iff by blast
      then have "dr_id r' = dr_id q" using changed(7) by simp
      with assms(8) have "dr_id q = dr_id r" by simp
      from one [OF assms(3) q(1) this] have qr: "q = r" .
      show ?thesis
      proof (cases "dr_id r = i")
        case True
        then have "ei_trust j = dr_trust r" using assms(2,3,4) changed(5,6) unfolding doc_inv_def by metis
        then have "l = Untrusted" using changed(9) assms(5) by simp
        then show ?thesis using q(2) qr True changed(7) by simp
      next
        case False
        then show ?thesis using q(2) qr assms(5) by simp
      qed
    next
      case False
      then have "ad_tables d tab = Some rows'" using assms(6) changed(3) by simp
      from one [OF this assms(7,8)] show ?thesis using assms(5) by simp
    qed
  next
    case (removed tab' rows0 i)
    then have "\<exists>rows1. ad_tables d tab = Some rows1 \<and> r' \<in> set rows1" using assms(6,7) by (auto split: if_split_asm)
    then show ?thesis using one assms(5,8) by metis
  next
    case (opened tab')
    then have "ad_tables d tab = Some rows'" using assms(3,6) by (auto split: if_split_asm)
    then show ?thesis using one assms(5,7,8) by metis
  qed
qed

text \<open>
  C26: a document's trust never rises and its two rows agree on it. From tables whose rows agree, whatever is
  inserted, updated, deleted, read or provisioned, every document is in one table, once, with the trust of its
  entity; and no step turns a row that is untrusted into one that is trusted, whoever writes it and however trusted
  the call.
\<close>

theorem document_trust_only_weakens:
  assumes "doc_inv d0" "(doc_step env)\<^sup>*\<^sup>* d0 d" "doc_step env d d'"
  shows "doc_inv d \<and> (\<forall>tab rows rows' r r'. ad_tables d tab = Some rows \<and> ad_tables d' tab = Some rows' \<and> r \<in> set rows \<and> r' \<in> set rows' \<and>
    dr_id r' = dr_id r \<and> dr_trust r = Untrusted \<longrightarrow> dr_trust r' = Untrusted)"
proof -
  have "doc_inv d" using assms(2,1) by (induction rule: rtranclp_induct) (auto dest: doc_step_rows row_change_inv)
  then show ?thesis using row_change_trust [OF doc_step_rows [OF assms(3)]] by blast
qed

theorem document_trust_only_weakens_witness:
  "\<exists>d'. doc_step blob_env blob_app_db d' \<and> ad_tables d' drafts_table \<noteq> Some [] \<and> doc_inv d'"
proof -
  let ?r = "write_verb blob_env VInsert blob_app_db audit0 (mail_request ''1'') (sample_facts 500)"
  have t: "notes_table \<noteq> drafts_table" by code_simp
  have inv: "doc_inv blob_app_db" using t by (auto simp: doc_inv_def blob_app_db_def sample_app_db_def split: if_split_asm)
  obtain d' au' x where r: "?r = (d', au', x)" by (metis prod_cases3)
  have "map_option (map dr_id) (ad_tables (fst ?r) drafts_table) = Some [500]" by code_simp
  then have n: "ad_tables d' drafts_table \<noteq> Some []" using r by auto
  have "id_is_new blob_app_db (wf_id (sample_facts 500))"
    using t by (auto simp: id_is_new_def blob_app_db_def sample_app_db_def sample_facts_def split: if_split_asm)
  from doc_write [OF r this] have s: "doc_step blob_env blob_app_db d'" .
  have "doc_step blob_env d' d'" by (rule doc_other) simp_all
  from document_trust_only_weakens [OF inv _ this] s have "doc_inv d'" by blast
  with s n show ?thesis by blast
qed

end
