(* ===== verification/Hive_Docquery.thy ===== *)
theory Hive_Docquery
  imports Hive_Appdata
begin

text \<open>
  Listing a collection (\<open>query_inner\<close> of \<open>crates/hive-store/src/appdata.rs\<close>): the statement with the access predicate in
  it, read a batch at a time past a cursor, filtered by containment in the host until the page is full. Each
  batch is a statement of its own: it sees the database and the clock of its moment, which are arguments. The
  loop is given fuel, and what is shown says how much is enough.
\<close>

section \<open>Containment\<close>

fun contains :: "json \<Rightarrow> json \<Rightarrow> bool" where
  "contains (JObj h) (JObj n) = list_all (\<lambda>kv. case map_of h (fst kv) of None \<Rightarrow> False | Some hv \<Rightarrow> contains hv (snd kv)) n"
| "contains (JArr h) (JArr n) = list_all (\<lambda>nv. list_ex (\<lambda>hv. contains hv nv) h) n"
| "contains (JArr h) (JObj n) = False"
| "contains (JArr h) scalar = list_ex (\<lambda>hv. hv = scalar) h"
| "contains a b = (a = b)"

section \<open>Words and indexes\<close>

fun split_whitespace :: "string \<Rightarrow> string \<Rightarrow> string list" where
  "split_whitespace acc [] = (if acc = [] then [] else [acc])"
| "split_whitespace acc (c # s) =
     (if is_space c then (if acc = [] then split_whitespace [] s else acc # split_whitespace [] s) else split_whitespace (acc @ [c]) s)"

definition fts_words :: "string \<Rightarrow> string" where
  "fts_words s = join_with CHR '' '' (map (\<lambda>t. [CHR 0x22] @ double_quotes t @ [CHR 0x22]) (split_whitespace [] s))"

definition query_batch :: nat where "query_batch = 200"

definition query_limit :: "int \<Rightarrow> nat" where
  "query_limit n = (if n \<le> 0 \<or> 200 < n then 50 else nat n)"

record query_plan =
  qp_kind :: string
  qp_search :: "(string \<times> index list) option"
  qp_near :: "(index \<times> string) option"

definition plan_search :: "data_env \<Rightarrow> target_coll \<Rightarrow> doc_request \<Rightarrow> store_error + (string \<times> index list) option" where
  "plan_search env t q =
     (if trim (dq_search q) = [] then Inr None
      else (let fts = map xd_index (filter (\<lambda>x. xd_collection x = tc_collection t \<and> ix_method (xd_index x) = Fts) (ii_indexes (tc_info t)))
            in if fts = [] then Inl (HostInvalid ''collection declares no full-text index'')
               else Inr (Some (case de_engine env of Sqlite \<Rightarrow> fts_words (dq_search q) | Postgres \<Rightarrow> trim (dq_search q), fts))))"

definition plan_near :: "data_env \<Rightarrow> target_coll \<Rightarrow> doc_request \<Rightarrow> store_error + (index \<times> string) option" where
  "plan_near env t q =
     (case dq_near q of
        None \<Rightarrow> Inr None
      | Some nr \<Rightarrow>
          (case List.find (\<lambda>x. xd_collection x = tc_collection t \<and> ix_method (xd_index x) = Vector \<and> ix_path (xd_index x) = split_on CHR ''.'' (nr_path nr))
                  (ii_indexes (tc_info t)) of
             None \<Rightarrow> Inl (HostInvalid ''collection declares no vector index there'')
           | Some x \<Rightarrow>
               if length (nr_vector nr) mod 2 ^ 32 \<noteq> ix_dim (xd_index x) then Inl (HostInvalid ''vector has the wrong dimension'')
               else Inr (Some (xd_index x, js_text (de_json env) (JArr (nr_vector nr))))))"

section \<open>The statement\<close>

definition after_ok :: "app_db \<Rightarrow> uuid option \<Rightarrow> doc_row \<Rightarrow> bool" where
  "after_ok d after r \<longleftrightarrow>
     (case after of
        None \<Rightarrow> True
      | Some a \<Rightarrow>
          (case List.find (\<lambda>e. e_id e = a) (entities (ad_log d)) of
             None \<Rightarrow> False
           | Some e \<Rightarrow> (dr_created_at r, dr_id r) < (e_created_at e, a)))"

text \<open>The clauses other than the cursor: the join, the kind, the access predicate and the indexes.\<close>

definition row_passes :: "data_env \<Rightarrow> app_db \<Rightarrow> credential \<Rightarrow> query_plan \<Rightarrow> time \<Rightarrow> doc_row \<Rightarrow> bool" where
  "row_passes env d c p now r \<longleftrightarrow>
     (case entity_of d (dr_id r) of
        None \<Rightarrow> False
      | Some (e, j) \<Rightarrow>
          (qp_kind p = [] \<or> e_kind e = qp_kind p) \<and>
          fst (decision (ad_log d) (args_of c (subject_new SEntity (dr_id r)) Read now None)) \<noteq> None \<and>
          (case qp_search p of None \<Rightarrow> True | Some (ws, xs) \<Rightarrow> list_ex (\<lambda>x. de_matches env x ws (dr_doc r)) xs))"

definition row_distance :: "data_env \<Rightarrow> query_plan \<Rightarrow> doc_row \<Rightarrow> int option" where
  "row_distance env p r = (case qp_near p of None \<Rightarrow> None | Some (x, vec) \<Rightarrow> de_distance env x vec (dr_doc r))"

definition view_of :: "data_env \<Rightarrow> app_db \<Rightarrow> query_plan \<Rightarrow> doc_row \<Rightarrow> doc_view" where
  "view_of env d p r = (case entity_of d (dr_id r) of Some (e, j) \<Rightarrow> scan_doc e j r (row_distance env p r))"

definition newest_first :: "doc_row list \<Rightarrow> doc_row list" where
  "newest_first rows = rev (sort_key (\<lambda>r. (dr_created_at r, dr_id r)) rows)"

definition nearest_first :: "data_env \<Rightarrow> query_plan \<Rightarrow> doc_row list \<Rightarrow> doc_row list" where
  "nearest_first env p rows = sort_key (\<lambda>r. (the (row_distance env p r), dr_id r)) (filter (\<lambda>r. row_distance env p r \<noteq> None) rows)"

text \<open>
  SQLite joins the nearest rows of the whole table and filters those; Postgres filters and ranks what is left.
\<close>

definition batch_rows ::
  "data_env \<Rightarrow> app_db \<Rightarrow> string \<Rightarrow> credential \<Rightarrow> query_plan \<Rightarrow> uuid option \<Rightarrow> time \<Rightarrow> nat \<Rightarrow> store_error + doc_view list" where
  "batch_rows env d tab c p after now batch =
     (case ad_tables d tab of
        None \<Rightarrow> Inl (DbError ''query documents'' (TriggerAbort ''no such table''))
      | Some rows \<Rightarrow>
          (let passes = (\<lambda>r. row_passes env d c p now r \<and> after_ok d after r)
           in Inr (map (view_of env d p) (take batch
                (if qp_near p = None then filter passes (newest_first rows)
                 else (case de_engine env of
                         Sqlite \<Rightarrow> filter passes (take batch (nearest_first env p rows))
                       | Postgres \<Rightarrow> filter passes (nearest_first env p rows)))))))"

section \<open>The page\<close>

fun page_rows :: "nat \<Rightarrow> json \<Rightarrow> doc_view list \<Rightarrow> uuid option \<Rightarrow> level \<Rightarrow> doc_view list \<Rightarrow> uuid option \<times> level \<times> doc_view list" where
  "page_rows lim m [] after l out = (after, l, out)"
| "page_rows lim m (v # vs) after l out =
     (if \<not> contains (dv_doc v) m then page_rows lim m vs (Some (dv_id v)) l out
      else if length (out @ [v]) = lim then (Some (dv_id v), write_trust l (dv_trust v), out @ [v])
      else page_rows lim m vs (Some (dv_id v)) (write_trust l (dv_trust v)) (out @ [v]))"

fun query_loop ::
  "nat \<Rightarrow> (nat \<Rightarrow> uuid option \<Rightarrow> store_error + doc_view list) \<Rightarrow> nat \<Rightarrow> bool \<Rightarrow> json \<Rightarrow> nat \<Rightarrow> uuid option \<Rightarrow> level \<Rightarrow> doc_view list
   \<Rightarrow> (store_error + level \<times> doc_view list) option" where
  "query_loop 0 rd lim ranked m k after l out = None"
| "query_loop (Suc fuel) rd lim ranked m k after l out =
     (if \<not> length out < lim then Some (Inr (l, out))
      else (case rd k (if ranked then None else after) of
              Inl e \<Rightarrow> Some (Inl e)
            | Inr rows \<Rightarrow>
                (case page_rows lim m rows after l out of
                   (after', l', out') \<Rightarrow>
                     if ranked \<or> length rows < query_batch then Some (Inr (l', out'))
                     else query_loop fuel rd lim ranked m (Suc k) after' l' out')))"

definition query_after :: "data_env \<Rightarrow> doc_request \<Rightarrow> store_error + uuid option" where
  "query_after env q =
     (if dq_after q = [] then Inr None
      else (case de_uuid_parse env (dq_after q) of None \<Rightarrow> Inl (HostInvalid ''after is not a uuid'') | Some a \<Rightarrow> Inr (Some a)))"

definition query_next :: "nat \<Rightarrow> doc_view list \<Rightarrow> uuid option" where
  "query_next lim out = (if length out = lim \<and> out \<noteq> [] then Some (dv_id (last out)) else None)"

definition query_inner ::
  "nat \<Rightarrow> data_env \<Rightarrow> app_db \<Rightarrow> (nat \<Rightarrow> app_db \<times> time) \<Rightarrow> audit_db \<Rightarrow> request \<Rightarrow> time \<times> time
   \<Rightarrow> app_db \<times> audit_db \<times> (store_error + level \<times> doc_view list \<times> uuid option) option" where
  "query_inner fuel env d seen au req tm =
     (case open_target env d req of
        (fs, Inl e) \<Rightarrow> (d\<lparr>ad_files := fs\<rparr>, au, Some (Inl e))
      | (fs, Inr (q, info, t)) \<Rightarrow>
     (case cross_gate d au req info t Read ''storage.query'' tm of
        (au1, Inl e) \<Rightarrow> (d\<lparr>ad_files := fs\<rparr>, au1, Some (Inl e))
      | (au1, Inr _) \<Rightarrow>
          (d\<lparr>ad_files := fs\<rparr>, au1,
           (case query_after env q of
              Inl e \<Rightarrow> Some (Inl e)
            | Inr after \<Rightarrow>
           (case plan_search env t q of
              Inl e \<Rightarrow> Some (Inl e)
            | Inr ws \<Rightarrow>
           (case plan_near env t q of
              Inl e \<Rightarrow> Some (Inl e)
            | Inr nr \<Rightarrow>
                (let lim = query_limit (dq_limit q); ranked = dq_near q \<noteq> None; p = \<lparr>qp_kind = dq_kind q, qp_search = ws, qp_near = nr\<rparr>;
                     m = (case dq_match q of None \<Rightarrow> JObj [] | Some v \<Rightarrow> v)
                 in map_option (map_sum id (\<lambda>(l, out). (l, out, query_next lim out)))
                      (query_loop fuel (\<lambda>k a. batch_rows env (fst (seen k)) (tc_table t) (cl_cred (rq_caller req)) p a (snd (seen k))
                                                (if ranked then lim else query_batch))
                         lim ranked m 0 after Trusted []))))))))"

definition storage_query where
  "storage_query fuel env d seen au req tm =
     (case query_inner fuel env d seen au req tm of (d', au', r) \<Rightarrow> (d', au', map_option (map_sum (doc_host False) id) r))"

section \<open>A page of a scan\<close>

text \<open>The matches of a list, cut at the limit; the trust of a page is the weakest of its rows.\<close>

definition first_matches :: "json \<Rightarrow> nat \<Rightarrow> doc_view list \<Rightarrow> doc_view list" where
  "first_matches m n vs = take n (filter (\<lambda>v. contains (dv_doc v) m) vs)"

definition page_trust :: "level \<Rightarrow> doc_view list \<Rightarrow> level" where
  "page_trust l vs = (if \<exists>v \<in> set vs. dv_trust v = Untrusted then Untrusted else l)"

lemma page_trust_append: "page_trust l (xs @ ys) = page_trust (page_trust l xs) ys"
  by (auto simp: page_trust_def)

lemma page_trust_Cons: "page_trust (write_trust l (dv_trust v)) vs = page_trust l (v # vs)"
  by (cases l; cases "dv_trust v") (auto simp: page_trust_def write_trust_def)

lemma first_matches_append:
  "first_matches m n (xs @ ys) = first_matches m n xs @ first_matches m (n - length (first_matches m n xs)) ys"
  by (simp add: first_matches_def) (metis diff_is_0_eq diff_zero le_cases min.absorb1 min.absorb2 take0 take_eq_Nil)

lemma page_rows_spec:
  assumes "length out < lim" "page_rows lim m vs after l out = (after', l', out')"
  shows "out' = out @ first_matches m (lim - length out) vs \<and> l' = page_trust l (first_matches m (lim - length out) vs) \<and>
    (length out' < lim \<longrightarrow> after' = (if vs = [] then after else Some (dv_id (last vs))))"
  using assms
proof (induction vs arbitrary: after l out)
  case Nil
  then show ?case by (simp add: first_matches_def page_trust_def)
next
  case (Cons v vs)
  show ?case
  proof (cases "contains (dv_doc v) m")
    case False
    then have "page_rows lim m vs (Some (dv_id v)) l out = (after', l', out')" using Cons.prems(2) by simp
    from Cons.IH [OF Cons.prems(1) this] False show ?thesis by (simp add: first_matches_def)
  next
    case c: True
    obtain n where n: "lim - length out = Suc n" using Cons.prems(1) by (metis Suc_diff_Suc)
    have fm: "first_matches m (lim - length out) (v # vs) = v # first_matches m n vs" using c n by (simp add: first_matches_def)
    show ?thesis
    proof (cases "length (out @ [v]) = lim")
      case True
      then have "n = 0" using n by simp
      then show ?thesis using c True Cons.prems(2) fm page_trust_Cons [of l v "[]"] by (auto simp: first_matches_def page_trust_def)
    next
      case False
      then have p: "length (out @ [v]) < lim" "page_rows lim m vs (Some (dv_id v)) (write_trust l (dv_trust v)) (out @ [v]) = (after', l', out')"
        using c Cons.prems by simp_all
      have "lim - length (out @ [v]) = n" using n by simp
      with Cons.IH [OF p] fm page_trust_Cons [of l v] show ?thesis by simp
    qed
  qed
qed

text \<open>What the statement promises the loop: from the start, and from any row it returned, the rows that follow.\<close>

locale paged_scan =
  fixes rd :: "nat \<Rightarrow> uuid option \<Rightarrow> store_error + doc_view list" and xs :: "doc_view list" and a0 :: "uuid option"
  assumes start: "rd k a0 = Inr (take query_batch xs)"
    and onward: "xs = ys @ zs \<Longrightarrow> ys \<noteq> [] \<Longrightarrow> rd k (Some (dv_id (last ys))) = Inr (take query_batch zs)"
begin

lemma loop_from:
  assumes "xs = ys @ zs" "length zs < fuel" "length out < lim \<Longrightarrow> after = (if ys = [] then a0 else Some (dv_id (last ys)))"
  shows "query_loop fuel rd lim False m k after l out =
    Some (Inr (page_trust l (first_matches m (lim - length out) zs), out @ first_matches m (lim - length out) zs))"
  using assms
proof (induction fuel arbitrary: ys zs k after l out)
  case (Suc fuel)
  show ?case
  proof (cases "length out < lim")
    case False
    then show ?thesis by (simp add: first_matches_def page_trust_def)
  next
    case lim: True
    define rows where "rows = take query_batch zs"
    have f: "rd k after = Inr rows"
      using Suc.prems(3) [OF lim] start onward [OF Suc.prems(1)] Suc.prems(1) by (cases "ys = []") (simp_all add: rows_def)
    obtain after' l' out' where p: "page_rows lim m rows after l out = (after', l', out')" by (metis prod_cases3)
    note sp = page_rows_spec [OF lim p]
    show ?thesis
    proof (cases "length rows < query_batch")
      case True
      then have "rows = zs" by (simp add: rows_def)
      then show ?thesis using f p sp lim True by simp
    next
      case False
      define rest where "rest = drop query_batch zs"
      have z: "zs = rows @ rest" by (simp add: rows_def rest_def)
      have ne: "rows \<noteq> []" using False by (auto simp: query_batch_def)
      have step: "query_loop (Suc fuel) rd lim False m k after l out = query_loop fuel rd lim False m (Suc k) after' l' out'"
        using f p lim False by simp
      have len: "length rest < fuel" using Suc.prems(2) z ne by (cases rows) simp_all
      have "xs = (ys @ rows) @ rest" using Suc.prems(1) z by simp
      moreover have "length out' < lim \<Longrightarrow> after' = (if ys @ rows = [] then a0 else Some (dv_id (last (ys @ rows))))" using sp ne by simp
      ultimately have "query_loop fuel rd lim False m (Suc k) after' l' out' =
          Some (Inr (page_trust l' (first_matches m (lim - length out') rest), out' @ first_matches m (lim - length out') rest))"
        using Suc.IH len by blast
      moreover have "lim - length out' = lim - length out - length (first_matches m (lim - length out) rows)" using sp by simp
      ultimately show ?thesis unfolding step z first_matches_append page_trust_append using sp by simp
    qed
  qed
qed simp

lemma loop_returns:
  assumes "length xs < fuel"
  shows "query_loop fuel rd lim False m 0 a0 l [] = Some (Inr (page_trust l (first_matches m lim xs), first_matches m lim xs))"
  using loop_from [of "[]" xs fuel "[]" lim a0 m 0 l] assms by simp

end

section \<open>The statement keeps that promise\<close>

definition row_at :: "doc_row \<Rightarrow> time \<times> uuid" where "row_at r = (dr_created_at r, dr_id r)"

text \<open>A document and its entity were written in one transaction, with one clock reading.\<close>

definition dated :: "app_db \<Rightarrow> string \<Rightarrow> bool" where
  "dated d tab \<longleftrightarrow>
     (case ad_tables d tab of
        None \<Rightarrow> False
      | Some rows \<Rightarrow> distinct (map dr_id rows) \<and>
          list_all (\<lambda>r. list_all (\<lambda>e. e_id e = dr_id r \<longrightarrow> e_created_at e = dr_created_at r) (entities (ad_log d))) rows)"

definition listed_rows :: "data_env \<Rightarrow> app_db \<Rightarrow> string \<Rightarrow> credential \<Rightarrow> query_plan \<Rightarrow> uuid option \<Rightarrow> time \<Rightarrow> doc_row list" where
  "listed_rows env d tab c p a now =
     (if dated d tab \<and> qp_near p = None
      then filter (\<lambda>r. row_passes env d c p now r \<and> after_ok d a r) (newest_first (the (ad_tables d tab))) else [])"

definition listing :: "data_env \<Rightarrow> app_db \<Rightarrow> string \<Rightarrow> credential \<Rightarrow> query_plan \<Rightarrow> uuid option \<Rightarrow> time \<Rightarrow> doc_view list" where
  "listing env d tab c p a now = map (view_of env d p) (listed_rows env d tab c p a now)"

definition scan_at :: "data_env \<Rightarrow> app_db \<Rightarrow> string \<Rightarrow> credential \<Rightarrow> query_plan \<Rightarrow> time \<Rightarrow> nat \<Rightarrow> uuid option \<Rightarrow> store_error + doc_view list" where
  "scan_at env d tab c p now k a =
     (if dated d tab \<and> qp_near p = None then batch_rows env d tab c p a now query_batch else Inr [])"

lemma scan_at_listing: "scan_at env d tab c p now k a = Inr (take query_batch (listing env d tab c p a now))"
  by (auto simp: scan_at_def listing_def listed_rows_def batch_rows_def dated_def take_map split: option.split_asm)

lemma newest_first_sorted:
  assumes "distinct (map dr_id rows)"
  shows "sorted_wrt (\<lambda>r s. row_at s < row_at r) (newest_first rows)"
proof -
  let ?s = "sort_key row_at rows"
  have "distinct (map row_at ?s)"
  proof -
    have "inj_on row_at (set rows)" using assms by (auto simp: distinct_map inj_on_def row_at_def)
    then show ?thesis using assms by (simp add: distinct_map)
  qed
  then have "sorted_wrt (<) (map row_at ?s)" by (simp add: strict_sorted_iff)
  then have "sorted_wrt (\<lambda>r s. row_at r < row_at s) ?s" by (simp add: sorted_wrt_map)
  then show ?thesis unfolding newest_first_def row_at_def [abs_def, symmetric] by (simp add: sorted_wrt_rev)
qed

lemma passing_entity:
  assumes "row_passes env d c p now r"
  shows "\<exists>e j. entity_of d (dr_id r) = Some (e, j)" "\<exists>e \<in> set (entities (ad_log d)). e_id e = dr_id r" "dv_id (view_of env d p r) = dr_id r"
proof -
  show x: "\<exists>e j. entity_of d (dr_id r) = Some (e, j)" using assms by (cases "entity_of d (dr_id r)") (auto simp: row_passes_def)
  then show "dv_id (view_of env d p r) = dr_id r" by (auto simp: view_of_def scan_doc_def)
  from x obtain e where "List.find (\<lambda>e. e_id e = dr_id r \<and> e_deleted_at e = None) (entities (ad_log d)) = Some e"
    by (auto simp: entity_of_def split: option.split_asm)
  then show "\<exists>e \<in> set (entities (ad_log d)). e_id e = dr_id r" by (auto dest: find_SomeD)
qed

lemma after_own_row:
  assumes "dated d tab" "ad_tables d tab = Some rows" "y \<in> set rows" "row_passes env d c p now y"
  shows "after_ok d (Some (dr_id y)) r \<longleftrightarrow> row_at r < row_at y"
proof -
  obtain e where e: "List.find (\<lambda>e. e_id e = dr_id y) (entities (ad_log d)) = Some e"
    using passing_entity(2) [OF assms(4)] unfolding find_neq_None [symmetric] by blast
  then have "e \<in> set (entities (ad_log d))" "e_id e = dr_id y" by (auto dest: find_SomeD)
  then have "e_created_at e = dr_created_at y" using assms(1-3) by (simp add: dated_def list_all_iff)
  then show ?thesis using e by (simp add: after_ok_def row_at_def)
qed

lemma after_ok_below:
  assumes "after_ok d a s" "row_at r < row_at s"
  shows "after_ok d a r"
proof (cases a)
  case (Some x)
  obtain e where e: "List.find (\<lambda>e. e_id e = x) (entities (ad_log d)) = Some e"
    using assms(1) Some by (cases "List.find (\<lambda>e. e_id e = x) (entities (ad_log d))") (simp_all add: after_ok_def)
  then have "row_at s < (e_created_at e, x)" using assms(1) Some by (simp add: after_ok_def row_at_def)
  with assms(2) have "row_at r < (e_created_at e, x)" by (rule less_trans)
  then show ?thesis using e Some by (simp add: after_ok_def row_at_def)
qed (simp add: after_ok_def)

lemma sorted_split:
  assumes "sorted_wrt (\<lambda>r s. row_at s < row_at r) (ys @ zs)" "ys \<noteq> []"
  shows "filter (\<lambda>r. row_at r < row_at (last ys)) (ys @ zs) = zs"
proof -
  obtain ws y where ys: "ys = ws @ [y]" using assms(2) by (cases ys rule: rev_cases) auto
  have "\<not> row_at r < row_at y" if "r \<in> set ys" for r using that assms(1) by (auto simp: ys sorted_wrt_append)
  moreover have "row_at r < row_at y" if "r \<in> set zs" for r using that assms(1) by (auto simp: ys sorted_wrt_append)
  ultimately show ?thesis by (simp add: ys)
qed

lemma listed_rows_onward:
  assumes "listed_rows env d tab c p a now = ys @ zs" "ys \<noteq> []"
  shows "listed_rows env d tab c p (Some (dr_id (last ys))) now = zs"
proof -
  have d: "dated d tab" "qp_near p = None" using assms by (auto simp: listed_rows_def split: if_split_asm)
  then obtain rows where rows: "ad_tables d tab = Some rows" "distinct (map dr_id rows)" by (auto simp: dated_def split: option.split_asm)
  let ?L = "newest_first rows" and ?P = "row_passes env d c p now"
  have l: "listed_rows env d tab c p x now = filter (\<lambda>r. ?P r \<and> after_ok d x r) ?L" for x using d rows(1) by (simp add: listed_rows_def)
  have "last ys \<in> set (filter (\<lambda>r. ?P r \<and> after_ok d a r) ?L)" using assms unfolding l [symmetric] by simp
  then have y: "last ys \<in> set rows" "?P (last ys)" "after_ok d a (last ys)" by (auto simp: newest_first_def)
  note own = after_own_row [OF d(1) rows(1) y(1,2)]
  have below: "after_ok d a r" if "row_at r < row_at (last ys)" for r by (rule after_ok_below [OF y(3) that])
  have "listed_rows env d tab c p (Some (dr_id (last ys))) now = filter (\<lambda>r. row_at r < row_at (last ys)) (filter (\<lambda>r. ?P r \<and> after_ok d a r) ?L)"
    unfolding l own filter_filter by (rule filter_cong) (use below in auto)
  also have "\<dots> = filter (\<lambda>r. row_at r < row_at (last ys)) (ys @ zs)" using assms(1) unfolding l by simp
  also have "\<dots> = zs"
  proof (rule sorted_split [OF _ assms(2)])
    have "sorted_wrt (\<lambda>r s. row_at s < row_at r) (filter (\<lambda>r. ?P r \<and> after_ok d a r) ?L)"
      by (rule sorted_wrt_filter [OF newest_first_sorted [OF rows(2)]])
    then show "sorted_wrt (\<lambda>r s. row_at s < row_at r) (ys @ zs)" using assms(1) unfolding l by simp
  qed
  finally show ?thesis .
qed

interpretation dq: paged_scan "scan_at env d tab c p now" "listing env d tab c p a now" a for env d tab c p a now
proof
  show "scan_at env d tab c p now k a = Inr (take query_batch (listing env d tab c p a now))" for k by (rule scan_at_listing)
next
  fix ys zs k assume split: "listing env d tab c p a now = ys @ zs" "ys \<noteq> []"
  then obtain Y Z where r: "listed_rows env d tab c p a now = Y @ Z" "ys = map (view_of env d p) Y" "zs = map (view_of env d p) Z"
    unfolding listing_def by (metis map_eq_append_conv)
  then have Y: "Y \<noteq> []" using split(2) by simp
  then have "last Y \<in> set (listed_rows env d tab c p a now)" using r(1) by simp
  then have "row_passes env d c p now (last Y)" by (auto simp: listed_rows_def split: if_split_asm)
  then have "dv_id (last ys) = dr_id (last Y)" using passing_entity(3) r(2) Y by (simp add: last_map)
  then show "scan_at env d tab c p now k (Some (dv_id (last ys))) = Inr (take query_batch zs)"
    using listed_rows_onward [OF r(1) Y] r(3) by (simp add: scan_at_listing listing_def)
qed

text \<open>
  C29: a listing returns the first matches and nothing else. While nothing is written, and for a query that is not
  ranked by distance, the loop over batches ends and its page is exactly the reference: the documents of the
  table that the access predicate lets the caller read, newest first, past the cursor, that contain the filter, cut
  at the limit. Its trust is untrusted if one of the returned rows is. The number of batches read never
  exceeds the number of rows.
\<close>

theorem query_returns_the_first_matches:
  assumes "dated d tab" "qp_near p = None" "length (the (ad_tables d tab)) < fuel"
  shows "query_loop fuel (\<lambda>k a. batch_rows env d tab c p a now query_batch) lim False m 0 after Trusted [] =
    Some (Inr (page_trust Trusted (first_matches m lim (listing env d tab c p after now)), first_matches m lim (listing env d tab c p after now)))"
proof -
  have "length (listing env d tab c p after now) \<le> length (newest_first (the (ad_tables d tab)))"
    using assms(1,2) by (simp add: listing_def listed_rows_def)
  then have "length (listing env d tab c p after now) < fuel" using assms(3) by (simp add: newest_first_def)
  moreover have "scan_at env d tab c p now = (\<lambda>k a. batch_rows env d tab c p a now query_batch)"
    using assms(1,2) by (intro ext) (simp add: scan_at_def)
  ultimately show ?thesis using dq.loop_returns [of env d tab c p after now fuel lim m Trusted] by simp
qed

definition any_note :: query_plan where "any_note = \<lparr>qp_kind = [], qp_search = None, qp_near = None\<rparr>"

theorem query_returns_the_first_matches_witness:
  "\<exists>v. query_loop 2 (\<lambda>k a. batch_rows sample_env sample_app_db notes_table alice any_note a 100 query_batch) 50 False (JObj []) 0 None Trusted []
     = Some (Inr (Trusted, [v])) \<and> dv_id v = 20"
proof -
  have d: "dated sample_app_db notes_table" by code_simp
  have l: "length (the (ad_tables sample_app_db notes_table)) < 2" by code_simp
  have "map dv_id (first_matches (JObj []) 50 (listing sample_env sample_app_db notes_table alice any_note None 100)) = [20]" by code_simp
  then obtain v where v: "first_matches (JObj []) 50 (listing sample_env sample_app_db notes_table alice any_note None 100) = [v]" "dv_id v = 20" by auto
  have "page_trust Trusted (first_matches (JObj []) 50 (listing sample_env sample_app_db notes_table alice any_note None 100)) = Trusted" by code_simp
  with query_returns_the_first_matches [OF d _ l, of any_note sample_env alice 100 50 "JObj []" None] v
  show ?thesis by (simp add: any_note_def)
qed

text \<open>
  A cursor does not survive its row. The row a page ended at is deleted before the next page is asked for: the
  statement finds no date to compare with, the page is empty and says that the listing is over, though there is more.
\<close>

definition two_notes :: app_db where
  "two_notes = sample_app_db\<lparr>
     ad_log := (ad_log sample_app_db)\<lparr>entities :=
       [\<lparr>e_id = 20, e_kind = ''note'', e_owner = owner_user 1, e_created_at = 8, e_deleted_at = None\<rparr>,
        \<lparr>e_id = 22, e_kind = ''note'', e_owner = owner_user 1, e_created_at = 9, e_deleted_at = None\<rparr>]\<rparr>,
     ad_info := ad_info sample_app_db @ [(hd (ad_info sample_app_db))\<lparr>ei_id := 22, ei_ref := ''b''\<rparr>],
     ad_tables := (ad_tables sample_app_db)(notes_table \<mapsto>
       [\<lparr>dr_id = 20, dr_doc = JObj [], dr_trust = Trusted, dr_tainted_by = None, dr_created_at = 8, dr_updated_at = 8\<rparr>,
        \<lparr>dr_id = 22, dr_doc = JObj [], dr_trust = Trusted, dr_tainted_by = None, dr_created_at = 9, dr_updated_at = 9\<rparr>])\<rparr>"

definition page_ids :: "app_db \<Rightarrow> uuid option \<Rightarrow> uuid list option" where
  "page_ids d a =
     (case query_loop 3 (\<lambda>k a. batch_rows sample_env d notes_table alice any_note a 100 query_batch) 1 False (JObj []) 0 a Trusted [] of
        Some (Inr (l, out)) \<Rightarrow> Some (map dv_id out)
      | _ \<Rightarrow> None)"

definition notes_delete :: request where
  "notes_delete = (mail_request ''22'')\<lparr>rq_caller := \<lparr>cl_cred = alice, cl_install_id = 10\<rparr>\<rparr>"

theorem deleted_cursor_ends_the_listing:
  "page_ids two_notes None = Some [22] \<and> page_ids two_notes (Some 22) = Some [20] \<and>
   (\<exists>d' au'. delete_inner (sample_env\<lparr>de_body := (\<lambda>s. Some (doc_request_default\<lparr>dq_collection := ''notes'', dq_id := s\<rparr>))\<rparr>)
        two_notes audit0 notes_delete (sample_facts 0) = (d', au', Inr (Deleted 22)) \<and>
      page_ids d' (Some 22) = Some [] \<and> page_ids d' None = Some [20])"
proof -
  let ?r = "delete_inner (sample_env\<lparr>de_body := (\<lambda>s. Some (doc_request_default\<lparr>dq_collection := ''notes'', dq_id := s\<rparr>))\<rparr>)
        two_notes audit0 notes_delete (sample_facts 0)"
  have "page_ids two_notes None = Some [22]" "page_ids two_notes (Some 22) = Some [20]" by code_simp+
  moreover have "snd (snd ?r) = Inr (Deleted 22)" by code_simp
  moreover have "page_ids (fst ?r) (Some 22) = Some []" by code_simp
  moreover have "page_ids (fst ?r) None = Some [20]" by code_simp
  ultimately show ?thesis by (metis prod.collapse)
qed

end
