(* ===== verification/Hive_Provision.thy ===== *)
theory Hive_Provision
  imports Hive_Appdata
begin

text \<open>
  Provisioning an app's storage (\<open>crates/hive-store/src/appschema.rs\<close>): how a schema plan becomes the
  tables, triggers, indexes and mirror tables of one install on either engine. A statement is modelled by
  what it creates or drops: the kind of object, the quoted qualifier and name, the object it hangs on and,
  for an index, the indexed expression. The rows a mirror trigger copies are not. A refused name
  refuses the plan as a whole, because the statements run inside the caller's transaction.
\<close>

section \<open>Names\<close>

fun quote_quotes :: "string \<Rightarrow> string" where
  "quote_quotes [] = []"
| "quote_quotes (c # s) = (if c = CHR 0x27 then [c, c] else [c]) @ quote_quotes s"

definition quote_literal :: "string \<Rightarrow> string" where
  "quote_literal s = [CHR 0x27] @ quote_quotes s @ [CHR 0x27]"

definition unsafe_identifier :: "string \<Rightarrow> store_error" where
  "unsafe_identifier s = Other (''unsafe identifier: '' @ s)"

definition checked_ident :: "string \<Rightarrow> store_error + unit" where
  "checked_ident s = (if check_ident s then Inr () else Inl (unsafe_identifier s))"

definition derived_ident :: "string \<Rightarrow> string \<Rightarrow> store_error + string" where
  "derived_ident base suffix =
     (let name = base @ suffix
      in if max_identifier_len * 2 + 2 < length name then Inl (unsafe_identifier name) else Inr (quote_ident name))"

definition virtual_table_name :: "string \<Rightarrow> nat \<Rightarrow> string \<Rightarrow> store_error + string" where
  "virtual_table_name base ordinal kind =
     (let name = base @ ''_'' @ show_nat ordinal @ ''_'' @ kind
      in if max_identifier_len * 2 + 2 < length name then Inl (unsafe_identifier name) else Inr name)"

definition pg_derived_ident :: "string \<Rightarrow> string \<Rightarrow> store_error + string" where
  "pg_derived_ident collection suffix =
     (let name = collection @ suffix
      in if max_identifier_len < length name then Inl (unsafe_identifier name) else Inr (quote_ident name))"

definition pg_index_column :: "index_method \<Rightarrow> nat \<Rightarrow> string" where
  "pg_index_column method ordinal =
     (case method of Fts \<Rightarrow> ''fts'' | Vector \<Rightarrow> ''vec'' | BTree \<Rightarrow> ''idx'' | Gin \<Rightarrow> ''idx'') @ ''_'' @ show_nat ordinal"

definition index_suffix :: "index \<Rightarrow> nat \<Rightarrow> string" where
  "index_suffix idx ordinal = ''_'' @ index_method_as_str (ix_method idx) @ ''_'' @ show_nat ordinal @ ''_idx''"

section \<open>The accessor of a path\<close>

fun path_hops :: "bool \<Rightarrow> string list \<Rightarrow> string" where
  "path_hops val [] = []"
| "path_hops val (seg # segs) =
     (if val \<and> segs = [] then '' ->> '' else '' -> '') @ quote_literal seg @ path_hops val segs"

definition doc_path :: "index \<Rightarrow> store_error + string" where
  "doc_path idx =
     (if ix_path idx = [] then Inl (unsafe_identifier ''index with no path'')
      else (case List.find (\<lambda>s. \<not> check_ident s) (ix_path idx) of
              Some s \<Rightarrow> Inl (unsafe_identifier s)
            | None \<Rightarrow> Inr (''doc'' @ path_hops (ix_method idx \<noteq> Gin) (ix_path idx))))"

definition doc_json_path :: "index \<Rightarrow> store_error + string" where
  "doc_json_path idx =
     (if ix_path idx = [] then Inl (unsafe_identifier ''index with no path'')
      else (case List.find (\<lambda>s. \<not> check_ident s) (ix_path idx) of
              Some s \<Rightarrow> Inl (unsafe_identifier s)
            | None \<Rightarrow> Inr (''doc'' @ path_hops False (ix_path idx))))"

section \<open>Statements\<close>

datatype ddl_kind = SchemaDdl | FunctionDdl | TableDdl | DropTriggerDdl | TriggerDdl | IndexDdl | VirtualDdl | ColumnDdl

record ddl =
  ddl_kind :: ddl_kind
  ddl_in :: string
  ddl_name :: string
  ddl_on :: string
  ddl_body :: string

abbreviation Ddl :: "ddl_kind \<Rightarrow> string \<Rightarrow> string \<Rightarrow> string \<Rightarrow> string \<Rightarrow> ddl" where
  "Ddl k q n t b \<equiv> \<lparr>ddl_kind = k, ddl_in = q, ddl_name = n, ddl_on = t, ddl_body = b\<rparr>"

text \<open>Sequencing: the first refusal is the result.\<close>

definition also_do :: "store_error + ddl list \<Rightarrow> store_error + ddl list \<Rightarrow> store_error + ddl list" where
  "also_do x y = (case x of Inl e \<Rightarrow> Inl e | Inr a \<Rightarrow> map_sum id ((@) a) y)"

fun each_index :: "(nat \<Rightarrow> index \<Rightarrow> store_error + ddl list) \<Rightarrow> nat \<Rightarrow> index list \<Rightarrow> store_error + ddl list" where
  "each_index f n [] = Inr []"
| "each_index f n (i # is) = also_do (f n i) (each_index f (Suc n) is)"

fun each_collection :: "(collection_plan \<Rightarrow> store_error + ddl list) \<Rightarrow> collection_plan list \<Rightarrow> store_error + ddl list" where
  "each_collection f [] = Inr []"
| "each_collection f (c # cs) = also_do (f c) (each_collection f cs)"

section \<open>SQLite\<close>

definition mirror_triggers :: "string \<Rightarrow> string \<Rightarrow> string \<Rightarrow> ddl list" where
  "mirror_triggers alias vt table =
     concat (map (\<lambda>suffix. let name = quote_ident (vt @ suffix) in
       [Ddl DropTriggerDdl (quote_ident alias) name [] [], Ddl TriggerDdl (quote_ident alias) name table []])
       [''_ai'', ''_au'', ''_ad''])"

definition apply_index :: "string \<Rightarrow> string \<Rightarrow> string \<Rightarrow> string \<Rightarrow> nat \<Rightarrow> index \<Rightarrow> store_error + ddl list" where
  "apply_index alias schema collection table ordinal idx =
     (let base = schema @ ''__'' @ collection; q = quote_ident alias in
      case doc_path idx of
        Inl e \<Rightarrow> Inl e
      | Inr expr \<Rightarrow>
          (if ix_method idx = BTree \<or> ix_method idx = Gin
           then (case derived_ident base (index_suffix idx ordinal) of
                   Inl e \<Rightarrow> Inl e
                 | Inr name \<Rightarrow> Inr [Ddl IndexDdl q name table expr])
           else if ix_method idx = Fts
           then (case virtual_table_name base ordinal ''fts'' of
                   Inl e \<Rightarrow> Inl e
                 | Inr vt \<Rightarrow> Inr (Ddl VirtualDdl q (quote_ident vt) [] ''fts5(id UNINDEXED, body)'' # mirror_triggers alias vt table))
           else (case virtual_table_name base ordinal ''vec'' of
                   Inl e \<Rightarrow> Inl e
                 | Inr vt \<Rightarrow>
                     (case doc_json_path idx of
                        Inl e \<Rightarrow> Inl e
                      | Inr _ \<Rightarrow>
                          Inr (Ddl VirtualDdl q (quote_ident vt) []
                                 (''vec0(id TEXT PRIMARY KEY, embedding float['' @ show_nat (ix_dim idx) @ ''])'') #
                               mirror_triggers alias vt table)))))"

definition apply_collection :: "string \<Rightarrow> string \<Rightarrow> collection_plan \<Rightarrow> store_error + ddl list" where
  "apply_collection alias schema c =
     (let base = schema @ ''__'' @ cp_name c; bare = quote_ident base; q = quote_ident alias in
      case checked_ident (cp_name c) of
        Inl e \<Rightarrow> Inl e
      | Inr _ \<Rightarrow>
          (case derived_ident base ''_touch'' of
             Inl e \<Rightarrow> Inl e
           | Inr trigger \<Rightarrow>
               also_do
                 (Inr [Ddl TableDdl q bare [] [], Ddl DropTriggerDdl q trigger [] [], Ddl TriggerDdl q trigger bare []])
                 (each_index (apply_index alias schema (cp_name c) bare) 0 (cp_indexes c))))"

section \<open>Postgres\<close>

definition pg_touch_fn :: string where "pg_touch_fn = ''hive_touch_updated_at''"

definition apply_index_pg :: "string \<Rightarrow> string \<Rightarrow> string \<Rightarrow> nat \<Rightarrow> index \<Rightarrow> store_error + ddl list" where
  "apply_index_pg schema collection table ordinal idx =
     (let q = quote_ident schema; col = quote_ident (pg_index_column (ix_method idx) ordinal) in
      case doc_path idx of
        Inl e \<Rightarrow> Inl e
      | Inr expr \<Rightarrow>
          (case pg_derived_ident collection (index_suffix idx ordinal) of
             Inl e \<Rightarrow> Inl e
           | Inr name \<Rightarrow>
               (case ix_method idx of
                  BTree \<Rightarrow> Inr [Ddl IndexDdl q name table expr]
                | Gin \<Rightarrow> Inr [Ddl IndexDdl q name table expr]
                | Fts \<Rightarrow> Inr [Ddl ColumnDdl q col table expr, Ddl IndexDdl q name table col]
                | Vector \<Rightarrow>
                    (case doc_json_path idx of
                       Inl e \<Rightarrow> Inl e
                     | Inr json \<Rightarrow>
                         (case pg_derived_ident collection (''_vec_'' @ show_nat ordinal @ ''_mirror'') of
                            Inl e \<Rightarrow> Inl e
                          | Inr func \<Rightarrow>
                              Inr [Ddl ColumnDdl q col table (''vector('' @ show_nat (ix_dim idx) @ '')''),
                                   Ddl FunctionDdl q func [] json,
                                   Ddl DropTriggerDdl q func table [], Ddl TriggerDdl q func table [],
                                   Ddl IndexDdl q name table col])))))"

definition apply_collection_pg :: "string \<Rightarrow> collection_plan \<Rightarrow> store_error + ddl list" where
  "apply_collection_pg schema c =
     (let q = quote_ident schema; table = table_name Postgres [] schema (cp_name c) in
      case checked_ident (cp_name c) of
        Inl e \<Rightarrow> Inl e
      | Inr _ \<Rightarrow>
          (case pg_derived_ident (cp_name c) ''_touch'' of
             Inl e \<Rightarrow> Inl e
           | Inr trigger \<Rightarrow>
               also_do
                 (Inr [Ddl TableDdl q (quote_ident (cp_name c)) [] [], Ddl DropTriggerDdl q trigger table [],
                       Ddl TriggerDdl q trigger table []])
                 (each_index (apply_index_pg schema (cp_name c) table) 0 (cp_indexes c))))"

section \<open>A plan\<close>

definition apply_schema_plan ::
  "data_env \<Rightarrow> (string \<Rightarrow> owner option) \<Rightarrow> owner \<Rightarrow> schema_plan \<Rightarrow> (string \<Rightarrow> owner option) \<times> (store_error + ddl list)" where
  "apply_schema_plan env fs w plan =
     (case List.find (\<lambda>s. \<not> check_ident s) (sp_schema plan # map cp_name (sp_collections plan)) of
        Some s \<Rightarrow> (fs, Inl (unsafe_identifier s))
      | None \<Rightarrow>
          (case attach_owner env fs w of
             (fs', Inl e) \<Rightarrow> (fs', Inl e)
           | (fs', Inr alias) \<Rightarrow>
               (fs', case de_engine env of
                  Sqlite \<Rightarrow> each_collection (apply_collection alias (sp_schema plan)) (sp_collections plan)
                | Postgres \<Rightarrow>
                    also_do
                      (Inr [Ddl SchemaDdl [] (quote_ident (sp_schema plan)) [] [],
                            Ddl FunctionDdl (quote_ident (sp_schema plan)) pg_touch_fn [] []])
                      (each_collection (apply_collection_pg (sp_schema plan)) (sp_collections plan)))))"

text \<open>
  Uninstalling. On SQLite the tables are those the catalogue of the owner's file has under the install's
  prefix, with the text of their statements, virtual ones first; the result is what is dropped, in order.
\<close>

definition is_virtual :: "string \<Rightarrow> bool" where
  "is_virtual sql = (let s = dropWhile is_space sql in to_ascii_lowercase (take 21 s) = ''create virtual table '')"

definition drop_schema_plan ::
  "data_env \<Rightarrow> (string \<Rightarrow> owner option) \<Rightarrow> owner \<Rightarrow> (string \<times> string option) list \<Rightarrow> schema_plan
   \<Rightarrow> (string \<Rightarrow> owner option) \<times> (store_error + string list)" where
  "drop_schema_plan env fs w catalogue plan =
     (case checked_ident (sp_schema plan) of
        Inl e \<Rightarrow> (fs, Inl e)
      | Inr _ \<Rightarrow>
          (case attach_owner env fs w of
             (fs', Inl e) \<Rightarrow> (fs', Inl e)
           | (fs', Inr alias) \<Rightarrow>
               (fs', Inr
                 (if de_engine env = Postgres then [quote_ident (sp_schema plan)]
                  else (let found = filter (\<lambda>(t, _). starts_with (sp_schema plan @ ''__'') t) catalogue;
                            virt = (\<lambda>(_, sql). case sql of None \<Rightarrow> False | Some q \<Rightarrow> is_virtual q)
                        in map (\<lambda>(t, _). owner_table alias t) (filter virt found @ filter (\<lambda>r. \<not> virt r) found))))))"

section \<open>Names fit\<close>

text \<open>A quoted name that needs no escaping and has at most so many characters.\<close>

definition plain :: "nat \<Rightarrow> string \<Rightarrow> bool" where
  "plain k q \<longleftrightarrow> (\<exists>n. q = [CHR 0x22] @ n @ [CHR 0x22] \<and> list_all name_char n \<and> length n \<le> k)"

definition fits :: "nat \<Rightarrow> ddl \<Rightarrow> bool" where
  "fits k s \<longleftrightarrow> ddl_name s = pg_touch_fn \<or> plain k (ddl_name s)"

text \<open>The statements that make an index: on SQLite a full-text or vector index is a table of its own.\<close>

definition makes_index :: "ddl \<Rightarrow> bool" where
  "makes_index s \<longleftrightarrow> ddl_kind s = IndexDdl \<or> ddl_kind s = VirtualDdl"

lemma quote_plain: "list_all name_char n \<Longrightarrow> length n \<le> k \<Longrightarrow> plain k (quote_ident n)"
proof -
  assume n: "list_all name_char n" "length n \<le> k"
  have "\<not> name_char CHR 0x22" by code_simp
  then have "double_quotes n = n" using n(1) by (induction n) auto
  with n show ?thesis by (auto simp: plain_def quote_ident_def)
qed

lemma show_nat_name [simp]: "list_all name_char (show_nat n)"
  using show_nat_digits by (auto simp: list_all_iff name_char_def)

lemma show_nat_length: "n < 10 ^ Suc k \<Longrightarrow> length (show_nat n) \<le> Suc k"
proof (induction k arbitrary: n)
  case 0
  then show ?case by (subst show_nat.simps) simp
next
  case (Suc k)
  then have "n div 10 < 10 ^ Suc k" by (simp add: less_mult_imp_div_less mult.commute)
  from Suc.IH [OF this] show ?case by (subst show_nat.simps) simp
qed

lemma show_ordinal: "n < 10000 \<Longrightarrow> length (show_nat n) \<le> 4"
  using show_nat_length [of n 3] by simp

lemma name_re_ident: "name_re s \<longleftrightarrow> check_ident s"
  by (cases s) (auto simp: name_re_def check_ident_def name_char_def [abs_def] max_identifier_len_def)

lemma paths_ok:
  assumes "wf_index idx"
  shows "\<exists>e. doc_path idx = Inr e" "\<exists>e. doc_json_path idx = Inr e"
proof -
  have "ix_path idx \<noteq> []" "List.find (\<lambda>s. \<not> check_ident s) (ix_path idx) = None"
    using assms by (auto simp: wf_index_def list_all_iff name_re_ident find_None_iff)
  then show "\<exists>e. doc_path idx = Inr e" "\<exists>e. doc_json_path idx = Inr e"
    by (simp_all add: doc_path_def doc_json_path_def)
qed

text \<open>Literal pieces of a name.\<close>

lemma literal_names [simp]:
  "name_char CHR ''_''" "name_char CHR ''a''" "name_char CHR ''b''" "name_char CHR ''c''" "name_char CHR ''d''"
  "name_char CHR ''e''" "name_char CHR ''f''" "name_char CHR ''g''" "name_char CHR ''h''" "name_char CHR ''i''"
  "name_char CHR ''m''" "name_char CHR ''n''" "name_char CHR ''o''" "name_char CHR ''p''" "name_char CHR ''r''" "name_char CHR ''s''"
  "name_char CHR ''t''" "name_char CHR ''u''" "name_char CHR ''v''" "name_char CHR ''x''"
  by code_simp+

lemma method_names [simp]: "list_all name_char (index_method_as_str m)"
  by (cases m) simp_all

lemma method_length: "length (index_method_as_str m) \<le> 6" "m \<noteq> Vector \<Longrightarrow> length (index_method_as_str m) \<le> 5"
  by (cases m; simp)+

lemma index_suffix_names:
  assumes "n < 10000"
  shows "list_all name_char (index_suffix idx n)" "length (index_suffix idx n) \<le> 16"
    "ix_method idx \<noteq> Vector \<Longrightarrow> length (index_suffix idx n) \<le> 15"
proof -
  have u: "index_suffix idx n = ''_'' @ index_method_as_str (ix_method idx) @ ''_'' @ show_nat n @ ''_idx''" by (simp add: index_suffix_def)
  show "list_all name_char (index_suffix idx n)" unfolding u list_all_append by simp
  show "length (index_suffix idx n) \<le> 16" "ix_method idx \<noteq> Vector \<Longrightarrow> length (index_suffix idx n) \<le> 15"
    using show_ordinal [OF assms] method_length [of "ix_method idx"] unfolding u by simp_all
qed

text \<open>One index on SQLite: every name is the base and at most sixteen characters.\<close>

lemma mirror_triggers_fit:
  assumes "list_all name_char vt" "length vt \<le> 125"
  shows "list_all (fits 128) (mirror_triggers alias vt table)" "filter makes_index (mirror_triggers alias vt table) = []"
proof -
  have "plain 128 (quote_ident (vt @ suffix))" if "suffix \<in> {''_ai'', ''_au'', ''_ad''}" for suffix
    by (rule quote_plain) (use assms that in auto)
  then show "list_all (fits 128) (mirror_triggers alias vt table)" by (simp add: mirror_triggers_def fits_def Let_def)
  show "filter makes_index (mirror_triggers alias vt table) = []" by (simp add: mirror_triggers_def makes_index_def Let_def)
qed

definition one_index :: "nat \<Rightarrow> store_error + ddl list \<Rightarrow> bool" where
  "one_index k r \<longleftrightarrow> (\<exists>ds. r = Inr ds \<and> list_all (fits k) ds \<and> length (filter makes_index ds) = 1)"

lemma apply_index_fits:
  assumes "wf_index idx" "n < 10000" "list_all name_char (schema @ ''__'' @ c)" "length (schema @ ''__'' @ c) \<le> 112"
  shows "one_index 128 (apply_index alias schema c table n idx)"
proof -
  let ?b = "schema @ ''__'' @ c"
  obtain e j where p: "doc_path idx = Inr e" "doc_json_path idx = Inr j" using paths_ok [OF assms(1)] by blast
  show ?thesis
  proof (cases "ix_method idx = BTree \<or> ix_method idx = Gin")
    case True
    then have s: "ix_method idx \<noteq> Vector" by auto
    note x = index_suffix_names [OF assms(2), of idx]
    have "length (?b @ index_suffix idx n) \<le> 127" using assms(4) x(3) [OF s] by simp
    moreover have "list_all name_char (?b @ index_suffix idx n)" using assms(3) x(1) by (simp only: list_all_append)
    ultimately have "derived_ident ?b (index_suffix idx n) = Inr (quote_ident (?b @ index_suffix idx n))"
        "plain 128 (quote_ident (?b @ index_suffix idx n))"
      using quote_plain [of "?b @ index_suffix idx n" 128] by (simp_all add: derived_ident_def max_identifier_len_def)
    then show ?thesis using True p(1)
      unfolding apply_index_def one_index_def Let_def p(1) sum.case by (simp add: fits_def makes_index_def)
  next
    case False
    have vt: "virtual_table_name ?b n k = Inr (?b @ ''_'' @ show_nat n @ ''_'' @ k)"
        "list_all name_char (?b @ ''_'' @ show_nat n @ ''_'' @ k)" "length (?b @ ''_'' @ show_nat n @ ''_'' @ k) \<le> 125"
      if "k \<in> {''fts'', ''vec''}" for k
    proof -
      show "list_all name_char (?b @ ''_'' @ show_nat n @ ''_'' @ k)" using assms(3) that unfolding list_all_append by auto
      show l: "length (?b @ ''_'' @ show_nat n @ ''_'' @ k) \<le> 125" using assms(4) that show_ordinal [OF assms(2)] by auto
      then show "virtual_table_name ?b n k = Inr (?b @ ''_'' @ show_nat n @ ''_'' @ k)"
        by (simp add: virtual_table_name_def max_identifier_len_def)
    qed
    have made: "list_all (fits 128) (Ddl VirtualDdl q (quote_ident vt) [] body # mirror_triggers alias vt table)"
        "length (filter makes_index (Ddl VirtualDdl q (quote_ident vt) [] body # mirror_triggers alias vt table)) = 1"
      if "list_all name_char vt" "length vt \<le> 125" for vt q body
      using mirror_triggers_fit [OF that] quote_plain [of vt 128] that by (simp_all add: fits_def makes_index_def)
    show ?thesis
    proof (cases "ix_method idx = Fts")
      case True
      with vt [of "''fts''"] made p(1) show ?thesis unfolding apply_index_def one_index_def Let_def p(1) sum.case by simp
    next
      case F: False
      with False vt [of "''vec''"] made p show ?thesis unfolding apply_index_def one_index_def Let_def p sum.case by simp
    qed
  qed
qed

text \<open>One index on Postgres.\<close>

lemma pg_derived:
  assumes "list_all name_char (c @ suffix)" "length (c @ suffix) \<le> 63"
  shows "pg_derived_ident c suffix = Inr (quote_ident (c @ suffix))" "plain 63 (quote_ident (c @ suffix))"
  using assms quote_plain [OF assms] by (simp_all add: pg_derived_ident_def max_identifier_len_def)

lemma apply_index_pg_fits:
  assumes "wf_index idx" "n < 10000" "list_all name_char c" "length c \<le> 47"
  shows "one_index 63 (apply_index_pg schema c table n idx)"
proof -
  obtain e j where p: "doc_path idx = Inr e" "doc_json_path idx = Inr j" using paths_ok [OF assms(1)] by blast
  note x = index_suffix_names [OF assms(2), of idx]
  have i: "pg_derived_ident c (index_suffix idx n) = Inr (quote_ident (c @ index_suffix idx n))"
      "plain 63 (quote_ident (c @ index_suffix idx n))"
    using pg_derived [of c "index_suffix idx n"] assms(3,4) x by simp_all
  let ?m = "''_vec_'' @ show_nat n @ ''_mirror''"
  have "list_all name_char (c @ ?m)" using assms(3) unfolding list_all_append by simp
  then have m: "pg_derived_ident c ?m = Inr (quote_ident (c @ ?m))" "plain 63 (quote_ident (c @ ?m))"
    using pg_derived [of c ?m] assms(4) show_ordinal [OF assms(2)] by simp_all
  have "list_all name_char (pg_index_column (ix_method idx) n)" "length (pg_index_column (ix_method idx) n) \<le> 63"
    using show_ordinal [OF assms(2)] unfolding pg_index_column_def list_all_append by (simp_all split: index_method.split)
  from quote_plain [OF this] have col: "plain 63 (quote_ident (pg_index_column (ix_method idx) n))" .
  show ?thesis
    unfolding apply_index_pg_def one_index_def Let_def p sum.case i m
    using i(2) m(2) col by (cases "ix_method idx") (simp_all add: fits_def makes_index_def)
qed

section \<open>A validated manifest provisions\<close>

lemma also_do_Inr [simp]: "also_do (Inr a) (Inr b) = Inr (a @ b)"
  by (simp add: also_do_def)

lemma each_index_ok:
  assumes "\<And>j i. n \<le> j \<Longrightarrow> j < n + length is \<Longrightarrow> i \<in> set is \<Longrightarrow> one_index k (f j i)"
  shows "\<exists>ds. each_index f n is = Inr ds \<and> list_all (fits k) ds \<and> length (filter makes_index ds) = length is"
  using assms
proof (induction "is" arbitrary: n)
  case (Cons i "is")
  obtain ds where "f n i = Inr ds" "list_all (fits k) ds" "length (filter makes_index ds) = 1"
    using Cons.prems [of n i] by (auto simp: one_index_def)
  moreover obtain ds' where "each_index f (Suc n) is = Inr ds'" "list_all (fits k) ds'" "length (filter makes_index ds') = length is"
    using Cons.IH [of "Suc n"] Cons.prems by auto
  ultimately show ?case by auto
qed simp

text \<open>The statements of one collection: they fit, make its table, and make each of its indexes.\<close>

definition one_collection :: "nat \<Rightarrow> string \<Rightarrow> collection_plan \<Rightarrow> store_error + ddl list \<Rightarrow> bool" where
  "one_collection k t c r \<longleftrightarrow>
     (\<exists>ds. r = Inr ds \<and> list_all (fits k) ds \<and> length (filter makes_index ds) = length (cp_indexes c) \<and>
        (\<exists>s \<in> set ds. ddl_kind s = TableDdl \<and> ddl_name s = quote_ident t))"

lemma each_collection_ok:
  assumes "\<And>c. c \<in> set cs \<Longrightarrow> one_collection k (t c) c (f c)"
  shows "\<exists>ds. each_collection f cs = Inr ds \<and> list_all (fits k) ds \<and>
    length (filter makes_index ds) = sum_list (map (\<lambda>c. length (cp_indexes c)) cs) \<and>
    (\<forall>c \<in> set cs. \<exists>s \<in> set ds. ddl_kind s = TableDdl \<and> ddl_name s = quote_ident (t c))"
  using assms
proof (induction cs)
  case (Cons c cs)
  obtain ds where d: "f c = Inr ds" "list_all (fits k) ds" "length (filter makes_index ds) = length (cp_indexes c)"
      "\<exists>s \<in> set ds. ddl_kind s = TableDdl \<and> ddl_name s = quote_ident (t c)"
    using Cons.prems [of c] by (auto simp: one_collection_def)
  obtain ds' where d': "each_collection f cs = Inr ds'" "list_all (fits k) ds'"
      "length (filter makes_index ds') = sum_list (map (\<lambda>c. length (cp_indexes c)) cs)"
      "\<forall>c \<in> set cs. \<exists>s \<in> set ds'. ddl_kind s = TableDdl \<and> ddl_name s = quote_ident (t c)"
    using Cons.IH Cons.prems by auto
  have "\<forall>c' \<in> set (c # cs). \<exists>s \<in> set (ds @ ds'). ddl_kind s = TableDdl \<and> ddl_name s = quote_ident (t c')"
    using d(4) d'(4) by auto
  with d d' show ?case by (intro exI [of _ "ds @ ds'"]) simp
qed simp

text \<open>What a validated manifest's collections are.\<close>

definition sized :: "collection_plan \<Rightarrow> bool" where
  "sized c \<longleftrightarrow> check_ident (cp_name c) \<and> list_all name_char (cp_name c) \<and> length (cp_name c) \<le> 47 \<and>
     list_all wf_index (cp_indexes c) \<and> length (cp_indexes c) \<le> 10000"

lemma apply_collection_fits:
  assumes "sized c" "list_all name_char schema" "length schema \<le> 63"
  shows "one_collection 128 (schema @ ''__'' @ cp_name c) c (apply_collection alias schema c)"
proof -
  let ?b = "schema @ ''__'' @ cp_name c"
  have c: "check_ident (cp_name c)" "list_all wf_index (cp_indexes c)" "length (cp_indexes c) \<le> 10000"
    using assms(1) by (simp_all add: sized_def)
  have b: "list_all name_char ?b" "length ?b \<le> 112" using assms unfolding list_all_append sized_def by simp_all
  then have t: "list_all name_char (?b @ ''_touch'')" "length (?b @ ''_touch'') \<le> 128" unfolding list_all_append by simp_all
  have d: "derived_ident ?b ''_touch'' = Inr (quote_ident (?b @ ''_touch''))"
    using t(2) by (simp add: derived_ident_def max_identifier_len_def)
  have "one_index 128 (apply_index alias schema (cp_name c) (quote_ident ?b) j i)" if "j < length (cp_indexes c)" "i \<in> set (cp_indexes c)" for j i
    by (rule apply_index_fits [OF _ _ b]) (use c(2,3) that in \<open>auto simp: list_all_iff\<close>)
  then obtain ds where ds: "each_index (apply_index alias schema (cp_name c) (quote_ident ?b)) 0 (cp_indexes c) = Inr ds"
      "list_all (fits 128) ds" "length (filter makes_index ds) = length (cp_indexes c)"
    using each_index_ok [of 0 "cp_indexes c" 128 "apply_index alias schema (cp_name c) (quote_ident ?b)"] by auto
  show ?thesis
    unfolding one_collection_def apply_collection_def Let_def d checked_ident_def if_P [OF c(1)] sum.case ds(1) also_do_Inr
    using ds(2,3) quote_plain [OF b(1), of 128] quote_plain [OF t] b(2) by (simp add: fits_def makes_index_def)
qed

lemma apply_collection_pg_fits:
  assumes "sized c"
  shows "one_collection 63 (cp_name c) c (apply_collection_pg schema c)"
proof -
  let ?t = "table_name Postgres [] schema (cp_name c)"
  have c: "check_ident (cp_name c)" "list_all name_char (cp_name c)" "length (cp_name c) \<le> 47"
      "list_all wf_index (cp_indexes c)" "length (cp_indexes c) \<le> 10000"
    using assms by (simp_all add: sized_def)
  have t: "pg_derived_ident (cp_name c) ''_touch'' = Inr (quote_ident (cp_name c @ ''_touch''))" "plain 63 (quote_ident (cp_name c @ ''_touch''))"
    using pg_derived [of "cp_name c" "''_touch''"] c(2,3) unfolding list_all_append by simp_all
  have "one_index 63 (apply_index_pg schema (cp_name c) ?t j i)" if "j < length (cp_indexes c)" "i \<in> set (cp_indexes c)" for j i
    by (rule apply_index_pg_fits [OF _ _ c(2,3)]) (use c(4,5) that in \<open>auto simp: list_all_iff\<close>)
  then obtain ds where ds: "each_index (apply_index_pg schema (cp_name c) ?t) 0 (cp_indexes c) = Inr ds"
      "list_all (fits 63) ds" "length (filter makes_index ds) = length (cp_indexes c)"
    using each_index_ok [of 0 "cp_indexes c" 63 "apply_index_pg schema (cp_name c) ?t"] by auto
  show ?thesis
    unfolding one_collection_def apply_collection_pg_def Let_def t(1) checked_ident_def if_P [OF c(1)] sum.case ds(1) also_do_Inr
    using ds(2,3) t(2) quote_plain [OF c(2), of 63] c(3) by (simp add: fits_def makes_index_def)
qed

lemma parse_indexes_length: "parse_indexes ds = Inr is \<Longrightarrow> length is = length ds"
  by (induction ds arbitrary: "is") (auto split: sum.split_asm)

lemma plan_collections_sizes:
  "plan_collections cs = Inr ps \<Longrightarrow>
   map (\<lambda>q. (cp_name q, length (cp_indexes q))) ps = map (\<lambda>c. (c_name c, length (c_indexes c))) cs"
  by (induction cs arbitrary: ps) (auto dest: parse_indexes_length split: sum.split_asm)

text \<open>The plan of a validated manifest: its schema name and its collections are within the bounds.\<close>

lemma plan_sized:
  assumes ok: "validate m = Inr ()"
    and digest: "\<And>s. length (sha256_hex s) = 64 \<and> list_all (\<lambda>c. is_digit c \<or> c \<in> set ''abcdef'') (sha256_hex s)"
    and few: "\<forall>c \<in> set (mf_collections m). length (c_indexes c) \<le> 10000"
  obtains plan where "schema_plan_of sha256_hex m k i = Inr plan" "list_all sized (sp_collections plan)"
    "check_ident (sp_schema plan)" "list_all name_char (sp_schema plan)" "length (sp_schema plan) \<le> 63"
    "map (\<lambda>q. (cp_name q, length (cp_indexes q))) (sp_collections plan) =
       (if manifest_kind m = App then map (\<lambda>c. (c_name c, length (c_indexes c))) (mf_collections m) else [])"
proof -
  note v = validated_manifest_plan [OF ok, of sha256_hex k i] digest
  let ?n = "schema_name sha256_hex (mf_name m) k i"
  have c: "\<forall>c \<in> set (mf_collections m). name_re (c_name c) \<and> length (c_name c) \<le> 47"
    using collection_errs_none [OF validate_ok(3) [OF ok]] by auto
  obtain plan where p: "schema_plan_of sha256_hex m k i = Inr plan" "\<forall>q \<in> set (sp_collections plan). list_all wf_index (cp_indexes q)"
    and n: "length ?n \<le> 63" "list_all name_char (mf_name m)"
    using validated_manifest_plan [OF ok, of sha256_hex k i] digest by auto
  have "list_all name_char (take owner_suffix_len (sha256_hex (k @ '':'' @ i)))"
    using digest [of "k @ '':'' @ i"] by (auto simp: list_all_iff name_char_def is_lower_def dest!: in_set_takeD)
  then have s: "list_all name_char ?n" "hd ?n = CHR ''a''" "?n \<noteq> []" "sp_schema plan = ?n"
    using n(2) p(1) unfolding schema_name_def list_all_append schema_prefix_def
    by (auto simp: schema_plan_of_def schema_name_def schema_prefix_def Let_def split: if_split_asm sum.split_asm)
  have id: "check_ident ?n"
  proof -
    obtain x xs where x: "?n = x # xs" using s(3) by (cases ?n) auto
    have "is_lower (CHR ''a'')" by code_simp
    with x s(1,2) n(1) show ?thesis by (auto simp: check_ident_def max_identifier_len_def name_char_def [abs_def])
  qed
  have m: "map (\<lambda>q. (cp_name q, length (cp_indexes q))) (sp_collections plan) =
      (if manifest_kind m = App then map (\<lambda>c. (c_name c, length (c_indexes c))) (mf_collections m) else [])"
    using p(1) plan_collections_sizes by (auto simp: schema_plan_of_def Let_def split: if_split_asm sum.split_asm)
  have "sized q" if q: "q \<in> set (sp_collections plan)" for q
  proof -
    have "(cp_name q, length (cp_indexes q)) \<in> set (map (\<lambda>q. (cp_name q, length (cp_indexes q))) (sp_collections plan))" using q by simp
    then obtain c' where "c' \<in> set (mf_collections m)" "cp_name q = c_name c'" "length (cp_indexes q) = length (c_indexes c')"
      unfolding m by (auto split: if_split_asm)
    with c few p(2) q show ?thesis using name_re_ident name_re_chars by (auto simp: sized_def)
  qed
  then have "list_all sized (sp_collections plan)" by (simp add: list_all_iff)
  with that [OF p(1) this] id s n(1) m show thesis by simp
qed


definition pg_env :: data_env where
  "pg_env = sample_env\<lparr>de_engine := Postgres\<rparr>"


section \<open>Where names run out or meet\<close>

text \<open>
  Nothing bounds the indexes of a collection, and the ten-thousand-and-first vector index of one with the
  longest name is refused on Postgres.
\<close>

lemma index_ten_thousand_refused:
  "pg_derived_ident (replicate 47 CHR ''a'') (index_suffix \<lparr>ix_method = Vector, ix_path = [''v''], ix_dim = 3\<rparr> 9999) \<noteq>
     Inl (unsafe_identifier (replicate 47 CHR ''a'' @ ''_vector_9999_idx'')) \<and>
   pg_derived_ident (replicate 47 CHR ''a'') (index_suffix \<lparr>ix_method = Vector, ix_path = [''v''], ix_dim = 3\<rparr> 10000) =
     Inl (unsafe_identifier (replicate 47 CHR ''a'' @ ''_vector_10000_idx''))"
  by code_simp

text \<open>
  The name derived for an index of one collection can be the name of another. A manifest with the
  collections \<open>a\<close> and \<open>a_btree_0_idx\<close> is valid, and its plan asks for an index and then for a table under
  one name in one schema; on Postgres, where both are relations and both statements say IF NOT EXISTS,
  the second is skipped and its collection has no table.
\<close>

definition colliding_manifest :: manifest where
  "colliding_manifest = journal_manifest\<lparr>mf_collections :=
     [\<lparr>c_name = ''a'', c_crud = False, c_indexes = [''btree(x)'']\<rparr>, \<lparr>c_name = ''a_btree_0_idx'', c_crud = False, c_indexes = []\<rparr>],
     mf_tools := [], mf_routes := []\<rparr>"

lemma derived_name_collides:
  "validate colliding_manifest = Inr () \<and>
   (case schema_plan_of (\<lambda>s. replicate 64 (CHR ''a'')) colliding_manifest ''user'' ''1'' of
      Inl _ \<Rightarrow> False
    | Inr plan \<Rightarrow>
        (case snd (apply_schema_plan pg_env (\<lambda>_. None) (owner_user 1) plan) of
           Inl _ \<Rightarrow> False
         | Inr ds \<Rightarrow>
             map (\<lambda>s. (ddl_kind s, ddl_in s)) (filter (\<lambda>s. ddl_name s = quote_ident ''a_btree_0_idx'') ds) =
               [(IndexDdl, quote_ident (sp_schema plan)), (TableDdl, quote_ident (sp_schema plan))]))"
  by code_simp

text \<open>
  Two installs of one owner can share a table. On SQLite the schema name and the collection are joined by
  two underscores, which a name may itself contain: the app \<open>a\<close> with a collection named after the owner's
  digest and the app named after it in turn derive one table for two collections, and uninstalling the
  first drops every table of the second.
\<close>

lemma installs_share_a_table:
  "(let sha = (\<lambda>s. replicate 64 (CHR ''a'')); first = schema_name sha ''a'' ''user'' ''1''; second = schema_name sha ''a_aaaaaaaa__z'' ''user'' ''1''
    in first \<noteq> second \<and> name_re ''a_aaaaaaaa__z'' \<and> check_ident ''z_aaaaaaaa__notes'' \<and>
       table_name Sqlite alias first ''z_aaaaaaaa__notes'' = table_name Sqlite alias second ''notes'' \<and>
       snd (drop_schema_plan sample_env (\<lambda>_. None) (owner_user 1) [(second @ ''__drafts'', None)] \<lparr>sp_schema = first, sp_collections = []\<rparr>)
         = Inr [owner_table (owner_alias sample_env (owner_user 1)) (second @ ''__drafts'')])"
proof -
  let ?first = "schema_name (\<lambda>s. replicate 64 (CHR ''a'')) ''a'' ''user'' ''1''"
  let ?second = "schema_name (\<lambda>s. replicate 64 (CHR ''a'')) ''a_aaaaaaaa__z'' ''user'' ''1''"
  have n: "?first \<noteq> ?second" "name_re ''a_aaaaaaaa__z''" "check_ident ''z_aaaaaaaa__notes''"
    "?first @ ''__'' @ ''z_aaaaaaaa__notes'' = ?second @ ''__'' @ ''notes''" by code_simp+
  have "table_name Sqlite alias ?first ''z_aaaaaaaa__notes'' = table_name Sqlite alias ?second ''notes''"
    unfolding table_name_def engine.case n(4) ..
  moreover have "snd (drop_schema_plan sample_env (\<lambda>_. None) (owner_user 1) [(?second @ ''__drafts'', None)] \<lparr>sp_schema = ?first, sp_collections = []\<rparr>)
      = Inr [owner_table (owner_alias sample_env (owner_user 1)) (?second @ ''__drafts'')]" by code_simp
  ultimately show ?thesis using n(1-3) unfolding Let_def by blast
qed

end
