(* ===== verification/Spec2Isabelle.thy ===== *)
theory Spec2Isabelle
  imports Hive_Installs Hive_Surface Hive_Stream Hive_Catalog Hive_Host Hive_Worker Hive_Egress Hive_Surfaces Hive_Documents Hive_Docquery Hive_Provision
begin

text \<open>
  A verification library for hive-mind: a server on which people and AI actors install small
  WebAssembly apps that share documents, files and events under one access policy.

  \<^bold>\<open>The program.\<close> Everything the server decides rests on a control-plane database (SQLite or
  Postgres, \<open>crates/hive-schema/migrations\<close>). Actors, organisations, installs and grants are rows of
  it; one composed SQL query (\<open>hive-store/src/predicate.rs\<close>) says whether a credential may read or
  write a subject, and a guard (\<open>grants.rs\<close>) puts that query in front of every operation and audits
  break-glass accesses in a file of its own. Callers prove who they are with opaque tokens
  (\<open>credentials.rs\<close>, \<open>appcred.rs\<close>, \<open>hive-httpauth\<close>). Apps come as manifests (\<open>hive-manifest\<close>), are
  staged and activated as installs (\<open>installs.rs\<close>) and run in a WebAssembly host (\<open>hive-wasmhost\<close>)
  that hands their calls to the store with the caller's credential and tracks a trust level through
  the invocation. Their tools and routes are offered to callers by the tools tier (\<open>hive-mcp\<close>,
  \<open>hive-surfaces\<close>), and what they store is documents (\<open>appdata.rs\<close>) whose bodies may name files.
  Files live in a content-addressed blob store (\<open>hive-blob\<close>). What happens is appended to an event
  log (\<open>events.rs\<close>, \<open>guestevents.rs\<close>), tailed by a bus (\<open>hive-bus\<close>) and sent to clients as
  server-sent events (\<open>hive-sse\<close>, \<open>hive-bus/src/sse.rs\<close>), filtered by the same policy. Requests of
  local models wait in a job queue (\<open>models.rs\<close>). A conversation with an agent is a ledger of turns
  (\<open>chat.rs\<close>) that a worker (\<open>hive-chat\<close>) answers by runs (\<open>agentruns.rs\<close>) in containers
  (\<open>hive-harness\<close>), whose only way out is a proxy with an allowlist (\<open>hive-egress\<close>).

  \<^bold>\<open>The theories\<close>, group by group.
  \<^item> \<open>Hive_Prelude\<close>: rows as lists, updates and counts over them, string helpers, shared lemmas.
  \<^item> \<open>Hive_Trust\<close> (\<open>hive-trust\<close>): the two levels and their meet. \<open>Hive_Identity\<close> (\<open>hive-identity\<close>):
    credentials, principals, owners.
  \<^item> \<open>Hive_Schema\<close>: the control-plane tables as a record of row lists, the owner view, the error type.
  \<^item> \<open>Hive_Predicate\<close> (\<open>predicate.rs\<close>): the query, term for term, and the declarative policy \<^term>\<open>may\<close> it
    is proved to implement. \<open>Hive_Guard\<close>: each entry point of the guard with the audit file.
    \<open>Hive_Grants\<close>: every writer of the grants table with the table's checks, trigger, unique index
    and delete cascade. \<open>Hive_Installs\<close>: staging, standing authorities, activation.
  \<^item> \<open>Hive_Credentials\<close> (\<open>credentials.rs\<close>, \<open>appcred.rs\<close>, \<open>actors.rs\<close>): tokens issued, resolved and
    revoked, the actor of an install. \<open>Hive_Httpauth\<close> (\<open>hive-httpauth\<close>, and login and credentials of
    \<open>hive-httpapi\<close>): where a token is read from a request, sessions and their cookie.
  \<^item> \<open>Hive_Manifest\<close>, \<open>Hive_Surface\<close> (\<open>hive-manifest\<close>): validation, index declarations, names, and the
    tools and routes derived from a manifest.
  \<^item> \<open>Hive_Mcp\<close>, \<open>Hive_Surfaces\<close> (\<open>hive-mcp\<close>, \<open>hive-surfaces\<close>, \<open>mcp.rs\<close> and \<open>apps.rs\<close> of
    \<open>hive-httpapi\<close>): the installs a caller reaches, listing and calling their tools, matching and
    running their routes.
  \<^item> \<open>Hive_Docblobs\<close> (\<open>docblobs.rs\<close>): the walk that finds the files a body names. \<open>Hive_Appdata\<close>
    (\<open>appdata.rs\<close>, \<open>owners.rs\<close>): insert, get, update and delete with their gates, rows, links, names,
    references and events. \<open>Hive_Documents\<close>: what these verbs keep and allow. \<open>Hive_Docquery\<close>: the
    listing with filters, orders and cursors, read in batches. \<open>Hive_Provision\<close> (\<open>appschema.rs\<close>): the
    statements that make an install's tables, triggers and indexes on either engine, by their names.
  \<^item> \<open>Hive_Events\<close> (\<open>events.rs\<close>): kinds, cursors, appending, tailing, replay and visibility.
    \<open>Hive_Guestevents\<close>: events an app raises. \<open>Hive_Sse\<close>: the frames and a client's reading of them.
    \<open>Hive_Bus\<close>: hub and tailer as a step relation. \<open>Hive_Stream\<close>: one client's request from
    authentication to the live loop.
  \<^item> \<open>Hive_Hash\<close>, \<open>Hive_Disk\<close>, \<open>Hive_Catalog\<close> (\<open>hive-blob\<close>): addresses, the disk driver with uploads and
    seals, the catalog of blobs and references, relocation between drivers.
  \<^item> \<open>Hive_Abi\<close>, \<open>Hive_Host\<close> (\<open>hive-wasmhost\<close>): capabilities, the packed words of the guest interface,
    every host function, the link gate, the instance pool, calls and pinned instances.
  \<^item> \<open>Hive_Lifecycle\<close>: the contract of a table of work items. \<open>Hive_Jobs\<close> (\<open>models.rs\<close>): the model job
    queue and its guest capability. \<open>Hive_Runs\<close> (\<open>agentruns.rs\<close>), \<open>Hive_Chat\<close> (\<open>chat.rs\<close>): runs,
    conversations, messages and turns. \<open>Hive_Turns\<close>: both stores under any sequence of operations.
    \<open>Hive_Worker\<close> (\<open>hive-chat\<close>): the answer, the hub, and the worker.
  \<^item> \<open>Hive_Spec\<close>, \<open>Hive_Podman\<close>, \<open>Hive_Supervisor\<close> (\<open>hive-harness\<close>): specs and their validation, the
    command lines of containers, networks and proxies, and the supervision of a run from its record
    to its teardown. \<open>Hive_Ip\<close>, \<open>Hive_Egress\<close> (\<open>hive-egress\<close>): addresses and their text, the allowlist,
    resolving and dialling, the two kinds of proxy request.

  \<^bold>\<open>How state and effects are modelled.\<close> A table is a list of row records in insertion order; a
  statement is a function on it that states which rows it reads, changes or refuses, with the
  constraints of the migration as explicit branches. A function of the source becomes one function
  here that takes the database and returns the new one with its result; an error is a value of a sum
  type, and a failed transaction returns the database it was given. Each reading of the clock and
  each random id is an argument. Concurrency is the order of whole transactions: components that run
  side by side are step relations whose steps are their operations, and where one operation of the
  source spans several transactions, what others do in between is an argument. Identifiers are
  natural numbers with the nil uuid as 0, times are integers (microseconds), bytes and text are
  \<open>string\<close>. Machine words keep their width where the code packs or shifts them (\<open>Hive_Abi\<close>,
  \<open>Hive_Ip\<close>). What the program does outside itself (commands it runs, addresses it dials) is a trace.

  \<^bold>\<open>Parameters.\<close> Third-party code is an argument: the digest function and the hex codec (interpreted by
  a concrete codec), JSON parsing and printing, the WebAssembly engine (a guest run is the list of
  host calls it makes and how it ends), how a process ends, what it prints and how long its teardown
  takes, the answers of name servers and of connecting (which may change from one to the next), what an engine's text and vector
  indexes match. Laws such a parameter needs are the hypotheses of the theorems or the assumptions of a locale that is
  interpreted on the model.

  \<^bold>\<open>What is shown.\<close> The query implements the policy, and the policy has the properties the design
  relies on: an AI never exceeds its principal, another install needs an install grant, break-glass
  is the last resort. The guard audits every override before it allows it and its set reads agree
  with its point checks. Every writer keeps the grants table well formed and needs authority;
  revocation cascades; activation meets the declared uses. Revoked tokens stay dead, failed
  authentications look alike, a session cookie carries its token back. A manifest that validates
  is provisioned under names that fit the engine, the derived surface is exactly what is declared, what is listed is what can be
  called, and a route runs only for those allowed. Documents are read only as the policy allows,
  their trust only weakens, who writes one holds exactly the files it names, and a listing is the first
  matching readable documents. The log is append-only, feeds follow the policy of the moment, an app
  speaks in its own name, frames cannot be forged; the bus broadcasts nothing twice, its drain loop
  ends and its cycle delivers everything; live delivery is authorized. Referenced bytes are kept and
  a digest is not a token. A guest cannot launder taint. A model job follows its life cycle, a
  conversation has one turn at a time, a run is isolated, its output does not depend on how it is
  cut, its teardown is started on every path and ends early only at its grace, and it reaches only
  what its allowlist permits, by one lookup. Further lemmas
  record behaviour the source's comments do not promise: a delete that names another collection, a
  cursor whose document is gone, two installs of one slug in the tools list, a late answer after a
  turn was reclaimed, the port of the name servers, a pinned instance that dies with its
  first untrusted chunk, two installs that share a table, an index named like another collection.

  \<^bold>\<open>Interfaces.\<close> Locales state what one part relies on of another, and each is interpreted on the
  model's own definitions: \<open>taint_order\<close>, the meet the host relies on, by the trust levels;
  \<open>column_codec\<close>, a column that reads back what was written, by every enumeration of the tables;
  \<open>hex_coding\<close>, by the hex codec; \<open>slot_map\<close>, the deriver's table of overridable entries, by tools and by
  routes; \<open>lifecycle\<close>, by blobs, references, model jobs, turns and runs; \<open>launcher\<close>, by the command
  lines of runs and of apps; \<open>tool_guard\<close>, by the access checks of the surfaces; \<open>paged_scan\<close>, by the
  document listing.

  \<^bold>\<open>Bounds and fuel.\<close> The drain loop of the tailer carries a fuel that is proved sufficient for a log at
  rest. The batches of a listing carry a fuel for which one more than the number of rows is proved
  enough. Waiting for the proxy counts the checks of the clock before the
  deadline. The delete cascade of grants terminates by the number of rows left and the
  reading of a pipe by the bytes left.

  \<^bold>\<open>Not modelled.\<close> The database engines, the pool of connections and the migration runner: the meaning of
  their statements is what the tables here state. What the mirror triggers of an
  index copy, first start and the registration of builds
  (\<open>bootstrap.rs\<close>, \<open>builds.rs\<close>, \<open>core.rs\<close>), the blob verbs of a guest (\<open>guestblobs.rs\<close>) over the catalog
  that is modelled, the model worker (\<open>hive-models\<close>), which moves jobs between the queue and a model
  server, the registry's compiler, the remaining HTTP handlers, templates and assets, and the
  composition of the process: calls of the operations above, and input and output around them.
\<close>

end
